(* ===== verification/Prelude.thy ===== *)
theory Prelude
  imports Main "HOL-Library.Word"
begin

text \<open>
  Shared vocabulary of the development.

  \<^item> Times are \<^typ>\<open>int\<close>: nanoseconds since Go's zero \<open>time.Time\<close>, so the zero value is \<open>0\<close>
    and \<open>IsZero\<close> is \<open>t = 0\<close>.  Durations are nanoseconds too.  Go saturates \<open>Time.Sub\<close> at 292 years;
    the model subtracts exactly, so it speaks of clocks within that range.
  \<^item> A relational table is the list of its rows.  \<open>tbl_update\<close>, \<open>tbl_delete\<close>, \<open>tbl_find\<close> and
    \<open>tbl_count\<close> are what one UPDATE, DELETE, SELECT and RowsAffected do.
  \<^item> A component that runs a sequence of operations on a state is an instance of \<open>invariant_machine\<close>:
    its clients get preservation over whole runs from preservation by one operation.
  \<^item> \<open>keyed_table\<close> is the contract of a table with a primary key.
\<close>

named_theorems tbl_simps \<open>rewrite rules for table operations\<close>
named_theorems handler_defs \<open>unfolding rules for request handlers\<close>

type_synonym time = int
type_synonym duration = int
type_synonym 'a result = "string + 'a"

abbreviation second :: duration where
  "second \<equiv> 1000000000"

abbreviation minute :: duration where
  "minute \<equiv> 60000000000"

text \<open>\<open>Time.Unix()\<close> and \<open>time.Unix(n, 0)\<close>: seconds since 1970, of a time and back.\<close>

definition to_unix :: "time \<Rightarrow> int" where
  "to_unix t = t div 1000000000 - 62135596800"

definition of_unix :: "int \<Rightarrow> time" where
  "of_unix n = (n + 62135596800) * 1000000000"

lemma to_unix_of_unix [simp]: "to_unix (of_unix n) = n"
  by (simp add: to_unix_def of_unix_def)

lemma of_unix_to_unix: "of_unix (to_unix t) \<le> t" "t < of_unix (to_unix t) + second"
  by (simp_all add: to_unix_def of_unix_def)

lemma of_unix_mono [simp]: "of_unix m \<le> of_unix n \<longleftrightarrow> m \<le> n" "of_unix m < of_unix n \<longleftrightarrow> m < n"
  by (simp_all add: of_unix_def)

section \<open>Responses\<close>

text \<open>What a handler writes: the status, the message of the envelope and a body.\<close>

record 'b reply =
  status :: nat
  message :: string
  body :: "'b option"

abbreviation write_error :: "nat \<Rightarrow> string \<Rightarrow> 'b reply" where
  "write_error c m \<equiv> \<lparr>status = c, message = m, body = None\<rparr>"

abbreviation write_ok :: "nat \<Rightarrow> string \<Rightarrow> 'b \<Rightarrow> 'b reply" where
  "write_ok c m b \<equiv> \<lparr>status = c, message = m, body = Some b\<rparr>"

section \<open>Tables\<close>

definition tbl_update :: "('r \<Rightarrow> bool) \<Rightarrow> ('r \<Rightarrow> 'r) \<Rightarrow> 'r list \<Rightarrow> 'r list" where
  "tbl_update p f t = map (\<lambda>r. if p r then f r else r) t"

definition tbl_delete :: "('r \<Rightarrow> bool) \<Rightarrow> 'r list \<Rightarrow> 'r list" where
  "tbl_delete p t = filter (\<lambda>r. \<not> p r) t"

definition tbl_count :: "('r \<Rightarrow> bool) \<Rightarrow> 'r list \<Rightarrow> nat" where
  "tbl_count p t = length (filter p t)"

definition tbl_find :: "('r \<Rightarrow> bool) \<Rightarrow> 'r list \<Rightarrow> 'r option" where
  "tbl_find p t = List.find p t"

lemma tbl_find_Nil [tbl_simps]: "tbl_find p [] = None"
  by (simp add: tbl_find_def)

lemma tbl_find_Cons [tbl_simps]: "tbl_find p (r # t) = (if p r then Some r else tbl_find p t)"
  by (simp add: tbl_find_def)

lemma tbl_find_Some: "tbl_find p t = Some r \<Longrightarrow> p r \<and> r \<in> set t"
  by (auto simp: tbl_find_def find_Some_iff)

lemma tbl_find_None [tbl_simps]: "tbl_find p t = None \<longleftrightarrow> (\<forall>r \<in> set t. \<not> p r)"
  by (auto simp: tbl_find_def find_None_iff)

lemma tbl_count_0 [tbl_simps]: "tbl_count p t = 0 \<longleftrightarrow> (\<forall>r \<in> set t. \<not> p r)"
  by (auto simp: tbl_count_def filter_empty_conv)

lemma tbl_count_pos: "r \<in> set t \<Longrightarrow> p r \<Longrightarrow> 0 < tbl_count p t"
  by (meson neq0_conv tbl_count_0)

lemma set_tbl_update [tbl_simps]:
  "set (tbl_update p f t) = (\<lambda>r. if p r then f r else r) ` set t"
  by (simp add: tbl_update_def)

lemma set_tbl_delete [tbl_simps]: "set (tbl_delete p t) = {r \<in> set t. \<not> p r}"
  by (auto simp: tbl_delete_def)

lemma length_tbl_update [tbl_simps]: "length (tbl_update p f t) = length t"
  by (simp add: tbl_update_def)

lemma tbl_update_Nil [tbl_simps]: "tbl_update p f [] = []"
  by (simp add: tbl_update_def)

lemma tbl_update_Cons [tbl_simps]:
  "tbl_update p f (r # t) = (if p r then f r else r) # tbl_update p f t"
  by (simp add: tbl_update_def)

lemma tbl_update_id: "(\<And>r. r \<in> set t \<Longrightarrow> \<not> p r) \<Longrightarrow> tbl_update p f t = t"
  by (simp add: tbl_update_def map_idI)

text \<open>An update that keeps the key moves the looked-up row to its image and leaves the others alone.\<close>

lemma tbl_find_update_same:
  assumes "\<And>r. key (f r) = key r"
  shows "tbl_find (\<lambda>r. key r = k) (tbl_update (\<lambda>r. key r = k) f t)
         = map_option f (tbl_find (\<lambda>r. key r = k) t)"
  using assms by (induction t) (auto simp: tbl_simps)

lemma tbl_find_update_other:
  assumes "\<And>r. key (f r) = key r" and "\<And>r. key r = k \<Longrightarrow> \<not> p r"
  shows "tbl_find (\<lambda>r. key r = k) (tbl_update p f t) = tbl_find (\<lambda>r. key r = k) t"
  using assms by (induction t) (auto simp: tbl_simps)

lemma tbl_find_update_any:
  assumes "\<And>r. key (f r) = key r"
  shows "tbl_find (\<lambda>r. key r = k) (tbl_update p f t)
         = map_option (\<lambda>r. if p r then f r else r) (tbl_find (\<lambda>r. key r = k) t)"
  using assms by (induction t) (auto simp: tbl_simps)

lemma map_key_update:
  assumes "\<And>r. key (f r) = key r"
  shows "map key (tbl_update p f t) = map key t"
  using assms by (auto simp: tbl_update_def)

lemma distinct_map_tbl_delete: "distinct (map key t) \<Longrightarrow> distinct (map key (tbl_delete p t))"
  by (simp add: tbl_delete_def distinct_map_filter)

lemma tbl_find_append [tbl_simps]:
  "tbl_find p (t @ u) = (case tbl_find p t of Some r \<Rightarrow> Some r | None \<Rightarrow> tbl_find p u)"
  by (induction t) (auto simp: tbl_simps)

lemma tbl_find_distinct:
  assumes "distinct (map key t)" and "r \<in> set t"
  shows "tbl_find (\<lambda>x. key x = key r) t = Some r"
  using assms
proof (induction t)
  case Nil
  then show ?case by simp
next
  case (Cons x t)
  then show ?case
    by (cases "x = r") (auto simp: tbl_simps rev_image_eqI)
qed

section \<open>Runs of operations\<close>

text \<open>
  The contract of a state machine whose enabled operations keep an invariant.  The client's lemma is
  that whole runs of enabled operations keep it, from any state and for every prefix of the run.  A
  machine that keeps its invariant under every operation is the case where all are enabled.
\<close>

locale guarded_machine =
  fixes step :: "'op \<Rightarrow> 's \<Rightarrow> 's"
    and inv :: "'s \<Rightarrow> bool"
    and enabled :: "'op \<Rightarrow> bool"
  assumes guarded_step: "enabled a \<Longrightarrow> inv s \<Longrightarrow> inv (step a s)"
begin

lemma guarded_run: "list_all enabled as \<Longrightarrow> inv s \<Longrightarrow> inv (fold step as s)"
  by (induction as arbitrary: s) (auto intro: guarded_step)

lemma guarded_prefix: "list_all enabled as \<Longrightarrow> inv s \<Longrightarrow> inv (fold step (take n as) s)"
  by (intro guarded_run) (auto simp: list_all_iff dest: in_set_takeD)

end

locale invariant_machine =
  fixes step :: "'op \<Rightarrow> 's \<Rightarrow> 's"
    and inv :: "'s \<Rightarrow> bool"
  assumes step_inv: "inv s \<Longrightarrow> inv (step a s)"

sublocale invariant_machine \<subseteq> guarded_machine step inv "\<lambda>_. True"
  by unfold_locales (rule step_inv)

context invariant_machine begin

lemma run_inv: "inv s \<Longrightarrow> inv (fold step as s)"
  by (rule guarded_run) (simp_all add: list_all_iff)

lemma run_prefix_inv: "inv s \<Longrightarrow> inv (fold step (take n as) s)"
  by (rule run_inv)

end

text \<open>
  A machine with a measure that no operation increases: the bound of the start state holds throughout.
\<close>

locale bounded_machine = invariant_machine step inv
  for step :: "'op \<Rightarrow> 's \<Rightarrow> 's" and inv :: "'s \<Rightarrow> bool" +
  fixes size :: "'s \<Rightarrow> nat" and bound :: nat
  assumes inv_bound: "inv s \<Longrightarrow> size s \<le> bound"
begin

lemma run_bound: "inv s \<Longrightarrow> size (fold step as s) \<le> bound"
  by (intro inv_bound run_inv)

end

text \<open>
  The contract of a table with a primary key: what a lookup by key returns after an insert and after
  an update addressed to one key.
\<close>

locale keyed_table =
  fixes key :: "'r \<Rightarrow> 'k"
    and get :: "'k \<Rightarrow> 'r list \<Rightarrow> 'r option"
    and upd :: "'k \<Rightarrow> ('r \<Rightarrow> 'r) \<Rightarrow> 'r list \<Rightarrow> 'r list"
  assumes get_key: "get k t = Some r \<Longrightarrow> key r = k"
    and get_upd_same: "(\<And>r. key (f r) = key r) \<Longrightarrow> get k (upd k f t) = map_option f (get k t)"
    and get_upd_other: "(\<And>r. key (f r) = key r) \<Longrightarrow> k \<noteq> k' \<Longrightarrow> get k' (upd k f t) = get k' t"
    and upd_keys: "(\<And>r. key (f r) = key r) \<Longrightarrow> map key (upd k f t) = map key t"
begin

lemma upd_distinct:
  "(\<And>r. key (f r) = key r) \<Longrightarrow> distinct (map key t) \<Longrightarrow> distinct (map key (upd k f t))"
  by (simp add: upd_keys)

lemma upd_missing: "(\<And>r. key (f r) = key r) \<Longrightarrow> get k t = None \<Longrightarrow> get k (upd k f t) = None"
  by (simp add: get_upd_same)

text \<open>A row keeps every field the update does not write, whichever key is updated.\<close>

lemma upd_frame:
  assumes "\<And>r. key (f r) = key r" and "\<And>r. g (f r) = g r"
  shows "map_option g (get k' (upd k f t)) = map_option g (get k' t)"
proof (cases "k = k'")
  case True
  then show ?thesis by (simp add: get_upd_same [OF assms(1)] option.map_comp o_def assms(2))
next
  case False
  then show ?thesis by (simp add: get_upd_other [OF assms(1)])
qed

end

section \<open>64-bit integers\<close>

text \<open>Go's \<open>int64\<close> (and \<open>int\<close> on the supported platforms) wraps at 64 bits.\<close>

definition wrap64 :: "int \<Rightarrow> int" where
  "wrap64 n = signed_take_bit 63 n"

definition in_int64 :: "int \<Rightarrow> bool" where
  "in_int64 n \<longleftrightarrow> - (2 ^ 63) \<le> n \<and> n < 2 ^ 63"

lemma wrap64_id: "in_int64 n \<Longrightarrow> wrap64 n = n"
  by (auto simp: wrap64_def in_int64_def intro: signed_take_bit_int_eq_self)

lemma wrap64_range: "in_int64 (wrap64 n)"
  using signed_take_bit_int_greater_eq_minus_exp [of 63 n] signed_take_bit_int_less_exp [of 63 n]
  by (simp add: wrap64_def in_int64_def)

end
