(* ===== verification/SafeHttp.thy ===== *)
theory SafeHttp
  imports GoStrings
begin

text \<open>
  The guard of outgoing requests, \<open>runner/safe_http.go\<close>, and the check of \<open>handlers/webhook_handler.go\<close> that
  mirrors it.

  Name resolution is a parameter that may answer differently at every look-up (\<open>n_lookup\<close> takes the number of
  look-ups so far), and so are the peers (\<open>n_serve\<close>).  Reading a URL, resolving a \<open>Location\<close> against one and the
  ASCII form of a host name are fields of the same record.  Of \<open>net/http\<close> the model has what the guard relies on:
  a connection is dialled through the guard or reused from an earlier dial to the same place, and the client
  follows redirects with the method and the body that Go's client gives them.
\<close>

unbundle bit_operations_syntax

section \<open>Addresses\<close>

type_synonym ip = "8 word list"

definition to4 :: "ip \<Rightarrow> ip option" where
  "to4 ip = (if length ip = 4 then Some ip
     else if length ip = 16 \<and> take 10 ip = replicate 10 0 \<and> ip ! 10 = 255 \<and> ip ! 11 = 255 then Some (drop 12 ip)
     else None)"

definition ip_loopback :: "ip \<Rightarrow> bool" where
  "ip_loopback ip = (case to4 ip of Some a \<Rightarrow> a ! 0 = 127 | None \<Rightarrow> ip = replicate 15 0 @ [1])"

definition ip_private :: "ip \<Rightarrow> bool" where
  "ip_private ip = (case to4 ip of
     Some a \<Rightarrow> a ! 0 = 10 \<or> (a ! 0 = 172 \<and> a ! 1 AND 240 = 16) \<or> (a ! 0 = 192 \<and> a ! 1 = 168)
   | None \<Rightarrow> length ip = 16 \<and> ip ! 0 AND 254 = 252)"

definition ip_link_local :: "ip \<Rightarrow> bool" where
  "ip_link_local ip = (case to4 ip of
     Some a \<Rightarrow> a ! 0 = 169 \<and> a ! 1 = 254
   | None \<Rightarrow> length ip = 16 \<and> ip ! 0 = 254 \<and> ip ! 1 AND 192 = 128)"

definition ip_link_multicast :: "ip \<Rightarrow> bool" where
  "ip_link_multicast ip = (case to4 ip of
     Some a \<Rightarrow> a ! 0 = 224 \<and> a ! 1 = 0 \<and> a ! 2 = 0
   | None \<Rightarrow> length ip = 16 \<and> ip ! 0 = 255 \<and> ip ! 1 AND 15 = 2)"

definition ip_unspecified :: "ip \<Rightarrow> bool" where
  "ip_unspecified ip \<longleftrightarrow> to4 ip = Some [0, 0, 0, 0] \<or> ip = replicate 16 0"

definition is_disallowed_ip :: "ip \<Rightarrow> bool" where
  "is_disallowed_ip ip0 =
     (let ip = (case to4 ip0 of Some v4 \<Rightarrow> v4 | None \<Rightarrow> ip0)
      in ip_loopback ip \<or> ip_private ip \<or> ip_link_local ip \<or> ip_link_multicast ip \<or> ip_unspecified ip)"

section \<open>Hosts\<close>

record url_parts =
  up_scheme :: string
  up_host :: string

text \<open>\<open>URL.Hostname\<close>: a port is cut off when it is digits, then brackets are.\<close>

definition last_colon :: "string \<Rightarrow> (string \<times> string) option" where
  "last_colon s = (let r = rev s in case cut (CHR '':'') r of None \<Rightarrow> None | Some (a, b) \<Rightarrow> Some (rev b, rev a))"

definition strip_brackets :: "string \<Rightarrow> string" where
  "strip_brackets h = (if 2 \<le> length h \<and> hd h = CHR ''['' \<and> last h = CHR '']'' then butlast (tl h) else h)"

definition url_hostname :: "string \<Rightarrow> string" where
  "url_hostname host = (case last_colon host of
     None \<Rightarrow> strip_brackets host
   | Some (h, port) \<Rightarrow> strip_brackets (if list_all is_digit port then h else host))"

text \<open>\<open>net.SplitHostPort\<close>; \<open>None\<close> is an error.\<close>

definition split_host_port :: "string \<Rightarrow> (string \<times> string) option" where
  "split_host_port s = (case last_colon s of
     None \<Rightarrow> None
   | Some (h, port) \<Rightarrow>
       if prefix ''['' s then
         (case cut (CHR '']'') (tl s) of
            None \<Rightarrow> None
          | Some (h6, rest) \<Rightarrow> if rest = CHR '':'' # port \<and> CHR ''['' \<notin> set h6 \<and> CHR ''['' \<notin> set port \<and> CHR '']'' \<notin> set port
              then Some (h6, port) else None)
       else if CHR '':'' \<in> set h \<or> CHR ''['' \<in> set s \<or> CHR '']'' \<in> set s then None
       else Some (h, port))"

section \<open>The network\<close>

datatype answer = NoAnswer string | Answer int string string

text \<open>An answer is its status, its body and its \<open>Location\<close> header.\<close>

record net =
  n_url :: "string \<Rightarrow> url_parts option"
  n_join :: "string \<Rightarrow> string \<Rightarrow> string option"
  n_ascii :: "string \<Rightarrow> string"
  n_lookup :: "nat \<Rightarrow> string \<Rightarrow> ip list option"
  n_reuse :: "nat \<Rightarrow> bool"
  n_serve :: "nat \<Rightarrow> ip \<Rightarrow> string \<Rightarrow> string \<Rightarrow> bool \<Rightarrow> answer"

text \<open>A request that went out: the peer, the URL, the method and whether it carried the body.\<close>

record sent =
  sn_ip :: ip
  sn_url :: string
  sn_method :: string
  sn_body :: bool

record client =
  cl_clock :: nat
  cl_pool :: "(string \<times> ip) list"
  cl_sent :: "sent list"

definition lookup_host :: "net \<Rightarrow> string \<Rightarrow> client \<Rightarrow> client \<times> ip list option" where
  "lookup_host N host s = (s\<lparr>cl_clock := cl_clock s + 1\<rparr>, n_lookup N (cl_clock s) host)"

section \<open>The guard\<close>

definition safe_dial :: "net \<Rightarrow> string \<Rightarrow> client \<Rightarrow> client \<times> (string + ip)" where
  "safe_dial N host s =
     (if to_lower host = ''localhost'' then (s, Inl ''ssrf-safe dialer: blocked loopback hostname'')
      else case lookup_host N host s of
        (s1, None) \<Rightarrow> (s1, Inl ''ssrf-safe dialer: resolve'')
      | (s1, Some []) \<Rightarrow> (s1, Inl ''ssrf-safe dialer: no addresses'')
      | (s1, Some (a # as)) \<Rightarrow> (s1, if list_ex is_disallowed_ip (a # as) then Inl ''ssrf-safe dialer: blocked'' else Inr a))"

definition validate_url_runner :: "net \<Rightarrow> string \<Rightarrow> string option" where
  "validate_url_runner N url = (case n_url N url of
     None \<Rightarrow> Some ''webhook delivery blocked: invalid URL''
   | Some u \<Rightarrow>
       if up_scheme u \<noteq> ''http'' \<and> up_scheme u \<noteq> ''https'' then Some ''webhook delivery blocked: URL must use http or https scheme''
       else if up_host u = [] then Some ''webhook delivery blocked: URL must have a host''
       else if to_lower (url_hostname (up_host u)) = ''localhost'' then Some ''webhook delivery blocked: loopback hostname not allowed''
       else None)"

text \<open>\<open>via\<close> requests have been sent before.\<close>

definition safe_check_redirect :: "net \<Rightarrow> nat \<Rightarrow> string \<Rightarrow> client \<Rightarrow> client \<times> string option" where
  "safe_check_redirect N via url s =
     (if 5 \<le> via then (s, Some ''ssrf-safe client: stopped after 5 redirects'')
      else case validate_url_runner N url of
        Some e \<Rightarrow> (s, Some e)
      | None \<Rightarrow>
          let host = (case n_url N url of None \<Rightarrow> [] | Some u \<Rightarrow> url_hostname (up_host u))
          in if host = [] then (s, Some ''ssrf-safe client: redirect target has no host'')
             else case lookup_host N host s of
               (s1, None) \<Rightarrow> (s1, Some ''ssrf-safe client: redirect resolve'')
             | (s1, Some as) \<Rightarrow> (s1, if list_ex is_disallowed_ip as then Some ''ssrf-safe client: redirect blocked'' else None))"

section \<open>The client\<close>

definition conn_key :: "url_parts \<Rightarrow> string" where
  "conn_key u = up_scheme u @ ''://'' @ up_host u"

definition connect :: "net \<Rightarrow> url_parts \<Rightarrow> client \<Rightarrow> client \<times> (string + ip)" where
  "connect N u s = (case (if n_reuse N (cl_clock s) then map_of (cl_pool s) (conn_key u) else None) of
     Some ip \<Rightarrow> (s, Inr ip)
   | None \<Rightarrow> (case safe_dial N (n_ascii N (url_hostname (up_host u))) s of
       (s1, Inl e) \<Rightarrow> (s1, Inl e)
     | (s1, Inr ip) \<Rightarrow> (s1\<lparr>cl_pool := (conn_key u, ip) # cl_pool s1\<rparr>, Inr ip)))"

definition send_request :: "net \<Rightarrow> string \<Rightarrow> bool \<Rightarrow> string \<Rightarrow> client \<Rightarrow> client \<times> (string + (int \<times> string \<times> string))" where
  "send_request N meth has_body url s = (case n_url N url of
     None \<Rightarrow> (s, Inl ''invalid URL'')
   | Some u \<Rightarrow> (case connect N u s of
       (s1, Inl e) \<Rightarrow> (s1, Inl e)
     | (s1, Inr ip) \<Rightarrow>
         let s2 = s1\<lparr>cl_clock := cl_clock s1 + 1,
               cl_sent := cl_sent s1 @ [\<lparr>sn_ip = ip, sn_url = url, sn_method = meth, sn_body = has_body\<rparr>]\<rparr>
         in case n_serve N (cl_clock s1) ip url meth has_body of
              NoAnswer e \<Rightarrow> (s2, Inl e) | Answer code page loc \<Rightarrow> (s2, Inr (code, page, loc))))"

text \<open>The method and the body of the request that follows an answer.\<close>

definition redirect_behavior :: "int \<Rightarrow> string \<Rightarrow> string \<Rightarrow> bool \<Rightarrow> (string \<times> bool) option" where
  "redirect_behavior code loc meth has_body =
     (if loc = [] then None
      else if code = 301 \<or> code = 302 \<or> code = 303
      then Some (if meth \<noteq> ''GET'' \<and> meth \<noteq> ''HEAD'' then ''GET'' else meth, False)
      else if code = 307 \<or> code = 308 then Some (meth, has_body)
      else None)"

function client_do :: "net \<Rightarrow> nat \<Rightarrow> string \<Rightarrow> bool \<Rightarrow> string \<Rightarrow> client \<Rightarrow> client \<times> (string + (int \<times> string))" where
  "client_do N via meth has_body url s = (case send_request N meth has_body url s of
     (s1, Inl e) \<Rightarrow> (s1, Inl e)
   | (s1, Inr (code, page, loc)) \<Rightarrow>
     (case redirect_behavior code loc meth has_body of
        None \<Rightarrow> (s1, Inr (code, page))
      | Some (meth', has_body') \<Rightarrow> (case n_join N url loc of
          None \<Rightarrow> (s1, Inl ''failed to parse Location header'')
        | Some url' \<Rightarrow> (case safe_check_redirect N (Suc via) url' s1 of
            (s2, Some e) \<Rightarrow> (s2, Inl e)
          | (s2, None) \<Rightarrow> client_do N (Suc via) meth' has_body' url' s2))))"
  by pat_completeness auto
termination
  by (relation "measure (\<lambda>(N, via, _). 5 - via)") (auto simp: safe_check_redirect_def split: if_splits)

declare client_do.simps [simp del]

definition http_post :: "net \<Rightarrow> string \<Rightarrow> client \<Rightarrow> client \<times> (string + (int \<times> string))" where
  "http_post N = client_do N 0 ''POST'' True"

section \<open>The check at creation\<close>

definition is_private_host :: "net \<Rightarrow> nat \<Rightarrow> string \<Rightarrow> bool" where
  "is_private_host N k host =
     (let name = (case split_host_port host of Some (h, _) \<Rightarrow> h
          | None \<Rightarrow> if 2 < length host \<and> hd host = CHR ''['' \<and> last host = CHR '']'' then butlast (tl host) else host)
      in name \<in> {''localhost'', ''127.0.0.1'', ''::1''} \<or>
         (case n_lookup N k name of None \<Rightarrow> False | Some as \<Rightarrow> list_ex is_disallowed_ip as))"

definition validate_webhook_url :: "net \<Rightarrow> nat \<Rightarrow> string \<Rightarrow> string option" where
  "validate_webhook_url N k url = (case n_url N url of
     None \<Rightarrow> Some ''invalid URL''
   | Some u \<Rightarrow>
       if up_scheme u \<noteq> ''http'' \<and> up_scheme u \<noteq> ''https'' then Some ''URL must use http or https scheme''
       else if up_host u = [] then Some ''URL must have a host''
       else if is_private_host N k (up_host u) then Some ''URL must not point to private or loopback addresses''
       else None)"

section \<open>The refused addresses\<close>

lemma byte_less: "unat (w::8 word) < 256" using unsigned_less [of w] by simp
lemma byte_eq: "(w::8 word) = v \<longleftrightarrow> unat w = unat v"
  by (simp add: word_unat_eq_iff)
lemma and_high: "unat (w AND NOT (mask k)) = unat w div 2 ^ k * 2 ^ k" for w :: "8 word"
proof -
  have "w AND NOT (mask k) = push_bit k (drop_bit k w)" by (rule bit_word_eqI) (auto simp: bit_simps)
  moreover have "unat w div 2 ^ k * 2 ^ k < 2 ^ 8" proof -
    have "unat w div 2 ^ k * 2 ^ k \<le> unat w" by (simp add: minus_mod_eq_div_mult [symmetric])
    then have "unat w div 2 ^ k * 2 ^ k < 256" using byte_less [of w] by (rule le_less_trans)
    then show ?thesis by simp
  qed
  moreover have "unat (push_bit k (drop_bit k w)) = take_bit 8 (push_bit k (drop_bit k (unat w)))"
    using byte_less [of w] by (simp add: unsigned_push_bit_eq unsigned_drop_bit_eq take_bit_nat_eq_self)
  ultimately show ?thesis
    by (simp only: push_bit_eq_mult [where ?'a = nat] drop_bit_eq_div [where ?'a = nat] take_bit_nat_eq_self)
qed
lemma and_low: "unat (w AND mask k) = unat w mod 2 ^ k" for w :: "8 word"
proof -
  have "unat (take_bit k w) = take_bit k (unat w)" by (rule unsigned_take_bit_eq)
  then show ?thesis by (simp only: take_bit_eq_mask [symmetric] take_bit_eq_mod [where ?'a = nat])
qed
lemma byte_masks:
  "(w :: 8 word) AND 240 = 16 \<longleftrightarrow> unat w div 16 = 1" "w AND 254 = 252 \<longleftrightarrow> unat w div 2 = 126"
  "w AND 192 = 128 \<longleftrightarrow> unat w div 64 = 2" "w AND 15 = 2 \<longleftrightarrow> unat w mod 16 = 2"
proof -
  have m: "(240 :: 8 word) = NOT (mask 4)" "(254 :: 8 word) = NOT (mask 1)" "(192 :: 8 word) = NOT (mask 6)" "(15 :: 8 word) = mask 4"
    by (simp_all add: mask_eq_exp_minus_1)
  show "(w :: 8 word) AND 240 = 16 \<longleftrightarrow> unat w div 16 = 1" "w AND 254 = 252 \<longleftrightarrow> unat w div 2 = 126"
  "w AND 192 = 128 \<longleftrightarrow> unat w div 64 = 2" "w AND 15 = 2 \<longleftrightarrow> unat w mod 16 = 2"
    unfolding m byte_eq and_high and_low by simp_all
qed

lemma networks_split:
  assumes "q < 256" "r < 256" "s < 256"
  shows "((((p::nat) * 256 + q) * 256 + r) * 256 + s) div 256 = (p * 256 + q) * 256 + r"
    "(((p * 256 + q) * 256 + r) * 256 + s) div 65536 = p * 256 + q"
    "(((p * 256 + q) * 256 + r) * 256 + s) div 1048576 = p * 16 + q div 16"
    "(((p * 256 + q) * 256 + r) * 256 + s) div 16777216 = p"
proof -
  let ?n = "((p * 256 + q) * 256 + r) * 256 + s"
  show 1: "?n div 256 = (p * 256 + q) * 256 + r" using assms(3) by simp
  have "?n div 65536 = ?n div 256 div 256" by (simp add: div_mult2_eq [symmetric])
  then show 2: "?n div 65536 = p * 256 + q" unfolding 1 using assms(2) by simp
  have "?n div 1048576 = ?n div 65536 div 16" "?n div 16777216 = ?n div 65536 div 256" by (simp_all add: div_mult2_eq [symmetric])
  then show "?n div 1048576 = p * 16 + q div 16" "?n div 16777216 = p" unfolding 2 using assms(1) by simp_all
qed

lemma network_cases:
  assumes lt: "p < 256" "q < 256" "r < 256" "s < (256::nat)"
  shows "(p = 127 \<or> p = 10 \<or> p = 172 \<and> q div 16 = 1 \<or> p = 192 \<and> q = 168 \<or> p = 169 \<and> q = 254
    \<or> p = 224 \<and> q = 0 \<and> r = 0 \<or> p = 0 \<and> q = 0 \<and> r = 0 \<and> s = 0) \<longleftrightarrow>
   (let n = ((p * 256 + q) * 256 + r) * 256 + s in 127 = n div 16777216 \<or> 10 = n div 16777216 \<or> 2753 = n div 1048576
   \<or> 49320 = n div 65536 \<or> 43518 = n div 65536 \<or> 14680064 = n div 256 \<or> 0 = n)"
proof -
  have two: "x * 256 + y = v \<longleftrightarrow> x = v div 256 \<and> y = v mod 256" if "y < 256" for x y v :: nat
  proof -
    have "(x * 256 + y) div 256 = x" "(x * 256 + y) mod 256 = y" using that by simp_all
    then show ?thesis by (metis div_mult_mod_eq)
  qed
  have "x * 16 + t = 2753 \<longleftrightarrow> x = 172 \<and> t = 1" if "t < 16" for x t :: nat
  proof -
    have "(x * 16 + t) div 16 = x" "(x * 16 + t) mod 16 = t" using that by simp_all
    then show ?thesis by fastforce
  qed
  moreover have "q div 16 < 16" using lt(2) by simp
  ultimately have "p * 16 + q div 16 = 2753 \<longleftrightarrow> p = 172 \<and> q div 16 = 1" by blast
  moreover have "p * 256 + q = 49320 \<longleftrightarrow> p = 192 \<and> q = 168" "p * 256 + q = 43518 \<longleftrightarrow> p = 169 \<and> q = 254"
    unfolding two [OF lt(2)] by simp_all
  moreover have "(p * 256 + q) * 256 + r = 14680064 \<longleftrightarrow> p = 224 \<and> q = 0 \<and> r = 0"
    unfolding two [OF lt(2)] two [OF lt(3)] by simp
  ultimately show ?thesis unfolding Let_def networks_split [OF lt(2-4)] by auto
qed

definition ip4_number :: "ip \<Rightarrow> nat" where
  "ip4_number a = ((unat (a ! 0) * 256 + unat (a ! 1)) * 256 + unat (a ! 2)) * 256 + unat (a ! 3)"

text \<open>Of a network and the length of its prefix.\<close>

definition in_network :: "ip \<Rightarrow> nat \<Rightarrow> ip \<Rightarrow> bool" where
  "in_network net len a \<longleftrightarrow> ip4_number net div 2 ^ (32 - len) = ip4_number a div 2 ^ (32 - len)"

definition refused_networks :: "(ip \<times> nat) list" where
  "refused_networks = [([127, 0, 0, 0], 8), ([10, 0, 0, 0], 8), ([172, 16, 0, 0], 12), ([192, 168, 0, 0], 16),
     ([169, 254, 0, 0], 16), ([224, 0, 0, 0], 24), ([0, 0, 0, 0], 32)]"

definition mapped_ip :: "ip \<Rightarrow> ip" where
  "mapped_ip a = replicate 10 0 @ [255, 255] @ a"

lemma four_bytes: "length a = 4 \<Longrightarrow> \<exists>p q r s. a = [p, q, r, s]"
  by (auto simp: numeral_eq_Suc length_Suc_conv)

lemma to4_mapped: "length a = 4 \<Longrightarrow> to4 a = Some a \<and> to4 (mapped_ip a) = Some a"
  by (simp add: to4_def mapped_ip_def nth_append)

lemma disallowed_mapped: "length a = 4 \<Longrightarrow> is_disallowed_ip (mapped_ip a) = is_disallowed_ip a"
  using to4_mapped [of a] by (simp add: is_disallowed_ip_def)

text \<open>C21: The guard refuses an IPv4 address exactly when it is in one of seven networks (loopback, the three private
  ones, link-local, link-local multicast, the unspecified address), in its own form and as an IPv6-mapped address.\<close>

theorem refused_addresses:
  assumes "length a = 4"
  shows "is_disallowed_ip a = list_ex (\<lambda>(net, len). in_network net len a) refused_networks
    \<and> is_disallowed_ip (mapped_ip a) = is_disallowed_ip a"
proof
  obtain p q r s where a: "a = [p, q, r, s]" using four_bytes assms by blast
  have short: "[p, q, r, s] \<noteq> replicate 16 0" by (auto dest: arg_cong [where f = length])
  have four: "to4 [p, q, r, s] = Some [p, q, r, s]" by (simp add: to4_def)
  have "is_disallowed_ip a \<longleftrightarrow> unat p = 127 \<or> unat p = 10 \<or> unat p = 172 \<and> unat q div 16 = 1 \<or> unat p = 192 \<and> unat q = 168
      \<or> unat p = 169 \<and> unat q = 254 \<or> unat p = 224 \<and> unat q = 0 \<and> unat r = 0
      \<or> unat p = 0 \<and> unat q = 0 \<and> unat r = 0 \<and> unat s = 0"
    unfolding is_disallowed_ip_def ip_loopback_def ip_private_def ip_link_local_def ip_link_multicast_def ip_unspecified_def a Let_def four option.case byte_masks
    by (simp add: byte_eq disj_assoc short)
  also have "\<dots> = list_ex (\<lambda>(net, len). in_network net len a) refused_networks"
    unfolding network_cases [OF byte_less byte_less byte_less byte_less] Let_def refused_networks_def in_network_def ip4_number_def a
    by simp
  finally show "is_disallowed_ip a = list_ex (\<lambda>(net, len). in_network net len a) refused_networks" .
  show "is_disallowed_ip (mapped_ip a) = is_disallowed_ip a" using assms by (rule disallowed_mapped)
qed

section \<open>Where requests go\<close>

definition guarded :: "client \<Rightarrow> bool" where
  "guarded s \<longleftrightarrow> (\<forall>c \<in> set (cl_pool s). \<not> is_disallowed_ip (snd c)) \<and> (\<forall>x \<in> set (cl_sent s). \<not> is_disallowed_ip (sn_ip x))"

definition fresh_client :: client where
  "fresh_client = \<lparr>cl_clock = 0, cl_pool = [], cl_sent = []\<rparr>"

definition post_all :: "net \<Rightarrow> string list \<Rightarrow> client \<Rightarrow> client" where
  "post_all N urls s = fold (\<lambda>url s. fst (http_post N url s)) urls s"

lemma safe_dial_ok: "safe_dial N host s = (s1, r) \<Longrightarrow> cl_pool s1 = cl_pool s \<and> cl_sent s1 = cl_sent s
    \<and> (\<forall>ip. r = Inr ip \<longrightarrow> \<not> is_disallowed_ip ip)"
  by (auto simp: safe_dial_def lookup_host_def split: if_splits option.splits list.splits)

lemma connect_ok: "guarded s \<Longrightarrow> connect N u s = (s1, r) \<Longrightarrow> guarded s1 \<and> cl_sent s1 = cl_sent s
    \<and> (\<forall>ip. r = Inr ip \<longrightarrow> \<not> is_disallowed_ip ip)"
  using safe_dial_ok [of N "n_ascii N (url_hostname (up_host u))" s]
  by (fastforce simp: connect_def guarded_def dest: map_of_SomeD split: if_splits option.splits prod.splits sum.splits)

lemma send_ok: "guarded s \<Longrightarrow> send_request N meth hb url s = (s1, r) \<Longrightarrow> guarded s1 \<and> length (cl_sent s1) \<le> Suc (length (cl_sent s))"
proof -
  assume g: "guarded s" and run: "send_request N meth hb url s = (s1, r)"
  show ?thesis
  proof (cases "n_url N url")
    case None
    then show ?thesis using g run by (simp add: send_request_def)
  next
    case (Some u)
    obtain s2 r2 where 2: "connect N u s = (s2, r2)" by (cases "connect N u s")
    then show ?thesis using connect_ok [OF g 2] run Some
      by (auto simp: send_request_def guarded_def Let_def split: sum.splits answer.splits)
  qed
qed

lemma redirect_check_ok: "safe_check_redirect N via url s = (s1, r) \<Longrightarrow> cl_pool s1 = cl_pool s \<and> cl_sent s1 = cl_sent s
    \<and> (r = None \<longrightarrow> via < 5)"
  by (auto simp: safe_check_redirect_def lookup_host_def Let_def split: if_splits option.splits)

lemma follow_ok: "guarded s \<Longrightarrow> via < 5 \<Longrightarrow> guarded (fst (client_do N via meth hb url s))
    \<and> length (cl_sent (fst (client_do N via meth hb url s))) + via \<le> length (cl_sent s) + 5"
proof (induction N via meth hb url s rule: client_do.induct)
  case (1 N via meth hb url s)
  obtain s1 r1 where 1: "send_request N meth hb url s = (s1, r1)" by (cases "send_request N meth hb url s")
  note ok1 = send_ok [OF "1.prems"(1) 1]
  show ?case
  proof (cases "\<exists>code page loc m' b' url' s2. r1 = Inr (code, page, loc) \<and> redirect_behavior code loc meth hb = Some (m', b')
      \<and> n_join N url loc = Some url' \<and> safe_check_redirect N (Suc via) url' s1 = (s2, None)")
    case True
    then obtain code page loc m' b' url' s2 where r: "r1 = Inr (code, page, loc)" "redirect_behavior code loc meth hb = Some (m', b')"
      "n_join N url loc = Some url'" "safe_check_redirect N (Suc via) url' s1 = (s2, None)" by blast
    have "guarded s2" "cl_sent s2 = cl_sent s1" "Suc via < 5" using redirect_check_ok [OF r(4)] ok1 by (auto simp: guarded_def)
    with "1.IH" [OF 1 [symmetric] r(1) refl refl r(2) refl r(3) r(4) [symmetric]] show ?thesis
      using ok1 by (simp add: client_do.simps [of N via meth hb url s] 1 r)
  next
    case False
    then have "\<exists>s2. fst (client_do N via meth hb url s) = s2 \<and> guarded s2 \<and> cl_sent s2 = cl_sent s1"
      using ok1 redirect_check_ok [of N "Suc via"]
      by (auto simp: client_do.simps [of N via meth hb url s] 1 guarded_def split: sum.split option.split prod.split)
    then show ?thesis using ok1 "1.prems"(2) by auto
  qed
qed

text \<open>Whatever names resolve to, at each look-up anew, and whatever the peers answer, redirects included, every request
  that a run of deliveries sends goes to an address outside the refused networks.\<close>

lemma posts_stay_public: "guarded (post_all N urls fresh_client)"
proof -
  have "guarded (post_all N urls s)" if "guarded s" for s
    using that by (induction urls arbitrary: s) (simp_all add: post_all_def http_post_def follow_ok)
  moreover have "guarded fresh_client" by (simp add: guarded_def fresh_client_def)
  ultimately show ?thesis .
qed

text \<open>At most five requests per delivery.\<close>

lemma post_bounded: "guarded s \<Longrightarrow> length (cl_sent (fst (http_post N url s))) \<le> length (cl_sent s) + 5"
  using follow_ok [of s 0 N "''POST''" True url] by (simp add: http_post_def)

section \<open>Redirects and the body\<close>

text \<open>What went out since, all of it without a body.\<close>

definition bodyless :: "client \<Rightarrow> client \<Rightarrow> bool" where
  "bodyless s s' \<longleftrightarrow> (\<exists>xs. cl_sent s' = cl_sent s @ xs \<and> list_all (\<lambda>x. \<not> sn_body x) xs)"

lemma bodyless_refl: "cl_sent s' = cl_sent s \<Longrightarrow> bodyless s s'"
  by (simp add: bodyless_def)

lemma bodyless_trans: "bodyless s t \<Longrightarrow> bodyless t u \<Longrightarrow> bodyless s u"
  by (fastforce simp: bodyless_def)

lemma connect_sent: "connect N u s = (s1, r) \<Longrightarrow> cl_sent s1 = cl_sent s"
  using safe_dial_ok [of N "n_ascii N (url_hostname (up_host u))" s]
  by (fastforce simp: connect_def split: if_splits option.splits prod.splits sum.splits)

lemma send_sent: "send_request N meth hb url s = (s1, r) \<Longrightarrow>
  cl_sent s1 = cl_sent s \<or> (\<exists>ip. cl_sent s1 = cl_sent s @ [\<lparr>sn_ip = ip, sn_url = url, sn_method = meth, sn_body = hb\<rparr>])"
  by (auto simp: send_request_def Let_def split: option.splits sum.splits prod.splits answer.splits dest: connect_sent)

lemma send_answered: "send_request N meth hb url s = (s1, Inr x) \<Longrightarrow>
  \<exists>ip. cl_sent s1 = cl_sent s @ [\<lparr>sn_ip = ip, sn_url = url, sn_method = meth, sn_body = hb\<rparr>]"
  by (auto simp: send_request_def Let_def split: option.splits sum.splits prod.splits answer.splits dest: connect_sent)

lemma redirect_keeps_bodyless: "redirect_behavior code loc meth False = Some (m', b') \<Longrightarrow> \<not> b'"
  by (auto simp: redirect_behavior_def split: if_splits)

text \<open>A client that goes on without the body never sends it again.\<close>

lemma follow_bodyless: "\<not> hb \<Longrightarrow> bodyless s (fst (client_do N via meth hb url s))"
proof (induction N via meth hb url s rule: client_do.induct)
  case (1 N via meth hb url s)
  obtain s1 r1 where 1: "send_request N meth hb url s = (s1, r1)" by (cases "send_request N meth hb url s")
  have b1: "bodyless s s1" using send_sent [OF 1] "1.prems" by (auto simp: bodyless_def)
  show ?case
  proof (cases "\<exists>code page loc m' b' url' s2. r1 = Inr (code, page, loc) \<and> redirect_behavior code loc meth hb = Some (m', b')
      \<and> n_join N url loc = Some url' \<and> safe_check_redirect N (Suc via) url' s1 = (s2, None)")
    case True
    then obtain code page loc m' b' url' s2 where r: "r1 = Inr (code, page, loc)" "redirect_behavior code loc meth hb = Some (m', b')"
      "n_join N url loc = Some url'" "safe_check_redirect N (Suc via) url' s1 = (s2, None)" by blast
    have "bodyless s1 s2" using redirect_check_ok [OF r(4)] by (auto intro: bodyless_refl)
    moreover have "\<not> b'" using r(2) "1.prems" redirect_keeps_bodyless by simp
    then have "bodyless s2 (fst (client_do N (Suc via) m' b' url' s2))"
      by (rule "1.IH" [OF 1 [symmetric] r(1) refl refl r(2) refl r(3) r(4) [symmetric] refl])
    ultimately have "bodyless s (fst (client_do N (Suc via) m' b' url' s2))" using b1 bodyless_trans by metis
    then show ?thesis by (simp add: client_do.simps [of N via meth hb url s] 1 r)
  next
    case False
    then have "\<exists>s2. fst (client_do N via meth hb url s) = s2 \<and> cl_sent s2 = cl_sent s1"
      using redirect_check_ok [of N "Suc via"]
      by (auto simp: client_do.simps [of N via meth hb url s] 1 split: sum.split option.split prod.split)
    then show ?thesis using b1 bodyless_trans bodyless_refl by blast
  qed
qed

text \<open>What the guard lets through: a URL it accepts whose host resolves to addresses that are not refused.\<close>

lemma redirect_check_passes:
  assumes "n_url N url = Some u" and "up_scheme u = ''http'' \<or> up_scheme u = ''https''" and "up_host u \<noteq> []"
    and "url_hostname (up_host u) \<noteq> []" and "to_lower (url_hostname (up_host u)) \<noteq> ''localhost''"
    and "n_lookup N (cl_clock s) (url_hostname (up_host u)) = Some as" and "list_all (\<lambda>a. \<not> is_disallowed_ip a) as" and "via < 5"
  shows "safe_check_redirect N via url s = (s\<lparr>cl_clock := cl_clock s + 1\<rparr>, None)"
proof -
  have "validate_url_runner N url = None" using assms(1-3,5) by (auto simp: validate_url_runner_def)
  moreover have "\<not> list_ex is_disallowed_ip as" using assms(7) by (simp add: list_all_iff list_ex_iff)
  ultimately show ?thesis using assms by (simp add: safe_check_redirect_def lookup_host_def Let_def)
qed

lemma fresh_request_sent:
  assumes "n_url N url = Some u" and "\<not> n_reuse N (cl_clock s)" and "to_lower (n_ascii N (url_hostname (up_host u))) \<noteq> ''localhost''"
    and "n_lookup N (cl_clock s) (n_ascii N (url_hostname (up_host u))) = Some (a # as)"
    and "list_all (\<lambda>a. \<not> is_disallowed_ip a) (a # as)"
    and "n_serve N (cl_clock s + 1) a url meth hb = Answer code page loc"
  shows "\<exists>s1. send_request N meth hb url s = (s1, Inr (code, page, loc))
    \<and> cl_sent s1 = cl_sent s @ [\<lparr>sn_ip = a, sn_url = url, sn_method = meth, sn_body = hb\<rparr>]"
proof -
  have "\<not> list_ex is_disallowed_ip (a # as)" using assms(5) by (simp add: list_all_iff list_ex_iff)
  then have "safe_dial N (n_ascii N (url_hostname (up_host u))) s = (s\<lparr>cl_clock := cl_clock s + 1\<rparr>, Inr a)"
    using assms(3,4) by (simp add: safe_dial_def lookup_host_def)
  then show ?thesis using assms(1,2,6) by (simp add: send_request_def connect_def Let_def)
qed

text \<open>C24: When the target of a delivery answers with a redirect 301, 302 or 303 to a public URL, the guard lets the redirect
  pass, and the client goes on with a \<open>GET\<close> without a body: the notification is sent to the redirecting URL only, and the answer
  of the \<open>GET\<close> is the outcome of the delivery.\<close>

theorem redirected_body_lost:
  assumes "send_request N ''POST'' True url s = (s1, Inr (code, page, loc))" and "code = 301 \<or> code = 302 \<or> code = 303" and "loc \<noteq> []"
    and "n_join N url loc = Some url'" and "n_url N url' = Some u" and "up_scheme u = ''http'' \<or> up_scheme u = ''https''"
    and "up_host u \<noteq> []" and "url_hostname (up_host u) \<noteq> []" and "to_lower (url_hostname (up_host u)) \<noteq> ''localhost''"
    and "to_lower (n_ascii N (url_hostname (up_host u))) \<noteq> ''localhost''"
    and "n_lookup N (cl_clock s1) (url_hostname (up_host u)) = Some as" and "list_all (\<lambda>a. \<not> is_disallowed_ip a) as"
    and "n_lookup N (cl_clock s1 + 1) (n_ascii N (url_hostname (up_host u))) = Some (a # as')"
    and "list_all (\<lambda>a. \<not> is_disallowed_ip a) (a # as')" and "\<not> n_reuse N (cl_clock s1 + 1)"
    and "n_serve N (cl_clock s1 + 2) a url' ''GET'' False = Answer code' page' []"
  shows "(\<exists>ip. cl_sent (fst (http_post N url s)) = cl_sent s @
      [\<lparr>sn_ip = ip, sn_url = url, sn_method = ''POST'', sn_body = True\<rparr>,
       \<lparr>sn_ip = a, sn_url = url', sn_method = ''GET'', sn_body = False\<rparr>])
    \<and> snd (http_post N url s) = Inr (code', page')"
proof -
  obtain ip where sent: "cl_sent s1 = cl_sent s @ [\<lparr>sn_ip = ip, sn_url = url, sn_method = ''POST'', sn_body = True\<rparr>]"
    using send_answered [OF assms(1)] by blast
  let ?s2 = "s1\<lparr>cl_clock := cl_clock s1 + 1\<rparr>"
  have redirect: "redirect_behavior code loc ''POST'' True = Some (''GET'', False)" using assms(2,3) by (auto simp: redirect_behavior_def)
  have check: "safe_check_redirect N 1 url' s1 = (?s2, None)"
    by (rule redirect_check_passes [OF assms(5-9,11,12)]) simp
  have "\<exists>s3. send_request N ''GET'' False url' ?s2 = (s3, Inr (code', page', []))
      \<and> cl_sent s3 = cl_sent ?s2 @ [\<lparr>sn_ip = a, sn_url = url', sn_method = ''GET'', sn_body = False\<rparr>]"
    using assms(10,13-16) by (intro fresh_request_sent [OF assms(5), where as = as']) simp_all
  then obtain s3 where s3: "send_request N ''GET'' False url' ?s2 = (s3, Inr (code', page', []))"
    "cl_sent s3 = cl_sent s1 @ [\<lparr>sn_ip = a, sn_url = url', sn_method = ''GET'', sn_body = False\<rparr>]" by auto
  have no: "redirect_behavior code' [] ''GET'' False = None" by (simp add: redirect_behavior_def)
  have follow: "client_do N 1 ''GET'' False url' ?s2 = (s3, Inr (code', page'))"
    unfolding client_do.simps [of N 1 "''GET''" False url' ?s2] s3(1) by (simp add: no)
  have "http_post N url s = client_do N 1 ''GET'' False url' ?s2"
    unfolding http_post_def client_do.simps [of N 0 "''POST''" True url s] assms(1)
    by (simp add: redirect assms(4) check [unfolded One_nat_def])
  then have "http_post N url s = (s3, Inr (code', page'))" using follow by (rule trans)
  then show ?thesis using sent s3(2) by simp
qed

section \<open>Instances\<close>

text \<open>One host that redirects to another.\<close>

definition demo_net :: net where
  "demo_net = \<lparr>n_url = (\<lambda>u. Some \<lparr>up_scheme = ''http'', up_host = u\<rparr>), n_join = (\<lambda>_ l. Some l), n_ascii = id,
     n_lookup = (\<lambda>_ _. Some [[8, 8, 8, 8]]), n_reuse = (\<lambda>_. False),
     n_serve = (\<lambda>_ _ u _ _. if u = ''a'' then Answer 301 [] ''b'' else Answer 200 [] [])\<rparr>"

lemma refused_addresses_witness:
  "is_disallowed_ip [172, 31, 0, 9] = list_ex (\<lambda>(net, len). in_network net len [172, 31, 0, 9]) refused_networks
   \<and> is_disallowed_ip (mapped_ip [172, 31, 0, 9]) = is_disallowed_ip [172, 31, 0, 9]"
  by (rule refused_addresses) simp

lemma redirected_body_lost_witness:
  "map (\<lambda>x. (sn_url x, sn_method x, sn_body x)) (cl_sent (fst (http_post demo_net ''a'' fresh_client)))
     = [(''a'', ''POST'', True), (''b'', ''GET'', False)]
   \<and> snd (http_post demo_net ''a'' fresh_client) = Inr (200, [])"
proof -
  let ?s1 = "fst (send_request demo_net ''POST'' True ''a'' fresh_client)"
  have first: "send_request demo_net ''POST'' True ''a'' fresh_client = (?s1, Inr (301, [], ''b''))" "cl_sent fresh_client = []"
    by code_simp+
  have host: "url_hostname ''b'' = ''b''" "to_lower ''b'' \<noteq> ''localhost''" "\<not> is_disallowed_ip [8, 8, 8, 8]" by code_simp+
  let ?u = "\<lparr>up_scheme = ''http'', up_host = ''b''\<rparr>"
  have "(\<exists>ip. cl_sent (fst (http_post demo_net ''a'' fresh_client)) = cl_sent fresh_client @
      [\<lparr>sn_ip = ip, sn_url = ''a'', sn_method = ''POST'', sn_body = True\<rparr>,
       \<lparr>sn_ip = [8, 8, 8, 8], sn_url = ''b'', sn_method = ''GET'', sn_body = False\<rparr>])
    \<and> snd (http_post demo_net ''a'' fresh_client) = Inr (200, [])"
    by (rule redirected_body_lost [OF first(1), where u = ?u and as = "[[8, 8, 8, 8]]" and as' = "[]"])
      (simp_all add: demo_net_def host)
  then show ?thesis using first(2) by auto
qed

lemma redirected_delivery: "snd (http_post demo_net ''a'' fresh_client) = Inr (200, [])
  \<and> map sn_body (cl_sent (fst (http_post demo_net ''a'' fresh_client))) = [True, False]"
  by code_simp

end
