(* ===== verification/Codec.thy ===== *)
theory Codec
  imports GoStrings
begin

text \<open>
  Go's \<open>encoding/hex\<close> and \<open>base64.RawURLEncoding\<close> on byte strings, and what the source builds on them:
  API-key text (\<open>security/apikey.go\<close>) and random identifiers (\<open>generateJTI\<close>, \<open>generateCSRFToken\<close>).
\<close>

section \<open>Hexadecimal\<close>

definition hex_digit :: "nat \<Rightarrow> char" where
  "hex_digit n = (if n < 10 then char_of (48 + n) else char_of (87 + n))"

definition hex_encode :: "string \<Rightarrow> string" where
  "hex_encode s = concat (map (\<lambda>c. let n = of_char c in [hex_digit (n div 16), hex_digit (n mod 16)]) s)"

text \<open>Go's \<open>%q\<close> on ASCII text.\<close>

definition quote_char :: "char \<Rightarrow> string" where
  "quote_char c = (let n = (of_char c :: nat) in
     if n = 34 then [CHR 0x5C, c] else if n = 92 then [CHR 0x5C, c]
     else if n = 7 then CHR 0x5C # ''a'' else if n = 8 then CHR 0x5C # ''b''
     else if n = 9 then CHR 0x5C # ''t'' else if n = 10 then CHR 0x5C # ''n''
     else if n = 11 then CHR 0x5C # ''v'' else if n = 12 then CHR 0x5C # ''f''
     else if n = 13 then CHR 0x5C # ''r''
     else if n < 32 \<or> n = 127 then CHR 0x5C # ''x'' @ hex_encode [c] else [c])"

definition go_quote :: "string \<Rightarrow> string" where
  "go_quote s = [CHR 0x22] @ concat (map quote_char s) @ [CHR 0x22]"

lemma length_hex_encode [simp]: "length (hex_encode s) = 2 * length s"
  by (induction s) (auto simp: hex_encode_def Let_def)

lemma hex_encode_Nil [simp]: "hex_encode [] = []"
  by (simp add: hex_encode_def)

lemma hex_encode_Cons:
  "hex_encode (c # s) = hex_digit (of_char c div 16) # hex_digit (of_char c mod 16) # hex_encode s"
  by (simp add: hex_encode_def Let_def)

lemma hex_digit_inj:
  assumes "m < 16" "n < 16" and "hex_digit m = hex_digit n"
  shows "m = n"
proof -
  have "(of_char (hex_digit k) :: nat) = (if k < 10 then 48 + k else 87 + k)" if "k < 16" for k
    using that by (auto simp: hex_digit_def)
  note val = this
  have "(if m < 10 then 48 + m else 87 + m) = (if n < 10 then 48 + n else 87 + n)"
    unfolding val [OF assms(1), symmetric] val [OF assms(2), symmetric] assms(3) ..
  then show ?thesis
    using assms(1,2) by (simp split: if_splits)
qed

lemma of_char_less_256: "(of_char (c :: char) :: nat) < 256"
  using nat_of_char_less_256 [of c] by simp

lemma of_char_split: "of_char c div 16 < (16::nat)" "of_char c mod 16 < (16::nat)"
  using of_char_less_256 [of c] by (simp_all add: less_mult_imp_div_less)

text \<open>Distinct random bytes give distinct identifiers.\<close>

lemma hex_encode_inj: "hex_encode s = hex_encode t \<Longrightarrow> s = t"
proof (induction s arbitrary: t)
  case Nil
  then show ?case by (cases t) (auto simp: hex_encode_Cons)
next
  case (Cons c s)
  then obtain d t' where t: "t = d # t'" by (cases t) (auto simp: hex_encode_Cons)
  with Cons.prems have "of_char c div 16 = (of_char d div 16 :: nat)"
      "of_char c mod 16 = (of_char d mod 16 :: nat)" "hex_encode s = hex_encode t'"
    by (auto simp: hex_encode_Cons dest!: hex_digit_inj [rotated 2] intro: of_char_split)
  then have "(of_char c :: nat) = of_char d" and "s = t'"
    by (metis div_mult_mod_eq) (simp add: Cons.IH \<open>hex_encode s = hex_encode t'\<close>)
  with t show ?case by simp
qed

section \<open>Unpadded URL-safe base64\<close>

fun sextets :: "nat list \<Rightarrow> nat list" where
  "sextets (a # b # c # r) =
     a div 4 # ((a mod 4) * 16 + b div 16) # ((b mod 16) * 4 + c div 64) # c mod 64 # sextets r"
| "sextets [a, b] = [a div 4, (a mod 4) * 16 + b div 16, (b mod 16) * 4]"
| "sextets [a] = [a div 4, (a mod 4) * 16]"
| "sextets [] = []"

fun octets :: "nat list \<Rightarrow> nat list option" where
  "octets (p # q # r # s # t) = (case octets t of None \<Rightarrow> None
     | Some u \<Rightarrow> Some ((p * 4 + q div 16) # ((q mod 16) * 16 + r div 4) # ((r mod 4) * 64 + s) # u))"
| "octets [p, q, r] = Some [p * 4 + q div 16, (q mod 16) * 16 + r div 4]"
| "octets [p, q] = Some [p * 4 + q div 16]"
| "octets [p] = None"
| "octets [] = Some []"

definition b64_char :: "nat \<Rightarrow> char" where
  "b64_char n = (if n < 26 then char_of (65 + n) else if n < 52 then char_of (71 + n)
     else if n < 62 then char_of (n - 4) else if n = 62 then CHR ''-'' else CHR ''_'')"

definition b64_value :: "char \<Rightarrow> nat option" where
  "b64_value c = (let n = of_char c in
     if 65 \<le> n \<and> n \<le> 90 then Some (n - 65) else if 97 \<le> n \<and> n \<le> 122 then Some (n - 71)
     else if 48 \<le> n \<and> n \<le> 57 then Some (n + 4) else if n = 45 then Some 62
     else if n = 95 then Some 63 else None)"

definition b64_encode :: "string \<Rightarrow> string" where
  "b64_encode s = map b64_char (sextets (map of_char s))"

text \<open>The decoder skips carriage returns and newlines and does not check trailing bits.\<close>

definition b64_decode :: "string \<Rightarrow> string option" where
  "b64_decode s =
     (let vs = map b64_value (filter (\<lambda>c. of_char c \<noteq> (10::nat) \<and> of_char c \<noteq> (13::nat)) s) in
      if None \<in> set vs then None else map_option (map char_of) (octets (map the vs)))"

lemma b64_value_char: "n < 64 \<Longrightarrow> b64_value (b64_char n) = Some n"
  by (auto simp: b64_value_def b64_char_def Let_def)

lemma b64_char_not_newline:
  "n < 64 \<Longrightarrow> of_char (b64_char n) \<noteq> (10::nat) \<and> of_char (b64_char n) \<noteq> (13::nat)"
  by (auto simp: b64_char_def)

lemma b64_char_not_dot: "n < 64 \<Longrightarrow> b64_char n \<noteq> CHR ''.''"
  using b64_value_char [of n] by (auto simp: b64_value_def Let_def)

lemma sextets_less: "list_all (\<lambda>n. n < 256) ns \<Longrightarrow> list_all (\<lambda>n. n < 64) (sextets ns)"
  by (induction ns rule: sextets.induct) (auto simp: algebra_simps)

lemma octets_sextets: "list_all (\<lambda>n. n < 256) ns \<Longrightarrow> octets (sextets ns) = Some ns"
proof (induction ns rule: sextets.induct)
  case (1 a b c r)
  have "((a mod 4) * 16 + b div 16) div 16 = a mod 4" "((a mod 4) * 16 + b div 16) mod 16 = b div 16"
    "((b mod 16) * 4 + c div 64) div 4 = b mod 16" "((b mod 16) * 4 + c div 64) mod 4 = c div 64"
    using 1 by auto
  with 1 show ?case by simp
next
  case (2 a b)
  then show ?case by auto
qed auto

lemma bytes_less: "list_all (\<lambda>n. n < 256) (map of_char (s :: string) :: nat list)"
  by (auto simp: list_all_iff of_char_less_256)

lemma b64_round_trip: "b64_decode (b64_encode s) = Some s"
proof -
  let ?ns = "sextets (map of_char s)"
  have small: "list_all (\<lambda>n. n < 64) ?ns" by (rule sextets_less [OF bytes_less])
  have keep: "filter (\<lambda>c. of_char c \<noteq> (10::nat) \<and> of_char c \<noteq> (13::nat)) (map b64_char ?ns)
      = map b64_char ?ns"
    using small b64_char_not_newline by (auto simp: list_all_iff filter_id_conv)
  have vals: "map b64_value (map b64_char ?ns) = map Some ?ns"
    using small by (auto simp: list_all_iff b64_value_char)
  show ?thesis
    by (simp only: b64_decode_def b64_encode_def keep vals Let_def)
      (auto simp: o_def octets_sextets [OF bytes_less])
qed

lemma b64_no_dot: "CHR ''.'' \<notin> set (b64_encode s)"
  using sextets_less [OF bytes_less [of s]] b64_char_not_dot
  by (fastforce simp: b64_encode_def list_all_iff)

lemma b64_encode_ne: "s \<noteq> [] \<Longrightarrow> b64_encode s \<noteq> []"
  by (cases "map of_char s :: nat list" rule: sextets.cases) (auto simp: b64_encode_def)

section \<open>API-key text\<close>

text \<open>The random bytes are an argument: \<open>None\<close> is a failing \<open>rand.Read\<close>.  SHA-256 is a parameter.\<close>

abbreviation api_key_prefix :: string where
  "api_key_prefix \<equiv> ''ald_''"

definition random_hex :: "string option \<Rightarrow> string option" where
  "random_hex rnd = map_option hex_encode rnd"

definition generate_api_key :: "string option \<Rightarrow> string option" where
  "generate_api_key rnd = map_option (\<lambda>b. api_key_prefix @ hex_encode b) rnd"

definition hash_api_key :: "(string \<Rightarrow> string) \<Rightarrow> string \<Rightarrow> string" where
  "hash_api_key sha256 k = hex_encode (sha256 k)"

definition display_prefix :: "string \<Rightarrow> string" where
  "display_prefix k = (if length k < length api_key_prefix + 8 then k
     else take (length api_key_prefix + 8) k)"

lemma generated_key_length:
  "generate_api_key (Some b) = Some k \<Longrightarrow> length b = 32 \<Longrightarrow> length k = 68 \<and> length (display_prefix k) = 12"
  by (auto simp: generate_api_key_def display_prefix_def)

end
