(* ===== verification/Vault.thy ===== *)
theory Vault
  imports Codec
begin

text \<open>
  Encryption of stored values, \<open>security/encrypt.go\<close>.  AES-GCM is a parameter, sealing and opening under a key and
  a nonce; the nonce is an argument, as every random draw.  Padded base64 is defined here, after the unpadded form
  of \<open>Codec\<close>.
\<close>

section \<open>Padded base64\<close>

definition std_char :: "nat \<Rightarrow> char" where
  "std_char n = (if n = 62 then CHR ''+'' else if n = 63 then CHR ''/'' else b64_char n)"

definition std_value :: "char \<Rightarrow> nat option" where
  "std_value c = (if c = CHR ''+'' then Some 62 else if c = CHR ''/'' then Some 63
     else if c = CHR ''-'' \<or> c = CHR ''_'' then None else b64_value c)"

definition std_encode :: "string \<Rightarrow> string" where
  "std_encode s = (let t = map std_char (sextets (map of_char s)) in t @ replicate ((4 - length t mod 4) mod 4) (CHR ''=''))"

text \<open>At most two padding characters, at the end of a text whose length is a multiple of four.\<close>

definition strip_padding :: "string \<Rightarrow> string" where
  "strip_padding t = (if has_suffix t ''=='' then butlast (butlast t) else if has_suffix t ''='' then butlast t else t)"

definition std_decode :: "string \<Rightarrow> string option" where
  "std_decode s =
     (let t = filter (\<lambda>c. of_char c \<noteq> (10::nat) \<and> of_char c \<noteq> (13::nat)) s; vs = map std_value (strip_padding t) in
      if length t mod 4 \<noteq> 0 \<or> None \<in> set vs then None else map_option (map char_of) (octets (map the vs)))"

section \<open>Keys\<close>

record vault =
  va_keys :: "string list"
  va_seal :: "string \<Rightarrow> string \<Rightarrow> string \<Rightarrow> string"
  va_open :: "string \<Rightarrow> string \<Rightarrow> string \<Rightarrow> string option"

definition default_jwt_secret :: string where
  "default_jwt_secret = ''super-secret-key-for-dev''"

fun first_of_each :: "string list \<Rightarrow> string list \<Rightarrow> string list" where
  "first_of_each seen [] = []"
| "first_of_each seen (s # ss) = (if s \<in> set seen then first_of_each (s # seen) ss else s # first_of_each (s # seen) ss)"

definition encryption_keys :: "(string \<Rightarrow> string) \<Rightarrow> string \<Rightarrow> string \<Rightarrow> string list" where
  "encryption_keys sha256 encryption_key jwt_secret =
     map sha256 (first_of_each [] ((if encryption_key = [] then [] else [encryption_key]) @ [jwt_secret, default_jwt_secret]))"

section \<open>Encryption\<close>

text \<open>\<open>None\<close> is a failing \<open>rand.Read\<close>, or no key.\<close>

definition encrypt_value :: "vault \<Rightarrow> string option \<Rightarrow> string \<Rightarrow> string option" where
  "encrypt_value V nonce plain = (case (va_keys V, nonce) of
     (k # _, Some n) \<Rightarrow> Some (std_encode (n @ va_seal V k n plain)) | _ \<Rightarrow> None)"

definition decrypt_value :: "vault \<Rightarrow> string \<Rightarrow> string \<Rightarrow> string option" where
  "decrypt_value V encoded key = (case std_decode encoded of
     None \<Rightarrow> None
   | Some d \<Rightarrow> if length d < 12 then None else va_open V key (take 12 d) (drop 12 d))"

fun decrypt_any :: "vault \<Rightarrow> string \<Rightarrow> string list \<Rightarrow> string option" where
  "decrypt_any V encoded [] = None"
| "decrypt_any V encoded (k # ks) = (case decrypt_value V encoded k of Some p \<Rightarrow> Some p | None \<Rightarrow> decrypt_any V encoded ks)"

definition decrypt_with_keys :: "vault \<Rightarrow> string \<Rightarrow> string option" where
  "decrypt_with_keys V encoded = decrypt_any V encoded (va_keys V)"

text \<open>What AES-GCM promises: the right key opens, every other key is refused.\<close>

definition authentic :: "vault \<Rightarrow> bool" where
  "authentic V \<longleftrightarrow> (\<forall>k n p. va_open V k n (va_seal V k n p) = Some p)
     \<and> (\<forall>k k' n p. k' \<noteq> k \<longrightarrow> va_open V k' n (va_seal V k n p) = None)"

section \<open>Round trip\<close>

lemma std_value_char: "n < 64 \<Longrightarrow> std_value (std_char n) = Some n"
proof -
  assume n: "n < 64"
  have "n < 62 \<Longrightarrow> b64_char n \<noteq> CHR ''+'' \<and> b64_char n \<noteq> CHR ''/'' \<and> b64_char n \<noteq> CHR ''-'' \<and> b64_char n \<noteq> CHR ''_''"
    using b64_value_char [of n] by (auto simp: b64_value_def Let_def)
  then show ?thesis using n b64_value_char [of n] by (auto simp: std_value_def std_char_def)
qed

lemma std_char_plain: "n < 64 \<Longrightarrow> of_char (std_char n) \<noteq> (10::nat) \<and> of_char (std_char n) \<noteq> (13::nat) \<and> std_char n \<noteq> CHR ''=''"
  using b64_char_not_newline [of n] b64_value_char [of n] by (auto simp: std_char_def b64_value_def Let_def)

lemma strip_padding_pad:
  assumes "CHR ''='' \<notin> set t" and "length t mod 4 \<noteq> 1"
  shows "strip_padding (t @ replicate ((4 - length t mod 4) mod 4) (CHR ''='')) = t"
proof -
  have eq: "has_suffix t ''='' = False" "has_suffix t ''=='' = False"
    using assms(1) by (auto simp: has_suffix_def suffix_def)
  have one: "has_suffix (t @ ''='') ''=='' = False" using assms(1) by (auto simp: has_suffix_def suffix_def append_eq_append_conv2)
  have suf: "has_suffix (t @ u) u" for u by (simp add: has_suffix_def suffix_def)
  consider "length t mod 4 = 0" | "length t mod 4 = 2" | "length t mod 4 = 3" using assms(2) by arith
  then show ?thesis
  proof cases
    case 1
    then show ?thesis by (simp add: strip_padding_def eq)
  next
    case 2
    then show ?thesis using suf [of "''==''"] by (simp add: strip_padding_def numeral_2_eq_2 butlast_append)
  next
    case 3
    then show ?thesis using one suf [of "''=''"] by (simp add: strip_padding_def butlast_append)
  qed
qed

lemma sextets_length: "length (sextets ns) mod 4 \<noteq> 1"
  by (induction ns rule: sextets.induct) (auto simp: mod_Suc)

lemma std_round_trip: "std_decode (std_encode s) = Some s"
proof -
  let ?ns = "sextets (map of_char s)" and ?p = "\<lambda>t. replicate ((4 - length t mod 4) mod 4) (CHR ''='')"
  let ?t = "map std_char ?ns"
  have small: "list_all (\<lambda>n. n < 64) ?ns" by (rule sextets_less [OF bytes_less])
  have "of_char (CHR ''='') \<noteq> (10::nat) \<and> of_char (CHR ''='') \<noteq> (13::nat)" by simp
  then have keep: "filter (\<lambda>c. of_char c \<noteq> (10::nat) \<and> of_char c \<noteq> (13::nat)) (?t @ ?p ?t) = ?t @ ?p ?t"
    using small std_char_plain by (auto simp: list_all_iff filter_id_conv)
  have no_pad: "CHR ''='' \<noteq> std_char n" if "n < 64" for n using std_char_plain [OF that] by metis
  have "CHR ''='' \<notin> set (map std_char ns)" if "list_all (\<lambda>n. n < 64) ns" for ns
    using that by (induction ns) (simp_all add: no_pad)
  then have "CHR ''='' \<notin> set ?t" using small by blast
  then have strip: "strip_padding (?t @ ?p ?t) = ?t" by (rule strip_padding_pad) (use sextets_length in simp)
  have len: "length (?t @ ?p ?t) mod 4 = 0"
  proof -
    have "(n + (4 - n mod 4) mod 4) mod 4 = 0" for n :: nat
    proof -
      have "(n + (4 - n mod 4) mod 4) mod 4 = (n mod 4 + (4 - n mod 4) mod 4) mod 4" by (simp add: mod_add_left_eq)
      moreover have "n mod 4 = 0 \<or> n mod 4 = 1 \<or> n mod 4 = 2 \<or> n mod 4 = 3" by linarith
      ultimately show ?thesis by fastforce
    qed
    then show ?thesis by simp
  qed
  have vals: "map std_value ?t = map Some ?ns" using small by (auto simp: list_all_iff std_value_char)
  show ?thesis
    by (simp only: std_decode_def std_encode_def Let_def keep strip len vals)
      (auto simp: o_def octets_sextets [OF bytes_less])
qed

lemma decrypt_encrypted:
  assumes "length n = 12" and "authentic V"
  shows "decrypt_value V (std_encode (n @ va_seal V k n p)) k' = (if k' = k then Some p else None)"
  using assms by (simp add: decrypt_value_def std_round_trip authentic_def)

lemma decrypt_any_finds:
  assumes "length n = 12" and "authentic V"
  shows "decrypt_any V (std_encode (n @ va_seal V k n p)) ks = (if k \<in> set ks then Some p else None)"
  by (induction ks) (simp_all add: decrypt_encrypted [OF assms])

text \<open>C22: A value encrypted under one configuration is read back under every later one whose keys still include the key it
  was encrypted with, in any position, and is refused, not garbled, under all others.\<close>

theorem encrypted_value_read_back:
  assumes "authentic V" and "length n = 12" and "va_keys V = k # ks" and "encrypt_value V (Some n) p = Some c"
  shows "decrypt_with_keys (V\<lparr>va_keys := later\<rparr>) c = (if k \<in> set later then Some p else None)"
proof -
  let ?V = "V\<lparr>va_keys := later\<rparr>"
  have "authentic ?V" using assms(1) by (simp add: authentic_def)
  moreover have "c = std_encode (n @ va_seal ?V k n p)" using assms(3,4) by (simp add: encrypt_value_def)
  ultimately show ?thesis using decrypt_any_finds [OF assms(2), of ?V k p later] by (simp add: decrypt_with_keys_def)
qed

text \<open>The key in use before \<open>ENCRYPTION_KEY\<close> was set stays among the keys.\<close>

lemma first_of_each_set: "x \<in> set (first_of_each seen ss) \<longleftrightarrow> x \<in> set ss \<and> x \<notin> set seen"
  by (induction ss arbitrary: seen) auto

lemma jwt_key_stays: "sha jwt \<in> set (encryption_keys sha e jwt)"
  by (auto simp: encryption_keys_def first_of_each_set)

section \<open>An instance\<close>

text \<open>A cipher that writes its key in front of the text.\<close>

definition demo_head :: "string \<Rightarrow> string" where
  "demo_head k = replicate (length k) (CHR ''a'') @ CHR ''b'' # k"

definition demo_vault :: vault where
  "demo_vault = \<lparr>va_keys = [''k1''], va_seal = (\<lambda>k _ p. demo_head k @ p),
     va_open = (\<lambda>k _ c. if prefix (demo_head k) c then Some (drop (length (demo_head k)) c) else None)\<rparr>"

lemma demo_head_prefix: "prefix (demo_head k') (demo_head k @ p) \<Longrightarrow> k' = k"
proof -
  assume pre: "prefix (demo_head k') (demo_head k @ p)"
  have run: "length k' = length k"
  proof (rule ccontr)
    assume ne: "length k' \<noteq> length k"
    obtain r where r: "demo_head k @ p = demo_head k' @ r" using pre by (auto elim: prefixE)
    let ?i = "min (length k) (length k')"
    have "(demo_head k @ p) ! ?i = (demo_head k' @ r) ! ?i" using r by simp
    then show False using ne by (cases "length k < length k'") (auto simp: demo_head_def nth_append min_def split: if_splits)
  qed
  then show ?thesis using pre by (simp add: demo_head_def) (metis append_eq_append_conv prefix_def append_assoc)
qed

lemma demo_vault_authentic: "authentic demo_vault"
  using demo_head_prefix by (auto simp: authentic_def demo_vault_def)

lemma encrypted_value_read_back_witness:
  "decrypt_with_keys (demo_vault\<lparr>va_keys := [''k2'', ''k1'']\<rparr>) (std_encode (''nonce-nonce-'' @ demo_head ''k1'' @ ''u'')) = Some ''u''"
proof -
  have "encrypt_value demo_vault (Some ''nonce-nonce-'') ''u'' = Some (std_encode (''nonce-nonce-'' @ demo_head ''k1'' @ ''u''))"
    by (simp add: encrypt_value_def demo_vault_def)
  from encrypted_value_read_back [OF demo_vault_authentic _ _ this, of "''k1''" "[]" "[''k2'', ''k1'']"] show ?thesis
    by (simp add: demo_vault_def)
qed

end
