(* ===== verification/Users.thy ===== *)
theory Users
  imports GoStrings
begin

text \<open>
  \<open>api/internal/store/pg/user.go\<close> on the schema of the migrations 0019, 0037, 0039 and 0044: the users
  table with its identity column and its three unique indexes.  Every method is one SQL statement and so
  atomic; \<open>NOW()\<close> is the argument \<open>now\<close>.  Statements that PostgreSQL rejects leave the rows alone; a
  lost connection is not modelled here (the handlers model it).  \<open>LOWER\<close> is ASCII.  The order of
  \<open>ORDER BY email\<close> is the database's collation, a parameter.
\<close>

section \<open>Rows and errors\<close>

record user =
  u_id :: int
  u_email :: string
  u_name :: string
  u_provider :: string
  u_provider_sub :: string
  u_password_hash :: string
  u_role :: string
  u_is_active :: bool
  u_last_login :: "time option"
  u_created_at :: time
  u_updated_at :: time

record user_db =
  users :: "user list"
  next_user_id :: int

datatype user_error = ErrUserNotFound | ErrDuplicateEntry | ErrEmailAlreadyLinked | ErrUserDB string

text \<open>The first unique index the rows would violate, if any.\<close>

definition users_violation :: "user list \<Rightarrow> string option" where
  "users_violation us =
     (if \<not> distinct (map (\<lambda>u. (u_provider u, u_provider_sub u)) (filter (\<lambda>u. u_provider_sub u \<noteq> []) us))
      then Some ''idx_users_provider_sub''
      else if \<not> distinct (map (to_lower \<circ> u_email) (filter u_is_active us))
      then Some ''idx_users_email_active''
      else if \<not> distinct (map (to_lower \<circ> u_email) (filter (\<lambda>u. u_provider u \<noteq> ''env'') us))
      then Some ''idx_users_email_global''
      else None)"

section \<open>Statements\<close>

definition get_user_by_id :: "user_db \<Rightarrow> int \<Rightarrow> user_error + user" where
  "get_user_by_id db i =
     (case tbl_find (\<lambda>u. u_id u = i) (users db) of None \<Rightarrow> Inl ErrUserNotFound | Some u \<Rightarrow> Inr u)"

definition email_matches :: "user_db \<Rightarrow> string \<Rightarrow> user list" where
  "email_matches db email =
     (let ms = filter (\<lambda>u. to_lower (u_email u) = to_lower email) (users db)
      in sort_key u_id (filter u_is_active ms) @ sort_key u_id (filter (\<lambda>u. \<not> u_is_active u) ms))"

definition get_user_by_email :: "user_db \<Rightarrow> string \<Rightarrow> user_error + user" where
  "get_user_by_email db email =
     (case email_matches db email of [] \<Rightarrow> Inl ErrUserNotFound | u # _ \<Rightarrow> Inr u)"

text \<open>\<open>UPDATE users SET .. WHERE id = ..\<close> and the RowsAffected test every writer makes.\<close>

definition exec_update_user ::
    "user_db \<Rightarrow> int \<Rightarrow> (user \<Rightarrow> user) \<Rightarrow> user_db \<times> (user_error + unit)" where
  "exec_update_user db i f =
     (let us = tbl_update (\<lambda>u. u_id u = i) f (users db) in
      case users_violation us of
        Some c \<Rightarrow> (db, Inl (ErrUserDB c))
      | None \<Rightarrow> if tbl_count (\<lambda>u. u_id u = i) (users db) = 0 then (db, Inl ErrUserNotFound)
               else (db\<lparr>users := us\<rparr>, Inr ()))"

text \<open>\<open>INSERT INTO users\<close>: the identity column is drawn even when an index rejects the row.\<close>

definition exec_insert_user :: "user_db \<Rightarrow> user \<Rightarrow> user_db \<times> (string + user)" where
  "exec_insert_user db u =
     (let u' = u\<lparr>u_id := next_user_id db\<rparr>;
          us = users db @ [u'];
          db' = db\<lparr>next_user_id := next_user_id db + 1\<rparr>
      in case users_violation us of
           Some c \<Rightarrow> (db', Inl c)
         | None \<Rightarrow> (db'\<lparr>users := us\<rparr>, Inr u'))"

definition oidc_conflict :: "string \<Rightarrow> string \<Rightarrow> user \<Rightarrow> bool" where
  "oidc_conflict provider sub u \<longleftrightarrow>
     sub \<noteq> [] \<and> u_provider u = provider \<and> u_provider_sub u = sub"

definition email_index :: "string \<Rightarrow> bool" where
  "email_index c \<longleftrightarrow> c = ''idx_users_email_global'' \<or> c = ''idx_users_email_active''"

definition upsert_by_oidc ::
    "user_db \<Rightarrow> string \<Rightarrow> string \<Rightarrow> string \<Rightarrow> string \<Rightarrow> string \<Rightarrow> time \<Rightarrow> user_db \<times> (user_error + user)" where
  "upsert_by_oidc db provider sub email name role now =
     (let to_err = (\<lambda>c. if email_index c then ErrEmailAlreadyLinked else ErrUserDB c) in
      case tbl_find (oidc_conflict provider sub) (users db) of
        Some old \<Rightarrow>
          let set = (\<lambda>u. u\<lparr>u_email := email, u_name := name, u_role := role,
                          u_last_login := Some now, u_updated_at := now\<rparr>);
              us = tbl_update (oidc_conflict provider sub) set (users db);
              db' = db\<lparr>next_user_id := next_user_id db + 1\<rparr>
          in (case users_violation us of
                Some c \<Rightarrow> (db', Inl (to_err c))
              | None \<Rightarrow> (db'\<lparr>users := us\<rparr>, Inr (set old)))
      | None \<Rightarrow>
          (case exec_insert_user db
                 \<lparr>u_id = 0, u_email = email, u_name = name, u_provider = provider,
                  u_provider_sub = sub, u_password_hash = [], u_role = role, u_is_active = True,
                  u_last_login = Some now, u_created_at = now, u_updated_at = now\<rparr> of
             (db', Inl c) \<Rightarrow> (db', Inl (to_err c))
           | (db', Inr u) \<Rightarrow> (db', Inr u)))"

definition relink_oidc :: "user_db \<Rightarrow> int \<Rightarrow> string \<Rightarrow> string \<Rightarrow> time \<Rightarrow> user_db \<times> (user_error + unit)" where
  "relink_oidc db i provider sub now =
     exec_update_user db i (\<lambda>u. u\<lparr>u_provider := provider, u_provider_sub := sub,
                                  u_last_login := Some now, u_updated_at := now\<rparr>)"

definition create_local ::
    "user_db \<Rightarrow> string \<Rightarrow> string \<Rightarrow> string \<Rightarrow> string \<Rightarrow> time \<Rightarrow> user_db \<times> (user_error + user)" where
  "create_local db email name hash role now =
     (case exec_insert_user db
             \<lparr>u_id = 0, u_email = email, u_name = name, u_provider = ''local'', u_provider_sub = [],
              u_password_hash = hash, u_role = role, u_is_active = True, u_last_login = None,
              u_created_at = now, u_updated_at = now\<rparr> of
        (db', Inl c) \<Rightarrow> (db', Inl ErrDuplicateEntry)
      | (db', Inr u) \<Rightarrow> (db', Inr u))"

definition list_users :: "user_db \<Rightarrow> user list" where
  "list_users db = sort_key (\<lambda>u. - u_created_at u) (users db)"

text \<open>\<open>ILIKE\<close> on lower-cased text: percent, underscore and backslash keep their meaning in the
  caller's search string, which the query splices in unescaped.\<close>

fun like :: "string \<Rightarrow> string \<Rightarrow> bool" where
  "like [] s = (s = [])"
| "like (p # ps) s =
     (if p = CHR ''%'' then like ps s \<or> (case s of [] \<Rightarrow> False | c # s' \<Rightarrow> like (p # ps) s')
      else case s of
        [] \<Rightarrow> False
      | c # s' \<Rightarrow>
          if p = CHR ''_'' then like ps s'
          else if p = CHR 0x5C then (case ps of [] \<Rightarrow> False | q # qs \<Rightarrow> q = c \<and> like qs s')
          else p = c \<and> like ps s')"

definition ilike_contains :: "string \<Rightarrow> string \<Rightarrow> bool" where
  "ilike_contains s search = like (''%'' @ to_lower search @ ''%'') (to_lower s)"

record list_users_params =
  p_limit :: int
  p_offset :: int
  p_search :: string
  p_role :: string
  p_active :: "bool option"

definition user_filter :: "list_users_params \<Rightarrow> user \<Rightarrow> bool" where
  "user_filter p u \<longleftrightarrow>
     (let search = trim_space (p_search p); role = trim_space (p_role p) in
      (search \<noteq> [] \<longrightarrow> ilike_contains (u_email u) search \<or> ilike_contains (u_name u) search)
      \<and> (role \<noteq> [] \<longrightarrow> u_role u = role)
      \<and> (case p_active p of None \<Rightarrow> True | Some a \<Rightarrow> u_is_active u = a))"

definition list_users_paginated ::
    "(string \<Rightarrow> 'k :: linorder) \<Rightarrow> user_db \<Rightarrow> list_users_params \<Rightarrow> user list \<times> nat" where
  "list_users_paginated collate db p =
     (let ms = filter (user_filter p) (users db);
          limit = (if p_limit p \<le> 0 then 20 else p_limit p);
          offset = max (p_offset p) 0
      in (take (nat limit) (drop (nat offset) (sort_key (\<lambda>u. collate (u_email u)) ms)), length ms))"

definition update_role :: "user_db \<Rightarrow> int \<Rightarrow> string \<Rightarrow> time \<Rightarrow> user_db \<times> (user_error + unit)" where
  "update_role db i role now = exec_update_user db i (\<lambda>u. u\<lparr>u_role := role, u_updated_at := now\<rparr>)"

definition update_active :: "user_db \<Rightarrow> int \<Rightarrow> bool \<Rightarrow> time \<Rightarrow> user_db \<times> (user_error + unit)" where
  "update_active db i a now = exec_update_user db i (\<lambda>u. u\<lparr>u_is_active := a, u_updated_at := now\<rparr>)"

definition update_profile :: "user_db \<Rightarrow> int \<Rightarrow> string \<Rightarrow> time \<Rightarrow> user_db \<times> (user_error + unit)" where
  "update_profile db i name now = exec_update_user db i (\<lambda>u. u\<lparr>u_name := name, u_updated_at := now\<rparr>)"

definition update_password_hash :: "user_db \<Rightarrow> int \<Rightarrow> string \<Rightarrow> time \<Rightarrow> user_db \<times> (user_error + unit)" where
  "update_password_hash db i hash now =
     exec_update_user db i (\<lambda>u. u\<lparr>u_password_hash := hash, u_updated_at := now\<rparr>)"

definition update_last_login :: "user_db \<Rightarrow> int \<Rightarrow> time \<Rightarrow> user_db \<times> (user_error + unit)" where
  "update_last_login db i now =
     exec_update_user db i (\<lambda>u. u\<lparr>u_last_login := Some now, u_updated_at := now\<rparr>)"

definition deactivate_user :: "user_db \<Rightarrow> int \<Rightarrow> time \<Rightarrow> user_db \<times> (user_error + unit)" where
  "deactivate_user db i now = exec_update_user db i (\<lambda>u. u\<lparr>u_is_active := False, u_updated_at := now\<rparr>)"

lemmas user_update_defs = update_role_def update_active_def update_profile_def
  update_password_hash_def update_last_login_def deactivate_user_def relink_oidc_def

section \<open>The primary key\<close>

interpretation user_table: keyed_table u_id "\<lambda>i. tbl_find (\<lambda>u. u_id u = i)"
    "\<lambda>i. tbl_update (\<lambda>u. u_id u = i)"
  by unfold_locales
    (auto dest: tbl_find_Some simp: tbl_find_update_same map_key_update
      intro: tbl_find_update_other)

text \<open>The integrity of the table: ids are unique and below the next identity, no index is violated.\<close>

definition users_ok :: "user_db \<Rightarrow> bool" where
  "users_ok db \<longleftrightarrow> distinct (map u_id (users db)) \<and> (\<forall>u \<in> set (users db). u_id u < next_user_id db)
     \<and> users_violation (users db) = None"

lemma exec_update_user_ok:
  assumes "users_ok db" and "\<And>u. u_id (f u) = u_id u"
  shows "users_ok (fst (exec_update_user db i f))"
  using assms by (auto simp: users_ok_def exec_update_user_def Let_def user_table.upd_keys tbl_simps
      split: option.splits)

lemma exec_insert_user_ok: "users_ok db \<Longrightarrow> users_ok (fst (exec_insert_user db u))"
  by (force simp: users_ok_def exec_insert_user_def Let_def split: option.splits)

lemma exec_insert_user_fst:
  "exec_insert_user db u = (db', r) \<Longrightarrow> users_ok db \<Longrightarrow> users_ok db'"
  using exec_insert_user_ok by (metis fst_conv)

lemma upsert_by_oidc_ok: "users_ok db \<Longrightarrow> users_ok (fst (upsert_by_oidc db p s e n r now))"
  by (force simp: upsert_by_oidc_def Let_def users_ok_def map_key_update tbl_simps
      dest: exec_insert_user_fst split: option.splits prod.splits sum.splits)

lemma create_local_ok: "users_ok db \<Longrightarrow> users_ok (fst (create_local db e n h r now))"
  by (auto simp: create_local_def dest: exec_insert_user_fst split: prod.splits sum.splits)

section \<open>Histories of statements\<close>

datatype user_op =
    UUpsert string string string string string time
  | URelink int string string time
  | UCreate string string string string time
  | URole int string time
  | UActive int bool time
  | UProfile int string time
  | UPassword int string time
  | ULogin int time
  | UDeactivate int time

fun user_step :: "user_op \<Rightarrow> user_db \<Rightarrow> user_db" where
  "user_step (UUpsert p s e n r now) db = fst (upsert_by_oidc db p s e n r now)"
| "user_step (URelink i p s now) db = fst (relink_oidc db i p s now)"
| "user_step (UCreate e n h r now) db = fst (create_local db e n h r now)"
| "user_step (URole i r now) db = fst (update_role db i r now)"
| "user_step (UActive i a now) db = fst (update_active db i a now)"
| "user_step (UProfile i n now) db = fst (update_profile db i n now)"
| "user_step (UPassword i h now) db = fst (update_password_hash db i h now)"
| "user_step (ULogin i now) db = fst (update_last_login db i now)"
| "user_step (UDeactivate i now) db = fst (deactivate_user db i now)"

lemma user_step_ok: "users_ok db \<Longrightarrow> users_ok (user_step a db)"
  by (cases a) (auto simp: user_update_defs intro: upsert_by_oidc_ok create_local_ok exec_update_user_ok)

interpretation user_machine: invariant_machine user_step users_ok
  by unfold_locales (rule user_step_ok)

lemma distinct_filter_eq:
  assumes "distinct (map g (filter P xs))" and "x \<in> set xs" "P x" and "y \<in> set xs" "P y"
    and "g x = g y"
  shows "x = y"
  using assms by (auto simp: distinct_map dest: inj_onD)

lemma users_okD:
  assumes "users_ok db"
  shows "distinct (map u_id (users db))"
    and "distinct (map (to_lower \<circ> u_email) (filter u_is_active (users db)))"
    and "distinct (map (to_lower \<circ> u_email) (filter (\<lambda>u. u_provider u \<noteq> ''env'') (users db)))"
    and "distinct (map (\<lambda>u. (u_provider u, u_provider_sub u))
           (filter (\<lambda>u. u_provider_sub u \<noteq> []) (users db)))"
  using assms by (auto simp: users_ok_def users_violation_def split: if_splits)

text \<open>account identity.  After any history of statements of the user store, from the empty table, ids
  are unique, no two accounts of a real provider share an email whatever its case (deactivated ones
  included), no two active accounts do, and a provider subject names one account.\<close>

theorem user_identity:
  assumes "users (fold user_step as \<lparr>users = [], next_user_id = 1\<rparr>) = us"
    and "u \<in> set us" and "v \<in> set us"
  shows "(u_id u = u_id v \<longrightarrow> u = v)
    \<and> (u_provider u \<noteq> ''env'' \<and> u_provider v \<noteq> ''env'' \<and> to_lower (u_email u) = to_lower (u_email v)
         \<longrightarrow> u = v)
    \<and> (u_is_active u \<and> u_is_active v \<and> to_lower (u_email u) = to_lower (u_email v) \<longrightarrow> u = v)
    \<and> (u_provider_sub u \<noteq> [] \<and> u_provider u = u_provider v \<and> u_provider_sub u = u_provider_sub v
         \<longrightarrow> u = v)"
proof -
  let ?db = "fold user_step as \<lparr>users = [], next_user_id = 1\<rparr>"
  have "users_ok \<lparr>users = [], next_user_id = 1\<rparr>" by (simp add: users_ok_def users_violation_def)
  then have ok: "users_ok ?db" by (rule user_machine.run_inv)
  note d = users_okD [OF ok, unfolded assms(1)]
  show ?thesis
    using assms(2,3) d(1) distinct_filter_eq [OF d(2), of u v] distinct_filter_eq [OF d(3), of u v]
      distinct_filter_eq [OF d(4), of u v]
    by (auto simp: distinct_map dest: inj_onD)
qed

abbreviation alice_db :: user_db where
  "alice_db \<equiv> fold user_step [UCreate ''Al@x.io'' ''Al'' ''h'' ''viewer'' 5]
     \<lparr>users = [], next_user_id = 1\<rparr>"

theorem user_identity_witness:
  "\<exists>u v. users (fold user_step [UCreate ''Al@x.io'' ''Al'' ''h'' ''viewer'' 5,
        UUpsert ''oidc'' ''s1'' ''bo@x.io'' ''Bo'' ''admin'' 6] \<lparr>users = [], next_user_id = 1\<rparr>) = [u, v]
     \<and> u \<noteq> v \<and> to_lower (u_email u) \<noteq> to_lower (u_email v)"
proof -
  let ?as = "[UCreate ''Al@x.io'' ''Al'' ''h'' ''viewer'' 5, UUpsert ''oidc'' ''s1'' ''bo@x.io'' ''Bo'' ''admin'' 6]"
  have l: "to_lower ''Al@x.io'' \<noteq> to_lower ''bo@x.io''" by code_simp
  obtain u v where uv: "users (fold user_step ?as \<lparr>users = [], next_user_id = 1\<rparr>) = [u, v]"
    and "u_id u = 1" "u_id v = 2" "u_provider u = ''local''" "u_provider v = ''oidc''"
    using l by (simp add: create_local_def exec_insert_user_def users_violation_def Let_def
        upsert_by_oidc_def tbl_simps oidc_conflict_def)
  then show ?thesis using user_identity [OF uv, of u v] by auto
qed

text \<open>What a lookup by email returns in a table with integrity.\<close>

lemma get_user_by_email_match:
  assumes "get_user_by_email db e = Inr u"
  shows "u \<in> set (users db) \<and> to_lower (u_email u) = to_lower e"
proof -
  have "u \<in> set (email_matches db e)"
    using assms by (auto simp: get_user_by_email_def split: list.splits)
  then show ?thesis by (auto simp: email_matches_def Let_def)
qed

lemma get_user_by_email_active:
  assumes "users_ok db" and "u \<in> set (users db)" and "u_is_active u"
    and "to_lower (u_email u) = to_lower e"
  shows "get_user_by_email db e = Inr u"
proof -
  let ?ms = "filter (\<lambda>u. to_lower (u_email u) = to_lower e) (users db)"
  let ?as = "sort_key u_id (filter u_is_active ?ms)"
  have u: "u \<in> set ?as" using assms by simp
  then obtain w ws where w: "?as = w # ws" by (metis list.exhaust list.set_cases)
  then have "w \<in> set ?as" by simp
  then have "w \<in> set (users db) \<and> u_is_active w \<and> to_lower (u_email w) = to_lower e" by simp
  then have "w = u"
    using distinct_filter_eq [OF users_okD(2) [OF assms(1)], of w u] assms by simp
  with w show ?thesis by (simp add: get_user_by_email_def email_matches_def Let_def)
qed

text \<open>registration round trip.  A local account that was created is found, active, by every
  spelling of its email that differs in case only, and by its id, which no earlier account had.\<close>

theorem create_local_then_get:
  assumes "users_ok db" and "create_local db email name hash role now = (db', Inr u)"
    and "to_lower e = to_lower email"
  shows "get_user_by_email db' e = Inr u \<and> get_user_by_id db' (u_id u) = Inr u
    \<and> u_is_active u \<and> u_provider u = ''local'' \<and> u_password_hash u = hash \<and> u_role u = role
    \<and> get_user_by_id db (u_id u) = Inl ErrUserNotFound"
proof -
  have ok: "users_ok db'" using create_local_ok [OF assms(1)] assms(2) by (metis fst_conv)
  have u: "u \<in> set (users db')" "u_is_active u" "u_email u = email" "u_provider u = ''local''"
      "u_password_hash u = hash" "u_role u = role" "u_id u = next_user_id db"
    using assms(2) by (auto simp: create_local_def exec_insert_user_def Let_def
        split: option.splits prod.splits sum.splits)
  have "tbl_find (\<lambda>x. u_id x = u_id u) (users db') = Some u"
    using users_okD(1) [OF ok] u(1) by (rule tbl_find_distinct)
  moreover have "tbl_find (\<lambda>x. u_id x = u_id u) (users db) = None"
    using assms(1) u(7) by (auto simp: tbl_simps users_ok_def)
  moreover have "get_user_by_email db' e = Inr u"
    using get_user_by_email_active [OF ok u(1,2)] u(3) assms(3) by simp
  ultimately show ?thesis using u by (simp add: get_user_by_id_def)
qed

theorem create_local_then_get_witness:
  "\<exists>db' u. create_local \<lparr>users = [], next_user_id = 1\<rparr> ''Al@x.io'' ''Al'' ''h'' ''viewer'' 5 = (db', Inr u)
     \<and> get_user_by_email db' ''AL@X.IO'' = Inr u"
proof -
  obtain db' u where c: "create_local \<lparr>users = [], next_user_id = 1\<rparr>
      ''Al@x.io'' ''Al'' ''h'' ''viewer'' 5 = (db', Inr u)"
    by (simp add: create_local_def exec_insert_user_def users_violation_def Let_def)
  have ok: "users_ok \<lparr>users = [], next_user_id = 1\<rparr>" by (simp add: users_ok_def users_violation_def)
  have "to_lower ''AL@X.IO'' = to_lower ''Al@x.io''" by code_simp
  from create_local_then_get [OF ok c this] show ?thesis using c by blast
qed

lemma users_violation_append:
  assumes "v \<in> set us" and "u_provider v \<noteq> ''env''" and "u_provider w \<noteq> ''env''"
    and "to_lower (u_email v) = to_lower (u_email w)"
  shows "users_violation (us @ [w]) \<noteq> None"
proof -
  have "to_lower (u_email w) \<in> set (map (to_lower \<circ> u_email) (filter (\<lambda>u. u_provider u \<noteq> ''env'') us))"
    using assms by (force simp flip: assms(4))
  with assms(3) have "\<not> distinct (map (to_lower \<circ> u_email)
      (filter (\<lambda>u. u_provider u \<noteq> ''env'') (us @ [w])))"
    by simp
  then show ?thesis unfolding users_violation_def by (simp only: not_False_eq_True if_True not_not split: if_splits) simp
qed

text \<open>a deactivated account keeps its email.  Once an account of a real provider exists, creating
  another local account with that email, in any case, is refused as a duplicate and changes no row,
  also after the first one was deactivated.\<close>

theorem email_not_reusable:
  assumes "u \<in> set (users db)" and "u_provider u \<noteq> ''env''"
    and "to_lower (u_email u) = to_lower email"
  shows "\<exists>db'. create_local (fst (deactivate_user db i now)) email name hash role now'
               = (db', Inl ErrDuplicateEntry)
             \<and> users db' = users (fst (deactivate_user db i now))"
proof -
  let ?db = "fst (deactivate_user db i now)"
  obtain v where v: "v \<in> set (users ?db)" "u_provider v \<noteq> ''env''"
      "to_lower (u_email v) = to_lower email"
  proof (cases "users ?db = users db")
    case True
    with assms that show ?thesis by auto
  next
    case False
    then have "users ?db = tbl_update (\<lambda>u. u_id u = i)
        (\<lambda>u. u\<lparr>u_is_active := False, u_updated_at := now\<rparr>) (users db)"
      by (auto simp: deactivate_user_def exec_update_user_def Let_def split: option.splits if_splits)
    then have "(if u_id u = i then u\<lparr>u_is_active := False, u_updated_at := now\<rparr> else u) \<in> set (users ?db)"
      using assms(1) by (auto simp: tbl_simps)
    from that [OF this] assms(2,3) show ?thesis by (simp split: if_splits)
  qed
  have "users_violation (users ?db @ [w]) \<noteq> None"
    if "u_provider w = ''local''" and "u_email w = email" for w
    using users_violation_append [OF v(1,2), of w] v(3) that by simp
  then show ?thesis
    by (auto simp: create_local_def exec_insert_user_def Let_def split: option.splits)
qed

theorem email_not_reusable_witness:
  "\<exists>db'. create_local (fst (deactivate_user alice_db 1 6)) ''al@X.io'' ''B'' ''k'' ''admin'' 7
           = (db', Inl ErrDuplicateEntry)"
proof -
  obtain u where u: "u \<in> set (users alice_db)" "u_provider u \<noteq> ''env''" "u_email u = ''Al@x.io''"
    by (simp add: create_local_def exec_insert_user_def users_violation_def Let_def)
  have "to_lower (u_email u) = to_lower ''al@X.io''" unfolding u(3) by code_simp
  from email_not_reusable [OF u(1,2) this] show ?thesis by blast
qed

end
