(* ===== verification/ActiveCache.thy ===== *)
theory ActiveCache
  imports Users
begin

text \<open>
  \<open>api/internal/middleware/user_active_cache.go\<close>: the cache of \<open>users.is_active\<close> in front of every
  authenticated request.

  Times are explicit, because what the cache promises is about time: a lookup looks at the entries at
  its start, reads the database later and stores its answer later still (a \<open>visit\<close> holds the clock of the
  first and the last, the database argument is the one the read saw).  A store that fails is the result
  \<open>Inl (ErrUserDB _)\<close> of the read; an answer \<open>None\<close> is the error the caller turns into a 503.  The Go map
  is an association list with distinct keys, and its unspecified iteration order is the parameter \<open>it\<close>.
  A caller that joins another caller's flight takes the answer of that flight's load, so the state
  changes are those of completed loads (\<open>cache_step\<close>), in the order in which they complete.
\<close>

section \<open>State\<close>

record cache_entry =
  e_active :: bool
  e_expires :: time

record active_cache =
  ac_ttl :: duration
  ac_max :: int
  ac_env :: "string list"
  ac_entries :: "(string \<times> cache_entry) list"

type_synonym iteration = "(string \<times> cache_entry) list \<Rightarrow> (string \<times> cache_entry) list"

definition user_active_ttl :: duration where
  "user_active_ttl = 2 * second"

definition new_active_cache :: "duration \<Rightarrow> int \<Rightarrow> string list \<Rightarrow> active_cache" where
  "new_active_cache ttl max_entries env =
     \<lparr>ac_ttl = (if ttl \<le> 0 then user_active_ttl else ttl),
      ac_max = (if max_entries \<le> 0 then 10000 else max_entries),
      ac_env = filter (\<lambda>n. n \<noteq> []) env, ac_entries = []\<rparr>"

definition oidc_key :: "string \<Rightarrow> string" where
  "oidc_key email = ''oidc:'' @ to_lower email"

definition env_user_key :: "string \<Rightarrow> string" where
  "env_user_key name = ''env:'' @ name"

section \<open>Entries\<close>

definition cached :: "string \<Rightarrow> time \<Rightarrow> active_cache \<Rightarrow> bool option" where
  "cached k now c = (case map_of (ac_entries c) k of
      None \<Rightarrow> None
    | Some e \<Rightarrow> if now < e_expires e then Some (e_active e) else None)"

definition put_entry :: "string \<Rightarrow> cache_entry \<Rightarrow> (string \<times> cache_entry) list \<Rightarrow> (string \<times> cache_entry) list" where
  "put_entry k e es = (k, e) # filter (\<lambda>(k', _). k' \<noteq> k) es"

definition del_entry :: "string \<Rightarrow> (string \<times> cache_entry) list \<Rightarrow> (string \<times> cache_entry) list" where
  "del_entry k es = filter (\<lambda>(k', _). k' \<noteq> k) es"

text \<open>The scan for the entry that expires first, in the order of the map's iteration.\<close>

fun oldest :: "(string \<times> time) option \<Rightarrow> (string \<times> cache_entry) list \<Rightarrow> (string \<times> time) option" where
  "oldest acc [] = acc"
| "oldest None ((k, e) # es) = oldest (Some (k, e_expires e)) es"
| "oldest (Some (ok, ot)) ((k, e) # es) =
     oldest (if e_expires e < ot then Some (k, e_expires e) else Some (ok, ot)) es"

definition store_entry :: "iteration \<Rightarrow> string \<Rightarrow> bool \<Rightarrow> time \<Rightarrow> active_cache \<Rightarrow> active_cache" where
  "store_entry it k a now c =
     (let es = put_entry k \<lparr>e_active = a, e_expires = now + ac_ttl c\<rparr> (ac_entries c) in
      if ac_max c < int (length es)
      then (case oldest None (it es) of
              None \<Rightarrow> c\<lparr>ac_entries := es\<rparr>
            | Some (k', _) \<Rightarrow> c\<lparr>ac_entries := del_entry k' es\<rparr>)
      else c\<lparr>ac_entries := es\<rparr>)"

definition invalidate :: "string \<Rightarrow> active_cache \<Rightarrow> active_cache" where
  "invalidate k c = c\<lparr>ac_entries := del_entry k (ac_entries c)\<rparr>"

definition invalidate_oidc :: "string \<Rightarrow> active_cache \<Rightarrow> active_cache" where
  "invalidate_oidc email c = invalidate (oidc_key email) c"

definition invalidate_env_user :: "string \<Rightarrow> active_cache \<Rightarrow> active_cache" where
  "invalidate_env_user name c = invalidate (env_user_key name) c"

section \<open>Lookups\<close>

record visit =
  v_start :: time
  v_store :: time

definition load_user ::
    "iteration \<Rightarrow> string \<Rightarrow> user_error + user \<Rightarrow> time \<Rightarrow> active_cache \<Rightarrow> active_cache \<times> bool option" where
  "load_user it k res now c =
     (case res of
        Inl ErrUserNotFound \<Rightarrow> (store_entry it k False now c, Some False)
      | Inl _ \<Rightarrow> (c, None)
      | Inr u \<Rightarrow> (store_entry it k (u_is_active u) now c, Some (u_is_active u)))"

definition lookup ::
    "iteration \<Rightarrow> string \<Rightarrow> user_error + user \<Rightarrow> visit \<Rightarrow> active_cache \<Rightarrow> active_cache \<times> bool option" where
  "lookup it k res v c =
     (case cached k (v_start v) c of
        Some a \<Rightarrow> (c, Some a)
      | None \<Rightarrow> load_user it k res (v_store v) c)"

definition read_db :: "bool \<Rightarrow> user_error + user \<Rightarrow> user_error + user" where
  "read_db fault res = (if fault then Inl (ErrUserDB ''unavailable'') else res)"

definition is_active_by_id ::
    "iteration \<Rightarrow> bool \<Rightarrow> user_db \<Rightarrow> int \<Rightarrow> string \<Rightarrow> visit \<Rightarrow> active_cache \<Rightarrow> active_cache \<times> bool option" where
  "is_active_by_id it fault db i k v c = lookup it k (read_db fault (get_user_by_id db i)) v c"

definition is_active ::
    "iteration \<Rightarrow> bool \<Rightarrow> user_db \<Rightarrow> string \<Rightarrow> visit \<Rightarrow> active_cache \<Rightarrow> active_cache \<times> bool option" where
  "is_active it fault db sub v c =
     (case parse_int sub of None \<Rightarrow> (c, Some True) | Some i \<Rightarrow> is_active_by_id it fault db i sub v c)"

definition is_active_for_token ::
    "iteration \<Rightarrow> bool \<Rightarrow> user_db \<Rightarrow> string \<Rightarrow> string \<Rightarrow> visit \<Rightarrow> active_cache \<Rightarrow> active_cache \<times> bool option" where
  "is_active_for_token it fault db sub provider v c =
     (if provider \<noteq> ''oidc'' then is_active it fault db sub v c
      else lookup it (oidc_key sub) (read_db fault (get_user_by_email db sub)) v c)"

record key_identity =
  ki_user :: int
  ki_active :: bool

text \<open>The end of \<open>ResolveAPIKeyUsername\<close>, after the lookup by email.\<close>

definition resolve_loaded ::
    "iteration \<Rightarrow> string \<Rightarrow> user_error + user \<Rightarrow> time \<Rightarrow> active_cache \<Rightarrow> active_cache \<times> key_identity option" where
  "resolve_loaded it name res now c =
     (case res of
        Inl ErrUserNotFound \<Rightarrow>
          if name \<in> set (ac_env c)
          then (store_entry it (env_user_key name) True now c, Some \<lparr>ki_user = 0, ki_active = True\<rparr>)
          else (c, Some \<lparr>ki_user = 0, ki_active = False\<rparr>)
      | Inl _ \<Rightarrow> (c, None)
      | Inr u \<Rightarrow> (store_entry it (itoa (u_id u)) (u_is_active u) now c,
                  Some \<lparr>ki_user = u_id u, ki_active = u_is_active u\<rparr>))"

definition resolve_api_key_username ::
    "iteration \<Rightarrow> bool \<Rightarrow> user_db \<Rightarrow> string \<Rightarrow> visit \<Rightarrow> active_cache \<Rightarrow> active_cache \<times> key_identity option" where
  "resolve_api_key_username it fault db name v c =
     (let env = name \<in> set (ac_env c);
          by_email = resolve_loaded it name (read_db fault (get_user_by_email db name)) (v_store v) c in
      case (parse_int name, env) of
        (Some i, False) \<Rightarrow>
          (case is_active_by_id it fault db i name v c of
             (c', None) \<Rightarrow> (c', None)
           | (c', Some a) \<Rightarrow> (c', Some \<lparr>ki_user = i, ki_active = a\<rparr>))
      | _ \<Rightarrow>
          if env \<and> cached (env_user_key name) (v_start v) c \<noteq> None
          then (c, Some \<lparr>ki_user = 0, ki_active = True\<rparr>)
          else by_email)"

definition is_active_by_api_key_username ::
    "iteration \<Rightarrow> bool \<Rightarrow> user_db \<Rightarrow> string \<Rightarrow> visit \<Rightarrow> active_cache \<Rightarrow> active_cache \<times> bool option" where
  "is_active_by_api_key_username it fault db name v c =
     (case resolve_api_key_username it fault db name v c of
        (c', None) \<Rightarrow> (c', None) | (c', Some i) \<Rightarrow> (c', Some (ki_active i)))"

section \<open>The state machine\<close>

text \<open>What changes the entries: a load that completes for a token (its key names the row it read), the
  lookup by email of an API key's owner, and an invalidation.  \<open>rd\<close> is the time of the read and
  \<open>dba\<close> the database over time.\<close>

datatype cache_op =
    CLoad bool string time time
  | CResolve bool string time time
  | CInvalidate string

definition key_source :: "string \<Rightarrow> user_db \<Rightarrow> user_error + user" where
  "key_source k db =
     (case cut_prefix ''oidc:'' k of
        Some e \<Rightarrow> get_user_by_email db e
      | None \<Rightarrow> (case parse_int k of
                   Some i \<Rightarrow> get_user_by_id db i
                 | None \<Rightarrow> Inl (ErrUserDB ''no such key'')))"

fun cache_step :: "iteration \<Rightarrow> (time \<Rightarrow> user_db) \<Rightarrow> cache_op \<Rightarrow> active_cache \<Rightarrow> active_cache" where
  "cache_step it dba (CLoad fault k rd st) c = fst (load_user it k (read_db fault (key_source k (dba rd))) st c)"
| "cache_step it dba (CResolve fault name rd st) c =
     fst (resolve_loaded it name (read_db fault (get_user_by_email (dba rd) name)) st c)"
| "cache_step it dba (CInvalidate k) c = invalidate k c"

section \<open>The entries as a map\<close>

definition iteration_ok :: "iteration \<Rightarrow> bool" where
  "iteration_ok it \<longleftrightarrow> (\<forall>es. set (it es) = set es)"

lemma map_of_filter_other: "map_of (filter (\<lambda>(k', _). k' \<noteq> k) es) k'' = (if k'' = k then None else map_of es k'')"
  by (induction es) auto

lemma map_of_put [simp]: "map_of (put_entry k e es) = (map_of es)(k \<mapsto> e)"
  by (rule ext) (simp add: put_entry_def map_of_filter_other)

lemma map_of_del [simp]: "map_of (del_entry k es) = (map_of es)(k := None)"
  by (rule ext) (simp add: del_entry_def map_of_filter_other)

lemma distinct_put: "distinct (map fst es) \<Longrightarrow> distinct (map fst (put_entry k e es))"
  by (auto simp: put_entry_def distinct_map_filter)

lemma distinct_del: "distinct (map fst es) \<Longrightarrow> distinct (map fst (del_entry k es))"
  by (simp add: del_entry_def distinct_map_filter)

lemma length_put: "length (put_entry k e es) \<le> Suc (length es)"
  by (simp add: put_entry_def)

lemma length_del: "k \<in> fst ` set es \<Longrightarrow> length (del_entry k es) < length es"
  by (force simp: del_entry_def intro: length_filter_less)

lemma oldest_in: "oldest acc es = Some (k, t) \<Longrightarrow> k \<in> fst ` set es \<or> (\<exists>u. acc = Some (k, u))"
  by (induction acc es rule: oldest.induct) (auto split: if_splits)

lemma oldest_None: "oldest acc es = None \<longleftrightarrow> acc = None \<and> es = []"
  by (induction acc es rule: oldest.induct) auto

text \<open>Storing an entry touches no other entry, except that it may evict one.\<close>

lemma store_entry_map:
  "map_of (ac_entries (store_entry it k a now c)) k' =
     Some e \<Longrightarrow> map_of (ac_entries c) k' = Some e \<or> k' = k \<and> e = \<lparr>e_active = a, e_expires = now + ac_ttl c\<rparr>"
  by (auto simp: store_entry_def Let_def split: if_splits option.splits)

lemma store_entry_fields [simp]:
  "ac_ttl (store_entry it k a now c) = ac_ttl c" "ac_max (store_entry it k a now c) = ac_max c"
  "ac_env (store_entry it k a now c) = ac_env c"
  by (auto simp: store_entry_def Let_def split: option.splits)

section \<open>Bounded growth\<close>

definition bounded_inv :: "iteration \<Rightarrow> int \<Rightarrow> active_cache \<Rightarrow> bool" where
  "bounded_inv it m c \<longleftrightarrow> iteration_ok it \<and> ac_max c = m \<and> 0 < m \<and> int (length (ac_entries c)) \<le> m"

lemma store_entry_bounded: "bounded_inv it m c \<Longrightarrow> bounded_inv it m (store_entry it k a now c)"
proof -
  assume inv: "bounded_inv it m c"
  let ?es = "put_entry k \<lparr>e_active = a, e_expires = now + ac_ttl c\<rparr> (ac_entries c)"
  have len: "int (length ?es) \<le> m + 1"
    using inv length_put [of k "\<lparr>e_active = a, e_expires = now + ac_ttl c\<rparr>" "ac_entries c"]
    by (simp add: bounded_inv_def)
  have evict: "int (length (del_entry k' ?es)) \<le> m" if "oldest None (it ?es) = Some (k', t)" for k' t
    using oldest_in [OF that] inv len length_del [of k' ?es] by (auto simp: bounded_inv_def iteration_ok_def)
  have "it ?es \<noteq> []"
    using inv by (metis bounded_inv_def iteration_ok_def list.discI put_entry_def set_empty)
  then have "oldest None (it ?es) \<noteq> None" by (simp add: oldest_None)
  with inv evict len show ?thesis
    by (auto simp: bounded_inv_def store_entry_def Let_def)
qed

lemma load_user_state:
  "fst (load_user it k res now c) = c \<or> (\<exists>a. fst (load_user it k res now c) = store_entry it k a now c)"
  by (auto simp: load_user_def split: sum.splits user_error.splits)

lemma resolve_loaded_state:
  "fst (resolve_loaded it k res now c) = c \<or> (\<exists>k' a. fst (resolve_loaded it k res now c) = store_entry it k' a now c)"
  by (auto simp: resolve_loaded_def split: sum.splits user_error.splits)

lemma cache_step_state:
  obtains "cache_step it dba op c = c" | k where "cache_step it dba op c = invalidate k c"
    | k a now where "cache_step it dba op c = store_entry it k a now c"
  by (cases op) (metis cache_step.simps load_user_state resolve_loaded_state)+

lemma cache_step_bounded: "bounded_inv it m c \<Longrightarrow> bounded_inv it m (cache_step it dba op c)"
proof (rule cache_step_state [of it dba op c])
  fix k assume "bounded_inv it m c" and "cache_step it dba op c = invalidate k c"
  moreover have "length (del_entry k (ac_entries c)) \<le> length (ac_entries c)"
    by (simp add: del_entry_def)
  ultimately show ?thesis by (simp add: bounded_inv_def invalidate_def)
qed (simp_all add: store_entry_bounded)

interpretation cache_size: bounded_machine "cache_step it dba" "bounded_inv it m"
    "\<lambda>c. length (ac_entries c)" "nat m" for it dba m
  by unfold_locales (auto intro: cache_step_bounded, auto simp: bounded_inv_def)

section \<open>Freshness\<close>

text \<open>The flag a key stands for, in one state of the database.\<close>

definition key_truth :: "string \<Rightarrow> user_db \<Rightarrow> bool" where
  "key_truth k db =
     (case cut_prefix ''env:'' k of
        Some n \<Rightarrow> get_user_by_email db n = Inl ErrUserNotFound
      | None \<Rightarrow> (case key_source k db of Inr u \<Rightarrow> u_is_active u | Inl _ \<Rightarrow> False))"

definition fresh_inv :: "(time \<Rightarrow> user_db) \<Rightarrow> duration \<Rightarrow> time \<Rightarrow> duration \<Rightarrow> active_cache \<Rightarrow> bool" where
  "fresh_inv dba D now ttl c \<longleftrightarrow>
     ac_ttl c = ttl \<and> (\<forall>t. users_ok (dba t) \<and> (\<forall>u \<in> set (users (dba t)). in_int64 (u_id u)))
     \<and> (\<forall>k e. map_of (ac_entries c) k = Some e \<longrightarrow>
          (cut_prefix ''env:'' k \<noteq> None \<longrightarrow> e_active e) \<and>
          (\<exists>rd \<le> now. e_active e = key_truth k (dba rd) \<and> e_expires e \<le> rd + D + ttl))"

text \<open>The read of a load comes before its store, by at most \<open>D\<close>, and the store before \<open>now\<close>.\<close>

fun timely :: "duration \<Rightarrow> time \<Rightarrow> cache_op \<Rightarrow> bool" where
  "timely D now (CLoad _ _ rd st) = (rd \<le> st \<and> st \<le> rd + D \<and> st \<le> now)"
| "timely D now (CResolve _ _ rd st) = (rd \<le> st \<and> st \<le> rd + D \<and> st \<le> now)"
| "timely D now (CInvalidate _) = True"

lemma parse_int_head: "parse_int (c # s) = Some i \<Longrightarrow> is_digit c \<or> c = CHR ''-'' \<or> c = CHR ''+''"
  by (auto simp: parse_int_def Let_def split: if_splits)

lemma numeric_no_prefix:
  assumes "parse_int k = Some i"
  shows "cut_prefix ''oidc:'' k = None" and "cut_prefix ''env:'' k = None"
  using assms parse_int_head [of "CHR ''o''" "tl k" i] parse_int_head [of "CHR ''e''" "tl k" i]
  by (auto simp: cut_prefix_def prefix_def is_digit_def)

lemma cut_prefix_keys [simp]:
  "cut_prefix ''oidc:'' (oidc_key e) = Some (to_lower e)" "cut_prefix ''env:'' (oidc_key e) = None"
  "cut_prefix ''env:'' (env_user_key n) = Some n" "cut_prefix ''oidc:'' (env_user_key n) = None"
  by (simp_all add: cut_prefix_def oidc_key_def env_user_key_def)

lemma parse_int_env [simp]: "parse_int (env_user_key n) = None"
  using numeric_no_prefix(2) [of "env_user_key n"] by (cases "parse_int (env_user_key n)") auto

lemma get_user_by_email_lower [simp]: "get_user_by_email db (to_lower e) = get_user_by_email db e"
  by (simp add: get_user_by_email_def email_matches_def)

lemma get_user_by_id_error: "get_user_by_id db i = Inl e \<Longrightarrow> e = ErrUserNotFound"
  by (auto simp: get_user_by_id_def split: option.splits)

lemma get_user_by_email_error: "get_user_by_email db i = Inl e \<Longrightarrow> e = ErrUserNotFound"
  by (auto simp: get_user_by_email_def split: list.splits)

lemma key_source_numeric: "parse_int k = Some i \<Longrightarrow> key_source k db = get_user_by_id db i"
  by (simp add: key_source_def numeric_no_prefix)

lemma key_source_oidc [simp]: "key_source (oidc_key e) db = get_user_by_email db e"
  by (simp add: key_source_def)

lemma key_source_env: "cut_prefix ''env:'' k = Some n \<Longrightarrow> \<exists>e. key_source k db = Inl (ErrUserDB e)"
proof -
  assume env: "cut_prefix ''env:'' k = Some n"
  then have "cut_prefix ''oidc:'' k = None" by (auto simp: cut_prefix_def prefix_def split: if_splits)
  moreover have "parse_int k = None" using env numeric_no_prefix(2) [of k] by (cases "parse_int k") auto
  ultimately show ?thesis by (simp add: key_source_def)
qed

lemma email_member: "get_user_by_email db e = Inr u \<Longrightarrow> u \<in> set (users db)"
  by (auto simp: get_user_by_email_def email_matches_def Let_def split: list.splits
      dest!: arg_cong [where f = set])

lemma get_by_id_of_row:
  assumes "users_ok db" and "u \<in> set (users db)"
  shows "get_user_by_id db (u_id u) = Inr u"
  using tbl_find_distinct [OF _ assms(2), of u_id] assms(1) by (simp add: users_ok_def get_user_by_id_def)

lemma store_entry_fresh:
  assumes "fresh_inv dba D now ttl c" and "a = key_truth k (dba rd)"
    and "rd \<le> st" "st \<le> rd + D" "st \<le> now" and "cut_prefix ''env:'' k \<noteq> None \<Longrightarrow> a"
  shows "fresh_inv dba D now ttl (store_entry it k a st c)"
  unfolding fresh_inv_def
proof (intro conjI allI impI)
  fix k' e assume "map_of (ac_entries (store_entry it k a st c)) k' = Some e"
  then consider "map_of (ac_entries c) k' = Some e"
    | "k' = k" "e = \<lparr>e_active = a, e_expires = st + ac_ttl c\<rparr>"
    using store_entry_map by blast
  then have "(cut_prefix ''env:'' k' \<noteq> None \<longrightarrow> e_active e) \<and>
      (\<exists>rd \<le> now. e_active e = key_truth k' (dba rd) \<and> e_expires e \<le> rd + D + ttl)"
  proof cases
    case 1
    with assms(1) show ?thesis by (simp add: fresh_inv_def)
  next
    case 2
    have "ac_ttl c = ttl" using assms(1) by (simp add: fresh_inv_def)
    with 2 assms(2-6) show ?thesis by (intro conjI exI [of _ rd]) auto
  qed
  then show "cut_prefix ''env:'' k' \<noteq> None \<Longrightarrow> e_active e"
    and "\<exists>rd \<le> now. e_active e = key_truth k' (dba rd) \<and> e_expires e \<le> rd + D + ttl" by auto
qed (use assms(1) in \<open>simp_all add: fresh_inv_def\<close>)

lemma load_user_fresh:
  assumes "fresh_inv dba D now ttl c" and "rd \<le> st" "st \<le> rd + D" "st \<le> now"
  shows "fresh_inv dba D now ttl (fst (load_user it k (read_db fault (key_source k (dba rd))) st c))"
proof (cases "cut_prefix ''env:'' k")
  case None
  have "fresh_inv dba D now ttl (store_entry it k (key_truth k (dba rd)) st c)"
    by (rule store_entry_fresh [OF assms(1) refl assms(2-4)]) (simp add: None)
  with None show ?thesis
    using assms(1) by (auto simp: load_user_def read_db_def key_truth_def split: sum.splits user_error.splits)
next
  case (Some n)
  then show ?thesis
    using key_source_env [OF Some, of "dba rd"] assms(1) by (auto simp: load_user_def read_db_def)
qed

lemma resolve_loaded_fresh:
  assumes "fresh_inv dba D now ttl c" and "rd \<le> st" "st \<le> rd + D" "st \<le> now"
  shows "fresh_inv dba D now ttl
     (fst (resolve_loaded it n (read_db fault (get_user_by_email (dba rd) n)) st c))"
proof (cases "read_db fault (get_user_by_email (dba rd) n)")
  case (Inl e)
  then show ?thesis
    using store_entry_fresh [OF assms(1) _ assms(2-4), of True "env_user_key n"] assms(1)
    by (auto simp: resolve_loaded_def read_db_def key_truth_def split: user_error.splits if_splits)
next
  case (Inr u)
  then have u: "get_user_by_email (dba rd) n = Inr u" by (auto simp: read_db_def split: if_splits)
  have ok: "users_ok (dba rd)" and "in_int64 (u_id u)"
    using assms(1) email_member [OF u] by (auto simp: fresh_inv_def)
  then have k: "parse_int (itoa (u_id u)) = Some (u_id u)" by (simp add: parse_int_itoa)
  have "key_truth (itoa (u_id u)) (dba rd) = u_is_active u"
    by (simp add: key_truth_def numeric_no_prefix [OF k] key_source_numeric [OF k]
        get_by_id_of_row [OF ok email_member [OF u]])
  then show ?thesis
    using store_entry_fresh [OF assms(1) _ assms(2-4), of "u_is_active u" "itoa (u_id u)"] Inr
    by (simp add: resolve_loaded_def numeric_no_prefix [OF k])
qed

lemma cache_step_fresh:
  "timely D now op \<Longrightarrow> fresh_inv dba D now ttl c \<Longrightarrow> fresh_inv dba D now ttl (cache_step it dba op c)"
  by (cases op) (simp_all add: load_user_fresh resolve_loaded_fresh, auto simp: fresh_inv_def invalidate_def)

interpretation fresh: guarded_machine "cache_step it dba" "fresh_inv dba D now ttl" "timely D now"
    for it dba D now ttl
  by unfold_locales (rule cache_step_fresh)

lemma cached_fresh:
  assumes "fresh_inv dba D now ttl c" and "cached k now c = Some a"
  shows "\<exists>t. now - ttl - D < t \<and> t \<le> now \<and> a = key_truth k (dba t)"
proof -
  from assms(2) obtain e where e: "map_of (ac_entries c) k = Some e" "now < e_expires e" "a = e_active e"
    by (auto simp: cached_def split: option.splits if_splits)
  from assms(1) have "\<exists>rd \<le> now. e_active e = key_truth k (dba rd) \<and> e_expires e \<le> rd + D + ttl"
    using e(1) unfolding fresh_inv_def by blast
  then obtain t where "t \<le> now" "e_active e = key_truth k (dba t)" "e_expires e \<le> t + D + ttl"
    by blast
  with e show ?thesis by (intro exI [of _ t]) auto
qed

lemma lookup_fresh:
  assumes "fresh_inv dba D (v_start v) ttl c" and "snd (lookup it k (read_db fault (key_source k (dba rd))) v c) = Some a"
    and "v_start v \<le> rd" and "cut_prefix ''env:'' k = None" and "0 < ttl" "0 \<le> D"
  shows "\<exists>t. v_start v - ttl - D < t \<and> t \<le> rd \<and> a = key_truth k (dba t)"
proof (cases "cached k (v_start v) c")
  case None
  with assms have "a = key_truth k (dba rd)"
    by (auto simp: lookup_def load_user_def read_db_def key_truth_def split: sum.splits user_error.splits if_splits)
  with assms show ?thesis by (intro exI [of _ rd]) auto
next
  case (Some b)
  then have "b = a" using assms(2) by (simp add: lookup_def)
  with cached_fresh [OF assms(1) Some] assms(3) show ?thesis by force
qed

section \<open>Properties\<close>

lemma new_cache_fresh:
  "\<forall>t. users_ok (dba t) \<and> (\<forall>u \<in> set (users (dba t)). in_int64 (u_id u))
   \<Longrightarrow> fresh_inv dba D now (if ttl \<le> 0 then user_active_ttl else ttl) (new_active_cache ttl m env)"
  by (simp add: fresh_inv_def new_active_cache_def)

lemma cache_step_env [simp]: "ac_env (fold (cache_step it dba) ops c) = ac_env c"
proof (induction ops arbitrary: c)
  case (Cons op ops)
  have "ac_env (cache_step it dba op c) = ac_env c"
    by (rule cache_step_state [of it dba op c]) (simp_all add: invalidate_def)
  with Cons show ?case by simp
qed simp

text \<open>What the recheck of a token or of an API key answers for, in one state of the database.\<close>

definition token_truth :: "string \<Rightarrow> string \<Rightarrow> user_db \<Rightarrow> bool" where
  "token_truth sub provider db =
     (if provider = ''oidc'' then (case get_user_by_email db sub of Inr u \<Rightarrow> u_is_active u | Inl _ \<Rightarrow> False)
      else (case parse_int sub of None \<Rightarrow> True
            | Some i \<Rightarrow> (case get_user_by_id db i of Inr u \<Rightarrow> u_is_active u | Inl _ \<Rightarrow> False)))"

lemma key_truth_token:
  "key_truth (oidc_key sub) db = token_truth sub ''oidc'' db"
  "provider \<noteq> ''oidc'' \<Longrightarrow> parse_int sub = Some i \<Longrightarrow> key_truth sub db = token_truth sub provider db"
  by (simp_all add: key_truth_def token_truth_def numeric_no_prefix key_source_numeric)

lemma token_answer_fresh:
  assumes "\<forall>t. users_ok (dba t) \<and> (\<forall>u \<in> set (users (dba t)). in_int64 (u_id u))"
    and "list_all (timely D (v_start v)) ops" and "0 \<le> D" and "v_start v \<le> rd"
    and "snd (is_active_for_token it fault (dba rd) sub provider v
           (fold (cache_step it dba) ops (new_active_cache ttl m env))) = Some a"
  shows "\<exists>t. v_start v - (if ttl \<le> 0 then 2 * second else ttl) - D < t \<and> t \<le> rd
             \<and> a = token_truth sub provider (dba t)"
proof -
  let ?T = "if ttl \<le> 0 then user_active_ttl else ttl"
  have ttl: "0 < ?T" "?T = (if ttl \<le> 0 then 2 * second else ttl)" by (auto simp: user_active_ttl_def)
  note inv = fresh.guarded_run [OF assms(2) new_cache_fresh [OF assms(1), of D "v_start v" ttl m env], of it]
  note L = lookup_fresh [OF inv _ assms(4) _ ttl(1) assms(3)]
  consider (oidc) "provider = ''oidc''" | (env) "provider \<noteq> ''oidc''" "parse_int sub = None"
    | (id) i where "provider \<noteq> ''oidc''" "parse_int sub = Some i" by (cases "parse_int sub") auto
  then show ?thesis
  proof cases
    case oidc
    with assms(5) L [of it "oidc_key sub" fault a] show ?thesis
      unfolding ttl(2) [symmetric] by (simp add: is_active_for_token_def key_truth_token)
  next
    case env
    with assms(3-5) ttl show ?thesis
      by (intro exI [of _ rd]) (auto simp: is_active_for_token_def is_active_def token_truth_def user_active_ttl_def)
  next
    case id
    with assms(5) L [of it sub fault a] show ?thesis
      unfolding ttl(2) [symmetric]
      by (simp add: is_active_for_token_def is_active_def is_active_by_id_def key_source_numeric
          numeric_no_prefix key_truth_token)
  qed
qed

text \<open>C32: bounded staleness of the account recheck.  Whatever loads, key resolutions and invalidations
  the cache has gone through, if every database read is stored within \<open>D\<close>, then the answer the middleware
  gets for a token is what the users table said at some moment less than TTL plus \<open>D\<close> before the lookup.
  In particular a deactivated account is refused once that long has passed.\<close>

theorem token_recheck_fresh:
  assumes "\<forall>t. users_ok (dba t) \<and> (\<forall>u \<in> set (users (dba t)). in_int64 (u_id u))"
    and "list_all (timely D (v_start v)) ops" and "0 \<le> D" and "v_start v \<le> rd"
    and "snd (is_active_for_token it fault (dba rd) sub provider v
           (fold (cache_step it dba) ops (new_active_cache ttl m env))) = Some a"
  shows "\<exists>t. v_start v - (if ttl \<le> 0 then 2 * second else ttl) - D < t \<and> t \<le> rd
             \<and> a = token_truth sub provider (dba t)"
  using assms by (rule token_answer_fresh)

text \<open>What the recheck of an API key's owner answers for.\<close>

definition owner_truth :: "string list \<Rightarrow> string \<Rightarrow> user_db \<Rightarrow> bool" where
  "owner_truth env name db =
     (case (parse_int name, name \<in> set env) of
        (Some i, False) \<Rightarrow> (case get_user_by_id db i of Inr u \<Rightarrow> u_is_active u | Inl _ \<Rightarrow> False)
      | _ \<Rightarrow> (case get_user_by_email db name of Inr u \<Rightarrow> u_is_active u | Inl _ \<Rightarrow> name \<in> set env))"

lemma resolve_loaded_answer:
  "snd (resolve_loaded it name (read_db fault (get_user_by_email db name)) t c) = Some i \<Longrightarrow>
   ki_active i = (case get_user_by_email db name of Inr u \<Rightarrow> u_is_active u | Inl _ \<Rightarrow> name \<in> set (ac_env c))"
  by (auto simp: resolve_loaded_def read_db_def split: sum.splits user_error.splits if_splits
      dest: get_user_by_email_error)

lemma owner_recheck_fresh:
  assumes "\<forall>t. users_ok (dba t) \<and> (\<forall>u \<in> set (users (dba t)). in_int64 (u_id u))"
    and "list_all (timely D (v_start v)) ops" and "0 \<le> D" and "v_start v \<le> rd"
    and "c = fold (cache_step it dba) ops (new_active_cache ttl m env)"
    and "snd (resolve_api_key_username it fault (dba rd) name v c) = Some i"
  shows "\<exists>t. v_start v - (if ttl \<le> 0 then 2 * second else ttl) - D < t \<and> t \<le> rd
             \<and> ki_active i = owner_truth (ac_env c) name (dba t)"
proof -
  let ?T = "if ttl \<le> 0 then user_active_ttl else ttl"
  have ttl: "0 < ?T" "?T = (if ttl \<le> 0 then 2 * second else ttl)" by (auto simp: user_active_ttl_def)
  note inv = fresh.guarded_run [OF assms(2) new_cache_fresh [OF assms(1), of D "v_start v" ttl m env], of it,
      folded assms(5)]
  consider (id) j where "parse_int name = Some j" "name \<notin> set (ac_env c)"
    | (hit) b where "name \<in> set (ac_env c)" "cached (env_user_key name) (v_start v) c = Some b"
    | (email) "\<not> (parse_int name \<noteq> None \<and> name \<notin> set (ac_env c))"
        "\<not> (name \<in> set (ac_env c) \<and> cached (env_user_key name) (v_start v) c \<noteq> None)"
    by (cases "parse_int name"; cases "name \<in> set (ac_env c)"; cases "cached (env_user_key name) (v_start v) c")
      auto
  then show ?thesis
  proof cases
    case id
    then have "snd (lookup it name (read_db fault (key_source name (dba rd))) v c) = Some (ki_active i)"
      using assms(6) by (auto simp: resolve_api_key_username_def is_active_by_id_def key_source_numeric
          split: prod.splits option.splits)
    from lookup_fresh [OF inv this assms(4) _ ttl(1) assms(3)] id show ?thesis
      unfolding ttl(2) [symmetric]
      by (simp add: numeric_no_prefix owner_truth_def key_truth_def key_source_numeric)
  next
    case hit
    from hit(2) obtain e where e: "map_of (ac_entries c) (env_user_key name) = Some e" "b = e_active e"
      by (auto simp: cached_def split: option.splits if_splits)
    have "b" using inv e by (auto simp: fresh_inv_def)
    with cached_fresh [OF inv hit(2)] obtain t where t: "v_start v - ?T - D < t" "t \<le> v_start v"
        "get_user_by_email (dba t) name = Inl ErrUserNotFound"
      by (auto simp: key_truth_def)
    have "ki_active i"
      using hit assms(6) by (auto simp: resolve_api_key_username_def Let_def split: option.splits)
    with t hit(1) assms(4) show ?thesis
      unfolding ttl(2) [symmetric]
      by (intro exI [of _ t]) (auto simp: owner_truth_def split: option.splits)
  next
    case email
    then have "snd (resolve_loaded it name (read_db fault (get_user_by_email (dba rd) name)) (v_store v) c) = Some i"
      using assms(6) by (auto simp: resolve_api_key_username_def Let_def split: option.splits)
    from resolve_loaded_answer [OF this] email assms(3,4) ttl show ?thesis
      by (intro exI [of _ rd]) (auto simp: owner_truth_def user_active_ttl_def split: option.splits)
  qed
qed

text \<open>the cache stays within its bound.  Whatever the order in which Go iterates over the map, every
  history of loads, resolutions and invalidations leaves at most the configured number of entries
  (10000 when the configuration gives none).\<close>

theorem cache_bounded:
  assumes "iteration_ok it"
  shows "length (ac_entries (fold (cache_step it dba) ops (new_active_cache ttl m env)))
     \<le> nat (if m \<le> 0 then 10000 else m)"
proof -
  have "bounded_inv it (if m \<le> 0 then 10000 else m) (new_active_cache ttl m env)"
    using assms by (simp add: bounded_inv_def new_active_cache_def)
  then show ?thesis by (rule cache_size.run_bound)
qed

section \<open>Witnesses\<close>

lemma lookup_total: "\<exists>a. snd (lookup it k (read_db False (get_user_by_id db i)) v c) = Some a"
  using get_user_by_id_error [of db i]
  by (auto simp: lookup_def load_user_def read_db_def split: option.splits sum.splits user_error.splits)

theorem token_recheck_fresh_witness:
  "snd (is_active_for_token id False alice_db ''1'' ''local'' \<lparr>v_start = 100, v_store = 102\<rparr>
      (fold (cache_step id (\<lambda>_. alice_db)) [CLoad False ''1'' 90 91, CInvalidate ''2''] (new_active_cache 0 0 [])))
    = Some True"
proof -
  let ?c = "fold (cache_step id (\<lambda>_. alice_db)) [CLoad False ''1'' 90 91, CInvalidate ''2''] (new_active_cache 0 0 [])"
  have p: "parse_int ''1'' = Some 1" by code_simp
  have ok: "\<forall>t :: time. users_ok alice_db \<and> (\<forall>u \<in> set (users alice_db). in_int64 (u_id u))"
    by (simp add: users_ok_def create_local_def exec_insert_user_def Let_def users_violation_def in_int64_def)
  obtain a where a: "snd (is_active_for_token id False alice_db ''1'' ''local'' \<lparr>v_start = 100, v_store = 102\<rparr> ?c) = Some a"
    using lookup_total [of id "''1''" alice_db 1 "\<lparr>v_start = 100, v_store = 102\<rparr>" ?c]
    by (simp add: is_active_for_token_def is_active_def is_active_by_id_def p) blast
  then have "a = token_truth ''1'' ''local'' alice_db"
    using token_recheck_fresh [of "\<lambda>_. alice_db" 2 "\<lparr>v_start = 100, v_store = 102\<rparr>"
        "[CLoad False ''1'' 90 91, CInvalidate ''2'']" 101] ok by fastforce
  also have "\<dots> = True"
    by (simp add: token_truth_def p get_user_by_id_def create_local_def exec_insert_user_def Let_def
        users_violation_def tbl_simps)
  finally show ?thesis using a by simp
qed

theorem cache_bounded_witness:
  "length (ac_entries (fold (cache_step rev (\<lambda>_. alice_db))
      [CLoad False ''1'' 90 91, CLoad False ''2'' 92 93, CLoad False ''3'' 92 94] (new_active_cache 0 2 []))) \<le> 2"
  using cache_bounded [of rev "\<lambda>_. alice_db"
      "[CLoad False ''1'' 90 91, CLoad False ''2'' 92 93, CLoad False ''3'' 92 94]" 0 2 "[]"]
  by (simp add: iteration_ok_def)

text \<open>An env-configured user whose name is a number is told apart from a database row on the API-key path
  only: a token with that subject is looked up by id.\<close>

lemma numeric_env_user:
  assumes "users db = []" and "ac_entries c = []" and "''42'' \<in> set (ac_env c)"
  shows "snd (is_active_for_token it False db ''42'' ''local'' v c) = Some False"
    and "map_option ki_active (snd (resolve_api_key_username it False db ''42'' v c)) = Some True"
proof -
  have p: "parse_int ''42'' = Some 42" by code_simp
  show "snd (is_active_for_token it False db ''42'' ''local'' v c) = Some False"
    using assms by (simp add: is_active_for_token_def is_active_def p is_active_by_id_def lookup_def cached_def
        load_user_def read_db_def get_user_by_id_def tbl_simps)
  show "map_option ki_active (snd (resolve_api_key_username it False db ''42'' v c)) = Some True"
    using assms by (simp add: resolve_api_key_username_def p cached_def resolve_loaded_def read_db_def
        get_user_by_email_def email_matches_def)
qed

end
