(* ===== verification/ApiKeys.thy ===== *)
theory ApiKeys
  imports Codec
begin

text \<open>
  \<open>api/internal/store/pg/api_key.go\<close> on the schema of the migrations 0016, 0041 and 0046: the keys, the
  throttle of the \<open>last_used\<close> writes (in memory, per replica) and the three deletions.  The proposal tables
  reference \<open>api_keys(id)\<close> with PostgreSQL's default action, so a DELETE that would leave a proposal
  dangling is rejected as a whole: \<open>kd_refs\<close> holds the referenced ids.  Each statement is atomic; a lost
  connection is modelled by the handlers.
\<close>

section \<open>State\<close>

record api_key =
  k_id :: int
  k_name :: string
  k_prefix :: string
  k_hash :: string
  k_username :: string
  k_role :: string
  k_expires_at :: "time option"
  k_last_used :: "time option"
  k_created_at :: time
  k_mcp_writes :: bool
  k_projects :: "int list"

record key_db =
  keys_of :: "api_key list"
  next_key_id :: int
  kd_refs :: "int list"

datatype key_error = ErrAPIKeyNotFound | ErrKeyDB string

definition default_last_used_throttle :: duration where
  "default_last_used_throttle = 60 * second"

section \<open>Statements\<close>

definition create_key :: "key_db \<Rightarrow> api_key \<Rightarrow> time \<Rightarrow> key_db \<times> (key_error + api_key)" where
  "create_key db k now =
     (let k' = k\<lparr>k_id := next_key_id db, k_created_at := now, k_last_used := None\<rparr>;
          db' = db\<lparr>next_key_id := next_key_id db + 1\<rparr>
      in if tbl_count (\<lambda>r. k_hash r = k_hash k) (keys_of db) \<noteq> 0
         then (db', Inl (ErrKeyDB ''api_keys_key_hash_key''))
         else (db'\<lparr>keys_of := keys_of db @ [k']\<rparr>,
               Inr (k\<lparr>k_id := next_key_id db, k_created_at := now\<rparr>)))"

definition list_keys :: "key_db \<Rightarrow> string \<Rightarrow> api_key list" where
  "list_keys db name = sort_key (\<lambda>k. - k_created_at k) (filter (\<lambda>k. k_username k = name) (keys_of db))"

definition get_key_by_hash :: "key_db \<Rightarrow> string \<Rightarrow> key_error + api_key" where
  "get_key_by_hash db h =
     (case tbl_find (\<lambda>k. k_hash k = h) (keys_of db) of None \<Rightarrow> Inl ErrAPIKeyNotFound | Some k \<Rightarrow> Inr k)"

definition should_write_last_used ::
    "duration \<Rightarrow> int \<Rightarrow> time \<Rightarrow> (int \<rightharpoonup> time) \<Rightarrow> bool \<times> (int \<rightharpoonup> time)" where
  "should_write_last_used window i now lu =
     (if window \<le> 0 then (True, lu)
      else (case lu i of
              Some t \<Rightarrow> if now - t < window then (False, lu) else (True, lu(i \<mapsto> now))
            | None \<Rightarrow> (True, lu(i \<mapsto> now))))"

definition update_last_used ::
    "duration \<Rightarrow> bool \<Rightarrow> int \<Rightarrow> time \<Rightarrow> key_db \<times> (int \<rightharpoonup> time) \<Rightarrow> (key_db \<times> (int \<rightharpoonup> time)) \<times> (key_error + unit)" where
  "update_last_used window fault i now s =
     (case s of (db, lu) \<Rightarrow>
       (case should_write_last_used window i now lu of
          (False, lu') \<Rightarrow> ((db, lu'), Inr ())
        | (True, lu') \<Rightarrow>
            if fault then ((db, lu'), Inl (ErrKeyDB ''unavailable''))
            else ((db\<lparr>keys_of := tbl_update (\<lambda>k. k_id k = i) (\<lambda>k. k\<lparr>k_last_used := Some now\<rparr>) (keys_of db)\<rparr>,
                   lu'), Inr ())))"

text \<open>A DELETE with a predicate: rejected when a deleted row is referenced.\<close>

definition exec_delete_keys :: "(api_key \<Rightarrow> bool) \<Rightarrow> key_db \<Rightarrow> key_db \<times> (key_error + nat)" where
  "exec_delete_keys p db =
     (if \<exists>k \<in> set (keys_of db). p k \<and> k_id k \<in> set (kd_refs db)
      then (db, Inl (ErrKeyDB ''proposer_api_key_id_fkey''))
      else (db\<lparr>keys_of := tbl_delete p (keys_of db)\<rparr>, Inr (tbl_count p (keys_of db))))"

definition delete_key :: "key_db \<Rightarrow> int \<Rightarrow> string \<Rightarrow> key_db \<times> (key_error + unit)" where
  "delete_key db i name =
     (case exec_delete_keys (\<lambda>k. k_id k = i \<and> k_username k = name) db of
        (db', Inl e) \<Rightarrow> (db', Inl e)
      | (db', Inr n) \<Rightarrow> (db', if n = 0 then Inl ErrAPIKeyNotFound else Inr ()))"

definition delete_all_keys_for_user :: "key_db \<Rightarrow> string \<Rightarrow> key_db \<times> (key_error + nat)" where
  "delete_all_keys_for_user db name = exec_delete_keys (\<lambda>k. k_username k = name) db"

definition count_keys :: "key_db \<Rightarrow> string \<Rightarrow> nat" where
  "count_keys db name = tbl_count (\<lambda>k. k_username k = name) (keys_of db)"

section \<open>Integrity\<close>

definition keys_ok :: "key_db \<Rightarrow> bool" where
  "keys_ok db \<longleftrightarrow> distinct (map k_id (keys_of db)) \<and> distinct (map k_hash (keys_of db))
     \<and> (\<forall>k \<in> set (keys_of db). k_id k < next_key_id db)"

datatype key_op =
    KCreate api_key time
  | KUsed duration bool int time
  | KDelete int string
  | KDeleteAll string

fun key_step :: "key_op \<Rightarrow> key_db \<times> (int \<rightharpoonup> time) \<Rightarrow> key_db \<times> (int \<rightharpoonup> time)" where
  "key_step (KCreate k now) (db, lu) = (fst (create_key db k now), lu)"
| "key_step (KUsed w fault i now) (db, lu) = fst (update_last_used w fault i now (db, lu))"
| "key_step (KDelete i name) (db, lu) = (fst (delete_key db i name), lu)"
| "key_step (KDeleteAll name) (db, lu) = (fst (delete_all_keys_for_user db name), lu)"

lemma exec_delete_keys_ok: "keys_ok db \<Longrightarrow> keys_ok (fst (exec_delete_keys p db))"
  by (auto simp: keys_ok_def exec_delete_keys_def tbl_simps intro: distinct_map_tbl_delete)

lemma delete_key_fst: "fst (delete_key db i name) = fst (exec_delete_keys (\<lambda>k. k_id k = i \<and> k_username k = name) db)"
  by (simp add: delete_key_def split: prod.splits sum.splits)

lemma create_key_ok: "keys_ok db \<Longrightarrow> keys_ok (fst (create_key db k now))"
  by (force simp: keys_ok_def create_key_def Let_def tbl_simps)

lemma update_last_used_db:
  "fst (fst (update_last_used w fault i now (db, lu))) = db \<or>
   fst (fst (update_last_used w fault i now (db, lu)))
     = db\<lparr>keys_of := tbl_update (\<lambda>k. k_id k = i) (\<lambda>k. k\<lparr>k_last_used := Some now\<rparr>) (keys_of db)\<rparr>"
  by (auto simp: update_last_used_def split: prod.splits bool.splits)

lemma update_last_used_ok: "keys_ok db \<Longrightarrow> keys_ok (fst (fst (update_last_used w fault i now (db, lu))))"
  using update_last_used_db [of w fault i now db lu]
  by (auto simp: keys_ok_def map_key_update tbl_simps)

lemma key_step_ok: "keys_ok (fst s) \<Longrightarrow> keys_ok (fst (key_step a s))"
  by (cases s; cases a)
    (auto simp: create_key_ok update_last_used_ok delete_key_fst delete_all_keys_for_user_def exec_delete_keys_ok)

interpretation key_machine: invariant_machine key_step "\<lambda>s. keys_ok (fst s)"
  by unfold_locales (rule key_step_ok)

section \<open>Lookups\<close>

lemma get_key_by_hash_Inr: "get_key_by_hash db h = Inr k \<Longrightarrow> k \<in> set (keys_of db) \<and> k_hash k = h"
  by (auto simp: get_key_by_hash_def dest: tbl_find_Some split: option.splits)

lemma get_key_by_hash_row:
  assumes "keys_ok db" and "k \<in> set (keys_of db)"
  shows "get_key_by_hash db (k_hash k) = Inr k"
  using tbl_find_distinct [OF _ assms(2), of k_hash] assms(1) by (simp add: keys_ok_def get_key_by_hash_def)

lemma get_key_by_hash_iff:
  "keys_ok db \<Longrightarrow> get_key_by_hash db h = Inr k \<longleftrightarrow> k \<in> set (keys_of db) \<and> k_hash k = h"
  using get_key_by_hash_Inr get_key_by_hash_row by blast

section \<open>Properties\<close>

text \<open>revocation of all of a user's keys.  When the bulk deletion succeeds, no key of that user
  authenticates any more, every other user's keys authenticate as before, and the count is the number
  removed; when it fails, because a proposal still names one of the keys, every key is left in force.\<close>

theorem bulk_revocation:
  assumes "keys_ok db" and "delete_all_keys_for_user db name = (db', res)"
  shows "(\<forall>n h k. res = Inr n \<longrightarrow>
            (get_key_by_hash db' h = Inr k \<longleftrightarrow> get_key_by_hash db h = Inr k \<and> k_username k \<noteq> name)
            \<and> n = count_keys db name \<and> count_keys db' name = 0)
       \<and> (\<forall>e. res = Inl e \<longrightarrow> db' = db
            \<and> (\<exists>k \<in> set (keys_of db). k_username k = name \<and> k_id k \<in> set (kd_refs db)))"
proof -
  have ok: "keys_ok db'"
    using exec_delete_keys_ok [OF assms(1)] assms(2) unfolding delete_all_keys_for_user_def by (metis fst_conv)
  show ?thesis
    using assms(2) get_key_by_hash_iff [OF assms(1)] get_key_by_hash_iff [OF ok]
    by (auto simp: delete_all_keys_for_user_def exec_delete_keys_def count_keys_def tbl_simps split: if_splits)
qed

abbreviation sample_key :: api_key where
  "sample_key \<equiv> \<lparr>k_id = 1, k_name = ''ci'', k_prefix = ''ald_'', k_hash = ''h1'', k_username = ''al@x.io'',
     k_role = ''admin'', k_expires_at = None, k_last_used = None, k_created_at = 3, k_mcp_writes = True,
     k_projects = []\<rparr>"

theorem bulk_revocation_witness:
  "get_key_by_hash (fst (delete_all_keys_for_user
       \<lparr>keys_of = [sample_key], next_key_id = 2, kd_refs = []\<rparr> ''al@x.io'')) ''h1'' \<noteq> Inr sample_key
   \<and> get_key_by_hash (fst (delete_all_keys_for_user
       \<lparr>keys_of = [sample_key], next_key_id = 2, kd_refs = [1]\<rparr> ''al@x.io'')) ''h1'' = Inr sample_key"
proof -
  let ?a = "\<lparr>keys_of = [sample_key], next_key_id = 2, kd_refs = []\<rparr>"
  let ?b = "\<lparr>keys_of = [sample_key], next_key_id = 2, kd_refs = [1]\<rparr>"
  have ok: "keys_ok ?a" "keys_ok ?b" by (simp_all add: keys_ok_def)
  have ea: "delete_all_keys_for_user ?a ''al@x.io'' = (fst (delete_all_keys_for_user ?a ''al@x.io''), Inr 1)"
    and eb: "delete_all_keys_for_user ?b ''al@x.io''
        = (fst (delete_all_keys_for_user ?b ''al@x.io''), Inl (ErrKeyDB ''proposer_api_key_id_fkey''))"
    by (simp_all add: delete_all_keys_for_user_def exec_delete_keys_def tbl_count_def)
  show ?thesis
    using bulk_revocation [OF ok(1) ea] bulk_revocation [OF ok(2) eb]
    by (simp add: get_key_by_hash_def tbl_simps)
qed

text \<open>The writes of a sequence of authenticated requests, each a key and a time.\<close>

fun used_writes :: "duration \<Rightarrow> (int \<times> time) list \<Rightarrow> (int \<rightharpoonup> time) \<Rightarrow> (int \<times> time) list" where
  "used_writes w [] lu = []"
| "used_writes w ((i, t) # evs) lu =
     (case should_write_last_used w i t lu of
        (True, lu') \<Rightarrow> (i, t) # used_writes w evs lu'
      | (False, lu') \<Rightarrow> used_writes w evs lu')"

lemma used_writes_Cons:
  "0 < w \<Longrightarrow> used_writes w ((i, t) # evs) lu =
     (if \<exists>s. lu i = Some s \<and> t - s < w then used_writes w evs lu
      else (i, t) # used_writes w evs (lu(i \<mapsto> t)))"
  by (auto simp: should_write_last_used_def split: option.splits)

declare used_writes.simps(2) [simp del]

lemma used_writes_after:
  "0 < w \<Longrightarrow> (j, u) \<in> set (used_writes w evs lu) \<Longrightarrow> lu j = Some t \<Longrightarrow> w \<le> u - t"
proof (induction evs arbitrary: lu t)
  case (Cons ev evs)
  obtain i s where ev: "ev = (i, s)" by (cases ev)
  show ?case
  proof (cases "\<exists>r. lu i = Some r \<and> s - r < w")
    case True
    with Cons ev show ?thesis by (simp add: used_writes_Cons)
  next
    case False
    with Cons.prems ev consider "i = j" "u = s" "w \<le> s - t" | "i = j" "w \<le> s - t"
        "(j, u) \<in> set (used_writes w evs (lu(j \<mapsto> s)))"
      | "i \<noteq> j" "(j, u) \<in> set (used_writes w evs (lu(i \<mapsto> s)))"
      by (auto simp: used_writes_Cons not_less)
    then show ?thesis
      using Cons.IH [OF Cons.prems(1), of "lu(i \<mapsto> s)" s] Cons.IH [OF Cons.prems(1), of "lu(i \<mapsto> s)" t]
        Cons.prems by cases (auto simp: fun_upd_def)
  qed
qed simp

lemma used_writes_cover:
  assumes "0 < w" and "(i, t) \<in> set evs"
  shows "(\<exists>u. (i, u) \<in> set (used_writes w evs lu) \<and> t - u < w) \<or> (\<exists>u. lu i = Some u \<and> t - u < w)"
  using assms
proof (induction evs arbitrary: lu)
  case (Cons ev evs)
  obtain j s where ev: "ev = (j, s)" by (cases ev)
  show ?case
  proof (cases "ev = (i, t)")
    case True
    with Cons.prems ev show ?thesis by (auto simp: used_writes_Cons)
  next
    case False
    with Cons.prems have "(i, t) \<in> set evs" by auto
    note IH = Cons.IH [OF Cons.prems(1) this]
    show ?thesis
    proof (cases "\<exists>r. lu j = Some r \<and> s - r < w")
      case True
      with IH [of lu] ev Cons.prems(1) show ?thesis by (simp add: used_writes_Cons)
    next
      case False
      with IH [of "lu(j \<mapsto> s)"] ev Cons.prems(1) show ?thesis
        by (cases "i = j") (auto simp: used_writes_Cons fun_upd_def)
    qed
  qed
qed simp

text \<open>C16: the writes of \<open>last_used\<close> are coalesced and stay close.  For any sequence of authenticated
  requests, two writes for the same key are at least a window apart, and each request is less than a
  window after some write for its key, so what the table shows lags by less than a window.\<close>

theorem last_used_coalesced:
  assumes "0 < w"
  shows "sorted_wrt (\<lambda>(i, t) (j, u). i = j \<longrightarrow> w \<le> u - t) (used_writes w evs lu)
    \<and> (\<forall>(i, t) \<in> set evs. lu i = None \<longrightarrow> (\<exists>u. (i, u) \<in> set (used_writes w evs lu) \<and> t - u < w))"
proof
  show "sorted_wrt (\<lambda>(i, t) (j, u). i = j \<longrightarrow> w \<le> u - t) (used_writes w evs lu)"
  proof (induction evs arbitrary: lu)
    case (Cons ev evs)
    obtain i s where ev: "ev = (i, s)" by (cases ev)
    have "w \<le> u - s" if "(i, u) \<in> set (used_writes w evs (lu(i \<mapsto> s)))" for u
      using used_writes_after [OF assms that] by simp
    with Cons ev assms show ?case by (auto simp: used_writes_Cons)
  qed simp
  show "\<forall>(i, t) \<in> set evs. lu i = None \<longrightarrow> (\<exists>u. (i, u) \<in> set (used_writes w evs lu) \<and> t - u < w)"
    using used_writes_cover [OF assms] by fastforce
qed

theorem last_used_coalesced_witness:
  "sorted_wrt (\<lambda>(i, t) (j, u). i = j \<longrightarrow> 60 \<le> u - t)
     (used_writes 60 [(1, 100), (1, 130), (2, 131), (1, 160)] (\<lambda>_. None))
   \<and> used_writes 60 [(1, 100), (1, 130), (2, 131), (1, 160)] (\<lambda>_. None) = [(1, 100), (2, 131), (1, 160)]"
  using last_used_coalesced [of 60 "[(1, 100), (1, 130), (2, 131), (1, 160)]" "\<lambda>_. None"]
  by (simp add: used_writes_Cons)

end
