(* ===== verification/Jwt.thy ===== *)
theory Jwt
  imports Codec
begin

text \<open>
  \<open>api/internal/security/jwt.go\<close> and its persistent blacklist \<open>api/internal/store/pg/blacklist.go\<close>.

  The JSON Web Token package is not part of the repository, so it is the parameter \<open>jwt_lib\<close>: signing
  claims with HS256 and parsing a token with a key function that sees the token's algorithm.  What the
  code relies on of its documented behaviour is the hypothesis \<open>jwt_lib_ok\<close>.  Claims are Go's
  \<open>MapClaims\<close>, a list of named values read through \<open>map_of\<close>; numeric dates are whole Unix seconds,
  and \<open>CIds\<close> is the in-process list of project ids an API key carries.
  Random bytes are arguments (\<open>None\<close> is a failing reader), and so is whether a database call fails.
\<close>

section \<open>Claims and the library\<close>

datatype cval = CStr string | CNum int | CIds "int list"

type_synonym claims = "(string \<times> cval) list"

definition claim_str :: "string \<Rightarrow> claims \<Rightarrow> string option" where
  "claim_str k c = (case map_of c k of Some (CStr s) \<Rightarrow> Some s | _ \<Rightarrow> None)"

definition unexpired :: "time \<Rightarrow> claims \<Rightarrow> bool" where
  "unexpired now c = (case map_of c ''exp'' of Some (CNum e) \<Rightarrow> now < of_unix e | _ \<Rightarrow> True)"

record jwt_lib =
  lib_sign :: "string \<Rightarrow> claims \<Rightarrow> string option"
  lib_parse :: "(string \<Rightarrow> string option) \<Rightarrow> time \<Rightarrow> string \<Rightarrow> claims option"
  lib_verifies :: "string \<Rightarrow> string \<Rightarrow> string \<Rightarrow> bool"
  lib_payload :: "string \<Rightarrow> claims option"

text \<open>Documented behaviour: a token signed with HS256 parses to its claims under the same key until it
  expires and not at all afterwards, and \<open>Parse\<close> succeeds only when the key function accepts the algorithm and the token has
  not expired.\<close>

definition jwt_lib_ok :: "jwt_lib \<Rightarrow> bool" where
  "jwt_lib_ok L \<longleftrightarrow>
     (\<forall>key c tok kf now. lib_sign L key c = Some tok \<and> kf ''HS256'' = Some key
        \<longrightarrow> (if unexpired now c then (\<exists>c'. lib_parse L kf now tok = Some c' \<and> map_of c' = map_of c)
             else lib_parse L kf now tok = None)) \<and>
     (\<forall>kf now tok c. lib_parse L kf now tok = Some c
        \<longrightarrow> unexpired now c \<and> (\<exists>alg. kf alg \<noteq> None))"

text \<open>\<open>Parse\<close> returns the claims of the payload, and only when the signature of the token verifies (\<open>lib_verifies\<close>, of an
  algorithm, a key and a token) under the key that the key function gives for the algorithm of its header.\<close>

definition jwt_lib_verified :: "jwt_lib \<Rightarrow> bool" where
  "jwt_lib_verified L \<longleftrightarrow> (\<forall>kf now tok c. lib_parse L kf now tok = Some c \<longrightarrow>
     lib_payload L tok = Some c \<and> (\<exists>alg key. kf alg = Some key \<and> lib_verifies L alg key tok))"

section \<open>The blacklist\<close>

record bl_row =
  bl_jti :: string
  bl_expires :: time

definition bl_add :: "string \<Rightarrow> time \<Rightarrow> bl_row list \<Rightarrow> bl_row list" where
  "bl_add jti e t =
     (if tbl_count (\<lambda>r. bl_jti r = jti) t \<noteq> 0
      then tbl_update (\<lambda>r. bl_jti r = jti) (\<lambda>r. r\<lparr>bl_expires := e\<rparr>) t
      else t @ [\<lparr>bl_jti = jti, bl_expires = e\<rparr>])"

definition bl_lookup :: "string \<Rightarrow> time \<Rightarrow> bl_row list \<Rightarrow> bool" where
  "bl_lookup jti now t =
     (case tbl_find (\<lambda>r. bl_jti r = jti) t of None \<Rightarrow> False | Some r \<Rightarrow> now < bl_expires r)"

definition bl_prune :: "time \<Rightarrow> bl_row list \<Rightarrow> bl_row list \<times> nat" where
  "bl_prune now t = (let p = (\<lambda>r. bl_expires r \<le> now) in (tbl_delete p t, tbl_count p t))"

section \<open>The manager\<close>

record jwt_config =
  jwt_secret :: string
  access_expiry :: duration
  refresh_expiry :: duration

datatype jwt_error = ErrJTI | ErrSign | ErrParse | ErrInvalidTokenType | ErrTokenRevoked

text \<open>\<open>AddToBlacklist\<close> and \<open>IsBlacklisted\<close> of the manager swallow a database error: the first loses
  the entry, the second answers that the token is not revoked.\<close>

definition add_to_blacklist :: "bool \<Rightarrow> string \<Rightarrow> time \<Rightarrow> bl_row list \<Rightarrow> bl_row list" where
  "add_to_blacklist fault jti e t = (if fault then t else bl_add jti e t)"

definition is_blacklisted :: "bool \<Rightarrow> string \<Rightarrow> time \<Rightarrow> bl_row list \<Rightarrow> bool" where
  "is_blacklisted fault jti now t = (if fault then False else bl_lookup jti now t)"

record token_pair =
  tp_access :: string
  tp_refresh :: string
  tp_access_jti :: string
  tp_refresh_jti :: string

definition access_claims ::
    "jwt_config \<Rightarrow> string \<Rightarrow> string \<Rightarrow> string \<Rightarrow> string \<Rightarrow> time \<Rightarrow> claims" where
  "access_claims cfg user role prov jti now =
     [(''sub'', CStr user), (''role'', CStr role), (''provider'', CStr prov), (''type'', CStr ''access''),
      (''jti'', CStr jti), (''exp'', CNum (to_unix (now + access_expiry cfg))), (''iat'', CNum (to_unix now))]"

definition refresh_claims ::
    "jwt_config \<Rightarrow> string \<Rightarrow> string \<Rightarrow> string \<Rightarrow> time \<Rightarrow> claims" where
  "refresh_claims cfg user fam jti now =
     [(''sub'', CStr user), (''type'', CStr ''refresh''), (''jti'', CStr jti),
      (''exp'', CNum (to_unix (now + refresh_expiry cfg))), (''iat'', CNum (to_unix now))]
     @ (if fam \<noteq> [] then [(''fam'', CStr fam)] else [])"

definition generate_tokens_for_family ::
    "jwt_lib \<Rightarrow> jwt_config \<Rightarrow> string option \<Rightarrow> string option \<Rightarrow> time \<Rightarrow>
     string \<Rightarrow> string \<Rightarrow> string \<Rightarrow> string \<Rightarrow> jwt_error + token_pair" where
  "generate_tokens_for_family L cfg rnd1 rnd2 now user role provider fam =
     (let prov = (if provider = [] then ''local'' else provider) in
      case random_hex rnd1 of None \<Rightarrow> Inl ErrJTI
      | Some ajti \<Rightarrow>
        (case random_hex rnd2 of None \<Rightarrow> Inl ErrJTI
         | Some rjti \<Rightarrow>
           (case lib_sign L (jwt_secret cfg) (access_claims cfg user role prov ajti now) of
              None \<Rightarrow> Inl ErrSign
            | Some atok \<Rightarrow>
              (case lib_sign L (jwt_secret cfg) (refresh_claims cfg user fam rjti now) of
                 None \<Rightarrow> Inl ErrSign
               | Some rtok \<Rightarrow> Inr \<lparr>tp_access = atok, tp_refresh = rtok,
                                 tp_access_jti = ajti, tp_refresh_jti = rjti\<rparr>))))"

text \<open>\<open>GenerateTokens\<close>: the variadic provider is a list, of which the first entry counts.\<close>

definition generate_tokens ::
    "jwt_lib \<Rightarrow> jwt_config \<Rightarrow> string option \<Rightarrow> string option \<Rightarrow> time \<Rightarrow>
     string \<Rightarrow> string \<Rightarrow> string list \<Rightarrow> jwt_error + (string \<times> string)" where
  "generate_tokens L cfg rnd1 rnd2 now user role provider =
     (let prov = (if provider \<noteq> [] \<and> hd provider \<noteq> [] then hd provider else ''local'') in
      case generate_tokens_for_family L cfg rnd1 rnd2 now user role prov [] of
        Inl e \<Rightarrow> Inl e | Inr tp \<Rightarrow> Inr (tp_access tp, tp_refresh tp))"

definition new_family_id :: "string option \<Rightarrow> string option" where
  "new_family_id rnd = random_hex rnd"

definition key_func :: "jwt_config \<Rightarrow> string \<Rightarrow> string option" where
  "key_func cfg alg = (if alg \<in> {''HS256'', ''HS384'', ''HS512''} then Some (jwt_secret cfg) else None)"

definition validate_token ::
    "jwt_lib \<Rightarrow> jwt_config \<Rightarrow> bool \<Rightarrow> bl_row list \<Rightarrow> time \<Rightarrow> string \<Rightarrow> string \<Rightarrow> jwt_error + claims" where
  "validate_token L cfg fault bl now tok expected =
     (case lib_parse L (key_func cfg) now tok of
        None \<Rightarrow> Inl ErrParse
      | Some c \<Rightarrow>
        (if claim_str ''type'' c \<noteq> Some expected then Inl ErrInvalidTokenType
         else (case claim_str ''jti'' c of
                 Some jti \<Rightarrow> (if is_blacklisted fault jti now bl then Inl ErrTokenRevoked else Inr c)
               | None \<Rightarrow> Inr c)))"

text \<open>The operations that change the blacklist: revocation and the periodic pruning of
  \<open>StartCleanup\<close>, each with the fault of its database call.\<close>

datatype bl_op = BlAdd bool string time | BlPrune bool time

fun bl_step :: "bl_op \<Rightarrow> bl_row list \<Rightarrow> bl_row list" where
  "bl_step (BlAdd fault jti e) t = add_to_blacklist fault jti e t"
| "bl_step (BlPrune fault now) t = (if fault then t else fst (bl_prune now t))"

section \<open>Validation\<close>

lemma validate_token_Inr:
  assumes "validate_token L cfg fault bl now tok ty = Inr c"
  shows "lib_parse L (key_func cfg) now tok = Some c" and "claim_str ''type'' c = Some ty"
    and "claim_str ''jti'' c = Some jti \<Longrightarrow> \<not> is_blacklisted fault jti now bl"
  using assms by (auto simp: validate_token_def split: option.splits if_splits)

lemma claim_str_cong: "map_of c' = map_of c \<Longrightarrow> claim_str k c' = claim_str k c"
  by (simp add: claim_str_def)

lemma key_func_HS256 [simp]: "key_func cfg ''HS256'' = Some (jwt_secret cfg)"
  by (simp add: key_func_def)

text \<open>What validation makes of a token this manager signed.\<close>

lemma validate_signed:
  assumes ok: "jwt_lib_ok L" and sg: "lib_sign L (jwt_secret cfg) c = Some tok"
    and un: "unexpired now c"
  obtains c' where "map_of c' = map_of c"
    and "validate_token L cfg fault bl now tok ty =
      (if claim_str ''type'' c \<noteq> Some ty then Inl ErrInvalidTokenType
       else (case claim_str ''jti'' c of
               Some jti \<Rightarrow> (if is_blacklisted fault jti now bl then Inl ErrTokenRevoked else Inr c')
             | None \<Rightarrow> Inr c'))"
proof -
  obtain c' where c': "lib_parse L (key_func cfg) now tok = Some c'" and m: "map_of c' = map_of c"
    using ok [unfolded jwt_lib_ok_def, THEN conjunct1, rule_format,
        of "jwt_secret cfg" c tok "key_func cfg" now] sg un by auto
  have "claim_str k c' = claim_str k c" for k by (rule claim_str_cong [OF m])
  with c' show ?thesis
    by (intro that [OF m]) (simp add: validate_token_def)
qed

lemma validate_unexpired:
  assumes ok: "jwt_lib_ok L" and "validate_token L cfg fault bl now tok ty = Inr c"
  shows "unexpired now c"
  using validate_token_Inr(1) [OF assms(2)] ok unfolding jwt_lib_ok_def by blast

lemma validate_signed_expired:
  assumes ok: "jwt_lib_ok L" and sg: "lib_sign L (jwt_secret cfg) c = Some tok"
    and un: "\<not> unexpired now c"
  shows "validate_token L cfg fault bl now tok ty = Inl ErrParse"
  using ok [unfolded jwt_lib_ok_def, THEN conjunct1, rule_format,
      of "jwt_secret cfg" c tok "key_func cfg" now] sg un
  by (simp add: validate_token_def)

lemma validate_verified:
  assumes "jwt_lib_verified L" and "validate_token L cfg fault bl now tok ty = Inr c"
  shows "lib_payload L tok = Some c \<and> (\<exists>alg \<in> {''HS256'', ''HS384'', ''HS512''}. lib_verifies L alg (jwt_secret cfg) tok)"
  using assms(1) [unfolded jwt_lib_verified_def] validate_token_Inr(1) [OF assms(2)]
  by (fastforce simp: key_func_def split: if_splits)

text \<open>A signed token validates exactly when it is unexpired, of the expected type and not revoked.\<close>

lemma validate_signed_iff:
  assumes ok: "jwt_lib_ok L" and sg: "lib_sign L (jwt_secret cfg) c = Some tok"
    and jti: "claim_str ''jti'' c = Some j"
  shows "(\<exists>c'. validate_token L cfg fault bl now tok ty = Inr c' \<and> map_of c' = map_of c)
      \<longleftrightarrow> unexpired now c \<and> claim_str ''type'' c = Some ty \<and> \<not> is_blacklisted fault j now bl" (is ?iff)
    and "validate_token L cfg fault bl now tok ty = Inr c' \<Longrightarrow> map_of c' = map_of c"
proof -
  have "?iff \<and> (validate_token L cfg fault bl now tok ty = Inr c' \<longrightarrow> map_of c' = map_of c)"
  proof (cases "unexpired now c")
    case True
    obtain d where "map_of d = map_of c" and "validate_token L cfg fault bl now tok ty =
      (if claim_str ''type'' c \<noteq> Some ty then Inl ErrInvalidTokenType
       else (case claim_str ''jti'' c of
               Some jti \<Rightarrow> (if is_blacklisted fault jti now bl then Inl ErrTokenRevoked else Inr d)
             | None \<Rightarrow> Inr d))"
      by (rule validate_signed [OF ok sg True])
    with True jti show ?thesis by auto
  next
    case False
    then show ?thesis by (simp add: validate_signed_expired [OF ok sg])
  qed
  then show ?iff and "validate_token L cfg fault bl now tok ty = Inr c' \<Longrightarrow> map_of c' = map_of c"
    by blast+
qed

lemma access_claim_values [simp]:
  "claim_str ''sub'' (access_claims cfg u r p j now) = Some u"
  "claim_str ''role'' (access_claims cfg u r p j now) = Some r"
  "claim_str ''provider'' (access_claims cfg u r p j now) = Some p"
  "claim_str ''type'' (access_claims cfg u r p j now) = Some ''access''"
  "claim_str ''jti'' (access_claims cfg u r p j now) = Some j"
  "unexpired t (access_claims cfg u r p j now) \<longleftrightarrow> t < of_unix (to_unix (now + access_expiry cfg))"
  by (simp_all add: claim_str_def access_claims_def unexpired_def)

lemma refresh_claim_values [simp]:
  "claim_str ''sub'' (refresh_claims cfg u f j now) = Some u"
  "claim_str ''type'' (refresh_claims cfg u f j now) = Some ''refresh''"
  "claim_str ''jti'' (refresh_claims cfg u f j now) = Some j"
  "claim_str ''fam'' (refresh_claims cfg u f j now) = (if f = [] then None else Some f)"
  "unexpired t (refresh_claims cfg u f j now) \<longleftrightarrow> t < of_unix (to_unix (now + refresh_expiry cfg))"
  by (simp_all add: claim_str_def refresh_claims_def unexpired_def)

lemma validate_signed_exists:
  assumes "jwt_lib_ok L" and "lib_sign L (jwt_secret cfg) c = Some tok"
    and "claim_str ''jti'' c = Some j"
    and "\<And>c'. (\<And>k. claim_str k c' = claim_str k c) \<Longrightarrow> P c'"
  shows "(\<exists>c'. validate_token L cfg fault bl now tok ty = Inr c' \<and> P c')
      \<longleftrightarrow> unexpired now c \<and> claim_str ''type'' c = Some ty \<and> \<not> is_blacklisted fault j now bl"
  unfolding validate_signed_iff(1) [OF assms(1-3), of fault bl now ty, symmetric]
  using validate_signed_iff(2) [OF assms(1-3), of fault bl now ty] assms(4) claim_str_cong by blast

text \<open>Opening the generator: the two signatures behind a pair.\<close>

lemma generate_Inr:
  assumes "generate_tokens_for_family L cfg rnd1 rnd2 now user role prov fam = Inr tp"
  obtains b1 b2 where "rnd1 = Some b1" "rnd2 = Some b2"
    and "tp_access_jti tp = hex_encode b1" "tp_refresh_jti tp = hex_encode b2"
    and "lib_sign L (jwt_secret cfg) (access_claims cfg user role (if prov = [] then ''local'' else prov)
           (hex_encode b1) now) = Some (tp_access tp)"
    and "lib_sign L (jwt_secret cfg) (refresh_claims cfg user fam (hex_encode b2) now) = Some (tp_refresh tp)"
  using assms
  by (cases rnd1; cases rnd2)
    (auto simp: generate_tokens_for_family_def random_hex_def Let_def split: option.splits)

section \<open>Revocation\<close>

lemma bl_lookup_add:
  "bl_lookup j now (bl_add jti e t) = (if j = jti then now < e else bl_lookup j now t)"
proof (cases "tbl_count (\<lambda>r. bl_jti r = jti) t = 0")
  case True
  then show ?thesis
    by (auto simp: bl_lookup_def bl_add_def tbl_find_append tbl_find_Cons tbl_find_Nil tbl_count_0
        split: option.splits dest: tbl_find_Some)
next
  case False
  then obtain r where r: "tbl_find (\<lambda>r. bl_jti r = jti) t = Some r"
    by (metis option.exhaust tbl_count_0 tbl_find_None)
  show ?thesis
  proof (cases "j = jti")
    case True
    with False r show ?thesis
      by (simp add: bl_lookup_def bl_add_def tbl_find_update_same [where key = bl_jti])
  next
    case other: False
    with False show ?thesis
      by (simp add: bl_lookup_def bl_add_def tbl_find_update_other [where key = bl_jti])
  qed
qed

lemma bl_distinct_add: "distinct (map bl_jti t) \<Longrightarrow> distinct (map bl_jti (bl_add jti e t))"
  by (auto simp: bl_add_def map_key_update tbl_count_0)

text \<open>Pruning at \<open>now\<close> removes only entries that no longer matter from \<open>now\<close> on.\<close>

lemma bl_lookup_prune:
  assumes "distinct (map bl_jti t)" and "p \<le> now"
  shows "bl_lookup j now (fst (bl_prune p t)) = bl_lookup j now t"
  using assms
proof (induction t)
  case Nil
  then show ?case by (simp add: bl_prune_def tbl_delete_def)
next
  case (Cons r t)
  have none: "tbl_find (\<lambda>x. bl_jti x = j) t = None" if "bl_jti r = j"
    using Cons.prems that by (fastforce simp: tbl_find_None intro: rev_image_eqI)
  have gone: "tbl_find (\<lambda>x. bl_jti x = j) (filter (\<lambda>x. \<not> bl_expires x \<le> p) t) = None"
    if "bl_jti r = j"
    using none [OF that] by (auto simp: tbl_find_None)
  from Cons show ?case
    by (cases "bl_jti r = j")
      (auto simp: bl_prune_def tbl_delete_def Let_def bl_lookup_def tbl_find_Cons none gone)
qed

definition bl_ok :: "string \<Rightarrow> time \<Rightarrow> bl_row list \<Rightarrow> bool" where
  "bl_ok jti e t \<longleftrightarrow> distinct (map bl_jti t) \<and> (\<forall>u < e. bl_lookup jti u t)"

text \<open>The operations that cannot bring a revoked identifier back: a new entry for it must not expire
  earlier, and pruning runs on a clock (an entry is pruned only once it has expired).\<close>

definition keeps_revoked :: "string \<Rightarrow> time \<Rightarrow> bl_op \<Rightarrow> bool" where
  "keeps_revoked jti e a = (case a of BlAdd fault j e' \<Rightarrow> j = jti \<longrightarrow> e \<le> e' | BlPrune fault now \<Rightarrow> now < e)"

lemma bl_lookup_prune_kept:
  assumes "distinct (map bl_jti t)" and "p < e" and "\<forall>u < e. bl_lookup j u t"
  shows "\<forall>u < e. bl_lookup j u (fst (bl_prune p t))"
proof (intro allI impI)
  fix u assume u: "u < e"
  have "bl_lookup j (max u p) (fst (bl_prune p t))"
    using assms u by (simp add: bl_lookup_prune)
  then show "bl_lookup j u (fst (bl_prune p t))"
    by (auto simp: bl_lookup_def split: option.splits)
qed

lemma bl_step_ok: "keeps_revoked jti e a \<Longrightarrow> bl_ok jti e t \<Longrightarrow> bl_ok jti e (bl_step a t)"
  by (cases a)
    (auto simp: bl_ok_def keeps_revoked_def add_to_blacklist_def bl_distinct_add bl_lookup_add
      bl_lookup_prune_kept, auto simp: bl_prune_def Let_def intro: distinct_map_tbl_delete)

interpretation revoked: guarded_machine bl_step "bl_ok jti e" "keeps_revoked jti e" for jti e
  by unfold_locales (rule bl_step_ok)

section \<open>Properties\<close>

text \<open>C34: the tokens of a pair are good for exactly their own purpose.  The access token validates
  as an access token, with the subject, role and provider it was issued for, until its expiry in whole
  seconds and unless its identifier is revoked; the refresh token as a refresh token, with its family;
  neither validates as the other.\<close>

theorem issued_tokens_validate:
  assumes "jwt_lib_ok L"
    and "generate_tokens_for_family L cfg rnd1 rnd2 now user role provider fam = Inr tp"
  shows "((\<exists>c. validate_token L cfg fault bl t (tp_access tp) ''access'' = Inr c \<and>
             claim_str ''sub'' c = Some user \<and> claim_str ''role'' c = Some role \<and>
             claim_str ''provider'' c = Some (if provider = [] then ''local'' else provider))
          \<longleftrightarrow> t < of_unix (to_unix (now + access_expiry cfg)) \<and>
              \<not> is_blacklisted fault (tp_access_jti tp) t bl)
       \<and> ((\<exists>c. validate_token L cfg fault bl t (tp_refresh tp) ''refresh'' = Inr c \<and>
             claim_str ''sub'' c = Some user \<and> claim_str ''role'' c = None \<and>
             claim_str ''fam'' c = (if fam = [] then None else Some fam))
          \<longleftrightarrow> t < of_unix (to_unix (now + refresh_expiry cfg)) \<and>
              \<not> is_blacklisted fault (tp_refresh_jti tp) t bl)
       \<and> (\<forall>c. validate_token L cfg fault bl t (tp_access tp) ''refresh'' \<noteq> Inr c)
       \<and> (\<forall>c. validate_token L cfg fault bl t (tp_refresh tp) ''access'' \<noteq> Inr c)"
proof -
  obtain b1 b2 where j: "tp_access_jti tp = hex_encode b1" "tp_refresh_jti tp = hex_encode b2"
    and a: "lib_sign L (jwt_secret cfg) (access_claims cfg user role
        (if provider = [] then ''local'' else provider) (hex_encode b1) now) = Some (tp_access tp)"
    and r: "lib_sign L (jwt_secret cfg) (refresh_claims cfg user fam (hex_encode b2) now)
        = Some (tp_refresh tp)"
    using generate_Inr [OF assms(2)] by metis
  have acc: "(\<exists>c. validate_token L cfg fault bl t (tp_access tp) ty = Inr c \<and> P c) \<longleftrightarrow>
      t < of_unix (to_unix (now + access_expiry cfg)) \<and> ''access'' = ty \<and>
      \<not> is_blacklisted fault (hex_encode b1) t bl"
    if "\<And>c. (\<And>k. claim_str k c = claim_str k (access_claims cfg user role
        (if provider = [] then ''local'' else provider) (hex_encode b1) now)) \<Longrightarrow> P c" for ty P
    using validate_signed_exists [OF assms(1) a access_claim_values(5) that] by simp
  have ref: "(\<exists>c. validate_token L cfg fault bl t (tp_refresh tp) ty = Inr c \<and> P c) \<longleftrightarrow>
      t < of_unix (to_unix (now + refresh_expiry cfg)) \<and> ''refresh'' = ty \<and>
      \<not> is_blacklisted fault (hex_encode b2) t bl"
    if "\<And>c. (\<And>k. claim_str k c = claim_str k (refresh_claims cfg user fam (hex_encode b2) now)) \<Longrightarrow> P c"
    for ty P
    using validate_signed_exists [OF assms(1) r refresh_claim_values(3) that] by simp
  have role: "claim_str ''role'' (refresh_claims cfg user fam (hex_encode b2) now) = None"
    by (simp add: claim_str_def refresh_claims_def)
  show ?thesis unfolding j
  proof (intro conjI)
    show "\<forall>c. validate_token L cfg fault bl t (tp_access tp) ''refresh'' \<noteq> Inr c"
      using acc [of "\<lambda>_. True" "''refresh''"] by simp
    show "\<forall>c. validate_token L cfg fault bl t (tp_refresh tp) ''access'' \<noteq> Inr c"
      using ref [of "\<lambda>_. True" "''access''"] by simp
  qed (subst acc ref; simp add: role)+
qed

text \<open>revocation lasts.  Once an identifier is entered in the blacklist with an expiry, no token
  carrying it validates before that expiry, whatever is revoked or pruned in between, if a later entry
  for the same identifier does not shorten the expiry, pruning runs before it and the lookup does not fail.\<close>

theorem revoked_token_rejected:
  assumes "distinct (map bl_jti bl)" and "list_all (keeps_revoked jti e) ops"
    and "validate_token L cfg False (fold bl_step ops (add_to_blacklist False jti e bl)) t tok ty = Inr c"
    and "claim_str ''jti'' c = Some jti"
  shows "e \<le> t"
proof -
  have "bl_ok jti e (add_to_blacklist False jti e bl)"
    using assms(1) by (simp add: bl_ok_def add_to_blacklist_def bl_distinct_add bl_lookup_add)
  then have "\<forall>u < e. bl_lookup jti u (fold bl_step ops (add_to_blacklist False jti e bl))"
    using revoked.guarded_run [OF assms(2)] by (simp add: bl_ok_def)
  with validate_token_Inr(3) [OF assms(3,4)] show ?thesis
    by (force simp: is_blacklisted_def)
qed

section \<open>An instance of the token library\<close>

text \<open>A concrete signer and parser that meets \<open>jwt_lib_ok\<close>, for the witnesses: a token is the key and
  the claims, written with length-prefixed strings.\<close>

definition put_str :: "string \<Rightarrow> string" where
  "put_str s = replicate (length s) CHR ''1'' @ CHR ''0'' # s"

definition get_str :: "string \<Rightarrow> string \<times> string" where
  "get_str t = (let n = length (takeWhile (\<lambda>c. c = CHR ''1'') t); r = drop (Suc n) t
                in (take n r, drop n r))"

lemma get_put_str [simp]: "get_str (put_str s @ r) = (s, r)"
proof -
  have "takeWhile (\<lambda>c. c = CHR ''1'') (put_str s @ r) = replicate (length s) CHR ''1''"
    by (simp add: put_str_def takeWhile_append)
  then show ?thesis by (simp add: get_str_def put_str_def)
qed

fun put_claims :: "claims \<Rightarrow> string" where
  "put_claims [] = []"
| "put_claims ((k, CStr s) # c) = CHR ''s'' # put_str k @ put_str s @ put_claims c"
| "put_claims ((k, CNum n) # c) = CHR ''n'' # put_str k @ put_str (itoa n) @ put_claims c"
| "put_claims ((k, CIds ns) # c) = CHR ''i'' # put_str k @ put_claims c"

fun get_claims :: "nat \<Rightarrow> string \<Rightarrow> claims" where
  "get_claims 0 t = []"
| "get_claims (Suc m) [] = []"
| "get_claims (Suc m) (b # t) =
     (let (k, r) = get_str t; (v, u) = get_str r in
      (k, if b = CHR ''s'' then CStr v else CNum (the (parse_int v))) # get_claims m u)"

definition nums_ok :: "claims \<Rightarrow> bool" where
  "nums_ok c = list_all (\<lambda>(k, v). case v of CNum n \<Rightarrow> in_int64 n | CIds _ \<Rightarrow> False | _ \<Rightarrow> True) c"

lemma get_put_claims: "nums_ok c \<Longrightarrow> length c \<le> m \<Longrightarrow> get_claims m (put_claims c) = c"
proof (induction c arbitrary: m rule: put_claims.induct)
  case 1
  then show ?case by (cases m) auto
next
  case (2 k s c)
  then show ?case by (cases m) (auto simp: nums_ok_def)
next
  case (3 k n c)
  then show ?case by (cases m) (auto simp: nums_ok_def parse_int_itoa)
qed (auto simp: nums_ok_def)

lemma length_put_claims: "length c \<le> length (put_claims c)"
  by (induction c rule: put_claims.induct) auto

definition demo_lib :: jwt_lib where
  "demo_lib = \<lparr>
     lib_sign = (\<lambda>key c. if nums_ok c then Some (put_str key @ put_claims c) else None),
     lib_parse = (\<lambda>kf now t.
       (let (key, r) = get_str t; c = get_claims (length r) r in
        if kf ''HS256'' = Some key \<and> unexpired now c then Some c else None)),
     lib_verifies = (\<lambda>alg key t. alg = ''HS256'' \<and> fst (get_str t) = key),
     lib_payload = (\<lambda>t. let r = snd (get_str t) in Some (get_claims (length r) r))\<rparr>"

lemma demo_lib_ok: "jwt_lib_ok demo_lib"
  unfolding jwt_lib_ok_def
  by (auto simp: demo_lib_def get_put_claims [OF _ length_put_claims] Let_def split: if_splits prod.splits)

lemma demo_lib_verified: "jwt_lib_verified demo_lib"
  unfolding jwt_lib_verified_def
proof (intro allI impI)
  fix kf now tok c assume "lib_parse demo_lib kf now tok = Some c"
  then have "kf ''HS256'' = Some (fst (get_str tok))" "lib_payload demo_lib tok = Some c"
    by (auto simp: demo_lib_def Let_def split: prod.splits if_splits)
  then show "lib_payload demo_lib tok = Some c \<and> (\<exists>alg key. kf alg = Some key \<and> lib_verifies demo_lib alg key tok)"
    by (intro conjI exI [of _ "''HS256''"] exI [of _ "fst (get_str tok)"]) (simp_all add: demo_lib_def)
qed

definition demo_cfg :: jwt_config where
  "demo_cfg = \<lparr>jwt_secret = ''key'', access_expiry = 15 * minute, refresh_expiry = 1440 * minute\<rparr>"

lemma demo_lib_signs: "nums_ok c \<Longrightarrow> lib_sign demo_lib key c = Some (put_str key @ put_claims c)"
  by (simp add: demo_lib_def)

lemma demo_validate:
  assumes "nums_ok c" "unexpired now c" "claim_str ''type'' c = Some ty" "claim_str ''jti'' c = Some j"
    and "\<not> is_blacklisted False j now bl"
  shows "validate_token demo_lib demo_cfg False bl now (put_str (jwt_secret demo_cfg) @ put_claims c) ty = Inr c"
  using assms get_put_claims [OF assms(1) length_put_claims]
  by (simp add: validate_token_def demo_lib_def)

lemma put_str_ne [simp]: "put_str k \<noteq> []"
  by (simp add: put_str_def)

lemma demo_generate:
  "\<exists>tp. generate_tokens_for_family demo_lib demo_cfg (Some ''a'') (Some ''b'') (of_unix 1000) ''7'' ''viewer''
     ''local'' ''f1'' = Inr tp \<and> tp_access_jti tp = ''61'' \<and> tp_refresh_jti tp = ''62''"
proof -
  have h: "hex_encode ''a'' = ''61''" "hex_encode ''b'' = ''62''" by code_simp+
  have n: "nums_ok (access_claims demo_cfg u r p j (of_unix 1000))"
    "nums_ok (refresh_claims demo_cfg u f j (of_unix 1000))" for u r p j f
    by (simp_all add: demo_cfg_def nums_ok_def access_claims_def refresh_claims_def in_int64_def to_unix_def of_unix_def)
  show ?thesis
    by (simp add: generate_tokens_for_family_def random_hex_def h demo_lib_signs n)
qed

theorem issued_tokens_validate_witness:
  "\<exists>tp. generate_tokens_for_family demo_lib demo_cfg (Some ''a'') (Some ''b'') (of_unix 1000) ''7'' ''viewer''
     ''local'' ''f1'' = Inr tp \<and>
   (\<exists>c. validate_token demo_lib demo_cfg False [] (of_unix 1001) (tp_access tp) ''access'' = Inr c
        \<and> claim_str ''sub'' c = Some ''7'' \<and> claim_str ''role'' c = Some ''viewer'')
   \<and> (\<forall>c. validate_token demo_lib demo_cfg False [] (of_unix 1900) (tp_access tp) ''access'' = Inr c
        \<longrightarrow> claim_str ''sub'' c \<noteq> Some ''7'' \<or> claim_str ''role'' c \<noteq> Some ''viewer''
          \<or> claim_str ''provider'' c \<noteq> Some ''local'')"
proof -
  obtain tp where tp: "generate_tokens_for_family demo_lib demo_cfg (Some ''a'') (Some ''b'') (of_unix 1000)
      ''7'' ''viewer'' ''local'' ''f1'' = Inr tp"
    using demo_generate by blast
  have e: "to_unix (of_unix 1000 + access_expiry demo_cfg) = 1900"
    by (simp add: demo_cfg_def to_unix_def of_unix_def)
  have f: "\<not> is_blacklisted False j t []" for j t
    by (simp add: is_blacklisted_def bl_lookup_def tbl_find_Nil)
  note P = issued_tokens_validate [OF demo_lib_ok tp, of False "[]", simplified e f, THEN conjunct1]
  have "of_unix 1001 < of_unix 1900" "\<not> of_unix 1900 < of_unix 1900" by simp_all
  with P [of "of_unix 1001"] P [of "of_unix 1900"] tp show ?thesis
    by (intro exI [of _ tp]) (simp, blast)
qed

theorem revoked_token_rejected_witness:
  "\<exists>tok c. validate_token demo_lib demo_cfg False
       (fold bl_step [BlAdd False ''99'' 5, BlPrune False 3000] (add_to_blacklist False ''61'' 4000 []))
       (of_unix 1001) tok ''access'' = Inr c
     \<and> claim_str ''jti'' c = Some ''61'' \<and> 4000 \<le> of_unix 1001"
proof -
  let ?bl = "fold bl_step [BlAdd False ''99'' 5, BlPrune False 3000] (add_to_blacklist False ''61'' 4000 [])"
  let ?c = "access_claims demo_cfg ''7'' ''viewer'' ''local'' ''61'' (of_unix 1000)"
  have n: "nums_ok ?c"
    by (simp add: demo_cfg_def nums_ok_def access_claims_def in_int64_def to_unix_def of_unix_def)
  have e: "to_unix (of_unix 1000 + access_expiry demo_cfg) = 1900"
    by (simp add: demo_cfg_def to_unix_def of_unix_def)
  have bl: "\<not> is_blacklisted False ''61'' (of_unix 1001) ?bl"
    by (simp add: is_blacklisted_def add_to_blacklist_def bl_add_def bl_prune_def bl_lookup_def tbl_delete_def
        tbl_count_def tbl_find_Cons tbl_find_Nil of_unix_def)
  obtain c tok where c: "validate_token demo_lib demo_cfg False ?bl (of_unix 1001) tok ''access'' = Inr c"
      "claim_str ''jti'' c = Some ''61''"
    using validate_signed_exists [OF demo_lib_ok demo_lib_signs [OF n, of "jwt_secret demo_cfg"],
        where j = "''61''" and P = "\<lambda>c. claim_str ''jti'' c = Some ''61''" and fault = False and bl = ?bl
        and now = "of_unix 1001" and ty = "''access''"] bl
    by (force simp: e)
  moreover have "4000 \<le> of_unix 1001"
    by (rule revoked_token_rejected [OF _ _ c]) (simp_all add: keeps_revoked_def)
  ultimately show ?thesis by blast
qed

end
