(* ===== verification/AuthMw.thy ===== *)
theory AuthMw
  imports ActiveCache ApiKeys Jwt
begin

text \<open>
  \<open>api/internal/middleware/auth.go\<close> and \<open>csrf.go\<close>: the gates every API request passes.  A gate either
  rejects with a status and a message or calls the next handler, with the claims it puts in the request's
  context.  The environment of one request holds the configuration, the collaborators and the state of the
  database as this request's reads see it; the account cache is state the gate updates.  The asynchronous
  \<open>UpdateLastUsed\<close> is the returned key id.
\<close>

section \<open>Requests and gates\<close>

record request =
  rq_method :: string
  rq_path :: string
  rq_cookies :: "string \<rightharpoonup> string"
  rq_header :: "string \<Rightarrow> string"

datatype gate = Reject nat string | Pass "claims option"

record mw_env =
  me_security :: bool
  me_lib :: jwt_lib
  me_jwt :: jwt_config
  me_sha256 :: "string \<Rightarrow> string"
  me_it :: iteration
  me_keys :: "key_db option"
  me_users :: user_db
  me_blacklist :: "bl_row list"
  me_recheck :: bool
  me_key_fault :: bool
  me_user_fault :: bool
  me_bl_fault :: bool
  me_visit :: visit

abbreviation unavailable :: string where
  "unavailable \<equiv> ''Unable to verify account status''"

definition extract_token :: "request \<Rightarrow> string \<Rightarrow> string" where
  "extract_token r name =
     (case rq_cookies r name of
        Some v \<Rightarrow> if v \<noteq> [] then v
                  else (case cut_prefix ''Bearer '' (rq_header r ''Authorization'') of Some t \<Rightarrow> t | None \<Rightarrow> [])
      | None \<Rightarrow> (case cut_prefix ''Bearer '' (rq_header r ''Authorization'') of Some t \<Rightarrow> t | None \<Rightarrow> []))"

definition api_key_claims :: "api_key \<Rightarrow> claims" where
  "api_key_claims k = [(''sub'', CStr (k_username k)), (''role'', CStr (k_role k)),
     (''auth_type'', CStr ''api_key''), (''project_ids'', CIds (k_projects k))]"

text \<open>The API-key path.\<close>

definition api_key_gate ::
    "mw_env \<Rightarrow> key_db \<Rightarrow> string \<Rightarrow> active_cache \<Rightarrow> active_cache \<times> int option \<times> gate" where
  "api_key_gate E db tok c =
     (if me_key_fault E then (c, None, Reject 503 unavailable)
      else case get_key_by_hash db (hash_api_key (me_sha256 E) tok) of
        Inl ErrAPIKeyNotFound \<Rightarrow> (c, None, Reject 401 ''Invalid API key'')
      | Inl _ \<Rightarrow> (c, None, Reject 503 unavailable)
      | Inr k \<Rightarrow>
        (if (case k_expires_at k of Some e \<Rightarrow> e < v_start (me_visit E) | None \<Rightarrow> False)
         then (c, None, Reject 401 ''API key has expired'')
         else if me_recheck E then
           (case is_active_by_api_key_username (me_it E) (me_user_fault E) (me_users E)
                   (k_username k) (me_visit E) c of
              (c', None) \<Rightarrow> (c', None, Reject 503 unavailable)
            | (c', Some False) \<Rightarrow> (c', None, Reject 401 ''Account inactive'')
            | (c', Some True) \<Rightarrow> (c', Some (k_id k), Pass (Some (api_key_claims k))))
         else (c, Some (k_id k), Pass (Some (api_key_claims k)))))"

definition str_or_empty :: "string option \<Rightarrow> string" where
  "str_or_empty x = (case x of Some s \<Rightarrow> s | None \<Rightarrow> [])"

text \<open>The token path.\<close>

definition token_gate ::
    "mw_env \<Rightarrow> string \<Rightarrow> string \<Rightarrow> active_cache \<Rightarrow> active_cache \<times> int option \<times> gate" where
  "token_gate E expected tok c =
     (case validate_token (me_lib E) (me_jwt E) (me_bl_fault E) (me_blacklist E)
             (v_start (me_visit E)) tok expected of
        Inl _ \<Rightarrow> (c, None, Reject 401 ''Invalid token'')
      | Inr cl \<Rightarrow>
        (if me_recheck E then
           (case is_active_for_token (me_it E) (me_user_fault E) (me_users E)
                   (str_or_empty (claim_str ''sub'' cl)) (str_or_empty (claim_str ''provider'' cl))
                   (me_visit E) c of
              (c', None) \<Rightarrow> (c', None, Reject 503 unavailable)
            | (c', Some False) \<Rightarrow> (c', None, Reject 401 ''Account inactive'')
            | (c', Some True) \<Rightarrow> (c', None, Pass (Some cl)))
         else (c, None, Pass (Some cl))))"

definition auth_middleware ::
    "mw_env \<Rightarrow> bool \<Rightarrow> request \<Rightarrow> active_cache \<Rightarrow> active_cache \<times> int option \<times> gate" where
  "auth_middleware E refresh r c =
     (if \<not> me_security E then (c, None, Pass None)
      else let tok = extract_token r (if refresh then ''refresh_jwt'' else ''jwt'');
               expected = (if refresh then ''refresh'' else ''access'')
           in if tok = [] then (c, None, Reject 401 ''Missing authorization token'')
              else case me_keys E of
                Some db \<Rightarrow> if \<not> refresh \<and> prefix api_key_prefix tok then api_key_gate E db tok c
                           else token_gate E expected tok c
              | None \<Rightarrow> token_gate E expected tok c)"

section \<open>Roles\<close>

definition role_level :: "string \<Rightarrow> nat" where
  "role_level r = (if r = ''viewer'' then 1 else if r = ''editor'' then 2 else if r = ''admin'' then 3 else 0)"

definition require_role :: "string \<Rightarrow> claims option \<Rightarrow> gate" where
  "require_role required cl =
     (case cl of
        None \<Rightarrow> Reject 403 ''Access denied: missing claims''
      | Some c \<Rightarrow>
          if role_level (str_or_empty (claim_str ''role'' c)) < role_level required
          then Reject 403 ''Access denied: insufficient permissions'' else Pass (Some c))"

section \<open>Double-submit cookies\<close>

definition generate_csrf_token :: "string option \<Rightarrow> string option" where
  "generate_csrf_token rnd = random_hex rnd"

abbreviation csrf_forbidden :: gate where
  "csrf_forbidden \<equiv> Reject 403 ''CSRF token missing or invalid''"

definition csrf_middleware :: "bool \<Rightarrow> request \<Rightarrow> gate" where
  "csrf_middleware security r =
     (if \<not> security then Pass None
      else if rq_method r \<in> {''GET'', ''HEAD'', ''OPTIONS''} then Pass None
      else if rq_path r = ''/login'' \<or> has_suffix (rq_path r) ''/login'' then Pass None
      else case rq_cookies r ''jwt'' of
        None \<Rightarrow> Pass None
      | Some _ \<Rightarrow>
        (case rq_cookies r ''csrf_token'' of
           None \<Rightarrow> csrf_forbidden
         | Some v \<Rightarrow>
           (if v = [] then csrf_forbidden
            else if rq_header r ''X-CSRF-Token'' = [] then csrf_forbidden
            else if v \<noteq> rq_header r ''X-CSRF-Token'' then csrf_forbidden
            else Pass None)))"

lemmas gate_defs = auth_middleware_def api_key_gate_def token_gate_def

section \<open>What passes the gates\<close>

lemma api_key_gate_Pass:
  assumes "snd (snd (api_key_gate E db tok c)) = Pass cl"
  obtains k where "get_key_by_hash db (hash_api_key (me_sha256 E) tok) = Inr k"
    and "cl = Some (api_key_claims k)" and "\<not> me_key_fault E"
    and "\<forall>e. k_expires_at k = Some e \<longrightarrow> v_start (me_visit E) \<le> e"
    and "me_recheck E \<Longrightarrow> snd (is_active_by_api_key_username (me_it E) (me_user_fault E) (me_users E)
           (k_username k) (me_visit E) c) = Some True"
  using assms
  by (auto simp: api_key_gate_def split: if_splits sum.splits key_error.splits prod.splits option.splits bool.splits)

lemma token_gate_Pass:
  assumes "snd (snd (token_gate E ty tok c)) = Pass cl"
  obtains d where "cl = Some d"
    and "validate_token (me_lib E) (me_jwt E) (me_bl_fault E) (me_blacklist E) (v_start (me_visit E)) tok ty = Inr d"
    and "me_recheck E \<Longrightarrow> snd (is_active_for_token (me_it E) (me_user_fault E) (me_users E)
           (str_or_empty (claim_str ''sub'' d)) (str_or_empty (claim_str ''provider'' d)) (me_visit E) c) = Some True"
  using assms
  by (auto simp: token_gate_def split: if_splits sum.splits prod.splits option.splits bool.splits)

lemma auth_middleware_cases:
  assumes "me_security E" and "snd (snd (auth_middleware E refresh r c)) = Pass cl"
  obtains (key) db where "me_keys E = Some db" "\<not> refresh" "prefix api_key_prefix (extract_token r ''jwt'')"
      "snd (snd (api_key_gate E db (extract_token r ''jwt'') c)) = Pass cl"
    | (token) "snd (snd (token_gate E (if refresh then ''refresh'' else ''access'')
          (extract_token r (if refresh then ''refresh_jwt'' else ''jwt'')) c)) = Pass cl"
  using assms by (auto simp: auth_middleware_def Let_def split: if_splits option.splits)

section \<open>Properties\<close>

lemma owner_answer:
  assumes "snd (is_active_by_api_key_username it fault db name v c) = Some a"
  obtains i where "snd (resolve_api_key_username it fault db name v c) = Some i" "a = ki_active i"
  using assms by (auto simp: is_active_by_api_key_username_def split: prod.splits option.splits)

text \<open>C8: who gets through the authentication gate.  With security and the recheck on, a request reaches
  the handler only with an API key that is on record, unexpired and owned by an account that was active,
  or with a token whose signature verifies under the server's secret and an HMAC algorithm, that is unexpired,
  unrevoked, of the right type and of an account that was active.  The key or the token is the one the request
  presents, and the claims the handler gets are that key's or the payload of that token.  "Was active" is at some moment less
  than TTL plus \<open>D\<close> before the request: a deactivated account is refused everywhere after that long, on every path.\<close>

theorem authenticated_identity:
  assumes "\<forall>t. users_ok (dba t) \<and> (\<forall>u \<in> set (users (dba t)). in_int64 (u_id u))"
    and "list_all (timely D (v_start (me_visit E))) ops" and "0 \<le> D" and "v_start (me_visit E) \<le> rd"
    and "me_security E" and "me_recheck E" and "me_users E = dba rd"
    and "jwt_lib_ok (me_lib E)" and "jwt_lib_verified (me_lib E)"
    and "c = fold (cache_step (me_it E) dba) ops (new_active_cache ttl m env)"
    and "snd (snd (auth_middleware E refresh r c)) = Pass cl"
  shows "(\<exists>db k t. me_keys E = Some db \<and> k \<in> set (keys_of db) \<and> cl = Some (api_key_claims k)
            \<and> k_hash k = hash_api_key (me_sha256 E) (extract_token r ''jwt'')
            \<and> (\<forall>e. k_expires_at k = Some e \<longrightarrow> v_start (me_visit E) \<le> e)
            \<and> v_start (me_visit E) - (if ttl \<le> 0 then 2 * second else ttl) - D < t \<and> t \<le> rd
            \<and> owner_truth (ac_env c) (k_username k) (dba t))
       \<or> (\<exists>d t tok. cl = Some d \<and> tok = extract_token r (if refresh then ''refresh_jwt'' else ''jwt'')
            \<and> lib_payload (me_lib E) tok = Some d
            \<and> (\<exists>alg \<in> {''HS256'', ''HS384'', ''HS512''}. lib_verifies (me_lib E) alg (jwt_secret (me_jwt E)) tok)
            \<and> unexpired (v_start (me_visit E)) d
            \<and> claim_str ''type'' d = Some (if refresh then ''refresh'' else ''access'')
            \<and> (\<forall>jti. claim_str ''jti'' d = Some jti \<longrightarrow>
                 \<not> is_blacklisted (me_bl_fault E) jti (v_start (me_visit E)) (me_blacklist E))
            \<and> v_start (me_visit E) - (if ttl \<le> 0 then 2 * second else ttl) - D < t \<and> t \<le> rd
            \<and> token_truth (str_or_empty (claim_str ''sub'' d)) (str_or_empty (claim_str ''provider'' d)) (dba t))"
  using assms(5,11)
proof (cases rule: auth_middleware_cases)
  case (key db)
  from key(4) show ?thesis
  proof (cases rule: api_key_gate_Pass)
    case (1 k)
    from owner_answer [OF 1(5) [OF assms(6)]] obtain i where
      i: "snd (resolve_api_key_username (me_it E) (me_user_fault E) (dba rd) (k_username k) (me_visit E) c) = Some i"
        "ki_active i" unfolding assms(7) by metis
    from owner_recheck_fresh [OF assms(1-4,10) i(1)] obtain t where
      "v_start (me_visit E) - (if ttl \<le> 0 then 2 * second else ttl) - D < t" "t \<le> rd"
      "owner_truth (ac_env c) (k_username k) (dba t)" using i(2) by auto
    with key(1) 1(2,4) get_key_by_hash_Inr [OF 1(1)] show ?thesis
      by (intro disjI1 exI [of _ db] exI [of _ k] exI [of _ t]) simp
  qed
next
  case token
  then show ?thesis
  proof (cases rule: token_gate_Pass)
    case (1 d)
    note V = validate_token_Inr [OF 1(2)]
    from token_answer_fresh [OF assms(1-4) 1(3) [OF assms(6), unfolded assms(7,10)]] obtain t where
      "v_start (me_visit E) - (if ttl \<le> 0 then 2 * second else ttl) - D < t" "t \<le> rd"
      "token_truth (str_or_empty (claim_str ''sub'' d)) (str_or_empty (claim_str ''provider'' d)) (dba t)"
      by auto
    with V(2,3) validate_unexpired [OF assms(8) 1(2)] validate_verified [OF assms(9) 1(2)] 1(1) show ?thesis
      by (intro disjI2 exI [of _ d] exI [of _ t] exI [of _ "extract_token r (if refresh then ''refresh_jwt'' else ''jwt'')"]) simp
  qed
qed

text \<open>C26: cookies do not authenticate forged writes.  A request with a \<open>jwt\<close> cookie, other than GET,
  HEAD or OPTIONS and outside the paths ending in "/login", passes the CSRF gate exactly when its header
  repeats the non-empty \<open>csrf_token\<close> cookie.\<close>

theorem csrf_protects_cookie_sessions:
  assumes "rq_cookies r ''jwt'' = Some tok" and "rq_method r \<notin> {''GET'', ''HEAD'', ''OPTIONS''}"
    and "\<not> has_suffix (rq_path r) ''/login''"
  shows "csrf_middleware True r = Pass None \<longleftrightarrow>
      rq_header r ''X-CSRF-Token'' \<noteq> [] \<and> rq_cookies r ''csrf_token'' = Some (rq_header r ''X-CSRF-Token'')"
  using assms by (auto simp: csrf_middleware_def has_suffix_def split: option.splits)

theorem csrf_protects_cookie_sessions_witness:
  "csrf_middleware True \<lparr>rq_method = ''POST'', rq_path = ''/api/v1/projects'',
     rq_cookies = [''jwt'' \<mapsto> ''t'', ''csrf_token'' \<mapsto> ''c1''], rq_header = (\<lambda>_. ''c2'')\<rparr> \<noteq> Pass None"
  using csrf_protects_cookie_sessions [of "\<lparr>rq_method = ''POST'', rq_path = ''/api/v1/projects'',
     rq_cookies = [''jwt'' \<mapsto> ''t'', ''csrf_token'' \<mapsto> ''c1''], rq_header = (\<lambda>_. ''c2'')\<rparr>" "''t''"]
  by (simp add: has_suffix_def suffix_def)

text \<open>Two ways around the double submit that the comments in \<open>csrf.go\<close> do not mention.  Any path ending in
  "/login" is exempt, so also the deletion of a project of that name; and the refresh endpoint, which the
  \<open>refresh_jwt\<close> cookie authenticates, is unchecked when the short-lived \<open>jwt\<close> cookie is gone.\<close>

lemma csrf_exempts_login_suffix:
  "csrf_middleware True \<lparr>rq_method = ''DELETE'', rq_path = ''/api/v1/projects/login'',
     rq_cookies = [''jwt'' \<mapsto> ''t''], rq_header = (\<lambda>_. [])\<rparr> = Pass None"
  by (simp add: csrf_middleware_def has_suffix_def suffix_def)

lemma csrf_skips_refresh_cookie:
  assumes "rq_cookies r ''jwt'' = None" and "rq_cookies r ''refresh_jwt'' = Some t" and "t \<noteq> []"
  shows "csrf_middleware True r = Pass None \<and> extract_token r ''refresh_jwt'' = t"
  using assms by (simp add: csrf_middleware_def extract_token_def)

text \<open>the role gate is the order viewer below editor below admin.  For the three known roles it lets a
  request through exactly when the role in its claims is at least the required one, a role it does not
  know gets through no gate of a known role, and without claims nothing does.\<close>

theorem role_gate:
  assumes "required \<in> {''viewer'', ''editor'', ''admin''}"
  shows "(require_role required cl = Pass cl) \<longleftrightarrow>
     (\<exists>c. cl = Some c \<and> claim_str ''role'' c
        \<in> Some ` set (dropWhile (\<lambda>r. r \<noteq> required) [''viewer'', ''editor'', ''admin'']))"
proof (cases "cl")
  case (Some c)
  then show ?thesis
    using assms
    by (cases "claim_str ''role'' c") (auto simp: require_role_def str_or_empty_def role_level_def)
qed (simp add: require_role_def)

theorem role_gate_witness:
  "require_role ''editor'' (Some [(''role'', CStr ''admin'')]) = Pass (Some [(''role'', CStr ''admin'')])
   \<and> require_role ''editor'' (Some [(''role'', CStr ''viewer'')]) \<noteq> Pass (Some [(''role'', CStr ''viewer'')])"
  using role_gate [of "''editor''" "Some [(''role'', CStr ''admin'')]"]
    role_gate [of "''editor''" "Some [(''role'', CStr ''viewer'')]"]
  by (simp add: claim_str_def)

definition demo_env :: mw_env where
  "demo_env = \<lparr>me_security = True, me_lib = demo_lib, me_jwt = demo_cfg, me_sha256 = (\<lambda>_. ''x''), me_it = id,
     me_keys = Some \<lparr>keys_of = [sample_key\<lparr>k_hash := ''78''\<rparr>], next_key_id = 2, kd_refs = []\<rparr>,
     me_users = alice_db, me_blacklist = [], me_recheck = True, me_key_fault = False,
     me_user_fault = False, me_bl_fault = False, me_visit = \<lparr>v_start = 100, v_store = 101\<rparr>\<rparr>"

abbreviation demo_request :: request where
  "demo_request \<equiv> \<lparr>rq_method = ''GET'', rq_path = ''/api/v1/projects'', rq_cookies = (\<lambda>_. None),
     rq_header = (\<lambda>h. if h = ''Authorization'' then ''Bearer ald_1'' else [])\<rparr>"

lemma alice_db_ok: "users_ok alice_db \<and> (\<forall>u \<in> set (users alice_db). in_int64 (u_id u))"
  by (simp add: users_ok_def create_local_def exec_insert_user_def Let_def users_violation_def in_int64_def)

lemma demo_gate:
  "snd (snd (auth_middleware demo_env False demo_request (new_active_cache 0 0 [])))
     = Pass (Some (api_key_claims (sample_key\<lparr>k_hash := ''78''\<rparr>)))"
proof -
  have e: "hex_encode ''x'' = ''78''" "parse_int ''al@x.io'' = None" "to_lower ''Al@x.io'' = ''al@x.io''"
    "to_lower ''al@x.io'' = ''al@x.io''" by code_simp+
  have g: "get_user_by_email alice_db ''al@x.io'' = Inr \<lparr>u_id = 1, u_email = ''Al@x.io'', u_name = ''Al'',
      u_provider = ''local'', u_provider_sub = [], u_password_hash = ''h'', u_role = ''viewer'',
      u_is_active = True, u_last_login = None, u_created_at = 5, u_updated_at = 5\<rparr>"
    by (simp add: get_user_by_email_def email_matches_def create_local_def exec_insert_user_def Let_def
        users_violation_def e)
  have a: "snd (is_active_by_api_key_username id False alice_db ''al@x.io'' \<lparr>v_start = 100, v_store = 101\<rparr>
      (new_active_cache 0 0 [])) = Some True"
    by (simp add: is_active_by_api_key_username_def resolve_api_key_username_def e Let_def
        resolve_loaded_def read_db_def g new_active_cache_def del: fold.simps)
  have x: "extract_token demo_request ''jwt'' = ''ald_1''"
    by (simp add: extract_token_def cut_prefix_def)
  have k: "get_key_by_hash \<lparr>keys_of = [sample_key\<lparr>k_hash := ''78''\<rparr>], next_key_id = 2, kd_refs = []\<rparr> ''78''
      = Inr (sample_key\<lparr>k_hash := ''78''\<rparr>)"
    by (simp add: get_key_by_hash_def tbl_simps)
  obtain c' where a': "is_active_by_api_key_username id False alice_db ''al@x.io'' \<lparr>v_start = 100, v_store = 101\<rparr>
      (new_active_cache 0 0 []) = (c', Some True)"
    using a by (metis prod.collapse)
  show ?thesis
    by (simp add: a' auth_middleware_def demo_env_def x api_key_gate_def hash_api_key_def e
        k [simplified] del: fold.simps split: prod.split option.split bool.split)
qed

definition demo_token_claims :: claims where
  "demo_token_claims = access_claims demo_cfg ''1'' ''viewer'' ''local'' ''61'' (of_unix 1000)"

definition demo_bearer :: string where
  "demo_bearer = put_str (jwt_secret demo_cfg) @ put_claims demo_token_claims"

definition demo_token_request :: request where
  "demo_token_request = \<lparr>rq_method = ''GET'', rq_path = ''/api/v1/projects'', rq_cookies = (\<lambda>_. None),
     rq_header = (\<lambda>h. if h = ''Authorization'' then ''Bearer '' @ demo_bearer else [])\<rparr>"

lemma demo_token_passes:
  "snd (snd (auth_middleware demo_env False demo_token_request (new_active_cache 0 0 []))) = Pass (Some demo_token_claims)"
proof -
  have n: "nums_ok demo_token_claims" "unexpired 100 demo_token_claims"
    by (simp_all add: demo_token_claims_def demo_cfg_def nums_ok_def access_claims_def unexpired_def in_int64_def to_unix_def of_unix_def)
  have s: "claim_str ''type'' demo_token_claims = Some ''access''" "claim_str ''jti'' demo_token_claims = Some ''61''"
      "claim_str ''sub'' demo_token_claims = Some ''1''" "claim_str ''provider'' demo_token_claims = Some ''local''"
    by (simp_all add: demo_token_claims_def access_claims_def claim_str_def)
  have v: "validate_token demo_lib demo_cfg False [] 100 demo_bearer ''access'' = Inr demo_token_claims"
    unfolding demo_bearer_def by (rule demo_validate [OF n s(1,2)]) (simp add: is_blacklisted_def bl_lookup_def tbl_find_Nil)
  have x: "extract_token demo_token_request ''jwt'' = demo_bearer"
    by (simp add: extract_token_def demo_token_request_def cut_prefix_def)
  have b: "demo_bearer \<noteq> []" "\<not> prefix api_key_prefix demo_bearer"
    by (simp_all add: demo_bearer_def put_str_def demo_cfg_def)
  have p: "parse_int ''1'' = Some 1" by code_simp
  have a: "snd (is_active_for_token id False alice_db ''1'' ''local'' \<lparr>v_start = 100, v_store = 101\<rparr> (new_active_cache 0 0 [])) = Some True"
    by (simp add: is_active_for_token_def is_active_def is_active_by_id_def p lookup_def cached_def new_active_cache_def load_user_def
        read_db_def get_user_by_id_def create_local_def exec_insert_user_def Let_def users_violation_def tbl_simps)
  obtain c' where a': "is_active_for_token id False alice_db ''1'' ''local'' \<lparr>v_start = 100, v_store = 101\<rparr>
      (new_active_cache 0 0 []) = (c', Some True)"
    using a by (metis prod.collapse)
  show ?thesis
    by (simp add: auth_middleware_def demo_env_def x b token_gate_def v s str_or_empty_def a' del: fold.simps)
qed

theorem authenticated_identity_witness:
  "snd (snd (auth_middleware demo_env False demo_request (new_active_cache 0 0 [])))
     = Pass (Some (api_key_claims (sample_key\<lparr>k_hash := ''78''\<rparr>)))
   \<and> owner_truth [] ''al@x.io'' alice_db
   \<and> snd (snd (auth_middleware demo_env False demo_token_request (new_active_cache 0 0 []))) = Pass (Some demo_token_claims)
   \<and> (\<exists>alg \<in> {''HS256'', ''HS384'', ''HS512''}. lib_verifies demo_lib alg ''key'' demo_bearer)"
proof -
  let ?k = "sample_key\<lparr>k_hash := ''78''\<rparr>"
  have d: "me_security demo_env" "me_recheck demo_env" "me_users demo_env = alice_db" "jwt_lib_ok (me_lib demo_env)"
    "jwt_lib_verified (me_lib demo_env)" "v_start (me_visit demo_env) = 100"
    by (simp_all add: demo_env_def demo_lib_ok demo_lib_verified)
  have ok: "\<forall>t :: time. users_ok alice_db \<and> (\<forall>u \<in> set (users alice_db). in_int64 (u_id u))"
    using alice_db_ok by blast
  have env: "ac_env (new_active_cache 0 0 []) = []" by (simp add: new_active_cache_def)
  have ty: "claim_str ''type'' (api_key_claims ?k) = None"
    "\<And>k. api_key_claims ?k = api_key_claims k \<Longrightarrow> k_username k = ''al@x.io''"
    by (auto simp: claim_str_def api_key_claims_def)
  have tc: "demo_token_claims \<noteq> api_key_claims k" for k
    by (auto simp: demo_token_claims_def access_claims_def api_key_claims_def)
  have x: "extract_token demo_token_request ''jwt'' = demo_bearer" "jwt_secret (me_jwt demo_env) = ''key''" "me_lib demo_env = demo_lib"
    by (simp_all add: extract_token_def demo_token_request_def cut_prefix_def demo_env_def demo_cfg_def)
  note W = authenticated_identity [where dba = "\<lambda>_. alice_db" and E = demo_env and ops = "[]" and D = 0 and
      rd = 101 and c = "new_active_cache 0 0 []" and ttl = 0 and m = 0 and env = "[]" and refresh = False,
      OF ok, unfolded d(6) env]
  from W [OF _ _ _ d(1-5) _ demo_gate] ty have "owner_truth [] ''al@x.io'' alice_db"
    by (auto simp del: fold.simps simp add: fold.simps(1))
  moreover from W [OF _ _ _ d(1-5) _ demo_token_passes] tc
  have "\<exists>alg \<in> {''HS256'', ''HS384'', ''HS512''}. lib_verifies demo_lib alg ''key'' demo_bearer"
    unfolding if_False x by (auto simp del: fold.simps simp add: fold.simps(1))
  ultimately show ?thesis using demo_gate demo_token_passes by blast
qed

end
