(* ===== verification/Families.thy ===== *)
theory Families
  imports GoStrings
begin

text \<open>
  \<open>api/internal/store/pg/refresh_token_families.go\<close>: the refresh-token families of the rotation flow.
  Each method is one SQL statement, hence atomic; \<open>now\<close> is the database's \<open>NOW()\<close> (and the
  \<open>time.Now()\<close> of \<open>DeleteExpired\<close>).  Column values keep the source's strings.
\<close>

section \<open>State\<close>

record family =
  f_id :: string
  f_user :: string
  f_role :: string
  f_provider :: string
  f_current_jti :: string
  f_previous_jti :: "string option"
  f_grace_until :: "time option"
  f_status :: string
  f_created_at :: time
  f_updated_at :: time
  f_expires_at :: time

datatype family_error = ErrRefreshFamilyNotFound | ErrFamilyIDRequired | ErrFamilyDB

abbreviation status_active :: string where "status_active \<equiv> ''active''"
abbreviation status_compromised :: string where "status_compromised \<equiv> ''compromised''"
abbreviation status_revoked :: string where "status_revoked \<equiv> ''revoked''"

section \<open>Statements\<close>

definition create_family :: "family \<Rightarrow> time \<Rightarrow> family list \<Rightarrow> family list \<times> (family_error + unit)" where
  "create_family fam now t =
     (if f_id fam = [] then (t, Inl ErrFamilyIDRequired)
      else let fam' = fam\<lparr>f_status := (if f_status fam = [] then status_active else f_status fam),
                          f_provider := (if f_provider fam = [] then ''local'' else f_provider fam),
                          f_created_at := now, f_updated_at := now\<rparr>
           in if tbl_count (\<lambda>r. f_id r = f_id fam) t \<noteq> 0 then (t, Inl ErrFamilyDB)
              else (t @ [fam'], Inr ()))"

definition get_family :: "string \<Rightarrow> family list \<Rightarrow> family option" where
  "get_family k t = tbl_find (\<lambda>r. f_id r = k) t"

definition rotate_family ::
    "string \<Rightarrow> string \<Rightarrow> int \<Rightarrow> time \<Rightarrow> family list \<Rightarrow> family list \<times> (family_error + unit)" where
  "rotate_family k new_jti grace now t =
     (let g = (if grace < 0 then 0 else grace) in
      if tbl_count (\<lambda>r. f_id r = k) t = 0 then (t, Inl ErrRefreshFamilyNotFound)
      else (tbl_update (\<lambda>r. f_id r = k)
              (\<lambda>r. r\<lparr>f_previous_jti := Some (f_current_jti r), f_current_jti := new_jti,
                     f_grace_until := Some (now + g * second), f_updated_at := now\<rparr>) t, Inr ()))"

definition set_family_status ::
    "string \<Rightarrow> string \<Rightarrow> time \<Rightarrow> family list \<Rightarrow> family list \<times> (family_error + unit)" where
  "set_family_status k st now t =
     (if tbl_count (\<lambda>r. f_id r = k) t = 0 then (t, Inl ErrRefreshFamilyNotFound)
      else (tbl_update (\<lambda>r. f_id r = k) (\<lambda>r. r\<lparr>f_status := st, f_updated_at := now\<rparr>) t, Inr ()))"

definition mark_compromised ::
    "string \<Rightarrow> time \<Rightarrow> family list \<Rightarrow> family list \<times> (family_error + unit)" where
  "mark_compromised k now t = set_family_status k status_compromised now t"

definition revoke_family ::
    "string \<Rightarrow> time \<Rightarrow> family list \<Rightarrow> family list \<times> (family_error + unit)" where
  "revoke_family k now t = set_family_status k status_revoked now t"

definition revoke_all_for_user :: "string \<Rightarrow> time \<Rightarrow> family list \<Rightarrow> family list \<times> nat" where
  "revoke_all_for_user user now t =
     (let p = (\<lambda>r. f_user r = user \<and> f_status r = status_active) in
      (tbl_update p (\<lambda>r. r\<lparr>f_status := status_revoked, f_updated_at := now\<rparr>) t, tbl_count p t))"

definition delete_expired_families :: "time \<Rightarrow> family list \<Rightarrow> family list \<times> nat" where
  "delete_expired_families now t =
     (let p = (\<lambda>r. f_expires_at r < now) in (tbl_delete p t, tbl_count p t))"

datatype family_op =
    FCreate family time
  | FRotate string string int time
  | FCompromise string time
  | FRevoke string time
  | FRevokeAll string time
  | FDeleteExpired time

fun family_step :: "family_op \<Rightarrow> family list \<Rightarrow> family list" where
  "family_step (FCreate fam now) t = fst (create_family fam now t)"
| "family_step (FRotate k j g now) t = fst (rotate_family k j g now t)"
| "family_step (FCompromise k now) t = fst (mark_compromised k now t)"
| "family_step (FRevoke k now) t = fst (revoke_family k now t)"
| "family_step (FRevokeAll u now) t = fst (revoke_all_for_user u now t)"
| "family_step (FDeleteExpired now) t = fst (delete_expired_families now t)"

lemmas family_defs = create_family_def get_family_def rotate_family_def set_family_status_def
  mark_compromised_def revoke_family_def revoke_all_for_user_def delete_expired_families_def Let_def

section \<open>The primary key\<close>

interpretation family_table: keyed_table f_id get_family "\<lambda>k. tbl_update (\<lambda>r. f_id r = k)"
  by unfold_locales
    (auto dest: tbl_find_Some simp: get_family_def tbl_find_update_same map_key_update
      intro: tbl_find_update_other)

definition families_ok :: "family list \<Rightarrow> bool" where
  "families_ok t \<longleftrightarrow> distinct (map f_id t)"

lemma family_step_ok: "families_ok t \<Longrightarrow> families_ok (family_step a t)"
  by (cases a) (auto simp: families_ok_def family_defs map_key_update tbl_count_0
      intro: distinct_map_tbl_delete)

interpretation family_machine: invariant_machine family_step families_ok
  by unfold_locales (rule family_step_ok)

text \<open>The statement-level functions, read through a lookup.\<close>

lemma get_set_status:
  "get_family k' (fst (set_family_status k st now t))
   = (if k' = k then map_option (\<lambda>r. r\<lparr>f_status := st, f_updated_at := now\<rparr>) (get_family k t)
      else get_family k' t)"
proof (cases "tbl_count (\<lambda>r. f_id r = k) t = 0")
  case True
  then have "get_family k t = None" by (simp add: get_family_def tbl_simps)
  with True show ?thesis by (auto simp: set_family_status_def)
next
  case False
  then show ?thesis
    by (auto simp: set_family_status_def family_table.get_upd_same family_table.get_upd_other)
qed

lemma get_rotate:
  "get_family k' (fst (rotate_family k j g now t))
   = (if k' = k then map_option (\<lambda>r. r\<lparr>f_previous_jti := Some (f_current_jti r), f_current_jti := j,
          f_grace_until := Some (now + max g 0 * second), f_updated_at := now\<rparr>) (get_family k t)
      else get_family k' t)"
proof (cases "tbl_count (\<lambda>r. f_id r = k) t = 0")
  case True
  then have "get_family k t = None" by (simp add: get_family_def tbl_simps)
  with True show ?thesis by (auto simp: rotate_family_def Let_def)
next
  case False
  then show ?thesis
    by (auto simp: rotate_family_def Let_def max_def family_table.get_upd_same
        family_table.get_upd_other)
qed

lemma get_revoke_all:
  "get_family k (fst (revoke_all_for_user u now t))
   = map_option (\<lambda>r. if f_user r = u \<and> f_status r = status_active
                     then r\<lparr>f_status := status_revoked, f_updated_at := now\<rparr> else r) (get_family k t)"
  by (simp add: revoke_all_for_user_def Let_def get_family_def tbl_find_update_any)

lemma get_create:
  "get_family k (fst (create_family fam now t)) =
   (case get_family k t of
      Some r \<Rightarrow> Some r
    | None \<Rightarrow> if f_id fam = k \<and> k \<noteq> [] then
        Some (fam\<lparr>f_status := (if f_status fam = [] then status_active else f_status fam),
                  f_provider := (if f_provider fam = [] then ''local'' else f_provider fam),
                  f_created_at := now, f_updated_at := now\<rparr>) else None)"
proof (cases "f_id fam = [] \<or> tbl_count (\<lambda>r. f_id r = f_id fam) t \<noteq> 0")
  case True
  then have "get_family k t \<noteq> None" if "f_id fam = k" "k \<noteq> []"
    using that by (simp add: get_family_def tbl_simps)
  with True show ?thesis by (auto simp: create_family_def Let_def split: option.split)
next
  case False
  have none: "get_family k t = None" if "f_id fam = k"
    using False that by (auto simp: get_family_def tbl_simps)
  have app: "get_family k (t @ [r]) = (case get_family k t of Some r' \<Rightarrow> Some r'
      | None \<Rightarrow> if f_id r = k then Some r else None)" for r
    unfolding get_family_def tbl_find_append tbl_find_Cons tbl_find_Nil ..
  from False none show ?thesis
    by (auto simp: create_family_def Let_def app split: option.split)
qed

lemma get_delete_expired:
  assumes "families_ok t"
  shows "get_family k (fst (delete_expired_families now t))
   = (case get_family k t of None \<Rightarrow> None | Some r \<Rightarrow> if f_expires_at r < now then None else Some r)"
  using assms
proof (induction t)
  case Nil
  then show ?case by (simp add: get_family_def delete_expired_families_def tbl_simps tbl_delete_def)
next
  case (Cons r t)
  have none: "get_family k t = None" if "f_id r = k"
    using Cons.prems that by (force simp: families_ok_def get_family_def tbl_simps image_iff)
  have IH: "get_family k (filter (\<lambda>r. \<not> f_expires_at r < now) t)
      = (case get_family k t of None \<Rightarrow> None | Some r \<Rightarrow> if f_expires_at r < now then None else Some r)"
    using Cons by (simp add: families_ok_def delete_expired_families_def Let_def tbl_delete_def)
  show ?case
  proof (cases "f_id r = k")
    case True
    with IH none show ?thesis
      by (simp add: delete_expired_families_def Let_def tbl_delete_def)
        (simp add: get_family_def tbl_simps)
  next
    case False
    with IH show ?thesis
      by (simp add: delete_expired_families_def Let_def tbl_delete_def)
        (simp add: get_family_def tbl_simps)
  qed
qed

lemmas get_family_ops = get_set_status get_rotate get_revoke_all get_create get_delete_expired

section \<open>Ended sessions stay ended\<close>

text \<open>Family \<open>k\<close> is not usable: it does not exist, or its status is not active.\<close>

definition ended :: "string \<Rightarrow> family list \<Rightarrow> bool" where
  "ended k t \<longleftrightarrow> families_ok t \<and> (\<forall>r. get_family k t = Some r \<longrightarrow> f_status r \<noteq> status_active)"

definition not_created :: "string \<Rightarrow> family_op \<Rightarrow> bool" where
  "not_created k a = (case a of FCreate fam now \<Rightarrow> f_id fam \<noteq> k | _ \<Rightarrow> True)"

lemma family_step_ended: "not_created k a \<Longrightarrow> ended k t \<Longrightarrow> ended k (family_step a t)"
  by (cases a)
    (auto simp: ended_def not_created_def mark_compromised_def revoke_family_def get_family_ops
      family_step_ok [of t a] split: option.splits if_splits dest: family_step_ok [of t a])

interpretation ended: guarded_machine family_step "ended k" "not_created k" for k
  by unfold_locales (rule family_step_ended)

text \<open>C40: a session that ended stays ended.  Once a family is revoked, compromised or deleted, no later
  rotation, status change, bulk revocation or pruning makes it active again; only the creation of a
  family under the same id could.\<close>

theorem ended_session_stays_ended:
  assumes "families_ok t" and "\<forall>r. get_family k t = Some r \<longrightarrow> f_status r \<noteq> ''active''"
    and "list_all (not_created k) as"
    and "get_family k (fold family_step as t) = Some r"
  shows "f_status r \<noteq> ''active''"
  using ended.guarded_run [OF assms(3), of t] assms by (simp add: ended_def)

abbreviation sample_family :: family where
  "sample_family \<equiv> \<lparr>f_id = ''f1'', f_user = ''7'', f_role = ''viewer'', f_provider = ''local'',
     f_current_jti = ''j0'', f_previous_jti = None, f_grace_until = None, f_status = ''active'',
     f_created_at = 1, f_updated_at = 1, f_expires_at = 1000\<rparr>"

theorem ended_session_stays_ended_witness:
  "\<exists>r. get_family ''f1'' (fold family_step [FRotate ''f1'' ''j1'' 30 6, FRevokeAll ''7'' 7]
         (fst (mark_compromised ''f1'' 5 [sample_family]))) = Some r \<and> f_status r \<noteq> ''active''"
proof -
  let ?t = "fst (mark_compromised ''f1'' 5 [sample_family])"
  have ok: "families_ok ?t" and
    st: "\<forall>r. get_family ''f1'' ?t = Some r \<longrightarrow> f_status r \<noteq> ''active''"
    by (simp_all add: families_ok_def family_defs tbl_simps)
  obtain r where r: "get_family ''f1'' (fold family_step [FRotate ''f1'' ''j1'' 30 6, FRevokeAll ''7'' 7] ?t)
      = Some r"
    by (simp add: family_defs tbl_simps)
  then show ?thesis
    using ended_session_stays_ended [OF ok st _ r] by (auto simp: not_created_def)
qed

end
