(* ===== verification/Throttle.thy ===== *)
theory Throttle
  imports GoStrings
begin

text \<open>
  \<open>api/internal/middleware/account_throttle.go\<close>: the per-account brute-force throttle.  The mutex
  makes every method atomic, so an execution is a sequence of operations, each with the clock value
  \<open>nowFn()\<close> returned to it.  \<open>SetNowFn\<close> (a test hook) is the \<open>now\<close> argument; \<open>StartCleanup\<close> is the
  ticker that issues \<open>Cleanup\<close> and contributes \<open>TCleanup\<close> steps.
\<close>

section \<open>State\<close>

record account_entry =
  failure_count :: int
  first_failure :: time
  last_failure :: time
  locked_until :: time

record account_throttler =
  window :: duration
  soft_threshold :: int
  lockout_threshold :: int
  lockout_duration :: duration
  backoff_max :: duration
  entries :: "string \<rightharpoonup> account_entry"

record throttle_result =
  allowed :: bool
  res_locked_until :: time
  delay :: duration
  res_failure_count :: int

definition new_account_throttler ::
    "duration \<Rightarrow> int \<Rightarrow> int \<Rightarrow> duration \<Rightarrow> duration \<Rightarrow> account_throttler" where
  "new_account_throttler w soft lockout dur bmax =
     \<lparr>window = w, soft_threshold = soft, lockout_threshold = lockout, lockout_duration = dur,
      backoff_max = bmax, entries = Map.empty\<rparr>"

section \<open>Operations\<close>

definition normalise_username :: "string \<Rightarrow> string" where
  "normalise_username s = to_lower (trim_space s)"

definition clean_result :: throttle_result where
  "clean_result = \<lparr>allowed = True, res_locked_until = 0, delay = 0, res_failure_count = 0\<rparr>"

definition backoff_for :: "int \<Rightarrow> duration \<Rightarrow> duration" where
  "backoff_for count bmax =
     (if count \<le> 0 then 0
      else let e = min (count - 1) 30;
               d = wrap64 (second * wrap64 (2 ^ nat e))
           in if d > bmax \<or> d < 0 then bmax else d)"

definition check :: "account_throttler \<Rightarrow> string \<Rightarrow> time \<Rightarrow> throttle_result" where
  "check t username now =
     (let key = normalise_username username in
      if key = [] then clean_result
      else case entries t key of
        None \<Rightarrow> clean_result
      | Some e \<Rightarrow>
          if locked_until e \<noteq> 0 \<and> locked_until e > now
          then \<lparr>allowed = False, res_locked_until = locked_until e, delay = 0,
                res_failure_count = failure_count e\<rparr>
          else if now - first_failure e > window t then clean_result
          else \<lparr>allowed = True, res_locked_until = 0,
                delay = backoff_for (failure_count e) (backoff_max t),
                res_failure_count = failure_count e\<rparr>)"

text \<open>The entry after the increment, before the threshold test.\<close>

definition bump_entry :: "account_throttler \<Rightarrow> account_entry option \<Rightarrow> time \<Rightarrow> account_entry" where
  "bump_entry t old now =
     (case old of
        None \<Rightarrow> \<lparr>failure_count = 1, first_failure = now, last_failure = now, locked_until = 0\<rparr>
      | Some e \<Rightarrow>
          if now - first_failure e > window t
          then \<lparr>failure_count = 1, first_failure = now, last_failure = now, locked_until = 0\<rparr>
          else e\<lparr>failure_count := failure_count e + 1, last_failure := now\<rparr>)"

definition record_failure ::
    "account_throttler \<Rightarrow> string \<Rightarrow> time \<Rightarrow> account_throttler \<times> throttle_result" where
  "record_failure t username now =
     (let key = normalise_username username in
      if key = [] then (t, clean_result)
      else let e = bump_entry t (entries t key) now in
        if failure_count e \<ge> lockout_threshold t
        then let e' = e\<lparr>locked_until := now + lockout_duration t\<rparr>
             in (t\<lparr>entries := (entries t)(key \<mapsto> e')\<rparr>,
                 \<lparr>allowed = False, res_locked_until = locked_until e', delay = 0,
                  res_failure_count = failure_count e'\<rparr>)
        else (t\<lparr>entries := (entries t)(key \<mapsto> e)\<rparr>,
              \<lparr>allowed = True, res_locked_until = 0,
               delay = backoff_for (failure_count e) (backoff_max t),
               res_failure_count = failure_count e\<rparr>))"

definition record_success :: "account_throttler \<Rightarrow> string \<Rightarrow> account_throttler" where
  "record_success t username =
     (let key = normalise_username username in
      if key = [] then t else t\<lparr>entries := (entries t)(key := None)\<rparr>)"

definition stale :: "account_throttler \<Rightarrow> time \<Rightarrow> account_entry \<Rightarrow> bool" where
  "stale t now e \<longleftrightarrow>
     \<not> (locked_until e \<noteq> 0 \<and> locked_until e > now) \<and> now - last_failure e > window t"

definition cleanup :: "account_throttler \<Rightarrow> time \<Rightarrow> account_throttler" where
  "cleanup t now =
     t\<lparr>entries := (\<lambda>k. case entries t k of None \<Rightarrow> None
                       | Some e \<Rightarrow> if stale t now e then None else Some e)\<rparr>"

text \<open>What the callers can do, each with its clock reading.\<close>

datatype throttle_op = TCheck string time | TFail string time | TSuccess string time | TCleanup time

fun op_time :: "throttle_op \<Rightarrow> time" where
  "op_time (TCheck u n) = n"
| "op_time (TFail u n) = n"
| "op_time (TSuccess u n) = n"
| "op_time (TCleanup n) = n"

fun throttle_step :: "throttle_op \<Rightarrow> account_throttler \<Rightarrow> account_throttler" where
  "throttle_step (TCheck u now) t = t"
| "throttle_step (TFail u now) t = fst (record_failure t u now)"
| "throttle_step (TSuccess u now) t = record_success t u"
| "throttle_step (TCleanup now) t = cleanup t now"

lemmas throttle_defs = check_def record_failure_def record_success_def cleanup_def stale_def
  bump_entry_def clean_result_def Let_def

section \<open>Backoff\<close>

lemma backoff_for_pos:
  assumes "0 < count"
  shows "backoff_for count bmax
         = (let d = second * 2 ^ nat (min (count - 1) 30) in if d > bmax then bmax else d)"
proof -
  let ?e = "nat (min (count - 1) 30)"
  have e: "?e \<le> 30" by simp
  have p: "(2::int) ^ ?e \<le> 2 ^ 30" using e by (intro power_increasing) auto
  have p0: "0 < (2::int) ^ ?e" by simp
  have range: "in_int64 x \<and> in_int64 (second * x)" if "0 < x" and "x \<le> 2 ^ 30" for x :: int
    using that by (simp add: in_int64_def)
  have w1: "wrap64 (2 ^ ?e) = 2 ^ ?e" and w2: "wrap64 (second * 2 ^ ?e) = second * 2 ^ ?e"
    using range [OF p0 p] by (simp_all only: wrap64_id)
  have pos: "\<not> second * 2 ^ ?e < 0" using p0 by linarith
  show ?thesis using assms by (simp add: backoff_for_def Let_def w1 w2 pos)
qed

lemma backoff_for_nonneg: "0 \<le> bmax \<Longrightarrow> 0 \<le> backoff_for count bmax"
  by (cases "0 < count") (auto simp: backoff_for_pos Let_def, auto simp: backoff_for_def)

lemma backoff_for_le: "0 \<le> bmax \<Longrightarrow> backoff_for count bmax \<le> bmax"
  by (cases "0 < count") (auto simp: backoff_for_pos Let_def, auto simp: backoff_for_def)

lemma backoff_for_mono:
  assumes "c \<le> d" and "0 \<le> bmax"
  shows "backoff_for c bmax \<le> backoff_for d bmax"
proof (cases "0 < c")
  case False
  then have "backoff_for c bmax = 0" by (simp add: backoff_for_def)
  then show ?thesis using backoff_for_nonneg [OF assms(2)] by simp
next
  case True
  have "(2::int) ^ nat (min (c - 1) 30) \<le> 2 ^ nat (min (d - 1) 30)"
    using assms(1) by (intro power_increasing) (auto simp: nat_mono)
  then have "second * (2::int) ^ nat (min (c - 1) 30) \<le> second * 2 ^ nat (min (d - 1) 30)"
    by simp
  with True assms(1) show ?thesis by (auto simp only: backoff_for_pos Let_def split: if_splits)
qed

text \<open>C3: the backoff schedule.  Below the cap the n-th failure waits 2^(n-1) seconds; the cap is never
  exceeded, more failures never wait less, and the 64-bit product never overflows, so the guard
  \<open>d < 0\<close> of the code is dead.\<close>

theorem backoff_schedule:
  assumes "0 < n" and "0 \<le> bmax"
  shows "(n \<le> 31 \<and> second * 2 ^ nat (n - 1) \<le> bmax \<longrightarrow> backoff_for n bmax = second * 2 ^ nat (n - 1))
    \<and> backoff_for n bmax \<le> bmax
    \<and> (\<forall>m. m \<le> n \<longrightarrow> backoff_for m bmax \<le> backoff_for n bmax)
    \<and> 0 \<le> wrap64 (second * wrap64 (2 ^ nat (min (n - 1) 30)))"
proof -
  have "0 \<le> wrap64 (second * wrap64 (2 ^ nat (min (n - 1) 30)))"
  proof (rule ccontr)
    assume neg: "\<not> ?thesis"
    then have "backoff_for n (second * 2 ^ 31) = second * 2 ^ 31"
      using assms(1) by (simp add: backoff_for_def Let_def)
    moreover have "(2::int) ^ nat (min (n - 1) 30) \<le> 2 ^ 30" by (intro power_increasing) auto
    ultimately show False using assms(1) by (simp add: backoff_for_pos Let_def split: if_splits)
  qed
  moreover have "n \<le> 31 \<Longrightarrow> second * 2 ^ nat (n - 1) \<le> bmax \<Longrightarrow>
      backoff_for n bmax = second * 2 ^ nat (n - 1)"
    using assms(1) by (simp add: backoff_for_pos Let_def min_def)
  ultimately show ?thesis
    using backoff_for_le [OF assms(2)] backoff_for_mono [OF _ assms(2)] by blast
qed

theorem backoff_schedule_witness:
  "backoff_for 4 (60 * second) = 8 * second \<and> backoff_for 9 (60 * second) \<le> 60 * second"
  using backoff_schedule [of 4 "60 * second"] backoff_schedule [of 9 "60 * second"] by simp

section \<open>The entry invariant\<close>

text \<open>
  Executions with a clock that never runs backwards: each step lets \<open>d\<close> nanoseconds pass and then
  performs one operation.
\<close>

datatype throttle_act = ACheck string | AFail string | ASuccess string | ACleanup

fun act_at :: "throttle_act \<Rightarrow> time \<Rightarrow> throttle_op" where
  "act_at (ACheck u) n = TCheck u n"
| "act_at (AFail u) n = TFail u n"
| "act_at (ASuccess u) n = TSuccess u n"
| "act_at ACleanup n = TCleanup n"

fun throttle_tick :: "nat \<times> throttle_act \<Rightarrow> time \<times> account_throttler \<Rightarrow> time \<times> account_throttler" where
  "throttle_tick (d, a) (n, t) = (n + int d, throttle_step (act_at a (n + int d)) t)"

definition entry_ok :: "account_throttler \<Rightarrow> time \<Rightarrow> account_entry \<Rightarrow> bool" where
  "entry_ok t now e \<longleftrightarrow>
     1 \<le> failure_count e \<and> first_failure e \<le> last_failure e \<and> last_failure e \<le> now
     \<and> locked_until e = (if lockout_threshold t \<le> failure_count e
                         then last_failure e + lockout_duration t else 0)"

definition throttle_ok :: "time \<times> account_throttler \<Rightarrow> bool" where
  "throttle_ok s \<longleftrightarrow> (\<forall>k e. entries (snd s) k = Some e \<longrightarrow> entry_ok (snd s) (fst s) e)"

lemma throttle_step_policy [simp]:
  "window (throttle_step a t) = window t"
  "lockout_threshold (throttle_step a t) = lockout_threshold t"
  "lockout_duration (throttle_step a t) = lockout_duration t"
  "backoff_max (throttle_step a t) = backoff_max t"
  by (cases a; simp add: throttle_defs)+

lemma entry_ok_later: "entry_ok t n e \<Longrightarrow> n \<le> n' \<Longrightarrow> entry_ok t n' e"
  by (auto simp: entry_ok_def)

lemma throttle_step_entries:
  assumes ok: "\<And>e. entries t k = Some e \<Longrightarrow> entry_ok t (op_time a) e"
    and e: "entries (throttle_step a t) k = Some e"
  shows "entry_ok t (op_time a) e"
proof (cases a)
  case (TCheck u n)
  with ok e show ?thesis by simp
next
  case (TFail u n)
  show ?thesis
  proof (cases "k = normalise_username u \<and> k \<noteq> []")
    case True
    with TFail e ok show ?thesis
      by (auto simp: throttle_defs entry_ok_def split: if_splits option.splits)
  next
    case False
    with TFail e ok show ?thesis by (auto simp: throttle_defs split: if_splits)
  qed
next
  case (TSuccess u n)
  with ok e show ?thesis by (auto simp: throttle_defs split: if_splits)
next
  case (TCleanup n)
  with ok e show ?thesis by (auto simp: cleanup_def split: option.splits if_splits)
qed

lemma throttle_tick_ok: "throttle_ok s \<Longrightarrow> throttle_ok (throttle_tick x s)"
proof -
  assume ok: "throttle_ok s"
  obtain d a n t where x: "x = (d, a)" and s: "s = (n, t)" by (metis surj_pair)
  have time: "op_time (act_at a m) = m" for m by (cases a) auto
  have "entry_ok t (n + int d) e" if "entries t k = Some e" for k e
    using ok that entry_ok_later [of t n e "n + int d"] by (simp add: throttle_ok_def s)
  then have "entry_ok t (n + int d) e"
    if "entries (throttle_step (act_at a (n + int d)) t) k = Some e" for k e
    using throttle_step_entries [of t k "act_at a (n + int d)" e] that by (simp add: time)
  then show ?thesis by (simp add: throttle_ok_def x s entry_ok_def)
qed

interpretation throttle: invariant_machine throttle_tick throttle_ok
  by unfold_locales (rule throttle_tick_ok)

text \<open>in every reachable state of the throttler, whatever operations of whatever users ran, an
  account's entry counts at least one failure, its window anchor precedes its last failure, which is in
  the past, and the account is locked exactly when the count has reached the threshold, until the
  lockout duration after its last failure.\<close>

theorem throttle_reachable_entries:
  assumes "fold throttle_tick as (n0, new_account_throttler w soft lockout dur bmax) = (now, t)"
    and "entries t k = Some e"
  shows "1 \<le> failure_count e \<and> first_failure e \<le> last_failure e \<and> last_failure e \<le> now
    \<and> locked_until e = (if lockout \<le> failure_count e then last_failure e + dur else 0)"
proof -
  let ?s = "(n0, new_account_throttler w soft lockout dur bmax)"
  have policy: "lockout_threshold (snd (fold throttle_tick as s)) = lockout_threshold (snd s)
      \<and> lockout_duration (snd (fold throttle_tick as s)) = lockout_duration (snd s)" for s
    by (induction as arbitrary: s) (auto split: prod.splits)
  have "throttle_ok ?s" by (simp add: throttle_ok_def new_account_throttler_def)
  then have "throttle_ok (now, t)" using throttle.run_inv assms(1) by metis
  moreover have "lockout_threshold t = lockout \<and> lockout_duration t = dur"
    using policy [of ?s] assms(1) by (simp add: new_account_throttler_def)
  ultimately show ?thesis using assms(2) by (auto simp: throttle_ok_def entry_ok_def)
qed

theorem throttle_reachable_entries_witness:
  "\<exists>t e. fold throttle_tick [(5, AFail ''Bob''), (7, AFail '' bob'')]
         (100, new_account_throttler 900 1 2 50 60) = (112, t)
       \<and> entries t ''bob'' = Some e \<and> locked_until e = last_failure e + 50"
proof -
  have n: "normalise_username ''Bob'' = ''bob''" "normalise_username '' bob'' = ''bob''"
    by code_simp+
  obtain t e where t: "fold throttle_tick [(5, AFail ''Bob''), (7, AFail '' bob'')]
         (100, new_account_throttler 900 1 2 50 60) = (112, t)"
    and e: "entries t ''bob'' = Some e" and c: "failure_count e = 2"
    by (simp add: throttle_defs new_account_throttler_def n)
  show ?thesis using throttle_reachable_entries [OF t e] t e c by auto
qed

section \<open>Lockout within one window\<close>

text \<open>The failures of account \<open>k\<close> in a sequence of operations, and whether it logged in.\<close>

fun failures_of :: "string \<Rightarrow> throttle_op list \<Rightarrow> time list" where
  "failures_of k [] = []"
| "failures_of k (TFail u n # as) =
     (if normalise_username u = k then n # failures_of k as else failures_of k as)"
| "failures_of k (_ # as) = failures_of k as"

definition success_of :: "string \<Rightarrow> throttle_op \<Rightarrow> bool" where
  "success_of k a = (case a of TSuccess u n \<Rightarrow> normalise_username u = k | _ \<Rightarrow> False)"

text \<open>The abstract state of one account within one window: the list of its failure times.\<close>

definition window_entry :: "account_throttler \<Rightarrow> time list \<Rightarrow> account_entry option" where
  "window_entry t fs =
     (if fs = [] then None
      else Some \<lparr>failure_count = int (length fs), first_failure = hd fs, last_failure = last fs,
                 locked_until = (if lockout_threshold t \<le> int (length fs)
                                 then last fs + lockout_duration t else 0)\<rparr>)"

lemma failures_of_append: "failures_of k (as @ bs) = failures_of k as @ failures_of k bs"
  by (induction k as rule: failures_of.induct) auto

lemma failures_of_times: "n \<in> set (failures_of k as) \<Longrightarrow> \<exists>a \<in> set as. op_time a = n"
  by (induction k as rule: failures_of.induct) (auto split: if_splits)

lemma throttle_run_policy [simp]:
  "window (fold throttle_step as t) = window t"
  "lockout_threshold (fold throttle_step as t) = lockout_threshold t"
  "lockout_duration (fold throttle_step as t) = lockout_duration t"
  "backoff_max (fold throttle_step as t) = backoff_max t"
  by (induction as arbitrary: t) simp_all

lemma window_step:
  assumes k: "k \<noteq> []" and e: "entries t k = window_entry t fs"
    and fs: "\<forall>n \<in> set fs. t0 \<le> n" and a: "t0 \<le> op_time a" "op_time a \<le> t0 + window t"
    and ns: "\<not> success_of k a"
  shows "entries (throttle_step a t) k = window_entry t (fs @ failures_of k [a])"
proof (cases a)
  case (TFail u n)
  show ?thesis
  proof (cases "normalise_username u = k")
    case True
    have "\<not> n - hd fs > window t" if "fs \<noteq> []"
    proof -
      have "t0 \<le> hd fs" using fs hd_in_set [OF that] by blast
      with a TFail show ?thesis by simp
    qed
    with True k e TFail show ?thesis
      by (auto simp: throttle_defs window_entry_def hd_append)
  next
    case False
    with e TFail show ?thesis by (simp add: throttle_defs)
  qed
next
  case (TCleanup n)
  have "\<not> n - last fs > window t" if "fs \<noteq> []"
  proof -
    have "t0 \<le> last fs" using fs last_in_set [OF that] by blast
    with a TCleanup show ?thesis by simp
  qed
  with e TCleanup show ?thesis
    by (auto simp: throttle_defs window_entry_def)
next
  case (TSuccess u n)
  with e ns show ?thesis by (auto simp: throttle_defs success_of_def)
qed (use e in simp)

lemma window_run:
  assumes "k \<noteq> []" and "entries t k = None"
    and "\<forall>a \<in> set as. t0 \<le> op_time a \<and> op_time a \<le> t0 + window t \<and> \<not> success_of k a"
  shows "entries (fold throttle_step as t) k = window_entry t (failures_of k as)"
  using assms(3)
proof (induction as rule: rev_induct)
  case Nil
  then show ?case by (simp add: window_entry_def assms(2))
next
  case (snoc a as)
  let ?t = "fold throttle_step as t"
  have "entries ?t k = window_entry ?t (failures_of k as)"
    using snoc by (simp add: window_entry_def)
  then have "entries (throttle_step a ?t) k = window_entry ?t (failures_of k as @ failures_of k [a])"
    using snoc.prems failures_of_times [of _ k as]
    by (intro window_step [where ?t0.0 = t0] assms(1)) auto
  then show ?case by (simp add: failures_of_append window_entry_def)
qed

text \<open>C33: lockout.  Take an account with no recorded failures and any operations of any accounts within
  one window, none of them a success of this account.  At a later instant of that window the account is
  refused exactly when it has failed at least \<open>lockoutThreshold\<close> times and the lockout duration since
  its last failure has not passed; the reported count is the number of its failures.\<close>

theorem lockout_iff_threshold:
  assumes "normalise_username u = k" and "k \<noteq> []" and "entries t k = None" and "0 < t0"
    and "\<forall>a \<in> set as. t0 \<le> op_time a \<and> op_time a \<le> t0 + window t \<and> \<not> success_of k a"
    and "0 \<le> lockout_duration t" and "0 < lockout_threshold t" and "now \<le> t0 + window t"
  shows "(\<not> allowed (check (fold throttle_step as t) u now) \<longleftrightarrow>
            lockout_threshold t \<le> int (length (failures_of k as))
            \<and> now < last (failures_of k as) + lockout_duration t)
    \<and> res_failure_count (check (fold throttle_step as t) u now) = int (length (failures_of k as))"
proof -
  let ?fs = "failures_of k as"
  have e: "entries (fold throttle_step as t) k = window_entry t ?fs"
    using window_run [OF assms(2,3,5)] .
  show ?thesis
  proof (cases "?fs = []")
    case True
    with e assms(1,2,7) show ?thesis by (simp add: check_def window_entry_def clean_result_def)
  next
    case False
    have t0: "\<forall>n \<in> set ?fs. t0 \<le> n" using assms(5) failures_of_times [of _ k as] by auto
    have "t0 \<le> last ?fs" and "t0 \<le> hd ?fs"
      using t0 last_in_set [OF False] hd_in_set [OF False] by blast+
    then have l: "0 < last ?fs" and h: "\<not> now - hd ?fs > window t"
      using assms(4,8) by simp_all
    show ?thesis
      using e assms(1,2,6) False l h by (simp add: check_def window_entry_def)
  qed
qed

theorem lockout_iff_threshold_witness:
  "\<not> allowed (check (fold throttle_step [TFail ''eve'' 10, TFail ''bob'' 11, TFail ''eve'' 12]
        (new_account_throttler 900 1 2 50 60)) ''eve'' 40)"
proof -
  have n: "normalise_username ''eve'' = ''eve''" "normalise_username ''bob'' = ''bob''"
    by code_simp+
  show ?thesis
    using lockout_iff_threshold [of "''eve''" "''eve''" "new_account_throttler 900 1 2 50 60" 5
        "[TFail ''eve'' 10, TFail ''bob'' 11, TFail ''eve'' 12]" 40]
    by (simp add: n new_account_throttler_def success_of_def)
qed

section \<open>Cleanup and isolation\<close>

lemma bump_entry_cleanup:
  assumes "throttle_ok (n, t)" and "n \<le> m"
  shows "bump_entry t (entries (cleanup t n) k) m = bump_entry t (entries t k) m"
proof (cases "entries t k")
  case None
  then show ?thesis by (simp add: cleanup_def)
next
  case (Some e)
  with assms have "entry_ok t n e" by (simp add: throttle_ok_def)
  with Some assms(2) show ?thesis by (simp add: cleanup_def bump_entry_def stale_def entry_ok_def)
qed

text \<open>Cleanup is unobservable.  Dropping stale entries changes no later answer: from a reachable
  state, whatever is asked at any later time, Check and RecordFailure answer as if Cleanup had not run.\<close>

theorem cleanup_invisible:
  assumes "throttle_ok (n, t)" and "n \<le> m"
  shows "check (cleanup t n) u m = check t u m
    \<and> snd (record_failure (cleanup t n) u m) = snd (record_failure t u m)"
proof -
  have pol: "window (cleanup t n) = window t" "lockout_threshold (cleanup t n) = lockout_threshold t"
    "lockout_duration (cleanup t n) = lockout_duration t" "backoff_max (cleanup t n) = backoff_max t"
    by (simp_all add: cleanup_def)
  have b: "bump_entry (cleanup t n) e m = bump_entry t e m" for e
    by (simp add: bump_entry_def pol split: option.splits)
  have "check (cleanup t n) u m = check t u m"
  proof (cases "entries t (normalise_username u)")
    case None
    then show ?thesis by (simp add: check_def Let_def cleanup_def)
  next
    case (Some e)
    with assms(1) have "entry_ok t n e" by (simp add: throttle_ok_def)
    with Some assms(2) show ?thesis
      by (simp add: check_def Let_def cleanup_def stale_def entry_ok_def)
  qed
  moreover have "snd (record_failure (cleanup t n) u m) = snd (record_failure t u m)"
    by (simp add: record_failure_def Let_def b bump_entry_cleanup [OF assms] pol)
  ultimately show ?thesis by blast
qed

theorem cleanup_invisible_witness:
  "check (cleanup (new_account_throttler 900 1 2 50 60) 5) ''eve'' 7
     = check (new_account_throttler 900 1 2 50 60) ''eve'' 7"
proof -
  have "throttle_ok (5, new_account_throttler 900 1 2 50 60)"
    by (simp add: throttle_ok_def new_account_throttler_def)
  then show ?thesis using cleanup_invisible by simp
qed

text \<open>
  What the login handler relies on: an interface with a probe, a penalty and a pardon, whose laws say
  that a pardon admits its account and that neither touches the accounts of others.
\<close>

locale account_gate =
  fixes probe :: "'s \<Rightarrow> string \<Rightarrow> time \<Rightarrow> 'res"
    and punish :: "'s \<Rightarrow> string \<Rightarrow> time \<Rightarrow> 's"
    and forgive :: "'s \<Rightarrow> string \<Rightarrow> 's"
    and same :: "string \<Rightarrow> string \<Rightarrow> bool"
    and clean :: 'res
  assumes forgive_clean: "probe (forgive s u) u n = clean"
    and forgive_other: "\<not> same u v \<Longrightarrow> probe (forgive s u) v n = probe s v n"
    and punish_other: "\<not> same u v \<Longrightarrow> probe (punish s u m) v n = probe s v n"
begin

text \<open>A history of attempts: a failure at some time, or a success.\<close>

lemma others_invisible:
  "\<forall>a \<in> set as. \<not> same (fst a) v \<Longrightarrow>
   probe (fold (\<lambda>a s. case snd a of Some m \<Rightarrow> punish s (fst a) m | None \<Rightarrow> forgive s (fst a)) as s) v n
   = probe s v n"
  by (induction as arbitrary: s) (auto simp: forgive_other punish_other split: option.splits)

lemma clean_until_own_failure:
  "\<forall>a \<in> set as. \<not> same (fst a) v \<Longrightarrow>
   probe (fold (\<lambda>a s. case snd a of Some m \<Rightarrow> punish s (fst a) m | None \<Rightarrow> forgive s (fst a)) as
            (forgive s v)) v n = clean"
  by (simp add: others_invisible forgive_clean)

end

interpretation gate: account_gate check "\<lambda>t u n. fst (record_failure t u n)" record_success
    "\<lambda>u v. normalise_username u = normalise_username v" clean_result
  by unfold_locales (auto simp: throttle_defs split: option.splits)

text \<open>isolation and pardon.  After a successful login of an account, and whatever failures and
  successes other accounts then have, the account is admitted with no delay and a count of zero: nobody
  can lock out somebody else, and earlier typos are forgotten.\<close>

theorem success_clears_and_isolates:
  assumes "\<forall>a \<in> set as. normalise_username (fst a) \<noteq> normalise_username v"
  shows "check (fold (\<lambda>a s. case snd a of Some m \<Rightarrow> fst (record_failure s (fst a) m)
                                       | None \<Rightarrow> record_success s (fst a)) as
               (record_success t v)) v now = clean_result"
  by (rule gate.clean_until_own_failure) (use assms in simp)

theorem success_clears_and_isolates_witness:
  "check (fold (\<lambda>a s. case snd a of Some m \<Rightarrow> fst (record_failure s (fst a) m)
                                  | None \<Rightarrow> record_success s (fst a)) [(''eve'', Some 3), (''eve'', None)]
          (record_success (new_account_throttler 900 1 2 50 60) ''bob'')) ''bob'' 9 = clean_result"
proof -
  have "normalise_username ''eve'' \<noteq> normalise_username ''bob''" by code_simp
  then show ?thesis
    using success_clears_and_isolates [of "[(''eve'', Some 3), (''eve'', None)]" "''bob''"
        "new_account_throttler 900 1 2 50 60" 9] by simp
qed

text \<open>a failure recorded after the window of the first failure has elapsed replaces the entry, also
  while the account is locked: the lock vanishes and the next probe is admitted, although the lockout
  duration since the tripping failure has not passed.\<close>

theorem late_failure_clears_lock:
  assumes "entries t (normalise_username u) = Some e" and "normalise_username u \<noteq> []"
    and "now < locked_until e" and "0 < now" and "window t < now - first_failure e"
    and "1 < lockout_threshold t" and "0 \<le> window t"
  shows "\<not> allowed (check t u now) \<and> allowed (snd (record_failure t u now))
    \<and> allowed (check (fst (record_failure t u now)) u now)"
  using assms by (simp add: throttle_defs)

theorem late_failure_clears_lock_witness:
  "let t = fold throttle_step [TFail ''eve'' 10, TFail ''eve'' 900] (new_account_throttler 900 1 2 900 60)
   in \<not> allowed (check t ''eve'' 1000) \<and> allowed (check (fst (record_failure t ''eve'' 1000)) ''eve'' 1000)"
proof -
  have n: "normalise_username ''eve'' = ''eve''" by code_simp
  define t where "t = fold throttle_step [TFail ''eve'' 10, TFail ''eve'' 900]
    (new_account_throttler 900 1 2 900 60)"
  have e: "entries t (normalise_username ''eve'')
      = Some \<lparr>failure_count = 2, first_failure = 10, last_failure = 900, locked_until = 1800\<rparr>"
    by (simp add: t_def n throttle_defs new_account_throttler_def)
  have pol: "window t = 900" "lockout_threshold t = 2"
    by (simp_all only: t_def throttle_run_policy) (simp_all add: new_account_throttler_def)
  have "\<not> allowed (check t ''eve'' 1000) \<and> allowed (snd (record_failure t ''eve'' 1000))
    \<and> allowed (check (fst (record_failure t ''eve'' 1000)) ''eve'' 1000)"
    by (rule late_failure_clears_lock [OF e]) (simp_all add: n pol)
  then show ?thesis by (simp only: Let_def simp_thms t_def [symmetric])
qed

end
