(* ===== verification/AuditLog.thy ===== *)
theory AuditLog
  imports Prelude
begin

text \<open>
  The rows of \<open>audit_log\<close>, \<open>api/internal/store/types.go\<close>: who did what to which object, with which outcome.
  Of an event the model keeps everything but the three fields copied from the connection (IP, user agent,
  request id).
\<close>

datatype meta = MStr string | MInt int | MBool bool | MTime time

record audit_event =
  ev_action :: string
  ev_outcome :: string
  ev_actor :: "int option"
  ev_label :: string
  ev_target_type :: string
  ev_target :: string
  ev_meta :: "(string \<times> meta) list"

end
