(* ===== verification/Server.thy ===== *)
theory Server
  imports AuthMw Families Throttle AuditLog
begin

text \<open>
  What the handlers of \<open>api/internal/handlers\<close> share: the state they change, their collaborators and
  the helpers of \<open>audit.go\<close>, \<open>users.go\<close> and \<open>auth.go\<close> that read a request.

  \<open>srv\<close> is the mutable state: the tables, the account throttle, the account cache and the audit log.
  \<open>srv_env\<close> is what is fixed while the server runs: the configuration, the third-party functions (bcrypt,
  SHA-256, the token package) and which optional collaborators are wired.  \<open>ctx\<close> is one request: its
  cookies and headers, the claims the middleware left in its context, its clock, its random bytes and
  \<open>fails\<close>, which names the store calls that fail for it.  Of an audit event the model keeps everything but
  the three fields copied from the connection (IP, user agent, request id).
\<close>

section \<open>State\<close>

record srv =
  s_users :: user_db
  s_families :: "family list"
  s_keys :: key_db
  s_blacklist :: "bl_row list"
  s_throttle :: account_throttler
  s_cache :: active_cache
  s_audit :: "audit_event list"

record srv_env =
  v_security :: bool
  v_admin :: string
  v_admin_hash :: string
  v_viewer :: string
  v_viewer_hash :: string
  v_jwt :: jwt_config
  v_lib :: jwt_lib
  v_bcrypt :: "string \<Rightarrow> string \<Rightarrow> bool"
  v_hash :: "string \<Rightarrow> string option"
  v_sha256 :: "string \<Rightarrow> string"
  v_has_families :: bool
  v_has_users :: bool
  v_has_keys :: bool
  v_has_jwt :: bool
  v_has_cache :: bool
  v_has_audit :: bool
  v_has_throttle :: bool

record ctx =
  c_request :: request
  c_claims :: "claims option"
  c_now :: time
  c_rnd :: "string option list"
  c_fails :: "string \<Rightarrow> bool"

text \<open>The n-th random draw of a request.\<close>

definition rnd :: "ctx \<Rightarrow> nat \<Rightarrow> string option" where
  "rnd q n = (if n < length (c_rnd q) then c_rnd q ! n else None)"

section \<open>Replies\<close>

record 'b http_reply = "'b reply" +
  cookies :: "(string \<times> string) list"
  retry_after :: "int option"

abbreviation err :: "nat \<Rightarrow> string \<Rightarrow> 'b http_reply" where
  "err c m \<equiv> \<lparr>status = c, message = m, body = None, cookies = [], retry_after = None\<rparr>"

abbreviation ok :: "nat \<Rightarrow> string \<Rightarrow> 'b \<Rightarrow> 'b http_reply" where
  "ok c m b \<equiv> \<lparr>status = c, message = m, body = Some b, cookies = [], retry_after = None\<rparr>"

section \<open>Audit\<close>

text \<open>\<open>auditRecord\<close>: best effort, a failing insert loses the event.\<close>

definition audit_record :: "srv_env \<Rightarrow> ctx \<Rightarrow> audit_event \<Rightarrow> srv \<Rightarrow> srv" where
  "audit_record V q ev s =
     (if v_has_audit V \<and> \<not> c_fails q ''audit.Record'' then s\<lparr>s_audit := s_audit s @ [ev]\<rparr> else s)"

section \<open>Reading a request\<close>

definition extract_bearer_token :: "request \<Rightarrow> string" where
  "extract_bearer_token r =
     (case cut_prefix ''Bearer '' (rq_header r ''Authorization'') of Some t \<Rightarrow> t | None \<Rightarrow> [])"

definition extract_cookie_token :: "request \<Rightarrow> string \<Rightarrow> string" where
  "extract_cookie_token r name = (case rq_cookies r name of None \<Rightarrow> [] | Some v \<Rightarrow> v)"

definition claims_user_id :: "ctx \<Rightarrow> int option" where
  "claims_user_id q =
     (case c_claims q of
        None \<Rightarrow> None
      | Some cl \<Rightarrow> let sub = str_or_empty (claim_str ''sub'' cl) in
                   if sub = [] then None else parse_int sub)"

definition claims_subject :: "ctx \<Rightarrow> (string \<times> string) option" where
  "claims_subject q =
     (case c_claims q of
        None \<Rightarrow> None
      | Some cl \<Rightarrow> let sub = str_or_empty (claim_str ''sub'' cl) in
                   if sub = [] then None else Some (sub, str_or_empty (claim_str ''role'' cl)))"

text \<open>The actor fields most events carry.\<close>

definition actor_event :: "ctx \<Rightarrow> audit_event \<Rightarrow> audit_event" where
  "actor_event q ev =
     ev\<lparr>ev_actor := claims_user_id q,
        ev_label := (case claims_subject q of Some (sub, _) \<Rightarrow> sub | None \<Rightarrow> ev_label ev)\<rparr>"

text \<open>Validation of a presented token against the server's state.\<close>

definition srv_validate :: "srv_env \<Rightarrow> ctx \<Rightarrow> string \<Rightarrow> string \<Rightarrow> srv \<Rightarrow> jwt_error + claims" where
  "srv_validate V q tok ty s =
     validate_token (v_lib V) (v_jwt V) (c_fails q ''blacklist.IsBlacklisted'') (s_blacklist s) (c_now q) tok ty"

text \<open>\<open>blacklistAccessToken\<close>: the expiry of the entry is the token's own when it has one; \<open>wired\<close> is
  whether the caller has a token manager.\<close>

definition blacklist_access_token :: "srv_env \<Rightarrow> bool \<Rightarrow> ctx \<Rightarrow> string \<Rightarrow> string \<Rightarrow> duration \<Rightarrow> srv \<Rightarrow> srv" where
  "blacklist_access_token V wired q tok ty dflt s =
     (if \<not> wired \<or> tok = [] then s
      else case srv_validate V q tok ty s of
        Inl _ \<Rightarrow> s
      | Inr cl \<Rightarrow>
        (case claim_str ''jti'' cl of
           None \<Rightarrow> s
         | Some jti \<Rightarrow>
           (if jti = [] then s
            else let e = (case map_of cl ''exp'' of Some (CNum n) \<Rightarrow> of_unix n | _ \<Rightarrow> c_now q + dflt)
                 in s\<lparr>s_blacklist := add_to_blacklist (c_fails q ''blacklist.Add'') jti e (s_blacklist s)\<rparr>)))"

lemma audit_record_fields [simp]:
  "s_users (audit_record V q ev s) = s_users s" "s_families (audit_record V q ev s) = s_families s"
  "s_keys (audit_record V q ev s) = s_keys s" "s_blacklist (audit_record V q ev s) = s_blacklist s"
  "s_throttle (audit_record V q ev s) = s_throttle s" "s_cache (audit_record V q ev s) = s_cache s"
  by (simp_all add: audit_record_def)

lemma blacklist_access_token_fields [simp]:
  "s_users (blacklist_access_token V wired q tok ty d s) = s_users s"
  "s_families (blacklist_access_token V wired q tok ty d s) = s_families s"
  "s_keys (blacklist_access_token V wired q tok ty d s) = s_keys s"
  "s_throttle (blacklist_access_token V wired q tok ty d s) = s_throttle s"
  "s_cache (blacklist_access_token V wired q tok ty d s) = s_cache s"
  "s_audit (blacklist_access_token V wired q tok ty d s) = s_audit s"
  by (auto simp: blacklist_access_token_def Let_def split: sum.splits option.splits)

section \<open>A server for the witnesses\<close>

definition demo_V :: srv_env where
  "demo_V = \<lparr>v_security = True, v_admin = ''admin'', v_admin_hash = ''pw'', v_viewer = [], v_viewer_hash = [],
     v_jwt = demo_cfg, v_lib = demo_lib, v_bcrypt = (=), v_hash = Some, v_sha256 = id, v_has_families = True,
     v_has_users = True, v_has_keys = True, v_has_jwt = True, v_has_cache = True, v_has_audit = True,
     v_has_throttle = True\<rparr>"

definition demo_s :: srv where
  "demo_s = \<lparr>s_users = alice_db,
     s_families = [sample_family\<lparr>f_user := ''1'', f_current_jti := ''61''\<rparr>],
     s_keys = \<lparr>keys_of = [], next_key_id = 1, kd_refs = []\<rparr>, s_blacklist = [],
     s_throttle = new_account_throttler (15 * minute) 3 5 (15 * minute) (30 * second),
     s_cache = new_active_cache 0 0 [], s_audit = []\<rparr>"

lemma demo_V_simps [simp]:
  "v_security demo_V" "v_has_families demo_V" "v_has_users demo_V" "v_has_throttle demo_V"
  "v_lib demo_V = demo_lib" "v_jwt demo_V = demo_cfg" "v_admin demo_V = ''admin''" "v_admin_hash demo_V = ''pw''"
  "v_viewer demo_V = []" "v_bcrypt demo_V = (=)"
  by (simp_all add: demo_V_def)


end
