(* ===== verification/ProjectAccess.thy ===== *)
theory ProjectAccess
  imports Server
begin

text \<open>
  Which project a request names and whether its caller may touch it: \<open>handlers/project_id.go\<close>, the slug
  lookup of \<open>store/pg/project.go\<close> and the paging of \<open>handlers/pagination.go\<close>.

  Of a project the model has the columns that decide
  which project a path value means.
\<close>

section \<open>Allow-lists\<close>

definition claim_ids :: "string \<Rightarrow> claims \<Rightarrow> int list" where
  "claim_ids k cl = (case map_of cl k of Some (CIds ns) \<Rightarrow> ns | _ \<Rightarrow> [])"

definition api_key_project_allowed :: "claims option \<Rightarrow> int \<Rightarrow> bool" where
  "api_key_project_allowed cl i =
     (case cl of
        None \<Rightarrow> True
      | Some c \<Rightarrow> if str_or_empty (claim_str ''auth_type'' c) \<noteq> ''api_key'' then True
                  else let ids = claim_ids ''project_ids'' c in if ids = [] then True else i \<in> set ids)"

definition api_key_is_scoped :: "claims option \<Rightarrow> bool" where
  "api_key_is_scoped cl =
     (case cl of
        None \<Rightarrow> False
      | Some c \<Rightarrow> str_or_empty (claim_str ''auth_type'' c) = ''api_key'' \<and> claim_ids ''project_ids'' c \<noteq> [])"

section \<open>The project of a request\<close>

record project_row =
  pj_id :: int
  pj_slug :: string
  pj_parent :: "int option"

text \<open>\<open>GetProjectBySlugAny\<close>: a top-level project first, then the smallest id.\<close>

definition get_project_by_slug_any :: "string \<Rightarrow> ('a project_row_scheme) list \<Rightarrow> ('a project_row_scheme) option" where
  "get_project_by_slug_any s rows =
     (let ps = sort_key pj_id (filter (\<lambda>p. pj_slug p = s) rows)
      in case filter (\<lambda>p. pj_parent p = None) ps @ filter (\<lambda>p. pj_parent p \<noteq> None) ps of
           [] \<Rightarrow> None | p # _ \<Rightarrow> Some p)"

definition reserved_project_names :: "string list" where
  "reserved_project_names = [''login'', ''logout'', ''version'', ''config'', ''swagger'', ''.'', ''..'']"

definition bad_slug :: "string \<Rightarrow> bool" where
  "bad_slug s \<longleftrightarrow> CHR ''/'' \<in> set s \<or> CHR 0x5C \<in> set s \<or> contains s ''..''"

abbreviation reserved_text :: "string \<Rightarrow> string" where
  "reserved_text s \<equiv> ''project_id '' @ go_quote s @ '': project_id is reserved''"

definition extract_project_int_id :: "string \<Rightarrow> (nat \<times> string) + int" where
  "extract_project_int_id v =
     (if v = [] then Inl (400, ''project_id is required'')
      else case parse_int v of None \<Rightarrow> Inl (400, ''project_id must be a numeric ID'') | Some i \<Rightarrow> Inr i)"

definition guard_project :: "claims option \<Rightarrow> int \<Rightarrow> (nat \<times> string) + int" where
  "guard_project cl i = (if api_key_project_allowed cl i then Inr i
     else Inl (403, ''api key is not authorized for this project''))"

definition resolve_project_int_id ::
  "ctx \<Rightarrow> ('a project_row_scheme) list option \<Rightarrow> string \<Rightarrow> (nat \<times> string) + int" where
  "resolve_project_int_id q ps v =
     (if v = [] then Inl (400, ''project_id is required'')
      else case ps of
        None \<Rightarrow> (case extract_project_int_id v of Inl e \<Rightarrow> Inl e | Inr i \<Rightarrow> guard_project (c_claims q) i)
      | Some rows \<Rightarrow>
        (case parse_int v of
           Some i \<Rightarrow> guard_project (c_claims q) i
         | None \<Rightarrow>
             if bad_slug v then Inl (400, ''project_id contains invalid characters'')
             else if v \<in> set reserved_project_names then Inl (400, reserved_text v)
             else if c_fails q ''projects.GetProjectBySlugAny'' then Inl (500, ''error fetching project'')
             else case get_project_by_slug_any v rows of
               None \<Rightarrow> Inl (404, ''project not found'')
             | Some p \<Rightarrow> guard_project (c_claims q) (pj_id p)))"

text \<open>\<open>validateReportID\<close>; \<open>validateProjectID\<close>, whose last check is vacuous once the separators and dots
  are excluded: the joined path of a single plain name stays below its directory.\<close>

definition validate_report_id :: "string \<Rightarrow> string option" where
  "validate_report_id s =
     (if s = [] then Some ''report_id is required''
      else if s = ''latest'' then None
      else if list_all is_digit s then None
      else Some (''report_id must be '' @ apostrophe @ ''latest'' @ apostrophe @ '' or a positive integer''))"

section \<open>Paging\<close>

record page_params =
  pg_page :: int
  pg_per_page :: int

record page_meta = page_params +
  pm_total :: int
  pm_pages :: int

definition query_int :: "(string \<Rightarrow> string) \<Rightarrow> string \<Rightarrow> int \<Rightarrow> int" where
  "query_int query key fallback = (if query key = [] then fallback
     else case parse_int (query key) of None \<Rightarrow> fallback | Some n \<Rightarrow> n)"

definition parse_pagination :: "(string \<Rightarrow> string) \<Rightarrow> page_params" where
  "parse_pagination query =
     (let page = query_int query ''page'' 1; per = query_int query ''per_page'' 20
      in \<lparr>pg_page = (if page < 1 then 1 else page),
          pg_per_page = (if per < 1 then 20 else if 100 < per then 100 else per)\<rparr>)"

definition new_pagination_meta :: "int \<Rightarrow> int \<Rightarrow> int \<Rightarrow> page_meta" where
  "new_pagination_meta page per n = \<lparr>pg_page = page, pg_per_page = per, pm_total = n,
     pm_pages = (if 0 < per then (n + per - 1) div per else 0)\<rparr>"

text \<open>The offset of a page.\<close>

definition page_offset :: "int \<Rightarrow> int \<Rightarrow> int" where
  "page_offset page per = wrap64 (wrap64 (page - 1) * per)"

section \<open>Lemmas\<close>

lemma query_int_range: "in_int64 d \<Longrightarrow> in_int64 (query_int query key d)"
  by (auto simp: query_int_def dest: parse_int_in_int64 split: option.splits)

lemma parse_pagination_range:
  "1 \<le> pg_page (parse_pagination query)" "pg_page (parse_pagination query) < 2 ^ 63"
  "1 \<le> pg_per_page (parse_pagination query)" "pg_per_page (parse_pagination query) \<le> 100"
  using query_int_range [of 1 query "''page''"] by (auto simp: parse_pagination_def Let_def in_int64_def)

text \<open>The offset is the true one up to page 92233720368547759 at the most; far beyond, it wraps.\<close>

lemma page_offset_exact:
  assumes "1 \<le> page" and "page \<le> 92233720368547759" and "1 \<le> per" and "per \<le> 100"
  shows "page_offset page per = (page - 1) * per"
proof -
  have u: "(page - 1) * per \<le> 92233720368547758 * 100" using assms by (intro mult_mono) auto
  have l: "0 \<le> (page - 1) * per" using assms by (intro mult_nonneg_nonneg) auto
  have "in_int64 ((page - 1) * per)" using u l by (simp add: in_int64_def del: zero_le_mult_iff)
  moreover have "in_int64 (page - 1)" using assms by (simp add: in_int64_def)
  ultimately show ?thesis by (simp only: page_offset_def wrap64_id)
qed

lemma page_offset_negative: "page_offset 9223372036854775807 20 < 0"
  by (simp add: page_offset_def wrap64_def)

lemma new_pagination_meta_pages:
  assumes "1 \<le> per" and "0 \<le> n"
  shows "pm_pages (new_pagination_meta page per n) * per \<ge> n"
    and "(pm_pages (new_pagination_meta page per n) - 1) * per < n \<or> n = 0"
proof -
  obtain r where "(n + per - 1) div per * per = n + per - 1 - r" "0 \<le> r" "r < per"
    using assms minus_mod_eq_div_mult [of "n + per - 1" per] pos_mod_sign [of per "n + per - 1"]
      pos_mod_bound [of per "n + per - 1"] by (metis add_0 less_add_same_cancel1 less_le_trans zero_less_one)
  then show "pm_pages (new_pagination_meta page per n) * per \<ge> n"
    and "(pm_pages (new_pagination_meta page per n) - 1) * per < n \<or> n = 0"
    using assms by (simp_all add: new_pagination_meta_def left_diff_distrib)
qed

lemma guard_project_Inr: "guard_project cl i = Inr j \<longleftrightarrow> j = i \<and> api_key_project_allowed cl i"
  by (auto simp: guard_project_def)

text \<open>No request gets past the resolution of its project without the key's allow-list.\<close>

lemma resolved_allowed:
  "resolve_project_int_id q ps v = Inr i \<Longrightarrow> api_key_project_allowed (c_claims q) i"
  by (auto simp: resolve_project_int_id_def guard_project_Inr split: if_splits option.splits sum.splits)

lemma slug_any_slug: "get_project_by_slug_any s rows = Some p \<Longrightarrow> p \<in> set rows \<and> pj_slug p = s"
  unfolding get_project_by_slug_any_def Let_def
  by (drule arg_cong [where f = "\<lambda>o1. case o1 of None \<Rightarrow> True | Some x \<Rightarrow> x \<in> set rows \<and> pj_slug x = s"])
    (auto split: list.splits dest!: arg_cong [where f = set])

end
