(* ===== verification/Regex.thy ===== *)
theory Regex
  imports GoStrings
begin

text \<open>
  The part of Go's \<open>regexp\<close> package the source uses, on ASCII text: leftmost-first matching with
  greedy repetition, word boundaries and capture groups, \<open>FindStringSubmatch\<close>,
  \<open>FindAllStringSubmatch\<close> and \<open>ReplaceAllString(Func)\<close>.

  A matcher maps a position to the positions where a match can end, in the order of preference Go
  documents (the one a backtracking search would choose comes first).  A position is the text
  already read (reversed), the text to come, and the groups captured so far.  Patterns that can
  match the empty string are not scanned for: the source has none, and \<open>consuming\<close> says so.
\<close>

named_theorems rx_defs \<open>the patterns of the source, unfolded\<close>

type_synonym caps = "(nat \<times> string) list"
type_synonym pos = "string \<times> string \<times> caps"

datatype rx =
    Nothing
  | Cls bool "(nat \<times> nat) list"
  | Boundary
  | Start
  | Cat rx rx
  | Or rx rx
  | Rep nat "nat option" rx
  | Grp nat rx

definition in_cls :: "bool \<Rightarrow> (nat \<times> nat) list \<Rightarrow> char \<Rightarrow> bool" where
  "in_cls neg rs c \<longleftrightarrow> (list_ex (\<lambda>(a, b). a \<le> of_char c \<and> of_char c \<le> b) rs) \<noteq> neg"

definition word_char :: "char \<Rightarrow> bool" where
  "word_char c = in_cls False [(48, 57), (65, 90), (95, 95), (97, 122)] c"

definition at_boundary :: "string \<Rightarrow> string \<Rightarrow> bool" where
  "at_boundary pre s \<longleftrightarrow> (pre \<noteq> [] \<and> word_char (hd pre)) \<noteq> (s \<noteq> [] \<and> word_char (hd s))"

primrec iterate :: "nat \<Rightarrow> (pos \<Rightarrow> pos list) \<Rightarrow> pos \<Rightarrow> pos list" where
  "iterate 0 f p = [p]"
| "iterate (Suc n) f p = concat (map (iterate n f) (f p))"

text \<open>Up to \<open>n\<close> more rounds, as many as possible first; a round that reads nothing ends the loop.\<close>

definition remaining :: "pos \<Rightarrow> nat" where
  "remaining p = length (fst (snd p))"

primrec greedy :: "nat \<Rightarrow> (pos \<Rightarrow> pos list) \<Rightarrow> pos \<Rightarrow> pos list" where
  "greedy 0 f p = [p]"
| "greedy (Suc n) f p =
     concat (map (greedy n f) (filter (\<lambda>q. remaining q < remaining p) (f p))) @ [p]"

primrec ends :: "rx \<Rightarrow> pos \<Rightarrow> pos list" where
  "ends Nothing = (\<lambda>p. [p])"
| "ends (Cls neg rs) = (\<lambda>(pre, s, cs). case s of [] \<Rightarrow> []
     | c # t \<Rightarrow> if in_cls neg rs c then [(c # pre, t, cs)] else [])"
| "ends Boundary = (\<lambda>(pre, s, cs). if at_boundary pre s then [(pre, s, cs)] else [])"
| "ends Start = (\<lambda>(pre, s, cs). if pre = [] then [(pre, s, cs)] else [])"
| "ends (Cat a b) = (\<lambda>p. concat (map (ends b) (ends a p)))"
| "ends (Or a b) = (\<lambda>p. ends a p @ ends b p)"
| "ends (Rep m k r) = (\<lambda>p. concat (map
     (\<lambda>q. greedy (case k of None \<Rightarrow> remaining q | Some n \<Rightarrow> n - m) (ends r) q) (iterate m (ends r) p)))"
| "ends (Grp g r) = (\<lambda>p. map (\<lambda>(pre, s, cs).
     (pre, s, (g, take (remaining p - length s) (fst (snd p))) # cs)) (ends r p))"

text \<open>\<open>m[g]\<close> of a submatch: the empty string when the group took no part.\<close>

definition group :: "nat \<Rightarrow> caps \<Rightarrow> string" where
  "group g cs = (case map_of cs g of None \<Rightarrow> [] | Some s \<Rightarrow> s)"

text \<open>The text as the bytes between the matches and the matches, from left to right.\<close>

function scan :: "rx \<Rightarrow> string \<Rightarrow> string \<Rightarrow> (char + (string \<times> caps)) list" where
  "scan r pre s = (case s of [] \<Rightarrow> []
     | c # t \<Rightarrow> (case ends r (pre, s, []) of
         (pre', s', cs) # _ \<Rightarrow>
           if length s' < length s
           then Inr (take (length s - length s') s, cs) # scan r pre' s'
           else Inl c # scan r (c # pre) t
       | [] \<Rightarrow> Inl c # scan r (c # pre) t))"
  by pat_completeness auto
termination
  by (relation "measure (\<lambda>(r, pre, s). length s)") auto

declare scan.simps [simp del]

definition find_all :: "rx \<Rightarrow> string \<Rightarrow> (string \<times> caps) list" where
  "find_all r s = List.map_filter (\<lambda>x. case x of Inl c \<Rightarrow> None | Inr m \<Rightarrow> Some m) (scan r [] s)"

definition find_first :: "rx \<Rightarrow> string \<Rightarrow> (string \<times> caps) option" where
  "find_first r s = (case find_all r s of [] \<Rightarrow> None | m # _ \<Rightarrow> Some m)"

definition replace_all :: "rx \<Rightarrow> (string \<times> caps \<Rightarrow> string) \<Rightarrow> string \<Rightarrow> string" where
  "replace_all r f s = concat (map (\<lambda>x. case x of Inl c \<Rightarrow> [c] | Inr m \<Rightarrow> f m) (scan r [] s))"

section \<open>Building patterns\<close>

definition chr :: "char \<Rightarrow> rx" where
  "chr c = Cls False [(of_char c, of_char c)]"

definition lit :: "string \<Rightarrow> rx" where
  "lit s = foldr (\<lambda>c r. Cat (chr c) r) s Nothing"

text \<open>A lower-case literal under the flag \<open>(?i)\<close>.\<close>

definition chr_ci :: "char \<Rightarrow> rx" where
  "chr_ci c = (let n = of_char c in
     Cls False (if 97 \<le> n \<and> n \<le> 122 then [(n, n), (n - 32, n - 32)] else [(n, n)]))"

definition lit_ci :: "string \<Rightarrow> rx" where
  "lit_ci s = foldr (\<lambda>c r. Cat (chr_ci c) r) s Nothing"

fun alts :: "rx list \<Rightarrow> rx" where
  "alts [] = Nothing"
| "alts [r] = r"
| "alts (r # q # rs) = Or r (alts (q # rs))"

definition cats :: "rx list \<Rightarrow> rx" where
  "cats rs = foldr Cat rs Nothing"

abbreviation digit :: rx where
  "digit \<equiv> Cls False [(48, 57)]"

abbreviation hexdigit :: rx where
  "hexdigit \<equiv> Cls False [(48, 57), (97, 102), (65, 70)]"

abbreviation times :: "nat \<Rightarrow> rx \<Rightarrow> rx" where
  "times n r \<equiv> Rep n (Some n) r"

abbreviation plus :: "rx \<Rightarrow> rx" where
  "plus r \<equiv> Rep 1 None r"

abbreviation opt :: "rx \<Rightarrow> rx" where
  "opt r \<equiv> Rep 0 (Some 1) r"

declare lit_def [rx_defs] lit_ci_def [rx_defs] cats_def [rx_defs] chr_def [rx_defs] chr_ci_def [rx_defs]

section \<open>What a match reads\<close>

definition reads :: "pos \<Rightarrow> string \<Rightarrow> pos \<Rightarrow> bool" where
  "reads p u q \<longleftrightarrow> fst q = rev u @ fst p \<and> fst (snd p) = u @ fst (snd q)"

lemma reads_refl [simp]: "reads p [] p"
  by (simp add: reads_def)

lemma reads_trans: "reads p u q \<Longrightarrow> reads q v r \<Longrightarrow> reads p (u @ v) r"
  by (simp add: reads_def)

lemma iterate_reads:
  assumes "\<And>p q. q \<in> set (f p) \<Longrightarrow> \<exists>u. reads p u q" and "q \<in> set (iterate n f p)"
  shows "\<exists>u. reads p u q"
  using assms(2)
proof (induction n arbitrary: p)
  case 0
  then show ?case by (auto intro: exI [of _ "[]"])
next
  case (Suc n)
  then obtain t where t: "t \<in> set (f p)" "q \<in> set (iterate n f t)" by auto
  then obtain u v where "reads p u t" "reads t v q" using assms(1) Suc.IH by blast
  then show ?case by (blast intro: reads_trans)
qed

lemma greedy_reads:
  assumes "\<And>p q. q \<in> set (f p) \<Longrightarrow> \<exists>u. reads p u q" and "q \<in> set (greedy n f p)"
  shows "\<exists>u. reads p u q"
  using assms(2)
proof (induction n arbitrary: p)
  case 0
  then show ?case by (auto intro: exI [of _ "[]"])
next
  case (Suc n)
  consider "q = p" | t where "t \<in> set (f p)" "q \<in> set (greedy n f t)" using Suc.prems by auto
  then show ?case
  proof cases
    case 1
    then show ?thesis by (auto intro: exI [of _ "[]"])
  next
    case 2
    then obtain u v where "reads p u t" "reads t v q" using assms(1) Suc.IH by blast
    then show ?thesis by (blast intro: reads_trans)
  qed
qed

lemma ends_reads: "q \<in> set (ends r p) \<Longrightarrow> \<exists>u. reads p u q"
proof (induction r arbitrary: p q)
  case (Cls neg rs)
  obtain pre s cs where p: "p = (pre, s, cs)" by (cases p)
  then obtain c t where "s = c # t" "q = (c # pre, t, cs)"
    using Cls by (auto split: list.splits if_splits)
  with p have "reads p [c] q" by (simp add: reads_def)
  then show ?case ..
next
  case (Cat a b)
  then obtain t where "t \<in> set (ends a p)" "q \<in> set (ends b t)" by auto
  then show ?case using Cat.IH reads_trans by meson
next
  case (Rep m k r)
  then obtain t n where t: "t \<in> set (iterate m (ends r) p)" "q \<in> set (greedy n (ends r) t)" by auto
  then obtain u v where "reads p u t" "reads t v q"
    using iterate_reads [OF Rep.IH t(1)] greedy_reads [OF Rep.IH t(2)] by blast
  then show ?case by (blast intro: reads_trans)
next
  case (Grp g r)
  then obtain t where t: "t \<in> set (ends r p)" "fst q = fst t" "fst (snd q) = fst (snd t)"
    by (auto split: prod.splits)
  obtain u where "reads p u t" using Grp.IH t(1) by blast
  with t show ?case by (auto simp: reads_def)
qed (auto split: if_splits prod.splits intro: exI [of _ "[]"])

text \<open>A scan loses no text.\<close>

lemma scan_text: "concat (map (\<lambda>x. case x of Inl c \<Rightarrow> [c] | Inr (m, cs) \<Rightarrow> m) (scan r pre s)) = s"
proof (induction r pre s rule: scan.induct)
  case (1 r pre s)
  show ?case
  proof (cases s)
    case Nil
    then show ?thesis by (simp add: scan.simps)
  next
    case (Cons c t)
    show ?thesis
    proof (cases "ends r (pre, s, [])")
      case Nil
      with 1(1) [OF Cons Nil] Cons show ?thesis by (simp add: scan.simps [of r pre])
    next
      case E: (Cons q qs)
      obtain pre' s' cs where q: "q = (pre', s', cs)" by (cases q)
      then obtain u where "reads (pre, s, []) u (pre', s', cs)" using ends_reads [of q r "(pre, s, [])"] E by auto
      then have "s = u @ s'" by (simp add: reads_def)
      then have s: "take (length s - length s') s @ s' = s" by simp
      show ?thesis
      proof (cases "length s' < length s")
        case True
        with 1(2) [OF Cons E q [symmetric] refl] q E Cons s show ?thesis by (simp add: scan.simps [of r pre])
      next
        case False
        with 1(3) [OF Cons E q [symmetric] refl] q E Cons show ?thesis by (simp add: scan.simps [of r pre])
      qed
    qed
  qed
qed

text \<open>
  A class of characters one of which every match of a pattern must read.  Text without such a
  character is scanned without a match, so a replacement leaves it alone.
\<close>

primrec needs :: "(nat \<times> nat) list \<Rightarrow> rx \<Rightarrow> bool" where
  "needs P Nothing = False"
| "needs P (Cls neg rs) = (\<not> neg \<and> list_all (\<lambda>(a, b). list_ex (\<lambda>(c, d). c \<le> a \<and> b \<le> d) P) rs)"
| "needs P Boundary = False"
| "needs P Start = False"
| "needs P (Cat a b) = (needs P a \<or> needs P b)"
| "needs P (Or a b) = (needs P a \<and> needs P b)"
| "needs P (Rep m k r) = (0 < m \<and> needs P r)"
| "needs P (Grp g r) = needs P r"

lemma needs_end:
  assumes "needs P r" and "q \<in> set (ends r p)" and "reads p u q"
  shows "list_ex (in_cls False P) u"
  using assms
proof (induction r arbitrary: p q u)
  case (Cls neg rs)
  obtain pre s cs where p: "p = (pre, s, cs)" by (cases p)
  obtain c t where s: "s = c # t" and c: "in_cls neg rs c" and q: "q = (c # pre, t, cs)"
    using Cls.prems(2) p by (auto split: list.splits if_splits)
  have "u = [c]" using Cls.prems(3) p q s by (simp add: reads_def)
  moreover have "in_cls False P c"
  proof -
    from c Cls.prems(1) obtain a b where ab: "(a, b) \<in> set rs" "a \<le> of_char c" "of_char c \<le> b"
      by (auto simp: in_cls_def list_ex_iff)
    with Cls.prems(1) obtain a' b' where "(a', b') \<in> set P" "a' \<le> a" "b \<le> b'"
      by (fastforce simp: list_all_iff list_ex_iff)
    with ab have "list_ex (\<lambda>(a, b). a \<le> of_char c \<and> of_char c \<le> b) P"
      unfolding list_ex_iff by (intro bexI [of _ "(a', b')"]) auto
    then show ?thesis by (simp add: in_cls_def)
  qed
  ultimately show ?case by simp
next
  case (Cat a b)
  then obtain t where t: "t \<in> set (ends a p)" "q \<in> set (ends b t)" by auto
  obtain v w where vw: "reads p v t" "reads t w q" using ends_reads t by blast
  then have "u = v @ w" using Cat.prems(3) by (auto simp: reads_def)
  then show ?case using Cat.IH(1) [OF _ t(1) vw(1)] Cat.IH(2) [OF _ t(2) vw(2)] Cat.prems(1) by auto
next
  case (Rep m k r)
  then obtain n where m: "m = Suc n" by (auto simp: gr0_conv_Suc)
  obtain t l where t: "t \<in> set (iterate m (ends r) p)" "q \<in> set (greedy l (ends r) t)"
    using Rep.prems(2) by auto
  obtain x where x: "x \<in> set (ends r p)" "t \<in> set (iterate n (ends r) x)" using t(1) m by auto
  obtain v where v: "reads p v x" using ends_reads [OF x(1)] by blast
  obtain w where w: "reads x w t" using iterate_reads [OF _ x(2)] ends_reads by blast
  obtain z where z: "reads t z q" using greedy_reads [OF _ t(2)] ends_reads by blast
  from v w z have "u = v @ w @ z" using Rep.prems(3) by (auto simp: reads_def)
  then show ?case using Rep.IH [OF _ x(1) v] Rep.prems(1) by simp
next
  case (Grp g r)
  then obtain t where t: "t \<in> set (ends r p)" "fst q = fst t" "fst (snd q) = fst (snd t)"
    by (auto split: prod.splits)
  then have "reads p u t" using Grp.prems(3) by (simp add: reads_def)
  then show ?case using Grp t(1) by auto
qed auto

lemma scan_unmatched:
  assumes "needs P r" and "\<not> list_ex (in_cls False P) s"
  shows "scan r pre s = map Inl s"
  using assms(2)
proof (induction s arbitrary: pre)
  case Nil
  then show ?case by (simp add: scan.simps)
next
  case (Cons c t)
  have "q \<notin> set (ends r (pre, c # t, []))" for q
  proof
    assume q: "q \<in> set (ends r (pre, c # t, []))"
    then obtain u where u: "reads (pre, c # t, []) u q" using ends_reads by blast
    then have "c # t = u @ fst (snd q)" by (simp add: reads_def)
    moreover have "list_ex (in_cls False P) u" using needs_end [OF assms(1) q u] .
    ultimately have "list_ex (in_cls False P) (c # t)" by (metis list_ex_append)
    then show False using Cons.prems by blast
  qed
  then have "ends r (pre, c # t, []) = []" by (metis list.set_intros(1) neq_Nil_conv)
  with Cons show ?case by (simp add: scan.simps [of r pre])
qed

lemma replace_all_unmatched:
  assumes "needs P r" and "\<not> list_ex (in_cls False P) s"
  shows "replace_all r f s = s"
  by (simp add: replace_all_def scan_unmatched [OF assms] o_def)

lemma find_all_unmatched:
  assumes "needs P r" and "\<not> list_ex (in_cls False P) s"
  shows "find_all r s = []"
  unfolding find_all_def scan_unmatched [OF assms]
  by (induction s) (simp_all add: List.map_filter_def)

lemma replace_all_Nil [simp]: "replace_all r f [] = []"
  by (simp add: replace_all_def scan.simps)

end
