(* ===== verification/Fingerprint.thy ===== *)
theory Fingerprint
  imports Regex Codec
begin

text \<open>
  Failure fingerprints: \<open>runner/fingerprint.go\<close> and \<open>runner/cluster.go\<close>.

  The patterns are the source's, read on ASCII text (\<open>Regex\<close>); SHA-256 is the parameter \<open>sha\<close>.  The
  Go map that groups the results by hash is the list of its entries in the order they were made;
  nothing the source does with it depends on an order.
\<close>

section \<open>Normalising messages and traces\<close>

definition reIP :: rx where
  "reIP = cats [Boundary, Rep 1 (Some 3) digit, chr CHR ''.'', Rep 1 (Some 3) digit, chr CHR ''.'',
     Rep 1 (Some 3) digit, chr CHR ''.'', Rep 1 (Some 3) digit, Boundary]"

definition reUUID :: rx where
  "reUUID = cats [Boundary, times 8 hexdigit, chr CHR ''-'', times 4 hexdigit, chr CHR ''-'',
     times 4 hexdigit, chr CHR ''-'', times 4 hexdigit, chr CHR ''-'', times 12 hexdigit, Boundary]"

definition non_space :: rx where
  "non_space = Cls True [(9, 10), (12, 13), (32, 32)]"

definition reISO8601 :: rx where
  "reISO8601 = cats [Boundary, times 4 digit, chr CHR ''-'', times 2 digit, chr CHR ''-'', times 2 digit,
     chr CHR ''T'', times 2 digit, chr CHR '':'', times 2 digit, chr CHR '':'', times 2 digit,
     Rep 0 None non_space]"

definition reUnixTS :: rx where
  "reUnixTS = cats [Boundary, chr CHR ''1'', Rep 9 (Some 12) digit, Boundary]"

definition reHex :: rx where
  "reHex = cats [Boundary, lit ''0x'', Rep 6 None hexdigit, Boundary]"

definition path_char :: rx where
  "path_char = Cls False [(97, 122), (65, 90), (48, 57), (46, 46), (95, 95), (45, 45)]"

definition reAbsPath :: rx where
  "reAbsPath = cats [Rep 3 None (Cat (chr CHR ''/'') (plus path_char)), chr CHR ''/'', Grp 1 (plus path_char)]"

definition reLongDigit :: rx where
  "reLongDigit = cats [Boundary, Rep 5 None digit, Boundary]"

definition reLineCol :: rx where
  "reLineCol = cats [chr CHR '':'', Grp 1 (plus digit), chr CHR '':'', plus digit, Boundary]"

definition reLineNum :: rx where
  "reLineNum = cats [chr CHR '':'', Grp 1 (plus digit), Boundary]"

definition basename :: "string \<times> caps \<Rightarrow> string" where
  "basename m = (case find_first reAbsPath (fst m) of Some (_, cs) \<Rightarrow> group 1 cs | None \<Rightarrow> fst m)"

definition normalize_message :: "string \<Rightarrow> string" where
  "normalize_message msg =
     (if msg = [] then []
      else let m = replace_all reIP (\<lambda>_. ''<IP>'') msg;
               m = replace_all reUUID (\<lambda>_. ''<UUID>'') m;
               m = replace_all reISO8601 (\<lambda>_. ''<TIMESTAMP>'') m;
               m = replace_all reUnixTS (\<lambda>_. ''<TIMESTAMP>'') m;
               m = replace_all reHex (\<lambda>_. ''<HEX>'') m;
               m = replace_all reAbsPath basename m;
               m = replace_all reLongDigit (\<lambda>_. ''<ID>'') m
           in if 1000 < length m then take 1000 m else m)"

definition newline :: char where
  "newline = CHR 0x0A"

definition normalize_line :: "string \<Rightarrow> string" where
  "normalize_line line =
     (let l = replace_all reAbsPath basename line;
          l = replace_all reLineCol (\<lambda>_. '':<LINE>'') l
      in replace_all reLineNum (\<lambda>_. '':<LINE>'') l)"

definition normalize_trace :: "string \<Rightarrow> string" where
  "normalize_trace trace =
     (if trace = [] then []
      else let lines = split_on newline trace;
               lines = (if 5 < length lines then take 5 lines else lines)
           in join [newline] (map normalize_line lines))"

definition compute_fingerprint :: "(string \<Rightarrow> string) \<Rightarrow> string \<Rightarrow> string \<Rightarrow> string" where
  "compute_fingerprint sha msg trace = hex_encode (sha (msg @ [newline] @ trace))"

section \<open>Categories\<close>

text \<open>The trailing duration unit of \<open>re5xx\<close> and of triage's \<open>statusRe\<close>.\<close>

definition duration_units :: "string list" where
  "duration_units = [''ms'', ''msec'', ''msecs'', ''millis'', ''milliseconds'', ''s'', ''sec'', ''secs'',
     ''second'', ''seconds'', ''m'', ''min'', ''mins'', ''minute'', ''minutes'', ''h'', ''hr'', ''hrs'',
     ''hour'', ''hours'']"

definition space_char :: rx where
  "space_char = Cls False [(9, 10), (12, 13), (32, 32)]"

definition duration_suffix :: "(string \<Rightarrow> rx) \<Rightarrow> nat \<Rightarrow> rx" where
  "duration_suffix l g =
     opt (cats [opt space_char, Grp g (alts (map l duration_units)), Boundary])"

definition re5xx :: rx where
  "re5xx = cats [Boundary,
     alts [lit ''status'', lit ''http'', lit ''response'', lit ''responded'', lit ''returned'',
       Cat (lit ''code'') Boundary],
     Rep 0 (Some 40) (Cls True [(48, 57), (10, 10)]),
     Cls True [(48, 57), (65, 90), (97, 122), (47, 47), (10, 10)],
     chr CHR ''5'', digit, digit, Boundary,
     duration_suffix lit 1]"

definition matches5xx :: "string \<Rightarrow> bool" where
  "matches5xx s = list_ex (\<lambda>(m, cs). group 1 cs = []) (find_all re5xx s)"

definition infra_keywords :: "string list" where
  "infra_keywords = [''connection refused'', ''connection timed out'', ''connection reset'',
     ''dns resolution failed'', ''no such host'', ''out of memory'', ''oom killed'', ''disk full'',
     ''no space left on device'', ''permission denied'', ''socket hang up'', ''econnrefused'',
     ''etimedout'', ''database is locked'', ''too many connections'', ''certificate'', ''ssl'',
     ''tls handshake'']"

definition test_bug_keywords :: "string list" where
  "test_bug_keywords = [''setup failed'', ''teardown failed'', ''fixture'', ''before each'', ''after each'',
     ''beforeeach'', ''aftereach'', ''beforeall'', ''afterall'', ''@beforeclass'', ''@afterclass'',
     ''@beforemethod'', ''@aftermethod'', ''@beforesuite'', ''@aftersuite'', ''conftest'',
     ''setup_method'', ''teardown_method'', ''setup_class'', ''teardown_class'', ''nosuchelement'',
     ''stale element reference'', ''staleelementreference'', ''timeout waiting for'',
     ''wait_for_selector'', ''element not interactable'']"

definition product_bug_keywords :: "string list" where
  "product_bug_keywords = [''assertionerror'', ''assert'', ''expected'', ''to equal'', ''to be'',
     ''assertequal'', ''assertthat'', ''expect('', ''nullpointerexception'', ''typeerror: cannot read'',
     ''indexoutofboundsexception'', ''keyerror'', ''attributeerror'']"

definition categorize_error :: "string \<Rightarrow> string \<Rightarrow> string" where
  "categorize_error msg trace =
     (let combined = to_lower (msg @ '' '' @ trace)
      in if list_ex (contains combined) infra_keywords then ''infrastructure''
         else if list_ex (contains combined) test_bug_keywords then ''test_bug''
         else if list_ex (contains combined) product_bug_keywords then ''product_bug''
         else if matches5xx combined then ''infrastructure''
         else ''to_investigate'')"

section \<open>Grouping the failures of a build\<close>

record failed_test =
  ft_id :: int
  status_message :: string
  status_trace :: string

record fingerprint_result =
  fr_hash :: string
  fr_message :: string
  fr_trace :: string
  fr_category :: string
  fr_ids :: "int list"

definition first_line :: "string \<Rightarrow> string" where
  "first_line s = hd (split_on newline s)"

definition effective_message :: "failed_test \<Rightarrow> string" where
  "effective_message r =
     (let msg = status_message r;
          msg = (if msg = [] \<and> status_trace r \<noteq> [] then first_line (status_trace r) else msg)
      in if msg = [] then ''<no message>'' else msg)"

definition result_hash :: "(string \<Rightarrow> string) \<Rightarrow> failed_test \<Rightarrow> string" where
  "result_hash sha r = compute_fingerprint sha (normalize_message (effective_message r))
     (normalize_trace (status_trace r))"

definition new_fingerprint :: "(string \<Rightarrow> string) \<Rightarrow> failed_test \<Rightarrow> fingerprint_result" where
  "new_fingerprint sha r =
     (let norm_msg = normalize_message (effective_message r);
          norm_trace = normalize_trace (status_trace r)
      in \<lparr>fr_hash = compute_fingerprint sha norm_msg norm_trace, fr_message = norm_msg,
          fr_trace = norm_trace, fr_category = categorize_error (effective_message r) (status_trace r),
          fr_ids = []\<rparr>)"

fun add_result :: "(string \<Rightarrow> string) \<Rightarrow> failed_test \<Rightarrow> fingerprint_result list \<Rightarrow> fingerprint_result list" where
  "add_result sha r [] = [(new_fingerprint sha r)\<lparr>fr_ids := [ft_id r]\<rparr>]"
| "add_result sha r (g # gs) =
     (if fr_hash g = result_hash sha r then g\<lparr>fr_ids := fr_ids g @ [ft_id r]\<rparr> # gs
      else g # add_result sha r gs)"

definition compute_fingerprints :: "(string \<Rightarrow> string) \<Rightarrow> failed_test list \<Rightarrow> fingerprint_result list" where
  "compute_fingerprints sha rs = foldl (\<lambda>gs r. add_result sha r gs) [] rs"

section \<open>Cluster keys\<close>

definition no_message_key :: string where
  "no_message_key = ''(no error message)''"

definition cluster_key :: "(string \<Rightarrow> string) \<Rightarrow> string \<Rightarrow> string \<Rightarrow> string \<Rightarrow> string" where
  "cluster_key sha text phase last_step =
     (let msg = normalize_message (trim_space text);
          msg = (if trim_space msg = [] then no_message_key else msg)
      in take 16 (hex_encode (sha (msg @ [CHR 0x00] @ phase @ [CHR 0x00] @ last_step))))"

definition cluster_message :: "string \<Rightarrow> string \<Rightarrow> string" where
  "cluster_message step_message test_message =
     (let msg = (if step_message \<noteq> [] then step_message else test_message)
      in if 500 < length msg then take 500 msg else msg)"


section \<open>Grouping is grouping by hash\<close>

text \<open>
  The specification: the hashes in order of first appearance, each with the group of the results that
  have it, described by the first of them.
\<close>

definition distinct_in_order :: "'a list \<Rightarrow> 'a list" where
  "distinct_in_order xs = rev (remdups (rev xs))"

definition group_of :: "(string \<Rightarrow> string) \<Rightarrow> failed_test list \<Rightarrow> string \<Rightarrow> fingerprint_result" where
  "group_of sha rs h =
     (let sel = filter (\<lambda>r. result_hash sha r = h) rs
      in (new_fingerprint sha (hd sel))\<lparr>fr_ids := map ft_id sel\<rparr>)"

lemma distinct_in_order_snoc:
  "distinct_in_order (xs @ [x]) = (if x \<in> set xs then distinct_in_order xs else distinct_in_order xs @ [x])"
  by (simp add: distinct_in_order_def)

lemma set_distinct_in_order [simp]: "set (distinct_in_order xs) = set xs"
  by (simp add: distinct_in_order_def)

lemma distinct_distinct_in_order [simp]: "distinct (distinct_in_order xs)"
  by (simp add: distinct_in_order_def)

lemma new_fingerprint_hash [simp]: "fr_hash (new_fingerprint sha r) = result_hash sha r"
  by (simp add: new_fingerprint_def result_hash_def Let_def)

lemma group_of_hash [simp]:
  assumes "h \<in> set (map (result_hash sha) rs)"
  shows "fr_hash (group_of sha rs h) = h"
proof -
  obtain r where "r \<in> set rs" "result_hash sha r = h" using assms by auto
  then have "filter (\<lambda>r. result_hash sha r = h) rs \<noteq> []" by (auto simp: filter_empty_conv)
  then have "hd (filter (\<lambda>r. result_hash sha r = h) rs) \<in> set (filter (\<lambda>r. result_hash sha r = h) rs)"
    by (rule hd_in_set)
  then show ?thesis by (simp add: group_of_def Let_def)
qed

lemma group_of_snoc:
  assumes "h \<in> set (map (result_hash sha) rs)"
  shows "group_of sha (rs @ [r]) h =
    (if result_hash sha r = h then (group_of sha rs h)\<lparr>fr_ids := fr_ids (group_of sha rs h) @ [ft_id r]\<rparr>
     else group_of sha rs h)"
proof -
  have "filter (\<lambda>r. result_hash sha r = h) rs \<noteq> []" using assms by (auto simp: filter_empty_conv)
  then show ?thesis by (simp add: group_of_def Let_def hd_append)
qed

text \<open>Adding a result appends its id to the group of its hash, or a new group at the end.\<close>

lemma add_result_new:
  "result_hash sha r \<notin> fr_hash ` set gs
   \<Longrightarrow> add_result sha r gs = gs @ [(new_fingerprint sha r)\<lparr>fr_ids := [ft_id r]\<rparr>]"
  by (induction gs) auto

lemma add_result_old:
  "result_hash sha r \<in> fr_hash ` set gs \<Longrightarrow> distinct (map fr_hash gs)
   \<Longrightarrow> add_result sha r gs =
       map (\<lambda>g. if fr_hash g = result_hash sha r then g\<lparr>fr_ids := fr_ids g @ [ft_id r]\<rparr> else g) gs"
proof (induction gs)
  case Nil
  then show ?case by simp
next
  case (Cons g gs)
  show ?case
  proof (cases "fr_hash g = result_hash sha r")
    case True
    with Cons.prems(2) have "map (\<lambda>g. if fr_hash g = result_hash sha r
        then g\<lparr>fr_ids := fr_ids g @ [ft_id r]\<rparr> else g) gs = gs"
      by (intro map_idI) force
    with True show ?thesis by simp
  next
    case False
    with Cons show ?thesis by auto
  qed
qed

lemma compute_fingerprints_groups:
  "compute_fingerprints sha rs
   = map (group_of sha rs) (distinct_in_order (map (result_hash sha) rs))"
proof (induction rs rule: rev_induct)
  case Nil
  then show ?case by (simp add: compute_fingerprints_def distinct_in_order_def)
next
  case (snoc r rs)
  let ?hs = "distinct_in_order (map (result_hash sha) rs)"
  let ?gs = "map (group_of sha rs) ?hs"
  have hs: "map fr_hash ?gs = ?hs" unfolding list.map_comp by (rule map_idI) simp
  then have keys: "fr_hash ` set ?gs = result_hash sha ` set rs"
    by (metis list.set_map set_distinct_in_order)
  have step: "compute_fingerprints sha (rs @ [r]) = add_result sha r ?gs"
    using snoc.IH by (simp add: compute_fingerprints_def)
  show ?case
  proof (cases "result_hash sha r \<in> result_hash sha ` set rs")
    case True
    have "distinct (map fr_hash ?gs)" by (simp only: hs) simp
    with True keys have "add_result sha r ?gs =
        map (\<lambda>g. if fr_hash g = result_hash sha r then g\<lparr>fr_ids := fr_ids g @ [ft_id r]\<rparr> else g) ?gs"
      by (intro add_result_old) auto
    also have "\<dots> = map (group_of sha (rs @ [r])) ?hs"
      by (auto simp: group_of_snoc)
    finally show ?thesis using True step by (simp add: distinct_in_order_snoc)
  next
    case False
    then have "filter (\<lambda>x. result_hash sha x = result_hash sha r) rs = []"
      by (metis (mono_tags, lifting) filter_False imageI)
    then have new: "group_of sha (rs @ [r]) (result_hash sha r) = (new_fingerprint sha r)\<lparr>fr_ids := [ft_id r]\<rparr>"
      by (simp add: group_of_def)
    have old: "map (group_of sha (rs @ [r])) ?hs = ?gs"
      using False by (auto simp: group_of_snoc)
    show ?thesis
      using False keys step new old add_result_new [of sha r ?gs] by (simp add: distinct_in_order_snoc)
  qed
qed

text \<open>C33: \<open>ComputeFingerprintsForResults\<close> is a group-by: every distinct hash makes one group, in the order
  the hashes first appear, holding the ids of exactly the results with that hash in their order, and
  described (message, trace, category) by the first of them.\<close>

theorem fingerprints_group_by_hash:
  "compute_fingerprints sha rs
   = map (group_of sha rs) (distinct_in_order (map (result_hash sha) rs))"
  by (rule compute_fingerprints_groups)

lemma compute_fingerprints_hashes:
  "map fr_hash (compute_fingerprints sha rs) = distinct_in_order (map (result_hash sha) rs)"
  unfolding compute_fingerprints_groups list.map_comp by (rule map_idI) simp

lemma compute_fingerprints_ids:
  assumes "g \<in> set (compute_fingerprints sha rs)"
  shows "fr_ids g = map ft_id (filter (\<lambda>r. result_hash sha r = fr_hash g) rs)" and "fr_ids g \<noteq> []"
    and "\<exists>r \<in> set rs. fr_hash g = result_hash sha r \<and> fr_message g = normalize_message (effective_message r)
      \<and> fr_trace g = normalize_trace (status_trace r)"
proof -
  obtain h where h: "h \<in> set (map (result_hash sha) rs)" and g: "g = group_of sha rs h"
    using assms by (auto simp: compute_fingerprints_groups)
  have gh: "fr_hash g = h" using h g by simp
  show ids: "fr_ids g = map ft_id (filter (\<lambda>r. result_hash sha r = fr_hash g) rs)"
    unfolding gh by (simp add: g group_of_def Let_def)
  obtain r where r: "r \<in> set rs" "result_hash sha r = h" using h by auto
  then have ne: "filter (\<lambda>r. result_hash sha r = h) rs \<noteq> []" by (auto simp: filter_empty_conv)
  then show "fr_ids g \<noteq> []" using ids gh by simp
  have "hd (filter (\<lambda>r. result_hash sha r = h) rs) \<in> set (filter (\<lambda>r. result_hash sha r = h) rs)"
    using ne by (rule hd_in_set)
  then show "\<exists>r \<in> set rs. fr_hash g = result_hash sha r \<and> fr_message g = normalize_message (effective_message r)
      \<and> fr_trace g = normalize_trace (status_trace r)"
    by (intro bexI [of _ "hd (filter (\<lambda>r. result_hash sha r = h) rs)"])
      (auto simp: g group_of_def Let_def new_fingerprint_def gh result_hash_def)
qed

section \<open>Text that is only cut\<close>

text \<open>Every pattern of \<open>NormalizeMessage\<close> reads a digit, a slash or a dash.\<close>

definition dynamic_char :: "(nat \<times> nat) list" where
  "dynamic_char = [(45, 45), (47, 57)]"

lemma needs_patterns:
  "needs dynamic_char reIP" "needs dynamic_char reUUID" "needs dynamic_char reISO8601"
  "needs dynamic_char reUnixTS" "needs dynamic_char reHex" "needs dynamic_char reAbsPath"
  "needs dynamic_char reLongDigit"
  by code_simp+

lemma normalize_static:
  assumes "\<not> list_ex (in_cls False dynamic_char) msg"
  shows "normalize_message msg = take 1000 msg"
  by (simp add: normalize_message_def Let_def replace_all_unmatched [OF needs_patterns(1) assms]
      replace_all_unmatched [OF needs_patterns(2) assms] replace_all_unmatched [OF needs_patterns(3) assms]
      replace_all_unmatched [OF needs_patterns(4) assms] replace_all_unmatched [OF needs_patterns(5) assms]
      replace_all_unmatched [OF needs_patterns(6) assms] replace_all_unmatched [OF needs_patterns(7) assms])

lemma normalize_length: "length (normalize_message msg) \<le> 1000"
  by (simp add: normalize_message_def Let_def)

text \<open>UTF-8 as PostgreSQL checks it (RFC 3629): no overlong form, no surrogate, nothing past U+10FFFF.\<close>

definition cont_byte :: "char \<Rightarrow> bool" where
  "cont_byte c \<longleftrightarrow> 128 \<le> (of_char c :: nat) \<and> (of_char c :: nat) \<le> 191"

fun valid_utf8 :: "string \<Rightarrow> bool" where
  "valid_utf8 [] = True"
| "valid_utf8 (c # s) = (let n = (of_char c :: nat) in
     if n \<le> 127 then valid_utf8 s
     else if 194 \<le> n \<and> n \<le> 223 then (case s of d # t \<Rightarrow> cont_byte d \<and> valid_utf8 t | _ \<Rightarrow> False)
     else if 224 \<le> n \<and> n \<le> 239 then
       (case s of d # e # t \<Rightarrow> cont_byte d \<and> cont_byte e \<and> (n = 224 \<longrightarrow> 160 \<le> (of_char d :: nat))
          \<and> (n = 237 \<longrightarrow> (of_char d :: nat) \<le> 159) \<and> valid_utf8 t | _ \<Rightarrow> False)
     else if 240 \<le> n \<and> n \<le> 244 then
       (case s of d # e # f # t \<Rightarrow> cont_byte d \<and> cont_byte e \<and> cont_byte f
          \<and> (n = 240 \<longrightarrow> 144 \<le> (of_char d :: nat)) \<and> (n = 244 \<longrightarrow> (of_char d :: nat) \<le> 143) \<and> valid_utf8 t
        | _ \<Rightarrow> False)
     else False)"

lemma valid_utf8_ascii: "list_all (\<lambda>c. (of_char c :: nat) \<le> 127) s \<Longrightarrow> valid_utf8 (s @ t) = valid_utf8 t"
  by (induction s) simp_all

end
