(* ===== verification/Defects.thy ===== *)
theory Defects
  imports Fingerprint
begin

text \<open>
  The defect tables and what ingestion does to them: \<open>store/pg/defect.go\<close> (the statements), and
  \<open>computeDefectFingerprints\<close> of \<open>runner/allure.go\<close> (the same code is in \<open>runner/playwright.go\<close>).

  A UUID is a number drawn in turn (\<open>next_defect\<close>).  The constraints modelled are those a statement
  of this file can violate: the foreign keys to projects and builds, the unique index on
  \<open>(project_id, fingerprint_hash)\<close>, which is the conflict target, and PostgreSQL's check that text is
  UTF-8 without a zero byte.  The \<open>INT\<close> counters are unbounded here.  The order of the groups, which
  Go draws from a map, only decides which UUID a new row gets.
\<close>

section \<open>State\<close>

record defect =
  d_id :: nat
  d_project :: int
  d_hash :: string
  d_message :: string
  d_trace :: string
  d_category :: string
  d_resolution :: string
  d_known_issue :: "int option"
  d_first :: int
  d_last :: int
  d_count :: int
  d_clean :: int
  d_created :: time
  d_updated :: time

record occurrence =
  oc_defect :: nat
  oc_build :: int
  oc_tests :: int
  oc_regression :: bool

record test_row =
  tr_id :: int
  tr_build :: int
  tr_project :: int
  tr_status :: string
  tr_message :: string
  tr_trace :: string
  tr_defect :: "nat option"

record build_row =
  b_id :: int
  b_project :: int
  b_order :: int
  b_created :: time

record defect_db =
  defects :: "defect list"
  occurrences :: "occurrence list"
  results :: "test_row list"
  builds :: "build_row list"
  projects :: "(int \<times> string) list"
  next_defect :: nat

abbreviation d_key :: "defect \<Rightarrow> int \<times> string" where
  "d_key d \<equiv> (d_project d, d_hash d)"

abbreviation oc_key :: "occurrence \<Rightarrow> nat \<times> int" where
  "oc_key r \<equiv> (oc_defect r, oc_build r)"

definition valid_text :: "string \<Rightarrow> bool" where
  "valid_text s \<longleftrightarrow> valid_utf8 s \<and> CHR 0x00 \<notin> set s"

section \<open>Statements\<close>

text \<open>\<open>UpsertFingerprints\<close>: one statement per fingerprint, in a transaction.\<close>

definition new_defect :: "time \<Rightarrow> int \<Rightarrow> int \<Rightarrow> fingerprint_result \<Rightarrow> nat \<Rightarrow> defect" where
  "new_defect now pid bid g n =
     \<lparr>d_id = n, d_project = pid, d_hash = fr_hash g, d_message = fr_message g, d_trace = fr_trace g,
      d_category = fr_category g, d_resolution = ''open'', d_known_issue = None, d_first = bid, d_last = bid,
      d_count = int (length (fr_ids g)), d_clean = 0, d_created = now, d_updated = now\<rparr>"

definition seen_again :: "time \<Rightarrow> int \<Rightarrow> fingerprint_result \<Rightarrow> defect \<Rightarrow> defect" where
  "seen_again now bid g d = d\<lparr>d_last := bid, d_count := d_count d + int (length (fr_ids g)), d_clean := 0,
     d_resolution := (if d_resolution d = ''fixed'' then ''open'' else d_resolution d), d_updated := now\<rparr>"

definition get_by_hash :: "int \<Rightarrow> string \<Rightarrow> defect_db \<Rightarrow> defect option" where
  "get_by_hash pid h db = tbl_find (\<lambda>d. d_key d = (pid, h)) (defects db)"

definition get_by_id :: "nat \<Rightarrow> defect_db \<Rightarrow> defect option" where
  "get_by_id k db = tbl_find (\<lambda>d. d_id d = k) (defects db)"

definition upsert_one :: "time \<Rightarrow> int \<Rightarrow> int \<Rightarrow> fingerprint_result \<Rightarrow> defect_db \<Rightarrow> string + defect_db" where
  "upsert_one now pid bid g db =
     (if \<not> valid_text (fr_message g) \<or> \<not> valid_text (fr_trace g)
      then Inl ''invalid byte sequence for encoding UTF8''
      else if bid \<notin> b_id ` set (builds db) then Inl ''violates foreign key constraint''
      else case get_by_hash pid (fr_hash g) db of
        Some d \<Rightarrow> Inr (db\<lparr>defects := tbl_update (\<lambda>d. d_key d = (pid, fr_hash g)) (seen_again now bid g) (defects db)\<rparr>)
      | None \<Rightarrow> if pid \<notin> fst ` set (projects db) then Inl ''violates foreign key constraint''
          else Inr (db\<lparr>defects := defects db @ [new_defect now pid bid g (next_defect db)],
                       next_defect := Suc (next_defect db)\<rparr>))"

fun upsert_all :: "time \<Rightarrow> int \<Rightarrow> int \<Rightarrow> fingerprint_result list \<Rightarrow> defect_db \<Rightarrow> string + defect_db" where
  "upsert_all now pid bid [] db = Inr db"
| "upsert_all now pid bid (g # gs) db = (case upsert_one now pid bid g db of
     Inl e \<Rightarrow> Inl e | Inr db' \<Rightarrow> upsert_all now pid bid gs db')"

definition upsert_fingerprints ::
  "time \<Rightarrow> int \<Rightarrow> int \<Rightarrow> fingerprint_result list \<Rightarrow> defect_db \<Rightarrow> string option \<times> defect_db" where
  "upsert_fingerprints now pid bid gs db =
     (if gs = [] then (None, db)
      else case upsert_all now pid bid gs db of Inl e \<Rightarrow> (Some e, db) | Inr db' \<Rightarrow> (None, db'))"

definition link_test_results :: "nat \<Rightarrow> int \<Rightarrow> int list \<Rightarrow> defect_db \<Rightarrow> defect_db" where
  "link_test_results k bid ids db =
     (if ids = [] then db
      else let oc = occurrences db; n = int (length ids) in
        db\<lparr>results := tbl_update (\<lambda>r. tr_id r \<in> set ids) (\<lambda>r. r\<lparr>tr_defect := Some k\<rparr>) (results db),
           occurrences := (if tbl_count (\<lambda>r. oc_key r = (k, bid)) oc = 0
              then oc @ [\<lparr>oc_defect = k, oc_build = bid, oc_tests = n, oc_regression = False\<rparr>]
              else tbl_update (\<lambda>r. oc_key r = (k, bid)) (\<lambda>r. r\<lparr>oc_tests := n\<rparr>) oc)\<rparr>)"

definition seen_in :: "int \<Rightarrow> defect_db \<Rightarrow> nat \<Rightarrow> bool" where
  "seen_in bid db k = list_ex (\<lambda>r. oc_key r = (k, bid)) (occurrences db)"

definition update_clean_build_counts :: "time \<Rightarrow> int \<Rightarrow> int \<Rightarrow> defect_db \<Rightarrow> defect_db" where
  "update_clean_build_counts now pid bid db = db\<lparr>defects :=
     tbl_update (\<lambda>d. d_project d = pid \<and> d_resolution d = ''open'' \<and> \<not> seen_in bid db (d_id d))
       (\<lambda>d. d\<lparr>d_clean := d_clean d + 1, d_updated := now\<rparr>) (defects db)\<rparr>"

definition auto_resolve_fixed :: "time \<Rightarrow> int \<Rightarrow> int \<Rightarrow> defect_db \<Rightarrow> nat \<times> defect_db" where
  "auto_resolve_fixed now pid threshold db =
     (let p = (\<lambda>d. d_project d = pid \<and> d_resolution d = ''open'' \<and> threshold \<le> d_clean d)
      in (tbl_count p (defects db),
          db\<lparr>defects := tbl_update p (\<lambda>d. d\<lparr>d_resolution := ''fixed'', d_updated := now\<rparr>) (defects db)\<rparr>))"

text \<open>\<open>DetectRegressions\<close>: without a preceding build, nothing was seen there.\<close>

definition prev_build :: "int \<Rightarrow> int \<Rightarrow> defect_db \<Rightarrow> int option" where
  "prev_build pid bid db =
     (case filter (\<lambda>b. b_project b = pid \<and> b_id b < bid) (builds db) of [] \<Rightarrow> None
      | bs \<Rightarrow> Some (b_id (last (sort_key b_order bs))))"

definition detect_regressions :: "int \<Rightarrow> int \<Rightarrow> defect_db \<Rightarrow> nat list" where
  "detect_regressions pid bid db =
     map d_id (filter (\<lambda>d. d_project d = pid \<and> seen_in bid db (d_id d) \<and> d_first d \<noteq> bid
       \<and> \<not> (case prev_build pid bid db of None \<Rightarrow> False | Some p \<Rightarrow> seen_in p db (d_id d))) (defects db))"

definition mark_regressions :: "int \<Rightarrow> nat list \<Rightarrow> defect_db \<Rightarrow> defect_db" where
  "mark_regressions bid ks db =
     (if ks = [] then db
      else db\<lparr>occurrences := tbl_update (\<lambda>r. oc_build r = bid \<and> oc_defect r \<in> set ks)
        (\<lambda>r. r\<lparr>oc_regression := True\<rparr>) (occurrences db)\<rparr>)"

section \<open>Ingestion\<close>

definition list_failed :: "int \<Rightarrow> int \<Rightarrow> defect_db \<Rightarrow> failed_test list" where
  "list_failed pid bid db =
     map (\<lambda>r. \<lparr>ft_id = tr_id r, status_message = tr_message r, status_trace = tr_trace r\<rparr>)
       (sort_key tr_id (filter (\<lambda>r. tr_build r = bid \<and> tr_project r = pid
          \<and> tr_status r \<in> {''failed'', ''broken''}) (results db)))"

definition link_group :: "int \<Rightarrow> int \<Rightarrow> fingerprint_result \<Rightarrow> defect_db \<Rightarrow> defect_db" where
  "link_group pid bid g db = (case get_by_hash pid (fr_hash g) db of None \<Rightarrow> db
     | Some d \<Rightarrow> link_test_results (d_id d) bid (fr_ids g) db)"

definition count_and_resolve :: "time \<Rightarrow> int \<Rightarrow> int \<Rightarrow> defect_db \<Rightarrow> defect_db" where
  "count_and_resolve now pid bid db = snd (auto_resolve_fixed now pid 3 (update_clean_build_counts now pid bid db))"

definition compute_defect_fingerprints ::
  "(string \<Rightarrow> string) \<Rightarrow> time \<Rightarrow> int \<Rightarrow> int \<Rightarrow> defect_db \<Rightarrow> string option \<times> defect_db" where
  "compute_defect_fingerprints sha now pid bid db =
     (let failed = list_failed pid bid db
      in if failed = [] then (None, count_and_resolve now pid bid db)
         else let gs = compute_fingerprints sha failed
           in case upsert_fingerprints now pid bid gs db of
             (Some e, db') \<Rightarrow> (Some e, db')
           | (None, db') \<Rightarrow>
               let db' = fold (link_group pid bid) gs db';
                   db' = count_and_resolve now pid bid db'
               in (None, mark_regressions bid (detect_regressions pid bid db') db'))"

text \<open>\<open>backfillFingerprints\<close> of \<open>cmd/backfill\<close>, for one project: every build with failures, newest first.\<close>

definition list_builds :: "int \<Rightarrow> defect_db \<Rightarrow> build_row list" where
  "list_builds pid db = rev (sort_key b_order (filter (\<lambda>b. b_project b = pid) (builds db)))"

definition backfill_project :: "(string \<Rightarrow> string) \<Rightarrow> time \<Rightarrow> int \<Rightarrow> int \<Rightarrow> defect_db \<Rightarrow> defect_db" where
  "backfill_project sha now since pid db =
     fold (\<lambda>b db. if 0 < since \<and> b_id b < since then db
        else if list_failed pid (b_id b) db = [] then db
        else snd (compute_defect_fingerprints sha now pid (b_id b) db)) (list_builds pid db) db"

section \<open>Classification by users\<close>

text \<open>\<open>UpdateDefect\<close> and \<open>BulkUpdate\<close>: fields that are given are set; a known issue of 0 clears the link.\<close>

definition set_fields :: "time \<Rightarrow> string option \<Rightarrow> string option \<Rightarrow> defect \<Rightarrow> defect" where
  "set_fields now cat res d =
     d\<lparr>d_updated := now, d_category := (case cat of None \<Rightarrow> d_category d | Some c \<Rightarrow> c),
       d_resolution := (case res of None \<Rightarrow> d_resolution d | Some r \<Rightarrow> r)\<rparr>"

definition set_issue :: "int option \<Rightarrow> defect \<Rightarrow> defect" where
  "set_issue ki d = (case ki of None \<Rightarrow> d
     | Some k \<Rightarrow> d\<lparr>d_known_issue := (if k = 0 then None else Some k)\<rparr>)"

definition update_defect ::
  "int set \<Rightarrow> time \<Rightarrow> nat \<Rightarrow> string option \<Rightarrow> string option \<Rightarrow> int option \<Rightarrow> defect_db \<Rightarrow> string option \<times> defect_db" where
  "update_defect issues now k cat res ki db =
     (if tbl_count (\<lambda>d. d_id d = k) (defects db) = 0 then (Some ''defect not found'', db)
      else if (case ki of Some i \<Rightarrow> i \<noteq> 0 \<and> i \<notin> issues | None \<Rightarrow> False)
      then (Some ''violates foreign key constraint'', db)
      else (None, db\<lparr>defects := tbl_update (\<lambda>d. d_id d = k) (\<lambda>d. set_issue ki (set_fields now cat res d)) (defects db)\<rparr>))"

definition bulk_update :: "time \<Rightarrow> nat list \<Rightarrow> string option \<Rightarrow> string option \<Rightarrow> defect_db \<Rightarrow> defect_db" where
  "bulk_update now ks cat res db =
     (if ks = [] then db
      else db\<lparr>defects := tbl_update (\<lambda>d. d_id d \<in> set ks) (set_fields now cat res) (defects db)\<rparr>)"


section \<open>Integrity of the tables\<close>

definition defects_ok :: "defect_db \<Rightarrow> bool" where
  "defects_ok db \<longleftrightarrow> distinct (map d_key (defects db)) \<and> distinct (map d_id (defects db))
     \<and> (\<forall>d \<in> set (defects db). d_id d < next_defect db)
     \<and> (\<forall>r \<in> set (occurrences db). oc_defect r \<in> d_id ` set (defects db))"

lemma seen_again_keys [simp]:
  "d_project (seen_again now bid g d) = d_project d" "d_hash (seen_again now bid g d) = d_hash d"
  "d_id (seen_again now bid g d) = d_id d" "d_category (seen_again now bid g d) = d_category d"
  "d_known_issue (seen_again now bid g d) = d_known_issue d"
  by (simp_all add: seen_again_def)

lemma new_defect_keys [simp]:
  "d_project (new_defect now pid bid g n) = pid" "d_hash (new_defect now pid bid g n) = fr_hash g"
  "d_id (new_defect now pid bid g n) = n"
  by (simp_all add: new_defect_def)

lemma get_by_hash_key: "get_by_hash pid h db = Some d \<Longrightarrow> d_project d = pid \<and> d_hash d = h \<and> d \<in> set (defects db)"
  by (auto simp: get_by_hash_def dest: tbl_find_Some)

lemma get_by_hash_None: "get_by_hash pid h db = None \<longleftrightarrow> (pid, h) \<notin> d_key ` set (defects db)"
  by (auto simp: get_by_hash_def tbl_simps)

lemma get_by_hash_member:
  assumes "defects_ok db" and "d \<in> set (defects db)"
  shows "get_by_hash (d_project d) (d_hash d) db = Some d"
proof -
  have "tbl_find (\<lambda>x. d_key x = d_key d) (defects db) = Some d"
    using assms by (intro tbl_find_distinct) (simp add: defects_ok_def)
  then show ?thesis by (simp add: get_by_hash_def)
qed

lemma same_id:
  assumes "defects_ok db" and "d \<in> set (defects db)" and "e \<in> set (defects db)" and "d_id d = d_id e"
  shows "d = e"
  using assms by (auto simp: defects_ok_def distinct_map inj_on_def)

section \<open>What each statement does\<close>

text \<open>An update that keeps keys and ids keeps the integrity of the tables.\<close>

lemma ok_update:
  assumes "\<And>d. d_key (f d) = d_key d" and "\<And>d. d_id (f d) = d_id d" and "defects_ok db"
  shows "defects_ok (db\<lparr>defects := tbl_update p f (defects db)\<rparr>)"
proof -
  have m: "map d_key (tbl_update p f (defects db)) = map d_key (defects db)"
      "map d_id (tbl_update p f (defects db)) = map d_id (defects db)"
    using assms(1,2) by (auto intro!: map_key_update)
  then have i: "d_id ` set (tbl_update p f (defects db)) = d_id ` set (defects db)" by (metis list.set_map)
  have "\<forall>d \<in> set (tbl_update p f (defects db)). d_id d < next_defect db"
    using assms(3) i unfolding defects_ok_def by (metis (no_types, lifting) image_iff)
  then show ?thesis using assms(3) unfolding defects_ok_def by (simp add: m i)
qed

lemma get_update:
  assumes "\<And>d. d_key (f d) = d_key d"
  shows "get_by_hash p h (db\<lparr>defects := tbl_update q f (defects db)\<rparr>)
         = map_option (\<lambda>d. if q d then f d else d) (get_by_hash p h db)"
  unfolding get_by_hash_def using tbl_find_update_any [of d_key f "(p, h)" q "defects db", OF assms] by simp

lemma upsert_one_cases:
  assumes "upsert_one now pid bid g db = Inr db'"
  obtains d where "get_by_hash pid (fr_hash g) db = Some d"
      "db' = db\<lparr>defects := tbl_update (\<lambda>d. d_key d = (pid, fr_hash g)) (seen_again now bid g) (defects db)\<rparr>"
    | "get_by_hash pid (fr_hash g) db = None"
      "db' = db\<lparr>defects := defects db @ [new_defect now pid bid g (next_defect db)], next_defect := Suc (next_defect db)\<rparr>"
  using assms by (auto simp: upsert_one_def split: if_splits option.splits)

lemma upsert_one_get:
  assumes "upsert_one now pid bid g db = Inr db'"
  shows "get_by_hash p h db' = (if p = pid \<and> h = fr_hash g
     then Some (case get_by_hash p h db of Some d \<Rightarrow> seen_again now bid g d
       | None \<Rightarrow> new_defect now pid bid g (next_defect db))
     else get_by_hash p h db)"
  using assms
proof (cases rule: upsert_one_cases)
  case (1 d)
  have "get_by_hash p h db' = map_option (\<lambda>d. if d_key d = (pid, fr_hash g) then seen_again now bid g d else d)
      (get_by_hash p h db)"
    unfolding 1(2) by (rule get_update) simp
  then show ?thesis using 1(1) get_by_hash_key [of p h db] by (cases "get_by_hash p h db") auto
next
  case 2
  have "get_by_hash p h db' = (case get_by_hash p h db of Some d \<Rightarrow> Some d
      | None \<Rightarrow> if p = pid \<and> h = fr_hash g then Some (new_defect now pid bid g (next_defect db)) else None)"
    unfolding 2(2) get_by_hash_def
    by (simp add: tbl_find_append tbl_find_Cons tbl_find_Nil conj_commute eq_commute split: option.splits)
  with 2(1) show ?thesis by (auto split: option.splits)
qed

lemma upsert_one_frame:
  assumes "upsert_one now pid bid g db = Inr db'"
  shows "occurrences db' = occurrences db" "results db' = results db" "builds db' = builds db"
    "projects db' = projects db" "next_defect db \<le> next_defect db'"
  using assms by (cases rule: upsert_one_cases; simp)+

lemma upsert_one_ok:
  assumes "upsert_one now pid bid g db = Inr db'" and ok: "defects_ok db"
  shows "defects_ok db'"
  using assms(1)
proof (cases rule: upsert_one_cases)
  case (1 d)
  then show ?thesis using ok by (auto intro: ok_update)
next
  case 2
  have "(pid, fr_hash g) \<notin> d_key ` set (defects db)" using 2(1) by (simp add: get_by_hash_None)
  moreover have "next_defect db \<notin> d_id ` set (defects db)" using ok by (auto simp: defects_ok_def)
  moreover have "\<forall>d \<in> set (defects db). d_id d < Suc (next_defect db)"
    using ok by (auto simp: defects_ok_def less_Suc_eq)
  ultimately show ?thesis using ok unfolding 2(2) defects_ok_def by auto
qed

lemma upsert_all_frame:
  "upsert_all now pid bid gs db = Inr db' \<Longrightarrow>
   occurrences db' = occurrences db \<and> results db' = results db \<and> builds db' = builds db
   \<and> projects db' = projects db \<and> (defects_ok db \<longrightarrow> defects_ok db')"
proof (induction gs arbitrary: db)
  case Nil
  then show ?case by simp
next
  case (Cons g gs)
  then obtain db1 where 1: "upsert_one now pid bid g db = Inr db1" "upsert_all now pid bid gs db1 = Inr db'"
    by (auto split: sum.splits)
  show ?case using Cons.IH [OF 1(2)] upsert_one_frame [OF 1(1)] upsert_one_ok [OF 1(1)] by simp
qed

lemma upsert_all_other:
  "upsert_all now pid bid gs db = Inr db' \<Longrightarrow> p \<noteq> pid \<or> h \<notin> fr_hash ` set gs
   \<Longrightarrow> get_by_hash p h db' = get_by_hash p h db"
proof (induction gs arbitrary: db)
  case Nil
  then show ?case by simp
next
  case (Cons g gs)
  then obtain db1 where 1: "upsert_one now pid bid g db = Inr db1" "upsert_all now pid bid gs db1 = Inr db'"
    by (auto split: sum.splits)
  show ?case using Cons.IH [OF 1(2)] Cons.prems(2) upsert_one_get [OF 1(1), of p h] by auto
qed

lemma upsert_all_get:
  assumes "upsert_all now pid bid gs db = Inr db'" and "distinct (map fr_hash gs)" and "g \<in> set gs"
  shows "\<exists>n. get_by_hash pid (fr_hash g) db' = Some (case get_by_hash pid (fr_hash g) db of
     Some d \<Rightarrow> seen_again now bid g d | None \<Rightarrow> new_defect now pid bid g n)"
  using assms
proof (induction gs arbitrary: db)
  case Nil
  then show ?case by simp
next
  case (Cons a gs)
  then obtain db1 where 1: "upsert_one now pid bid a db = Inr db1" "upsert_all now pid bid gs db1 = Inr db'"
    by (auto split: sum.splits)
  show ?case
  proof (cases "g = a")
    case True
    then have "fr_hash g \<notin> fr_hash ` set gs" using Cons.prems(2) by auto
    then have "get_by_hash pid (fr_hash g) db' = get_by_hash pid (fr_hash g) db1"
      using upsert_all_other [OF 1(2)] by blast
    then show ?thesis using upsert_one_get [OF 1(1), of pid "fr_hash g"] True by auto
  next
    case False
    then have g: "g \<in> set gs" using Cons.prems by simp
    have "fr_hash a \<notin> fr_hash ` set gs" using Cons.prems(2) by simp
    with g have ne: "fr_hash g \<noteq> fr_hash a" by (metis imageI)
    then have "get_by_hash pid (fr_hash g) db1 = get_by_hash pid (fr_hash g) db"
      using upsert_one_get [OF 1(1), of pid "fr_hash g"] ne by auto
    then show ?thesis using Cons.IH [OF 1(2) _ g] Cons.prems(2) by simp
  qed
qed

lemma upsert_all_succeeds:
  assumes "bid \<in> b_id ` set (builds db)" and "pid \<in> fst ` set (projects db)"
    and "\<forall>g \<in> set gs. valid_text (fr_message g) \<and> valid_text (fr_trace g)"
  shows "\<exists>db'. upsert_all now pid bid gs db = Inr db'"
  using assms
proof (induction gs arbitrary: db)
  case Nil
  then show ?case by simp
next
  case (Cons g gs)
  then have "\<exists>db1. upsert_one now pid bid g db = Inr db1"
    by (auto simp: upsert_one_def split: option.splits)
  then obtain db1 where 1: "upsert_one now pid bid g db = Inr db1" by blast
  show ?case using Cons.IH [of db1] Cons.prems 1 upsert_one_frame [OF 1] by simp
qed

lemma upsert_all_rejects:
  assumes "g \<in> set gs" and "\<not> valid_text (fr_message g)"
  shows "\<exists>e. upsert_all now pid bid gs db = Inl e"
  using assms(1)
proof (induction gs arbitrary: db)
  case (Cons a gs)
  show ?case
  proof (cases "g = a")
    case True
    then show ?thesis using assms(2) by (simp add: upsert_one_def)
  next
    case False
    then show ?thesis using Cons by (auto split: sum.splits)
  qed
qed simp

lemma link_frame [simp]:
  "defects (link_test_results k bid ids db) = defects db" "builds (link_test_results k bid ids db) = builds db"
  "projects (link_test_results k bid ids db) = projects db"
  "next_defect (link_test_results k bid ids db) = next_defect db"
  by (simp_all add: link_test_results_def Let_def)

lemma link_group_frame [simp]:
  "defects (link_group pid bid g db) = defects db" "builds (link_group pid bid g db) = builds db"
  "projects (link_group pid bid g db) = projects db" "next_defect (link_group pid bid g db) = next_defect db"
  by (simp_all add: link_group_def split: option.splits)

lemma fold_link_frame [simp]:
  "defects (fold (link_group pid bid) gs db) = defects db" "builds (fold (link_group pid bid) gs db) = builds db"
  "projects (fold (link_group pid bid) gs db) = projects db"
  "next_defect (fold (link_group pid bid) gs db) = next_defect db"
  by (induction gs arbitrary: db) simp_all

lemma get_by_hash_cong: "defects db = defects db' \<Longrightarrow> get_by_hash p h db = get_by_hash p h db'"
  by (simp add: get_by_hash_def)

lemma seen_in_keys: "seen_in b db k \<longleftrightarrow> (k, b) \<in> set (map oc_key (occurrences db))"
  by (auto simp: seen_in_def list_ex_iff image_iff)

lemma seen_in_link:
  "seen_in b (link_test_results k bid ids db) j \<longleftrightarrow> seen_in b db j \<or> (ids \<noteq> [] \<and> b = bid \<and> j = k)"
proof (cases "ids = []")
  case True
  then show ?thesis by (simp add: link_test_results_def)
next
  case False
  let ?p = "\<lambda>r. oc_key r = (k, bid)" and ?oc = "occurrences db"
  have c: "tbl_count ?p ?oc = 0 \<longleftrightarrow> \<not> seen_in bid db k"
    by (auto simp: seen_in_def list_ex_iff tbl_simps)
  have u: "map oc_key (tbl_update ?p (\<lambda>r. r\<lparr>oc_tests := n\<rparr>) ?oc) = map oc_key ?oc" for n
    by (rule map_key_update) simp
  have "set (map oc_key (occurrences (link_test_results k bid ids db)))
      = (if tbl_count ?p ?oc = 0 then insert (k, bid) (set (map oc_key ?oc)) else set (map oc_key ?oc))"
    using False u by (simp add: link_test_results_def Let_def del: set_map)
  with c False show ?thesis by (auto simp: seen_in_keys split: if_splits)
qed

text \<open>After linking, the build has seen what it had and the defects of the groups.\<close>

lemma seen_in_fold_link:
  "seen_in b (fold (link_group pid bid) gs db) j \<longleftrightarrow> seen_in b db j \<or>
     (b = bid \<and> (\<exists>g \<in> set gs. fr_ids g \<noteq> [] \<and> (\<exists>d. get_by_hash pid (fr_hash g) db = Some d \<and> d_id d = j)))"
proof (induction gs arbitrary: db)
  case Nil
  then show ?case by simp
next
  case (Cons g gs)
  have get: "get_by_hash pid h (link_group pid bid g db) = get_by_hash pid h db" for h
    by (rule get_by_hash_cong) simp
  have "seen_in b (link_group pid bid g db) j \<longleftrightarrow> seen_in b db j \<or>
      (b = bid \<and> fr_ids g \<noteq> [] \<and> (\<exists>d. get_by_hash pid (fr_hash g) db = Some d \<and> d_id d = j))"
    by (auto simp: link_group_def seen_in_link split: option.splits)
  then show ?case by (auto simp: Cons.IH get)
qed

lemma count_and_resolve_frame [simp]:
  "occurrences (count_and_resolve now pid bid db) = occurrences db"
  "results (count_and_resolve now pid bid db) = results db" "builds (count_and_resolve now pid bid db) = builds db"
  "projects (count_and_resolve now pid bid db) = projects db"
  "next_defect (count_and_resolve now pid bid db) = next_defect db"
  by (simp_all add: count_and_resolve_def auto_resolve_fixed_def update_clean_build_counts_def Let_def)

text \<open>Counting and resolving, seen from one defect of the project.\<close>

definition counted :: "time \<Rightarrow> bool \<Rightarrow> defect \<Rightarrow> defect" where
  "counted now seen d =
     (let d = (if d_resolution d = ''open'' \<and> \<not> seen then d\<lparr>d_clean := d_clean d + 1, d_updated := now\<rparr> else d)
      in if d_resolution d = ''open'' \<and> 3 \<le> d_clean d then d\<lparr>d_resolution := ''fixed'', d_updated := now\<rparr> else d)"

lemma counted_keys [simp]:
  "d_project (counted now s d) = d_project d" "d_hash (counted now s d) = d_hash d" "d_id (counted now s d) = d_id d"
  "d_category (counted now s d) = d_category d" "d_known_issue (counted now s d) = d_known_issue d"
  by (simp_all add: counted_def Let_def)

lemma get_count_and_resolve:
  "get_by_hash p h (count_and_resolve now pid bid db)
   = map_option (\<lambda>d. if p = pid then counted now (seen_in bid db (d_id d)) d else d) (get_by_hash p h db)"
proof -
  let ?db1 = "update_clean_build_counts now pid bid db"
  have 1: "get_by_hash p h ?db1 = map_option (\<lambda>d. if d_project d = pid \<and> d_resolution d = ''open'' \<and> \<not> seen_in bid db (d_id d)
      then d\<lparr>d_clean := d_clean d + 1, d_updated := now\<rparr> else d) (get_by_hash p h db)"
    unfolding update_clean_build_counts_def by (rule get_update) simp
  have 2: "get_by_hash p h (count_and_resolve now pid bid db)
      = map_option (\<lambda>d. if d_project d = pid \<and> d_resolution d = ''open'' \<and> 3 \<le> d_clean d
          then d\<lparr>d_resolution := ''fixed'', d_updated := now\<rparr> else d) (get_by_hash p h ?db1)"
    unfolding count_and_resolve_def auto_resolve_fixed_def Let_def snd_conv by (rule get_update) simp
  show ?thesis
  proof (cases "get_by_hash p h db")
    case None
    then show ?thesis by (simp add: 2 1)
  next
    case (Some d)
    then have "d_project d = p" by (auto dest: get_by_hash_key)
    then show ?thesis by (simp add: 2 1 Some counted_def Let_def)
  qed
qed

lemma count_and_resolve_ok: "defects_ok db \<Longrightarrow> defects_ok (count_and_resolve now pid bid db)"
  unfolding count_and_resolve_def auto_resolve_fixed_def update_clean_build_counts_def Let_def snd_conv
  by (intro ok_update) simp_all

lemma mark_regressions_frame [simp]:
  "defects (mark_regressions bid ks db) = defects db" "results (mark_regressions bid ks db) = results db"
  "builds (mark_regressions bid ks db) = builds db" "projects (mark_regressions bid ks db) = projects db"
  "next_defect (mark_regressions bid ks db) = next_defect db"
  by (simp_all add: mark_regressions_def)

lemma seen_in_mark [simp]: "seen_in b (mark_regressions bid ks db) = seen_in b db"
proof -
  have "map oc_key (tbl_update p (\<lambda>r. r\<lparr>oc_regression := True\<rparr>) (occurrences db)) = map oc_key (occurrences db)" for p
    by (rule map_key_update) simp
  then show ?thesis by (simp add: fun_eq_iff seen_in_keys mark_regressions_def del: set_map)
qed

text \<open>Relinking results changes no status, message or trace, so the failures of a build stay the same.\<close>

lemma insort_key_map:
  assumes "\<And>x. k (f x) = k x"
  shows "insort_key k (f x) (map f xs) = map f (insort_key k x xs)"
  by (induction xs) (simp_all add: assms)

lemma sort_key_map:
  assumes "\<And>x. k (f x) = k x"
  shows "sort_key k (map f xs) = map f (sort_key k xs)"
  by (induction xs) (simp_all add: insort_key_map [where k = k, OF assms])

lemma list_failed_relink:
  assumes "results db' = map f (results db)"
    and "\<And>r. tr_id (f r) = tr_id r \<and> tr_build (f r) = tr_build r \<and> tr_project (f r) = tr_project r
      \<and> tr_status (f r) = tr_status r \<and> tr_message (f r) = tr_message r \<and> tr_trace (f r) = tr_trace r"
  shows "list_failed p b db' = list_failed p b db"
  using assms by (simp add: list_failed_def filter_map o_def sort_key_map [where k = tr_id])

lemma list_failed_cong: "results db' = results db \<Longrightarrow> list_failed p b db' = list_failed p b db"
  by (simp add: list_failed_def)

lemma list_failed_link [simp]: "list_failed p b (link_test_results k bid ids db) = list_failed p b db"
proof (cases "ids = []")
  case True
  then show ?thesis by (simp add: link_test_results_def)
next
  case False
  then have "results (link_test_results k bid ids db)
      = map (\<lambda>r. if tr_id r \<in> set ids then r\<lparr>tr_defect := Some k\<rparr> else r) (results db)"
    by (simp add: link_test_results_def Let_def tbl_update_def)
  then show ?thesis by (rule list_failed_relink) simp
qed

lemma list_failed_fold_link [simp]: "list_failed p b (fold (link_group pid bid) gs db) = list_failed p b db"
  by (induction gs arbitrary: db) (simp_all add: link_group_def split: option.splits)

end
