(* ===== verification/Webhooks.thy ===== *)
theory Webhooks
  imports SafeHttp Vault ProjectAccess Defects
begin

text \<open>
  Webhooks: the statements of \<open>store/pg/webhook.go\<close> on the tables of migration 0025 and the handlers of
  \<open>handlers/webhook_handler.go\<close>.  A row keeps its URL and its secret encrypted; the record is the same for rows and for
  what the store returns.

  Of PostgreSQL, how a text is read as a UUID and which texts are JSON documents are fields of \<open>wh_env\<close>, beside the
  vault, the network and the id the next row gets.
\<close>

section \<open>State\<close>

record webhook =
  wh_id :: string
  wh_project :: int
  wh_name :: string
  wh_target :: string
  wh_url :: string
  wh_secret :: "string option"
  wh_template :: "string option"
  wh_events :: "string list"
  wh_active :: bool
  wh_created :: time
  wh_updated :: time

record delivery =
  dl_webhook :: string
  dl_event :: string
  dl_payload :: string
  dl_status :: "int option"
  dl_response :: "string option"
  dl_error :: "string option"
  dl_attempt :: int
  dl_at :: time

record webhook_db =
  wh_rows :: "webhook list"
  wh_deliveries :: "delivery list"

record wh_env =
  we_vault :: vault
  we_uuid :: "string \<Rightarrow> string option"
  we_jsonb :: "string \<Rightarrow> bool"
  we_net :: net
  we_new :: string
  we_projects :: "int list"

datatype wh_error = WhNotFound | WhFailed

section \<open>Statements\<close>

definition encrypt_optional :: "vault \<Rightarrow> string option \<Rightarrow> string option \<Rightarrow> string option option" where
  "encrypt_optional V nonce v = (case v of None \<Rightarrow> Some None | Some s \<Rightarrow> map_option Some (encrypt_value V nonce s))"

definition decrypt_optional :: "vault \<Rightarrow> string option \<Rightarrow> string option option" where
  "decrypt_optional V v = (case v of None \<Rightarrow> Some None | Some s \<Rightarrow> map_option Some (decrypt_with_keys V s))"

text \<open>Texts a column accepts.\<close>

definition storable :: "webhook \<Rightarrow> bool" where
  "storable w \<longleftrightarrow> valid_text (wh_name w) \<and> list_all valid_text (wh_events w)
     \<and> (case wh_template w of None \<Rightarrow> True | Some t \<Rightarrow> valid_text t)"

definition create_webhook :: "wh_env \<Rightarrow> ctx \<Rightarrow> webhook \<Rightarrow> webhook_db \<Rightarrow> webhook_db \<times> (wh_error + webhook)" where
  "create_webhook E q w db =
     (case (encrypt_value (we_vault E) (rnd q 0) (wh_url w), encrypt_optional (we_vault E) (rnd q 1) (wh_secret w)) of
        (Some url, Some secret) \<Rightarrow>
          (if c_fails q ''webhooks.Create'' \<or> \<not> storable w \<or> wh_project w \<notin> set (we_projects E)
              \<or> wh_target w \<notin> {''slack'', ''discord'', ''teams'', ''generic''}
           then (db, Inl WhFailed)
           else let r = w\<lparr>wh_id := we_new E, wh_created := c_now q, wh_updated := c_now q\<rparr>
             in (db\<lparr>wh_rows := wh_rows db @ [r\<lparr>wh_url := url, wh_secret := secret\<rparr>]\<rparr>, Inr r))
      | _ \<Rightarrow> (db, Inl WhFailed))"

definition opened :: "vault \<Rightarrow> webhook \<Rightarrow> webhook option" where
  "opened V r = (case (decrypt_with_keys V (wh_url r), decrypt_optional V (wh_secret r)) of
     (Some url, Some secret) \<Rightarrow> Some (r\<lparr>wh_url := url, wh_secret := secret\<rparr>) | _ \<Rightarrow> None)"

definition get_webhook :: "wh_env \<Rightarrow> string \<Rightarrow> webhook_db \<Rightarrow> wh_error + webhook" where
  "get_webhook E i db = (case we_uuid E i of
     None \<Rightarrow> Inl WhFailed
   | Some u \<Rightarrow> (case tbl_find (\<lambda>r. wh_id r = u) (wh_rows db) of
       None \<Rightarrow> Inl WhNotFound
     | Some r \<Rightarrow> (case opened (we_vault E) r of None \<Rightarrow> Inl WhFailed | Some w \<Rightarrow> Inr w)))"

text \<open>\<open>List\<close> does not select the secret; a row whose URL cannot be read is skipped.\<close>

definition listed :: "vault \<Rightarrow> webhook \<Rightarrow> webhook option" where
  "listed V r = (case decrypt_with_keys V (wh_url r) of
     None \<Rightarrow> None | Some url \<Rightarrow> Some (r\<lparr>wh_url := url, wh_secret := None\<rparr>))"

definition list_webhooks :: "vault \<Rightarrow> int \<Rightarrow> webhook_db \<Rightarrow> webhook list" where
  "list_webhooks V pid db = List.map_filter (listed V)
     (sort_key (\<lambda>r. - wh_created r) (filter (\<lambda>r. wh_project r = pid) (wh_rows db)))"

definition update_webhook :: "wh_env \<Rightarrow> ctx \<Rightarrow> webhook \<Rightarrow> webhook_db \<Rightarrow> webhook_db \<times> (wh_error + unit)" where
  "update_webhook E q w db =
     (case (encrypt_value (we_vault E) (rnd q 0) (wh_url w), encrypt_optional (we_vault E) (rnd q 1) (wh_secret w)) of
        (Some url, Some secret) \<Rightarrow>
          (if c_fails q ''webhooks.Update'' \<or> \<not> storable w \<or> wh_target w \<notin> {''slack'', ''discord'', ''teams'', ''generic''}
           then (db, Inl WhFailed)
           else if tbl_count (\<lambda>r. wh_id r = wh_id w) (wh_rows db) = 0 then (db, Inl WhNotFound)
           else (db\<lparr>wh_rows := tbl_update (\<lambda>r. wh_id r = wh_id w) (\<lambda>r. r\<lparr>wh_name := wh_name w, wh_target := wh_target w,
                   wh_url := url, wh_secret := secret, wh_template := wh_template w, wh_events := wh_events w,
                   wh_active := wh_active w, wh_updated := c_now q\<rparr>) (wh_rows db)\<rparr>, Inr ()))
      | _ \<Rightarrow> (db, Inl WhFailed))"

definition delete_webhook :: "wh_env \<Rightarrow> string \<Rightarrow> int \<Rightarrow> webhook_db \<Rightarrow> webhook_db \<times> (wh_error + unit)" where
  "delete_webhook E i pid db = (case we_uuid E i of
     None \<Rightarrow> (db, Inl WhFailed)
   | Some u \<Rightarrow>
       let mine = (\<lambda>r. wh_id r = u \<and> wh_project r = pid) in
       if tbl_count mine (wh_rows db) = 0 then (db, Inl WhNotFound)
       else (db\<lparr>wh_rows := tbl_delete mine (wh_rows db),
                wh_deliveries := tbl_delete (\<lambda>d. dl_webhook d = u) (wh_deliveries db)\<rparr>, Inr ()))"

definition subscribed :: "int \<Rightarrow> string \<Rightarrow> webhook \<Rightarrow> bool" where
  "subscribed pid event r \<longleftrightarrow> wh_project r = pid \<and> wh_active r \<and> event \<in> set (wh_events r)"

definition list_active :: "vault \<Rightarrow> int \<Rightarrow> string \<Rightarrow> webhook_db \<Rightarrow> webhook list" where
  "list_active V pid event db = List.map_filter (opened V) (filter (subscribed pid event) (wh_rows db))"

text \<open>The constraints of the table of deliveries: the webhook exists, the payload is JSON, the rest is text.\<close>

definition insert_delivery :: "wh_env \<Rightarrow> delivery \<Rightarrow> webhook_db \<Rightarrow> webhook_db" where
  "insert_delivery E d db =
     (if dl_webhook d \<in> wh_id ` set (wh_rows db) \<and> we_jsonb E (dl_payload d) \<and> valid_text (dl_event d)
         \<and> (case dl_response d of None \<Rightarrow> True | Some t \<Rightarrow> valid_text t) \<and> (case dl_error d of None \<Rightarrow> True | Some t \<Rightarrow> valid_text t)
      then db\<lparr>wh_deliveries := wh_deliveries db @ [d]\<rparr> else db)"

definition list_deliveries :: "string \<Rightarrow> int \<Rightarrow> int \<Rightarrow> webhook_db \<Rightarrow> (delivery list \<times> nat) option" where
  "list_deliveries i page per db =
     (let page = (if page < 1 then 1 else page); per = (if per < 1 then 20 else per);
          all = sort_key (\<lambda>d. - dl_at d) (filter (\<lambda>d. dl_webhook d = i) (wh_deliveries db));
          off = page_offset page per; ds = take (nat per) (drop (nat off) all)
      in if off < 0 then None else Some (ds, if ds = [] then 0 else length all))"

definition prune_deliveries :: "time \<Rightarrow> webhook_db \<Rightarrow> webhook_db \<times> nat" where
  "prune_deliveries cutoff db = (db\<lparr>wh_deliveries := tbl_delete (\<lambda>d. dl_at d < cutoff) (wh_deliveries db)\<rparr>,
     tbl_count (\<lambda>d. dl_at d < cutoff) (wh_deliveries db))"

section \<open>Requests\<close>

record webhook_new =
  wc_name :: string
  wc_target :: string
  wc_url :: string
  wc_secret :: "string option"
  wc_template :: "string option"
  wc_events :: "string list"
  wc_active :: "bool option"

record webhook_patch =
  wu_name :: "string option"
  wu_target :: "string option"
  wu_url :: "string option"
  wu_secret :: "string option"
  wu_template :: "string option"
  wu_events :: "string list"
  wu_active :: "bool option"

record webhook_view =
  wv_id :: string
  wv_project :: int
  wv_name :: string
  wv_target :: string
  wv_url :: string
  wv_has_secret :: bool
  wv_template :: "string option"
  wv_events :: "string list"
  wv_active :: bool
  wv_created :: time
  wv_updated :: time

datatype webhook_body =
    WView webhook_view
  | WViews "webhook_view list"
  | WDeleted string
  | WQueued
  | WDeliveries "delivery list" page_meta

definition mask_url :: "net \<Rightarrow> string \<Rightarrow> string" where
  "mask_url N url = (case n_url N url of None \<Rightarrow> ''****'' | Some u \<Rightarrow> up_scheme u @ ''://'' @ up_host u @ ''/****'')"

definition webhook_response :: "net \<Rightarrow> webhook \<Rightarrow> webhook_view" where
  "webhook_response N w = \<lparr>wv_id = wh_id w, wv_project = wh_project w, wv_name = wh_name w, wv_target = wh_target w,
     wv_url = mask_url N (wh_url w), wv_has_secret = (case wh_secret w of None \<Rightarrow> False | Some s \<Rightarrow> s \<noteq> []),
     wv_template = wh_template w, wv_events = wh_events w, wv_active = wh_active w, wv_created = wh_created w,
     wv_updated = wh_updated w\<rparr>"

definition valid_targets :: "string list" where
  "valid_targets = [''slack'', ''discord'', ''teams'', ''generic'']"

definition valid_events :: "string list" where
  "valid_events = [''report_completed'', ''report_failed'', ''regression_detected'', ''digest'']"

definition validate_events :: "string list \<Rightarrow> string option" where
  "validate_events es = map_option
     (\<lambda>e. ''unknown event '' @ go_quote e @ '': must be one of report_completed, report_failed, regression_detected, digest'')
     (List.find (\<lambda>e. e \<notin> set valid_events) es)"

abbreviation bad_target :: string where
  "bad_target \<equiv> ''target_type must be one of: slack, discord, teams, generic''"

text \<open>The checks of a creation, up to the one of the URL.\<close>

definition check_new :: "net \<Rightarrow> webhook_new \<Rightarrow> string option" where
  "check_new N req =
     (let name = trim_space (wc_name req) in
      if name = [] then Some ''name is required''
      else if 100 < length name then Some ''name must not exceed 100 characters''
      else if wc_target req = [] then Some ''target_type is required''
      else if wc_target req \<notin> set valid_targets then Some bad_target
      else if wc_url req = [] then Some ''url is required''
      else validate_webhook_url N 0 (wc_url req))"

definition new_webhook :: "int \<Rightarrow> webhook_new \<Rightarrow> webhook" where
  "new_webhook pid req = \<lparr>wh_id = [], wh_project = pid, wh_name = trim_space (wc_name req), wh_target = wc_target req,
     wh_url = wc_url req, wh_secret = wc_secret req, wh_template = wc_template req,
     wh_events = (if wc_events req = [] then [''report_completed''] else wc_events req),
     wh_active = (case wc_active req of None \<Rightarrow> True | Some b \<Rightarrow> b), wh_created = 0, wh_updated = 0\<rparr>"

definition max_webhooks :: nat where
  "max_webhooks = 10"

definition create_webhook_request ::
  "ctx \<Rightarrow> wh_env \<Rightarrow> ('a project_row_scheme) list \<Rightarrow> string \<Rightarrow> webhook_new option \<Rightarrow> webhook_db
   \<Rightarrow> webhook_db \<times> webhook_body http_reply" where
  "create_webhook_request q E ps v req db = (case resolve_project_int_id q (Some ps) v of
     Inl (c, m) \<Rightarrow> (db, err c m)
   | Inr pid \<Rightarrow> (case req of
       None \<Rightarrow> (db, err 400 ''invalid request body'')
     | Some r \<Rightarrow> (case check_new (we_net E) r of
         Some m \<Rightarrow> (db, err 400 m)
       | None \<Rightarrow>
           if c_fails q ''webhooks.List'' then (db, err 500 ''error checking webhook count'')
           else if max_webhooks \<le> length (list_webhooks (we_vault E) pid db)
           then (db, err 409 ''maximum of 10 webhooks per project reached'')
           else case validate_events (wc_events r) of
             Some m \<Rightarrow> (db, err 400 m)
           | None \<Rightarrow> (case create_webhook E q (new_webhook pid r) db of
               (db', Inl _) \<Rightarrow> (db', err 500 ''error creating webhook'')
             | (db', Inr w) \<Rightarrow> (db', ok 201 ''Webhook created'' (WView (webhook_response (we_net E) w)))))))"

definition list_webhooks_request ::
  "ctx \<Rightarrow> wh_env \<Rightarrow> ('a project_row_scheme) list \<Rightarrow> string \<Rightarrow> webhook_db \<Rightarrow> webhook_body http_reply" where
  "list_webhooks_request q E ps v db = (case resolve_project_int_id q (Some ps) v of
     Inl (c, m) \<Rightarrow> err c m
   | Inr pid \<Rightarrow>
       if c_fails q ''webhooks.List'' then err 500 ''error listing webhooks''
       else ok 200 ''Webhooks successfully obtained''
         (WViews (map (webhook_response (we_net E)) (list_webhooks (we_vault E) pid db))))"

text \<open>The webhook of a request, of the project of the request.\<close>

definition find_webhook ::
  "ctx \<Rightarrow> wh_env \<Rightarrow> ('a project_row_scheme) list \<Rightarrow> string \<Rightarrow> string \<Rightarrow> webhook_db \<Rightarrow> (nat \<times> string) + webhook" where
  "find_webhook q E ps v i db = (case resolve_project_int_id q (Some ps) v of
     Inl e \<Rightarrow> Inl e
   | Inr pid \<Rightarrow>
       if i = [] then Inl (400, ''webhook_id is required'')
       else if c_fails q ''webhooks.GetByID'' then Inl (500, ''error fetching webhook'')
       else case get_webhook E i db of
         Inl WhNotFound \<Rightarrow> Inl (404, ''webhook not found'')
       | Inl WhFailed \<Rightarrow> Inl (500, ''error fetching webhook'')
       | Inr w \<Rightarrow> if wh_project w \<noteq> pid then Inl (404, ''webhook not found'') else Inr w)"

definition get_webhook_request ::
  "ctx \<Rightarrow> wh_env \<Rightarrow> ('a project_row_scheme) list \<Rightarrow> string \<Rightarrow> string \<Rightarrow> webhook_db \<Rightarrow> webhook_body http_reply" where
  "get_webhook_request q E ps v i db = (case find_webhook q E ps v i db of
     Inl (c, m) \<Rightarrow> err c m
   | Inr w \<Rightarrow> ok 200 ''Webhook successfully obtained'' (WView (webhook_response (we_net E) w)))"

definition patch_name_error :: "webhook_patch \<Rightarrow> string option" where
  "patch_name_error p =
     (case wu_name p of
        Some n \<Rightarrow> (if trim_space n = [] then Some ''name must not be empty''
                   else if 100 < length (trim_space n) then Some ''name must not exceed 100 characters'' else None)
      | None \<Rightarrow> None)"

definition check_patch :: "net \<Rightarrow> webhook_patch \<Rightarrow> string option" where
  "check_patch N p = (case patch_name_error p of
     Some m \<Rightarrow> Some m
   | None \<Rightarrow>
     if (case wu_target p of None \<Rightarrow> False | Some t \<Rightarrow> t \<notin> set valid_targets) then Some bad_target
     else case (case wu_url p of None \<Rightarrow> None | Some u \<Rightarrow> validate_webhook_url N 0 u) of
       Some m \<Rightarrow> Some m
     | None \<Rightarrow> if wu_events p = [] then None else validate_events (wu_events p))"

definition patched :: "webhook_patch \<Rightarrow> webhook \<Rightarrow> webhook" where
  "patched p w = w\<lparr>wh_name := (case wu_name p of None \<Rightarrow> wh_name w | Some n \<Rightarrow> trim_space n),
     wh_target := (case wu_target p of None \<Rightarrow> wh_target w | Some t \<Rightarrow> t),
     wh_url := (case wu_url p of None \<Rightarrow> wh_url w | Some u \<Rightarrow> u),
     wh_secret := (case wu_secret p of None \<Rightarrow> wh_secret w | Some s \<Rightarrow> Some s),
     wh_template := (case wu_template p of None \<Rightarrow> wh_template w | Some t \<Rightarrow> Some t),
     wh_events := (if wu_events p = [] then wh_events w else wu_events p),
     wh_active := (case wu_active p of None \<Rightarrow> wh_active w | Some b \<Rightarrow> b)\<rparr>"

definition update_webhook_request ::
  "ctx \<Rightarrow> wh_env \<Rightarrow> ('a project_row_scheme) list \<Rightarrow> string \<Rightarrow> string \<Rightarrow> webhook_patch option \<Rightarrow> webhook_db
   \<Rightarrow> webhook_db \<times> webhook_body http_reply" where
  "update_webhook_request q E ps v i req db = (case find_webhook q E ps v i db of
     Inl (c, m) \<Rightarrow> (db, err c m)
   | Inr w \<Rightarrow> (case req of
       None \<Rightarrow> (db, err 400 ''invalid request body'')
     | Some p \<Rightarrow> (case check_patch (we_net E) p of
         Some m \<Rightarrow> (db, err 400 m)
       | None \<Rightarrow> (case update_webhook E q (patched p w) db of
           (db', Inl WhNotFound) \<Rightarrow> (db', err 404 ''webhook not found'')
         | (db', Inl WhFailed) \<Rightarrow> (db', err 500 ''error updating webhook'')
         | (db', Inr _) \<Rightarrow>
             if c_fails q ''webhooks.GetByID again'' then (db', err 500 ''error fetching updated webhook'')
             else case get_webhook E i db' of
               Inl _ \<Rightarrow> (db', err 500 ''error fetching updated webhook'')
             | Inr w' \<Rightarrow> (db', ok 200 ''Webhook updated'' (WView (webhook_response (we_net E) w')))))))"

definition delete_webhook_request ::
  "ctx \<Rightarrow> wh_env \<Rightarrow> ('a project_row_scheme) list \<Rightarrow> string \<Rightarrow> string \<Rightarrow> webhook_db \<Rightarrow> webhook_db \<times> webhook_body http_reply" where
  "delete_webhook_request q E ps v i db = (case resolve_project_int_id q (Some ps) v of
     Inl (c, m) \<Rightarrow> (db, err c m)
   | Inr pid \<Rightarrow>
       if i = [] then (db, err 400 ''webhook_id is required'')
       else if c_fails q ''webhooks.Delete'' then (db, err 500 ''error deleting webhook'')
       else case delete_webhook E i pid db of
         (db', Inl WhNotFound) \<Rightarrow> (db', err 404 ''webhook not found'')
       | (db', Inl WhFailed) \<Rightarrow> (db', err 500 ''error deleting webhook'')
       | (db', Inr _) \<Rightarrow> (db', ok 200 ''Webhook deleted'' (WDeleted i)))"

definition test_webhook_request ::
  "ctx \<Rightarrow> wh_env \<Rightarrow> ('a project_row_scheme) list \<Rightarrow> string \<Rightarrow> string \<Rightarrow> webhook_db \<Rightarrow> webhook_body http_reply" where
  "test_webhook_request q E ps v i db = (case find_webhook q E ps v i db of
     Inl (c, m) \<Rightarrow> err c m | Inr w \<Rightarrow> ok 200 ''Test delivery queued'' WQueued)"

definition list_deliveries_request ::
  "ctx \<Rightarrow> wh_env \<Rightarrow> ('a project_row_scheme) list \<Rightarrow> string \<Rightarrow> string \<Rightarrow> (string \<Rightarrow> string) \<Rightarrow> webhook_db
   \<Rightarrow> webhook_body http_reply" where
  "list_deliveries_request q E ps v i query db = (case find_webhook q E ps v i db of
     Inl (c, m) \<Rightarrow> err c m
   | Inr w \<Rightarrow>
       let pg = parse_pagination query in
       if c_fails q ''webhooks.ListDeliveries'' then err 500 ''error listing deliveries''
       else case list_deliveries (wh_id w) (pg_page pg) (pg_per_page pg) db of
         None \<Rightarrow> err 500 ''error listing deliveries''
       | Some (ds, n) \<Rightarrow> ok 200 ''Deliveries successfully obtained''
           (WDeliveries ds (new_pagination_meta (pg_page pg) (pg_per_page pg) (int n))))"

section \<open>Runs\<close>

datatype webhook_op =
    CreateHook string "webhook_new option"
  | UpdateHook string string "webhook_patch option"
  | DeleteHook string string

definition webhook_step ::
  "ctx \<Rightarrow> wh_env \<Rightarrow> ('a project_row_scheme) list \<Rightarrow> webhook_op \<Rightarrow> webhook_db \<Rightarrow> webhook_db" where
  "webhook_step q E ps op db = (case op of
     CreateHook v req \<Rightarrow> fst (create_webhook_request q E ps v req db)
   | UpdateHook v i req \<Rightarrow> fst (update_webhook_request q E ps v i req db)
   | DeleteHook v i \<Rightarrow> fst (delete_webhook_request q E ps v i db))"

definition foreign_rows :: "int \<Rightarrow> webhook_db \<Rightarrow> webhook list" where
  "foreign_rows pid db = filter (\<lambda>r. wh_project r \<noteq> pid) (wh_rows db)"

lemma create_webhook_foreign: "foreign_rows (wh_project w) (fst (create_webhook E q w db)) = foreign_rows (wh_project w) db"
  by (auto simp: create_webhook_def foreign_rows_def Let_def split: option.split)

lemma tbl_update_foreign:
  assumes "\<And>r. r \<in> set rows \<Longrightarrow> p r \<Longrightarrow> wh_project r = pid" and "\<And>r. wh_project (f r) = wh_project r"
  shows "filter (\<lambda>r. wh_project r \<noteq> pid) (tbl_update p f rows) = filter (\<lambda>r. wh_project r \<noteq> pid) rows"
  using assms(1) by (induction rows) (auto simp: tbl_update_def assms(2))

lemma get_webhook_row: "get_webhook E i db = Inr w \<Longrightarrow> \<exists>r \<in> set (wh_rows db). wh_id r = wh_id w \<and> wh_project r = wh_project w \<and> opened (we_vault E) r = Some w"
  by (auto simp: get_webhook_def opened_def split: option.splits dest!: tbl_find_Some)

lemma update_webhook_foreign:
  assumes "distinct (map wh_id (wh_rows db))" and "r \<in> set (wh_rows db)" and "wh_id r = wh_id w" and "wh_project r = pid"
  shows "foreign_rows pid (fst (update_webhook E q w db)) = foreign_rows pid db"
proof -
  have "wh_project x = pid" if x: "x \<in> set (wh_rows db)" "wh_id x = wh_id w" for x
  proof -
    have "x = r" using assms(1-3) x by (auto simp: distinct_map inj_on_def)
    then show ?thesis using assms(4) by simp
  qed
  then show ?thesis
    by (auto simp: update_webhook_def foreign_rows_def tbl_update_foreign split: option.split)
qed

lemma delete_webhook_foreign: "foreign_rows pid (fst (delete_webhook E i pid db)) = foreign_rows pid db"
  by (auto simp: delete_webhook_def foreign_rows_def tbl_delete_def Let_def split: option.split intro!: filter_cong)

lemma find_webhook_row:
  assumes "find_webhook q E ps v i db = Inr w"
  obtains r where "resolve_project_int_id q (Some ps) v = Inr (wh_project w)" and "r \<in> set (wh_rows db)"
    and "wh_id r = wh_id w" and "wh_project r = wh_project w" and "opened (we_vault E) r = Some w"
  using assms get_webhook_row [of E i db w] by (fastforce simp: find_webhook_def split: sum.splits if_splits wh_error.splits)

text \<open>What the requests execute: nothing, or one statement.\<close>

lemma create_request_cases:
  "fst (create_webhook_request q E ps v req db) = db \<or> (\<exists>pid r. resolve_project_int_id q (Some ps) v = Inr pid
     \<and> length (list_webhooks (we_vault E) pid db) < max_webhooks
     \<and> check_new (we_net E) r = None \<and> validate_events (wc_events r) = None
     \<and> fst (create_webhook_request q E ps v req db) = fst (create_webhook E q (new_webhook pid r) db))"
proof (cases "\<exists>pid r. resolve_project_int_id q (Some ps) v = Inr pid \<and> req = Some r \<and> check_new (we_net E) r = None
    \<and> \<not> c_fails q ''webhooks.List'' \<and> \<not> max_webhooks \<le> length (list_webhooks (we_vault E) pid db) \<and> validate_events (wc_events r) = None")
  case True
  then obtain pid r where r: "resolve_project_int_id q (Some ps) v = Inr pid" "req = Some r" "check_new (we_net E) r = None"
    "\<not> c_fails q ''webhooks.List''" "\<not> max_webhooks \<le> length (list_webhooks (we_vault E) pid db)" "validate_events (wc_events r) = None"
    by blast
  obtain db' x where x: "create_webhook E q (new_webhook pid r) db = (db', x)" by (cases "create_webhook E q (new_webhook pid r) db")
  then have "fst (create_webhook_request q E ps v req db) = db'"
    using r by (cases x) (simp_all add: create_webhook_request_def)
  then show ?thesis using r(1,3,5,6) x by (metis fst_conv not_le)
next
  case False
  then show ?thesis by (auto simp: create_webhook_request_def split: sum.split option.split prod.split)
qed

lemma update_request_cases:
  "fst (update_webhook_request q E ps v i req db) = db \<or> (\<exists>w p. find_webhook q E ps v i db = Inr w \<and> check_patch (we_net E) p = None
     \<and> fst (update_webhook_request q E ps v i req db) = fst (update_webhook E q (patched p w) db))"
proof (cases "\<exists>w p. find_webhook q E ps v i db = Inr w \<and> req = Some p \<and> check_patch (we_net E) p = None")
  case True
  then obtain w p where r: "find_webhook q E ps v i db = Inr w" "req = Some p" "check_patch (we_net E) p = None" by blast
  obtain db' x where x: "update_webhook E q (patched p w) db = (db', x)" by (cases "update_webhook E q (patched p w) db")
  then have "fst (update_webhook_request q E ps v i req db) = db'"
    using r by (cases x) (simp_all add: update_webhook_request_def split: wh_error.split sum.split)
  then show ?thesis using r(1,3) x by (metis fst_conv)
next
  case False
  then show ?thesis by (auto simp: update_webhook_request_def split: sum.split option.split prod.split)
qed

lemma delete_request_cases:
  "fst (delete_webhook_request q E ps v i db) = db \<or> (\<exists>pid. resolve_project_int_id q (Some ps) v = Inr pid
     \<and> fst (delete_webhook_request q E ps v i db) = fst (delete_webhook E i pid db))"
proof (cases "\<exists>pid. resolve_project_int_id q (Some ps) v = Inr pid \<and> i \<noteq> [] \<and> \<not> c_fails q ''webhooks.Delete''")
  case True
  then obtain pid where r: "resolve_project_int_id q (Some ps) v = Inr pid" "i \<noteq> []" "\<not> c_fails q ''webhooks.Delete''" by blast
  obtain db' x where x: "delete_webhook E i pid db = (db', x)" by (cases "delete_webhook E i pid db")
  then have "fst (delete_webhook_request q E ps v i db) = db'"
    using r by (cases x) (simp_all add: delete_webhook_request_def split: wh_error.split)
  then show ?thesis using r(1) x by (metis fst_conv)
next
  case False
  then show ?thesis by (auto simp: delete_webhook_request_def split: sum.split)
qed

text \<open>C19: Whatever ids a request names, it changes webhooks of a single project, one that its API key may touch.\<close>

theorem foreign_webhooks_kept:
  assumes "distinct (map wh_id (wh_rows db))"
  shows "\<exists>pid. (api_key_project_allowed (c_claims q) pid \<or> webhook_step q E ps op db = db)
    \<and> foreign_rows pid (webhook_step q E ps op db) = foreign_rows pid db"
proof (cases op)
  case (CreateHook v req)
  have "foreign_rows pid (fst (create_webhook E q (new_webhook pid r) db)) = foreign_rows pid db" for pid r
    using create_webhook_foreign [of "new_webhook pid r" E q db] by (simp add: new_webhook_def)
  then show ?thesis
    using create_request_cases [of q E ps v req db] resolved_allowed [of q "Some ps" v] CreateHook by (auto simp: webhook_step_def)
next
  case (UpdateHook v i req)
  have "foreign_rows (wh_project w) (fst (update_webhook E q (patched p w) db)) = foreign_rows (wh_project w) db
      \<and> api_key_project_allowed (c_claims q) (wh_project w)" if w: "find_webhook q E ps v i db = Inr w" for w p
  proof -
    obtain r where r: "resolve_project_int_id q (Some ps) v = Inr (wh_project w)" "r \<in> set (wh_rows db)"
      "wh_id r = wh_id w" "wh_project r = wh_project w" using find_webhook_row [OF w] by blast
    have "foreign_rows (wh_project w) (fst (update_webhook E q (patched p w) db)) = foreign_rows (wh_project w) db"
      by (rule update_webhook_foreign [OF assms r(2)]) (use r(3,4) in \<open>simp_all add: patched_def\<close>)
    then show ?thesis using resolved_allowed [OF r(1)] by simp
  qed
  then show ?thesis using update_request_cases [of q E ps v i req db] UpdateHook by (simp add: webhook_step_def) metis
next
  case (DeleteHook v i)
  then show ?thesis
    using delete_request_cases [of q E ps v i db] resolved_allowed [of q "Some ps" v] delete_webhook_foreign [of _ E i db]
    by (auto simp: webhook_step_def)
qed

section \<open>The limit\<close>

definition readable :: "vault \<Rightarrow> int \<Rightarrow> webhook \<Rightarrow> bool" where
  "readable V pid r \<longleftrightarrow> wh_project r = pid \<and> decrypt_with_keys V (wh_url r) \<noteq> None"

lemma map_filter_length: "length (List.map_filter f xs) = length (filter (\<lambda>x. f x \<noteq> None) xs)"
  by (induction xs) (auto simp: List.map_filter_simps split: option.split)

lemma list_webhooks_length: "length (list_webhooks V pid db) = length (filter (readable V pid) (wh_rows db))"
proof -
  have "listed V r \<noteq> None \<longleftrightarrow> decrypt_with_keys V (wh_url r) \<noteq> None" for r by (simp add: listed_def split: option.split)
  then have "length (list_webhooks V pid db)
      = length (sort_key (\<lambda>r. - wh_created r) (filter (\<lambda>r. wh_project r = pid \<and> decrypt_with_keys V (wh_url r) \<noteq> None) (wh_rows db)))"
    by (simp add: list_webhooks_def map_filter_length filter_sort conj_commute)
  then show ?thesis by (simp add: readable_def [abs_def])
qed

lemma tbl_update_count:
  assumes "\<And>r. r \<in> set rows \<Longrightarrow> p r \<Longrightarrow> P (f r) \<Longrightarrow> P r"
  shows "length (filter P (tbl_update p f rows)) \<le> length (filter P rows)"
  using assms by (induction rows) (auto simp: tbl_update_def le_SucI)

lemma update_webhook_count:
  assumes "distinct (map wh_id (wh_rows db))" and "r \<in> set (wh_rows db)" and "wh_id r = wh_id w" and "decrypt_with_keys V (wh_url r) \<noteq> None"
  shows "length (list_webhooks V pid (fst (update_webhook E q w db))) \<le> length (list_webhooks V pid db)"
proof -
  have same: "x = r" if x: "x \<in> set (wh_rows db)" "wh_id x = wh_id w" for x
    using assms(1-3) x by (auto simp: distinct_map inj_on_def)
  have "length (filter (readable V pid) (tbl_update (\<lambda>r. wh_id r = wh_id w) f (wh_rows db))) \<le> length (filter (readable V pid) (wh_rows db))"
    if "\<And>x. wh_project (f x) = wh_project x" for f
    by (rule tbl_update_count) (use same assms(4) that in \<open>auto simp: readable_def\<close>)
  then show ?thesis by (simp add: update_webhook_def list_webhooks_length split: option.split)
qed

text \<open>Served one at a time, requests keep a project at ten webhooks, among those whose URL can still be decrypted.\<close>

theorem webhook_limit:
  assumes "length (list_webhooks (we_vault E) pid db) \<le> max_webhooks" and "distinct (map wh_id (wh_rows db))"
  shows "length (list_webhooks (we_vault E) pid (webhook_step q E ps op db)) \<le> max_webhooks"
proof (cases op)
  case (CreateHook v req)
  have "length (list_webhooks (we_vault E) pid (fst (create_webhook E q w db))) \<le> length (list_webhooks (we_vault E) pid db)
      + (if wh_project w = pid then 1 else 0)" for w
    by (auto simp: create_webhook_def list_webhooks_length readable_def Let_def split: option.split)
  note added = this [of "new_webhook _ _"]
  show ?thesis
    using create_request_cases [of q E ps v req db] assms(1)
  proof (elim disjE exE conjE)
    fix pid' r assume r: "length (list_webhooks (we_vault E) pid' db) < max_webhooks"
      "fst (create_webhook_request q E ps v req db) = fst (create_webhook E q (new_webhook pid' r) db)"
      "check_new (we_net E) r = None" "validate_events (wc_events r) = None"
    have "wh_project (new_webhook pid' r) = pid'" by (simp add: new_webhook_def)
    then show ?thesis using added [of pid' r] assms(1) r CreateHook by (cases "pid' = pid") (simp_all add: webhook_step_def)
  qed (simp add: CreateHook webhook_step_def)
next
  case (UpdateHook v i req)
  have "length (list_webhooks (we_vault E) pid (fst (update_webhook E q (patched p w) db))) \<le> max_webhooks"
    if w: "find_webhook q E ps v i db = Inr w" for w p
  proof -
    obtain r where r: "r \<in> set (wh_rows db)" "wh_id r = wh_id w" "opened (we_vault E) r = Some w" using find_webhook_row [OF w] by blast
    have "wh_id r = wh_id (patched p w)" "decrypt_with_keys (we_vault E) (wh_url r) \<noteq> None"
      using r by (auto simp: patched_def opened_def split: option.splits)
    then show ?thesis using update_webhook_count [OF assms(2) r(1), of "patched p w" "we_vault E" pid E q] assms(1) by simp
  qed
  then show ?thesis using update_request_cases [of q E ps v i req db] assms(1) UpdateHook by (simp add: webhook_step_def) metis
next
  case (DeleteHook v i)
  have "length (list_webhooks (we_vault E) pid (fst (delete_webhook E i pid' db))) \<le> length (list_webhooks (we_vault E) pid db)" for pid'
  proof -
    have "length (filter P (filter Q rows)) \<le> length (filter P rows)" for P Q and rows :: "webhook list"
    proof -
      have "filter P (filter Q rows) = filter Q (filter P rows)" by (simp add: conj_commute)
      then show ?thesis by (metis length_filter_le)
    qed
    then show ?thesis by (simp add: delete_webhook_def list_webhooks_length tbl_delete_def Let_def split: option.split)
  qed
  then show ?thesis
    using delete_request_cases [of q E ps v i db] assms(1) DeleteHook by (simp add: webhook_step_def) (metis order_trans)
qed

section \<open>The rows\<close>

definition well_formed_hook :: "webhook \<Rightarrow> bool" where
  "well_formed_hook w \<longleftrightarrow> wh_name w \<noteq> [] \<and> length (wh_name w) \<le> 100 \<and> wh_target w \<in> set valid_targets
     \<and> wh_events w \<noteq> [] \<and> list_all (\<lambda>e. e \<in> set valid_events) (wh_events w)"

lemma valid_events_all: "validate_events es = None \<Longrightarrow> list_all (\<lambda>e. e \<in> set valid_events) es"
  by (auto simp: validate_events_def find_None_iff list_all_iff)

lemma new_webhook_well_formed:
  "check_new N req = None \<Longrightarrow> validate_events (wc_events req) = None \<Longrightarrow> well_formed_hook (new_webhook pid req)"
  by (auto simp: check_new_def new_webhook_def well_formed_hook_def Let_def valid_events_def dest: valid_events_all split: if_splits)

lemma patched_well_formed: "check_patch N p = None \<Longrightarrow> well_formed_hook w \<Longrightarrow> well_formed_hook (patched p w)"
  by (auto simp: check_patch_def patch_name_error_def patched_def well_formed_hook_def dest: valid_events_all split: if_splits option.splits)

lemma create_webhook_well_formed:
  "well_formed_hook w \<Longrightarrow> list_all well_formed_hook (wh_rows db) \<Longrightarrow> list_all well_formed_hook (wh_rows (fst (create_webhook E q w db)))"
  by (auto simp: create_webhook_def well_formed_hook_def Let_def split: option.split)

lemma update_webhook_well_formed:
  "well_formed_hook w \<Longrightarrow> list_all well_formed_hook (wh_rows db) \<Longrightarrow> list_all well_formed_hook (wh_rows (fst (update_webhook E q w db)))"
  by (auto simp: update_webhook_def tbl_update_def well_formed_hook_def list_all_iff split: option.split)

lemma found_well_formed:
  assumes "find_webhook q E ps v i db = Inr w" and "list_all well_formed_hook (wh_rows db)"
  shows "well_formed_hook w"
proof -
  obtain r where "r \<in> set (wh_rows db)" "opened (we_vault E) r = Some w" using find_webhook_row [OF assms(1)] by blast
  then show ?thesis using assms(2) by (auto simp: opened_def well_formed_hook_def list_all_iff split: option.splits)
qed

text \<open>C20: Every row of the webhook table keeps a name of 1 to 100 characters, a known target and at least one event, all of
  them known, whatever requests are served.\<close>

theorem hooks_stay_well_formed:
  assumes "list_all well_formed_hook (wh_rows db)"
  shows "list_all well_formed_hook (wh_rows (webhook_step q E ps op db))"
proof (cases op)
  case (CreateHook v req)
  then show ?thesis
    using create_request_cases [of q E ps v req db] create_webhook_well_formed [OF new_webhook_well_formed assms] assms
    by (auto simp: webhook_step_def)
next
  case (UpdateHook v i req)
  have "list_all well_formed_hook (wh_rows (fst (update_webhook E q (patched p w) db)))"
    if "find_webhook q E ps v i db = Inr w" "check_patch (we_net E) p = None" for w p
    by (rule update_webhook_well_formed [OF patched_well_formed [OF that(2) found_well_formed [OF that(1) assms]] assms])
  then show ?thesis using update_request_cases [of q E ps v i req db] assms UpdateHook by (auto simp: webhook_step_def)
next
  case (DeleteHook v i)
  have "list_all well_formed_hook (wh_rows (fst (delete_webhook E i pid db)))" for pid
    using assms by (auto simp: delete_webhook_def tbl_delete_def list_all_iff Let_def split: option.split)
  then show ?thesis using delete_request_cases [of q E ps v i db] assms DeleteHook by (simp add: webhook_step_def) metis
qed

section \<open>Instances\<close>

definition demo_hooks :: wh_env where
  "demo_hooks = \<lparr>we_vault = demo_vault, we_uuid = Some, we_jsonb = (\<lambda>s. s \<noteq> []), we_net = demo_net, we_new = ''n'', we_projects = [1, 2]\<rparr>"

definition demo_hook :: "string \<Rightarrow> int \<Rightarrow> webhook" where
  "demo_hook i pid = \<lparr>wh_id = i, wh_project = pid, wh_name = ''w'', wh_target = ''slack'',
     wh_url = std_encode (''nonce-nonce-'' @ demo_head ''k1'' @ ''h''), wh_secret = Some (std_encode (''nonce-nonce-'' @ demo_head ''k1'' @ ''s'')),
     wh_template = None, wh_events = [''report_completed'', ''regression_detected''], wh_active = True, wh_created = 0, wh_updated = 0\<rparr>"

definition demo_hook_db :: webhook_db where
  "demo_hook_db = \<lparr>wh_rows = [demo_hook ''a'' 1, demo_hook ''b'' 2], wh_deliveries = []\<rparr>"

definition demo_hq :: ctx where
  "demo_hq = \<lparr>c_request = \<lparr>rq_method = ''PUT'', rq_path = [], rq_cookies = (\<lambda>_. None), rq_header = (\<lambda>_. [])\<rparr>,
     c_claims = None, c_now = 7, c_rnd = [Some ''nonce-nonce-'', Some ''nonce-nonce-''], c_fails = (\<lambda>_. False)\<rparr>"

definition demo_op :: webhook_op where
  "demo_op = DeleteHook ''1'' ''a''"

lemma demo_hook_ids: "distinct (map wh_id (wh_rows demo_hook_db))"
  by code_simp

lemma foreign_webhooks_kept_witness:
  "\<exists>pid. (api_key_project_allowed (c_claims demo_hq) pid \<or> webhook_step demo_hq demo_hooks ([] :: project_row list) demo_op demo_hook_db = demo_hook_db)
    \<and> foreign_rows pid (webhook_step demo_hq demo_hooks ([] :: project_row list) demo_op demo_hook_db) = foreign_rows pid demo_hook_db"
  by (rule foreign_webhooks_kept [OF demo_hook_ids])

lemma hooks_stay_well_formed_witness:
  "list_all well_formed_hook (wh_rows (webhook_step demo_hq demo_hooks ([] :: project_row list) demo_op demo_hook_db))"
proof -
  have "list_all well_formed_hook (wh_rows demo_hook_db)"
    by (simp add: demo_hook_db_def demo_hook_def well_formed_hook_def valid_targets_def valid_events_def)
  then show ?thesis by (rule hooks_stay_well_formed)
qed

lemma webhook_limit_witness:
  "length (list_webhooks (we_vault demo_hooks) 1 (webhook_step demo_hq demo_hooks ([] :: project_row list) demo_op demo_hook_db)) \<le> 10"
proof -
  have "length (list_webhooks (we_vault demo_hooks) 1 demo_hook_db) \<le> max_webhooks" by code_simp
  from webhook_limit [OF this demo_hook_ids] show ?thesis by (simp add: max_webhooks_def)
qed

text \<open>The secret of a webhook is shown by \<open>Get\<close> and denied by \<open>List\<close>.\<close>

lemma list_denies_secrets: "v \<in> set (map (webhook_response N) (list_webhooks V pid db)) \<Longrightarrow> \<not> wv_has_secret v"
  by (auto simp: list_webhooks_def List.map_filter_def listed_def webhook_response_def split: option.splits)

lemma get_shows_secret: "map_option wv_has_secret (case body (get_webhook_request demo_hq demo_hooks ([] :: project_row list) ''1'' ''a'' demo_hook_db) of
    Some (WView v) \<Rightarrow> Some v | _ \<Rightarrow> None) = Some True"
  by code_simp

end
