(* ===== verification/Paths.thy ===== *)
theory Paths
  imports GoStrings
begin

text \<open>
  Slash-separated paths, as Go's \<open>path/filepath\<close> treats them on Unix: \<open>Clean\<close>, \<open>Join\<close>, \<open>Base\<close>, \<open>IsLocal\<close> and
  \<open>Rel\<close>.  A cleaned path is a list of segments; \<open>clean_step\<close> is what \<open>Clean\<close> does with one segment, on the
  segments it has kept so far, the last one first.

  \<open>abs_segs\<close> is the place an absolute path means: the names to follow from the root.
\<close>

abbreviation slash :: char where
  "slash \<equiv> CHR ''/''"

abbreviation segments :: "string \<Rightarrow> string list" where
  "segments \<equiv> split_on slash"

definition clean_step :: "bool \<Rightarrow> string \<Rightarrow> string list \<Rightarrow> string list" where
  "clean_step rooted seg acc =
     (if seg = [] \<or> seg = ''.'' then acc
      else if seg = ''..'' then
        (case acc of [] \<Rightarrow> if rooted then [] else [seg]
         | x # xs \<Rightarrow> if x = ''..'' then seg # acc else xs)
      else seg # acc)"

definition norm :: "bool \<Rightarrow> string list \<Rightarrow> string list" where
  "norm rooted ss = rev (fold (clean_step rooted) ss [])"

definition is_abs :: "string \<Rightarrow> bool" where
  "is_abs p \<longleftrightarrow> p \<noteq> [] \<and> hd p = slash"

definition clean_path :: "string \<Rightarrow> string" where
  "clean_path p =
     (let ss = norm (is_abs p) (segments p)
      in if is_abs p then slash # join [slash] ss else if ss = [] then ''.'' else join [slash] ss)"

definition join_path :: "string list \<Rightarrow> string" where
  "join_path es = (case dropWhile (\<lambda>e. e = []) es of [] \<Rightarrow> [] | es' \<Rightarrow> clean_path (join [slash] es'))"

definition base_name :: "string \<Rightarrow> string" where
  "base_name p =
     (if p = [] then ''.''
      else let s = rev (dropWhile ((=) slash) (rev p)) in if s = [] then [slash] else last (segments s))"

definition is_local :: "string \<Rightarrow> bool" where
  "is_local p \<longleftrightarrow> p \<noteq> [] \<and> \<not> is_abs p
     \<and> (let q = (if ''.'' \<in> set (segments p) \<or> ''..'' \<in> set (segments p) then clean_path p else p)
        in q \<noteq> ''..'' \<and> \<not> prefix ''../'' q)"

definition abs_segs :: "string \<Rightarrow> string list" where
  "abs_segs p = norm True (segments p)"

definition plain :: "string \<Rightarrow> bool" where
  "plain s \<longleftrightarrow> s \<noteq> [] \<and> s \<noteq> ''.'' \<and> s \<noteq> ''..'' \<and> slash \<notin> set s"

section \<open>Splitting and joining\<close>

lemma split_on_none: "d \<notin> set s \<Longrightarrow> split_on d s = [s]"
  by (induction s) auto

lemma split_on_append: "split_on d (a @ d # b) = split_on d a @ split_on d b"
proof (induction a)
  case (Cons c a)
  then show ?case by (cases "split_on d a") auto
qed simp

lemma split_on_first: "d \<notin> set a \<Longrightarrow> split_on d (a @ d # b) = a # split_on d b"
  by (simp add: split_on_append split_on_none)

lemma split_on_no_sep: "s \<in> set (split_on d p) \<Longrightarrow> d \<notin> set s"
proof (induction p arbitrary: s)
  case (Cons c p)
  then show ?case by (cases "split_on d p") (auto split: if_splits)
qed simp

lemma split_on_join:
  assumes "ss \<noteq> []" and "\<forall>s \<in> set ss. d \<notin> set s"
  shows "split_on d (join [d] ss) = ss"
  using assms
proof (induction ss)
  case (Cons s ss)
  then show ?case by (cases ss) (simp_all add: split_on_none split_on_first)
qed simp

section \<open>Normal forms\<close>

lemma norm_Nil [simp]: "norm r [] = []"
  by (simp add: norm_def)

lemma norm_append_plain: "\<forall>s \<in> set b. plain s \<Longrightarrow> norm r (a @ b) = norm r a @ b"
proof (induction b rule: rev_induct)
  case (snoc x b)
  then show ?case by (simp add: norm_def clean_step_def plain_def)
qed simp

lemma norm_plain: "\<forall>s \<in> set b. plain s \<Longrightarrow> norm r b = b"
  using norm_append_plain [of b r "[]"] by simp

text \<open>A rooted path cleans to plain segments, a relative one to some \<open>..\<close> and then plain segments.\<close>

lemma norm_rooted:
  assumes "\<forall>s \<in> set ss. slash \<notin> set s"
  shows "\<forall>s \<in> set (norm True ss). plain s"
  using assms
proof (induction ss rule: rev_induct)
  case (snoc x ss)
  let ?a = "fold (clean_step True) ss []"
  have "\<forall>s \<in> set ?a. plain s" using snoc by (simp add: norm_def)
  then have "\<forall>s \<in> set (clean_step True x ?a). plain s"
    using snoc.prems by (cases ?a) (auto simp: clean_step_def plain_def)
  then show ?case by (simp add: norm_def)
qed simp

lemma norm_relative:
  assumes "\<forall>s \<in> set ss. slash \<notin> set s"
  obtains n ps where "norm False ss = replicate n ''..'' @ ps" and "\<forall>s \<in> set ps. plain s"
  using assms
proof (induction ss arbitrary: thesis rule: rev_induct)
  case Nil
  then show ?case by (metis append_Nil empty_iff list.set(1) norm_Nil replicate_0)
next
  case (snoc x ss)
  obtain n ps where np: "norm False ss = replicate n ''..'' @ ps" "\<forall>s \<in> set ps. plain s"
    using snoc.IH snoc.prems(2) by auto
  then have acc: "fold (clean_step False) ss [] = rev ps @ replicate n ''..''"
    by (simp add: norm_def rev_swap)
  have N: "norm False (ss @ [x]) = rev (clean_step False x (rev ps @ replicate n ''..''))"
    by (simp add: norm_def acc)
  consider "x = [] \<or> x = ''.''" | "x = ''..''" "ps = []" | p qs where "x = ''..''" "ps = qs @ [p]" | "plain x"
    using snoc.prems(2) by (cases ps rule: rev_cases) (auto simp: plain_def)
  then show ?case
  proof cases
    case 1
    then show ?thesis using snoc.prems(1) [of n ps] np(2) N by (simp add: clean_step_def)
  next
    case 2
    then have "norm False (ss @ [x]) = replicate (Suc n) ''..'' @ []"
      using N by (cases n) (simp_all add: clean_step_def replicate_append_same)
    then show ?thesis using snoc.prems(1) [of "Suc n" "[]"] by simp
  next
    case 3
    then have "p \<noteq> ''..''" using np(2) by (simp add: plain_def)
    with 3 show ?thesis
      using snoc.prems(1) [of n qs] np(2) N by (simp add: clean_step_def)
  next
    case 4
    then show ?thesis
      using snoc.prems(1) [of n "ps @ [x]"] np(2) N by (simp add: clean_step_def plain_def)
  qed
qed

lemma fold_dots:
  "fold (clean_step False) (replicate n ''..'') (replicate m ''..'') = replicate (n + m) ''..''"
proof (induction n arbitrary: m)
  case (Suc n)
  have "clean_step False ''..'' (replicate m ''..'') = replicate (Suc m) ''..''"
    by (cases m) (simp_all add: clean_step_def)
  then show ?case using Suc [of "Suc m"] by simp
qed simp

lemma norm_dots: "norm False (replicate n ''..'') = replicate n ''..''"
  using fold_dots [of n 0] by (simp add: norm_def)

lemma clean_rel_segs:
  assumes "\<not> is_abs p"
  shows "clean_path p = (let ss = norm False (segments p) in if ss = [] then ''.'' else join [slash] ss)"
  using assms by (simp add: clean_path_def Let_def)

lemma segs_no_slash: "\<forall>s \<in> set (segments p). slash \<notin> set s"
  using split_on_no_sep by blast

lemma join_not_abs:
  assumes "s \<noteq> []" and "slash \<notin> set s"
  shows "\<not> is_abs (join [slash] (s # ss))"
  using assms by (cases s; cases ss) (auto simp: is_abs_def)

text \<open>A clean relative path that is local consists of plain segments.\<close>

lemma local_clean:
  assumes "rel = clean_path p" and "\<not> is_abs p" and "is_local rel" and "rel \<noteq> ''.''"
  obtains ss where "rel = join [slash] ss" and "ss \<noteq> []" and "\<forall>s \<in> set ss. plain s"
proof -
  obtain n ps where np: "norm False (segments p) = replicate n ''..'' @ ps" "\<forall>s \<in> set ps. plain s"
    using norm_relative [OF segs_no_slash] by metis
  have rel: "rel = (if replicate n ''..'' @ ps = [] then ''.'' else join [slash] (replicate n ''..'' @ ps))"
    using assms(1,2) np(1) by (simp add: clean_path_def Let_def)
  have "n = 0"
  proof (rule ccontr)
    assume "n \<noteq> 0"
    then obtain m where m: "n = Suc m" by (cases n) auto
    let ?ss = "replicate n ''..'' @ ps"
    have rs: "rel = join [slash] ?ss" using rel m by simp
    have "\<forall>s \<in> set ps. slash \<notin> set s" using np(2) by (simp add: plain_def)
    then have free: "\<forall>s \<in> set ?ss. slash \<notin> set s" by (simp add: ball_Un)
    have "?ss \<noteq> []" using m by simp
    from split_on_join [OF this free] have sp: "segments rel = ?ss" by (simp only: rs)
    have "\<not> is_abs rel" unfolding rs m using join_not_abs [of "''..''" "replicate m ''..'' @ ps"] by simp
    moreover have "norm False ?ss = ?ss" using np(2) by (simp add: norm_append_plain norm_dots)
    ultimately have "clean_path rel = join [slash] ?ss"
      using \<open>?ss \<noteq> []\<close> by (simp add: clean_path_def sp Let_def)
    moreover have "''..'' \<in> set (segments rel)" using sp m by simp
    moreover have "join [slash] ?ss = ''..'' \<or> prefix ''../'' (join [slash] ?ss)"
      using m by (cases "replicate m ''..'' @ ps") auto
    ultimately show False using assms(3) by (simp add: is_local_def Let_def)
  qed
  then have "rel = join [slash] ps" "ps \<noteq> []" using rel assms(4) by (simp_all split: if_splits)
  then show thesis using np(2) by (rule that)
qed

section \<open>Places\<close>

lemma abs_segs_plain: "\<forall>s \<in> set (abs_segs p). plain s"
  unfolding abs_segs_def by (rule norm_rooted) (rule segs_no_slash)

lemma abs_segs_clean:
  assumes "is_abs p"
  shows "abs_segs (clean_path p) = abs_segs p" and "is_abs (clean_path p)"
proof -
  let ?ss = "norm True (segments p)"
  have c: "clean_path p = slash # join [slash] ?ss" using assms by (simp add: clean_path_def)
  then show "is_abs (clean_path p)" by (simp add: is_abs_def)
  have pl: "\<forall>s \<in> set ?ss. plain s" using abs_segs_plain [of p] by (simp add: abs_segs_def)
  show "abs_segs (clean_path p) = abs_segs p"
  proof (cases "?ss = []")
    case True
    then show ?thesis by (simp add: abs_segs_def c norm_def clean_step_def)
  next
    case False
    have "segments (join [slash] ?ss) = ?ss"
      using split_on_join [OF False] pl by (simp add: plain_def)
    then have "abs_segs (clean_path p) = norm True ([] # ?ss)" by (simp add: abs_segs_def c)
    also have "\<dots> = ?ss" using norm_append_plain [OF pl, of True "[[]]"] by (simp add: norm_def clean_step_def)
    finally show ?thesis by (simp add: abs_segs_def)
  qed
qed

text \<open>Joining clean segments to an absolute path goes down from it.\<close>

lemma abs_segs_join:
  assumes "is_abs r" and "ss \<noteq> []" and "\<forall>s \<in> set ss. plain s"
  shows "abs_segs (join_path [r, join [slash] ss]) = abs_segs r @ ss" and "is_abs (join_path [r, join [slash] ss])"
proof -
  let ?p = "r @ slash # join [slash] ss"
  have r: "r \<noteq> []" "is_abs ?p" using assms(1) by (auto simp: is_abs_def)
  then have j: "join_path [r, join [slash] ss] = clean_path ?p" by (simp add: join_path_def)
  have "segments ?p = segments r @ ss"
    using split_on_join [OF assms(2), of slash] assms(3) by (simp add: split_on_append plain_def)
  then have "abs_segs ?p = abs_segs r @ ss" by (simp add: abs_segs_def norm_append_plain [OF assms(3)])
  with abs_segs_clean [OF r(2)] show "abs_segs (join_path [r, join [slash] ss]) = abs_segs r @ ss"
    and "is_abs (join_path [r, join [slash] ss])" by (simp_all add: j)
qed

lemma join_path_down:
  assumes "is_abs r" and "ss \<noteq> []" and "\<forall>s \<in> set ss. plain s"
  shows "abs_segs (join_path (r # ss)) = abs_segs r @ ss" and "is_abs (join_path (r # ss))"
proof -
  have r: "r \<noteq> []" using assms(1) by (auto simp: is_abs_def)
  obtain s ts where ss: "ss = s # ts" "s \<noteq> []" using assms(2,3) by (cases ss) (auto simp: plain_def)
  have "join_path (r # ss) = join_path [r, join [slash] ss]" using r ss by (cases ts) (simp_all add: join_path_def)
  with abs_segs_join [OF assms] show "abs_segs (join_path (r # ss)) = abs_segs r @ ss"
    and "is_abs (join_path (r # ss))" by simp_all
qed

lemma base_name_no_slash:
  assumes "base_name p = p" and "p \<noteq> [slash]"
  shows "p \<noteq> [] \<and> slash \<notin> set p"
proof -
  have ne: "p \<noteq> []" using assms(1) by (auto simp: base_name_def)
  let ?s = "rev (dropWhile ((=) slash) (rev p))"
  have b: "base_name p = (if ?s = [] then [slash] else last (segments ?s))"
    using ne by (simp add: base_name_def Let_def)
  then have "?s \<noteq> []" using assms by metis
  then have p: "p = last (segments ?s)" using b assms(1) by metis
  have "last (segments ?s) \<in> set (segments ?s)" by simp
  with p have "slash \<notin> set p" using split_on_no_sep by metis
  with ne show ?thesis by simp
qed

end
