(* ===== verification/Files.thy ===== *)
theory Files
  imports Paths "HOL-Library.AList" "HOL-Library.List_Lexorder" "HOL-Library.Char_ord"
begin

text \<open>
  The file system as the storage code sees it: a directory tree without links, permissions and times, kept
  as the list of its entries.  Every function is one call of Go's \<open>os\<close> package; opening, writing and closing
  a file is one step.  A place is the list of names from the root.

  Computations over it (\<open>io\<close>) return a result or an error, and the file system they leave behind, in
  either case.
\<close>

datatype node = Dir | File string

type_synonym place = "string list"
type_synonym fs = "(place \<times> node) list"

datatype io_error = NotExist | NotDir | IsDir | NotEmpty | Failed string

type_synonym 'a io = "fs \<Rightarrow> (io_error + 'a) \<times> fs"

definition ret :: "'a \<Rightarrow> 'a io" where
  "ret a fs = (Inr a, fs)"

definition throw :: "io_error \<Rightarrow> 'a io" where
  "throw e fs = (Inl e, fs)"

definition bind_io :: "'a io \<Rightarrow> ('a \<Rightarrow> 'b io) \<Rightarrow> 'b io" where
  "bind_io m f fs = (case m fs of (Inl e, fs') \<Rightarrow> (Inl e, fs') | (Inr a, fs') \<Rightarrow> f a fs')"

definition get_fs :: "fs io" where
  "get_fs fs = (Inr fs, fs)"

text \<open>An outcome a caller looks at instead of passing it on.\<close>

definition attempt_io :: "'a io \<Rightarrow> (io_error + 'a) io" where
  "attempt_io m fs = (case m fs of (r, fs') \<Rightarrow> (Inr r, fs'))"

fun for_each :: "('a \<Rightarrow> unit io) \<Rightarrow> 'a list \<Rightarrow> unit io" where
  "for_each f [] = ret ()"
| "for_each f (x # xs) = bind_io (f x) (\<lambda>_. for_each f xs)"

section \<open>Calls\<close>

definition node_at :: "place \<Rightarrow> fs \<Rightarrow> node option" where
  "node_at p fs = (if p = [] then Some Dir else map_of fs p)"

definition is_file :: "place \<Rightarrow> fs \<Rightarrow> bool" where
  "is_file p fs = (case node_at p fs of Some (File _) \<Rightarrow> True | _ \<Rightarrow> False)"

definition ancestors :: "place \<Rightarrow> place list" where
  "ancestors p = map (\<lambda>n. take n p) [0..<length p]"

definition absent_error :: "place \<Rightarrow> fs \<Rightarrow> io_error" where
  "absent_error p fs = (if list_ex (\<lambda>q. is_file q fs) (ancestors p) then NotDir else NotExist)"

definition stat :: "place \<Rightarrow> node io" where
  "stat p fs = (case node_at p fs of Some n \<Rightarrow> (Inr n, fs) | None \<Rightarrow> (Inl (absent_error p fs), fs))"

definition ensure_dir :: "place \<Rightarrow> fs \<Rightarrow> fs" where
  "ensure_dir q fs = (if node_at q fs = None then AList.update q Dir fs else fs)"

definition mkdir_all :: "place \<Rightarrow> unit io" where
  "mkdir_all p fs =
     (if list_ex (\<lambda>q. is_file q fs) (ancestors p @ [p]) then (Inl NotDir, fs)
      else (Inr (), fold ensure_dir (ancestors p @ [p]) fs))"

definition write_file :: "place \<Rightarrow> string \<Rightarrow> unit io" where
  "write_file p b fs =
     (if node_at p fs = Some Dir then (Inl IsDir, fs)
      else case node_at (butlast p) fs of
        Some Dir \<Rightarrow> (Inr (), AList.update p (File b) fs)
      | _ \<Rightarrow> (Inl (absent_error p fs), fs))"

definition read_file :: "place \<Rightarrow> string io" where
  "read_file p fs = (case node_at p fs of
     Some (File b) \<Rightarrow> (Inr b, fs) | Some Dir \<Rightarrow> (Inl IsDir, fs) | None \<Rightarrow> (Inl (absent_error p fs), fs))"

definition children :: "place \<Rightarrow> fs \<Rightarrow> string list" where
  "children p fs = sort (remdups (map last (filter (\<lambda>q. q \<noteq> [] \<and> butlast q = p) (map fst fs))))"

definition read_dir :: "place \<Rightarrow> (string \<times> node) list io" where
  "read_dir p fs = (case node_at p fs of
     Some Dir \<Rightarrow> (Inr (List.map_filter (\<lambda>n. map_option (Pair n) (node_at (p @ [n]) fs)) (children p fs)), fs)
   | Some (File _) \<Rightarrow> (Inl NotDir, fs)
   | None \<Rightarrow> (Inl (absent_error p fs), fs))"

definition remove_all :: "place \<Rightarrow> unit io" where
  "remove_all p fs =
     (if node_at p fs = None \<and> absent_error p fs = NotDir then (Inl NotDir, fs)
      else (Inr (), filter (\<lambda>e. \<not> prefix p (fst e)) fs))"

definition remove_one :: "place \<Rightarrow> unit io" where
  "remove_one p fs = (case node_at p fs of
     None \<Rightarrow> (Inl (absent_error p fs), fs)
   | Some n \<Rightarrow> if n = Dir \<and> children p fs \<noteq> [] then (Inl NotEmpty, fs)
       else (Inr (), filter (\<lambda>e. fst e \<noteq> p) fs))"

definition rename_tree :: "place \<Rightarrow> place \<Rightarrow> unit io" where
  "rename_tree p q fs =
     (if node_at p fs = None then (Inl (absent_error p fs), fs)
      else if node_at (butlast q) fs \<noteq> Some Dir then (Inl (absent_error q fs), fs)
      else (Inr (), map (\<lambda>(r, n). (if prefix p r then q @ drop (length p) r else r, n)) fs))"

section \<open>Trees\<close>

text \<open>
  \<open>copyDir\<close>: the entries below the source, a directory before what it holds and names in order, each made
  at the destination.  The entries are those found when the copy starts, which is what the recursion of the
  source sees when neither place is below the other.
\<close>

definition entries_below :: "place \<Rightarrow> fs \<Rightarrow> place list" where
  "entries_below p fs = sort (remdups (map (drop (length p)) (filter (strict_prefix p) (map fst fs))))"

definition copy_entry :: "place \<Rightarrow> place \<Rightarrow> place \<Rightarrow> unit io" where
  "copy_entry src dst r fs = (case node_at (src @ r) fs of
     None \<Rightarrow> (Inl NotExist, fs)
   | Some Dir \<Rightarrow> mkdir_all (dst @ r) fs
   | Some (File b) \<Rightarrow> write_file (dst @ r) b fs)"

definition copy_dir :: "place \<Rightarrow> place \<Rightarrow> unit io" where
  "copy_dir src dst =
     bind_io (stat src) (\<lambda>n. if n \<noteq> Dir then throw (Failed ''source is not a directory'')
       else bind_io (mkdir_all dst) (\<lambda>_. bind_io get_fs (\<lambda>fs. for_each (copy_entry src dst) (entries_below src fs))))"

text \<open>\<open>removeDirContents\<close>: nothing to do when the directory is missing.\<close>

definition remove_dir_contents :: "place \<Rightarrow> unit io" where
  "remove_dir_contents p =
     bind_io (attempt_io (read_dir p)) (\<lambda>r. case r of
       Inl NotExist \<Rightarrow> ret ()
     | Inl e \<Rightarrow> throw e
     | Inr es \<Rightarrow> for_each (\<lambda>e. remove_all (p @ [fst e])) es)"

definition is_dir_empty :: "place \<Rightarrow> bool io" where
  "is_dir_empty p = bind_io (read_dir p) (\<lambda>es. ret (es = []))"

section \<open>What a computation leaves alone\<close>

text \<open>
  \<open>within home m\<close>: started where all directories above \<open>home\<close> exist, \<open>m\<close> changes nothing but \<open>home\<close> and what
  is below it, whether it succeeds or fails.
\<close>

definition above_ok :: "place \<Rightarrow> fs \<Rightarrow> bool" where
  "above_ok home fs \<longleftrightarrow> (\<forall>q. strict_prefix q home \<longrightarrow> node_at q fs = Some Dir)"

definition within :: "place \<Rightarrow> 'a io \<Rightarrow> bool" where
  "within home m \<longleftrightarrow> (\<forall>fs q. above_ok home fs \<longrightarrow> \<not> prefix home q \<longrightarrow> node_at q (snd (m fs)) = node_at q fs)"

named_theorems within_intros \<open>computations that stay below a place\<close>

lemma withinD: "within home m \<Longrightarrow> above_ok home fs \<Longrightarrow> \<not> prefix home q \<Longrightarrow> node_at q (snd (m fs)) = node_at q fs"
  by (simp add: within_def)

lemma above_ok_kept: "within home m \<Longrightarrow> above_ok home fs \<Longrightarrow> above_ok home (snd (m fs))"
  unfolding above_ok_def using withinD [of home m fs]
  by (metis above_ok_def prefix_order.less_le_not_le)

lemma within_same: "(\<And>fs. snd (m fs) = fs) \<Longrightarrow> within home m"
  by (simp add: within_def)

lemma within_ret [within_intros]: "within home (ret a)"
  and within_throw [within_intros]: "within home (throw e)"
  and within_get_fs [within_intros]: "within home get_fs"
  by (simp_all add: within_same ret_def throw_def get_fs_def)

lemma within_reads [within_intros]:
  "within home (stat p)" "within home (read_file p)" "within home (read_dir p)"
  by (auto intro!: within_same simp: stat_def read_file_def read_dir_def split: option.splits node.splits)

lemma within_bind [within_intros]:
  assumes "within home m" and "\<And>a. within home (f a)"
  shows "within home (bind_io m f)"
  unfolding within_def
proof (intro allI impI)
  fix fs q assume a: "above_ok home fs" "\<not> prefix home q"
  obtain r fs' where m: "m fs = (r, fs')" by (cases "m fs")
  have "node_at q fs' = node_at q fs" "above_ok home fs'"
    using withinD [OF assms(1) a] above_ok_kept [OF assms(1) a(1)] m by simp_all
  then show "node_at q (snd (bind_io m f fs)) = node_at q fs"
    using withinD [OF assms(2) _ a(2)] m by (cases r) (simp_all add: bind_io_def)
qed

lemma attempt_io_snd [simp]: "snd (attempt_io m fs) = snd (m fs)"
  by (cases "m fs") (simp add: attempt_io_def)

lemma within_attempt [within_intros]: "within home m \<Longrightarrow> within home (attempt_io m)"
  by (simp add: within_def)

lemma within_for_each [within_intros]:
  assumes "\<And>x. x \<in> set xs \<Longrightarrow> within home (f x)"
  shows "within home (for_each f xs)"
  using assms by (induction xs) (auto intro!: within_intros)

lemma node_at_update: "p \<noteq> [] \<Longrightarrow> node_at q (AList.update p n fs) = (if q = p then Some n else node_at q fs)"
  by (simp add: node_at_def update_conv')

lemma node_at_Nil [simp]: "node_at [] fs = Some Dir"
  by (simp add: node_at_def)

lemma ensure_dir_node: "node_at q (ensure_dir p fs) = (if q = p \<and> node_at q fs = None then Some Dir else node_at q fs)"
proof (cases "p = []")
  case True
  then show ?thesis by (simp add: ensure_dir_def)
qed (auto simp: ensure_dir_def node_at_update)

lemma fold_ensure_dir_node:
  "node_at q (fold ensure_dir ps fs) = (if q \<in> set ps \<and> node_at q fs = None then Some Dir else node_at q fs)"
  by (induction ps arbitrary: fs) (auto simp: ensure_dir_node)

lemma set_ancestors: "set (ancestors p) = {q. strict_prefix q p}"
proof -
  have "strict_prefix q p \<longleftrightarrow> (\<exists>n < length p. q = take n p)" for q
    by (metis append_eq_conv_conj prefix_def prefix_length_less strict_prefix_def strict_prefixE
        take_is_prefix length_take min.absorb4 nat_less_le)
  then show ?thesis by (auto simp: ancestors_def)
qed

lemma mkdir_all_node:
  "node_at q (snd (mkdir_all p fs))
   = (if fst (mkdir_all p fs) = Inr () \<and> prefix q p \<and> node_at q fs = None then Some Dir else node_at q fs)"
proof -
  let ?ps = "ancestors p @ [p]"
  have m: "mkdir_all p fs = (if list_ex (\<lambda>q. is_file q fs) ?ps then (Inl NotDir, fs) else (Inr (), fold ensure_dir ?ps fs))"
    by (simp only: mkdir_all_def)
  have "q \<in> set ?ps \<longleftrightarrow> prefix q p" by (auto simp: set_ancestors strict_prefix_def)
  then have f: "node_at q (fold ensure_dir ?ps fs)
      = (if prefix q p \<and> node_at q fs = None then Some Dir else node_at q fs)"
    using fold_ensure_dir_node [of q ?ps fs] by metis
  show ?thesis
    by (cases "list_ex (\<lambda>q. is_file q fs) ?ps") (simp_all only: m f if_True if_False fst_conv snd_conv sum.distinct simp_thms)
qed

lemma within_mkdir_all [within_intros]: "prefix home p \<Longrightarrow> within home (mkdir_all p)"
  unfolding within_def
proof (intro allI impI)
  fix fs q assume a: "prefix home p" "above_ok home fs" "\<not> prefix home q"
  have "node_at q fs \<noteq> None" if "prefix q p"
  proof -
    have "prefix q home \<or> prefix home q" using that a(1) prefix_same_cases by blast
    then have "strict_prefix q home" using a(3) by (metis strict_prefix_def prefix_order.refl)
    then show ?thesis using a(2) by (simp add: above_ok_def)
  qed
  then show "node_at q (snd (mkdir_all p fs)) = node_at q fs" by (auto simp: mkdir_all_node)
qed

lemma write_file_node:
  "node_at q (snd (write_file p b fs))
   = (if fst (write_file p b fs) = Inr () \<and> q = p then Some (File b) else node_at q fs)"
  by (cases "p = []") (auto simp: write_file_def node_at_update split: option.splits node.splits)

lemma within_write_file [within_intros]: "prefix home p \<Longrightarrow> within home (write_file p b)"
  by (auto simp: within_def write_file_node)

lemma node_at_filter:
  assumes "q \<noteq> []"
  shows "node_at q (filter (\<lambda>e. P (fst e)) fs) = (if P q then node_at q fs else None)"
proof -
  have "map_of (filter (\<lambda>e. P (fst e)) fs) q = (if P q then map_of fs q else None)"
    by (induction fs) auto
  with assms show ?thesis by (simp add: node_at_def)
qed

lemma remove_all_node:
  assumes "p \<noteq> []"
  shows "node_at q (snd (remove_all p fs)) = (if fst (remove_all p fs) = Inr () \<and> prefix p q then None else node_at q fs)"
proof (cases "q = []")
  case True
  with assms show ?thesis by simp
next
  case False
  then show ?thesis by (simp add: remove_all_def node_at_filter [OF False, of "\<lambda>r. \<not> prefix p r"])
qed

lemma within_remove_all [within_intros]:
  assumes "prefix home p" and "home \<noteq> []"
  shows "within home (remove_all p)"
proof -
  have "p \<noteq> []" using assms by auto
  moreover have "prefix home q" if "prefix p q" for q using assms(1) that by (rule prefix_order.trans)
  ultimately show ?thesis by (auto simp: within_def remove_all_node)
qed

lemma remove_one_node:
  assumes "p \<noteq> []" and "q \<noteq> p"
  shows "node_at q (snd (remove_one p fs)) = node_at q fs"
proof (cases "q = []")
  case False
  have "node_at q (filter (\<lambda>e. fst e \<noteq> p) fs) = node_at q fs"
    using node_at_filter [OF False, of "\<lambda>r. r \<noteq> p" fs] assms(2) by simp
  then show ?thesis by (simp add: remove_one_def split: option.splits)
qed simp

lemma within_remove_one [within_intros]:
  assumes "prefix home p" and "home \<noteq> []"
  shows "within home (remove_one p)"
proof -
  have "p \<noteq> []" using assms by auto
  then show ?thesis using assms(1) remove_one_node by (auto simp: within_def)
qed

lemma within_copy_entry [within_intros]: "prefix home dst \<Longrightarrow> within home (copy_entry src dst r)"
  using within_mkdir_all [of home "dst @ r"] within_write_file [of home "dst @ r"]
  by (auto simp: within_def copy_entry_def split: option.splits node.splits)

lemma within_copy_dir [within_intros]: "prefix home dst \<Longrightarrow> within home (copy_dir src dst)"
  unfolding copy_dir_def by (auto intro!: within_intros)

lemma within_remove_dir_contents [within_intros]:
  "prefix home p \<Longrightarrow> home \<noteq> [] \<Longrightarrow> within home (remove_dir_contents p)"
  unfolding remove_dir_contents_def
  by (auto intro!: within_intros split: sum.splits io_error.splits)

lemma within_is_dir_empty [within_intros]: "within home (is_dir_empty p)"
  unfolding is_dir_empty_def by (auto intro!: within_intros)

section \<open>What copying makes\<close>

lemma bind_io_Inr:
  assumes "fst (bind_io m f fs) = Inr b"
  obtains a where "fst (m fs) = Inr a" and "fst (f a (snd (m fs))) = Inr b"
    and "snd (bind_io m f fs) = snd (f a (snd (m fs)))"
  using assms by (cases "m fs"; cases "fst (m fs)") (auto simp: bind_io_def)

lemma mkdir_all_Dir: "fst (mkdir_all p fs) = Inr () \<Longrightarrow> node_at p (snd (mkdir_all p fs)) = Some Dir"
proof -
  assume a: "fst (mkdir_all p fs) = Inr ()"
  then have "\<not> is_file p fs" by (auto simp: mkdir_all_def split: if_splits)
  then have "node_at p fs = None \<or> node_at p fs = Some Dir"
    by (auto simp: is_file_def split: option.splits node.splits)
  with a show ?thesis by (auto simp: mkdir_all_node)
qed

lemma copy_entry_makes:
  "fst (copy_entry src dst r fs) = Inr () \<Longrightarrow>
   node_at (src @ r) fs \<noteq> None \<and> node_at (dst @ r) (snd (copy_entry src dst r fs)) = node_at (src @ r) fs"
  by (auto simp: copy_entry_def mkdir_all_Dir write_file_node split: option.splits node.splits)

lemma copy_entry_keeps:
  "node_at q fs \<noteq> None \<Longrightarrow> q \<noteq> dst @ r \<Longrightarrow> node_at q (snd (copy_entry src dst r fs)) = node_at q fs"
  by (auto simp: copy_entry_def mkdir_all_node write_file_node split: option.splits node.splits)

lemma copy_entry_other:
  "\<not> prefix q (dst @ r) \<Longrightarrow> node_at q (snd (copy_entry src dst r fs)) = node_at q fs"
  by (auto simp: copy_entry_def mkdir_all_node write_file_node split: option.splits node.splits)

lemma for_each_copy_keeps:
  "node_at q fs \<noteq> None \<Longrightarrow> \<forall>r \<in> set rs. q \<noteq> dst @ r \<Longrightarrow>
   node_at q (snd (for_each (copy_entry src dst) rs fs)) = node_at q fs"
proof (induction rs arbitrary: fs)
  case (Cons r rs)
  have k: "node_at q (snd (copy_entry src dst r fs)) = node_at q fs"
    using Cons.prems by (intro copy_entry_keeps) auto
  show ?case
  proof (cases "copy_entry src dst r fs")
    case (Pair res fs1)
    then show ?thesis using Cons.IH [of fs1] Cons.prems k by (cases res) (simp_all add: bind_io_def)
  qed
qed (simp add: ret_def)

lemma apart_places:
  assumes "\<not> prefix src dst" and "\<not> prefix dst src"
  shows "\<not> prefix (src @ r) (dst @ t)"
proof
  assume "prefix (src @ r) (dst @ t)"
  then have "prefix src (dst @ t)" by (rule append_prefixD)
  moreover have "prefix dst (dst @ t)" by simp
  ultimately show False using assms prefix_same_cases by blast
qed

lemma for_each_copies:
  assumes "\<not> prefix src dst" and "\<not> prefix dst src" and "distinct rs"
    and "fst (for_each (copy_entry src dst) rs fs) = Inr ()" and "r \<in> set rs"
  shows "node_at (dst @ r) (snd (for_each (copy_entry src dst) rs fs)) = node_at (src @ r) fs"
  using assms(3-5)
proof (induction rs arbitrary: fs)
  case (Cons x rs)
  let ?fs = "snd (copy_entry src dst x fs)"
  have "fst (bind_io (copy_entry src dst x) (\<lambda>_. for_each (copy_entry src dst) rs) fs) = Inr ()"
    using Cons.prems(2) by simp
  then obtain a where ok: "fst (copy_entry src dst x fs) = Inr a"
      "fst (for_each (copy_entry src dst) rs ?fs) = Inr ()"
      "snd (bind_io (copy_entry src dst x) (\<lambda>_. for_each (copy_entry src dst) rs) fs)
       = snd (for_each (copy_entry src dst) rs ?fs)"
    by (rule bind_io_Inr)
  have made: "node_at (src @ x) fs \<noteq> None" "node_at (dst @ x) ?fs = node_at (src @ x) fs"
    using copy_entry_makes [of src dst x fs] ok(1) by auto
  show ?case
  proof (cases "r = x")
    case True
    then have "\<forall>t \<in> set rs. dst @ r \<noteq> dst @ t" using Cons.prems(1) by auto
    with made True have "node_at (dst @ r) (snd (for_each (copy_entry src dst) rs ?fs)) = node_at (src @ r) fs"
      using for_each_copy_keeps [of "dst @ r" ?fs rs dst src] by simp
    then show ?thesis using ok(3) by simp
  next
    case False
    then have "node_at (dst @ r) (snd (for_each (copy_entry src dst) rs ?fs)) = node_at (src @ r) ?fs"
      using Cons.IH [of ?fs] Cons.prems ok(2) by simp
    also have "\<dots> = node_at (src @ r) fs" by (rule copy_entry_other) (rule apart_places [OF assms(1,2)])
    finally show ?thesis using ok(3) by simp
  qed
qed simp

lemma set_entries_below: "set (entries_below p fs) = {r. r \<noteq> [] \<and> p @ r \<in> fst ` set fs}"
proof -
  have K: "r \<in> drop (length p) ` {q \<in> fst ` set fs. strict_prefix p q} \<longleftrightarrow> r \<noteq> [] \<and> p @ r \<in> fst ` set fs" for r
  proof
    assume "r \<in> drop (length p) ` {q \<in> fst ` set fs. strict_prefix p q}"
    then obtain q where "q \<in> fst ` set fs" "strict_prefix p q" "r = drop (length p) q" by blast
    moreover then obtain z zs where "q = p @ z # zs" by (auto elim: strict_prefixE')
    ultimately show "r \<noteq> [] \<and> p @ r \<in> fst ` set fs" by simp
  next
    assume "r \<noteq> [] \<and> p @ r \<in> fst ` set fs"
    then have "p @ r \<in> {q \<in> fst ` set fs. strict_prefix p q}" "r = drop (length p) (p @ r)"
      by (auto simp: strict_prefix_def)
    then show "r \<in> drop (length p) ` {q \<in> fst ` set fs. strict_prefix p q}" by blast
  qed
  have S: "set (entries_below p fs) = drop (length p) ` {q \<in> fst ` set fs. strict_prefix p q}"
    by (simp add: entries_below_def)
  show ?thesis by (rule set_eqI) (simp only: S K mem_Collect_eq)
qed

lemma children_mem:
  assumes "p @ [d] \<in> fst ` set fs"
  shows "d \<in> set (children p fs)"
proof -
  have "p @ [d] \<in> set (filter (\<lambda>q. q \<noteq> [] \<and> butlast q = p) (map fst fs))" using assms by simp
  then have "last (p @ [d]) \<in> last ` set (filter (\<lambda>q. q \<noteq> [] \<and> butlast q = p) (map fst fs))" by (rule imageI)
  then show ?thesis unfolding children_def set_sort set_remdups set_map last_snoc .
qed

lemma node_at_mem: "p \<noteq> [] \<Longrightarrow> node_at p fs = Some n \<Longrightarrow> p \<in> fst ` set fs"
  by (auto simp: node_at_def dest: map_of_SomeD intro: rev_image_eqI)

text \<open>A successful copy reproduces every entry of the source.\<close>

lemma copy_dir_copies:
  assumes "\<not> prefix src dst" and "\<not> prefix dst src"
    and "fst (copy_dir src dst fs) = Inr ()" and "node_at (src @ r) fs = Some n"
  shows "node_at (dst @ r) (snd (copy_dir src dst fs)) = Some n"
proof -
  have st: "stat src fs = (Inr Dir, fs)"
    using assms(3) by (auto simp: copy_dir_def bind_io_def stat_def throw_def split: option.splits if_splits)
  let ?fs = "snd (mkdir_all dst fs)"
  let ?rs = "entries_below src ?fs"
  have mk: "fst (mkdir_all dst fs) = Inr ()"
    and fe: "fst (for_each (copy_entry src dst) ?rs ?fs) = Inr ()"
    and res: "snd (copy_dir src dst fs) = snd (for_each (copy_entry src dst) ?rs ?fs)"
    using assms(3) st by (cases "mkdir_all dst fs"; cases "fst (mkdir_all dst fs)"; simp add: copy_dir_def bind_io_def get_fs_def)+
  have keep: "node_at (src @ t) ?fs = node_at (src @ t) fs" for t
    using apart_places [OF assms(1,2), of t "[]"] by (simp add: mkdir_all_node)
  show ?thesis
  proof (cases "r = []")
    case True
    have "n = Dir" using assms(4) st True by (simp add: stat_def split: option.splits)
    moreover have "node_at dst (snd (for_each (copy_entry src dst) ?rs ?fs)) = node_at dst ?fs"
      using mkdir_all_Dir [OF mk] by (intro for_each_copy_keeps) (auto simp: set_entries_below)
    ultimately show ?thesis using True mkdir_all_Dir [OF mk] res by simp
  next
    case False
    have "src @ r \<in> fst ` set ?fs" using keep [of r] assms(4) False by (intro node_at_mem [of _ _ n]) auto
    then have "r \<in> set ?rs" using False by (simp add: set_entries_below)
    moreover have "distinct ?rs" by (simp add: entries_below_def)
    ultimately have "node_at (dst @ r) (snd (for_each (copy_entry src dst) ?rs ?fs)) = node_at (src @ r) ?fs"
      using for_each_copies [OF assms(1,2) _ fe] by blast
    then show ?thesis using keep [of r] assms(4) res by simp
  qed
qed

lemma copy_dir_keeps: "\<not> prefix q dst \<Longrightarrow> \<not> prefix dst q \<Longrightarrow> node_at q (snd (copy_dir src dst fs)) = node_at q fs"
proof -
  assume a: "\<not> prefix q dst" "\<not> prefix dst q"
  have fe: "node_at q (snd (for_each (copy_entry src dst) rs fs)) = node_at q fs" for rs fs
  proof (induction rs arbitrary: fs)
    case (Cons r rs)
    have "\<not> prefix q (dst @ r)" using apart_places [OF a, of "[]" r] by simp
    then have "node_at q (snd (copy_entry src dst r fs)) = node_at q fs" by (rule copy_entry_other)
    then show ?case using Cons by (cases "copy_entry src dst r fs"; cases "fst (copy_entry src dst r fs)")
      (auto simp: bind_io_def)
  qed (simp add: ret_def)
  have mk: "node_at q (snd (mkdir_all dst fs)) = node_at q fs" for fs using a(1) by (simp add: mkdir_all_node)
  show ?thesis
    using fe mk by (auto simp: copy_dir_def bind_io_def stat_def throw_def get_fs_def split: option.splits prod.splits sum.splits)
      (metis snd_conv)+
qed

end
