(* ===== verification/LocalStore.thy ===== *)
theory LocalStore
  imports Files
begin

text \<open>
  The local storage backend, \<open>storage/local.go\<close>: every method that touches the file system, except the
  health probe, the change hash and the age filter of staged uploads, which read times.

  Files are the entries of \<open>Files\<close>; the wrapped error texts of the source are the \<open>io_error\<close> they wrap.
  Names read from a directory are joined to it as they are.
\<close>

section \<open>Paths\<close>

record local_cfg =
  projects_path :: string
  keep_history_files :: bool

abbreviation invalid_path :: io_error where
  "invalid_path \<equiv> Failed ''invalid report path''"

definition store_path :: "string \<Rightarrow> string \<Rightarrow> string list \<Rightarrow> string option" where
  "store_path root pid sub =
     (let rel = join_path (pid # sub)
      in if pid = ''.'' \<or> base_name pid \<noteq> pid \<or> \<not> is_local rel
            \<or> (rel \<noteq> pid \<and> \<not> prefix (pid @ [slash]) rel)
         then None else Some (join_path [root, rel]))"

definition with_path :: "local_cfg \<Rightarrow> string \<Rightarrow> string list \<Rightarrow> (string \<Rightarrow> 'a io) \<Rightarrow> 'a io" where
  "with_path c pid sub f = (case store_path (projects_path c) pid sub of None \<Rightarrow> throw invalid_path | Some p \<Rightarrow> f p)"

text \<open>The place of a path joined to names.\<close>

definition at :: "string \<Rightarrow> string list \<Rightarrow> place" where
  "at dir names = abs_segs (join_path (dir # names))"

definition exists_at :: "place \<Rightarrow> bool io" where
  "exists_at p = bind_io (attempt_io (stat p)) (\<lambda>r. case r of
     Inr _ \<Rightarrow> ret True | Inl NotExist \<Rightarrow> ret False | Inl e \<Rightarrow> throw e)"

section \<open>Projects\<close>

definition create_project :: "local_cfg \<Rightarrow> string \<Rightarrow> unit io" where
  "create_project c pid = with_path c pid [] (\<lambda>base.
     bind_io (mkdir_all (at base [''results''])) (\<lambda>_. mkdir_all (at base [''reports''])))"

definition delete_project :: "local_cfg \<Rightarrow> string \<Rightarrow> unit io" where
  "delete_project c pid = with_path c pid [] (\<lambda>base.
     bind_io (attempt_io (stat (abs_segs base))) (\<lambda>r.
       if r = Inl NotExist then throw (Failed ''project not found'') else remove_all (abs_segs base)))"

definition rename_project :: "local_cfg \<Rightarrow> string \<Rightarrow> string \<Rightarrow> unit io" where
  "rename_project c old new = with_path c old [] (\<lambda>p. with_path c new [] (\<lambda>q.
     bind_io (attempt_io (stat (abs_segs p))) (\<lambda>r. if r = Inl NotExist then throw (Failed ''project not found'')
       else bind_io (attempt_io (stat (abs_segs q))) (\<lambda>r.
         case r of Inr _ \<Rightarrow> throw (Failed ''target project dir already exists'')
         | Inl _ \<Rightarrow> rename_tree (abs_segs p) (abs_segs q)))))"

definition project_exists :: "local_cfg \<Rightarrow> string \<Rightarrow> bool io" where
  "project_exists c pid = with_path c pid [] (\<lambda>base. exists_at (abs_segs base))"

definition list_projects :: "local_cfg \<Rightarrow> string list io" where
  "list_projects c = bind_io (attempt_io (read_dir (abs_segs (projects_path c)))) (\<lambda>r. case r of
     Inl NotExist \<Rightarrow> ret [] | Inl e \<Rightarrow> throw e
   | Inr es \<Rightarrow> ret (sort (map fst (filter (\<lambda>(n, x). x = Dir \<and> n \<noteq> ''staging'') es))))"

section \<open>Results\<close>

text \<open>Creating the directory of a file and then the file.\<close>

definition put_file :: "place \<Rightarrow> string \<Rightarrow> unit io" where
  "put_file p b = bind_io (mkdir_all (butlast p)) (\<lambda>_. write_file p b)"

definition write_result_file :: "local_cfg \<Rightarrow> string \<Rightarrow> string \<Rightarrow> string \<Rightarrow> string \<Rightarrow> unit io" where
  "write_result_file c pid batch file b =
     with_path c pid [''results'', batch, file] (\<lambda>dest. put_file (abs_segs dest) b)"

definition list_names :: "(node \<Rightarrow> bool) \<Rightarrow> place \<Rightarrow> string list io" where
  "list_names sel p = bind_io (attempt_io (read_dir p)) (\<lambda>r. case r of
     Inl NotExist \<Rightarrow> ret [] | Inl e \<Rightarrow> throw e | Inr es \<Rightarrow> ret (map fst (filter (sel \<circ> snd) es)))"

definition list_result_files :: "local_cfg \<Rightarrow> string \<Rightarrow> string \<Rightarrow> string list io" where
  "list_result_files c pid batch = with_path c pid [''results'', batch] (\<lambda>p. list_names (\<lambda>x. x \<noteq> Dir) (abs_segs p))"

definition clean_batch :: "local_cfg \<Rightarrow> string \<Rightarrow> string \<Rightarrow> unit io" where
  "clean_batch c pid batch =
     (if batch = [] then throw (Failed ''batch ID must not be empty'')
      else with_path c pid [''results'', batch] (\<lambda>p. remove_all (abs_segs p)))"

definition list_result_batches :: "local_cfg \<Rightarrow> string \<Rightarrow> string list io" where
  "list_result_batches c pid = with_path c pid [''results''] (\<lambda>p. list_names (\<lambda>x. x = Dir) (abs_segs p))"

definition clean_results :: "local_cfg \<Rightarrow> string \<Rightarrow> unit io" where
  "clean_results c pid = with_path c pid [''results''] (\<lambda>p. remove_dir_contents (abs_segs p))"

section \<open>Reports\<close>

definition prepare_local :: "local_cfg \<Rightarrow> string \<Rightarrow> string io" where
  "prepare_local c pid = with_path c pid [] (\<lambda>base.
     bind_io (mkdir_all (at base [''results''])) (\<lambda>_. bind_io (mkdir_all (at base [''reports''])) (\<lambda>_. ret base)))"

definition cleanup_local :: "string \<Rightarrow> unit io" where
  "cleanup_local dir = ret ()"

definition variable_dirs :: "string list" where
  "variable_dirs = [''data'', ''widgets'', ''history'']"

definition publish_dir :: "string \<Rightarrow> int \<Rightarrow> string \<Rightarrow> unit io" where
  "publish_dir dir n d =
     bind_io (attempt_io (stat (at dir [''reports'', ''latest'', d]))) (\<lambda>r.
       if r = Inl NotExist then ret ()
       else copy_dir (at dir [''reports'', ''latest'', d]) (at dir [''reports'', itoa n, d]))"

definition publish_report :: "int \<Rightarrow> string \<Rightarrow> unit io" where
  "publish_report n dir =
     bind_io (attempt_io (is_dir_empty (at dir [''reports'', ''latest'']))) (\<lambda>r. case r of
       Inl NotExist \<Rightarrow> ret ()
     | Inl e \<Rightarrow> throw e
     | Inr True \<Rightarrow> ret ()
     | Inr False \<Rightarrow> bind_io (mkdir_all (at dir [''reports'', itoa n])) (\<lambda>_. for_each (publish_dir dir n) variable_dirs))"

definition delete_report :: "local_cfg \<Rightarrow> string \<Rightarrow> string \<Rightarrow> unit io" where
  "delete_report c pid rid =
     (if rid = [] then throw (Failed ''report ID must not be empty'')
      else if \<not> list_all is_digit rid then throw (Failed ''invalid report ID: must be a positive integer'')
      else with_path c pid [''reports'', rid] (\<lambda>p.
        bind_io (attempt_io (stat (abs_segs p))) (\<lambda>r.
          if r = Inl NotExist then throw (Failed ''report not found'') else remove_all (abs_segs p))))"

definition prune_report_dirs :: "local_cfg \<Rightarrow> string \<Rightarrow> int list \<Rightarrow> unit io" where
  "prune_report_dirs c pid ns = with_path c pid [''reports''] (\<lambda>p. for_each (\<lambda>n. remove_all (at p [itoa n])) ns)"

section \<open>History\<close>

definition keep_history :: "local_cfg \<Rightarrow> string \<Rightarrow> string \<Rightarrow> unit io" where
  "keep_history c pid batch =
     (let sub = (if batch = [] then ''history'' else join_path [batch, ''history''])
      in with_path c pid [] (\<lambda>base.
        let dest = at base [''results'', sub]; latest = at base [''reports'', ''latest'', ''history'']
        in if \<not> keep_history_files c then remove_all dest
           else bind_io (mkdir_all dest) (\<lambda>_. bind_io (attempt_io (stat latest)) (\<lambda>r.
             case r of Inr _ \<Rightarrow> copy_dir latest dest | Inl _ \<Rightarrow> ret ()))))"

definition clean_history :: "local_cfg \<Rightarrow> string \<Rightarrow> unit io" where
  "clean_history c pid = with_path c pid [] (\<lambda>base.
     let reports = at base [''reports'']; executor = at base [''results'', ''executor.json'']
     in bind_io (remove_dir_contents (at base [''reports'', ''latest''])) (\<lambda>_.
        bind_io (attempt_io (read_dir reports)) (\<lambda>r.
        bind_io (case r of Inl _ \<Rightarrow> ret ()
          | Inr es \<Rightarrow> for_each (\<lambda>e. remove_all (reports @ [fst e]))
              (filter (\<lambda>(n, x). x = Dir \<and> n \<noteq> ''latest'' \<and> n \<noteq> ''0'') es)) (\<lambda>_.
        bind_io (remove_dir_contents (at base [''results'', ''history''])) (\<lambda>_.
        bind_io (attempt_io (stat executor)) (\<lambda>r.
          case r of Inr _ \<Rightarrow> write_file executor [] | Inl _ \<Rightarrow> ret ()))))))"

section \<open>Reading\<close>

definition read_project_file :: "local_cfg \<Rightarrow> string \<Rightarrow> string \<Rightarrow> string io" where
  "read_project_file c pid rel = with_path c pid [rel] (\<lambda>p. read_file (abs_segs p))"

definition read_project_dir :: "local_cfg \<Rightarrow> string \<Rightarrow> string \<Rightarrow> (string \<times> node) list io" where
  "read_project_dir c pid rel = with_path c pid [rel] (\<lambda>p. read_dir (abs_segs p))"

definition open_report_file :: "local_cfg \<Rightarrow> string \<Rightarrow> string \<Rightarrow> string \<Rightarrow> string io" where
  "open_report_file c pid rid file = with_path c pid [''reports'', rid, file] (\<lambda>p. read_file (abs_segs p))"

definition list_report_builds :: "local_cfg \<Rightarrow> string \<Rightarrow> int list io" where
  "list_report_builds c pid = with_path c pid [''reports''] (\<lambda>p.
     bind_io (list_names (\<lambda>x. x = Dir) (abs_segs p)) (\<lambda>ns. ret (sort (List.map_filter parse_int ns))))"

definition latest_report_exists :: "local_cfg \<Rightarrow> string \<Rightarrow> bool io" where
  "latest_report_exists c pid = with_path c pid [''reports'', ''latest''] (\<lambda>p. exists_at (abs_segs p))"

section \<open>Playwright reports\<close>

definition write_playwright_file :: "local_cfg \<Rightarrow> string \<Rightarrow> string \<Rightarrow> string \<Rightarrow> unit io" where
  "write_playwright_file c pid sub b =
     with_path c pid [''playwright-reports'', sub] (\<lambda>dest. put_file (abs_segs dest) b)"

definition playwright_report_exists :: "local_cfg \<Rightarrow> string \<Rightarrow> int \<Rightarrow> bool io" where
  "playwright_report_exists c pid n =
     with_path c pid [''playwright-reports'', itoa n, ''index.html''] (\<lambda>p. exists_at (abs_segs p))"

definition copy_playwright_latest :: "local_cfg \<Rightarrow> string \<Rightarrow> int \<Rightarrow> unit io" where
  "copy_playwright_latest c pid n = with_path c pid [''playwright-reports''] (\<lambda>p.
     bind_io (attempt_io (is_dir_empty (at p [''latest'']))) (\<lambda>r. case r of
       Inl NotExist \<Rightarrow> ret ()
     | Inl e \<Rightarrow> throw e
     | Inr True \<Rightarrow> ret ()
     | Inr False \<Rightarrow> bind_io (mkdir_all (at p [itoa n])) (\<lambda>_. copy_dir (at p [''latest'']) (at p [itoa n]))))"

definition clean_playwright_latest :: "local_cfg \<Rightarrow> string \<Rightarrow> unit io" where
  "clean_playwright_latest c pid =
     with_path c pid [''playwright-reports'', ''latest''] (\<lambda>p. remove_dir_contents (abs_segs p))"

definition list_playwright_data :: "local_cfg \<Rightarrow> string \<Rightarrow> int \<Rightarrow> string list io" where
  "list_playwright_data c pid n =
     with_path c pid [''playwright-reports'', itoa n, ''data''] (\<lambda>p. list_names (\<lambda>x. x \<noteq> Dir) (abs_segs p))"

definition read_playwright_file :: "local_cfg \<Rightarrow> string \<Rightarrow> string \<Rightarrow> string io" where
  "read_playwright_file c pid sub = with_path c pid [''playwright-reports'', sub] (\<lambda>p. read_file (abs_segs p))"

section \<open>Staged uploads\<close>

definition write_raw_blob :: "local_cfg \<Rightarrow> string \<Rightarrow> string \<Rightarrow> unit io" where
  "write_raw_blob c key b = put_file (at (projects_path c) [key]) b"

definition open_blob :: "local_cfg \<Rightarrow> string \<Rightarrow> string io" where
  "open_blob c key = read_file (at (projects_path c) [key])"

definition delete_blob :: "local_cfg \<Rightarrow> string \<Rightarrow> unit io" where
  "delete_blob c key = bind_io (attempt_io (remove_one (at (projects_path c) [key]))) (\<lambda>r.
     case r of Inl NotExist \<Rightarrow> ret () | Inl e \<Rightarrow> throw e | Inr _ \<Rightarrow> ret ())"

section \<open>Durations\<close>

text \<open>\<open>wallClockDurationMs\<close>, on the start and stop of each file that could be read and parsed.\<close>

fun span_step :: "string \<times> (int \<times> int) option \<Rightarrow> (int \<times> int) option \<Rightarrow> (int \<times> int) option" where
  "span_step (name, ts) acc =
     (if \<not> has_suffix name ''.json'' then acc
      else case ts of None \<Rightarrow> acc
      | Some (start, stop) \<Rightarrow>
          if start = 0 \<or> stop = 0 \<or> stop \<le> start then acc
          else case acc of None \<Rightarrow> Some (start, stop)
          | Some (lo, hi) \<Rightarrow> Some (if start < lo then start else lo, if stop > hi then stop else hi))"

definition wall_clock_duration :: "(string \<times> (int \<times> int) option) list \<Rightarrow> int" where
  "wall_clock_duration files = (case fold span_step files None of None \<Rightarrow> 0 | Some (lo, hi) \<Rightarrow> wrap64 (hi - lo))"

text \<open>\<open>ReadBuildStats\<close>.  Reading the JSON documents is a parameter: the counts and the duration of a summary, the
  counts of a statistic, the start and stop of a result.\<close>

record build_stats =
  st_passed :: int
  st_failed :: int
  st_broken :: int
  st_skipped :: int
  st_unknown :: int
  st_total :: int
  st_duration :: int

record stats_json =
  dec_summary :: "string \<Rightarrow> (build_stats \<times> int option) option"
  dec_statistic :: "string \<Rightarrow> build_stats option"
  dec_times :: "string \<Rightarrow> (int \<times> int) option"

definition read_times :: "stats_json \<Rightarrow> place \<Rightarrow> fs \<Rightarrow> string \<Rightarrow> string \<times> (int \<times> int) option" where
  "read_times j p fs n = (n, case fst (read_file (p @ [n]) fs) of Inl _ \<Rightarrow> None | Inr b \<Rightarrow> dec_times j b)"

definition duration_from_files :: "stats_json \<Rightarrow> place \<Rightarrow> int io" where
  "duration_from_files j p = bind_io (attempt_io (read_dir p)) (\<lambda>r. case r of
     Inl _ \<Rightarrow> ret 0
   | Inr es \<Rightarrow> bind_io get_fs (\<lambda>fs. ret (wall_clock_duration
       (map (read_times j p fs) (map fst (filter (\<lambda>e. snd e \<noteq> Dir) es))))))"

definition read_build_stats :: "stats_json \<Rightarrow> local_cfg \<Rightarrow> string \<Rightarrow> int \<Rightarrow> build_stats io" where
  "read_build_stats j c pid n = with_path c pid [''reports'', itoa n] (\<lambda>dir.
     bind_io (attempt_io (read_file (at dir [''widgets'', ''summary.json'']))) (\<lambda>a.
     bind_io (attempt_io (read_file (at dir [''widgets'', ''statistic.json'']))) (\<lambda>b.
       case (case a of Inl _ \<Rightarrow> None | Inr d \<Rightarrow> dec_summary j d) of
         Some (st, time) \<Rightarrow> ret (st\<lparr>st_duration := (case time of None \<Rightarrow> 0 | Some t \<Rightarrow> t)\<rparr>)
       | None \<Rightarrow>
         (case (case b of Inl _ \<Rightarrow> None | Inr d \<Rightarrow> dec_statistic j d) of
            Some st \<Rightarrow> if 0 < st_total st
              then bind_io (duration_from_files j (at dir [''data'', ''test-results''])) (\<lambda>t. ret (st\<lparr>st_duration := t\<rparr>))
              else throw (Failed ''build stats not found'')
          | None \<Rightarrow> throw (Failed ''build stats not found'')))))"

section \<open>Paths stay inside the project\<close>

lemma store_path_below:
  assumes "store_path root pid sub = Some p" and "is_abs root"
  obtains ss where "abs_segs p = abs_segs root @ pid # ss" and "is_abs p" and "plain pid"
    and "sub = [] \<longrightarrow> ss = []"
proof -
  let ?j = "join [slash] (pid # sub)"
  let ?rel = "join_path (pid # sub)"
  have c: "pid \<noteq> ''.''" "base_name pid = pid" "is_local ?rel" "?rel = pid \<or> prefix (pid @ [slash]) ?rel"
    and p: "p = join_path [root, ?rel]"
    using assms(1) by (auto simp: store_path_def Let_def split: if_splits)
  have ne: "pid \<noteq> []" using c(2) by (auto simp: base_name_def)
  then have rel: "?rel = clean_path ?j" by (simp add: join_path_def)
  have ns: "slash \<notin> set pid"
  proof (rule ccontr)
    assume "\<not> slash \<notin> set pid"
    then have "pid = [slash]" using base_name_no_slash [OF c(2)] by blast
    then have "is_abs ?j" by (cases sub) (auto simp: is_abs_def)
    then have "is_abs ?rel" using abs_segs_clean(2) rel by metis
    then show False using c(3) by (simp add: is_local_def)
  qed
  have nabs: "\<not> is_abs ?j" using ne ns by (cases pid; cases sub) (auto simp: is_abs_def)
  have dot: "?rel \<noteq> ''.''"
  proof
    assume d: "?rel = ''.''"
    then have "prefix (pid @ [slash]) ''.''" using c(1,4) by simp
    then show False using ne by (cases pid) auto
  qed
  obtain ss where ss: "?rel = join [slash] ss" "ss \<noteq> []" "\<forall>s \<in> set ss. plain s"
    using local_clean [OF rel nabs c(3) dot] by metis
  have sg: "segments ?rel = ss" using split_on_join [OF ss(2), of slash] ss(1,3) by (simp add: plain_def)
  have "\<exists>ts. ss = pid # ts"
  proof (cases "?rel = pid")
    case True
    then show ?thesis using sg split_on_none [OF ns] by auto
  next
    case False
    then obtain t where "?rel = pid @ slash # t" using c(4) by (auto elim!: prefixE)
    then show ?thesis using sg split_on_first [OF ns, of t] by auto
  qed
  then obtain ts where ts: "ss = pid # ts" by blast
  have "abs_segs p = abs_segs root @ pid # ts" "is_abs p"
    using abs_segs_join [OF assms(2) ss(2,3)] by (simp_all add: p ss(1) ts)
  moreover have "plain pid" using ss(3) ts by simp
  moreover have "sub = [] \<longrightarrow> ts = []"
  proof
    assume e: "sub = []"
    have "plain pid" using ss(3) ts by simp
    then have "norm False [pid] = [pid]" using norm_plain [of "[pid]" False] by simp
    moreover have "\<not> is_abs pid" using ne ns by (cases pid) (auto simp: is_abs_def)
    ultimately have "?rel = pid" using e rel by (simp add: clean_path_def split_on_none [OF ns])
    then show "ts = []" using sg split_on_none [OF ns] ts by simp
  qed
  ultimately show thesis by (rule that)
qed

lemma at_below: "is_abs dir \<Longrightarrow> names \<noteq> [] \<Longrightarrow> \<forall>s \<in> set names. plain s \<Longrightarrow> at dir names = abs_segs dir @ names"
  by (simp add: at_def join_path_down)

lemma plain_chars: "s \<noteq> [] \<Longrightarrow> CHR ''.'' \<notin> set s \<Longrightarrow> slash \<notin> set s \<Longrightarrow> plain s"
  by (auto simp: plain_def)

lemma slash_not_digits: "slash \<notin> set (dec_digits n)"
  using dec_digits_all [of n] by (auto simp: list_all_iff is_digit_def)

lemma plain_itoa [simp]: "plain (itoa n)"
  by (rule plain_chars) (auto simp: itoa_def slash_not_digits dot_not_in_digits)

lemma plain_names [simp]:
  "plain ''results''" "plain ''reports''" "plain ''latest''" "plain ''history''" "plain ''data''" "plain ''widgets''"
  "plain ''executor.json''" "plain ''playwright-reports''" "plain ''index.html''"
  by (simp_all add: plain_def)

lemma store_path_plain:
  assumes "store_path root pid ss = Some p" and "is_abs root" and "\<forall>s \<in> set ss. plain s"
  shows "abs_segs p = abs_segs root @ pid # ss"
proof -
  obtain ts where "plain pid" using store_path_below [OF assms(1,2)] by metis
  then have pl: "\<forall>s \<in> set (pid # ss). plain s" using assms(3) by simp
  have "segments (join [slash] (pid # ss)) = pid # ss" using pl by (intro split_on_join) (auto simp: plain_def)
  moreover have "\<not> is_abs (join [slash] (pid # ss))"
    using \<open>plain pid\<close> by (cases pid; cases ss) (auto simp: is_abs_def plain_def)
  ultimately have "join_path (pid # ss) = join [slash] (pid # ss)"
    using \<open>plain pid\<close> norm_plain [OF pl, of False] by (simp add: join_path_def clean_path_def plain_def)
  moreover have "p = join_path [root, join_path (pid # ss)]"
    using assms(1) by (auto simp: store_path_def Let_def split: if_splits)
  ultimately show ?thesis using abs_segs_join [OF assms(2) _ pl] by simp
qed

text \<open>The directory of a project.\<close>

definition home :: "local_cfg \<Rightarrow> string \<Rightarrow> place" where
  "home c pid = abs_segs (projects_path c) @ [pid]"

lemma home_ne [simp]: "home c pid \<noteq> []"
  by (simp add: home_def)

lemma within_with_path:
  assumes "is_abs (projects_path c)"
    and "\<And>p ss. abs_segs p = home c pid @ ss \<Longrightarrow> is_abs p \<Longrightarrow> sub = [] \<longrightarrow> ss = [] \<Longrightarrow> within (home c pid) (f p)"
  shows "within (home c pid) (with_path c pid sub f)"
proof (cases "store_path (projects_path c) pid sub")
  case None
  then show ?thesis by (simp add: with_path_def within_throw)
next
  case (Some p)
  obtain ss where "abs_segs p = abs_segs (projects_path c) @ pid # ss" "is_abs p" "sub = [] \<longrightarrow> ss = []"
    using store_path_below [OF Some assms(1)] by metis
  then have "within (home c pid) (f p)" by (intro assms(2)) (simp_all add: home_def)
  with Some show ?thesis by (simp add: with_path_def)
qed

section \<open>Operations of one project\<close>

datatype store_op =
    CreateProject
  | DeleteProject
  | RenameProject string
  | WriteResultFile string string string
  | CleanBatch string
  | CleanResults
  | PrepareLocal
  | PublishReport int
  | DeleteReport string
  | PruneReportDirs "int list"
  | KeepHistory string
  | CleanHistory
  | WritePlaywrightFile string string
  | CopyPlaywrightLatest int
  | CleanPlaywrightLatest

definition run_op :: "local_cfg \<Rightarrow> string \<Rightarrow> store_op \<Rightarrow> unit io" where
  "run_op c pid op =
     (case op of
        CreateProject \<Rightarrow> create_project c pid
      | DeleteProject \<Rightarrow> delete_project c pid
      | RenameProject new \<Rightarrow> rename_project c pid new
      | WriteResultFile batch file b \<Rightarrow> write_result_file c pid batch file b
      | CleanBatch batch \<Rightarrow> clean_batch c pid batch
      | CleanResults \<Rightarrow> clean_results c pid
      | PrepareLocal \<Rightarrow> bind_io (prepare_local c pid) (\<lambda>_. ret ())
      | PublishReport n \<Rightarrow> bind_io (prepare_local c pid) (publish_report n)
      | DeleteReport rid \<Rightarrow> delete_report c pid rid
      | PruneReportDirs ns \<Rightarrow> prune_report_dirs c pid ns
      | KeepHistory batch \<Rightarrow> keep_history c pid batch
      | CleanHistory \<Rightarrow> clean_history c pid
      | WritePlaywrightFile sub b \<Rightarrow> write_playwright_file c pid sub b
      | CopyPlaywrightLatest n \<Rightarrow> copy_playwright_latest c pid n
      | CleanPlaywrightLatest \<Rightarrow> clean_playwright_latest c pid)"

lemma within_mkdir_above: "strict_prefix p h \<Longrightarrow> within h (mkdir_all p)"
  unfolding within_def
proof (intro allI impI)
  fix fs q assume a: "strict_prefix p h" "above_ok h fs"
  have "node_at q fs \<noteq> None" if "prefix q p"
  proof -
    have "strict_prefix q h" using that a(1) by (metis prefix_order.le_less_trans)
    then show ?thesis using a(2) by (simp add: above_ok_def)
  qed
  then show "node_at q (snd (mkdir_all p fs)) = node_at q fs" by (auto simp: mkdir_all_node)
qed

lemma within_put_file [within_intros]:
  assumes "prefix h p" and "h \<noteq> []"
  shows "within h (put_file p b)"
proof -
  have "p \<noteq> []" using assms by auto
  then have p: "p = butlast p @ [last p]" by simp
  have "within h (mkdir_all (butlast p))"
  proof (cases "p = h")
    case True
    then have "strict_prefix (butlast p) h" using p by (metis prefixI strict_prefix_def append_self_conv not_Cons_self2)
    then show ?thesis by (rule within_mkdir_above)
  next
    case False
    then have "prefix h (butlast p)" using assms(1) p by (metis prefix_snoc)
    then show ?thesis by (rule within_mkdir_all)
  qed
  then show ?thesis unfolding put_file_def using assms(1) by (intro within_bind within_write_file)
qed

lemma plain_batch_history:
  assumes "plain batch" and "is_abs base"
  shows "at base [''results'', join_path [batch, ''history'']] = abs_segs base @ [''results'', batch, ''history'']"
proof -
  have b: "batch \<noteq> []" "slash \<notin> set batch" using assms(1) by (auto simp: plain_def)
  have "segments (batch @ ''/history'') = [batch, ''history'']" using split_on_first [OF b(2), of "''history''"] by simp
  moreover have "\<not> is_abs (batch @ ''/history'')" using b by (cases batch) (auto simp: is_abs_def)
  ultimately have "join_path [batch, ''history''] = batch @ ''/history''"
    using b(1) assms(1) norm_plain [of "[batch, ''history'']" False]
    by (simp add: join_path_def clean_path_def)
  moreover have "base \<noteq> []" using assms(2) by (auto simp: is_abs_def)
  ultimately have "at base [''results'', join_path [batch, ''history'']] = at base [''results'', batch, ''history'']"
    using b(1) by (simp add: at_def join_path_def)
  then show ?thesis using assms by (simp add: at_below)
qed

text \<open>Renaming moves one directory to the other.\<close>

lemma rename_tree_other:
  assumes "\<not> prefix p x" and "\<not> prefix q x"
  shows "node_at x (snd (rename_tree p q fs)) = node_at x fs"
proof (cases "x = []")
  case False
  have "map_of (map (\<lambda>(r, n). (if prefix p r then q @ drop (length p) r else r, n)) fs) x = map_of fs x"
    using assms by (induction fs) auto
  with False show ?thesis by (simp add: rename_tree_def node_at_def)
qed simp

lemma rename_project_other:
  assumes "is_abs (projects_path c)" and "\<not> prefix (home c old) x" and "\<not> prefix (home c new) x"
  shows "node_at x (snd (rename_project c old new fs)) = node_at x fs"
proof -
  have h: "abs_segs p = home c pid" if "store_path (projects_path c) pid [] = Some p" for pid p
    using store_path_below [OF that assms(1)] by (metis home_def)
  have same: "snd (stat p fs) = fs" for p by (simp add: stat_def split: option.splits)
  show ?thesis
    using assms(2,3) rename_tree_other h same
    by (auto simp: rename_project_def with_path_def bind_io_def attempt_io_def throw_def
        split: option.splits prod.splits sum.splits) (metis snd_conv)+
qed

lemma rename_project_existing:
  assumes "is_abs (projects_path c)" and "node_at (home c new) fs \<noteq> None"
  shows "snd (rename_project c old new fs) = fs"
proof -
  have h: "abs_segs p = home c pid" if "store_path (projects_path c) pid [] = Some p" for pid p
    using store_path_below [OF that assms(1)] by (metis home_def)
  have same: "snd (stat p fs) = fs" for p by (simp add: stat_def split: option.splits)
  have "fst (stat (home c new) fs) \<noteq> Inl e" for e using assms(2) by (auto simp: stat_def split: option.splits)
  then show ?thesis
    using h same
    by (auto simp: rename_project_def with_path_def bind_io_def attempt_io_def throw_def
        split: option.splits prod.splits sum.splits) (metis fst_conv snd_conv)+
qed

lemma within_publish:
  assumes "abs_segs dir = h" and "is_abs dir" and "h \<noteq> []"
  shows "within h (publish_report n dir)"
proof -
  have p: "prefix h (at dir names)" if "names \<noteq> []" "\<forall>s \<in> set names. plain s" for names
    using at_below [OF assms(2) that] assms(1) by simp
  have "within h (publish_dir dir n d)" if "d \<in> set variable_dirs" for d
  proof -
    have "plain d" using that by (auto simp: variable_dirs_def)
    then show ?thesis unfolding publish_dir_def by (auto intro!: within_intros p)
  qed
  then show ?thesis unfolding publish_report_def
    by (auto intro!: within_intros p split: sum.splits io_error.splits bool.splits)
qed

lemma within_keep_history:
  assumes "is_abs (projects_path c)" and "batch = [] \<or> plain batch"
  shows "within (home c pid) (keep_history c pid batch)"
  unfolding keep_history_def Let_def
proof (rule within_with_path [OF assms(1)], goal_cases)
  case (1 base ss)
  let ?d = "at base [''results'', if batch = [] then ''history'' else join_path [batch, ''history'']]"
  have "prefix (home c pid) ?d" using 1 assms(2) plain_batch_history [OF _ 1(2)] by (auto simp: at_below)
  then show ?case by (auto intro!: within_intros split: sum.splits)
qed

lemma within_clean_history:
  assumes "is_abs (projects_path c)"
  shows "within (home c pid) (clean_history c pid)"
  unfolding clean_history_def Let_def
proof (rule within_with_path [OF assms(1)], goal_cases)
  case (1 base ss)
  have p: "prefix (home c pid) (at base names)" if "names \<noteq> []" "\<forall>s \<in> set names. plain s" for names
    using at_below [OF 1(2) that] 1(1) by simp
  show ?case by (auto intro!: within_intros p prefix_prefix split: sum.splits)
qed

lemma within_exists_at [within_intros]: "within h (exists_at p)"
  unfolding exists_at_def by (auto intro!: within_intros split: sum.splits io_error.splits)

lemma within_prepare:
  assumes "is_abs (projects_path c)"
  shows "within (home c pid) (prepare_local c pid)"
  unfolding prepare_local_def
  by (rule within_with_path [OF assms]) (auto intro!: within_intros simp: at_below)

lemma within_bind_path:
  assumes "is_abs (projects_path c)"
    and "\<And>p ss. abs_segs p = home c pid @ ss \<Longrightarrow> is_abs p \<Longrightarrow> sub = [] \<longrightarrow> ss = [] \<Longrightarrow> within (home c pid) (bind_io (f p) g)"
  shows "within (home c pid) (bind_io (with_path c pid sub f) g)"
proof -
  have "bind_io (with_path c pid sub f) g = with_path c pid sub (\<lambda>p. bind_io (f p) g)"
    by (auto simp: with_path_def bind_io_def throw_def fun_eq_iff split: option.splits)
  then show ?thesis using within_with_path [OF assms(1), of pid sub "\<lambda>p. bind_io (f p) g"] assms(2) by simp
qed

lemma bind_io_assoc: "bind_io (bind_io m f) g = bind_io m (\<lambda>a. bind_io (f a) g)"
  by (auto simp: bind_io_def fun_eq_iff split: prod.splits sum.splits)

lemma bind_io_ret [simp]: "bind_io (ret a) f = f a"
  by (simp add: bind_io_def ret_def fun_eq_iff)

lemma within_prepare_publish:
  assumes "is_abs (projects_path c)"
  shows "within (home c pid) (bind_io (prepare_local c pid) (publish_report n))"
  unfolding prepare_local_def
proof (rule within_bind_path [OF assms], goal_cases)
  case (1 p ss)
  then have "abs_segs p = home c pid" by simp
  then show ?case using within_publish [of p "home c pid" n] 1(2)
    by (simp add: bind_io_assoc) (auto intro!: within_intros simp: at_below)
qed

lemma within_run_op:
  assumes "is_abs (projects_path c)" and "\<And>b. op \<noteq> KeepHistory b" and "\<And>new. op \<noteq> RenameProject new"
  shows "within (home c pid) (run_op c pid op)"
proof (cases op)
  case (PublishReport n)
  then show ?thesis using within_prepare_publish [OF assms(1)] by (simp add: run_op_def)
next
  case CleanHistory
  then show ?thesis using within_clean_history [OF assms(1)] by (simp add: run_op_def)
next
  case PrepareLocal
  then show ?thesis using within_prepare [OF assms(1)] by (auto simp: run_op_def intro!: within_intros)
next
  case (CopyPlaywrightLatest n)
  then show ?thesis
    by (auto simp: run_op_def copy_playwright_latest_def at_below
        intro!: within_with_path [OF assms(1)] within_intros split: sum.splits io_error.splits bool.splits)
qed (use assms(2,3) in \<open>auto simp: run_op_def create_project_def delete_project_def write_result_file_def clean_batch_def
      clean_results_def delete_report_def prune_report_dirs_def write_playwright_file_def clean_playwright_latest_def at_below
      intro!: within_with_path [OF assms(1)] within_intros\<close>)

text \<open>The directory \<open>keep_history\<close> works in.  The batch is joined without the check of \<open>store_path\<close>.\<close>

definition history_dir :: "local_cfg \<Rightarrow> string \<Rightarrow> string \<Rightarrow> place option" where
  "history_dir c pid batch = map_option
     (\<lambda>base. at base [''results'', if batch = [] then ''history'' else join_path [batch, ''history'']])
     (store_path (projects_path c) pid [])"

lemma keep_history_other:
  assumes "history_dir c pid batch = Some d" and "\<not> prefix d x" and "prefix x d \<longrightarrow> node_at x fs = Some Dir"
  shows "node_at x (snd (keep_history c pid batch fs)) = node_at x fs"
proof -
  obtain base where base: "store_path (projects_path c) pid [] = Some base"
    and d: "at base [''results'', if batch = [] then ''history'' else join_path [batch, ''history'']] = d"
    using assms(1) by (auto simp: history_dir_def)
  have ne: "d \<noteq> []" using assms(2) by auto
  show ?thesis
  proof (cases "keep_history_files c")
    case False
    then show ?thesis using base d assms(2) ne
      by (simp add: keep_history_def with_path_def Let_def remove_all_node)
  next
    case True
    let ?fs = "snd (mkdir_all d fs)" and ?latest = "at base [''reports'', ''latest'', ''history'']"
    have made: "node_at x ?fs = node_at x fs" using assms(3) by (auto simp: mkdir_all_node)
    have stat: "snd (stat p g) = g" for p g by (simp add: stat_def split: option.splits)
    have run: "keep_history c pid batch fs = bind_io (mkdir_all d) (\<lambda>_. bind_io (attempt_io (stat ?latest)) (\<lambda>r.
        case r of Inr _ \<Rightarrow> copy_dir ?latest d | Inl _ \<Rightarrow> ret ())) fs"
      using base d True by (simp add: keep_history_def with_path_def Let_def)
    show ?thesis
    proof (cases "fst (mkdir_all d fs)")
      case (Inl e)
      then show ?thesis using run made by (simp add: bind_io_def split: prod.splits)
    next
      case (Inr u)
      have "above_ok d ?fs" unfolding above_ok_def
      proof (intro allI impI)
        fix p assume p: "strict_prefix p d"
        then have "\<not> is_file p fs" using Inr by (auto simp: mkdir_all_def list_ex_iff set_ancestors split: if_splits)
        then have "node_at p fs = None \<or> node_at p fs = Some Dir"
          by (cases "node_at p fs") (auto simp: is_file_def split: node.splits)
        then show "node_at p ?fs = Some Dir" using Inr p by (auto simp: mkdir_all_node strict_prefix_def)
      qed
      then have "node_at x (snd (copy_dir ?latest d ?fs)) = node_at x ?fs"
        using withinD [OF within_copy_dir [OF prefix_order.refl]] assms(2) by blast
      then show ?thesis using run made Inr stat
        by (auto simp: bind_io_def attempt_io_def ret_def split: prod.splits sum.splits) (metis snd_conv)+
    qed
  qed
qed

text \<open>
  The contract of the backend's clients: what one project does is invisible in another one.  The state is
  the file system, an operation comes with its project, and the observer looks at one place.
\<close>

definition store_step :: "local_cfg \<Rightarrow> string \<times> store_op \<Rightarrow> fs \<Rightarrow> fs" where
  "store_step c po fs = snd (run_op c (fst po) (snd po) fs)"

text \<open>
  The places an operation may change: those below the directory of its project, below the new one when it
  renames, and, when it keeps the history, those below the directory the batch leads to and on the way to it.
\<close>

definition reaches :: "local_cfg \<Rightarrow> string \<Rightarrow> store_op \<Rightarrow> place \<Rightarrow> bool" where
  "reaches c pid op q \<longleftrightarrow> prefix (home c pid) q \<or> (case op of
     RenameProject new \<Rightarrow> prefix (home c new) q
   | KeepHistory batch \<Rightarrow> (case history_dir c pid batch of
       None \<Rightarrow> False | Some d \<Rightarrow> prefix d q \<or> prefix q d \<and> \<not> prefix q (abs_segs (projects_path c)))
   | _ \<Rightarrow> False)"

definition untouched :: "local_cfg \<Rightarrow> place \<Rightarrow> fs \<Rightarrow> fs \<Rightarrow> bool" where
  "untouched c q fs0 fs \<longleftrightarrow> node_at q fs = node_at q fs0
     \<and> (\<forall>p. prefix p (abs_segs (projects_path c)) \<longrightarrow> node_at p fs = Some Dir)"

definition elsewhere :: "local_cfg \<Rightarrow> place \<Rightarrow> string \<times> store_op \<Rightarrow> bool" where
  "elsewhere c q po \<longleftrightarrow> is_abs (projects_path c) \<and> \<not> reaches c (fst po) (snd po) q
     \<and> \<not> reaches c (fst po) (snd po) (abs_segs (projects_path c))"

lemma above_home: "strict_prefix p (home c pid) \<longleftrightarrow> prefix p (abs_segs (projects_path c))"
  by (auto simp: home_def strict_prefix_def)

lemma not_home: "prefix p (abs_segs (projects_path c)) \<Longrightarrow> \<not> prefix (home c pid) p"
  using above_home by (metis prefix_order.less_le_not_le)

text \<open>A batch that is a directory name, as the server makes them, stays in the project.\<close>

lemma reaches_plain_batch:
  assumes "is_abs (projects_path c)" and "batch = [] \<or> plain batch"
  shows "reaches c pid (KeepHistory batch) q \<longleftrightarrow> prefix (home c pid) q"
proof (cases "history_dir c pid batch")
  case (Some d)
  then obtain base where base: "store_path (projects_path c) pid [] = Some base"
    and d: "d = at base [''results'', if batch = [] then ''history'' else join_path [batch, ''history'']]"
    by (auto simp: history_dir_def)
  have "abs_segs base = home c pid" "is_abs base" using store_path_below [OF base assms(1)] by (metis home_def)+
  then have "prefix (home c pid) d" using assms(2) d plain_batch_history [of batch base] by (auto simp: at_below)
  then have "prefix d q \<longrightarrow> prefix (home c pid) q" "prefix q d \<longrightarrow> prefix q (home c pid) \<or> prefix (home c pid) q"
    using prefix_order.trans prefix_same_cases by blast+
  moreover have "prefix q (home c pid) \<longrightarrow> prefix q (abs_segs (projects_path c)) \<or> prefix (home c pid) q"
    using above_home [of q c pid] by (auto simp: strict_prefix_def)
  ultimately show ?thesis using Some by (auto simp: reaches_def)
qed (simp add: reaches_def)

lemma run_op_unreached:
  assumes "is_abs (projects_path c)" and "\<forall>p. prefix p (abs_segs (projects_path c)) \<longrightarrow> node_at p fs = Some Dir"
    and "\<not> reaches c pid op q"
  shows "node_at q (snd (run_op c pid op fs)) = node_at q fs"
proof -
  consider (rename) new where "op = RenameProject new" | (history) b where "op = KeepHistory b"
    | (other) "\<And>b. op \<noteq> KeepHistory b" "\<And>new. op \<noteq> RenameProject new" by blast
  then show ?thesis
  proof cases
    case rename
    then show ?thesis using rename_project_other [OF assms(1), of pid q new fs] assms(3) by (simp add: run_op_def reaches_def)
  next
    case history
    show ?thesis
    proof (cases "history_dir c pid b")
      case None
      then show ?thesis using history by (simp add: run_op_def keep_history_def history_dir_def with_path_def throw_def Let_def)
    next
      case (Some d)
      then have "\<not> prefix d q" "prefix q d \<longrightarrow> node_at q fs = Some Dir" using assms(2,3) history by (auto simp: reaches_def)
      then show ?thesis using keep_history_other [OF Some] history by (simp add: run_op_def)
    qed
  next
    case other
    have "above_ok (home c pid) fs" using assms(2) above_home by (auto simp: above_ok_def)
    moreover have "\<not> prefix (home c pid) q" using assms(3) by (simp add: reaches_def)
    ultimately show ?thesis using withinD [OF within_run_op [OF assms(1) other]] by blast
  qed
qed

lemma reaches_root:
  assumes "\<not> reaches c pid op (abs_segs (projects_path c))" and "prefix p (abs_segs (projects_path c))"
  shows "\<not> reaches c pid op p"
  using assms not_home [of p c] prefix_order.trans [of _ p "abs_segs (projects_path c)"]
  by (auto simp: reaches_def split: store_op.splits option.splits)

lemma store_step_untouched:
  assumes "elsewhere c q po" and "untouched c q fs0 fs"
  shows "untouched c q fs0 (store_step c po fs)"
proof -
  have A: "is_abs (projects_path c)" "\<forall>p. prefix p (abs_segs (projects_path c)) \<longrightarrow> node_at p fs = Some Dir"
    using assms by (auto simp: elsewhere_def untouched_def)
  have "node_at x (snd (run_op c (fst po) (snd po) fs)) = node_at x fs"
    if "x = q \<or> prefix x (abs_segs (projects_path c))" for x
    by (rule run_op_unreached [OF A]) (use that assms(1) reaches_root in \<open>auto simp: elsewhere_def\<close>)
  with assms(2) A show ?thesis by (auto simp: untouched_def store_step_def)
qed

interpretation store_isolation: guarded_machine "store_step c" "untouched c q fs0" "elsewhere c q" for c q fs0
  by unfold_locales (rule store_step_untouched)

text \<open>A batch that climbs out reaches the history of another project.\<close>

lemma keep_history_climbs:
  "snd (keep_history \<lparr>projects_path = ''/p'', keep_history_files = False\<rparr> ''a'' ''../../b/results''
     [([''p''], Dir), ([''p'', ''b'', ''results'', ''history'', ''f''], File ''x'')]) = [([''p''], Dir)]"
  by code_simp

text \<open>C1: The local backend changes nothing but what an operation reaches.  Whatever the project names, batch names, file
  names and sub-paths of a run of operations are, with or without separators and dots, an operation that succeeds or fails
  changes only places below the directory of its own project, below the new directory when it renames, and, when it keeps
  the history, below the directory that its batch leads to and on the way there.  The last is the one path that is not
  checked: a batch that is no directory name may lead out of the project, so for it the theorem says where; it must not
  lead to the root of the storage or above, which would then be removed.\<close>

theorem projects_isolated:
  assumes "is_abs (projects_path c)"
    and "\<forall>p. prefix p (abs_segs (projects_path c)) \<longrightarrow> node_at p fs = Some Dir"
    and "\<forall>(pid, op) \<in> set ops. \<not> reaches c pid op q \<and> \<not> reaches c pid op (abs_segs (projects_path c))"
  shows "node_at q (fold (store_step c) ops fs) = node_at q fs"
proof -
  have "list_all (elsewhere c q) ops" using assms(1,3) by (auto simp: list_all_iff elsewhere_def)
  from store_isolation.guarded_run [OF this, of fs fs] assms(2)
  show ?thesis by (simp add: untouched_def)
qed

lemma projects_isolated_witness:
  "let c = \<lparr>projects_path = ''/p'', keep_history_files = True\<rparr>;
       fs = [([''p''], Dir), ([''p'', ''b''], Dir), ([''p'', ''b'', ''keep''], File ''x'')]
   in node_at [''p'', ''b'', ''keep'']
        (fold (store_step c) [(''a'', WriteResultFile ''../../b'' ''keep'' ''y''), (''a'', CreateProject), (''..'', DeleteProject),
           (''a'', KeepHistory ''../../c'')] fs)
      = Some (File ''x'')"
proof -
  let ?c = "\<lparr>projects_path = ''/p'', keep_history_files = True\<rparr>"
  let ?fs = "[([''p''], Dir), ([''p'', ''b''], Dir), ([''p'', ''b'', ''keep''], File ''x'')]"
  let ?ops = "[(''a'', WriteResultFile ''../../b'' ''keep'' ''y''), (''a'', CreateProject), (''..'', DeleteProject),
    (''a'', KeepHistory ''../../c'')]"
  have root: "abs_segs ''/p'' = [''p'']" by code_simp
  have d: "history_dir ?c ''a'' ''../../c'' = Some [''p'', ''c'', ''history'']" by code_simp
  have "is_abs (projects_path ?c)" by code_simp
  moreover have "\<forall>p. prefix p (abs_segs (projects_path ?c)) \<longrightarrow> node_at p ?fs = Some Dir"
    by (auto simp: root prefix_Cons node_at_def)
  moreover have "\<forall>(pid, op) \<in> set ?ops. \<not> reaches ?c pid op [''p'', ''b'', ''keep'']
      \<and> \<not> reaches ?c pid op (abs_segs (projects_path ?c))"
    by (simp add: home_def root reaches_def d)
  ultimately have "node_at [''p'', ''b'', ''keep''] (fold (store_step ?c) ?ops ?fs) = node_at [''p'', ''b'', ''keep''] ?fs"
    by (rule projects_isolated)
  then show ?thesis by (simp only: Let_def) (simp add: node_at_def)
qed

section \<open>Publishing\<close>

lemma l_not_digits: "CHR ''l'' \<notin> set (dec_digits n)"
  using dec_digits_all [of n] by (auto simp: list_all_iff is_digit_def)

lemma digit_not_latest: "itoa n \<noteq> ''latest''"
proof -
  have "CHR ''l'' \<notin> set (itoa n)" by (simp add: itoa_def l_not_digits)
  moreover have "CHR ''l'' \<in> set ''latest''" by simp
  ultimately show ?thesis by metis
qed

lemma publish_dir_keeps:
  assumes "is_abs dir" and "plain d" and "\<not> prefix q (abs_segs dir @ [''reports'', itoa n, d])"
    and "\<not> prefix (abs_segs dir @ [''reports'', itoa n, d]) q"
  shows "node_at q (snd (publish_dir dir n d fs)) = node_at q fs"
proof -
  have "at dir [''reports'', itoa n, d] = abs_segs dir @ [''reports'', itoa n, d]"
    using assms(1,2) by (intro at_below) auto
  then show ?thesis using copy_dir_keeps [OF assms(3,4)]
    by (auto simp: publish_dir_def bind_io_def attempt_io_def stat_def ret_def split: option.splits)
qed

lemma publish_dir_copies:
  assumes "is_abs dir" and "plain d" and "fst (publish_dir dir n d fs) = Inr ()"
    and "node_at (abs_segs dir @ [''reports'', ''latest'', d]) fs \<noteq> None"
    and "node_at (abs_segs dir @ [''reports'', ''latest'', d] @ r) fs = Some x"
  shows "node_at (abs_segs dir @ [''reports'', itoa n, d] @ r) (snd (publish_dir dir n d fs)) = Some x"
proof -
  let ?src = "abs_segs dir @ [''reports'', ''latest'', d]" and ?dst = "abs_segs dir @ [''reports'', itoa n, d]"
  have at: "at dir [''reports'', ''latest'', d] = ?src" "at dir [''reports'', itoa n, d] = ?dst"
    using assms(1,2) by (simp_all add: at_below)
  have "publish_dir dir n d fs = copy_dir ?src ?dst fs"
    using assms(4) by (auto simp: publish_dir_def at bind_io_def attempt_io_def stat_def)
  moreover have "\<not> prefix ?src ?dst" "\<not> prefix ?dst ?src" using digit_not_latest [of n] by auto
  ultimately show ?thesis using copy_dir_copies [of ?src ?dst fs r x] assms(3,5) by simp
qed

lemma publish_dirs_copy:
  assumes "is_abs dir" and "distinct ds" and "\<forall>d \<in> set ds. plain d" and "d \<in> set ds"
    and "fst (for_each (publish_dir dir n) ds fs) = Inr ()"
    and "node_at (abs_segs dir @ [''reports'', ''latest'', d]) fs \<noteq> None"
    and "node_at (abs_segs dir @ [''reports'', ''latest'', d] @ r) fs = Some x"
  shows "node_at (abs_segs dir @ [''reports'', itoa n, d] @ r) (snd (for_each (publish_dir dir n) ds fs)) = Some x"
  using assms(2-7)
proof (induction ds arbitrary: fs)
  case (Cons e ds)
  let ?fs = "snd (publish_dir dir n e fs)"
  have "fst (bind_io (publish_dir dir n e) (\<lambda>_. for_each (publish_dir dir n) ds) fs) = Inr ()"
    using Cons.prems(4) by simp
  then obtain a where ok: "fst (publish_dir dir n e fs) = Inr a" "fst (for_each (publish_dir dir n) ds ?fs) = Inr ()"
      "snd (bind_io (publish_dir dir n e) (\<lambda>_. for_each (publish_dir dir n) ds) fs) = snd (for_each (publish_dir dir n) ds ?fs)"
    by (rule bind_io_Inr)
  have latest: "node_at (abs_segs dir @ [''reports'', ''latest'', d] @ t) ?fs = node_at (abs_segs dir @ [''reports'', ''latest'', d] @ t) fs" for t
    using Cons.prems(2) digit_not_latest [of n] by (intro publish_dir_keeps [OF assms(1)]) auto
  show ?case
  proof (cases "d = e")
    case True
    then have made: "node_at (abs_segs dir @ [''reports'', itoa n, d] @ r) ?fs = Some x"
      using publish_dir_copies [OF assms(1), of e n fs r x] ok(1) Cons.prems(2,5,6) by simp
    have rest: "node_at (abs_segs dir @ [''reports'', itoa n, d] @ r) (snd (for_each (publish_dir dir n) ds' fs'))
        = node_at (abs_segs dir @ [''reports'', itoa n, d] @ r) fs'" if "d \<notin> set ds'" "\<forall>d \<in> set ds'. plain d" for ds' fs'
      using that
    proof (induction ds' arbitrary: fs')
      case (Cons g ds')
      have "node_at (abs_segs dir @ [''reports'', itoa n, d] @ r) (snd (publish_dir dir n g fs'))
          = node_at (abs_segs dir @ [''reports'', itoa n, d] @ r) fs'"
        using Cons.prems by (intro publish_dir_keeps [OF assms(1)]) auto
      then show ?case using Cons by (cases "publish_dir dir n g fs'"; cases "fst (publish_dir dir n g fs')")
        (auto simp: bind_io_def)
    qed (simp add: ret_def)
    have "d \<notin> set ds" using Cons.prems(1) True by simp
    then show ?thesis using rest [of ds ?fs] made ok(3) Cons.prems(2) by simp
  next
    case False
    then have "d \<in> set ds" using Cons.prems(3) by simp
    then show ?thesis using Cons.IH [of ?fs] Cons.prems ok latest [of "[]"] latest [of r] by simp
  qed
qed simp

text \<open>C34: Publishing takes a snapshot: after a successful publication of build \<open>n\<close> every file and directory that
  the latest report has under \<open>data\<close>, \<open>widgets\<close> and \<open>history\<close> is in the directory of the build, with the
  same content.\<close>

theorem published_snapshot:
  assumes "is_abs dir" and "fst (publish_report n dir fs) = Inr ()"
    and "d \<in> {''data'', ''widgets'', ''history''}"
    and "node_at (abs_segs dir @ [''reports'', ''latest'']) fs = Some Dir"
    and "node_at (abs_segs dir @ [''reports'', ''latest'', d]) fs = Some Dir"
    and "node_at (abs_segs dir @ [''reports'', ''latest'', d] @ r) fs = Some x"
  shows "node_at (abs_segs dir @ [''reports'', itoa n, d] @ r) (snd (publish_report n dir fs)) = Some x"
proof -
  let ?latest = "abs_segs dir @ [''reports'', ''latest'']" and ?new = "abs_segs dir @ [''reports'', itoa n]"
  let ?fs = "snd (mkdir_all ?new fs)"
  have at: "at dir [''reports'', ''latest''] = ?latest" "at dir [''reports'', itoa n] = ?new"
    using assms(1) by (simp_all add: at_below)
  have pd: "plain d" using assms(3) by auto
  have "?latest @ [d] \<in> fst ` set fs" using assms(5) by (intro node_at_mem [of _ _ Dir]) auto
  then have "?latest @ [d] \<in> fst ` set fs" by simp
  then have "d \<in> set (children ?latest fs)" by (rule children_mem)
  then have ne: "List.map_filter (\<lambda>m. map_option (Pair m) (node_at (?latest @ [m]) fs)) (children ?latest fs) \<noteq> []"
    using assms(5) by (auto simp: List.map_filter_def filter_empty_conv)
  then have e: "attempt_io (is_dir_empty ?latest) fs = (Inr (Inr False), fs)"
    using assms(4) by (simp add: attempt_io_def is_dir_empty_def bind_io_def read_dir_def ret_def)
  have pr: "publish_report n dir fs = bind_io (mkdir_all ?new) (\<lambda>_. for_each (publish_dir dir n) variable_dirs) fs"
    by (simp add: publish_report_def at bind_io_def [of "attempt_io _"] e)
  obtain a where ok: "fst (for_each (publish_dir dir n) variable_dirs ?fs) = Inr ()"
      "snd (publish_report n dir fs) = snd (for_each (publish_dir dir n) variable_dirs ?fs)"
    using assms(2) unfolding pr by (rule bind_io_Inr)
  have keep: "node_at (?latest @ d # t) ?fs = node_at (?latest @ d # t) fs" for t
    using digit_not_latest [of n] by (auto simp: mkdir_all_node)
  have "distinct variable_dirs" "\<forall>d \<in> set variable_dirs. plain d" "d \<in> set variable_dirs"
    using assms(3) by (auto simp: variable_dirs_def)
  from publish_dirs_copy [OF assms(1) this ok(1)] show ?thesis
    unfolding ok(2) using assms(5,6) keep [of "[]"] keep [of r] by simp
qed

lemma published_snapshot_witness:
  "let fs = [([''p''], Dir), ([''p'', ''reports''], Dir), ([''p'', ''reports'', ''latest''], Dir),
             ([''p'', ''reports'', ''latest'', ''data''], Dir), ([''p'', ''reports'', ''latest'', ''data'', ''f''], File ''x'')]
   in node_at [''p'', ''reports'', ''7'', ''data'', ''f''] (snd (publish_report 7 ''/p'' fs)) = Some (File ''x'')"
proof -
  let ?fs = "[([''p''], Dir), ([''p'', ''reports''], Dir), ([''p'', ''reports'', ''latest''], Dir),
             ([''p'', ''reports'', ''latest'', ''data''], Dir), ([''p'', ''reports'', ''latest'', ''data'', ''f''], File ''x'')]"
  have root: "abs_segs ''/p'' = [''p'']" "is_abs ''/p''" "itoa 7 = ''7''" by code_simp+
  have "fst (publish_report 7 ''/p'' ?fs) = Inr ()" by code_simp
  from published_snapshot [where d = "''data''" and r = "[''f'']" and x = "File ''x''", OF root(2) this]
  have "node_at [''p'', ''reports'', ''7'', ''data'', ''f''] (snd (publish_report 7 ''/p'' ?fs)) = Some (File ''x'')"
    by (simp add: root node_at_def)
  then show ?thesis by (simp only: Let_def)
qed

section \<open>Writing and reading\<close>

lemma put_file_ok: "fst (put_file p b fs) = Inr () \<Longrightarrow> node_at p (snd (put_file p b fs)) = Some (File b)"
  unfolding put_file_def by (erule bind_io_Inr) (simp add: write_file_node)

text \<open>An uploaded result file is read back as it was written, under whatever batch and file name the write
  accepted.\<close>

theorem result_file_read_back:
  assumes "fst (write_result_file c pid batch file b fs) = Inr ()"
  shows "fst (read_project_file c pid (''results/'' @ batch @ ''/'' @ file)
      (snd (write_result_file c pid batch file b fs))) = Inr b"
proof -
  have "join_path [pid, ''results/'' @ batch @ ''/'' @ file] = join_path [pid, ''results'', batch, file]"
    if "pid \<noteq> []" using that by (simp add: join_path_def)
  moreover have "pid \<noteq> []"
    using assms by (auto simp: write_result_file_def with_path_def store_path_def Let_def base_name_def throw_def split: if_splits)
  ultimately have same: "store_path (projects_path c) pid [''results/'' @ batch @ ''/'' @ file]
      = store_path (projects_path c) pid [''results'', batch, file]" by (simp add: store_path_def)
  then show ?thesis
    using assms put_file_ok
    by (auto simp: write_result_file_def read_project_file_def with_path_def read_file_def throw_def split: option.splits)
qed

lemma result_file_read_back_witness:
  "let c = \<lparr>projects_path = ''/p'', keep_history_files = True\<rparr>
   in fst (read_project_file c ''a'' ''results/b1/r.json'' (snd (write_result_file c ''a'' ''b1'' ''r.json'' ''x'' []))) = Inr ''x''"
proof -
  let ?c = "\<lparr>projects_path = ''/p'', keep_history_files = True\<rparr>"
  have "fst (write_result_file ?c ''a'' ''b1'' ''r.json'' ''x'' []) = Inr ()" by code_simp
  from result_file_read_back [OF this] show ?thesis by (simp only: Let_def) simp
qed

section \<open>Pruning\<close>

lemma with_path_plain:
  assumes "fst (with_path c pid ss f fs) = Inr x" and "is_abs (projects_path c)" and "\<forall>s \<in> set ss. plain s"
  obtains p where "with_path c pid ss f = f p" and "abs_segs p = home c pid @ ss" and "is_abs p"
proof (cases "store_path (projects_path c) pid ss")
  case None
  then show ?thesis using assms(1) by (simp add: with_path_def throw_def)
next
  case (Some p)
  have "abs_segs p = home c pid @ ss" using store_path_plain [OF Some assms(2,3)] by (simp add: home_def)
  moreover have "is_abs p" using store_path_below [OF Some assms(2)] by metis
  ultimately show ?thesis using that Some by (simp add: with_path_def)
qed

lemma dec_digits_eq: "dec_digits m = dec_digits n \<longleftrightarrow> m = n"
  by (metis dec_value_digits)

lemma dec_digits_no_sign: "dec_digits n \<noteq> CHR ''-'' # r"
  using dec_digits_hd [of n "CHR ''-''" r] is_digit_not_sign by blast

lemma itoa_eq [simp]: "itoa m = itoa n \<longleftrightarrow> m = n"
  using dec_digits_no_sign by (auto simp: itoa_def dec_digits_eq dest: sym split: if_splits)

text \<open>Removing the directories of some builds leaves the files of the others.\<close>

lemma remove_numbered_node:
  assumes "fst (for_each (\<lambda>n. remove_all (base @ [itoa n])) ns fs) = Inr ()"
  shows "node_at (base @ itoa m # r) (snd (for_each (\<lambda>n. remove_all (base @ [itoa n])) ns fs))
    = (if m \<in> set ns then None else node_at (base @ itoa m # r) fs)"
  using assms
proof (induction ns arbitrary: fs)
  case (Cons n ns)
  let ?fs = "snd (remove_all (base @ [itoa n]) fs)"
  have "fst (bind_io (remove_all (base @ [itoa n])) (\<lambda>_. for_each (\<lambda>n. remove_all (base @ [itoa n])) ns) fs) = Inr ()"
    using Cons.prems by simp
  then obtain a where ok: "fst (remove_all (base @ [itoa n]) fs) = Inr a"
      "fst (for_each (\<lambda>n. remove_all (base @ [itoa n])) ns ?fs) = Inr ()"
      "snd (bind_io (remove_all (base @ [itoa n])) (\<lambda>_. for_each (\<lambda>n. remove_all (base @ [itoa n])) ns) fs)
        = snd (for_each (\<lambda>n. remove_all (base @ [itoa n])) ns ?fs)"
    by (rule bind_io_Inr)
  have "node_at (base @ itoa m # r) ?fs = (if m = n then None else node_at (base @ itoa m # r) fs)"
    using ok(1) by (simp add: remove_all_node)
  then show ?case using Cons.IH [OF ok(2)] ok(3) by (cases "m = n") simp_all
qed (simp add: ret_def)

lemma prune_report_dirs_node:
  assumes "fst (prune_report_dirs c pid ns fs) = Inr ()" and "is_abs (projects_path c)"
  shows "node_at (home c pid @ ''reports'' # itoa m # r) (snd (prune_report_dirs c pid ns fs))
    = (if m \<in> set ns then None else node_at (home c pid @ ''reports'' # itoa m # r) fs)"
proof -
  obtain p where p: "prune_report_dirs c pid ns = for_each (\<lambda>n. remove_all (at p [itoa n])) ns"
      "abs_segs p = home c pid @ [''reports'']" "is_abs p"
    using with_path_plain [of c pid "[''reports'']" _ fs "()"] assms unfolding prune_report_dirs_def by auto
  have "at p [itoa n] = (home c pid @ [''reports'']) @ [itoa n]" for n using p(2,3) by (simp add: at_below)
  then show ?thesis using remove_numbered_node [of "home c pid @ [''reports'']" ns fs m r] assms(1) p(1) by simp
qed

end
