(* ===== verification/Builds.thy ===== *)
theory Builds
  imports Defects LocalStore
begin

text \<open>
  The tables of builds and branches: \<open>store/pg/build.go\<close>, \<open>store/pg/branch.go\<close> and the import of \<open>store/pg/sync.go\<close>.

  Of the constraints those a statement of these files can violate are modelled: a build number is unique in its
  project, a branch name too, and the branch of a build exists.  The project of a row exists.  A build row keeps
  its statistics as one column that is null until they are first written; rows of other tables that a deletion
  takes along are in \<open>Retention\<close>.
\<close>

section \<open>State\<close>

record stability =
  sb_flaky :: int
  sb_retried :: int
  sb_new_failed :: int
  sb_new_passed :: int

record ci_metadata =
  ci_provider :: string
  ci_url :: string
  ci_branch :: string
  ci_commit :: string
  ci_pipeline :: string
  ci_pipeline_url :: string

text \<open>\<open>nullStr\<close> makes an empty text null, and reading makes null empty, so one value stands for both.\<close>

record build = build_row +
  b_stats :: "build_stats option"
  b_stability :: stability
  b_latest :: bool
  b_ci :: ci_metadata
  b_playwright :: bool
  b_environment :: "(string \<times> string) list"
  b_branch :: "int option"

record branch =
  bn_id :: int
  bn_project :: int
  bn_name :: string
  bn_default :: bool
  bn_created :: time

record build_db =
  build_rows :: "build list"
  next_build_id :: int
  branch_rows :: "branch list"
  next_branch_id :: int

datatype build_error = ErrBuildNotFound | ErrBranchNotFound | ErrCannotDeleteDefaultBranch | ErrBuildDb | ErrExhausted

type_synonym 'a build_stmt = "build_db \<Rightarrow> build_db \<times> (build_error + 'a)"

definition no_ci :: ci_metadata where
  "no_ci = \<lparr>ci_provider = [], ci_url = [], ci_branch = [], ci_commit = [], ci_pipeline = [], ci_pipeline_url = []\<rparr>"

definition new_build :: "int \<Rightarrow> int \<Rightarrow> int \<Rightarrow> time \<Rightarrow> build" where
  "new_build i pid n now = \<lparr>b_id = i, b_project = pid, b_order = n, b_created = now, b_stats = None,
     b_stability = \<lparr>sb_flaky = 0, sb_retried = 0, sb_new_failed = 0, sb_new_passed = 0\<rparr>, b_latest = False, b_ci = no_ci,
     b_playwright = False, b_environment = [], b_branch = None\<rparr>"

abbreviation of_project :: "int \<Rightarrow> build list \<Rightarrow> build list" where
  "of_project pid \<equiv> filter (\<lambda>b. b_project b = pid)"

abbreviation numbered :: "int \<Rightarrow> int \<Rightarrow> 'z build_row_scheme \<Rightarrow> bool" where
  "numbered pid n b \<equiv> b_project b = pid \<and> b_order b = n"

abbreviation newest_first :: "build list \<Rightarrow> build list" where
  "newest_first \<equiv> sort_key (\<lambda>b. - b_order b)"

section \<open>Reserving a number\<close>

definition max_number :: "int \<Rightarrow> build_db \<Rightarrow> int" where
  "max_number pid db = (case of_project pid (build_rows db) of
     [] \<Rightarrow> 0 | b # bs \<Rightarrow> fold (\<lambda>b m. max m (b_order b)) bs (b_order b))"

definition insert_build :: "int \<Rightarrow> int \<Rightarrow> time \<Rightarrow> unit build_stmt" where
  "insert_build pid n now db =
     (let db' = db\<lparr>next_build_id := next_build_id db + 1\<rparr>
      in if list_ex (numbered pid n) (build_rows db) then (db', Inl ErrBuildDb)
         else (db'\<lparr>build_rows := build_rows db @ [new_build (next_build_id db) pid n now]\<rparr>, Inr ()))"

text \<open>\<open>ReserveBuild\<close>: each attempt takes its snapshot of the maximum, then what other transactions commit before
  the insert (the next element of \<open>others\<close>), then the insert.  The transactions that insert run at the time \<open>now\<close>.\<close>

fun reserve_attempts :: "nat \<Rightarrow> (build_db \<Rightarrow> build_db) list \<Rightarrow> int \<Rightarrow> time \<Rightarrow> int build_stmt" where
  "reserve_attempts 0 others pid now db = (db, Inl ErrExhausted)"
| "reserve_attempts (Suc k) others pid now db =
     (let n = max_number pid db + 1; db' = (case others of [] \<Rightarrow> db | f # _ \<Rightarrow> f db)
      in case insert_build pid n now db' of
           (db2, Inr _) \<Rightarrow> (db2, Inr n)
         | (db2, Inl _) \<Rightarrow> reserve_attempts k (tl others) pid now db2)"

definition reserve_build :: "(build_db \<Rightarrow> build_db) list \<Rightarrow> int \<Rightarrow> time \<Rightarrow> int build_stmt" where
  "reserve_build = reserve_attempts 50"

section \<open>Updates\<close>

definition update_build :: "int \<Rightarrow> int \<Rightarrow> (build \<Rightarrow> build) \<Rightarrow> unit build_stmt" where
  "update_build pid n f db =
     (if tbl_count (numbered pid n) (build_rows db) = 0 then (db, Inl ErrBuildNotFound)
      else (db\<lparr>build_rows := tbl_update (numbered pid n) f (build_rows db)\<rparr>, Inr ()))"

definition update_build_stats :: "int \<Rightarrow> int \<Rightarrow> build_stats \<Rightarrow> stability \<Rightarrow> unit build_stmt" where
  "update_build_stats pid n st sb = update_build pid n (\<lambda>b. b\<lparr>b_stats := Some st, b_stability := sb\<rparr>)"

definition update_build_ci :: "int \<Rightarrow> int \<Rightarrow> ci_metadata \<Rightarrow> unit build_stmt" where
  "update_build_ci pid n ci = update_build pid n (\<lambda>b. b\<lparr>b_ci := ci\<rparr>)"

definition update_build_environment :: "int \<Rightarrow> int \<Rightarrow> (string \<times> string) list \<Rightarrow> unit build_stmt" where
  "update_build_environment pid n env = update_build pid n (\<lambda>b. b\<lparr>b_environment := env\<rparr>)"

definition update_build_branch_id :: "int \<Rightarrow> int \<Rightarrow> int \<Rightarrow> unit build_stmt" where
  "update_build_branch_id pid n br db =
     (if tbl_count (numbered pid n) (build_rows db) \<noteq> 0 \<and> br \<notin> bn_id ` set (branch_rows db) then (db, Inl ErrBuildDb)
      else update_build pid n (\<lambda>b. b\<lparr>b_branch := Some br\<rparr>) db)"

definition set_has_playwright :: "int \<Rightarrow> int \<Rightarrow> bool \<Rightarrow> unit build_stmt" where
  "set_has_playwright pid n v = update_build pid n (\<lambda>b. b\<lparr>b_playwright := v\<rparr>)"

definition set_latest :: "int \<Rightarrow> int \<Rightarrow> build_db \<Rightarrow> build_db" where
  "set_latest pid n db = db\<lparr>build_rows :=
     tbl_update (numbered pid n) (\<lambda>b. b\<lparr>b_latest := True\<rparr>)
       (tbl_update (\<lambda>b. b_project b = pid \<and> b_latest b) (\<lambda>b. b\<lparr>b_latest := False\<rparr>) (build_rows db))\<rparr>"

definition set_latest_branch :: "int \<Rightarrow> int \<Rightarrow> int option \<Rightarrow> build_db \<Rightarrow> build_db" where
  "set_latest_branch pid n br db = (case br of
     None \<Rightarrow> set_latest pid n db
   | Some i \<Rightarrow> db\<lparr>build_rows :=
       tbl_update (numbered pid n) (\<lambda>b. b\<lparr>b_latest := True\<rparr>)
         (tbl_update (\<lambda>b. b_project b = pid \<and> b_branch b = Some i \<and> b_latest b) (\<lambda>b. b\<lparr>b_latest := False\<rparr>) (build_rows db))\<rparr>)"

section \<open>Queries\<close>

definition get_build_by_number :: "int \<Rightarrow> int \<Rightarrow> build_db \<Rightarrow> build_error + build" where
  "get_build_by_number pid n db = (case tbl_find (numbered pid n) (build_rows db) of
     None \<Rightarrow> Inl ErrBuildNotFound | Some b \<Rightarrow> Inr b)"

definition first_build :: "build list \<Rightarrow> build_error + build" where
  "first_build bs = (case newest_first bs of [] \<Rightarrow> Inl ErrBuildNotFound | b # _ \<Rightarrow> Inr b)"

definition get_previous_build :: "int \<Rightarrow> int \<Rightarrow> build_db \<Rightarrow> build_error + build" where
  "get_previous_build pid n db = first_build (filter (\<lambda>b. b_order b < n) (of_project pid (build_rows db)))"

definition get_latest_build :: "int \<Rightarrow> build_db \<Rightarrow> build_error + build" where
  "get_latest_build pid db = first_build (filter b_latest (of_project pid (build_rows db)))"

definition builds_of :: "int \<Rightarrow> int option \<Rightarrow> build_db \<Rightarrow> build list" where
  "builds_of pid br db = newest_first (filter (\<lambda>b. br = None \<or> b_branch b = br) (of_project pid (build_rows db)))"

definition list_builds_page :: "int \<Rightarrow> int \<Rightarrow> int \<Rightarrow> int option \<Rightarrow> build_db \<Rightarrow> build_error + (build list \<times> nat)" where
  "list_builds_page pid page per br db =
     (let all = builds_of pid br db; off = wrap64 ((page - 1) * per)
      in if off < 0 \<or> per < 0 then Inl ErrBuildDb
         else Inr (take (nat per) (drop (nat off) all), length all))"

definition list_builds_in_range ::
  "int \<Rightarrow> int option \<Rightarrow> time \<Rightarrow> time \<Rightarrow> nat \<Rightarrow> build_db \<Rightarrow> build list \<times> nat" where
  "list_builds_in_range pid br lo hi limit db =
     (let bs = filter (\<lambda>b. lo \<le> b_created b \<and> b_created b < hi) (builds_of pid br db) in (take limit bs, length bs))"

definition get_build_by_id :: "int \<Rightarrow> int \<Rightarrow> build_db \<Rightarrow> build_error + build" where
  "get_build_by_id pid i db = (case tbl_find (\<lambda>b. b_project b = pid \<and> b_id b = i) (build_rows db) of
     None \<Rightarrow> Inl ErrBuildNotFound | Some b \<Rightarrow> Inr b)"

definition build_exists :: "int \<Rightarrow> int \<Rightarrow> build_db \<Rightarrow> bool" where
  "build_exists pid i db = list_ex (\<lambda>b. b_project b = pid \<and> b_id b = i) (build_rows db)"

section \<open>Deletion and retention\<close>

definition delete_build :: "int \<Rightarrow> int \<Rightarrow> build_db \<Rightarrow> build_db" where
  "delete_build pid n db = db\<lparr>build_rows := tbl_delete (numbered pid n) (build_rows db)\<rparr>"

definition delete_all_builds :: "int \<Rightarrow> build_db \<Rightarrow> build_db" where
  "delete_all_builds pid db = db\<lparr>build_rows := tbl_delete (\<lambda>b. b_project b = pid) (build_rows db)\<rparr>"

definition delete_numbers :: "int \<Rightarrow> int list \<Rightarrow> build_db \<Rightarrow> build_db" where
  "delete_numbers pid ns db = db\<lparr>build_rows := tbl_delete (\<lambda>b. b_project b = pid \<and> b_order b \<in> set ns) (build_rows db)\<rparr>"

definition prune_builds_branch :: "int \<Rightarrow> int \<Rightarrow> int option \<Rightarrow> build_db \<Rightarrow> build_db \<times> int list" where
  "prune_builds_branch pid keep br db =
     (if keep \<le> 0 then (db, [])
      else let ns = map b_order (drop (nat keep) (builds_of pid br db)) in (delete_numbers pid ns db, ns))"

definition prune_builds_by_age :: "int \<Rightarrow> time \<Rightarrow> build_db \<Rightarrow> build_db \<times> int list" where
  "prune_builds_by_age pid cutoff db =
     (let ns = map b_order (sort_key b_order (filter (\<lambda>b. b_created b < cutoff \<and> \<not> b_latest b) (of_project pid (build_rows db))))
      in (delete_numbers pid ns db, ns))"

definition default_branch :: "int \<Rightarrow> string \<Rightarrow> build_db \<Rightarrow> bool" where
  "default_branch pid name db = list_ex (\<lambda>r. bn_project r = pid \<and> bn_name r = name \<and> bn_default r) (branch_rows db)"

definition on_ci_branch :: "int \<Rightarrow> string \<Rightarrow> build \<Rightarrow> bool" where
  "on_ci_branch pid name b \<longleftrightarrow> b_project b = pid \<and> ci_branch (b_ci b) = name"

text \<open>The select of \<open>PruneStaleBranches\<close>: names of builds, none of the default branch, none with a build since the
  cutoff.\<close>

definition stale_branches :: "int \<Rightarrow> time \<Rightarrow> build_db \<Rightarrow> string list" where
  "stale_branches pid cutoff db =
     take 50 (sort (filter (\<lambda>n. n \<noteq> [] \<and> \<not> default_branch pid n db
         \<and> list_all (\<lambda>b. b_created b < cutoff) (filter (on_ci_branch pid n) (build_rows db)))
       (remdups (map (\<lambda>b. ci_branch (b_ci b)) (of_project pid (build_rows db))))))"

text \<open>Deleting a branch row sets the branch of its builds to null.\<close>

definition delete_branches :: "(branch \<Rightarrow> bool) \<Rightarrow> build_db \<Rightarrow> build_db" where
  "delete_branches p db =
     (let gone = bn_id ` set (filter p (branch_rows db)) in
      db\<lparr>branch_rows := tbl_delete p (branch_rows db),
         build_rows := tbl_update (\<lambda>b. case b_branch b of None \<Rightarrow> False | Some i \<Rightarrow> i \<in> gone) (\<lambda>b. b\<lparr>b_branch := None\<rparr>) (build_rows db)\<rparr>)"

definition prune_stale_branch :: "int \<Rightarrow> string \<Rightarrow> time \<Rightarrow> build_db \<Rightarrow> build_db \<times> int list" where
  "prune_stale_branch pid name cutoff db =
     (let p = (\<lambda>b. on_ci_branch pid name b \<and> b_created b < cutoff \<and> \<not> default_branch pid name db);
          ns = map b_order (filter p (build_rows db));
          db' = db\<lparr>build_rows := tbl_delete p (build_rows db)\<rparr>
      in (if list_ex (on_ci_branch pid name) (build_rows db') then db'
          else delete_branches (\<lambda>r. bn_project r = pid \<and> bn_name r = name \<and> \<not> bn_default r) db', ns))"

text \<open>Each branch is pruned in a transaction of its own, which may fail.\<close>

fun prune_stale_names :: "(string \<Rightarrow> bool) \<Rightarrow> int \<Rightarrow> time \<Rightarrow> string list \<Rightarrow> build_db \<Rightarrow> build_db \<times> int list" where
  "prune_stale_names fails pid cutoff [] db = (db, [])"
| "prune_stale_names fails pid cutoff (n # ns) db =
     (if fails n then prune_stale_names fails pid cutoff ns db
      else case prune_stale_branch pid n cutoff db of (db1, r1) \<Rightarrow>
        case prune_stale_names fails pid cutoff ns db1 of (db2, r2) \<Rightarrow> (db2, r1 @ r2))"

definition prune_stale_branches :: "(string \<Rightarrow> bool) \<Rightarrow> int \<Rightarrow> time \<Rightarrow> build_db \<Rightarrow> build_db \<times> int list" where
  "prune_stale_branches fails pid cutoff db = prune_stale_names fails pid cutoff (stale_branches pid cutoff db) db"

definition delete_orphan_branches :: "int \<Rightarrow> time \<Rightarrow> build_db \<Rightarrow> build_db \<times> nat" where
  "delete_orphan_branches pid now db =
     (let p = (\<lambda>r. bn_project r = pid \<and> \<not> bn_default r \<and> bn_created r < now - 60 * minute
            \<and> \<not> list_ex (on_ci_branch pid (bn_name r)) (build_rows db))
      in (delete_branches p db, tbl_count p (branch_rows db)))"

section \<open>Branches\<close>

definition get_branch_by_name :: "int \<Rightarrow> string \<Rightarrow> build_db \<Rightarrow> build_error + branch" where
  "get_branch_by_name pid name db = (case tbl_find (\<lambda>r. bn_project r = pid \<and> bn_name r = name) (branch_rows db) of
     None \<Rightarrow> Inl ErrBranchNotFound | Some r \<Rightarrow> Inr r)"

definition get_or_create_branch :: "int \<Rightarrow> string \<Rightarrow> time \<Rightarrow> build_db \<Rightarrow> build_db \<times> branch \<times> bool" where
  "get_or_create_branch pid name now db = (case get_branch_by_name pid name db of
     Inr r \<Rightarrow> (db, r, False)
   | Inl _ \<Rightarrow>
       let r = \<lparr>bn_id = next_branch_id db, bn_project = pid, bn_name = name,
                bn_default = (tbl_count (\<lambda>r. bn_project r = pid) (branch_rows db) = 0), bn_created = now\<rparr>
       in (db\<lparr>branch_rows := branch_rows db @ [r], next_branch_id := next_branch_id db + 1\<rparr>, r, True))"

definition get_default_branch :: "int \<Rightarrow> build_db \<Rightarrow> build_error + branch" where
  "get_default_branch pid db = (case tbl_find (\<lambda>r. bn_project r = pid \<and> bn_default r) (branch_rows db) of
     None \<Rightarrow> Inl ErrBranchNotFound | Some r \<Rightarrow> Inr r)"

definition set_default_branch :: "int \<Rightarrow> int \<Rightarrow> unit build_stmt" where
  "set_default_branch pid i db =
     (if tbl_count (\<lambda>r. bn_id r = i \<and> bn_project r = pid) (branch_rows db) = 0 then (db, Inl ErrBranchNotFound)
      else (db\<lparr>branch_rows := tbl_update (\<lambda>r. bn_id r = i) (\<lambda>r. r\<lparr>bn_default := True\<rparr>)
              (tbl_update (\<lambda>r. bn_project r = pid) (\<lambda>r. r\<lparr>bn_default := False\<rparr>) (branch_rows db))\<rparr>, Inr ()))"

definition delete_branch :: "int \<Rightarrow> int \<Rightarrow> unit build_stmt" where
  "delete_branch pid i db = (case tbl_find (\<lambda>r. bn_id r = i \<and> bn_project r = pid) (branch_rows db) of
     None \<Rightarrow> (db, Inl ErrBranchNotFound)
   | Some r \<Rightarrow> if bn_default r then (db, Inl ErrCannotDeleteDefaultBranch)
       else (delete_branches (\<lambda>r. bn_id r = i \<and> bn_project r = pid) db, Inr ()))"

text \<open>\<open>BranchStore.List\<close>, for the ids of a project and its children: the branches of builds, by name, with the
  least id, whether one is a default, and the earliest creation.\<close>

definition list_branches :: "int \<Rightarrow> int list \<Rightarrow> build_db \<Rightarrow> branch list" where
  "list_branches pid family db =
     (let bs = filter (\<lambda>b. b_project b \<in> set family \<and> ci_branch (b_ci b) \<noteq> []) (build_rows db);
          row = (\<lambda>b. tbl_find (\<lambda>r. bn_project r = b_project b \<and> bn_name r = ci_branch (b_ci b)) (branch_rows db))
      in map (\<lambda>name.
          let g = filter (\<lambda>b. ci_branch (b_ci b) = name) bs; rs = List.map_filter row g;
              ts = map (\<lambda>b. case row b of None \<Rightarrow> b_created b | Some r \<Rightarrow> bn_created r) g
          in \<lparr>bn_id = (if rs = [] then 0 else foldr min (map bn_id rs) (bn_id (hd rs))), bn_project = pid, bn_name = name,
              bn_default = list_ex bn_default rs, bn_created = foldr min ts (hd ts)\<rparr>)
         (sort (remdups (map (\<lambda>b. ci_branch (b_ci b)) bs))))"

section \<open>Import from storage\<close>

fun insert_missing :: "int \<Rightarrow> time \<Rightarrow> int list \<Rightarrow> build_db \<Rightarrow> build_db" where
  "insert_missing pid now [] db = db"
| "insert_missing pid now (n # ns) db = insert_missing pid now ns (fst (insert_build pid n now db))"

definition missing_stats :: "int \<Rightarrow> build_db \<Rightarrow> int list" where
  "missing_stats pid db = map b_order (filter (\<lambda>b. b_stats b = None) (of_project pid (build_rows db)))"

text \<open>\<open>BatchSyncStats\<close> after its reads: a build whose statistics could not be read is left for the next start.\<close>

definition with_stats :: "(int \<Rightarrow> build_stats option) \<Rightarrow> build \<Rightarrow> build" where
  "with_stats stats b = (case stats (b_order b) of None \<Rightarrow> b | Some st \<Rightarrow> b\<lparr>b_stats := Some st\<rparr>)"

definition batch_sync_stats :: "int \<Rightarrow> (int \<Rightarrow> build_stats option) \<Rightarrow> int list \<Rightarrow> build_db \<Rightarrow> build_db" where
  "batch_sync_stats pid stats ns db = db\<lparr>build_rows :=
     tbl_update (\<lambda>b. b_project b = pid \<and> b_order b \<in> set ns) (with_stats stats) (build_rows db)\<rparr>"

definition sync_project :: "stats_json \<Rightarrow> local_cfg \<Rightarrow> int \<Rightarrow> string \<Rightarrow> time \<Rightarrow> fs \<Rightarrow> build_db \<Rightarrow> build_db" where
  "sync_project j c pid key now fs db = (case fst (list_report_builds c key fs) of
     Inl _ \<Rightarrow> db
   | Inr ns \<Rightarrow>
       if ns = [] then db
       else let db1 = insert_missing pid now (filter (\<lambda>n. \<not> list_ex (numbered pid n) (build_rows db)) ns) db;
                stats = (\<lambda>n. case fst (read_build_stats j c key n fs) of Inl _ \<Rightarrow> None | Inr st \<Rightarrow> Some st)
            in batch_sync_stats pid stats (missing_stats pid db1) db1)"

definition sync_metadata ::
  "stats_json \<Rightarrow> local_cfg \<Rightarrow> (int \<times> string) list \<Rightarrow> time \<Rightarrow> fs \<Rightarrow> build_db \<Rightarrow> build_db" where
  "sync_metadata j c ids now fs db = (case fst (list_projects c fs) of
     Inl _ \<Rightarrow> db
   | Inr keys \<Rightarrow> fold (\<lambda>k db. case tbl_find (\<lambda>p. snd p = k) ids of
       None \<Rightarrow> db | Some p \<Rightarrow> sync_project j c (fst p) k now fs db) keys db)"

section \<open>Statements keep the constraints\<close>

definition rows_ok :: "int \<Rightarrow> build list \<Rightarrow> bool" where
  "rows_ok n bs \<longleftrightarrow> distinct (map b_id bs) \<and> (\<forall>b \<in> set bs. b_id b < n)
     \<and> distinct (map (\<lambda>b. (b_project b, b_order b)) bs)"

definition branches_ok :: "int \<Rightarrow> branch list \<Rightarrow> bool" where
  "branches_ok n rs \<longleftrightarrow> distinct (map bn_id rs) \<and> (\<forall>r \<in> set rs. bn_id r < n)
     \<and> distinct (map (\<lambda>r. (bn_project r, bn_name r)) rs)
     \<and> (\<forall>q \<in> set rs. \<forall>r \<in> set rs. bn_project q = bn_project r \<longrightarrow> bn_default q \<longrightarrow> bn_default r \<longrightarrow> q = r)"

definition refs_ok :: "branch list \<Rightarrow> build list \<Rightarrow> bool" where
  "refs_ok rs bs \<longleftrightarrow> (\<forall>b \<in> set bs. \<forall>i. b_branch b = Some i \<longrightarrow> i \<in> bn_id ` set rs)"

definition builds_ok :: "build_db \<Rightarrow> bool" where
  "builds_ok db \<longleftrightarrow> rows_ok (next_build_id db) (build_rows db) \<and> branches_ok (next_branch_id db) (branch_rows db)
     \<and> refs_ok (branch_rows db) (build_rows db)"

definition keeps_key :: "(build \<Rightarrow> build) \<Rightarrow> bool" where
  "keeps_key f \<longleftrightarrow> (\<forall>b. b_id (f b) = b_id b \<and> b_project (f b) = b_project b \<and> b_order (f b) = b_order b)"

lemma rows_ok_update: "rows_ok n bs \<Longrightarrow> keeps_key f \<Longrightarrow> rows_ok n (tbl_update p f bs)"
  by (auto simp: rows_ok_def keeps_key_def tbl_simps map_key_update)

lemma rows_ok_delete: "rows_ok n bs \<Longrightarrow> rows_ok n (tbl_delete p bs)"
  by (auto simp: rows_ok_def tbl_simps intro: distinct_map_tbl_delete)

lemma refs_ok_update:
  "refs_ok rs bs \<Longrightarrow> (\<And>b i. b \<in> set bs \<Longrightarrow> b_branch (f b) = Some i \<Longrightarrow> b_branch b = Some i \<or> i \<in> bn_id ` set rs)
   \<Longrightarrow> refs_ok rs (tbl_update p f bs)"
  by (fastforce simp: refs_ok_def tbl_simps)

lemma refs_ok_delete: "refs_ok rs bs \<Longrightarrow> refs_ok rs (tbl_delete p bs)"
  by (auto simp: refs_ok_def tbl_simps)

lemma branches_ok_delete: "branches_ok n rs \<Longrightarrow> branches_ok n (tbl_delete p rs)"
  by (auto simp: branches_ok_def tbl_simps intro: distinct_map_tbl_delete)

lemma ok_update_rows:
  assumes "builds_ok db" and "keeps_key f"
    and "\<And>b i. b_branch (f b) = Some i \<Longrightarrow> b_branch b = Some i \<or> i \<in> bn_id ` set (branch_rows db)"
  shows "builds_ok (db\<lparr>build_rows := tbl_update p f (build_rows db)\<rparr>)"
  using assms by (simp add: builds_ok_def rows_ok_update refs_ok_update)

lemma ok_update_build:
  assumes "builds_ok db" and "keeps_key f" and "\<And>b. b_branch (f b) = b_branch b"
  shows "builds_ok (fst (update_build pid n f db))"
  using ok_update_rows [OF assms(1,2)] assms(1,3) by (simp add: update_build_def)

lemma ok_delete_rows: "builds_ok db \<Longrightarrow> builds_ok (db\<lparr>build_rows := tbl_delete p (build_rows db)\<rparr>)"
  by (simp add: builds_ok_def rows_ok_delete refs_ok_delete)

lemma ok_insert_build: "builds_ok db \<Longrightarrow> builds_ok (fst (insert_build pid n now db))"
  by (fastforce simp: builds_ok_def rows_ok_def refs_ok_def insert_build_def Let_def new_build_def list_ex_iff)

lemma ok_delete_branches:
  assumes "builds_ok db"
  shows "builds_ok (delete_branches p db)"
proof -
  let ?gone = "bn_id ` set (filter p (branch_rows db))"
  let ?f = "\<lambda>b. b\<lparr>b_branch := None\<rparr> :: build"
  let ?rows = "tbl_update (\<lambda>b. case b_branch b of None \<Rightarrow> False | Some i \<Rightarrow> i \<in> ?gone) ?f (build_rows db)"
  have "refs_ok (branch_rows db) ?rows" using assms by (intro refs_ok_update) (simp_all add: builds_ok_def)
  then have "i \<in> bn_id ` set (tbl_delete p (branch_rows db))" if "b \<in> set ?rows" "b_branch b = Some i" for b i
  proof -
    have "i \<in> bn_id ` set (branch_rows db)" using \<open>refs_ok _ _\<close> that unfolding refs_ok_def by blast
    moreover have "i \<notin> ?gone" using that by (auto simp: tbl_simps split: option.splits if_splits)
    ultimately show ?thesis by (auto simp: tbl_simps)
  qed
  then have "refs_ok (tbl_delete p (branch_rows db)) ?rows" by (simp add: refs_ok_def)
  then show ?thesis using assms
    by (simp add: builds_ok_def delete_branches_def rows_ok_update keeps_key_def branches_ok_delete del: set_filter)
qed

lemma ok_get_or_create:
  assumes "builds_ok db"
  shows "builds_ok (fst (get_or_create_branch pid name now db))"
proof (cases "get_branch_by_name pid name db")
  case (Inl e)
  let ?r = "snd (get_or_create_branch pid name now db)"
  have new: "\<forall>r \<in> set (branch_rows db). bn_project r = pid \<longrightarrow> bn_name r \<noteq> name"
    using Inl by (auto simp: get_branch_by_name_def tbl_simps split: option.splits)
  have b: "branches_ok (next_branch_id db) (branch_rows db)" and refs: "refs_ok (branch_rows db) (build_rows db)"
    using assms by (simp_all add: builds_ok_def)
  have "branches_ok (next_branch_id db + 1) (branch_rows db @ [fst ?r])"
    using b new Inl by (fastforce simp: branches_ok_def get_or_create_branch_def Let_def tbl_simps)
  moreover have "refs_ok (branch_rows db @ [fst ?r]) (build_rows db)" using refs by (auto simp: refs_ok_def)
  ultimately show ?thesis using assms Inl by (simp add: builds_ok_def get_or_create_branch_def Let_def)
qed (simp add: get_or_create_branch_def assms)

text \<open>What \<open>SetDefault\<close> makes of one row.\<close>

definition as_default :: "int \<Rightarrow> int \<Rightarrow> branch \<Rightarrow> branch" where
  "as_default pid i r = (if bn_id r = i then r\<lparr>bn_default := True\<rparr> else if bn_project r = pid then r\<lparr>bn_default := False\<rparr> else r)"

lemma as_default_fields [simp]:
  "bn_id (as_default pid i r) = bn_id r" "bn_project (as_default pid i r) = bn_project r"
  "bn_name (as_default pid i r) = bn_name r"
  "bn_default (as_default pid i r) \<longleftrightarrow> bn_id r = i \<or> bn_project r \<noteq> pid \<and> bn_default r"
  by (simp_all add: as_default_def)

lemma as_default_rows:
  "tbl_update (\<lambda>r. bn_id r = i) (\<lambda>r. r\<lparr>bn_default := True\<rparr>) (tbl_update (\<lambda>r. bn_project r = pid) (\<lambda>r. r\<lparr>bn_default := False\<rparr>) rs)
   = map (as_default pid i) rs"
  by (simp add: tbl_update_def as_default_def)

lemma branches_ok_default:
  assumes b: "branches_ok n rs" and q: "q \<in> set rs" "bn_id q = i" "bn_project q = pid"
  shows "branches_ok n (map (as_default pid i) rs)"
proof -
  have only: "r = q" if "r \<in> set rs" "bn_id r = i" for r
    using b that q by (auto simp: branches_ok_def distinct_map inj_on_def)
  have one: "r1 = r2" if "r1 \<in> set rs" "r2 \<in> set rs" "bn_project r1 = bn_project r2"
      "bn_default (as_default pid i r1)" "bn_default (as_default pid i r2)" for r1 r2
  proof (cases "bn_project r1 = pid")
    case True
    then have "bn_id r1 = i" "bn_id r2 = i" using that by simp_all
    then show ?thesis using only [OF that(1)] only [OF that(2)] by simp
  next
    case False
    then have "bn_default r1" "bn_default r2" using only q(3) that by auto
    then show ?thesis using b that(1-3) unfolding branches_ok_def by blast
  qed
  have "x = y" if xy: "x \<in> set (map (as_default pid i) rs)" "y \<in> set (map (as_default pid i) rs)"
      "bn_project x = bn_project y" "bn_default x" "bn_default y" for x y
  proof -
    obtain r1 r2 where "r1 \<in> set rs" "x = as_default pid i r1" "r2 \<in> set rs" "y = as_default pid i r2"
      using xy(1,2) by auto
    then show ?thesis using one [of r1 r2] xy(3-5) by simp
  qed
  then show ?thesis using b unfolding branches_ok_def by (simp add: o_def)
qed

lemma ok_set_default: "builds_ok db \<Longrightarrow> builds_ok (fst (set_default_branch pid i db))"
  using branches_ok_default [of "next_branch_id db" "branch_rows db" _ i pid]
  by (auto simp: set_default_branch_def as_default_rows builds_ok_def refs_ok_def tbl_simps image_image)

section \<open>Histories\<close>

datatype build_op =
    ReserveBuild "(build_db \<Rightarrow> build_db) list" int time
  | InsertBuild int int time
  | UpdateBuildStats int int build_stats stability
  | UpdateBuildCI int int ci_metadata
  | UpdateBuildEnvironment int int "(string \<times> string) list"
  | UpdateBuildBranch int int int
  | SetHasPlaywright int int bool
  | SetLatestBranch int int "int option"
  | DeleteBuild int int
  | DeleteAllBuilds int
  | PruneBuildsBranch int int "int option"
  | PruneBuildsByAge int time
  | PruneStaleBranches "string \<Rightarrow> bool" int time
  | DeleteOrphanBranches int time
  | GetOrCreateBranch int string time
  | SetDefaultBranch int int
  | DeleteBranch int int
  | SyncProject stats_json local_cfg int string time fs

fun build_step :: "build_op \<Rightarrow> build_db \<Rightarrow> build_db" where
  "build_step (ReserveBuild others pid now) db = fst (reserve_build others pid now db)"
| "build_step (InsertBuild pid n now) db = fst (insert_build pid n now db)"
| "build_step (UpdateBuildStats pid n st sb) db = fst (update_build_stats pid n st sb db)"
| "build_step (UpdateBuildCI pid n ci) db = fst (update_build_ci pid n ci db)"
| "build_step (UpdateBuildEnvironment pid n env) db = fst (update_build_environment pid n env db)"
| "build_step (UpdateBuildBranch pid n i) db = fst (update_build_branch_id pid n i db)"
| "build_step (SetHasPlaywright pid n v) db = fst (set_has_playwright pid n v db)"
| "build_step (SetLatestBranch pid n br) db = set_latest_branch pid n br db"
| "build_step (DeleteBuild pid n) db = delete_build pid n db"
| "build_step (DeleteAllBuilds pid) db = delete_all_builds pid db"
| "build_step (PruneBuildsBranch pid keep br) db = fst (prune_builds_branch pid keep br db)"
| "build_step (PruneBuildsByAge pid cutoff) db = fst (prune_builds_by_age pid cutoff db)"
| "build_step (PruneStaleBranches fails pid cutoff) db = fst (prune_stale_branches fails pid cutoff db)"
| "build_step (DeleteOrphanBranches pid now) db = fst (delete_orphan_branches pid now db)"
| "build_step (GetOrCreateBranch pid name now) db = fst (get_or_create_branch pid name now db)"
| "build_step (SetDefaultBranch pid i) db = fst (set_default_branch pid i db)"
| "build_step (DeleteBranch pid i) db = fst (delete_branch pid i db)"
| "build_step (SyncProject j c pid key now fs) db = sync_project j c pid key now fs db"

text \<open>What other transactions do during a reservation keeps the constraints too.\<close>

definition keep_ok :: "(build_db \<Rightarrow> build_db) list \<Rightarrow> bool" where
  "keep_ok others \<longleftrightarrow> (\<forall>f \<in> set others. \<forall>db. builds_ok db \<longrightarrow> builds_ok (f db))"

definition legal_build_op :: "build_op \<Rightarrow> bool" where
  "legal_build_op op \<longleftrightarrow> (case op of ReserveBuild others _ _ \<Rightarrow> keep_ok others | _ \<Rightarrow> True)"

lemma keeps_key_fields [simp]:
  "keeps_key (\<lambda>b. b\<lparr>b_stats := st, b_stability := sb\<rparr>)" "keeps_key (\<lambda>b. b\<lparr>b_ci := ci\<rparr>)"
  "keeps_key (\<lambda>b. b\<lparr>b_environment := env\<rparr>)" "keeps_key (\<lambda>b. b\<lparr>b_branch := br\<rparr>)"
  "keeps_key (\<lambda>b. b\<lparr>b_playwright := v\<rparr>)" "keeps_key (\<lambda>b. b\<lparr>b_latest := v\<rparr>)"
  by (simp_all add: keeps_key_def)

lemma ok_reserve: "builds_ok db \<Longrightarrow> keep_ok others \<Longrightarrow> builds_ok (fst (reserve_attempts k others pid now db))"
proof (induction k arbitrary: others db)
  case (Suc k)
  let ?db = "case others of [] \<Rightarrow> db | f # _ \<Rightarrow> f db"
  have "builds_ok ?db" using Suc.prems by (auto simp: keep_ok_def split: list.split)
  then have "builds_ok (fst (insert_build pid (max_number pid db + 1) now ?db))" by (rule ok_insert_build)
  moreover have "keep_ok (tl others)" using Suc.prems(2) by (cases others) (simp_all add: keep_ok_def)
  ultimately show ?case using Suc.IH
    by (cases "insert_build pid (max_number pid db + 1) now ?db") (auto simp: Let_def split: sum.split)
qed simp

lemma ok_set_latest_branch:
  assumes "builds_ok db"
  shows "builds_ok (set_latest_branch pid n br db)"
proof -
  have "builds_ok (db\<lparr>build_rows := tbl_update (numbered pid n) (\<lambda>b. b\<lparr>b_latest := True\<rparr>) (tbl_update p (\<lambda>b. b\<lparr>b_latest := False\<rparr>) (build_rows db))\<rparr>)" for p
    using ok_update_rows [OF ok_update_rows [OF assms, of "\<lambda>b. b\<lparr>b_latest := False\<rparr>" p], of "\<lambda>b. b\<lparr>b_latest := True\<rparr>" "numbered pid n"]
    by simp
  then show ?thesis by (simp add: set_latest_branch_def set_latest_def split: option.split)
qed

lemma ok_prune_stale_names: "builds_ok db \<Longrightarrow> builds_ok (fst (prune_stale_names fails pid cutoff ns db))"
proof (induction ns arbitrary: db)
  case (Cons n ns)
  have "builds_ok (fst (prune_stale_branch pid n cutoff db))"
    using Cons.prems by (auto simp: prune_stale_branch_def Let_def intro!: ok_delete_rows ok_delete_branches)
  then show ?case using Cons by (auto split: prod.split) (metis fst_conv)
qed simp

lemma ok_insert_missing: "builds_ok db \<Longrightarrow> builds_ok (insert_missing pid now ns db)"
  by (induction ns arbitrary: db) (auto intro: ok_insert_build)

lemma with_stats_fields: "keeps_key (with_stats stats)" "b_branch (with_stats stats b) = b_branch b"
  by (auto simp: keeps_key_def with_stats_def split: option.split)

lemma ok_batch_sync: "builds_ok db \<Longrightarrow> builds_ok (batch_sync_stats pid stats ns db)"
  unfolding batch_sync_stats_def by (rule ok_update_rows) (simp_all add: with_stats_fields)

lemma ok_update_branch_id: "builds_ok db \<Longrightarrow> builds_ok (fst (update_build_branch_id pid n i db))"
  using ok_update_rows [of db "\<lambda>b. b\<lparr>b_branch := Some i\<rparr>" "numbered pid n"]
  by (auto simp: update_build_branch_id_def update_build_def)

lemma build_step_ok: "legal_build_op op \<Longrightarrow> builds_ok db \<Longrightarrow> builds_ok (build_step op db)"
  by (cases op)
     (auto simp: legal_build_op_def reserve_build_def update_build_stats_def update_build_ci_def update_build_environment_def
        set_has_playwright_def delete_build_def delete_all_builds_def prune_builds_branch_def prune_builds_by_age_def
        delete_numbers_def Let_def prune_stale_branches_def delete_orphan_branches_def delete_branch_def sync_project_def
        split: option.split sum.split
        intro!: ok_reserve ok_insert_build ok_update_build ok_update_branch_id ok_set_latest_branch ok_delete_rows
          ok_prune_stale_names ok_delete_branches ok_get_or_create ok_set_default ok_batch_sync ok_insert_missing)

interpretation build_table: guarded_machine build_step builds_ok legal_build_op
  by unfold_locales (rule build_step_ok)

lemma fold_max_ge: "(m::int) \<le> fold (\<lambda>b m. max m (f b)) bs m \<and> (\<forall>b \<in> set bs. f b \<le> fold (\<lambda>b m. max m (f b)) bs m)"
proof (induction bs arbitrary: m)
  case (Cons b bs)
  from Cons.IH [of "max m (f b)"] show ?case by auto
qed simp

lemma max_number_ge: "b \<in> set (build_rows db) \<Longrightarrow> b_project b = pid \<Longrightarrow> b_order b \<le> max_number pid db"
proof -
  assume "b \<in> set (build_rows db)" "b_project b = pid"
  then have b: "b \<in> set (of_project pid (build_rows db))" by simp
  then obtain c cs where cs: "of_project pid (build_rows db) = c # cs" by (cases "of_project pid (build_rows db)") auto
  then have "b = c \<or> b \<in> set cs" using b by auto
  then show ?thesis using fold_max_ge [of "b_order c" b_order cs] by (auto simp: max_number_def cs)
qed

lemma insert_next: "insert_build pid (max_number pid db + 1) now db
  = (db\<lparr>next_build_id := next_build_id db + 1,
       build_rows := build_rows db @ [new_build (next_build_id db) pid (max_number pid db + 1) now]\<rparr>, Inr ())"
proof -
  have "\<not> list_ex (numbered pid (max_number pid db + 1)) (build_rows db)"
    using max_number_ge [of _ db pid] by (fastforce simp: list_ex_iff)
  then show ?thesis by (simp add: insert_build_def Let_def)
qed

text \<open>An attempt that nothing interleaves with succeeds.\<close>

lemma reserve_quiet:
  "reserve_attempts (Suc k) [] pid now db
   = (db\<lparr>next_build_id := next_build_id db + 1,
        build_rows := build_rows db @ [new_build (next_build_id db) pid (max_number pid db + 1) now]\<rparr>,
      Inr (max_number pid db + 1))"
  by (simp add: Let_def insert_next)

lemma reserve_attempts_succeeds:
  "length others < k \<Longrightarrow> \<exists>n. snd (reserve_attempts k others pid now db) = Inr n"
proof (induction k arbitrary: others db)
  case (Suc k)
  show ?case
  proof (cases others)
    case Nil
    then show ?thesis by (simp only: reserve_quiet) simp
  next
    case (Cons f fs)
    then have "length fs < k" using Suc.prems by simp
    then show ?thesis using Suc.IH [of fs] Cons
      by (cases "insert_build pid (max_number pid db + 1) now (f db)") (auto simp: Let_def split: sum.split)
  qed
qed simp

text \<open>A reservation that succeeds has inserted the one row of its number.\<close>

lemma reserve_attempts_row:
  assumes "reserve_attempts k others pid now db = (db', Inr n)"
  shows "\<exists>db0. \<not> list_ex (numbered pid n) (build_rows db0) \<and> db' = db0\<lparr>next_build_id := next_build_id db0 + 1,
    build_rows := build_rows db0 @ [new_build (next_build_id db0) pid n now]\<rparr>"
  using assms
proof (induction k arbitrary: others db)
  case (Suc k)
  let ?n = "max_number pid db + 1" and ?db = "case others of [] \<Rightarrow> db | f # _ \<Rightarrow> f db"
  show ?case
  proof (cases "list_ex (numbered pid ?n) (build_rows ?db)")
    case True
    then have ins: "insert_build pid ?n now ?db = (?db\<lparr>next_build_id := next_build_id ?db + 1\<rparr>, Inl ErrBuildDb)"
      by (simp only: insert_build_def Let_def if_True)
    have "reserve_attempts k (tl others) pid now (?db\<lparr>next_build_id := next_build_id ?db + 1\<rparr>) = (db', Inr n)"
      using Suc.prems by (simp only: reserve_attempts.simps Let_def ins prod.case sum.case)
    then show ?thesis by (rule Suc.IH)
  next
    case False
    then have ins: "insert_build pid ?n now ?db = (?db\<lparr>next_build_id := next_build_id ?db + 1,
        build_rows := build_rows ?db @ [new_build (next_build_id ?db) pid ?n now]\<rparr>, Inr ())"
      by (simp only: insert_build_def Let_def if_False)
    have "?n = n \<and> db' = ?db\<lparr>next_build_id := next_build_id ?db + 1,
        build_rows := build_rows ?db @ [new_build (next_build_id ?db) pid ?n now]\<rparr>"
      using Suc.prems unfolding reserve_attempts.simps Let_def ins prod.case sum.case prod.inject sum.inject by blast
    with False show ?thesis by blast
  qed
qed simp

end
