(* ===== verification/Notify.thy ===== *)
theory Notify
  imports Webhooks Builds "HOL-Library.AList"
begin

text \<open>
  Notifications: what a finished build says and to which webhooks it is sent (\<open>buildWebhookPayload\<close>,
  \<open>enqueueWebhooksForProject\<close>, \<open>enqueueFailureWebhook\<close> and the digest of \<open>runner/river_jobmanager.go\<close>, the
  regression queries of \<open>store/pg/defect.go\<close>), and the worker that delivers it (\<open>runner/webhook_worker.go\<close>,
  \<open>RenderWebhookPayload\<close> of \<open>runner/webhook_templates.go\<close>).

  The queue is the list of the jobs inserted.  A pass rate is kept as its fraction.  Templates, \<open>encoding/json\<close>
  and HMAC-SHA256 are fields of \<open>sender\<close>, the texts of the default templates too.
\<close>

section \<open>Payloads\<close>

record regression =
  rg_id :: nat
  rg_message :: string
  rg_category :: string
  rg_count :: int

record payload_stats =
  py_total :: int
  py_passed :: int
  py_failed :: int
  py_broken :: int
  py_skipped :: int
  py_rate :: "int \<times> int"

record payload_delta =
  pd_now :: "int \<times> int"
  pd_before :: "int \<times> int"
  pd_new_failures :: int
  pd_fixed :: int

record payload_digest =
  pg_start :: time
  pg_end :: time
  pg_regressions :: "regression list"

record hook_payload =
  hp_event :: string
  hp_project :: int
  hp_slug :: string
  hp_build :: int
  hp_dashboard :: string
  hp_stats :: payload_stats
  hp_delta :: "payload_delta option"
  hp_ci :: "ci_metadata option"
  hp_regressions :: "regression list"
  hp_digest :: "payload_digest option"
  hp_at :: time

text \<open>The fraction of passed tests among those not skipped; \<open>(0, 1)\<close> when there are none.\<close>

definition pass_rate :: "build_stats \<Rightarrow> int \<times> int" where
  "pass_rate st = (if st_total st - st_skipped st > 0 then (st_passed st, st_total st - st_skipped st) else (0, 1))"

definition no_stats :: payload_stats where
  "no_stats = \<lparr>py_total = 0, py_passed = 0, py_failed = 0, py_broken = 0, py_skipped = 0, py_rate = (0, 1)\<rparr>"

definition empty_payload :: "string \<Rightarrow> int \<Rightarrow> time \<Rightarrow> hook_payload" where
  "empty_payload event pid now = \<lparr>hp_event = event, hp_project = pid, hp_slug = [], hp_build = 0, hp_dashboard = [],
     hp_stats = no_stats, hp_delta = None, hp_ci = None, hp_regressions = [], hp_digest = None, hp_at = now\<rparr>"

definition with_tests :: "build_stats option \<Rightarrow> build_stats option" where
  "with_tests s = (case s of None \<Rightarrow> None | Some st \<Rightarrow> if 0 < st_total st then Some st else None)"

definition stats_payload :: "build_stats option \<Rightarrow> payload_stats" where
  "stats_payload s = (case with_tests s of
     None \<Rightarrow> no_stats
   | Some st \<Rightarrow> \<lparr>py_total = st_total st, py_passed = st_passed st, py_failed = st_failed st, py_broken = st_broken st,
       py_skipped = st_skipped st, py_rate = pass_rate st\<rparr>)"

definition failed_of :: "build_stats option \<Rightarrow> int" where
  "failed_of s = (case s of None \<Rightarrow> 0 | Some st \<Rightarrow> st_failed st)"

definition delta_payload :: "build \<Rightarrow> build_error + build \<Rightarrow> payload_delta option" where
  "delta_payload b prev = (case prev of
     Inl _ \<Rightarrow> None
   | Inr p \<Rightarrow> (case with_tests (b_stats p) of
       None \<Rightarrow> None
     | Some st \<Rightarrow> Some \<lparr>pd_now = py_rate (stats_payload (b_stats b)), pd_before = pass_rate st,
         pd_new_failures = max 0 (failed_of (b_stats b) - failed_of (b_stats p)),
         pd_fixed = max 0 (failed_of (b_stats p) - failed_of (b_stats b))\<rparr>))"

section \<open>Regressions\<close>

definition regression_of :: "defect \<Rightarrow> regression" where
  "regression_of d = \<lparr>rg_id = d_id d, rg_message = d_message d, rg_category = d_category d, rg_count = d_count d\<rparr>"

definition list_regressions_for_build :: "int \<Rightarrow> int \<Rightarrow> defect_db \<Rightarrow> regression list" where
  "list_regressions_for_build pid bid db = concat (map (\<lambda>oc.
     map regression_of (filter (\<lambda>d. d_id d = oc_defect oc \<and> d_project d = pid) (defects db)))
     (filter (\<lambda>oc. oc_build oc = bid \<and> oc_regression oc \<and> bid \<in> b_id ` set (builds db)) (occurrences db)))"

text \<open>The regressions of one project in the builds since a time, newest build first.\<close>

definition regressions_since :: "time \<Rightarrow> int \<Rightarrow> defect_db \<Rightarrow> regression list" where
  "regressions_since since pid db = concat (map (\<lambda>b. (sort_key (\<lambda>r. - rg_count r) \<circ> sort_key rg_id)
       (list_regressions_for_build pid (b_id b) db))
     (sort_key (\<lambda>b. - b_order b) (filter (\<lambda>b. since \<le> b_created b) (builds db))))"

section \<open>What a build triggers\<close>

definition event_priority :: "string list" where
  "event_priority = [''report_completed'', ''report_failed'', ''regression_detected'']"

definition triggered :: "build \<Rightarrow> regression list \<Rightarrow> string list" where
  "triggered b regs = ''report_completed'' # (if 0 < failed_of (b_stats b) then [''report_failed''] else [])
     @ (if regs = [] then [] else [''regression_detected''])"

definition build_payload ::
  "(string \<Rightarrow> bool) \<Rightarrow> string \<Rightarrow> time \<Rightarrow> int \<Rightarrow> build_db \<Rightarrow> defect_db option \<Rightarrow> (hook_payload \<times> string list) option" where
  "build_payload fails external now pid bdb ddb =
     (case (if fails ''GetLatestBuild'' then Inl ErrBuildDb else get_latest_build pid bdb) of
        Inl _ \<Rightarrow> None
      | Inr b \<Rightarrow>
          let regs = (case ddb of None \<Rightarrow> [] | Some db \<Rightarrow> if fails ''ListRegressionsForBuild'' then []
                else list_regressions_for_build pid (b_id b) db);
              prev = (if fails ''GetPreviousBuild'' then Inl ErrBuildDb else get_previous_build pid (b_order b) bdb)
          in Some ((empty_payload ''report_completed'' pid now)\<lparr>hp_build := b_order b,
               hp_dashboard := (if external = [] then [] else external @ ''/projects/'' @ itoa pid @ ''/reports/'' @ itoa (b_order b)),
               hp_stats := stats_payload (b_stats b), hp_delta := delta_payload b prev,
               hp_ci := (if ci_provider (b_ci b) = [] \<and> ci_branch (b_ci b) = [] then None else Some (b_ci b)),
               hp_regressions := regs\<rparr>, triggered b regs))"

section \<open>The queue\<close>

record queue_job =
  qj_webhook :: string
  qj_payload :: hook_payload

definition active_for :: "vault \<Rightarrow> (string \<Rightarrow> bool) \<Rightarrow> int \<Rightarrow> string \<Rightarrow> webhook_db \<Rightarrow> webhook list" where
  "active_for V fails pid event db = (if fails (''ListActiveForEvent '' @ event) then [] else list_active V pid event db)"

text \<open>Least specific first, so that the last entry of a webhook is its most specific event.\<close>

definition wanted :: "vault \<Rightarrow> (string \<Rightarrow> bool) \<Rightarrow> int \<Rightarrow> string list \<Rightarrow> webhook_db \<Rightarrow> (string \<times> string) list" where
  "wanted V fails pid events db = concat (map (\<lambda>e. map (\<lambda>w. (wh_id w, e)) (active_for V fails pid e db))
     (filter (\<lambda>e. e \<in> set events) event_priority))"

definition final_events :: "(string \<times> string) list \<Rightarrow> (string \<times> string) list" where
  "final_events xs = fold (\<lambda>(i, e). AList.update i e) xs []"

definition enqueue_webhooks ::
  "vault \<Rightarrow> (string \<Rightarrow> bool) \<Rightarrow> string \<Rightarrow> time \<Rightarrow> int \<Rightarrow> build_db \<Rightarrow> defect_db option \<Rightarrow> webhook_db \<Rightarrow> queue_job list" where
  "enqueue_webhooks V fails external now pid bdb ddb db = (case build_payload fails external now pid bdb ddb of
     None \<Rightarrow> []
   | Some (p, events) \<Rightarrow> map (\<lambda>(i, e). \<lparr>qj_webhook = i, qj_payload = p\<lparr>hp_event := e\<rparr>\<rparr>)
       (filter (\<lambda>x. \<not> fails (''Insert '' @ fst x)) (final_events (wanted V fails pid events db))))"

text \<open>After a job was given up: one notification for every webhook that has either event.\<close>

definition enqueue_failure :: "vault \<Rightarrow> (string \<Rightarrow> bool) \<Rightarrow> time \<Rightarrow> int \<Rightarrow> webhook_db \<Rightarrow> queue_job list" where
  "enqueue_failure V fails now pid db = map (\<lambda>i. \<lparr>qj_webhook = i, qj_payload = empty_payload ''report_failed'' pid now\<rparr>)
     (filter (\<lambda>i. \<not> fails (''Insert '' @ i)) (rev (remdups (rev (map wh_id
       (active_for V fails pid ''report_completed'' db @ active_for V fails pid ''report_failed'' db))))))"

text \<open>\<open>HandleError\<close> and \<open>HandlePanic\<close> of the queue; a job without a project has 0 for it.\<close>

definition job_given_up :: "vault \<Rightarrow> (string \<Rightarrow> bool) \<Rightarrow> time \<Rightarrow> int \<Rightarrow> int \<Rightarrow> int \<Rightarrow> webhook_db \<Rightarrow> queue_job list" where
  "job_given_up V fails now attempt max_attempts pid db =
     (if attempt < max_attempts \<or> pid = 0 then [] else enqueue_failure V fails now pid db)"

section \<open>The digest\<close>

fun merge_regressions :: "regression list \<Rightarrow> regression list \<Rightarrow> regression list" where
  "merge_regressions acc [] = acc"
| "merge_regressions acc (r # rs) = merge_regressions
     (if list_ex (\<lambda>a. rg_id a = rg_id r) acc
      then map (\<lambda>a. if rg_id a = rg_id r \<and> rg_count a < rg_count r then a\<lparr>rg_count := rg_count r\<rparr> else a) acc
      else acc @ [r]) rs"

definition digest_payload :: "int \<times> string \<Rightarrow> time \<Rightarrow> time \<Rightarrow> regression list \<Rightarrow> hook_payload" where
  "digest_payload p start end_at regs = (empty_payload ''digest'' (fst p) end_at)\<lparr>hp_slug := snd p,
     hp_digest := Some \<lparr>pg_start = start, pg_end = end_at, pg_regressions = merge_regressions [] regs\<rparr>\<rparr>"

definition digest_deliveries ::
  "vault \<Rightarrow> (string \<Rightarrow> bool) \<Rightarrow> time \<Rightarrow> time \<Rightarrow> defect_db \<Rightarrow> webhook_db \<Rightarrow> queue_job list option" where
  "digest_deliveries V fails start end_at ddb db =
     (if fails ''ListRegressionsSince'' then None
      else Some (concat (map (\<lambda>p. let regs = regressions_since start (fst p) ddb in
          if regs = [] \<or> fails (itoa (fst p)) then []
          else map (\<lambda>w. \<lparr>qj_webhook = wh_id w, qj_payload = digest_payload p start end_at regs\<rparr>) (list_active V (fst p) ''digest'' db))
        (sort_key snd (projects ddb)))))"

definition digest_work :: "vault \<Rightarrow> (string \<Rightarrow> bool) \<Rightarrow> time \<Rightarrow> defect_db \<Rightarrow> webhook_db \<Rightarrow> queue_job list option" where
  "digest_work V fails now ddb db = map_option (filter (\<lambda>j. \<not> fails (''Insert '' @ qj_webhook j)))
     (digest_deliveries V fails (now - 24 * 60 * minute) now ddb db)"

section \<open>Delivery\<close>

record sender =
  sd_env :: wh_env
  sd_template :: "string \<Rightarrow> string \<Rightarrow> hook_payload \<Rightarrow> string + string"
  sd_default :: "string \<Rightarrow> string"
  sd_indent :: "hook_payload \<Rightarrow> string"
  sd_json :: "hook_payload \<Rightarrow> string"
  sd_hmac :: "string \<Rightarrow> string \<Rightarrow> string"
  sd_now :: time
  sd_fails :: "string \<Rightarrow> bool"

record posted =
  po_url :: string
  po_body :: string
  po_signature :: "string option"

record courier =
  co_db :: webhook_db
  co_client :: client
  co_posts :: "posted list"

record send_job = queue_job +
  sj_attempt :: int

datatype work_result = WorkDone | WorkRetry string

definition render_payload :: "sender \<Rightarrow> string \<Rightarrow> string option \<Rightarrow> hook_payload \<Rightarrow> string + string" where
  "render_payload S target custom p = (case custom of
     Some t \<Rightarrow> sd_template S ''custom'' t p
   | None \<Rightarrow>
       if target = ''generic'' then Inr (sd_indent S p)
       else if target \<notin> {''slack'', ''discord'', ''teams''} then Inl ''unknown webhook target type''
       else sd_template S target (sd_default S target) p)"

definition signature :: "sender \<Rightarrow> webhook \<Rightarrow> string \<Rightarrow> string option" where
  "signature S w text_body = (case wh_secret w of
     None \<Rightarrow> None | Some k \<Rightarrow> if k = [] then None else Some (''sha256='' @ hex_encode (sd_hmac S k text_body)))"

definition log_delivery :: "sender \<Rightarrow> delivery \<Rightarrow> courier \<Rightarrow> courier" where
  "log_delivery S d s = (if sd_fails S ''InsertDelivery'' then s else s\<lparr>co_db := insert_delivery (sd_env S) d (co_db s)\<rparr>)"

definition delivery_of :: "sender \<Rightarrow> send_job \<Rightarrow> string \<Rightarrow> delivery" where
  "delivery_of S j payload = \<lparr>dl_webhook = qj_webhook j, dl_event = hp_event (qj_payload j), dl_payload = payload,
     dl_status = None, dl_response = None, dl_error = None, dl_attempt = sj_attempt j, dl_at = sd_now S\<rparr>"

definition post_webhook :: "sender \<Rightarrow> send_job \<Rightarrow> webhook \<Rightarrow> string \<Rightarrow> courier \<Rightarrow> courier \<times> work_result" where
  "post_webhook S j w text_body s = (case http_post (we_net (sd_env S)) (wh_url w) (co_client s) of
     (c, r) \<Rightarrow>
       let s1 = s\<lparr>co_client := c, co_posts := co_posts s @ [\<lparr>po_url = wh_url w, po_body = text_body, po_signature = signature S w text_body\<rparr>]\<rparr>;
           d = delivery_of S j (sd_json S (qj_payload j))
       in case r of
            Inl e \<Rightarrow> (log_delivery S (d\<lparr>dl_error := Some e\<rparr>) s1, WorkRetry e)
          | Inr (code, page) \<Rightarrow>
              (log_delivery S (d\<lparr>dl_status := Some code, dl_response := (if page = [] then None else Some (take 1024 page))\<rparr>) s1,
               if 200 \<le> code \<and> code < 300 then WorkDone else WorkRetry (''webhook returned status '' @ itoa code)))"

definition send_webhook :: "sender \<Rightarrow> send_job \<Rightarrow> courier \<Rightarrow> courier \<times> work_result" where
  "send_webhook S j s =
     (case (if sd_fails S ''GetByID'' then Inl WhFailed else get_webhook (sd_env S) (qj_webhook j) (co_db s)) of
        Inl _ \<Rightarrow> (s, WorkDone)
      | Inr w \<Rightarrow> (case validate_url_runner (we_net (sd_env S)) (wh_url w) of
          Some e \<Rightarrow> (log_delivery S ((delivery_of S j [])\<lparr>dl_error := Some e\<rparr>) s, WorkRetry e)
        | None \<Rightarrow> (case render_payload S (wh_target w) (wh_template w) (qj_payload j) of
            Inl e \<Rightarrow> (s, WorkRetry e)
          | Inr text_body \<Rightarrow> post_webhook S j w text_body s)))"

section \<open>What is queued\<close>

text \<open>The last update of a key wins.\<close>

lemma final_events_snoc: "final_events (xs @ [x]) = AList.update (fst x) (snd x) (final_events xs)"
  by (simp add: final_events_def case_prod_beta)

lemma final_events_lookup: "map_of (final_events xs) = map_of (rev xs)"
proof (induction xs rule: rev_induct)
  case Nil
  then show ?case by (simp add: final_events_def)
next
  case (snoc x xs)
  then show ?case by (cases x) (simp add: final_events_snoc AList.update_conv')
qed

lemma final_events_distinct: "distinct (map fst (final_events xs))"
  by (induction xs rule: rev_induct) (simp add: final_events_def, simp add: final_events_snoc AList.distinct_update)

lemma filter_entry:
  assumes "distinct (map fst al)" and "\<And>e. qj_webhook (f (i, e)) = i" and "\<And>x. qj_webhook (f x) = fst x"
  shows "filter (\<lambda>j. qj_webhook j = i) (map f al) = (case map_of al i of None \<Rightarrow> [] | Some e \<Rightarrow> [f (i, e)])"
  using assms(1)
proof (induction al)
  case (Cons x al)
  show ?case
  proof (cases "fst x = i")
    case True
    then have "i \<notin> fst ` set al" using Cons.prems by auto
    then have "map_of al i = None" by (simp add: map_of_eq_None_iff)
    then show ?thesis using Cons True by (cases x) (simp add: assms(3))
  next
    case False
    then show ?thesis using Cons by (cases x) (auto simp: assms(3))
  qed
qed simp

lemma map_of_labelled: "map_of (rev (map (\<lambda>w. (f w, e)) ws)) i = (if i \<in> f ` set ws then Some e else None)"
  by (induction ws) (auto simp: map_add_def split: option.split)

lemma last_snoc_case: "(case xs @ [e] of [] \<Rightarrow> None | y # ys \<Rightarrow> Some (last (y # ys))) = Some e"
  by (cases xs) simp_all

lemma map_of_wanted:
  "map_of (rev (concat (map (\<lambda>e. map (\<lambda>w. (f w, e)) (L e)) es))) i
   = (case filter (\<lambda>e. i \<in> f ` set (L e)) es of [] \<Rightarrow> None | xs \<Rightarrow> Some (last xs))"
proof (induction es rule: rev_induct)
  case (snoc e es)
  have "map_of (rev (concat (map (\<lambda>e. map (\<lambda>w. (f w, e)) (L e)) (es @ [e])))) i
      = (if i \<in> f ` set (L e) then Some e else map_of (rev (concat (map (\<lambda>e. map (\<lambda>w. (f w, e)) (L e)) es))) i)"
    by (simp add: map_add_def map_of_labelled del: rev_map)
  then show ?case unfolding snoc using last_snoc_case [of _ e] by (simp del: last.simps)
qed simp

lemma opened_id: "opened V r = Some w \<Longrightarrow> wh_id w = wh_id r"
  by (auto simp: opened_def split: option.splits)

lemma listed_active:
  assumes "distinct (map wh_id (wh_rows db))" and "r \<in> set (wh_rows db)" and "opened V r = Some w"
  shows "wh_id r \<in> wh_id ` set (list_active V pid e db) \<longleftrightarrow> subscribed pid e r"
proof
  assume "wh_id r \<in> wh_id ` set (list_active V pid e db)"
  then obtain x v where x: "x \<in> set (wh_rows db)" "subscribed pid e x" "opened V x = Some v" "wh_id v = wh_id r"
    by (auto simp: list_active_def List.map_filter_def)
  then have "x = r" using assms(1,2) opened_id [OF x(3)] by (auto simp: distinct_map inj_on_def)
  then show "subscribed pid e r" using x(2) by simp
next
  assume "subscribed pid e r"
  then have "w \<in> set (list_active V pid e db)" using assms(2,3) by (force simp: list_active_def List.map_filter_def)
  then show "wh_id r \<in> wh_id ` set (list_active V pid e db)" using opened_id [OF assms(3)] by (metis imageI)
qed


text \<open>No payload but that of a digest names its project.\<close>

lemma build_payload_unnamed: "build_payload fails external now pid bdb ddb = Some (p, events) \<Longrightarrow> hp_slug p = []"
  by (auto simp: build_payload_def empty_payload_def Let_def split: sum.splits option.splits)

lemma queued_unnamed: "j \<in> set (enqueue_webhooks V fails external now pid bdb ddb db) \<union> set (enqueue_failure V fails now pid db)
    \<Longrightarrow> hp_slug (qj_payload j) = []"
  by (auto simp: enqueue_webhooks_def enqueue_failure_def empty_payload_def split: option.splits dest!: build_payload_unnamed [OF sym])

section \<open>Where deliveries go\<close>

lemma log_delivery_client [simp]: "co_client (log_delivery S d s) = co_client s"
  by (simp add: log_delivery_def)

lemma post_webhook_client: "co_client (fst (post_webhook S j w b s)) = fst (http_post (we_net (sd_env S)) (wh_url w) (co_client s))"
  by (auto simp: post_webhook_def Let_def split: sum.split prod.split)

lemma send_webhook_client:
  "co_client (fst (send_webhook S j s)) = co_client s
   \<or> (\<exists>url. co_client (fst (send_webhook S j s)) = fst (http_post (we_net (sd_env S)) url (co_client s)))"
  by (auto simp: send_webhook_def post_webhook_client split: sum.split option.split)

text \<open>Every delivery with the tables, the network and the clock of its own time.\<close>

definition deliver_all :: "(sender \<times> webhook_db \<times> send_job) list \<Rightarrow> courier \<Rightarrow> courier" where
  "deliver_all runs s = fold (\<lambda>(S, db, j) s. fst (send_webhook S j (s\<lparr>co_db := db\<rparr>))) runs s"

definition fresh_courier :: courier where
  "fresh_courier = \<lparr>co_db = \<lparr>wh_rows = [], wh_deliveries = []\<rparr>, co_client = fresh_client, co_posts = []\<rparr>"

lemma http_post_guarded: "guarded s \<Longrightarrow> guarded (fst (http_post N url s))"
  using follow_ok [of s 0] by (simp add: http_post_def)

text \<open>C4: Whatever webhooks the tables hold at each delivery, whatever their names resolve to, at each look-up anew, and
  whatever the peers answer, redirects included, every request of the delivery worker goes to an address outside the
  refused networks.\<close>

theorem deliveries_stay_public: "guarded (co_client (deliver_all runs fresh_courier))"
proof -
  have "guarded (co_client (deliver_all runs s))" if "guarded (co_client s)" for s
    using that
  proof (induction runs arbitrary: s)
    case (Cons r runs)
    obtain S db j where r: "r = (S, db, j)" by (cases r)
    have "guarded (co_client (fst (send_webhook S j (s\<lparr>co_db := db\<rparr>))))"
      using send_webhook_client [of S j "s\<lparr>co_db := db\<rparr>"] Cons.prems http_post_guarded by fastforce
    from Cons.IH [OF this] show ?case by (simp add: deliver_all_def r)
  qed (simp add: deliver_all_def)
  moreover have "guarded (co_client fresh_courier)" by (simp add: fresh_courier_def guarded_def fresh_client_def)
  ultimately show ?thesis .
qed

section \<open>What is recorded\<close>

text \<open>A delivery to a URL that the check of the worker rejects is retried, and leaves no record: the payload of the
  record is the empty text, which is no JSON document.\<close>

theorem blocked_delivery_unlogged:
  assumes "get_webhook (sd_env S) (qj_webhook j) (co_db s) = Inr w" and "\<not> sd_fails S ''GetByID''"
    and "validate_url_runner (we_net (sd_env S)) (wh_url w) = Some e" and "\<not> we_jsonb (sd_env S) []"
  shows "send_webhook S j s = (s, WorkRetry e)"
  using assms by (simp add: send_webhook_def log_delivery_def insert_delivery_def delivery_of_def)

text \<open>A webhook that cannot be read, for whatever reason, counts as deleted, and its notification as sent.\<close>

lemma unreadable_webhook_dropped:
  "get_webhook (sd_env S) (qj_webhook j) (co_db s) = Inl e \<or> sd_fails S ''GetByID'' \<Longrightarrow> send_webhook S j s = (s, WorkDone)"
  by (auto simp: send_webhook_def)

text \<open>A delivery whose record the table takes is in the log, with the status of the answer.\<close>

lemma posted_logged:
  assumes "http_post (we_net (sd_env S)) (wh_url w) (co_client s) = (c, Inr (code, page))"
    and "\<not> sd_fails S ''InsertDelivery''" and "qj_webhook j \<in> wh_id ` set (wh_rows (co_db s))"
    and "we_jsonb (sd_env S) (sd_json S (qj_payload j))" and "valid_text (hp_event (qj_payload j))" and "valid_text (take 1024 page)"
  shows "\<exists>d. wh_deliveries (co_db (fst (post_webhook S j w b s))) = wh_deliveries (co_db s) @ [d] \<and> dl_status d = Some code
    \<and> dl_webhook d = qj_webhook j"
  using assms by (simp add: post_webhook_def log_delivery_def insert_delivery_def delivery_of_def)

text \<open>An answer 2xx makes a delivery a success, whichever request of the client it answers.\<close>

lemma post_webhook_done:
  "http_post (we_net (sd_env S)) (wh_url w) (co_client s) = (c, Inr (code, page)) \<Longrightarrow> 200 \<le> code \<Longrightarrow> code < 300
    \<Longrightarrow> snd (post_webhook S j w b s) = WorkDone"
  by (simp add: post_webhook_def Let_def)

section \<open>The merged regressions of a digest\<close>

text \<open>The largest count among the rows of one fingerprint.\<close>

fun merged_count :: "nat \<Rightarrow> regression list \<Rightarrow> int option" where
  "merged_count i [] = None"
| "merged_count i (r # rs) = (if rg_id r \<noteq> i then merged_count i rs
     else case merged_count i rs of None \<Rightarrow> Some (rg_count r) | Some n \<Rightarrow> Some (max (rg_count r) n))"

definition raise_count :: "regression \<Rightarrow> regression \<Rightarrow> regression" where
  "raise_count r a = (if rg_id a = rg_id r \<and> rg_count a < rg_count r then a\<lparr>rg_count := rg_count r\<rparr> else a)"

lemma raise_count_ids: "map rg_id (map (raise_count r) acc) = map rg_id acc"
  by (induction acc) (auto simp: raise_count_def)

lemma merge_step: "merge_regressions acc (r # rs)
    = merge_regressions (if rg_id r \<in> set (map rg_id acc) then map (raise_count r) acc else acc @ [r]) rs"
proof -
  have "list_ex (\<lambda>a. rg_id a = rg_id r) acc \<longleftrightarrow> rg_id r \<in> set (map rg_id acc)" by (induction acc) auto
  then show ?thesis by (simp add: raise_count_def [abs_def] del: list.set_map)
qed

lemma merge_regressions_ids:
  "distinct (map rg_id acc) \<Longrightarrow> distinct (map rg_id (merge_regressions acc rs))
   \<and> set (map rg_id (merge_regressions acc rs)) = set (map rg_id acc) \<union> set (map rg_id rs)"
proof (induction rs arbitrary: acc)
  case (Cons r rs)
  show ?case
  proof (cases "rg_id r \<in> set (map rg_id acc)")
    case True
    then show ?thesis using Cons.IH [of "map (raise_count r) acc"] Cons.prems unfolding merge_step raise_count_ids by auto
  next
    case False
    then show ?thesis using Cons.IH [of "acc @ [r]"] Cons.prems unfolding merge_step by auto
  qed
qed simp

lemma merged_count_append: "merged_count i (xs @ ys) = (case (merged_count i xs, merged_count i ys) of
    (Some m, Some n) \<Rightarrow> Some (max m n) | (Some m, None) \<Rightarrow> Some m | (None, y) \<Rightarrow> y)"
  by (induction xs) (auto split: option.splits)

lemma merged_count_none: "i \<notin> set (map rg_id xs) \<Longrightarrow> merged_count i xs = None"
  by (induction xs) auto

lemma merged_count_raised:
  "distinct (map rg_id acc) \<Longrightarrow> rg_id r \<in> set (map rg_id acc) \<Longrightarrow>
   merged_count i (map (raise_count r) acc) = merged_count i (acc @ [r])"
proof (induction acc)
  case (Cons a acc)
  show ?case
  proof (cases "rg_id a = rg_id r")
    case True
    then have no: "rg_id r \<notin> rg_id ` set acc" using Cons.prems(1) by simp
    have "raise_count r x = x" if "x \<in> set acc" for x using no that by (metis imageI raise_count_def)
    then have "map (raise_count r) acc = acc" by (simp add: map_idI)
    moreover have "merged_count (rg_id r) acc = None" using True Cons.prems(1) by (intro merged_count_none) auto
    moreover have "rg_id (raise_count r a) = rg_id r" "rg_count (raise_count r a) = max (rg_count a) (rg_count r)"
      using True by (simp_all add: raise_count_def)
    ultimately show ?thesis using True by (auto simp: merged_count_append max.commute split: option.split)
  next
    case False
    then have "merged_count i (map (raise_count r) acc) = merged_count i (acc @ [r])" using Cons by simp
    moreover have "raise_count r a = a" using False by (simp add: raise_count_def)
    ultimately show ?thesis by simp
  qed
qed simp

lemma merge_regressions_count:
  "distinct (map rg_id acc) \<Longrightarrow> merged_count i (merge_regressions acc rs) = merged_count i (acc @ rs)"
proof (induction rs arbitrary: acc)
  case (Cons r rs)
  show ?case
  proof (cases "rg_id r \<in> set (map rg_id acc)")
    case True
    have "merged_count i (merge_regressions acc (r # rs)) = merged_count i (map (raise_count r) acc @ rs)"
      unfolding merge_step using True Cons.IH [of "map (raise_count r) acc"] Cons.prems by (simp only: raise_count_ids if_True simp_thms)
    also have "\<dots> = merged_count i ((acc @ [r]) @ rs)"
      unfolding merged_count_append [of _ _ rs] merged_count_raised [OF Cons.prems True] ..
    finally show ?thesis by simp
  next
    case False
    then show ?thesis using Cons.IH [of "acc @ [r]"] Cons.prems unfolding merge_step by simp
  qed
qed simp

text \<open>A digest lists every regressed fingerprint of its period once, with the largest count of its occurrences.\<close>

theorem digest_lists_once:
  shows "distinct (map rg_id (merge_regressions [] rs)) \<and> rg_id ` set (merge_regressions [] rs) = rg_id ` set rs
    \<and> merged_count i (merge_regressions [] rs) = merged_count i rs"
  using merge_regressions_ids [of "[]" rs] merge_regressions_count [of "[]" i rs] by simp

section \<open>Instances\<close>

text \<open>Build 3 of project 1, with one failure, after a clean build 2.\<close>

definition demo_latest :: build where
  "demo_latest = (new_build 11 1 3 100)\<lparr>b_latest := True, b_stats := Some \<lparr>st_passed = 4, st_failed = 1, st_broken = 0,
     st_skipped = 0, st_unknown = 0, st_total = 5, st_duration = 9\<rparr>\<rparr>"

definition demo_build_db :: build_db where
  "demo_build_db = \<lparr>build_rows = [demo_latest, new_build 10 1 2 50], next_build_id = 12, branch_rows = [], next_branch_id = 1\<rparr>"

definition demo_payload :: hook_payload where
  "demo_payload = (empty_payload ''report_completed'' 1 7)\<lparr>hp_build := 3, hp_stats := stats_payload (b_stats demo_latest)\<rparr>"

lemma demo_triggered: "build_payload (\<lambda>_. False) [] 7 1 demo_build_db None = Some (demo_payload, [''report_completed'', ''report_failed''])"
  by code_simp

definition demo_opened :: webhook where
  "demo_opened = (demo_hook ''a'' 1)\<lparr>wh_url := ''h'', wh_secret := Some ''s''\<rparr>"

lemma demo_opens: "opened demo_vault (demo_hook ''a'' 1) = Some demo_opened"
  by code_simp


definition demo_sender :: sender where
  "demo_sender = \<lparr>sd_env = demo_hooks\<lparr>we_net := demo_net\<lparr>n_url := (\<lambda>u. Some \<lparr>up_scheme = ''ftp'', up_host = u\<rparr>)\<rparr>\<rparr>,
     sd_template = (\<lambda>_ _ _. Inr []), sd_default = (\<lambda>_. []), sd_indent = (\<lambda>_. ''{}''), sd_json = (\<lambda>_. ''{}''),
     sd_hmac = (\<lambda>_ _. ''m''), sd_now = 9, sd_fails = (\<lambda>_. False)\<rparr>"

definition demo_send :: send_job where
  "demo_send = \<lparr>qj_webhook = ''a'', qj_payload = demo_payload, sj_attempt = 1\<rparr>"

definition demo_courier :: courier where
  "demo_courier = fresh_courier\<lparr>co_db := demo_hook_db\<rparr>"

lemma blocked_delivery_unlogged_witness:
  "send_webhook demo_sender demo_send demo_courier
   = (demo_courier, WorkRetry ''webhook delivery blocked: URL must use http or https scheme'')"
proof -
  have "get_webhook (sd_env demo_sender) (qj_webhook demo_send) (co_db demo_courier) = Inr demo_opened" by code_simp
  then show ?thesis
    by (rule blocked_delivery_unlogged)
      (simp_all add: demo_sender_def demo_hooks_def demo_net_def validate_url_runner_def)
qed

end
