(* ===== verification/Retention.thy ===== *)
theory Retention
  imports Builds
begin

text \<open>
  Retention: \<open>KeepLatestHistory\<close> of \<open>runner/allure.go\<close>, which ends every ingestion, and the daily sweep
  \<open>runRetentionSweep\<close> of \<open>cmd/api/main.go\<close>, over the build tables, the defect tables and the report
  directories.

  Deleting a build takes along, by the foreign keys of the migrations, its test results and occurrences and
  the defects first or last seen in it; test results of other builds lose their link to such a defect.  A day
  is 24 hours.  The last two parts of the sweep (webhook deliveries, pending results by modification time) touch
  none of these tables and are left out.
\<close>

section \<open>Deleting builds\<close>

record world =
  w_builds :: build_db
  w_defects :: defect_db
  w_fs :: fs

text \<open>The foreign keys of migration 0024 and of the test results.\<close>

definition cascade_builds :: "int list \<Rightarrow> defect_db \<Rightarrow> defect_db" where
  "cascade_builds ids db =
     (let gone = map d_id (filter (\<lambda>d. d_first d \<in> set ids \<or> d_last d \<in> set ids) (defects db))
      in db\<lparr>defects := filter (\<lambda>d. d_first d \<notin> set ids \<and> d_last d \<notin> set ids) (defects db),
            occurrences := filter (\<lambda>r. oc_build r \<notin> set ids \<and> oc_defect r \<notin> set gone) (occurrences db),
            results := map (\<lambda>r. case tr_defect r of None \<Rightarrow> r | Some k \<Rightarrow> if k \<in> set gone then r\<lparr>tr_defect := None\<rparr> else r)
              (filter (\<lambda>r. tr_build r \<notin> set ids) (results db))\<rparr>)"

definition gone_builds :: "build_db \<Rightarrow> build_db \<Rightarrow> int list" where
  "gone_builds db db' = filter (\<lambda>i. i \<notin> b_id ` set (build_rows db')) (map b_id (build_rows db))"

text \<open>A statement on the build tables, seen by the others.\<close>

definition on_builds :: "(build_db \<Rightarrow> build_db \<times> 'a) \<Rightarrow> world \<Rightarrow> world \<times> 'a" where
  "on_builds f w = (case f (w_builds w) of (db', x) \<Rightarrow>
     (w\<lparr>w_builds := db', w_defects := cascade_builds (gone_builds (w_builds w) db')
          ((w_defects w)\<lparr>builds := map build_row.truncate (build_rows db')\<rparr>)\<rparr>, x))"

record retention_cfg =
  rc_keep :: bool
  rc_latest :: int
  rc_max_age :: int
  rc_store :: local_cfg

definition age_cutoff :: "retention_cfg \<Rightarrow> time \<Rightarrow> time" where
  "age_cutoff c now = now - rc_max_age c * (24 * 60 * minute)"

definition prune_dirs :: "retention_cfg \<Rightarrow> string \<Rightarrow> int list \<Rightarrow> world \<Rightarrow> world \<times> (io_error + unit)" where
  "prune_dirs c key ns w = (case prune_report_dirs (rc_store c) key ns (w_fs w) of (r, fs) \<Rightarrow> (w\<lparr>w_fs := fs\<rparr>, r))"

text \<open>\<open>fails\<close> names the store calls that fail; a branch of \<open>PruneStaleBranches\<close> fails by its name.\<close>

definition prune_stale :: "(string \<Rightarrow> bool) \<Rightarrow> int \<Rightarrow> time \<Rightarrow> world \<Rightarrow> world \<times> int list" where
  "prune_stale fails pid cutoff w =
     (if fails ''PruneStaleBranches'' then (w, []) else on_builds (prune_stale_branches fails pid cutoff) w)"

section \<open>After an ingestion\<close>

definition keep_latest_history ::
  "retention_cfg \<Rightarrow> (string \<Rightarrow> bool) \<Rightarrow> int \<Rightarrow> string \<Rightarrow> int option \<Rightarrow> time \<Rightarrow> world \<Rightarrow> world \<times> (io_error + unit)" where
  "keep_latest_history c fails pid key br now w =
     (if \<not> rc_keep c then (w, Inr ())
      else if fails ''PruneBuildsBranch'' then (w, Inl (Failed ''prune builds from db''))
      else case on_builds (prune_builds_branch pid (rc_latest c) br) w of (w1, removed) \<Rightarrow>
        case prune_dirs c key removed w1 of
          (w2, Inl e) \<Rightarrow> (w2, Inl e)
        | (w2, Inr _) \<Rightarrow>
          if rc_max_age c \<le> 0 then (w2, Inr ())
          else if fails ''PruneBuildsByAge'' then (w2, Inl (Failed ''prune builds by age''))
          else case on_builds (prune_builds_by_age pid (age_cutoff c now)) w2 of (w3, aged) \<Rightarrow>
            case prune_dirs c key aged w3 of
              (w4, Inl e) \<Rightarrow> (w4, Inl e)
            | (w4, Inr _) \<Rightarrow>
              case prune_stale fails pid (age_cutoff c now) w4 of (w5, stale) \<Rightarrow>
                (if stale = [] then w5 else fst (prune_dirs c key stale w5), Inr ()))"

section \<open>The sweep\<close>

definition sweep_count :: "retention_cfg \<Rightarrow> (string \<Rightarrow> bool) \<Rightarrow> int \<Rightarrow> string \<Rightarrow> world \<Rightarrow> world" where
  "sweep_count c fails pid key w =
     (if rc_latest c \<le> 0 \<or> fails ''PruneBuildsBranch'' then w
      else case on_builds (prune_builds_branch pid (rc_latest c) None) w of (w1, removed) \<Rightarrow> fst (prune_dirs c key removed w1))"

definition sweep_age :: "retention_cfg \<Rightarrow> (string \<Rightarrow> bool) \<Rightarrow> int \<Rightarrow> string \<Rightarrow> time \<Rightarrow> world \<Rightarrow> world" where
  "sweep_age c fails pid key now w =
     (if rc_max_age c \<le> 0 then w
      else let w1 = (if fails ''PruneBuildsByAge'' then w
                     else case on_builds (prune_builds_by_age pid (age_cutoff c now)) w of (w1, aged) \<Rightarrow> fst (prune_dirs c key aged w1))
           in case prune_stale fails pid (age_cutoff c now) w1 of (w2, stale) \<Rightarrow>
                if stale = [] then w2 else fst (prune_dirs c key stale w2))"

definition sweep_project :: "retention_cfg \<Rightarrow> (string \<Rightarrow> bool) \<Rightarrow> time \<Rightarrow> int \<times> string \<Rightarrow> world \<Rightarrow> world" where
  "sweep_project c fails now p w =
     (let w1 = sweep_age c fails (fst p) (snd p) now (sweep_count c fails (fst p) (snd p) w)
      in if fails ''DeleteOrphanBranches'' then w1 else fst (on_builds (delete_orphan_branches (fst p) now) w1))"

definition retention_sweep ::
  "retention_cfg \<Rightarrow> (int \<Rightarrow> string \<Rightarrow> bool) \<Rightarrow> time \<Rightarrow> (int \<times> string) list \<Rightarrow> world \<Rightarrow> world" where
  "retention_sweep c fails now ps w = fold (\<lambda>p. sweep_project c (fails (fst p)) now p) ps w"

section \<open>What a prune removes\<close>

text \<open>The elements dropped from a sorted list are those with many before them.\<close>

lemma drop_sorted:
  fixes f :: "'a \<Rightarrow> int"
  assumes "distinct xs" and "inj_on f (set xs)" and "b \<in> set xs"
  shows "b \<in> set (drop k (sort_key f xs)) \<longleftrightarrow> k \<le> length (filter (\<lambda>x. f x < f b) xs)"
proof -
  let ?ys = "sort_key f xs"
  have ys: "distinct ?ys" "sorted (map f ?ys)" "set ?ys = set xs" using assms(1) by simp_all
  obtain i where i: "i < length ?ys" "?ys ! i = b" using assms(3) ys(3) by (metis in_set_conv_nth)
  have "distinct (map f ?ys)" using ys assms(2) by (simp add: distinct_map)
  then have lt: "f (?ys ! j) < f b \<longleftrightarrow> j < i" if "j < length ?ys" for j
  proof -
    have "f (?ys ! j) \<le> f b" if "j \<le> i" using ys(2) i that \<open>j < length ?ys\<close> by (auto simp: sorted_iff_nth_mono)
    moreover have "f b \<le> f (?ys ! j)" if "i \<le> j" using ys(2) i that \<open>j < length ?ys\<close> by (auto simp: sorted_iff_nth_mono)
    moreover have "f (?ys ! j) = f b \<longleftrightarrow> j = i"
      using \<open>distinct (map f ?ys)\<close> i \<open>j < length ?ys\<close> nth_eq_iff_index_eq [of "map f ?ys" j i] by simp
    ultimately show ?thesis by (cases j i rule: linorder_cases) auto
  qed
  have "length (filter (\<lambda>x. f x < f b) xs) = length (filter (\<lambda>x. f x < f b) ?ys)"
    by (simp add: filter_sort)
  also have "\<dots> = card {j. j < length ?ys \<and> f (?ys ! j) < f b}" by (rule length_filter_conv_card)
  also have "{j. j < length ?ys \<and> f (?ys ! j) < f b} = {..<i}" using lt i(1) by auto
  finally have n: "length (filter (\<lambda>x. f x < f b) xs) = i" by simp
  have "b \<in> set (drop k ?ys) \<longleftrightarrow> k \<le> i"
  proof
    assume "b \<in> set (drop k ?ys)"
    then obtain j where "j < length (drop k ?ys)" "drop k ?ys ! j = b" by (metis in_set_conv_nth)
    then have "k + j < length ?ys" "?ys ! (k + j) = b" by auto
    then have "k + j = i" using ys(1) i nth_eq_iff_index_eq by metis
    then show "k \<le> i" by simp
  next
    assume "k \<le> i"
    then have "drop k ?ys ! (i - k) = b" "i - k < length (drop k ?ys)" using i by auto
    then show "b \<in> set (drop k ?ys)" by (metis nth_mem)
  qed
  with n show ?thesis by simp
qed

lemma builds_of_member: "b \<in> set (builds_of pid br db) \<longleftrightarrow> b \<in> set (build_rows db) \<and> b_project b = pid \<and> (br = None \<or> b_branch b = br)"
  by (auto simp: builds_of_def)

lemma rows_ok_inj: "rows_ok n bs \<Longrightarrow> inj_on b_order (set (filter p (of_project pid bs)))"
  by (auto simp: rows_ok_def distinct_map inj_on_def)

text \<open>A prune by count removes the builds of its scope that have \<open>keep\<close> newer ones in it.\<close>

lemma pruned_iff:
  assumes "builds_ok db" and "0 < keep" and "b \<in> set (build_rows db)" and "b_project b = pid"
  shows "b \<in> set (build_rows (fst (prune_builds_branch pid keep br db))) \<longleftrightarrow>
    \<not> ((br = None \<or> b_branch b = br) \<and> nat keep \<le> length (filter (\<lambda>x. b_order b < b_order x)
        (filter (\<lambda>x. br = None \<or> b_branch x = br) (of_project pid (build_rows db)))))"
proof -
  let ?xs = "filter (\<lambda>x. br = None \<or> b_branch x = br) (of_project pid (build_rows db))"
  have ok: "rows_ok (next_build_id db) (build_rows db)" using assms(1) by (simp add: builds_ok_def)
  have d: "distinct ?xs" using ok by (simp add: rows_ok_def distinct_map)
  have inj: "inj_on (\<lambda>x. - b_order x) (set ?xs)" using rows_ok_inj [OF ok] by (auto simp: inj_on_def)
  have "b_order b \<in> b_order ` set (drop (nat keep) (builds_of pid br db)) \<longleftrightarrow> b \<in> set (drop (nat keep) (builds_of pid br db))"
  proof
    assume "b_order b \<in> b_order ` set (drop (nat keep) (builds_of pid br db))"
    then obtain x where x: "x \<in> set (drop (nat keep) (builds_of pid br db))" "b_order x = b_order b" by auto
    then have "x \<in> set (build_rows db)" "b_project x = pid" using builds_of_member in_set_dropD by metis+
    then have "x = b" using ok assms(3,4) x(2) by (auto simp: rows_ok_def distinct_map inj_on_def)
    with x show "b \<in> set (drop (nat keep) (builds_of pid br db))" by simp
  qed auto
  moreover have "b \<in> set (drop (nat keep) (builds_of pid br db)) \<longleftrightarrow> (br = None \<or> b_branch b = br)
      \<and> nat keep \<le> length (filter (\<lambda>x. b_order b < b_order x) ?xs)"
  proof (cases "br = None \<or> b_branch b = br")
    case True
    then have "b \<in> set ?xs" using assms(3,4) by simp
    from drop_sorted [OF d inj this, of "nat keep"] True show ?thesis by (simp add: builds_of_def)
  next
    case False
    then show ?thesis using builds_of_member in_set_dropD by metis
  qed
  ultimately show ?thesis using assms(2-4) by (simp add: prune_builds_branch_def Let_def delete_numbers_def tbl_simps)
qed

section \<open>What else the steps do\<close>

definition ids_of :: "build_db \<Rightarrow> int set" where
  "ids_of db = b_id ` set (build_rows db)"

lemma prune_dirs_fields [simp]:
  "w_builds (fst (prune_dirs c key ns w)) = w_builds w" "w_defects (fst (prune_dirs c key ns w)) = w_defects w"
  by (simp_all add: prune_dirs_def split: prod.split)

lemma on_builds_eq: "on_builds f w = (w\<lparr>w_builds := fst (f (w_builds w)), w_defects := cascade_builds (gone_builds (w_builds w) (fst (f (w_builds w))))
     ((w_defects w)\<lparr>builds := map build_row.truncate (build_rows (fst (f (w_builds w))))\<rparr>)\<rparr>, snd (f (w_builds w)))"
  by (simp add: on_builds_def split: prod.split)

lemma on_builds_defects: "set (defects (w_defects (fst (on_builds f w)))) \<subseteq> set (defects (w_defects w))"
  by (auto simp: on_builds_eq cascade_builds_def Let_def)

lemma ids_delete: "ids_of (db\<lparr>build_rows := tbl_delete p (build_rows db)\<rparr>) \<subseteq> ids_of db"
  by (auto simp: ids_of_def tbl_simps)

lemma ids_delete_branches: "ids_of (delete_branches p db) = ids_of db"
proof -
  have "b_id ` set (tbl_update q (\<lambda>b. b\<lparr>b_branch := None\<rparr>) rs) = b_id ` set rs" for q and rs :: "build list"
  proof -
    have "map b_id (tbl_update q (\<lambda>b. b\<lparr>b_branch := None\<rparr>) rs) = map b_id rs" by (rule map_key_update) simp
    then show ?thesis by (metis list.set_map)
  qed
  then show ?thesis by (simp add: ids_of_def delete_branches_def Let_def)
qed

lemma ids_prune_stale_branch: "ids_of (fst (prune_stale_branch pid n cutoff db)) \<subseteq> ids_of db"
proof -
  let ?p = "\<lambda>b. on_ci_branch pid n b \<and> b_created b < cutoff \<and> \<not> default_branch pid n db"
  have "ids_of (db\<lparr>build_rows := tbl_delete ?p (build_rows db)\<rparr>) \<subseteq> ids_of db" by (rule ids_delete)
  then show ?thesis by (simp add: prune_stale_branch_def Let_def ids_delete_branches)
qed

lemma ids_prune_stale_names: "ids_of (fst (prune_stale_names fails pid cutoff ns db)) \<subseteq> ids_of db"
proof (induction ns arbitrary: db)
  case (Cons n ns)
  obtain db1 r1 where 1: "prune_stale_branch pid n cutoff db = (db1, r1)" by (cases "prune_stale_branch pid n cutoff db")
  obtain db2 r2 where 2: "prune_stale_names fails pid cutoff ns db1 = (db2, r2)"
    by (cases "prune_stale_names fails pid cutoff ns db1")
  have "ids_of db1 \<subseteq> ids_of db" "ids_of db2 \<subseteq> ids_of db1"
    using ids_prune_stale_branch [of pid n cutoff db] Cons.IH [of db1] 1 2 by simp_all
  then show ?case using Cons.IH [of db] 1 2 by auto
qed simp

text \<open>A step that deletes builds and defects only.\<close>

definition shrinks :: "world \<Rightarrow> world \<Rightarrow> bool" where
  "shrinks w w' \<longleftrightarrow> ids_of (w_builds w') \<subseteq> ids_of (w_builds w) \<and> set (defects (w_defects w')) \<subseteq> set (defects (w_defects w))"

lemma shrinks_refl [simp]: "shrinks w w"
  by (simp add: shrinks_def)

lemma shrinks_trans: "shrinks u v \<Longrightarrow> shrinks v w \<Longrightarrow> shrinks u w"
  unfolding shrinks_def by blast

lemma shrinks_on_builds: "(\<And>db. ids_of (fst (f db)) \<subseteq> ids_of db) \<Longrightarrow> shrinks w (fst (on_builds f w))"
  using on_builds_defects [of f w] by (simp add: shrinks_def on_builds_eq)

lemma shrinks_prune_dirs [simp]: "shrinks u (fst (prune_dirs c key ns w)) \<longleftrightarrow> shrinks u w"
  by (simp add: shrinks_def)

lemma shrinks_by_count: "shrinks w (fst (on_builds (prune_builds_branch pid keep br) w))"
  by (rule shrinks_on_builds) (auto simp: ids_of_def prune_builds_branch_def Let_def delete_numbers_def tbl_simps)

lemma shrinks_by_age: "shrinks w (fst (on_builds (prune_builds_by_age pid cutoff) w))"
  by (rule shrinks_on_builds) (auto simp: ids_of_def prune_builds_by_age_def Let_def delete_numbers_def tbl_simps)

lemma shrinks_stale: "shrinks w (fst (prune_stale fails pid cutoff w))"
  unfolding prune_stale_def prune_stale_branches_def
  using shrinks_on_builds [OF ids_prune_stale_names] by simp

lemma shrinks_orphans: "shrinks w (fst (on_builds (delete_orphan_branches pid now) w))"
  by (rule shrinks_on_builds) (simp add: delete_orphan_branches_def Let_def ids_delete_branches)

lemma shrinks_sweep_age: "shrinks w (sweep_age c fails pid key now w)"
proof -
  let ?w1 = "if fails ''PruneBuildsByAge'' then w
     else case on_builds (prune_builds_by_age pid (age_cutoff c now)) w of (w1, aged) \<Rightarrow> fst (prune_dirs c key aged w1)"
  let ?p = "prune_stale fails pid (age_cutoff c now)"
  have "shrinks w ?w1"
    using shrinks_by_age [of w pid "age_cutoff c now"] by (cases "on_builds (prune_builds_by_age pid (age_cutoff c now)) w") simp
  then have "shrinks w (fst (?p ?w1))" using shrinks_stale by (rule shrinks_trans)
  then show ?thesis
    unfolding sweep_age_def Let_def by (cases "?p ?w1") simp
qed

lemma sweep_project_shrinks: "shrinks (sweep_count c fails pid key w) (sweep_project c fails now (pid, key) w)"
proof -
  let ?w = "sweep_age c fails pid key now (sweep_count c fails pid key w)"
  have "shrinks (sweep_count c fails pid key w) ?w" by (rule shrinks_sweep_age)
  moreover have "sweep_project c fails now (pid, key) w
      = (if fails ''DeleteOrphanBranches'' then ?w else fst (on_builds (delete_orphan_branches pid now) ?w))"
    by (simp add: sweep_project_def Let_def)
  ultimately show ?thesis using shrinks_trans [OF _ shrinks_orphans] by simp
qed

lemma sweep_count_builds:
  assumes "0 < rc_latest c" and "\<not> fails ''PruneBuildsBranch''"
  shows "w_builds (sweep_count c fails pid key w) = fst (prune_builds_branch pid (rc_latest c) None (w_builds w))"
    and "w_defects (sweep_count c fails pid key w) = w_defects (fst (on_builds (prune_builds_branch pid (rc_latest c) None) w))"
  using assms by (simp_all add: sweep_count_def on_builds_eq split: prod.split)

text \<open>A build with enough newer ones in the project does not survive the count.\<close>

lemma sweep_count_removes:
  assumes "builds_ok (w_builds w)" and "0 < rc_latest c" and "\<not> fails ''PruneBuildsBranch''"
    and "b \<in> set (build_rows (w_builds w))" and "b_project b = pid"
    and "nat (rc_latest c) \<le> length (filter (\<lambda>x. b_order b < b_order x) (of_project pid (build_rows (w_builds w))))"
  shows "b_id b \<notin> ids_of (w_builds (sweep_count c fails pid key w))"
proof
  let ?db = "fst (prune_builds_branch pid (rc_latest c) None (w_builds w))"
  assume "b_id b \<in> ids_of (w_builds (sweep_count c fails pid key w))"
  then obtain x where x: "x \<in> set (build_rows ?db)" "b_id x = b_id b" using sweep_count_builds assms(2,3) by (auto simp: ids_of_def)
  then have "x \<in> set (build_rows (w_builds w))"
    using assms(2) by (auto simp: prune_builds_branch_def Let_def delete_numbers_def tbl_simps)
  then have "x = b" using x(2) assms(1,4) by (auto simp: builds_ok_def rows_ok_def distinct_map inj_on_def)
  then show False using x(1) pruned_iff [OF assms(1,2,4,5), of None] assms(6) by simp
qed

section \<open>Retention and branches\<close>

text \<open>C16: The daily sweep counts the builds of a project whatever their branch.  The newest build of a branch, which
  the retention that follows every ingestion keeps for that branch, is deleted by the sweep as soon as other
  branches of the project have \<open>keep_history_latest\<close> newer builds.\<close>

theorem sweep_ignores_branches:
  assumes "builds_ok (w_builds w)" and "0 < rc_latest c" and "\<not> fails ''PruneBuildsBranch''"
    and "b \<in> set (build_rows (w_builds w))" and "b_project b = pid" and "b_branch b = Some i"
    and "\<forall>x \<in> set (build_rows (w_builds w)). b_project x = pid \<longrightarrow> b_branch x = Some i \<longrightarrow> b_order x \<le> b_order b"
    and "nat (rc_latest c) \<le> length (filter (\<lambda>x. b_order b < b_order x) (of_project pid (build_rows (w_builds w))))"
  shows "b \<in> set (build_rows (fst (prune_builds_branch pid (rc_latest c) (Some i) (w_builds w))))
    \<and> b_id b \<notin> ids_of (w_builds (sweep_project c fails now (pid, key) w))"
proof
  have "filter (\<lambda>x. b_order b < b_order x) (filter (\<lambda>x. Some i = None \<or> b_branch x = Some i) (of_project pid (build_rows (w_builds w)))) = []"
    using assms(7) by (auto simp: filter_empty_conv)
  then show "b \<in> set (build_rows (fst (prune_builds_branch pid (rc_latest c) (Some i) (w_builds w))))"
    using pruned_iff [OF assms(1,2,4,5), of "Some i"] assms(2) by simp
  show "b_id b \<notin> ids_of (w_builds (sweep_project c fails now (pid, key) w))"
    using sweep_count_removes [where key = key and fails = fails, OF assms(1-5,8)] sweep_project_shrinks [of c fails pid key w now]
    by (auto simp only: shrinks_def)
qed

section \<open>Retention and triage\<close>

lemma on_builds_removes_defect:
  assumes "d_first d \<in> ids_of (w_builds w) - ids_of (fst (f (w_builds w)))"
  shows "d \<notin> set (defects (w_defects (fst (on_builds f w))))"
  using assms by (auto simp: on_builds_eq cascade_builds_def Let_def gone_builds_def ids_of_def)

text \<open>C16: Retention forgets triage.  Deleting the build in which a defect was first seen deletes the defect, with its
  category, resolution and known issue, however often and however recently it was seen since; the next failure
  with its fingerprint opens a new defect, uncategorised by hand and counted from its own build.\<close>

theorem retention_forgets_triage:
  assumes "builds_ok (w_builds w)" and "0 < rc_latest c" and "\<not> fails ''PruneBuildsBranch''"
    and "b \<in> set (build_rows (w_builds w))" and "b_project b = pid"
    and "nat (rc_latest c) \<le> length (filter (\<lambda>x. b_order b < b_order x) (of_project pid (build_rows (w_builds w))))"
    and "defects_ok (w_defects w)" and "d \<in> set (defects (w_defects w))" and "d_first d = b_id b"
    and "upsert_one now' (d_project d) bid g (w_defects (sweep_project c fails now (pid, key) w)) = Inr db'"
    and "fr_hash g = d_hash d"
  shows "get_by_hash (d_project d) (d_hash d) db'
    = Some (new_defect now' (d_project d) bid g (next_defect (w_defects (sweep_project c fails now (pid, key) w))))"
proof -
  let ?w = "sweep_project c fails now (pid, key) w" and ?w1 = "sweep_count c fails pid key w"
  have "b_id b \<notin> ids_of (w_builds ?w1)" using assms(1-6) by (rule sweep_count_removes)
  then have "d_first d \<in> ids_of (w_builds w) - ids_of (fst (prune_builds_branch pid (rc_latest c) None (w_builds w)))"
    using assms(4,9) sweep_count_builds(1) [where fails = fails, OF assms(2,3)] by (auto simp: ids_of_def)
  then have "d \<notin> set (defects (w_defects ?w1))"
    unfolding sweep_count_builds(2) [where fails = fails, OF assms(2,3)] by (rule on_builds_removes_defect)
  then have gone: "d \<notin> set (defects (w_defects ?w))"
    using sweep_project_shrinks [of c fails pid key w now] by (auto simp only: shrinks_def)
  have "shrinks w ?w1"
    using assms(2,3) shrinks_by_count [of w pid "rc_latest c" None] sweep_count_builds [where fails = fails, OF assms(2,3)]
    by (simp add: shrinks_def on_builds_eq)
  then have "set (defects (w_defects ?w)) \<subseteq> set (defects (w_defects w))"
    using shrinks_trans [OF _ sweep_project_shrinks] by (simp only: shrinks_def)
  then have "d_key e \<noteq> d_key d" if "e \<in> set (defects (w_defects ?w))" for e
    using that gone assms(7,8) by (auto simp: defects_ok_def distinct_map inj_on_def)
  then have "get_by_hash (d_project d) (d_hash d) (w_defects ?w) = None"
    by (auto simp: get_by_hash_def tbl_simps)
  then show ?thesis using upsert_one_get [OF assms(10), of "d_project d" "d_hash d"] assms(11) by simp
qed

section \<open>Files follow rows\<close>

definition numbers :: "int \<Rightarrow> build_db \<Rightarrow> int set" where
  "numbers pid db = b_order ` set (of_project pid (build_rows db))"

text \<open>A statement that deletes exactly the builds whose numbers it returns.\<close>

definition exact_prune :: "int \<Rightarrow> (build_db \<Rightarrow> build_db \<times> int list) \<Rightarrow> bool" where
  "exact_prune pid f \<longleftrightarrow> (\<forall>db. builds_ok db \<longrightarrow> builds_ok (fst (f db)) \<and> set (snd (f db)) \<subseteq> numbers pid db
     \<and> numbers pid (fst (f db)) = numbers pid db - set (snd (f db)))"

lemma numbers_delete: "numbers pid (delete_numbers pid ns db) = numbers pid db - set ns"
  by (auto simp: numbers_def delete_numbers_def tbl_simps)

lemma exact_by_count: "exact_prune pid (prune_builds_branch pid keep br)"
  unfolding exact_prune_def
proof (intro allI impI conjI)
  fix db assume ok: "builds_ok db"
  show "builds_ok (fst (prune_builds_branch pid keep br db))"
    using ok by (simp add: prune_builds_branch_def Let_def delete_numbers_def ok_delete_rows)
  show "set (snd (prune_builds_branch pid keep br db)) \<subseteq> numbers pid db"
    by (auto simp: prune_builds_branch_def Let_def numbers_def builds_of_def dest!: in_set_dropD)
  show "numbers pid (fst (prune_builds_branch pid keep br db)) = numbers pid db - set (snd (prune_builds_branch pid keep br db))"
    by (simp add: prune_builds_branch_def Let_def numbers_delete)
qed

lemma exact_by_age: "exact_prune pid (prune_builds_by_age pid cutoff)"
  by (auto simp: exact_prune_def prune_builds_by_age_def Let_def numbers_delete numbers_def delete_numbers_def tbl_simps
      intro: ok_delete_rows)

lemma numbers_delete_branches: "numbers pid (delete_branches p db) = numbers pid db"
proof -
  have "numbers pid (db\<lparr>build_rows := tbl_update q (\<lambda>b. b\<lparr>b_branch := None\<rparr>) rs\<rparr>) = numbers pid (db\<lparr>build_rows := rs\<rparr>)" for q rs
    by (induction rs) (auto simp: numbers_def tbl_update_Cons tbl_update_Nil)
  then show ?thesis by (simp add: delete_branches_def Let_def numbers_def)
qed

lemma exact_stale_branch: "exact_prune pid (prune_stale_branch pid name cutoff)"
  unfolding exact_prune_def
proof (intro allI impI conjI)
  fix db assume ok: "builds_ok db"
  let ?p = "\<lambda>b. on_ci_branch pid name b \<and> b_created b < cutoff \<and> \<not> default_branch pid name db"
  let ?db = "db\<lparr>build_rows := tbl_delete ?p (build_rows db)\<rparr>"
  have ns: "snd (prune_stale_branch pid name cutoff db) = map b_order (filter ?p (build_rows db))"
    by (simp add: prune_stale_branch_def Let_def)
  have f: "fst (prune_stale_branch pid name cutoff db) = ?db
      \<or> (\<exists>q. fst (prune_stale_branch pid name cutoff db) = delete_branches q ?db)"
    by (auto simp: prune_stale_branch_def Let_def)
  have ok1: "builds_ok ?db" by (rule ok_delete_rows [OF ok])
  from f show "builds_ok (fst (prune_stale_branch pid name cutoff db))"
    by (elim disjE exE) (simp_all only: ok1 ok_delete_branches)
  show "set (snd (prune_stale_branch pid name cutoff db)) \<subseteq> numbers pid db"
    unfolding ns by (auto simp: numbers_def on_ci_branch_def)
  have "numbers pid ?db = numbers pid db - set (map b_order (filter ?p (build_rows db)))"
  proof (intro set_eqI iffI)
    fix n assume "n \<in> numbers pid ?db"
    then obtain x where x: "x \<in> set (build_rows db)" "b_project x = pid" "\<not> ?p x" "n = b_order x"
      by (auto simp: numbers_def tbl_simps)
    have "y = x" if "y \<in> set (build_rows db)" "b_project y = pid" "b_order y = b_order x" for y
      using that x ok by (auto simp: builds_ok_def rows_ok_def distinct_map inj_on_def)
    then have "b_order x \<notin> set (map b_order (filter ?p (build_rows db)))" using x(3) by (auto simp: on_ci_branch_def)
    then show "n \<in> numbers pid db - set (map b_order (filter ?p (build_rows db)))" using x by (auto simp: numbers_def)
  qed (auto simp: numbers_def tbl_simps)
  moreover from f have "numbers pid (fst (prune_stale_branch pid name cutoff db)) = numbers pid ?db"
    by (elim disjE exE) (simp_all only: numbers_delete_branches)
  ultimately show "numbers pid (fst (prune_stale_branch pid name cutoff db))
      = numbers pid db - set (snd (prune_stale_branch pid name cutoff db))"
    by (simp only: ns)
qed

lemma exact_stale_names: "exact_prune pid (prune_stale_names fails pid cutoff ns)"
proof (induction ns)
  case Nil
  then show ?case by (simp add: exact_prune_def)
next
  case (Cons n ns)
  show ?case unfolding exact_prune_def
  proof (intro allI impI)
    fix db assume ok: "builds_ok db"
    obtain db1 r1 where 1: "prune_stale_branch pid n cutoff db = (db1, r1)" by (cases "prune_stale_branch pid n cutoff db")
    obtain db2 r2 where 2: "prune_stale_names fails pid cutoff ns db1 = (db2, r2)"
      by (cases "prune_stale_names fails pid cutoff ns db1")
    have a: "builds_ok db1 \<and> set r1 \<subseteq> numbers pid db \<and> numbers pid db1 = numbers pid db - set r1"
      using exact_stale_branch [of pid n cutoff] ok 1 unfolding exact_prune_def by (metis fst_conv snd_conv)
    then have b: "builds_ok db2 \<and> set r2 \<subseteq> numbers pid db1 \<and> numbers pid db2 = numbers pid db1 - set r2"
      using Cons 2 unfolding exact_prune_def by (metis fst_conv snd_conv)
    have skip: "builds_ok (fst (prune_stale_names fails pid cutoff ns db))
        \<and> set (snd (prune_stale_names fails pid cutoff ns db)) \<subseteq> numbers pid db
        \<and> numbers pid (fst (prune_stale_names fails pid cutoff ns db)) = numbers pid db - set (snd (prune_stale_names fails pid cutoff ns db))"
      using Cons ok unfolding exact_prune_def by blast
    have "prune_stale_names fails pid cutoff (n # ns) db
        = (if fails n then prune_stale_names fails pid cutoff ns db else (db2, r1 @ r2))" using 1 2 by simp
    then show "builds_ok (fst (prune_stale_names fails pid cutoff (n # ns) db))
        \<and> set (snd (prune_stale_names fails pid cutoff (n # ns) db)) \<subseteq> numbers pid db
        \<and> numbers pid (fst (prune_stale_names fails pid cutoff (n # ns) db))
          = numbers pid db - set (snd (prune_stale_names fails pid cutoff (n # ns) db))"
      using a b skip by (cases "fails n") auto
  qed
qed

text \<open>Where the report directory of a project is in place, pruning directories succeeds.\<close>

definition reports_there :: "local_cfg \<Rightarrow> string \<Rightarrow> fs \<Rightarrow> bool" where
  "reports_there c key fs \<longleftrightarrow> is_abs (projects_path c) \<and> store_path (projects_path c) key [''reports''] \<noteq> None
     \<and> (\<forall>q. prefix q (home c key @ [''reports'']) \<longrightarrow> node_at q fs = Some Dir)"

lemma remove_below_ok:
  assumes "\<forall>q. prefix q base \<longrightarrow> node_at q fs = Some Dir"
  shows "fst (remove_all (base @ [x]) fs) = Inr ()"
    and "\<forall>q. prefix q base \<longrightarrow> node_at q (snd (remove_all (base @ [x]) fs)) = Some Dir"
proof -
  have "\<not> list_ex (\<lambda>q. is_file q fs) (ancestors (base @ [x]))"
    using assms by (auto simp: list_ex_iff set_ancestors is_file_def strict_prefix_def)
  then have "absent_error (base @ [x]) fs \<noteq> NotDir" by (simp add: absent_error_def)
  then show "fst (remove_all (base @ [x]) fs) = Inr ()" by (simp add: remove_all_def)
  show "\<forall>q. prefix q base \<longrightarrow> node_at q (snd (remove_all (base @ [x]) fs)) = Some Dir"
  proof (intro allI impI)
    fix q assume q: "prefix q base"
    then have "\<not> prefix (base @ [x]) q" by (auto dest: prefix_order.antisym)
    then show "node_at q (snd (remove_all (base @ [x]) fs)) = Some Dir" using assms q by (simp add: remove_all_node)
  qed
qed

lemma remove_numbered_ok:
  "\<forall>q. prefix q base \<longrightarrow> node_at q fs = Some Dir
   \<Longrightarrow> fst (for_each (\<lambda>n. remove_all (base @ [itoa n])) ns fs) = Inr ()
     \<and> (\<forall>q. prefix q base \<longrightarrow> node_at q (snd (for_each (\<lambda>n. remove_all (base @ [itoa n])) ns fs)) = Some Dir)"
proof (induction ns arbitrary: fs)
  case (Cons n ns)
  obtain fs1 where 1: "remove_all (base @ [itoa n]) fs = (Inr (), fs1)" "\<forall>q. prefix q base \<longrightarrow> node_at q fs1 = Some Dir"
    using remove_below_ok [OF Cons.prems, of "itoa n"] by (cases "remove_all (base @ [itoa n]) fs") auto
  then show ?case using Cons.IH [of fs1] by (simp add: bind_io_def)
qed (simp add: ret_def)

lemma prune_dirs_there:
  assumes "reports_there (rc_store c) key (w_fs w)"
  shows "snd (prune_dirs c key ns w) = Inr ()" and "reports_there (rc_store c) key (w_fs (fst (prune_dirs c key ns w)))"
    and "node_at (home (rc_store c) key @ ''reports'' # itoa m # r) (w_fs (fst (prune_dirs c key ns w)))
      = (if m \<in> set ns then None else node_at (home (rc_store c) key @ ''reports'' # itoa m # r) (w_fs w))"
proof -
  let ?c = "rc_store c" and ?base = "home (rc_store c) key @ [''reports'']"
  have A: "is_abs (projects_path ?c)" and D: "\<forall>q. prefix q ?base \<longrightarrow> node_at q (w_fs w) = Some Dir"
    using assms by (auto simp: reports_there_def)
  obtain p where p: "store_path (projects_path ?c) key [''reports''] = Some p" using assms by (auto simp: reports_there_def)
  have sp: "abs_segs p = ?base" using store_path_plain [OF p A] by (simp add: home_def)
  have ab: "is_abs p" using store_path_below [OF p A] by metis
  have "prune_report_dirs ?c key ns = for_each (\<lambda>n. remove_all (?base @ [itoa n])) ns"
    using ab sp by (simp add: prune_report_dirs_def with_path_def p at_below)
  then have ok: "fst (prune_report_dirs ?c key ns (w_fs w)) = Inr ()"
      "\<forall>q. prefix q ?base \<longrightarrow> node_at q (snd (prune_report_dirs ?c key ns (w_fs w))) = Some Dir"
    using remove_numbered_ok [OF D, of ns] by simp_all
  have eq: "prune_dirs c key ns w = (w\<lparr>w_fs := snd (prune_report_dirs ?c key ns (w_fs w))\<rparr>, fst (prune_report_dirs ?c key ns (w_fs w)))"
    by (simp add: prune_dirs_def split: prod.split)
  then show "snd (prune_dirs c key ns w) = Inr ()" "reports_there ?c key (w_fs (fst (prune_dirs c key ns w)))"
    using A p ok by (simp_all add: reports_there_def)
  show "node_at (home ?c key @ ''reports'' # itoa m # r) (w_fs (fst (prune_dirs c key ns w)))
      = (if m \<in> set ns then None else node_at (home ?c key @ ''reports'' # itoa m # r) (w_fs w))"
    using prune_report_dirs_node [OF ok(1) A, of m r] by (simp add: eq)
qed

text \<open>\<open>follow\<close>: what happened to the rows of a project happened to the files.\<close>

definition follow :: "local_cfg \<Rightarrow> int \<Rightarrow> string \<Rightarrow> world \<Rightarrow> world \<Rightarrow> bool" where
  "follow c pid key w w' \<longleftrightarrow> builds_ok (w_builds w') \<and> reports_there c key (w_fs w')
     \<and> numbers pid (w_builds w') \<subseteq> numbers pid (w_builds w)
     \<and> (\<forall>n r. node_at (home c key @ ''reports'' # itoa n # r) (w_fs w')
          = (if n \<in> numbers pid (w_builds w) - numbers pid (w_builds w') then None
             else node_at (home c key @ ''reports'' # itoa n # r) (w_fs w)))"

lemma follow_refl: "builds_ok (w_builds w) \<Longrightarrow> reports_there c key (w_fs w) \<Longrightarrow> follow c pid key w w"
  by (simp add: follow_def)

lemma follow_trans: "follow c pid key u v \<Longrightarrow> follow c pid key v w \<Longrightarrow> follow c pid key u w"
proof -
  assume uv: "follow c pid key u v" and vw: "follow c pid key v w"
  have "node_at (home c key @ ''reports'' # itoa n # r) (w_fs w)
      = (if n \<in> numbers pid (w_builds u) - numbers pid (w_builds w) then None
         else node_at (home c key @ ''reports'' # itoa n # r) (w_fs u))" for n r
  proof -
    have "node_at (home c key @ ''reports'' # itoa n # r) (w_fs v) = (if n \<in> numbers pid (w_builds u) - numbers pid (w_builds v)
        then None else node_at (home c key @ ''reports'' # itoa n # r) (w_fs u))" using uv by (simp add: follow_def)
    moreover have "node_at (home c key @ ''reports'' # itoa n # r) (w_fs w) = (if n \<in> numbers pid (w_builds v) - numbers pid (w_builds w)
        then None else node_at (home c key @ ''reports'' # itoa n # r) (w_fs v))" using vw by (simp add: follow_def)
    moreover have "numbers pid (w_builds w) \<subseteq> numbers pid (w_builds v)" "numbers pid (w_builds v) \<subseteq> numbers pid (w_builds u)"
      using uv vw by (simp_all add: follow_def)
    ultimately show ?thesis
      by (cases "n \<in> numbers pid (w_builds v)"; cases "n \<in> numbers pid (w_builds w)"; cases "n \<in> numbers pid (w_builds u)")
         (simp_all add: subset_iff)
  qed
  moreover have "numbers pid (w_builds w) \<subseteq> numbers pid (w_builds u)" using uv vw unfolding follow_def by blast
  ultimately show ?thesis using vw by (simp add: follow_def)
qed

lemma follow_prune:
  assumes "exact_prune pid f" and "builds_ok (w_builds w)" and "reports_there (rc_store c) key (w_fs w)"
    and "on_builds f w = (w1, ns)" and "prune_dirs c key ns w1 = (w2, r)"
  shows "follow (rc_store c) pid key w w2 \<and> r = Inr ()"
proof -
  have w: "w_builds w1 = fst (f (w_builds w))" "w_fs w1 = w_fs w" "ns = snd (f (w_builds w))"
    using assms(4) by (auto simp: on_builds_eq)
  have e: "builds_ok (w_builds w1)" "set ns \<subseteq> numbers pid (w_builds w)"
    "numbers pid (w_builds w1) = numbers pid (w_builds w) - set ns"
    using assms(1,2) by (simp_all add: exact_prune_def w)
  have there: "reports_there (rc_store c) key (w_fs w1)" using assms(3) w(2) by simp
  have w2: "w_builds w2 = w_builds w1" using prune_dirs_fields(1) [of c key ns w1] assms(5) by simp
  note p = prune_dirs_there [OF there, where ns = ns, unfolded assms(5) fst_conv snd_conv w(2)]
  have "(if m \<in> set ns then None else x) = (if m \<in> numbers pid (w_builds w) - numbers pid (w_builds w2) then None else x)"
    for m and x :: "node option" using e(2,3) w2 by auto
  then show ?thesis using p e w2 by (simp add: follow_def)
qed

lemma follow_no_dirs:
  assumes "exact_prune pid f" and "builds_ok (w_builds w)" and "reports_there (rc_store c) key (w_fs w)"
    and "on_builds f w = (w1, [])"
  shows "follow (rc_store c) pid key w w1"
proof -
  have w: "w_builds w1 = fst (f (w_builds w))" "w_fs w1 = w_fs w" "[] = snd (f (w_builds w))"
    using assms(4) by (auto simp: on_builds_eq)
  have "builds_ok (w_builds w1)" "numbers pid (w_builds w1) = numbers pid (w_builds w) - set []"
    using assms(1,2) unfolding exact_prune_def w by (blast, metis)
  then show ?thesis using assms(3) w(2) by (simp add: follow_def)
qed

lemma follow_stale:
  assumes "builds_ok (w_builds w)" and "reports_there (rc_store c) key (w_fs w)"
    and "prune_stale fails pid cutoff w = (w1, ns)"
  shows "follow (rc_store c) pid key w (if ns = [] then w1 else fst (prune_dirs c key ns w1))"
proof (cases "fails ''PruneStaleBranches''")
  case True
  then show ?thesis using assms by (simp add: prune_stale_def follow_refl)
next
  case False
  have ex: "exact_prune pid (prune_stale_branches fails pid cutoff)"
    using exact_stale_names unfolding exact_prune_def prune_stale_branches_def by blast
  have on: "on_builds (prune_stale_branches fails pid cutoff) w = (w1, ns)" using assms(3) False by (simp add: prune_stale_def)
  obtain w2 r where p: "prune_dirs c key ns w1 = (w2, r)" by (cases "prune_dirs c key ns w1")
  show ?thesis
  proof (cases "ns = []")
    case True
    then show ?thesis using follow_no_dirs [OF ex assms(1,2)] on by simp
  next
    case False
    then show ?thesis using follow_prune [OF ex assms(1,2) on p] p by simp
  qed
qed

lemma keep_latest_history_follows:
  assumes "keep_latest_history c fails pid key br now w = (w', Inr ())"
    and "builds_ok (w_builds w)" and "reports_there (rc_store c) key (w_fs w)"
  shows "follow (rc_store c) pid key w w'"
proof (cases "rc_keep c \<and> \<not> fails ''PruneBuildsBranch''")
  case False
  then show ?thesis using assms follow_refl by (simp add: keep_latest_history_def split: if_splits)
next
  case True
  obtain w1 ns where 1: "on_builds (prune_builds_branch pid (rc_latest c) br) w = (w1, ns)"
    by (cases "on_builds (prune_builds_branch pid (rc_latest c) br) w")
  obtain w2 r2 where 2: "prune_dirs c key ns w1 = (w2, r2)" by (cases "prune_dirs c key ns w1")
  have f2: "follow (rc_store c) pid key w w2" "r2 = Inr ()" using follow_prune [OF exact_by_count assms(2,3) 1 2] by simp_all
  then have ok2: "builds_ok (w_builds w2)" "reports_there (rc_store c) key (w_fs w2)" by (simp_all add: follow_def)
  obtain w3 aged where 3: "on_builds (prune_builds_by_age pid (age_cutoff c now)) w2 = (w3, aged)"
    by (cases "on_builds (prune_builds_by_age pid (age_cutoff c now)) w2")
  obtain w4 r4 where 4: "prune_dirs c key aged w3 = (w4, r4)" by (cases "prune_dirs c key aged w3")
  have f4: "follow (rc_store c) pid key w2 w4" "r4 = Inr ()" using follow_prune [OF exact_by_age ok2 3 4] by simp_all
  then have ok4: "builds_ok (w_builds w4)" "reports_there (rc_store c) key (w_fs w4)" by (simp_all add: follow_def)
  obtain w5 stale where 5: "prune_stale fails pid (age_cutoff c now) w4 = (w5, stale)"
    by (cases "prune_stale fails pid (age_cutoff c now) w4")
  have f5: "follow (rc_store c) pid key w4 (if stale = [] then w5 else fst (prune_dirs c key stale w5))"
    by (rule follow_stale [OF ok4 5])
  have "w' = w2 \<or> w' = (if stale = [] then w5 else fst (prune_dirs c key stale w5))"
    using assms(1) True f2(2) f4(2) by (simp add: keep_latest_history_def 1 2 3 4 5 split: if_splits)
  then show ?thesis using f2(1) follow_trans [OF f2(1) follow_trans [OF f4(1) f5]] by (elim disjE) (simp_all only:)
qed

text \<open>C17: After an ingestion files follow rows: when the report directory is in place, the retention step deletes the
  report files of exactly the builds whose rows it deletes, and leaves the files of every other build of the project
  as they were.\<close>

theorem retention_files:
  assumes "keep_latest_history c fails pid key br now w = (w', Inr ())"
    and "builds_ok (w_builds w)" and "reports_there (rc_store c) key (w_fs w)"
  shows "node_at (home (rc_store c) key @ ''reports'' # itoa n # r) (w_fs w')
    = (if n \<in> numbers pid (w_builds w) - numbers pid (w_builds w') then None
       else node_at (home (rc_store c) key @ ''reports'' # itoa n # r) (w_fs w))"
  using keep_latest_history_follows [OF assms] unfolding follow_def by blast

section \<open>Stale branches\<close>

lemma delete_branches_rows:
  "x \<in> set (build_rows (delete_branches q db)) \<Longrightarrow> \<exists>y \<in> set (build_rows db). x = y \<or> x = y\<lparr>b_branch := None\<rparr>"
  by (auto simp: delete_branches_def Let_def tbl_update_def)

lemma prune_stale_branch_rows:
  assumes "x \<in> set (build_rows (fst (prune_stale_branch pid n cutoff db)))"
  shows "\<exists>y \<in> set (build_rows db). b_id x = b_id y \<and> b_project x = b_project y \<and> b_ci x = b_ci y \<and> b_created x = b_created y
     \<and> \<not> (on_ci_branch pid n y \<and> b_created y < cutoff \<and> \<not> default_branch pid n db)"
proof -
  let ?db = "db\<lparr>build_rows := tbl_delete (\<lambda>b. on_ci_branch pid n b \<and> b_created b < cutoff \<and> \<not> default_branch pid n db) (build_rows db)\<rparr>"
  have "fst (prune_stale_branch pid n cutoff db) = ?db \<or> (\<exists>q. fst (prune_stale_branch pid n cutoff db) = delete_branches q ?db)"
    by (auto simp: prune_stale_branch_def Let_def)
  then have "x \<in> set (build_rows ?db) \<or> (\<exists>q. x \<in> set (build_rows (delete_branches q ?db)))"
    by (elim disjE exE) (use assms in \<open>auto simp del: build_db.simps\<close>)
  then have "\<exists>y \<in> set (build_rows ?db). x = y \<or> x = y\<lparr>b_branch := None\<rparr>"
    using delete_branches_rows [of x _ ?db] by blast
  then obtain y where y: "y \<in> set (build_rows ?db)" "x = y \<or> x = y\<lparr>b_branch := None\<rparr>" by blast
  then have "b_id x = b_id y \<and> b_project x = b_project y \<and> b_ci x = b_ci y \<and> b_created x = b_created y" by auto
  moreover have "y \<in> set (build_rows db)" "\<not> (on_ci_branch pid n y \<and> b_created y < cutoff \<and> \<not> default_branch pid n db)"
    using y(1) by (simp_all add: tbl_simps)
  ultimately show ?thesis by blast
qed

lemma first_build_in: "first_build bs = Inr b \<Longrightarrow> b \<in> set bs"
proof -
  assume "first_build bs = Inr b"
  then obtain cs where "newest_first bs = b # cs" by (auto simp: first_build_def split: list.splits)
  then have "b \<in> set (newest_first bs)" by (simp only: list.set_intros)
  then show ?thesis by simp
qed

lemma prune_stale_branch_default:
  assumes "default_branch pid name (fst (prune_stale_branch pid n cutoff db))"
  shows "default_branch pid name db"
proof -
  let ?db = "db\<lparr>build_rows := tbl_delete (\<lambda>b. on_ci_branch pid n b \<and> b_created b < cutoff \<and> \<not> default_branch pid n db) (build_rows db)\<rparr>"
  have "set (branch_rows (fst (prune_stale_branch pid n cutoff db))) \<subseteq> set (branch_rows db)"
    by (auto simp: prune_stale_branch_def Let_def delete_branches_def tbl_delete_def)
  then show ?thesis using assms by (auto simp: default_branch_def list_ex_iff)
qed

text \<open>Builds with this id, if any, are old builds of a branch that is not the default.\<close>

definition doomed :: "int \<Rightarrow> string \<Rightarrow> time \<Rightarrow> int \<Rightarrow> build_db \<Rightarrow> bool" where
  "doomed pid name cutoff i db \<longleftrightarrow> \<not> default_branch pid name db
     \<and> (\<forall>x \<in> set (build_rows db). b_id x = i \<longrightarrow> on_ci_branch pid name x \<and> b_created x < cutoff)"

lemma doomed_step:
  assumes "doomed pid name cutoff i db"
  shows "doomed pid name cutoff i (fst (prune_stale_branch pid n cutoff db))"
  unfolding doomed_def
proof (intro conjI ballI impI)
  show "\<not> default_branch pid name (fst (prune_stale_branch pid n cutoff db))"
    using assms prune_stale_branch_default unfolding doomed_def by blast
  fix x assume x: "x \<in> set (build_rows (fst (prune_stale_branch pid n cutoff db)))" "b_id x = i"
  obtain y where y: "y \<in> set (build_rows db)" "b_id x = b_id y" "b_project x = b_project y" "b_ci x = b_ci y" "b_created x = b_created y"
    using prune_stale_branch_rows [OF x(1)] by blast
  then have "on_ci_branch pid name y" "b_created y < cutoff" using assms x(2) by (simp_all add: doomed_def)
  then show "on_ci_branch pid name x" "b_created x < cutoff" using y by (simp_all add: on_ci_branch_def)
qed

lemma doomed_gone:
  assumes "doomed pid name cutoff i db"
  shows "i \<notin> ids_of (fst (prune_stale_branch pid name cutoff db))"
proof
  assume "i \<in> ids_of (fst (prune_stale_branch pid name cutoff db))"
  then obtain x where x: "x \<in> set (build_rows (fst (prune_stale_branch pid name cutoff db)))" "b_id x = i"
    by (auto simp only: ids_of_def)
  from prune_stale_branch_rows [OF x(1)] show False using assms x(2) by (auto simp: doomed_def)
qed

lemma doomed_names:
  assumes "doomed pid name cutoff i db" and "name \<in> set ns" and "\<not> fails name"
  shows "i \<notin> ids_of (fst (prune_stale_names fails pid cutoff ns db))"
  using assms(1,2)
proof (induction ns arbitrary: db)
  case (Cons n ns)
  let ?db = "fst (prune_stale_branch pid n cutoff db)"
  have rest: "ids_of (fst (prune_stale_names fails pid cutoff ns db')) \<subseteq> ids_of db'" for db' by (rule ids_prune_stale_names)
  have eq: "fst (prune_stale_names fails pid cutoff (n # ns) db)
      = fst (prune_stale_names fails pid cutoff ns (if fails n then db else ?db))"
    by (simp split: prod.split)
  show ?case
  proof (cases "n = name")
    case True
    then show ?thesis using rest [of ?db] doomed_gone [OF Cons.prems(1)] assms(3) eq by auto
  next
    case False
    then show ?thesis using Cons.IH [of "if fails n then db else ?db"] Cons.prems doomed_step eq by simp
  qed
qed simp

text \<open>The latest build of a project is deleted with its branch.  Pruning by age spares it; the collection of stale
  branches, which runs with it, deletes it when it is on a branch that is not the default and the whole branch is
  older than the limit (with at most 50 branch names, one round is enough).\<close>

theorem stale_gc_deletes_latest:
  assumes "builds_ok db" and "get_latest_build pid db = Inr b" and "ci_branch (b_ci b) \<noteq> []"
    and "\<not> default_branch pid (ci_branch (b_ci b)) db" and "\<not> fails (ci_branch (b_ci b))"
    and "\<forall>x \<in> set (build_rows db). on_ci_branch pid (ci_branch (b_ci b)) x \<longrightarrow> b_created x < cutoff"
    and "length (remdups (map (\<lambda>b. ci_branch (b_ci b)) (of_project pid (build_rows db)))) \<le> 50"
  shows "b \<in> set (build_rows (fst (prune_builds_by_age pid cutoff db)))
    \<and> b_id b \<notin> ids_of (fst (prune_stale_branches fails pid cutoff db))"
proof
  let ?n = "ci_branch (b_ci b)"
  have "b \<in> set (filter b_latest (of_project pid (build_rows db)))"
    using assms(2) unfolding get_latest_build_def by (rule first_build_in)
  then have b: "b \<in> set (build_rows db)" "b_project b = pid" "b_latest b" by simp_all
  have "b_order b \<noteq> b_order x" if "x \<in> set (build_rows db)" "b_project x = pid" "\<not> b_latest x" for x
    using that b assms(1) by (auto simp: builds_ok_def rows_ok_def distinct_map inj_on_def)
  then show "b \<in> set (build_rows (fst (prune_builds_by_age pid cutoff db)))"
    using b by (auto simp: prune_builds_by_age_def Let_def delete_numbers_def tbl_simps)
  have "x = b" if "x \<in> set (build_rows db)" "b_id x = b_id b" for x
    using that b assms(1) by (auto simp: builds_ok_def rows_ok_def distinct_map inj_on_def)
  then have "doomed pid ?n cutoff (b_id b) db"
    using assms(4,6) b by (auto simp: doomed_def on_ci_branch_def)
  moreover have "?n \<in> set (stale_branches pid cutoff db)"
  proof -
    let ?ns = "filter (\<lambda>n. n \<noteq> [] \<and> \<not> default_branch pid n db
         \<and> list_all (\<lambda>b. b_created b < cutoff) (filter (on_ci_branch pid n) (build_rows db)))
       (remdups (map (\<lambda>b. ci_branch (b_ci b)) (of_project pid (build_rows db))))"
    have "?n \<in> set ?ns" using b assms(3,4,6) by (auto simp: list_all_iff)
    moreover have "length (sort ?ns) \<le> 50" using assms(7) length_filter_le le_trans by (metis (no_types, lifting) length_sort)
    ultimately show ?thesis by (simp add: stale_branches_def)
  qed
  ultimately show "b_id b \<notin> ids_of (fst (prune_stale_branches fails pid cutoff db))"
    unfolding prune_stale_branches_def using assms(5) by (intro doomed_names)
qed

section \<open>Instances\<close>

definition demo_build :: "int \<Rightarrow> int option \<Rightarrow> string \<Rightarrow> bool \<Rightarrow> build" where
  "demo_build n br ci latest = (new_build (10 + n) 1 n (100 * n))\<lparr>b_branch := br, b_latest := latest, b_ci := no_ci\<lparr>ci_branch := ci\<rparr>\<rparr>"

text \<open>Build 1 on branch \<open>rc\<close>, build 2 on the default branch \<open>dev\<close>.\<close>

definition demo_builds :: build_db where
  "demo_builds = \<lparr>build_rows = [demo_build 1 (Some 5) ''rc'' True, demo_build 2 (Some 4) ''dev'' False], next_build_id = 20,
     branch_rows = [\<lparr>bn_id = 4, bn_project = 1, bn_name = ''dev'', bn_default = True, bn_created = 1\<rparr>,
       \<lparr>bn_id = 5, bn_project = 1, bn_name = ''rc'', bn_default = False, bn_created = 2\<rparr>], next_branch_id = 9\<rparr>"

definition demo_seen :: defect where
  "demo_seen = \<lparr>d_id = 0, d_project = 1, d_hash = ''h'', d_message = ''m'', d_trace = [], d_category = ''product_bug'',
     d_resolution = ''wont_fix'', d_known_issue = Some 3, d_first = 11, d_last = 12, d_count = 9, d_clean = 0, d_created = 1, d_updated = 2\<rparr>"

definition demo_world :: world where
  "demo_world = \<lparr>w_builds = demo_builds,
     w_defects = \<lparr>defects = [demo_seen], occurrences = [], results = [], builds = map build_row.truncate (build_rows demo_builds),
       projects = [(1, ''k'')], next_defect = 1\<rparr>,
     w_fs = [([''p''], Dir), ([''p'', ''k''], Dir), ([''p'', ''k'', ''reports''], Dir), ([''p'', ''k'', ''reports'', ''1''], Dir),
       ([''p'', ''k'', ''reports'', ''1'', ''f''], File ''x'')]\<rparr>"

definition demo_retention :: retention_cfg where
  "demo_retention = \<lparr>rc_keep = True, rc_latest = 1, rc_max_age = 0,
     rc_store = \<lparr>projects_path = ''/p'', keep_history_files = True\<rparr>\<rparr>"

definition demo_again :: fingerprint_result where
  "demo_again = \<lparr>fr_hash = ''h'', fr_message = ''m'', fr_trace = [], fr_category = ''to_investigate'', fr_ids = [7]\<rparr>"

lemma demo_builds_ok: "builds_ok demo_builds"
  by (simp add: builds_ok_def rows_ok_def branches_ok_def refs_ok_def demo_builds_def demo_build_def new_build_def)

lemmas demo_row_simps = demo_world_def demo_builds_def demo_build_def new_build_def demo_retention_def

lemma demo_old: "demo_build 1 (Some 5) ''rc'' True \<in> set (build_rows (w_builds demo_world))"
  "b_project (demo_build 1 (Some 5) ''rc'' True) = 1"
  "nat (rc_latest demo_retention) \<le> length (filter (\<lambda>x. b_order (demo_build 1 (Some 5) ''rc'' True) < b_order x)
     (of_project 1 (build_rows (w_builds demo_world))))"
  by (simp_all add: demo_row_simps)

theorem sweep_ignores_branches_witness:
  "demo_build 1 (Some 5) ''rc'' True \<in> set (build_rows (fst (prune_builds_branch 1 (rc_latest demo_retention) (Some 5) (w_builds demo_world))))
   \<and> b_id (demo_build 1 (Some 5) ''rc'' True) \<notin> ids_of (w_builds (sweep_project demo_retention (\<lambda>_. False) 500 (1, ''k'') demo_world))"
  by (rule sweep_ignores_branches [OF _ _ _ demo_old(1,2)])
     (use demo_builds_ok demo_old(3) in \<open>simp_all add: demo_row_simps\<close>)

theorem retention_forgets_triage_witness:
  "\<exists>db'. upsert_one 600 1 12 demo_again (w_defects (sweep_project demo_retention (\<lambda>_. False) 500 (1, ''k'') demo_world)) = Inr db'
     \<and> get_by_hash 1 ''h'' db' = Some (new_defect 600 1 12 demo_again
         (next_defect (w_defects (sweep_project demo_retention (\<lambda>_. False) 500 (1, ''k'') demo_world))))"
proof -
  let ?w = "sweep_project demo_retention (\<lambda>_. False) 500 (1, ''k'') demo_world"
  have "case upsert_one 600 1 12 demo_again (w_defects ?w) of Inl _ \<Rightarrow> False | Inr _ \<Rightarrow> True" by code_simp
  then obtain db' where up: "upsert_one 600 (d_project demo_seen) 12 demo_again (w_defects ?w) = Inr db'"
    by (auto simp: demo_seen_def split: sum.splits)
  have "get_by_hash (d_project demo_seen) (d_hash demo_seen) db' = Some (new_defect 600 (d_project demo_seen) 12 demo_again (next_defect (w_defects ?w)))"
    by (rule retention_forgets_triage [OF _ _ _ demo_old _ _ _ up])
       (use demo_builds_ok in \<open>simp_all add: demo_row_simps demo_seen_def demo_again_def defects_ok_def\<close>)
  with up show ?thesis by (auto simp: demo_seen_def)
qed

lemma demo_reports: "reports_there (rc_store demo_retention) ''k'' (w_fs demo_world)"
proof -
  have h: "home (rc_store demo_retention) ''k'' = [''p'', ''k'']" by code_simp
  have "is_abs (projects_path (rc_store demo_retention))" by code_simp
  moreover have "store_path (projects_path (rc_store demo_retention)) ''k'' [''reports''] \<noteq> None" by code_simp
  ultimately show ?thesis by (auto simp: reports_there_def h prefix_Cons demo_world_def node_at_def)
qed

theorem retention_files_witness:
  "node_at [''p'', ''k'', ''reports'', ''1'', ''f''] (w_fs (fst (keep_latest_history demo_retention (\<lambda>_. False) 1 ''k'' None 500 demo_world))) = None"
proof -
  let ?r = "keep_latest_history demo_retention (\<lambda>_. False) 1 ''k'' None 500 demo_world"
  have "snd ?r = Inr ()" by code_simp
  then have r: "?r = (fst ?r, Inr ())" by (metis prod.collapse)
  have "1 \<in> numbers 1 (w_builds demo_world) - numbers 1 (w_builds (fst ?r))" by code_simp
  moreover have "home (rc_store demo_retention) ''k'' @ ''reports'' # itoa 1 # [''f''] = [''p'', ''k'', ''reports'', ''1'', ''f'']" by code_simp
  ultimately show ?thesis
    using retention_files [OF r _ demo_reports, of 1 "[''f'']"] demo_builds_ok by (simp add: demo_world_def)
qed

theorem stale_gc_deletes_latest_witness:
  "demo_build 1 (Some 5) ''rc'' True \<in> set (build_rows (fst (prune_builds_by_age 1 150 demo_builds)))
   \<and> b_id (demo_build 1 (Some 5) ''rc'' True) \<notin> ids_of (fst (prune_stale_branches (\<lambda>_. False) 1 150 demo_builds))"
  by (rule stale_gc_deletes_latest [OF demo_builds_ok])
     (simp_all add: demo_row_simps no_ci_def get_latest_build_def first_build_def default_branch_def on_ci_branch_def)

end
