(* ===== verification/TarExtract.thy ===== *)
theory TarExtract
  imports LocalStore "HOL-Library.Multiset"
begin

text \<open>
  Archive extraction, \<open>runner/tar_extract.go\<close>.

  The packages \<open>gzip\<close> and \<open>tar\<close> are seen from the reader that counts decompressed bytes under them: an archive
  is the list of its entries with the number of bytes the tar reader takes before each (\<open>te_head\<close>, whatever it
  skips included) and the chunks its body is read in.  An error of the counting reader inside \<open>Next\<close> reaches the
  caller or is absorbed by a full read below it, as \<open>te_surfaces\<close> says; inside a body it always does.  The
  writes to storage run in parallel: \<open>sched\<close> is the sequence of writes that are performed.
\<close>

section \<open>Names\<close>

text \<open>\<open>secureBaseName\<close>, and \<open>secureFilename\<close> of the handlers.\<close>

definition secure_base_name :: "string \<Rightarrow> string" where
  "secure_base_name name =
     (let base = base_name (clean_path name) in if base = ''.'' \<or> \<not> is_local base then [] else base)"

section \<open>Reading\<close>

datatype archive_error =
    ErrArchiveEmpty | ErrArchiveTooManyFiles | ErrArchiveDecompBomb | ErrArchiveNestedPath
  | ErrArchiveInvalidEntry | ErrArchiveDuplicateFile | ErrArchiveRead | ErrArchiveGzip | ErrArchiveWrite io_error

record tar_entry =
  te_head :: int
  te_surfaces :: bool
  te_name :: string
  te_regular :: bool
  te_chunks :: "string list"
  te_broken :: bool

text \<open>\<open>ar_tail\<close>: the archive ends well, or with an error after so many bytes.\<close>

record archive =
  ar_gzip :: bool
  ar_entries :: "tar_entry list"
  ar_tail :: "int option"

type_synonym pending_entry = "string \<times> string"

definition default_max_decompressed_bytes :: int where
  "default_max_decompressed_bytes = 1073741824"

definition default_max_archive_file_count :: int where
  "default_max_archive_file_count = 5000"

text \<open>One \<open>Read\<close> of the counting reader: the new count, and whether it is over the limit.\<close>

definition counting_read :: "int \<Rightarrow> int \<Rightarrow> int \<Rightarrow> int \<times> bool" where
  "counting_read limit n k = (n + k, n + k > limit)"

fun read_body :: "int \<Rightarrow> int \<Rightarrow> string list \<Rightarrow> int \<times> bool" where
  "read_body limit n [] = (n, False)"
| "read_body limit n (c # cs) =
     (case counting_read limit n (int (length c)) of (n', over) \<Rightarrow> if over then (n', True) else read_body limit n' cs)"

text \<open>What is wrong with the name of a regular entry.\<close>

definition name_error :: "pending_entry list \<Rightarrow> int \<Rightarrow> string \<Rightarrow> archive_error option" where
  "name_error acc max_files name =
     (let safe = secure_base_name name
      in if safe = [] then Some ErrArchiveInvalidEntry
         else if clean_path name \<noteq> safe then Some ErrArchiveNestedPath
         else if safe \<in> fst ` set acc then Some ErrArchiveDuplicateFile
         else if int (length acc) + 1 > max_files then Some ErrArchiveTooManyFiles
         else None)"

fun read_entries ::
  "int \<Rightarrow> int \<Rightarrow> int option \<Rightarrow> tar_entry list \<Rightarrow> int \<Rightarrow> pending_entry list \<Rightarrow> archive_error + pending_entry list" where
  "read_entries limit mx tail [] n acc =
     (case tail of
        Some k \<Rightarrow> Inl (if snd (counting_read limit n k) then ErrArchiveDecompBomb else ErrArchiveRead)
      | None \<Rightarrow> if acc = [] then Inl ErrArchiveEmpty else Inr acc)"
| "read_entries limit mx tail (e # es) n acc =
     (case counting_read limit n (te_head e) of (n1, over) \<Rightarrow>
        if over \<and> te_surfaces e then Inl ErrArchiveDecompBomb
        else if \<not> te_regular e then read_entries limit mx tail es n1 acc
        else case name_error acc mx (te_name e) of
          Some err \<Rightarrow> Inl err
        | None \<Rightarrow>
          (case read_body limit n1 (te_chunks e) of (n2, over2) \<Rightarrow>
             if over2 then Inl ErrArchiveDecompBomb
             else if te_broken e then Inl (if n2 > limit then ErrArchiveDecompBomb else ErrArchiveRead)
             else read_entries limit mx tail es n2 (acc @ [(secure_base_name (te_name e), concat (te_chunks e))])))"

definition read_and_validate :: "archive \<Rightarrow> int \<Rightarrow> int \<Rightarrow> archive_error + pending_entry list" where
  "read_and_validate a limit mx =
     (if \<not> ar_gzip a then Inl ErrArchiveGzip else read_entries limit mx (ar_tail a) (ar_entries a) 0 [])"

record extract_options =
  max_decompressed_bytes :: int
  max_file_count :: int

definition read_with :: "extract_options \<Rightarrow> archive \<Rightarrow> archive_error + pending_entry list" where
  "read_with opts a = read_and_validate a
     (if max_decompressed_bytes opts \<le> 0 then default_max_decompressed_bytes else max_decompressed_bytes opts)
     (if max_file_count opts \<le> 0 then default_max_archive_file_count else max_file_count opts)"

section \<open>Writing\<close>

text \<open>The group of writes: all of them are waited for, and the first error is the answer.\<close>

fun write_group :: "('a \<Rightarrow> unit io) \<Rightarrow> 'a list \<Rightarrow> unit io" where
  "write_group w [] = ret ()"
| "write_group w (x # xs) = bind_io (attempt_io (w x)) (\<lambda>r. bind_io (attempt_io (write_group w xs)) (\<lambda>rs.
     case r of Inl e \<Rightarrow> throw e | Inr _ \<Rightarrow> (case rs of Inl e \<Rightarrow> throw e | Inr _ \<Rightarrow> ret ())))"

definition extract_to_storage ::
  "(pending_entry list \<Rightarrow> pending_entry list) \<Rightarrow> local_cfg \<Rightarrow> string \<Rightarrow> string \<Rightarrow> extract_options \<Rightarrow> archive
   \<Rightarrow> fs \<Rightarrow> (archive_error + string list) \<times> fs" where
  "extract_to_storage sched c pid batch opts a fs =
     (case read_with opts a of
        Inl e \<Rightarrow> (Inl e, fs)
      | Inr es \<Rightarrow>
        (case write_group (\<lambda>(n, b). write_result_file c pid batch n b) (sched es) fs of
           (Inl e, fs') \<Rightarrow> (Inl (ErrArchiveWrite e), fs')
         | (Inr _, fs') \<Rightarrow> (Inr (sort (map fst es)), fs')))"

definition extract_to_dir :: "string \<Rightarrow> extract_options \<Rightarrow> archive \<Rightarrow> fs \<Rightarrow> (archive_error + string list) \<times> fs" where
  "extract_to_dir dst opts a fs =
     (case read_with opts a of
        Inl e \<Rightarrow> (Inl e, fs)
      | Inr es \<Rightarrow>
        (case bind_io (mkdir_all (abs_segs dst))
                (\<lambda>_. for_each (\<lambda>(n, b). write_file (at dst [secure_base_name n]) b) es) fs of
           (Inl e, fs') \<Rightarrow> (Inl (ErrArchiveWrite e), fs')
         | (Inr _, fs') \<Rightarrow> (Inr (sort (map fst es)), fs')))"

section \<open>What is accepted\<close>

lemma secure_base_name_plain: "secure_base_name name \<noteq> [] \<Longrightarrow> plain (secure_base_name name)"
proof -
  let ?p = "clean_path name"
  let ?b = "base_name ?p"
  assume "secure_base_name name \<noteq> []"
  then have s: "secure_base_name name = ?b" "?b \<noteq> ''.''" "is_local ?b"
    by (auto simp: secure_base_name_def Let_def split: if_splits)
  have "?b \<noteq> []" "?b \<noteq> ''..''" "\<not> is_abs ?b"
    using s(3) by (auto simp: is_local_def clean_path_def is_abs_def norm_def clean_step_def)
  moreover have "slash \<notin> set ?b"
  proof -
    let ?s = "rev (dropWhile ((=) slash) (rev ?p))"
    have b: "?b = ''.'' \<or> ?b = [slash] \<or> ?b = last (segments ?s)" by (auto simp: base_name_def Let_def)
    have "last (segments ?s) \<in> set (segments ?s)" by simp
    then have "slash \<notin> set (last (segments ?s))" by (rule split_on_no_sep)
    moreover have "?b \<noteq> [slash]" using \<open>\<not> is_abs ?b\<close> by (auto simp: is_abs_def)
    ultimately show ?thesis using b s(2) by metis
  qed
  ultimately show ?thesis using s(1,2) by (simp add: plain_def)
qed

lemma plain_clean: "plain s \<Longrightarrow> clean_path s = s"
proof -
  assume p: "plain s"
  then have "\<not> is_abs s" "segments s = [s]" by (cases s; auto simp: plain_def is_abs_def split_on_none)+
  then show ?thesis using p norm_plain [of "[s]" False] by (simp add: clean_path_def)
qed

lemma plain_base: "plain s \<Longrightarrow> base_name s = s"
proof -
  assume p: "plain s"
  then have "dropWhile ((=) slash) (rev s) = rev s" by (cases "rev s") (auto simp: plain_def dest: arg_cong [where f = set])
  then show ?thesis using p by (simp add: base_name_def plain_def split_on_none)
qed

lemma plain_local: "plain s \<Longrightarrow> is_local s"
  by (cases s) (auto simp: is_local_def plain_def is_abs_def split_on_none prefix_def)

lemma secure_plain: "plain s \<Longrightarrow> secure_base_name s = s"
  by (simp add: secure_base_name_def plain_clean plain_base plain_local) (simp add: plain_def)

definition bytes_of :: "pending_entry list \<Rightarrow> int" where
  "bytes_of es = sum_list (map (\<lambda>e. int (length (snd e))) es)"

definition entries_ok :: "int \<Rightarrow> int \<Rightarrow> pending_entry list \<Rightarrow> bool" where
  "entries_ok limit mx es \<longleftrightarrow>
     distinct (map fst es) \<and> (\<forall>e \<in> set es. plain (fst e)) \<and> (es = [] \<or> int (length es) \<le> mx) \<and> (es = [] \<or> bytes_of es \<le> limit \<or> bytes_of es = 0)"

lemma read_body_count:
  "read_body limit n cs = (n2, False) \<Longrightarrow> n2 = n + int (length (concat cs)) \<and> (cs = [] \<or> n2 \<le> limit)"
proof (induction cs arbitrary: n)
  case (Cons c cs)
  then have "n + int (length c) \<le> limit" "read_body limit (n + int (length c)) cs = (n2, False)"
    by (auto simp: counting_read_def split: if_splits)
  then show ?case using Cons.IH [of "n + int (length c)"] by (cases cs) auto
qed simp

lemma name_error_None:
  assumes "name_error acc mx name = None"
  shows "plain (secure_base_name name)" and "secure_base_name name \<notin> fst ` set acc" and "int (length acc) + 1 \<le> mx"
    and "clean_path name = secure_base_name name"
  using assms secure_base_name_plain [of name] by (auto simp: name_error_def Let_def split: if_splits)

lemma read_entries_ok:
  assumes "read_entries limit mx tail es n acc = Inr out" and "\<forall>e \<in> set es. 0 \<le> te_head e"
    and "entries_ok limit mx acc" and "bytes_of acc \<le> n"
  shows "entries_ok limit mx out \<and> out \<noteq> []"
  using assms
proof (induction limit mx tail es n acc rule: read_entries.induct)
  case (1 limit mx tail n acc)
  then show ?case by (auto split: option.splits if_splits)
next
  case (2 limit mx tail e es n acc)
  let ?n1 = "n + te_head e"
  have h: "0 \<le> te_head e" "\<forall>e \<in> set es. 0 \<le> te_head e" using 2(4) by simp_all
  show ?case
  proof (cases "te_regular e")
    case False
    then have "read_entries limit mx tail es ?n1 acc = Inr out"
      using 2(3) by (auto simp: counting_read_def split: if_splits)
    moreover have "\<not> (?n1 > limit \<and> te_surfaces e)" using 2(3) by (auto simp: counting_read_def split: if_splits)
    moreover have "bytes_of acc \<le> ?n1" using 2(6) h(1) by simp
    ultimately show ?thesis
      using 2(1) [where x = ?n1 and y = "?n1 > limit"] False h(2) 2(5) by (simp add: counting_read_def)
  next
    case True
    let ?acc = "acc @ [(secure_base_name (te_name e), concat (te_chunks e))]"
    obtain n2 where b: "name_error acc mx (te_name e) = None" "read_body limit ?n1 (te_chunks e) = (n2, False)"
      "\<not> (?n1 > limit \<and> te_surfaces e)" "\<not> te_broken e"
      and r: "read_entries limit mx tail es n2 ?acc = Inr out"
      using 2(3) True by (auto simp: counting_read_def split: if_splits option.splits prod.splits)
    note n = name_error_None [OF b(1)] and c = read_body_count [OF b(2)]
    have bo: "bytes_of ?acc = bytes_of acc + int (length (concat (te_chunks e)))" by (simp add: bytes_of_def)
    have n2: "bytes_of ?acc \<le> n2" using bo c 2(6) h(1) by linarith
    have "bytes_of ?acc \<le> limit \<or> bytes_of ?acc = 0"
    proof (cases "te_chunks e = []")
      case True
      then show ?thesis using 2(5) bo by (cases "acc = []") (auto simp: entries_ok_def bytes_of_def)
    next
      case False
      then show ?thesis using c n2 by linarith
    qed
    then have "entries_ok limit mx ?acc" using 2(5) n by (auto simp: entries_ok_def)
    then show ?thesis
      using 2(2) [where x = ?n1 and y = "?n1 > limit" and xa = n2 and ya = False] b r h(2) n2 True by (simp add: counting_read_def)
  qed
qed

abbreviation byte_limit :: "extract_options \<Rightarrow> int" where
  "byte_limit opts \<equiv> (if max_decompressed_bytes opts \<le> 0 then default_max_decompressed_bytes else max_decompressed_bytes opts)"

abbreviation file_limit :: "extract_options \<Rightarrow> int" where
  "file_limit opts \<equiv> (if max_file_count opts \<le> 0 then default_max_archive_file_count else max_file_count opts)"

lemma read_with_ok:
  assumes "read_with opts a = Inr es" and "\<forall>e \<in> set (ar_entries a). 0 \<le> te_head e"
  shows "es \<noteq> []" and "distinct (map fst es)" and "\<forall>e \<in> set es. plain (fst e)"
    and "int (length es) \<le> file_limit opts" and "bytes_of es \<le> byte_limit opts"
proof -
  have "read_entries (byte_limit opts) (file_limit opts) (ar_tail a) (ar_entries a) 0 [] = Inr es"
    using assms(1) by (auto simp: read_with_def read_and_validate_def split: if_splits)
  then have "entries_ok (byte_limit opts) (file_limit opts) es \<and> es \<noteq> []"
    by (rule read_entries_ok) (use assms(2) in \<open>simp_all add: entries_ok_def bytes_of_def\<close>)
  moreover have "0 \<le> byte_limit opts" by (simp add: default_max_decompressed_bytes_def)
  ultimately show "es \<noteq> []" "distinct (map fst es)" "\<forall>e \<in> set es. plain (fst e)"
    "int (length es) \<le> file_limit opts" "bytes_of es \<le> byte_limit opts"
    by (auto simp: entries_ok_def)
qed

text \<open>C27: An archive that is accepted has files, no more of them than the limit, of no more bytes together than
  the limit, and under names that are pairwise different and single path elements, whatever names and sizes
  its headers claim and wherever the tar reader hides an error of the counting reader.\<close>

theorem archive_bounded:
  assumes "extract_to_storage sched c pid batch opts a fs = (Inr names, fs')"
    and "\<forall>e \<in> set (ar_entries a). 0 \<le> te_head e"
  shows "\<exists>es. read_with opts a = Inr es \<and> names = sort (map fst es) \<and> names \<noteq> [] \<and> distinct names
    \<and> list_all plain names \<and> int (length names) \<le> file_limit opts \<and> bytes_of es \<le> byte_limit opts"
proof -
  obtain es where es: "read_with opts a = Inr es" "names = sort (map fst es)"
    using assms(1) by (auto simp: extract_to_storage_def split: sum.splits prod.splits)
  note ok = read_with_ok [OF es(1) assms(2)]
  have "names \<noteq> []" using ok(1) by (metis es(2) list.size(3) length_0_conv length_map length_sort)
  then show ?thesis using es ok by (auto simp: list_all_iff)
qed

section \<open>What is written\<close>

lemma write_group_Inr:
  assumes "fst (write_group w (x # xs) fs) = Inr ()"
  shows "fst (w x fs) = Inr ()" and "fst (write_group w xs (snd (w x fs))) = Inr ()"
    and "snd (write_group w (x # xs) fs) = snd (write_group w xs (snd (w x fs)))"
  using assms
  by (cases "w x fs"; cases "write_group w xs (snd (w x fs))";
      auto simp: bind_io_def attempt_io_def ret_def throw_def split: sum.splits prod.splits)+

text \<open>A file every write of which goes to a place of its own.\<close>

lemma write_group_files:
  assumes "\<And>x y fs. x \<in> S \<Longrightarrow> y \<in> S \<Longrightarrow> x \<noteq> y \<Longrightarrow> node_at (pl x) (snd (w y fs)) = node_at (pl x) fs"
    and "\<And>x fs. x \<in> S \<Longrightarrow> fst (w x fs) = Inr () \<Longrightarrow> node_at (pl x) (snd (w x fs)) = Some (File (ct x))"
    and "fst (write_group w xs fs) = Inr ()" and "distinct xs" and "set xs \<subseteq> S" and "x \<in> set xs"
  shows "node_at (pl x) (snd (write_group w xs fs)) = Some (File (ct x))"
  using assms(3-6)
proof (induction xs arbitrary: fs)
  case (Cons y ys)
  note st = write_group_Inr [OF Cons.prems(1)]
  have keep: "node_at (pl y) (snd (write_group w zs gs)) = node_at (pl y) gs"
    if "fst (write_group w zs gs) = Inr ()" "y \<notin> set zs" "set zs \<subseteq> S" for zs gs
    using that
  proof (induction zs arbitrary: gs)
    case (Cons z zs)
    then show ?case using write_group_Inr [OF Cons.prems(1)] assms(1) [of y z gs] \<open>set (y # ys) \<subseteq> S\<close> by auto
  qed (simp add: ret_def)
  show ?case
  proof (cases "x = y")
    case True
    then show ?thesis using st keep [OF st(2)] assms(2) [of y fs] Cons.prems by auto
  next
    case False
    then show ?thesis using Cons.IH [OF st(2)] Cons.prems st(3) by auto
  qed
qed simp

lemma for_each_write_group: "fst (for_each w xs fs) = Inr () \<Longrightarrow> write_group w xs fs = for_each w xs fs"
proof (induction xs arbitrary: fs)
  case (Cons x xs)
  obtain r fs1 where x: "w x fs = (r, fs1)" by (cases "w x fs")
  obtain u where u: "r = Inr u" "fst (for_each w xs fs1) = Inr ()"
    using Cons.prems x by (cases r) (auto simp: bind_io_def)
  then show ?case using Cons.IH [OF u(2)] x
    by (cases "for_each w xs fs1") (auto simp: bind_io_def attempt_io_def ret_def throw_def)
qed simp

lemma put_file_other:
  assumes "length p = length q" and "p \<noteq> q"
  shows "node_at q (snd (put_file p b fs)) = node_at q fs"
proof -
  have "\<not> prefix q (butlast p)"
  proof
    assume "prefix q (butlast p)"
    then have "length q \<le> length (butlast p)" by (rule prefix_length_le)
    then show False using assms by (cases p rule: rev_cases) auto
  qed
  then have mk: "node_at q (snd (mkdir_all (butlast p) fs)) = node_at q fs" by (simp add: mkdir_all_node)
  show ?thesis
  proof (cases "fst (mkdir_all (butlast p) fs)")
    case (Inl e)
    then show ?thesis using mk by (cases "mkdir_all (butlast p) fs") (simp add: put_file_def bind_io_def)
  next
    case (Inr u)
    then have "snd (put_file p b fs) = snd (write_file p b (snd (mkdir_all (butlast p) fs)))"
      by (cases "mkdir_all (butlast p) fs") (simp add: put_file_def bind_io_def)
    then show ?thesis using mk assms(2) by (simp add: write_file_node)
  qed
qed

lemma write_result_file_plain:
  assumes "is_abs (projects_path c)" and "plain batch" and "plain n"
    and "fst (write_result_file c pid batch n b gs) = Inr ()"
  shows "write_result_file c pid batch n b = put_file (home c pid @ [''results'', batch, n]) b"
proof -
  obtain p where p: "store_path (projects_path c) pid [''results'', batch, n] = Some p"
    using assms(4) by (auto simp: write_result_file_def with_path_def throw_def split: option.splits)
  have "abs_segs p = home c pid @ [''results'', batch, n]"
    using store_path_plain [OF p assms(1)] assms(2,3) by (simp add: home_def)
  then show ?thesis by (simp add: write_result_file_def with_path_def p)
qed

lemma write_result_file_err:
  assumes "store_path (projects_path c) pid [''results'', batch, n] = None"
  shows "write_result_file c pid batch n b = throw invalid_path"
  using assms by (simp add: write_result_file_def with_path_def)

lemma write_result_file_node:
  assumes "is_abs (projects_path c)" and "plain batch" and "plain n" and "plain m" and "n \<noteq> m"
  shows "node_at (home c pid @ [''results'', batch, m]) (snd (write_result_file c pid batch n b fs))
       = node_at (home c pid @ [''results'', batch, m]) fs"
proof (cases "store_path (projects_path c) pid [''results'', batch, n]")
  case None
  then show ?thesis by (simp add: write_result_file_err throw_def)
next
  case (Some p)
  have "abs_segs p = home c pid @ [''results'', batch, n]"
    using store_path_plain [OF Some assms(1)] assms(2,3) by (simp add: home_def)
  then show ?thesis using assms(5) by (simp add: write_result_file_def with_path_def Some put_file_other)
qed

text \<open>Each accepted entry of an archive is a file of the batch afterwards.\<close>

lemma extract_to_storage_files:
  assumes "extract_to_storage sched c pid batch opts a fs = (Inr names, fs')"
    and "\<forall>e \<in> set (ar_entries a). 0 \<le> te_head e" and "read_with opts a = Inr es"
    and "is_abs (projects_path c)" and "plain batch"
    and "distinct (sched es)" and "set (sched es) = set es" and "(n, b) \<in> set es"
  shows "node_at (home c pid @ [''results'', batch, n]) fs' = Some (File b)"
proof -
  let ?w = "\<lambda>(n, b). write_result_file c pid batch n b" and ?pl = "\<lambda>e. home c pid @ [''results'', batch, fst e]"
  note ok = read_with_ok [OF assms(3,2)]
  have run: "fst (write_group ?w (sched es) fs) = Inr ()" "fs' = snd (write_group ?w (sched es) fs)"
    using assms(1,3) by (auto simp: extract_to_storage_def split: sum.splits prod.splits)
  have "node_at (?pl (n, b)) (snd (write_group ?w (sched es) fs)) = Some (File (snd (n, b)))"
  proof (rule write_group_files [where S = "set es"])
    fix x y gs assume "x \<in> set es" "y \<in> set es" "x \<noteq> y"
    moreover then have "fst y \<noteq> fst x" using ok(2) by (metis eq_key_imp_eq_value prod.collapse)
    moreover obtain m d where y: "y = (m, d)" by (cases y)
    ultimately have "plain m" "plain (fst x)" "m \<noteq> fst x" using ok(3) by auto
    then show "node_at (?pl x) (snd (?w y gs)) = node_at (?pl x) gs"
      unfolding y prod.case by (rule write_result_file_node [OF assms(4,5)])
  next
    fix x gs assume "x \<in> set es" "fst (?w x gs) = Inr ()"
    moreover obtain m d where x: "x = (m, d)" by (cases x)
    ultimately have m: "plain m" "fst (write_result_file c pid batch m d gs) = Inr ()" using ok(3) by auto
    note put = write_result_file_plain [OF assms(4,5) m]
    show "node_at (?pl x) (snd (?w x gs)) = Some (File (snd x))"
      unfolding x prod.case fst_conv snd_conv put by (rule put_file_ok) (use m(2) put in simp)
  next
    show "fst (write_group ?w (sched es) fs) = Inr ()" by (rule run(1))
  qed (use assms(6-8) in simp_all)
  then show ?thesis using run(2) by simp
qed

lemma extract_to_dir_files:
  assumes "extract_to_dir dst opts a fs = (Inr names, fs')"
    and "\<forall>e \<in> set (ar_entries a). 0 \<le> te_head e" and "read_with opts a = Inr es"
    and "is_abs dst" and "(n, b) \<in> set es"
  shows "node_at (abs_segs dst @ [n]) fs' = Some (File b)"
proof -
  let ?w = "\<lambda>(n, b). write_file (at dst [secure_base_name n]) b" and ?pl = "\<lambda>e. abs_segs dst @ [fst e]"
  let ?fs = "snd (mkdir_all (abs_segs dst) fs)"
  note ok = read_with_ok [OF assms(3,2)]
  have "fst (bind_io (mkdir_all (abs_segs dst)) (\<lambda>_. for_each ?w es) fs) = Inr ()"
    and fs': "fs' = snd (bind_io (mkdir_all (abs_segs dst)) (\<lambda>_. for_each ?w es) fs)"
    using assms(1,3) by (auto simp: extract_to_dir_def split: sum.splits prod.splits)
  then obtain u where run: "fst (for_each ?w es ?fs) = Inr ()"
    "snd (bind_io (mkdir_all (abs_segs dst)) (\<lambda>_. for_each ?w es) fs) = snd (for_each ?w es ?fs)"
    by (elim bind_io_Inr)
  have w: "?w e = write_file (?pl e) (snd e)" if "e \<in> set es" for e
  proof -
    obtain n b where e: "e = (n, b)" by (cases e)
    then have "plain n" using that ok(3) by auto
    then show ?thesis using assms(4) by (simp add: e secure_plain at_below)
  qed
  have d: "distinct es" using ok(2) by (simp add: distinct_map)
  have "node_at (?pl (n, b)) (snd (write_group ?w es ?fs)) = Some (File (snd (n, b)))"
  proof (rule write_group_files [where S = "set es"])
    fix x y gs assume xy: "x \<in> set es" "y \<in> set es" "x \<noteq> y"
    then have "fst y \<noteq> fst x" using ok(2) by (metis eq_key_imp_eq_value prod.collapse)
    then show "node_at (?pl x) (snd (?w y gs)) = node_at (?pl x) gs"
      unfolding w [OF xy(2)] by (simp add: write_file_node)
  next
    fix x gs assume x: "x \<in> set es" "fst (?w x gs) = Inr ()"
    then show "node_at (?pl x) (snd (?w x gs)) = Some (File (snd x))"
      unfolding w [OF x(1)] by (simp add: write_file_node)
  next
    show "fst (write_group ?w es ?fs) = Inr ()" by (simp only: for_each_write_group [OF run(1)] run(1))
  qed (use assms(5) d in simp_all)
  then show ?thesis by (simp only: fs' run(2) for_each_write_group [OF run(1)] fst_conv snd_conv)
qed

text \<open>C28: The two extractors agree: on one archive the one that writes to storage and the one that writes to a
  directory answer with the same names, whatever order the parallel writes finish in, and each name is a file
  with the same content in both places.\<close>

theorem extractors_agree:
  assumes "extract_to_storage sched c pid batch opts a fs = (Inr names, fs')"
    and "extract_to_dir dst opts a gs = (Inr names', gs')"
    and "\<forall>e \<in> set (ar_entries a). 0 \<le> te_head e" and "is_abs (projects_path c)" and "is_abs dst" and "plain batch"
    and "\<And>es. mset (sched es) = mset es"
  shows "names' = names \<and> (\<forall>n \<in> set names. \<exists>b. node_at (home c pid @ [''results'', batch, n]) fs' = Some (File b)
    \<and> node_at (abs_segs dst @ [n]) gs' = Some (File b))"
proof -
  obtain es where es: "read_with opts a = Inr es" "names = sort (map fst es)" "names' = names"
  proof (cases "read_with opts a")
    case (Inr es)
    then have "names = sort (map fst es)" "names' = sort (map fst es)"
      using assms(1,2) by (simp_all add: extract_to_storage_def extract_to_dir_def split: sum.splits prod.splits)
    with Inr show ?thesis by (intro that) simp_all
  qed (use assms(1) in \<open>simp add: extract_to_storage_def\<close>)
  have "distinct es" using read_with_ok(2) [OF es(1) assms(3)] by (simp add: distinct_map)
  then have s: "distinct (sched es)" "set (sched es) = set es"
    using assms(7) [of es] by (metis mset_eq_imp_distinct_iff, metis mset_eq_setD)
  have "\<exists>b. node_at (home c pid @ [''results'', batch, n]) fs' = Some (File b) \<and> node_at (abs_segs dst @ [n]) gs' = Some (File b)"
    if n: "n \<in> set names" for n
  proof -
    obtain b where b: "(n, b) \<in> set es" using n es(2) by auto
    show ?thesis
      using extract_to_storage_files [OF assms(1,3) es(1) assms(4,6) s b]
        extract_to_dir_files [OF assms(2,3) es(1) assms(5) b] by (intro exI conjI)
  qed
  then show ?thesis using es(3) by blast
qed

section \<open>Instances\<close>

definition demo_archive :: archive where
  "demo_archive = \<lparr>ar_gzip = True, ar_entries =
     [\<lparr>te_head = 512, te_surfaces = True, te_name = ''./b.json'', te_regular = True, te_chunks = [''x'', ''y''], te_broken = False\<rparr>,
      \<lparr>te_head = 1022, te_surfaces = True, te_name = ''dir/'', te_regular = False, te_chunks = [], te_broken = False\<rparr>,
      \<lparr>te_head = 512, te_surfaces = True, te_name = ''a.json'', te_regular = True, te_chunks = [''z''], te_broken = False\<rparr>],
     ar_tail = None\<rparr>"

definition demo_opts :: extract_options where
  "demo_opts = \<lparr>max_decompressed_bytes = 0, max_file_count = 2\<rparr>"

definition demo_local :: local_cfg where
  "demo_local = \<lparr>projects_path = ''/p'', keep_history_files = True\<rparr>"

lemma demo_heads: "\<forall>e \<in> set (ar_entries demo_archive). 0 \<le> te_head e"
  by (simp add: demo_archive_def)

lemma demo_extract:
  "fst (extract_to_storage rev demo_local ''a'' ''b1'' demo_opts demo_archive []) = Inr [''a.json'', ''b.json'']"
  "fst (extract_to_dir ''/t'' demo_opts demo_archive []) = Inr [''a.json'', ''b.json'']"
  by code_simp+

lemma archive_bounded_witness:
  "\<exists>es. read_with demo_opts demo_archive = Inr es \<and> [''a.json'', ''b.json''] = sort (map fst es) \<and> bytes_of es \<le> 1073741824"
proof -
  have "extract_to_storage rev demo_local ''a'' ''b1'' demo_opts demo_archive []
      = (Inr [''a.json'', ''b.json''], snd (extract_to_storage rev demo_local ''a'' ''b1'' demo_opts demo_archive []))"
    using demo_extract(1) by (metis prod.collapse)
  from archive_bounded [OF this demo_heads] show ?thesis
    by (auto simp: demo_opts_def default_max_decompressed_bytes_def)
qed

lemma extractors_agree_witness:
  "\<exists>b. node_at (home demo_local ''a'' @ [''results'', ''b1'', ''b.json'']) (snd (extract_to_storage rev demo_local ''a'' ''b1'' demo_opts demo_archive [])) = Some (File b)
     \<and> node_at (abs_segs ''/t'' @ [''b.json'']) (snd (extract_to_dir ''/t'' demo_opts demo_archive [])) = Some (File b)"
proof -
  have a: "extract_to_storage rev demo_local ''a'' ''b1'' demo_opts demo_archive []
      = (Inr [''a.json'', ''b.json''], snd (extract_to_storage rev demo_local ''a'' ''b1'' demo_opts demo_archive []))"
    and b: "extract_to_dir ''/t'' demo_opts demo_archive [] = (Inr [''a.json'', ''b.json''], snd (extract_to_dir ''/t'' demo_opts demo_archive []))"
    using demo_extract by (metis prod.collapse)+
  have c: "is_abs (projects_path demo_local)" "is_abs ''/t''" "plain ''b1''" by code_simp+
  show ?thesis using extractors_agree [OF a b demo_heads c] by simp
qed

end
