(* ===== verification/Generate.thy ===== *)
theory Generate
  imports Retention TarExtract
begin

text \<open>
  Report generation, \<open>runner/allure.go\<close>: \<open>GenerateReport\<close>, its staged variant \<open>GenerateReportFromLocalDir\<close>, the
  steps they share, the worker \<open>runner/staged_tar_gz_worker.go\<close>, \<open>CleanHistory\<close> and \<open>DeleteReport\<close>, over the
  build tables and the local storage; \<open>ParseEnvironment\<close> of \<open>parser/environment.go\<close>.

  The \<open>allure\<close> program is not part of the repository: it is the field \<open>ge_allure\<close>, a computation on the file
  system started in a project directory on an input directory.  The decoders and the encoder of \<open>encoding/json\<close>
  and the reading of an archive are fields too.  \<open>ge_fails\<close> names the calls of the stores that fail without an
  effect.  The step that records test results, attachments and defects of a build, whose failures are only
  logged, is not part of this flow; see \<open>Defects\<close> for the recording of defects.
\<close>

section \<open>State and parameters\<close>

record gen_params =
  gp_project :: int
  gp_slug :: string
  gp_key :: string
  gp_batch :: string
  gp_name :: string
  gp_from :: string
  gp_type :: string
  gp_store :: bool
  gp_branch :: string
  gp_commit :: string
  gp_pipeline :: string
  gp_pipeline_url :: string

record stability_entry =
  se_flaky :: bool
  se_retries :: int
  se_new_failed :: bool
  se_new_passed :: bool
  se_is_retry :: bool

record gen_env =
  ge_retention :: retention_cfg
  ge_fails :: "string \<Rightarrow> bool"
  ge_others :: "(build_db \<Rightarrow> build_db) list"
  ge_now :: time
  ge_allure :: "string \<Rightarrow> string \<Rightarrow> unit io"
  ge_stats :: stats_json
  ge_stability :: "string \<Rightarrow> stability_entry option"
  ge_json :: "(string \<times> string) list \<Rightarrow> string"
  ge_archive :: "string \<Rightarrow> archive"
  ge_max_files :: int
  ge_tmp :: string
  ge_check_every :: string

datatype gen_error =
    LockFailed
  | ReserveFailed build_error
  | PrepareFailed io_error
  | WriteFailed io_error
  | AllureFailed io_error
  | PublishFailed io_error
  | RetentionFailed io_error
  | BlobFailed io_error
  | TempFailed io_error
  | ExtractFailed archive_error
  | CleanFailed string

definition on_fs :: "'a io \<Rightarrow> world \<Rightarrow> world \<times> (io_error + 'a)" where
  "on_fs m w = (case m (w_fs w) of (r, fs) \<Rightarrow> (w\<lparr>w_fs := fs\<rparr>, r))"

text \<open>A statement whose failure is only logged, by the name of its call.\<close>

definition logged :: "gen_env \<Rightarrow> string \<Rightarrow> (build_db \<Rightarrow> build_db \<times> 'a) \<Rightarrow> world \<Rightarrow> world" where
  "logged E name f w = (if ge_fails E name then w else fst (on_builds f w))"

abbreviation ge_cfg :: "gen_env \<Rightarrow> local_cfg" where
  "ge_cfg E \<equiv> rc_store (ge_retention E)"

definition unit_stmt :: "(build_db \<Rightarrow> build_db) \<Rightarrow> build_db \<Rightarrow> build_db \<times> unit" where
  "unit_stmt f db = (f db, ())"

definition with_defaults :: "gen_params \<Rightarrow> gen_params" where
  "with_defaults p = p\<lparr>gp_name := (if gp_name p = [] then ''Automatic Execution'' else gp_name p),
     gp_type := (if gp_type p = [] then ''another'' else gp_type p)\<rparr>"

section \<open>Inputs of the generator\<close>

definition executor_json :: "gen_env \<Rightarrow> gen_params \<Rightarrow> int \<Rightarrow> string" where
  "executor_json E p n =
     (if gp_store p then ge_json E
        [(''reportName'', gp_slug p), (''buildName'', gp_slug p @ '' #'' @ itoa n), (''buildNumber'', itoa n),
         (''name'', gp_name p), (''reportUrl'', ''../'' @ itoa n @ ''/index.html''), (''buildUrl'', gp_from p),
         (''type'', gp_type p)]
      else ''{}'')"

definition allure_config :: string where
  "allure_config = ''{'' @ [CHR 0x0A] @ ''  '' @ [CHR 0x22] @ ''plugins'' @ [CHR 0x22] @ '': ['' @ [CHR 0x0A]
     @ ''    '' @ [CHR 0x22] @ ''awesome'' @ [CHR 0x22] @ [CHR 0x0A] @ ''  ]'' @ [CHR 0x0A] @ ''}''"

definition write_inputs :: "gen_env \<Rightarrow> gen_params \<Rightarrow> string \<Rightarrow> int \<Rightarrow> unit io" where
  "write_inputs E p dir n =
     bind_io (write_file (at dir [''results'', gp_batch p, ''executor.json'']) (executor_json E p n)) (\<lambda>_.
       write_file (at dir [''results'', gp_batch p, ''allurereport.config.json'']) allure_config)"

definition run_allure_generate :: "gen_env \<Rightarrow> gen_params \<Rightarrow> string \<Rightarrow> unit io" where
  "run_allure_generate E p dir =
     bind_io (attempt_io (keep_history (ge_cfg E) (gp_key p) (gp_batch p))) (\<lambda>_.
       bind_io (remove_all (at dir [''reports'', ''latest''])) (\<lambda>_.
         ge_allure E dir (join_path [''results'', gp_batch p])))"

section \<open>What a report says\<close>

text \<open>\<open>parseStabilityEntries\<close>: a file that cannot be read or decoded is skipped, and so are superseded attempts.\<close>

definition read_stability :: "gen_env \<Rightarrow> string \<Rightarrow> string \<Rightarrow> fs \<Rightarrow> string \<Rightarrow> stability_entry option" where
  "read_stability E key rel fs name = (case fst (read_project_file (ge_cfg E) key (rel @ ''/'' @ name) fs) of
     Inl _ \<Rightarrow> None | Inr b \<Rightarrow> ge_stability E b)"

definition parse_stability_entries :: "gen_env \<Rightarrow> string \<Rightarrow> string \<Rightarrow> fs \<Rightarrow> io_error + stability_entry list" where
  "parse_stability_entries E key rid fs =
     (let rel = ''reports/'' @ rid @ ''/data/test-results''
      in case fst (read_project_dir (ge_cfg E) key rel fs) of
           Inl e \<Rightarrow> Inl e
         | Inr es \<Rightarrow> Inr (filter (\<lambda>s. \<not> se_is_retry s) (List.map_filter (read_stability E key rel fs)
             (map fst (filter (\<lambda>(n, x). x \<noteq> Dir \<and> has_suffix n ''.json'') es)))))"

definition count_stability :: "stability_entry list \<Rightarrow> stability" where
  "count_stability ss = \<lparr>sb_flaky = int (length (filter se_flaky ss)),
     sb_retried = int (length (filter (\<lambda>s. 0 < se_retries s) ss)),
     sb_new_failed = int (length (filter se_new_failed ss)), sb_new_passed = int (length (filter se_new_passed ss))\<rparr>"

text \<open>\<open>ParseEnvironment\<close>; a later entry for a key replaces an earlier one.\<close>

definition environment_entry :: "string \<Rightarrow> (string \<times> string) option" where
  "environment_entry raw =
     (let line = trim_space raw
      in if line = [] \<or> prefix ''#'' line \<or> prefix ''!'' line then None
         else case cut (CHR ''='') line of
           None \<Rightarrow> None
         | Some (k, v) \<Rightarrow> if trim_space k = [] then None else Some (trim_space k, trim_space v))"

definition environment_of :: "string \<Rightarrow> (string \<times> string) list" where
  "environment_of b = fold (\<lambda>(k, v). AList.update k v) (List.map_filter environment_entry (split_on (CHR 0x0A) b)) []"

definition parse_environment :: "string \<Rightarrow> string \<Rightarrow> fs \<Rightarrow> io_error + (string \<times> string) list" where
  "parse_environment dir batch fs = (case fst (read_file (at dir [''results'', batch, ''environment.properties'']) fs) of
     Inl NotExist \<Rightarrow> Inr [] | Inl e \<Rightarrow> Inl e | Inr b \<Rightarrow> Inr (environment_of b))"

section \<open>Recording the build\<close>

definition record_stats :: "gen_env \<Rightarrow> gen_params \<Rightarrow> int \<Rightarrow> world \<Rightarrow> world" where
  "record_stats E p n w = (case fst (read_build_stats (ge_stats E) (ge_cfg E) (gp_key p) n (w_fs w)) of
     Inl _ \<Rightarrow> w
   | Inr st \<Rightarrow> logged E ''UpdateBuildStats'' (update_build_stats (gp_project p) n st
       (case parse_stability_entries E (gp_key p) ''latest'' (w_fs w) of
          Inl _ \<Rightarrow> count_stability [] | Inr ss \<Rightarrow> count_stability ss)) w)"

definition record_ci :: "gen_env \<Rightarrow> gen_params \<Rightarrow> int \<Rightarrow> world \<Rightarrow> world" where
  "record_ci E p n w =
     (if gp_name p \<noteq> [] \<or> gp_from p \<noteq> [] \<or> gp_branch p \<noteq> [] \<or> gp_commit p \<noteq> []
      then logged E ''UpdateBuildCIMetadata'' (update_build_ci (gp_project p) n
        \<lparr>ci_provider = gp_name p, ci_url = gp_from p, ci_branch = gp_branch p, ci_commit = gp_commit p,
         ci_pipeline = gp_pipeline p, ci_pipeline_url = gp_pipeline_url p\<rparr>) w
      else w)"

definition record_environment :: "gen_env \<Rightarrow> gen_params \<Rightarrow> string \<Rightarrow> int \<Rightarrow> world \<Rightarrow> world" where
  "record_environment E p dir n w = (case parse_environment dir (gp_batch p) (w_fs w) of
     Inl _ \<Rightarrow> w
   | Inr env \<Rightarrow> if env = [] then w else logged E ''UpdateBuildEnvironment'' (update_build_environment (gp_project p) n env) w)"

definition copy_playwright_report :: "gen_env \<Rightarrow> gen_params \<Rightarrow> int \<Rightarrow> world \<Rightarrow> world" where
  "copy_playwright_report E p n w = (case on_fs (copy_playwright_latest (ge_cfg E) (gp_key p) n) w of
     (w1, Inl _) \<Rightarrow> w1
   | (w1, Inr _) \<Rightarrow>
       (case fst (playwright_report_exists (ge_cfg E) (gp_key p) n (w_fs w1)) of
          Inr True \<Rightarrow> fst (on_fs (clean_playwright_latest (ge_cfg E) (gp_key p))
            (logged E ''SetHasPlaywrightReport'' (set_has_playwright (gp_project p) n True) w1))
        | _ \<Rightarrow> w1))"

definition set_latest_build :: "gen_env \<Rightarrow> gen_params \<Rightarrow> int option \<Rightarrow> int \<Rightarrow> world \<Rightarrow> world" where
  "set_latest_build E p br n = logged E ''SetLatestBranch'' (unit_stmt (set_latest_branch (gp_project p) n br))"

definition record_branch :: "gen_env \<Rightarrow> gen_params \<Rightarrow> int option \<Rightarrow> int \<Rightarrow> world \<Rightarrow> world" where
  "record_branch E p br n w = (case br of None \<Rightarrow> w
     | Some i \<Rightarrow> logged E ''UpdateBuildBranchID'' (update_build_branch_id (gp_project p) n i) w)"

text \<open>What follows a successful publication.\<close>

definition record_published :: "gen_env \<Rightarrow> gen_params \<Rightarrow> int option \<Rightarrow> string \<Rightarrow> int \<Rightarrow> world \<Rightarrow> world" where
  "record_published E p br dir n w =
     set_latest_build E p br n (copy_playwright_report E p n (record_environment E p dir n
       (record_ci E p n (record_stats E p n (record_branch E p br n w)))))"

definition store_and_prune_build ::
  "gen_env \<Rightarrow> gen_params \<Rightarrow> int option \<Rightarrow> string \<Rightarrow> int \<Rightarrow> world \<Rightarrow> world \<times> (gen_error + unit)" where
  "store_and_prune_build E p br dir n w = (case on_fs (publish_report n dir) w of
     (w1, Inl e) \<Rightarrow> (w1, Inl (PublishFailed e))
   | (w1, Inr _) \<Rightarrow> (record_published E p br dir n w1, Inr ()))"

definition record_build :: "gen_env \<Rightarrow> gen_params \<Rightarrow> int \<Rightarrow> world \<Rightarrow> world" where
  "record_build E p n = set_latest_build E p None n"

section \<open>Generation\<close>

definition resolve_branch :: "gen_env \<Rightarrow> gen_params \<Rightarrow> world \<Rightarrow> world \<times> int option" where
  "resolve_branch E p w =
     (if gp_branch p = [] \<or> ge_fails E ''GetOrCreateBranch'' then (w, None)
      else case on_builds (\<lambda>db. case get_or_create_branch (gp_project p) (gp_branch p) (ge_now E) db of
               (db', r, _) \<Rightarrow> (db', bn_id r)) w of
        (w1, i) \<Rightarrow> (w1, Some i))"

text \<open>Step 7: the flag says whether the build row is to be kept.\<close>

definition persist_build :: "gen_env \<Rightarrow> gen_params \<Rightarrow> int option \<Rightarrow> string \<Rightarrow> int \<Rightarrow> world \<Rightarrow> world \<times> (gen_error + bool)" where
  "persist_build E p br dir n w =
     (if \<not> rc_keep (ge_retention E) then (w, Inr False)
      else if gp_store p then
        (case store_and_prune_build E p br dir n w of (w1, Inl e) \<Rightarrow> (w1, Inl e) | (w1, Inr _) \<Rightarrow> (w1, Inr True))
      else (record_build E p n w, Inr True))"

definition finish_generation ::
  "gen_env \<Rightarrow> gen_params \<Rightarrow> int option \<Rightarrow> int \<Rightarrow> world \<Rightarrow> world \<times> (gen_error + string)" where
  "finish_generation E p br n w =
     (case keep_latest_history (ge_retention E) (ge_fails E) (gp_project p) (gp_key p) br (ge_now E) w of
        (w1, Inl e) \<Rightarrow> (w1, Inl (RetentionFailed e))
      | (w1, Inr _) \<Rightarrow>
          (if gp_batch p = [] then w1 else fst (on_fs (clean_batch (ge_cfg E) (gp_key p) (gp_batch p)) w1), Inr (itoa n)))"

definition generate_from_local ::
  "gen_env \<Rightarrow> gen_params \<Rightarrow> string \<Rightarrow> int \<Rightarrow> world \<Rightarrow> world \<times> bool \<times> (gen_error + string)" where
  "generate_from_local E p dir n w = (case on_fs (write_inputs E p dir n) w of
     (w1, Inl e) \<Rightarrow> (w1, False, Inl (WriteFailed e))
   | (w1, Inr _) \<Rightarrow> (case on_fs (run_allure_generate E p dir) w1 of
       (w2, Inl e) \<Rightarrow> (w2, False, Inl (AllureFailed e))
     | (w2, Inr _) \<Rightarrow> (case resolve_branch E p w2 of (w3, br) \<Rightarrow>
         (case persist_build E p br dir n w3 of
            (w4, Inl e) \<Rightarrow> (w4, False, Inl e)
          | (w4, Inr persisted) \<Rightarrow> (case finish_generation E p br n w4 of (w5, r) \<Rightarrow> (w5, persisted, r))))))"

text \<open>The deferred rollback of the reserved row.\<close>

definition settle_row :: "gen_env \<Rightarrow> int \<Rightarrow> int \<Rightarrow> world \<times> bool \<times> 'r \<Rightarrow> world \<times> 'r" where
  "settle_row E pid n x = (case x of (w, persisted, r) \<Rightarrow>
     (if persisted then w else logged E ''DeleteBuild'' (unit_stmt (delete_build pid n)) w, r))"

definition with_reserved ::
  "gen_env \<Rightarrow> int \<Rightarrow> (int \<Rightarrow> world \<Rightarrow> world \<times> bool \<times> (gen_error + string)) \<Rightarrow> world \<Rightarrow> world \<times> (gen_error + string)" where
  "with_reserved E pid run w =
     (if ge_fails E ''AcquireLock'' then (w, Inl LockFailed)
      else case on_builds (reserve_build (ge_others E) pid (ge_now E)) w of
        (w1, Inl e) \<Rightarrow> (w1, Inl (ReserveFailed e))
      | (w1, Inr n) \<Rightarrow> settle_row E pid n (run n w1))"

definition generate_prepared :: "gen_env \<Rightarrow> gen_params \<Rightarrow> int \<Rightarrow> world \<Rightarrow> world \<times> bool \<times> (gen_error + string)" where
  "generate_prepared E p n w = (case on_fs (prepare_local (ge_cfg E) (gp_key p)) w of
     (w1, Inl e) \<Rightarrow> (w1, False, Inl (PrepareFailed e))
   | (w1, Inr dir) \<Rightarrow> (case generate_from_local E p dir n w1 of (w2, r) \<Rightarrow> (fst (on_fs (cleanup_local dir) w2), r)))"

definition generate_report :: "gen_env \<Rightarrow> gen_params \<Rightarrow> world \<Rightarrow> world \<times> (gen_error + string)" where
  "generate_report E p = with_reserved E (gp_project p) (generate_prepared E (with_defaults p))"

section \<open>Staged uploads\<close>

definition download_file :: "gen_env \<Rightarrow> string \<Rightarrow> string \<Rightarrow> string \<times> node \<Rightarrow> unit io" where
  "download_file E key dir e =
     (if snd e = Dir then ret ()
      else bind_io (attempt_io (read_project_file (ge_cfg E) key (''reports/latest/history/'' @ fst e))) (\<lambda>r.
        case r of Inl _ \<Rightarrow> ret ()
        | Inr b \<Rightarrow> write_file (at dir [''results'', ''history'', secure_base_name (fst e)]) b))"

definition download_history :: "gen_env \<Rightarrow> string \<Rightarrow> string \<Rightarrow> unit io" where
  "download_history E key dir =
     bind_io (read_project_dir (ge_cfg E) key ''reports/latest/history'') (\<lambda>es.
       if es = [] then ret ()
       else bind_io (mkdir_all (at dir [''results'', ''history''])) (\<lambda>_. for_each (download_file E key dir) es))"

definition generate_staged :: "gen_env \<Rightarrow> gen_params \<Rightarrow> string \<Rightarrow> int \<Rightarrow> world \<Rightarrow> world \<times> bool \<times> (gen_error + string)" where
  "generate_staged E p dir n w = generate_from_local E p dir n (fst (on_fs (download_history E (gp_key p) dir) w))"

definition generate_local_dir :: "gen_env \<Rightarrow> gen_params \<Rightarrow> string \<Rightarrow> world \<Rightarrow> world \<times> (gen_error + string)" where
  "generate_local_dir E p dir = with_reserved E (gp_project p) (generate_staged E (with_defaults p) dir)"

text \<open>\<open>os.MkdirTemp\<close> with the name it settles on.\<close>

definition make_temp :: "place \<Rightarrow> unit io" where
  "make_temp p fs =
     (if node_at p fs \<noteq> None then (Inl (Failed ''file exists''), fs)
      else if node_at (butlast p) fs \<noteq> Some Dir then (Inl (absent_error p fs), fs)
      else (Inr (), AList.update p Dir fs))"

text \<open>The worker between the creation of the temporary directory and its removal.\<close>

definition work_in_temp :: "gen_env \<Rightarrow> gen_params \<Rightarrow> string \<Rightarrow> string \<Rightarrow> world \<Rightarrow> world \<times> (gen_error + string)" where
  "work_in_temp E p staging blob w =
     (let dst = join_path [ge_tmp E, ''results'', gp_batch p];
          opts = \<lparr>max_decompressed_bytes = default_max_decompressed_bytes,
            max_file_count = (if 0 < ge_max_files E then ge_max_files E else default_max_archive_file_count)\<rparr>
      in case on_fs (mkdir_all (abs_segs dst)) w of
           (w1, Inl e) \<Rightarrow> (w1, Inl (TempFailed e))
         | (w1, Inr _) \<Rightarrow> (case extract_to_dir dst opts (ge_archive E blob) (w_fs w1) of
             (Inl e, fs) \<Rightarrow> (w1\<lparr>w_fs := fs\<rparr>, Inl (ExtractFailed e))
           | (Inr _, fs) \<Rightarrow> (case generate_local_dir E p (ge_tmp E) (w1\<lparr>w_fs := fs\<rparr>) of
               (w2, Inl e) \<Rightarrow> (w2, Inl e)
             | (w2, Inr rid) \<Rightarrow> (fst (on_fs (delete_blob (ge_cfg E) staging) w2), Inr rid))))"

definition parse_staged :: "gen_env \<Rightarrow> gen_params \<Rightarrow> string \<Rightarrow> world \<Rightarrow> world \<times> (gen_error + string)" where
  "parse_staged E p staging w = (case on_fs (open_blob (ge_cfg E) staging) w of
     (w1, Inl e) \<Rightarrow> (w1, Inl (BlobFailed e))
   | (w1, Inr blob) \<Rightarrow> (case on_fs (make_temp (abs_segs (ge_tmp E))) w1 of
       (w2, Inl e) \<Rightarrow> (w2, Inl (TempFailed e))
     | (w2, Inr _) \<Rightarrow> (case work_in_temp E p staging blob w2 of
         (w3, r) \<Rightarrow> (fst (on_fs (remove_all (abs_segs (ge_tmp E))) w3), r))))"

section \<open>Cleaning and deleting\<close>

definition delete_results_by_project :: "int \<Rightarrow> world \<Rightarrow> world" where
  "delete_results_by_project pid w = w\<lparr>w_defects := (w_defects w)\<lparr>results := tbl_delete (\<lambda>r. tr_project r = pid) (results (w_defects w))\<rparr>\<rparr>"

definition ask_regeneration :: "gen_env \<Rightarrow> bool" where
  "ask_regeneration E \<longleftrightarrow> to_lower (ge_check_every E) \<noteq> ''none''"

definition empty_params :: "int \<Rightarrow> string \<Rightarrow> string \<Rightarrow> gen_params" where
  "empty_params pid slug key = \<lparr>gp_project = pid, gp_slug = slug, gp_key = key, gp_batch = [], gp_name = [], gp_from = [],
     gp_type = [], gp_store = False, gp_branch = [], gp_commit = [], gp_pipeline = [], gp_pipeline_url = []\<rparr>"

definition clean_project_history :: "gen_env \<Rightarrow> int \<Rightarrow> string \<Rightarrow> string \<Rightarrow> world \<Rightarrow> world \<times> (gen_error + unit)" where
  "clean_project_history E pid slug key w = (case on_fs (clean_history (ge_cfg E) key) w of
     (w1, Inl e) \<Rightarrow> (w1, Inl (CleanFailed ''clean history''))
   | (w1, Inr _) \<Rightarrow>
     if ge_fails E ''DeleteAllBuilds'' then (w1, Inl (CleanFailed ''clean history db builds''))
     else let w2 = fst (on_builds (unit_stmt (delete_all_builds pid)) w1) in
       if ge_fails E ''DeleteByProject'' then (w2, Inl (CleanFailed ''clean history db test results''))
       else let w3 = delete_results_by_project pid w2 in
         if \<not> ask_regeneration E then (w3, Inr ())
         else (case on_fs (keep_history (ge_cfg E) key []) w3 of
           (w4, Inl e) \<Rightarrow> (w4, Inl (CleanFailed ''keep history''))
         | (w4, Inr _) \<Rightarrow> (case generate_report E (empty_params pid slug key) w4 of
             (w5, Inl e) \<Rightarrow> (w5, Inl e) | (w5, Inr _) \<Rightarrow> (w5, Inr ()))))"

definition delete_project_report :: "gen_env \<Rightarrow> int \<Rightarrow> string \<Rightarrow> string \<Rightarrow> world \<Rightarrow> world \<times> (io_error + unit)" where
  "delete_project_report E pid key rid w = (case on_fs (delete_report (ge_cfg E) key rid) w of
     (w1, Inl e) \<Rightarrow> (w1, Inl e)
   | (w1, Inr _) \<Rightarrow> (case parse_int rid of
       None \<Rightarrow> w1
     | Some n \<Rightarrow> logged E ''DeleteBuild'' (unit_stmt (delete_build pid n)) w1, Inr ()))"

section \<open>Which part of the world a step changes\<close>

lemma on_fs_fields [simp]:
  "w_builds (fst (on_fs m w)) = w_builds w" "w_defects (fst (on_fs m w)) = w_defects w"
  "w_fs (fst (on_fs m w)) = snd (m (w_fs w))" "snd (on_fs m w) = fst (m (w_fs w))"
  by (simp_all add: on_fs_def split: prod.split)

lemma on_builds_fs [simp]: "w_fs (fst (on_builds f w)) = w_fs w" "w_builds (fst (on_builds f w)) = fst (f (w_builds w))"
  by (simp_all add: on_builds_eq)

lemma logged_fields [simp]:
  "w_fs (logged E name f w) = w_fs w"
  "w_builds (logged E name f w) = (if ge_fails E name then w_builds w else fst (f (w_builds w)))"
  by (simp_all add: logged_def)

lemma on_fs_case: "on_fs m w = (w', r) \<Longrightarrow> w_builds w' = w_builds w \<and> w_fs w' = snd (m (w_fs w)) \<and> r = fst (m (w_fs w))"
  by (metis fst_conv snd_conv on_fs_fields(1,3,4))

lemma on_builds_case: "on_builds f w = (w', r) \<Longrightarrow> w_fs w' = w_fs w \<and> w_builds w' = fst (f (w_builds w)) \<and> r = snd (f (w_builds w))"
  by (metis fst_conv snd_conv on_builds_fs on_builds_eq)

lemma resolve_branch_rows: "resolve_branch E p w = (w', br)
  \<Longrightarrow> build_rows (w_builds w') = build_rows (w_builds w) \<and> w_fs w' = w_fs w"
  by (auto simp: resolve_branch_def get_or_create_branch_def Let_def dest!: on_builds_case
      split: if_splits prod.splits sum.splits)

section \<open>A generation that keeps no build\<close>

text \<open>The results after which the reserved row goes.\<close>

definition row_dropped :: "gen_env \<Rightarrow> gen_error + string \<Rightarrow> bool" where
  "row_dropped E r \<longleftrightarrow> (case r of Inl (RetentionFailed _) \<Rightarrow> False | Inl _ \<Rightarrow> True | Inr _ \<Rightarrow> \<not> rc_keep (ge_retention E))"

definition drops_cleanly :: "gen_env \<Rightarrow> (world \<Rightarrow> world \<times> bool \<times> (gen_error + string)) \<Rightarrow> bool" where
  "drops_cleanly E run \<longleftrightarrow> (\<forall>w w' persisted r. run w = (w', persisted, r) \<longrightarrow> row_dropped E r
     \<longrightarrow> \<not> persisted \<and> build_rows (w_builds w') = build_rows (w_builds w))"

lemma persist_build_drops:
  "persist_build E p br dir n w = (w', Inl e) \<Longrightarrow> build_rows (w_builds w') = build_rows (w_builds w) \<and> row_dropped E (Inl e)"
  by (auto simp: persist_build_def store_and_prune_build_def row_dropped_def dest!: on_fs_case
      split: if_splits prod.splits sum.splits)

lemma generate_from_local_drops: "drops_cleanly E (generate_from_local E p dir n)"
  unfolding drops_cleanly_def
proof (intro allI impI)
  fix w w' persisted r assume run: "generate_from_local E p dir n w = (w', persisted, r)" and d: "row_dropped E r"
  obtain w1 r1 where 1: "on_fs (write_inputs E p dir n) w = (w1, r1)" by (cases "on_fs (write_inputs E p dir n) w")
  obtain w2 r2 where 2: "on_fs (run_allure_generate E p dir) w1 = (w2, r2)" by (cases "on_fs (run_allure_generate E p dir) w1")
  obtain w3 br where 3: "resolve_branch E p w2 = (w3, br)" by (cases "resolve_branch E p w2")
  obtain w4 r4 where 4: "persist_build E p br dir n w3 = (w4, r4)" by (cases "persist_build E p br dir n w3")
  obtain w5 r5 where 5: "finish_generation E p br n w4 = (w5, r5)" by (cases "finish_generation E p br n w4")
  have same: "build_rows (w_builds w1) = build_rows (w_builds w)" "build_rows (w_builds w2) = build_rows (w_builds w)"
      "build_rows (w_builds w3) = build_rows (w_builds w)"
    using on_fs_case [OF 1] on_fs_case [OF 2] resolve_branch_rows [OF 3] by simp_all
  show "\<not> persisted \<and> build_rows (w_builds w') = build_rows (w_builds w)"
  proof (cases "isl r1 \<or> isl r2 \<or> isl r4")
    case True
    have "w' = w1 \<and> \<not> persisted" if "r1 = Inl e" for e using run that by (simp add: generate_from_local_def 1)
    moreover have "w' = w2 \<and> \<not> persisted" if "r1 = Inr ()" "r2 = Inl e" for e using run that by (simp add: generate_from_local_def 1 2)
    moreover have "w' = w4 \<and> \<not> persisted \<and> build_rows (w_builds w4) = build_rows (w_builds w3)"
      if "r1 = Inr ()" "r2 = Inr ()" "r4 = Inl e" for e
      using run that persist_build_drops [of E p br dir n w3 w4 e] 4 by (simp add: generate_from_local_def 1 2 3)
    ultimately show ?thesis using True same by (cases r1; cases r2; cases r4) simp_all
  next
    case False
    then obtain k where k: "r1 = Inr ()" "r2 = Inr ()" "r4 = Inr k" by (cases r1; cases r2; cases r4) auto
    then have w': "w' = w5" "persisted = k" "r = r5" using run by (simp_all add: generate_from_local_def 1 2 3 4 5)
    have keep: "\<not> rc_keep (ge_retention E)"
      using d w'(3) 5 by (auto simp: finish_generation_def row_dropped_def split: prod.splits sum.splits)
    then have "w4 = w3" "k = False" using 4 k by (auto simp: persist_build_def)
    moreover have "w_builds w5 = w_builds w4"
      using 5 keep by (auto simp: finish_generation_def keep_latest_history_def split: if_splits)
    ultimately show ?thesis using same w' by simp
  qed
qed

lemma with_reserved_drops:
  assumes "\<And>n. drops_cleanly E (run n)" and "ge_others E = []" and "\<not> ge_fails E ''DeleteBuild''"
    and "with_reserved E pid run w = (w', r)" and "row_dropped E r"
  shows "build_rows (w_builds w') = build_rows (w_builds w)"
proof (cases "ge_fails E ''AcquireLock''")
  case True
  then show ?thesis using assms(4) by (simp add: with_reserved_def)
next
  case False
  let ?n = "max_number pid (w_builds w) + 1" and ?b = "new_build (next_build_id (w_builds w)) pid (max_number pid (w_builds w) + 1) (ge_now E)"
  obtain w1 r1 where 1: "on_builds (reserve_build (ge_others E) pid (ge_now E)) w = (w1, r1)"
    by (cases "on_builds (reserve_build (ge_others E) pid (ge_now E)) w")
  have "(50 :: nat) = Suc 49" by simp
  then have "reserve_build [] pid (ge_now E) db = reserve_attempts (Suc 49) [] pid (ge_now E) db" for db
    by (simp only: reserve_build_def)
  then have res: "reserve_build (ge_others E) pid (ge_now E) (w_builds w)
      = ((w_builds w)\<lparr>next_build_id := next_build_id (w_builds w) + 1, build_rows := build_rows (w_builds w) @ [?b]\<rparr>, Inr ?n)"
    by (simp only: assms(2) reserve_quiet)
  then have rows: "build_rows (w_builds w1) = build_rows (w_builds w) @ [?b]" "r1 = Inr ?n"
    using on_builds_case [OF 1] by simp_all
  obtain w2 k r2 where 2: "run ?n w1 = (w2, k, r2)" by (cases "run ?n w1")
  have w': "settle_row E pid ?n (w2, k, r2) = (w', r)" using assms(4) False 1 2 rows(2) by (simp add: with_reserved_def)
  then have "r2 = r" by (simp add: settle_row_def)
  then have k: "\<not> k" "build_rows (w_builds w2) = build_rows (w_builds w1)"
    using assms(1,5) 2 unfolding drops_cleanly_def by blast+
  have "\<not> numbered pid ?n b" if "b \<in> set (build_rows (w_builds w))" for b
    using max_number_ge [OF that] by auto
  then have "tbl_delete (numbered pid ?n) (build_rows (w_builds w)) = build_rows (w_builds w)"
    unfolding tbl_delete_def by (intro filter_True) blast
  moreover have "numbered pid ?n ?b" by (simp add: new_build_def)
  ultimately have "tbl_delete (numbered pid ?n) (build_rows (w_builds w1)) = build_rows (w_builds w)"
    unfolding rows(1) tbl_delete_def by (simp add: new_build_def)
  then show ?thesis using w' k assms(3)
    by (auto simp: settle_row_def unit_stmt_def delete_build_def)
qed

lemma prepared_drops: "drops_cleanly E (generate_prepared E p n)"
  unfolding drops_cleanly_def
proof (intro allI impI)
  fix w w' persisted r assume run: "generate_prepared E p n w = (w', persisted, r)" and d: "row_dropped E r"
  obtain w1 r1 where 1: "on_fs (prepare_local (ge_cfg E) (gp_key p)) w = (w1, r1)"
    by (cases "on_fs (prepare_local (ge_cfg E) (gp_key p)) w")
  show "\<not> persisted \<and> build_rows (w_builds w') = build_rows (w_builds w)"
  proof (cases r1)
    case (Inr dir)
    obtain w2 k r2 where 2: "generate_from_local E p dir n w1 = (w2, k, r2)" by (cases "generate_from_local E p dir n w1")
    have "k = persisted" "r2 = r" "w' = fst (on_fs (cleanup_local dir) w2)" using run 1 2 Inr by (auto simp: generate_prepared_def)
    then have "\<not> k \<and> build_rows (w_builds w2) = build_rows (w_builds w1)"
      using generate_from_local_drops [of E p dir n] 2 d unfolding drops_cleanly_def by blast
    then show ?thesis using on_fs_case [OF 1] \<open>k = persisted\<close> \<open>w' = _\<close> by simp
  qed (use run 1 on_fs_case [OF 1] in \<open>auto simp: generate_prepared_def\<close>)
qed

lemma drops_cleanly_map:
  "drops_cleanly E run \<Longrightarrow> (\<And>w. build_rows (w_builds (f w)) = build_rows (w_builds w)) \<Longrightarrow> drops_cleanly E (\<lambda>w. run (f w))"
  unfolding drops_cleanly_def by metis

lemma staged_drops: "drops_cleanly E (generate_staged E p dir n)"
proof -
  have "generate_staged E p dir n = (\<lambda>w. generate_from_local E p dir n (fst (on_fs (download_history E (gp_key p) dir) w)))"
    by (simp add: fun_eq_iff generate_staged_def)
  then show ?thesis using drops_cleanly_map [OF generate_from_local_drops] by simp
qed

text \<open>A generation that keeps no build leaves the build rows of every project as they were: whichever of its steps
  fails, the row it reserved is gone, and so it is after a success when history is not kept.  The one failure after
  which the row stays is that of the retention step, which runs on a build already published.\<close>

theorem dropped_generation_leaves_rows:
  assumes "generate_report E p w = (w', r)" and "row_dropped E r" and "ge_others E = []"
    and "\<not> ge_fails E ''DeleteBuild''"
  shows "build_rows (w_builds w') = build_rows (w_builds w)"
  using with_reserved_drops [OF prepared_drops assms(3,4) _ assms(2)] assms(1)
  by (simp add: generate_report_def)

section \<open>A build outlives its own retention\<close>

text \<open>The newest build of a project is in place, with \<open>P\<close>.\<close>

definition has_newest :: "int \<Rightarrow> int \<Rightarrow> (build \<Rightarrow> bool) \<Rightarrow> build_db \<Rightarrow> bool" where
  "has_newest pid n P db \<longleftrightarrow> builds_ok db \<and> (\<exists>b \<in> set (build_rows db). numbered pid n b \<and> P b)
     \<and> (\<forall>b \<in> set (build_rows db). b_project b = pid \<longrightarrow> b_order b \<le> n)"

definition branch_blind :: "(build \<Rightarrow> bool) \<Rightarrow> bool" where
  "branch_blind P \<longleftrightarrow> (\<forall>b br. P (b\<lparr>b_branch := br\<rparr>) = P b)"

lemma newest_map:
  assumes "has_newest pid n P db" and "builds_ok db'" and "build_rows db' = map g (build_rows db)"
    and "\<And>b. b_project (g b) = b_project b \<and> b_order (g b) = b_order b" and "\<And>b. numbered pid n b \<Longrightarrow> P b \<Longrightarrow> Q (g b)"
  shows "has_newest pid n Q db'"
proof -
  obtain b where "b \<in> set (build_rows db)" "numbered pid n b" "P b" using assms(1) unfolding has_newest_def by blast
  then have "g b \<in> set (build_rows db') \<and> numbered pid n (g b) \<and> Q (g b)" using assms(3-5) by simp
  moreover have "b_order x \<le> n" if x: "x \<in> set (build_rows db')" "b_project x = pid" for x
  proof -
    obtain y where "y \<in> set (build_rows db)" "x = g y" using x(1) unfolding assms(3) set_map by blast
    then show ?thesis using assms(1,4) x(2) by (simp add: has_newest_def)
  qed
  ultimately show ?thesis using assms(2) unfolding has_newest_def by blast
qed

lemma newest_rows:
  assumes "has_newest pid n P db" and "keeps_key f" and "\<And>b. P b \<Longrightarrow> P (f b)"
    and "builds_ok (db\<lparr>build_rows := tbl_update q f (build_rows db)\<rparr>)"
  shows "has_newest pid n P (db\<lparr>build_rows := tbl_update q f (build_rows db)\<rparr>)"
  by (rule newest_map [OF assms(1,4), where g = "\<lambda>r. if q r then f r else r"]) (use assms(2,3) in \<open>auto simp: tbl_update_def keeps_key_def\<close>)

lemma newest_update:
  assumes "has_newest pid n P db" and "keeps_key f" and "\<And>b. b_branch (f b) = b_branch b" and "\<And>b. P b \<Longrightarrow> P (f b)"
  shows "has_newest pid n P (fst (update_build pid m f db))"
  using newest_rows [OF assms(1,2,4), of "numbered pid m"] ok_update_build [of db f pid m] assms
  by (auto simp: update_build_def has_newest_def split: if_splits)

lemma newest_update_branch:
  assumes "has_newest pid n P db" and "branch_blind P"
  shows "has_newest pid n P (fst (update_build_branch_id pid m i db))"
  using newest_rows [OF assms(1), of "\<lambda>b. b\<lparr>b_branch := Some i\<rparr>" "numbered pid m"] ok_update_branch_id [of db pid m i] assms
  by (auto simp: update_build_branch_id_def update_build_def has_newest_def branch_blind_def split: if_splits)

lemma newest_get_or_create:
  "has_newest pid n P db \<Longrightarrow> has_newest pid n P (fst (get_or_create_branch pid name now db))"
  using ok_get_or_create [of db pid name now]
  by (auto simp: has_newest_def get_or_create_branch_def Let_def split: sum.splits)

lemma newest_by_count:
  assumes "has_newest pid n P db"
  shows "has_newest pid n P (fst (prune_builds_branch pid keep br db))"
proof -
  obtain b where b: "builds_ok db" "b \<in> set (build_rows db)" "b_project b = pid" "b_order b = n" "P b"
    using assms by (auto simp: has_newest_def)
  have sub: "set (build_rows (fst (prune_builds_branch pid keep br db))) \<subseteq> set (build_rows db)"
    by (auto simp: prune_builds_branch_def Let_def delete_numbers_def tbl_simps)
  have "b \<in> set (build_rows (fst (prune_builds_branch pid keep br db)))"
  proof (cases "0 < keep")
    case True
    have "filter (\<lambda>x. b_order b < b_order x) (filter (\<lambda>x. br = None \<or> b_branch x = br) (of_project pid (build_rows db))) = []"
      using assms b(4) by (fastforce simp: has_newest_def filter_empty_conv)
    then show ?thesis using pruned_iff [OF b(1) True b(2,3), of br] True by simp
  qed (use b in \<open>simp add: prune_builds_branch_def\<close>)
  moreover have "builds_ok (fst (prune_builds_branch pid keep br db))"
    using exact_by_count [of pid keep br] b(1) by (simp add: exact_prune_def)
  ultimately show ?thesis using assms sub b unfolding has_newest_def by blast
qed

lemma newest_by_age:
  assumes "has_newest pid n P db" and "\<And>b. P b \<Longrightarrow> cutoff \<le> b_created b"
  shows "has_newest pid n P (fst (prune_builds_by_age pid cutoff db))"
proof -
  obtain b where b: "builds_ok db" "b \<in> set (build_rows db)" "b_project b = pid" "b_order b = n" "P b"
    using assms(1) by (auto simp: has_newest_def)
  have "b_order b \<notin> b_order ` set (filter (\<lambda>x. b_created x < cutoff \<and> \<not> b_latest x) (of_project pid (build_rows db)))"
  proof
    assume "b_order b \<in> b_order ` set (filter (\<lambda>x. b_created x < cutoff \<and> \<not> b_latest x) (of_project pid (build_rows db)))"
    then obtain x where x: "x \<in> set (build_rows db)" "b_project x = pid" "b_order x = b_order b" "b_created x < cutoff" by auto
    then have "x = b" using b by (auto simp: builds_ok_def rows_ok_def distinct_map inj_on_def)
    then show False using x(4) assms(2) [OF b(5)] by simp
  qed
  then have "b \<in> set (build_rows (fst (prune_builds_by_age pid cutoff db)))"
    using b by (simp add: prune_builds_by_age_def Let_def delete_numbers_def tbl_simps)
  moreover have "builds_ok (fst (prune_builds_by_age pid cutoff db))"
    using exact_by_age [of pid cutoff] b(1) by (simp add: exact_prune_def)
  moreover have "set (build_rows (fst (prune_builds_by_age pid cutoff db))) \<subseteq> set (build_rows db)"
    by (auto simp: prune_builds_by_age_def Let_def delete_numbers_def tbl_simps)
  ultimately show ?thesis using assms(1) b unfolding has_newest_def by blast
qed

lemma newest_delete_branches:
  assumes "has_newest pid n P db" and "branch_blind P"
  shows "has_newest pid n P (delete_branches q db)"
proof -
  have "builds_ok (delete_branches q db)" using assms(1) ok_delete_branches by (simp add: has_newest_def)
  then show ?thesis
    by (rule newest_map [OF assms(1), where g = "\<lambda>b. if (case b_branch b of None \<Rightarrow> False
        | Some i \<Rightarrow> i \<in> bn_id ` set (filter q (branch_rows db))) then b\<lparr>b_branch := None\<rparr> else b"]) (use assms(2) in \<open>auto simp: delete_branches_def Let_def tbl_update_def branch_blind_def split: option.split\<close>)
qed

lemma newest_stale_branch:
  assumes "has_newest pid n P db" and "branch_blind P" and "\<And>b. P b \<Longrightarrow> cutoff \<le> b_created b"
  shows "has_newest pid n P (fst (prune_stale_branch pid name cutoff db))"
proof -
  let ?p = "\<lambda>b. on_ci_branch pid name b \<and> b_created b < cutoff \<and> \<not> default_branch pid name db"
  have "builds_ok (db\<lparr>build_rows := tbl_delete ?p (build_rows db)\<rparr>)" using assms(1) ok_delete_rows unfolding has_newest_def by blast
  moreover have "\<not> ?p b" if "P b" for b using assms(3) [OF that] by simp
  ultimately have "has_newest pid n P (db\<lparr>build_rows := tbl_delete ?p (build_rows db)\<rparr>)"
    using assms(1) unfolding has_newest_def by (simp add: tbl_simps) blast
  then show ?thesis using newest_delete_branches assms(2) by (simp add: prune_stale_branch_def Let_def)
qed

lemma newest_stale_names:
  "has_newest pid n P db \<Longrightarrow> branch_blind P \<Longrightarrow> (\<And>b. P b \<Longrightarrow> cutoff \<le> b_created b)
   \<Longrightarrow> has_newest pid n P (fst (prune_stale_names fails pid cutoff ns db))"
proof (induction ns arbitrary: db)
  case (Cons m ns)
  have "has_newest pid n P (fst (prune_stale_branch pid m cutoff db))" using Cons.prems by (rule newest_stale_branch)
  then show ?case using Cons by (auto split: prod.split) (metis fst_conv)
qed simp

lemma newest_retention:
  assumes "has_newest pid n P (w_builds w)" and "branch_blind P"
    and "\<And>b. P b \<Longrightarrow> 0 < rc_max_age c \<Longrightarrow> age_cutoff c now \<le> b_created b"
  shows "has_newest pid n P (w_builds (fst (keep_latest_history c fails pid key br now w)))"
proof (cases "rc_keep c \<and> \<not> fails ''PruneBuildsBranch''")
  case False
  then show ?thesis using assms(1) by (simp add: keep_latest_history_def)
next
  case True
  obtain w1 ns where 1: "on_builds (prune_builds_branch pid (rc_latest c) br) w = (w1, ns)"
    by (cases "on_builds (prune_builds_branch pid (rc_latest c) br) w")
  obtain w2 r2 where 2: "prune_dirs c key ns w1 = (w2, r2)" by (cases "prune_dirs c key ns w1")
  obtain w3 aged where 3: "on_builds (prune_builds_by_age pid (age_cutoff c now)) w2 = (w3, aged)"
    by (cases "on_builds (prune_builds_by_age pid (age_cutoff c now)) w2")
  obtain w4 r4 where 4: "prune_dirs c key aged w3 = (w4, r4)" by (cases "prune_dirs c key aged w3")
  obtain w5 stale where 5: "prune_stale fails pid (age_cutoff c now) w4 = (w5, stale)"
    by (cases "prune_stale fails pid (age_cutoff c now) w4")
  have dirs: "w_builds w2 = w_builds w1" "w_builds w4 = w_builds w3"
    using prune_dirs_fields(1) [of c key ns w1] prune_dirs_fields(1) [of c key aged w3] 2 4 by simp_all
  have n2: "has_newest pid n P (w_builds w2)"
    using newest_by_count [OF assms(1)] on_builds_case [OF 1] dirs(1) by simp
  show ?thesis
  proof (cases "0 < rc_max_age c")
    case False
    then show ?thesis using n2 True by (simp add: keep_latest_history_def 1 2 split: sum.split)
  next
    case age: True
    have n4: "has_newest pid n P (w_builds w4)"
      using newest_by_age [OF n2, of "age_cutoff c now"] assms(3) age on_builds_case [OF 3] dirs(2) by simp
    have "w_builds w5 = w_builds w4 \<or> w_builds w5 = fst (prune_stale_names fails pid (age_cutoff c now)
        (stale_branches pid (age_cutoff c now) (w_builds w4)) (w_builds w4))"
      using 5 on_builds_case [of "prune_stale_branches fails pid (age_cutoff c now)" w4 w5 stale]
      by (auto simp: prune_stale_def prune_stale_branches_def split: if_splits)
    then have n5: "has_newest pid n P (w_builds w5)"
      using n4 newest_stale_names [OF n4 assms(2)] assms(3) age by metis
    then show ?thesis using n2 n4 True age
      by (simp add: keep_latest_history_def 1 2 3 4 5 split: sum.split)
  qed
qed

section \<open>A stored build\<close>

text \<open>Created by this generation, and then marked as the latest.\<close>

definition created_at :: "time \<Rightarrow> build \<Rightarrow> bool" where
  "created_at t b \<longleftrightarrow> b_created b = t"

definition latest_at :: "time \<Rightarrow> build \<Rightarrow> bool" where
  "latest_at t b \<longleftrightarrow> b_created b = t \<and> b_latest b"

lemma blind [simp]: "branch_blind (created_at t)" "branch_blind (latest_at t)"
  by (simp_all add: branch_blind_def created_at_def latest_at_def)

lemma newest_logged:
  "has_newest pid n P (w_builds w) \<Longrightarrow> has_newest pid n Q (fst (f (w_builds w))) \<Longrightarrow> \<not> ge_fails E name
   \<Longrightarrow> has_newest pid n Q (w_builds (logged E name f w))"
  by simp

lemma newest_set_latest:
  assumes "has_newest pid n (created_at t) db"
  shows "has_newest pid n (latest_at t) (set_latest_branch pid n br db)"
proof -
  have ok: "builds_ok (set_latest_branch pid n br db)" using assms ok_set_latest_branch by (simp add: has_newest_def)
  let ?q = "\<lambda>b. b_project b = pid \<and> (br = None \<or> b_branch b = br) \<and> b_latest b"
  show ?thesis
    by (rule newest_map [OF assms ok, where g = "\<lambda>b. let c = (if ?q b then b\<lparr>b_latest := False\<rparr> else b)
          in if numbered pid n c then c\<lparr>b_latest := True\<rparr> else c"])
       (auto simp: set_latest_branch_def set_latest_def tbl_update_def Let_def created_at_def latest_at_def split: option.split)
qed

lemma newest_branch_step:
  "has_newest pid n (created_at t) (w_builds w) \<Longrightarrow> pid = gp_project p
   \<Longrightarrow> has_newest pid n (created_at t) (w_builds (record_branch E p br n w))"
  by (auto simp: record_branch_def intro!: newest_update_branch split: option.split)

lemma newest_stats_step:
  "has_newest pid n (created_at t) (w_builds w) \<Longrightarrow> pid = gp_project p
   \<Longrightarrow> has_newest pid n (created_at t) (w_builds (record_stats E p n w))"
  by (auto simp: record_stats_def update_build_stats_def created_at_def intro!: newest_update split: sum.split)

lemma newest_ci_step:
  "has_newest pid n (created_at t) (w_builds w) \<Longrightarrow> pid = gp_project p
   \<Longrightarrow> has_newest pid n (created_at t) (w_builds (record_ci E p n w))"
  by (auto simp: record_ci_def update_build_ci_def created_at_def intro!: newest_update)

lemma newest_environment_step:
  "has_newest pid n (created_at t) (w_builds w) \<Longrightarrow> pid = gp_project p
   \<Longrightarrow> has_newest pid n (created_at t) (w_builds (record_environment E p dir n w))"
  by (auto simp: record_environment_def update_build_environment_def created_at_def intro!: newest_update split: sum.split)

lemma newest_playwright_step:
  assumes "has_newest pid n (created_at t) (w_builds w)" and "pid = gp_project p"
  shows "has_newest pid n (created_at t) (w_builds (copy_playwright_report E p n w))"
proof -
  obtain w1 r where 1: "on_fs (copy_playwright_latest (ge_cfg E) (gp_key p) n) w = (w1, r)"
    by (cases "on_fs (copy_playwright_latest (ge_cfg E) (gp_key p) n) w")
  then have b: "w_builds w1 = w_builds w" using on_fs_case by blast
  have "has_newest pid n (created_at t) (fst (set_has_playwright (gp_project p) n True (w_builds w)))"
    using assms by (auto simp: set_has_playwright_def created_at_def intro!: newest_update)
  then show ?thesis using assms(1)
    by (cases r; cases "fst (playwright_report_exists (ge_cfg E) (gp_key p) n (w_fs w1))")
       (auto simp: copy_playwright_report_def 1 b split: bool.split)
qed

lemmas newest_steps = newest_branch_step newest_stats_step newest_ci_step newest_environment_step newest_playwright_step

lemma newest_set_latest_step:
  "has_newest pid n (created_at t) (w_builds w) \<Longrightarrow> pid = gp_project p \<Longrightarrow> \<not> ge_fails E ''SetLatestBranch''
   \<Longrightarrow> has_newest pid n (latest_at t) (w_builds (set_latest_build E p br n w))"
  by (simp add: set_latest_build_def unit_stmt_def newest_set_latest)

lemma newest_persist:
  assumes "persist_build E p br dir n w = (w', Inr True)" and "has_newest pid n (created_at t) (w_builds w)"
    and "pid = gp_project p" and "\<not> ge_fails E ''SetLatestBranch''"
  shows "has_newest pid n (latest_at t) (w_builds w')"
proof -
  obtain w1 r where 1: "on_fs (publish_report n dir) w = (w1, r)" by (cases "on_fs (publish_report n dir) w")
  have n1: "has_newest pid n (created_at t) (w_builds w1)" using assms(2) on_fs_case [OF 1] by simp
  have "w' = record_published E p br dir n w1 \<or> w' = record_build E p n w"
    using assms(1) 1 by (auto simp: persist_build_def store_and_prune_build_def split: if_splits sum.splits)
  then show ?thesis
    using newest_set_latest_step [where w = w and br = None, OF assms(2-4)]
      newest_set_latest_step [OF newest_playwright_step [OF newest_environment_step [OF newest_ci_step [OF newest_stats_step
        [OF newest_branch_step [OF n1 assms(3)] assms(3)] assms(3)] assms(3)] assms(3)] assms(3,4)]
    by (auto simp: record_published_def record_build_def)
qed

text \<open>What a successful generation that keeps history leaves in the tables.\<close>

lemma generated_row:
  assumes "generate_from_local E p dir n w = (w', k, Inr rid)" and "rc_keep (ge_retention E)"
    and "has_newest (gp_project p) n (created_at (ge_now E)) (w_builds w)" and "\<not> ge_fails E ''SetLatestBranch''"
  shows "k \<and> rid = itoa n \<and> has_newest (gp_project p) n (latest_at (ge_now E)) (w_builds w')"
proof -
  obtain w1 r1 where 1: "on_fs (write_inputs E p dir n) w = (w1, r1)" by (cases "on_fs (write_inputs E p dir n) w")
  obtain w2 r2 where 2: "on_fs (run_allure_generate E p dir) w1 = (w2, r2)" by (cases "on_fs (run_allure_generate E p dir) w1")
  obtain w3 br where 3: "resolve_branch E p w2 = (w3, br)" by (cases "resolve_branch E p w2")
  obtain w4 r4 where 4: "persist_build E p br dir n w3 = (w4, r4)" by (cases "persist_build E p br dir n w3")
  obtain w5 r5 where 5: "finish_generation E p br n w4 = (w5, r5)" by (cases "finish_generation E p br n w4")
  have ok: "r1 = Inr ()" "r2 = Inr ()" "r4 = Inr k" "w' = w5" "r5 = Inr rid"
    using assms(1) by (auto simp: generate_from_local_def 1 2 3 4 5 split: sum.splits)
  have k: "k" using 4 ok(3) assms(2) by (auto simp: persist_build_def split: if_splits prod.splits sum.splits)
  have n2: "has_newest (gp_project p) n (created_at (ge_now E)) (w_builds w2)"
    using assms(3) on_fs_case [OF 1] on_fs_case [OF 2] by simp
  have "has_newest (gp_project p) n (created_at (ge_now E)) (w_builds w3)"
    using 3 n2 newest_get_or_create [OF n2, of "gp_branch p" "ge_now E"]
    by (auto simp: resolve_branch_def dest!: on_builds_case split: if_splits prod.splits)
  from newest_persist [OF _ this _ assms(4)] have n4: "has_newest (gp_project p) n (latest_at (ge_now E)) (w_builds w4)"
    using 4 ok(3) k by simp
  obtain w6 r6 where 6: "keep_latest_history (ge_retention E) (ge_fails E) (gp_project p) (gp_key p) br (ge_now E) w4 = (w6, r6)"
    by (cases "keep_latest_history (ge_retention E) (ge_fails E) (gp_project p) (gp_key p) br (ge_now E) w4")
  have "age_cutoff (ge_retention E) (ge_now E) \<le> b_created b"
    if "latest_at (ge_now E) b" "0 < rc_max_age (ge_retention E)" for b
    using that by (simp add: latest_at_def age_cutoff_def)
  then have "has_newest (gp_project p) n (latest_at (ge_now E)) (w_builds w6)"
    using newest_retention [OF n4] 6 by (metis blind(2) fst_conv)
  then show ?thesis using k 5 6 ok(4,5) by (auto simp: finish_generation_def split: sum.splits if_splits)
qed

lemma newest_reserved:
  assumes "builds_ok (w_builds w)"
  shows "on_builds (reserve_build [] pid t) w = (fst (on_builds (reserve_build [] pid t) w), Inr (max_number pid (w_builds w) + 1))"
    and "has_newest pid (max_number pid (w_builds w) + 1) (created_at t) (w_builds (fst (on_builds (reserve_build [] pid t) w)))"
proof -
  let ?n = "max_number pid (w_builds w) + 1" and ?b = "new_build (next_build_id (w_builds w)) pid (max_number pid (w_builds w) + 1) t"
  have "(50 :: nat) = Suc 49" by simp
  then have res: "reserve_build [] pid t db = (db\<lparr>next_build_id := next_build_id db + 1,
      build_rows := build_rows db @ [new_build (next_build_id db) pid (max_number pid db + 1) t]\<rparr>, Inr (max_number pid db + 1))" for db
    by (simp only: reserve_build_def reserve_quiet)
  then show "on_builds (reserve_build [] pid t) w = (fst (on_builds (reserve_build [] pid t) w), Inr ?n)"
    by (simp add: on_builds_eq)
  have "builds_ok (fst (reserve_build [] pid t (w_builds w)))"
    using ok_reserve [OF assms, of "[]" 50 pid t] by (simp add: reserve_build_def keep_ok_def)
  moreover have "b_order b \<le> ?n" if "b \<in> set (build_rows (w_builds w))" "b_project b = pid" for b
    using max_number_ge [OF that] by simp
  ultimately show "has_newest pid ?n (created_at t) (w_builds (fst (on_builds (reserve_build [] pid t) w)))"
    by (auto simp: has_newest_def res new_build_def created_at_def)
qed

text \<open>Around any run that ends with the newest build in place and to be kept.\<close>

lemma reserved_row:
  assumes "with_reserved E pid run w = (w', Inr rid)" and "ge_others E = []" and "builds_ok (w_builds w)"
    and "\<And>n w1 w2 k. run n w1 = (w2, k, Inr rid) \<Longrightarrow> has_newest pid n (created_at (ge_now E)) (w_builds w1)
      \<Longrightarrow> k \<and> rid = itoa n \<and> has_newest pid n Q (w_builds w2)"
  shows "rid = itoa (max_number pid (w_builds w) + 1) \<and> has_newest pid (max_number pid (w_builds w) + 1) Q (w_builds w')"
proof -
  let ?n = "max_number pid (w_builds w) + 1" and ?w = "fst (on_builds (reserve_build [] pid (ge_now E)) w)"
  note r = newest_reserved [OF assms(3), of pid "ge_now E"]
  obtain w2 k r2 where 2: "run ?n ?w = (w2, k, r2)" by (cases "run ?n ?w")
  have "settle_row E pid ?n (run ?n ?w) = (w', Inr rid)"
    using assms(1) unfolding with_reserved_def assms(2) by (subst (asm) r(1)) (simp split: if_splits)
  then have s: "r2 = Inr rid" "w' = (if k then w2 else logged E ''DeleteBuild'' (unit_stmt (delete_build pid ?n)) w2)"
    by (auto simp: 2 settle_row_def)
  from assms(4) [OF _ r(2), of w2 k] 2 s(1) have "k \<and> rid = itoa ?n \<and> has_newest pid ?n Q (w_builds w2)" by simp
  then show ?thesis using s(2) by simp
qed

lemma defaults_project [simp]: "gp_project (with_defaults p) = gp_project p" "gp_key (with_defaults p) = gp_key p"
  "gp_batch (with_defaults p) = gp_batch p"
  by (simp_all add: with_defaults_def)

lemma local_dir_row:
  assumes "generate_local_dir E p dir w = (w', Inr rid)" and "rc_keep (ge_retention E)" and "ge_others E = []"
    and "builds_ok (w_builds w)" and "\<not> ge_fails E ''SetLatestBranch''"
  shows "rid = itoa (max_number (gp_project p) (w_builds w) + 1)
    \<and> has_newest (gp_project p) (max_number (gp_project p) (w_builds w) + 1) (latest_at (ge_now E)) (w_builds w')"
proof (rule reserved_row [OF assms(1) [unfolded generate_local_dir_def] assms(3,4)])
  fix n w1 w2 k
  assume "generate_staged E (with_defaults p) dir n w1 = (w2, k, Inr rid)"
    and n: "has_newest (gp_project p) n (created_at (ge_now E)) (w_builds w1)"
  then have run: "generate_from_local E (with_defaults p) dir n (fst (on_fs (download_history E (gp_key p) dir) w1)) = (w2, k, Inr rid)"
    by (simp add: generate_staged_def)
  have "has_newest (gp_project (with_defaults p)) n (created_at (ge_now E)) (w_builds (fst (on_fs (download_history E (gp_key p) dir) w1)))"
    using n by simp
  from generated_row [OF run assms(2) this assms(5)]
  show "k \<and> rid = itoa n \<and> has_newest (gp_project p) n (latest_at (ge_now E)) (w_builds w2)" by simp
qed

text \<open>C5: A generation that keeps history and succeeds has recorded its build: the answer is the number reserved for it,
  one more than the greatest of the project; its row is there after the retention step, which deletes neither by
  count nor by age nor with a stale branch the build it follows; and it is marked as the latest.\<close>

theorem generated_build_recorded:
  assumes "generate_report E p w = (w', Inr rid)" and "rc_keep (ge_retention E)" and "ge_others E = []"
    and "builds_ok (w_builds w)" and "\<not> ge_fails E ''SetLatestBranch''"
  shows "rid = itoa (max_number (gp_project p) (w_builds w) + 1)
    \<and> has_newest (gp_project p) (max_number (gp_project p) (w_builds w) + 1) (latest_at (ge_now E)) (w_builds w')"
proof (rule reserved_row [OF assms(1) [unfolded generate_report_def] assms(3,4)])
  fix n w1 w2 k
  assume run: "generate_prepared E (with_defaults p) n w1 = (w2, k, Inr rid)"
    and n: "has_newest (gp_project p) n (created_at (ge_now E)) (w_builds w1)"
  obtain w3 r3 where 3: "on_fs (prepare_local (ge_cfg E) (gp_key p)) w1 = (w3, r3)"
    by (cases "on_fs (prepare_local (ge_cfg E) (gp_key p)) w1")
  then obtain dir where dir: "r3 = Inr dir" using run by (cases r3) (auto simp: generate_prepared_def)
  obtain w4 k4 r4 where 4: "generate_from_local E (with_defaults p) dir n w3 = (w4, k4, r4)"
    by (cases "generate_from_local E (with_defaults p) dir n w3")
  have e: "k4 = k" "r4 = Inr rid" "w_builds w2 = w_builds w4"
    using run by (auto simp: generate_prepared_def 3 dir 4)
  have "has_newest (gp_project (with_defaults p)) n (created_at (ge_now E)) (w_builds w3)"
    using n on_fs_case [OF 3] by simp
  from generated_row [OF 4 [unfolded e] assms(2) this assms(5)] e
  show "k \<and> rid = itoa n \<and> has_newest (gp_project p) n (latest_at (ge_now E)) (w_builds w2)" by simp
qed

section \<open>Where a staged generation writes\<close>

text \<open>The directories above a temporary directory and those of a project are in place.\<close>

definition grounded :: "place \<Rightarrow> place \<Rightarrow> fs \<Rightarrow> bool" where
  "grounded T h fs \<longleftrightarrow> above_ok T fs \<and> (\<forall>q. prefix q h \<longrightarrow> node_at q fs = Some Dir)"

text \<open>Below the reports of the project nothing is made or changed, at most removed.\<close>

definition quiet :: "place \<Rightarrow> place \<Rightarrow> fs \<Rightarrow> fs \<Rightarrow> bool" where
  "quiet T h fs fs' \<longleftrightarrow> (grounded T h fs \<longrightarrow> grounded T h fs'
     \<and> (\<forall>q. prefix (h @ [''reports'']) q \<longrightarrow> node_at q fs' = None \<or> node_at q fs' = node_at q fs))"

lemma quiet_refl [simp]: "quiet T h fs fs"
  by (simp add: quiet_def)

lemma quiet_trans: "quiet T h f g \<Longrightarrow> quiet T h g k \<Longrightarrow> quiet T h f k"
  unfolding quiet_def by metis

text \<open>The two trees are apart.\<close>

definition apart :: "place \<Rightarrow> place \<Rightarrow> bool" where
  "apart T h \<longleftrightarrow> \<not> prefix T h \<and> \<not> prefix h T"

lemma quiet_temp:
  assumes "apart T h" and "within T m"
  shows "quiet T h fs (snd (m fs))"
  unfolding quiet_def
proof (intro impI)
  assume g: "grounded T h fs"
  then have a: "above_ok T fs" by (simp add: grounded_def)
  note same = withinD [OF assms(2) a]
  have h: "\<not> prefix T q" if "prefix q h" for q
    using assms(1) that prefix_order.trans unfolding apart_def by blast
  have r: "\<not> prefix T q" if "prefix (h @ x) q" for q x
  proof
    assume "prefix T q"
    moreover have "prefix h q" using that prefix_order.trans prefixI by blast
    ultimately show False using assms(1) prefix_same_cases unfolding apart_def by blast
  qed
  have "grounded T h (snd (m fs))"
    using g above_ok_kept [OF assms(2) a] same [OF h] by (simp add: grounded_def)
  then show "grounded T h (snd (m fs)) \<and> (\<forall>q. prefix (h @ [''reports'']) q
      \<longrightarrow> node_at q (snd (m fs)) = None \<or> node_at q (snd (m fs)) = node_at q fs)"
    using same [OF r] by simp
qed

lemma grounded_kept:
  assumes "apart T h" and "within (h @ [x]) m" and "grounded T h fs"
  shows "grounded T h (snd (m fs))"
proof -
  have a: "above_ok (h @ [x]) fs" using assms(3) by (auto simp: above_ok_def grounded_def strict_prefix_def)
  note same = withinD [OF assms(2) a]
  have t: "\<not> prefix (h @ [x]) q" if "strict_prefix q T" for q
    using assms(1) that unfolding apart_def strict_prefix_def by (meson prefixI prefix_order.trans)
  have h: "\<not> prefix (h @ [x]) q" if "prefix q h" for q
    using that by (metis Suc_n_not_le_n length_append_singleton order_trans prefix_length_le)
  show ?thesis using assms(3) same [OF t] same [OF h] by (simp add: grounded_def above_ok_def)
qed

lemma quiet_home:
  assumes "apart T h" and "within (h @ [x]) m" and "x \<noteq> ''reports''"
  shows "quiet T h fs (snd (m fs))"
  unfolding quiet_def
proof (intro impI)
  assume g: "grounded T h fs"
  have a: "above_ok (h @ [x]) fs" using g by (auto simp: above_ok_def grounded_def strict_prefix_def)
  have r: "\<not> prefix (h @ [x]) q" if "prefix (h @ [''reports'']) q" for q
    using that assms(3) by (auto simp: prefix_def)
  then show "grounded T h (snd (m fs)) \<and> (\<forall>q. prefix (h @ [''reports'']) q
      \<longrightarrow> node_at q (snd (m fs)) = None \<or> node_at q (snd (m fs)) = node_at q fs)"
    using grounded_kept [OF assms(1,2) g] withinD [OF assms(2) a r] by simp
qed

text \<open>A computation that only removes.\<close>

definition removing :: "'a io \<Rightarrow> bool" where
  "removing m \<longleftrightarrow> (\<forall>fs q. node_at q (snd (m fs)) = None \<or> node_at q (snd (m fs)) = node_at q fs)"

lemma removing_all: "p \<noteq> [] \<Longrightarrow> removing (remove_all p)"
  by (simp add: removing_def remove_all_node)

lemma removing_bind: "removing m \<Longrightarrow> (\<And>a. removing (f a)) \<Longrightarrow> removing (bind_io m f)"
  unfolding removing_def
proof (intro allI)
  fix fs q
  assume m: "\<forall>fs q. node_at q (snd (m fs)) = None \<or> node_at q (snd (m fs)) = node_at q fs"
    and f: "\<And>a. \<forall>fs q. node_at q (snd (f a fs)) = None \<or> node_at q (snd (f a fs)) = node_at q fs"
  obtain r fs1 where 1: "m fs = (r, fs1)" by (cases "m fs")
  then have "node_at q fs1 = None \<or> node_at q fs1 = node_at q fs" using m by (metis snd_conv)
  moreover have "bind_io m f fs = f a fs1" if "r = Inr a" for a using 1 that by (simp add: bind_io_def)
  moreover have "snd (bind_io m f fs) = fs1" if "r = Inl e" for e using 1 that by (simp add: bind_io_def)
  ultimately show "node_at q (snd (bind_io m f fs)) = None \<or> node_at q (snd (bind_io m f fs)) = node_at q fs"
    using f by (cases r) metis+
qed

lemma removing_each: "(\<And>x. removing (f x)) \<Longrightarrow> removing (for_each f xs)"
  by (induction xs) (simp_all add: removing_bind, simp add: removing_def ret_def)

lemma quiet_removing:
  assumes "apart T h" and "within (h @ [x]) m" and "removing m"
  shows "quiet T h fs (snd (m fs))"
  using grounded_kept [OF assms(1,2)] assms(3) by (simp add: quiet_def removing_def)

text \<open>A computation inside a named part of a project directory.\<close>

lemma within_part:
  assumes "is_abs (projects_path c)" and "\<forall>s \<in> set (x # ss). plain s"
    and "\<And>p. abs_segs p = home c k @ x # ss \<Longrightarrow> is_abs p \<Longrightarrow> within (home c k @ [x]) (f p)"
  shows "within (home c k @ [x]) (with_path c k (x # ss) f)"
proof (cases "store_path (projects_path c) k (x # ss)")
  case (Some p)
  have "is_abs p" using store_path_below [OF Some assms(1)] by metis
  then have "within (home c k @ [x]) (f p)"
    using store_path_plain [OF Some assms(1,2)] by (intro assms(3)) (simp_all add: home_def)
  with Some show ?thesis by (simp add: with_path_def)
qed (simp add: with_path_def within_throw)

lemma within_base:
  assumes "is_abs (projects_path c)"
    and "\<And>p. abs_segs p = home c k \<Longrightarrow> is_abs p \<Longrightarrow> within (home c k @ [x]) (f p)"
  shows "within (home c k @ [x]) (with_path c k [] f)"
proof (cases "store_path (projects_path c) k []")
  case (Some p)
  have "is_abs p" using store_path_below [OF Some assms(1)] by metis
  then have "within (home c k @ [x]) (f p)"
    using store_path_plain [OF Some assms(1)] by (intro assms(2)) (simp_all add: home_def)
  with Some show ?thesis by (simp add: with_path_def)
qed (simp add: with_path_def within_throw)

lemma history_place:
  assumes "abs_segs p = home c k" and "is_abs p"
  shows "prefix (home c k @ [''results'']) (at p [''results'', ''history''])"
    and "plain batch \<Longrightarrow> prefix (home c k @ [''results'']) (at p [''results'', join_path [batch, ''history'']])"
  using assms plain_batch_history [of batch p] by (simp_all add: at_below)

lemma keep_history_results:
  assumes "is_abs (projects_path c)" and "batch = [] \<or> plain batch"
  shows "within (home c k @ [''results'']) (keep_history c k batch)"
  unfolding keep_history_def Let_def
  by (rule within_base [OF assms(1)]) (use assms(2) in \<open>auto intro!: within_intros history_place split: sum.split\<close>)

lemma prune_dirs_quiet:
  assumes "is_abs (projects_path c)" and "apart T (home c k)"
  shows "quiet T (home c k) fs (snd (prune_report_dirs c k ns fs))"
proof (rule quiet_removing [OF assms(2)])
  have below: "at p [itoa n] = home c k @ [''reports'', itoa n]"
    if "abs_segs p = home c k @ [''reports'']" "is_abs p" for p n
    using that by (simp add: at_below)
  show "within (home c k @ [''reports'']) (prune_report_dirs c k ns)"
    unfolding prune_report_dirs_def
    by (rule within_part [OF assms(1)]) (auto simp: below intro!: within_intros)
  show "removing (prune_report_dirs c k ns)"
  proof (cases "store_path (projects_path c) k [''reports'']")
    case (Some p)
    have "is_abs p" using store_path_below [OF Some assms(1)] by metis
    then have "at p [itoa n] \<noteq> []" for n by (simp add: at_below)
    then show ?thesis by (simp add: prune_report_dirs_def with_path_def Some removing_each removing_all)
  qed (simp add: prune_report_dirs_def with_path_def throw_def removing_def)
qed

lemma clean_batch_results:
  "is_abs (projects_path c) \<Longrightarrow> plain batch \<Longrightarrow> within (home c k @ [''results'']) (clean_batch c k batch)"
  unfolding clean_batch_def by (auto intro!: within_intros within_part)

lemma copy_playwright_part:
  "is_abs (projects_path c) \<Longrightarrow> within (home c k @ [''playwright-reports'']) (copy_playwright_latest c k n)"
  unfolding copy_playwright_latest_def
  by (rule within_part) (auto intro!: within_intros simp: at_below split: sum.split io_error.split bool.split)

lemma clean_playwright_part:
  "is_abs (projects_path c) \<Longrightarrow> within (home c k @ [''playwright-reports'']) (clean_playwright_latest c k)"
  unfolding clean_playwright_latest_def
  by (rule within_part) (auto intro!: within_intros)

lemma publish_within: "is_abs dir \<Longrightarrow> dir_place = abs_segs dir \<Longrightarrow> within dir_place (publish_report n dir)"
  unfolding publish_report_def publish_dir_def variable_dirs_def
  by (auto intro!: within_intros simp: at_below split: sum.split io_error.split bool.split)

lemma names_below:
  assumes "is_abs dir" and "\<forall>s \<in> set names. s = [] \<or> plain s"
  shows "at dir names = abs_segs dir @ filter (\<lambda>s. s \<noteq> []) names"
proof -
  have "dir \<noteq> []" using assms(1) by (auto simp: is_abs_def)
  then have j: "join_path (dir # names) = clean_path (join [slash] (dir # names))" by (simp add: join_path_def)
  have "is_abs (join [slash] (dir # names))" using assms(1) by (cases names) (auto simp: is_abs_def)
  from abs_segs_clean(1) [OF this] have a: "at dir names = norm True (segments (join [slash] (dir # names)))"
    unfolding at_def j by (simp only: abs_segs_def)
  have sg: "segments (join [slash] (dir # names)) = segments dir @ names"
  proof (cases names)
    case (Cons n ns)
    have "slash \<notin> set s" if "s \<in> set names" for s
      using bspec [OF assms(2) that] by (elim disjE) (simp_all add: plain_def)
    then have "segments (join [slash] names) = names" using Cons by (intro split_on_join) blast+
    moreover have "join [slash] (dir # names) = dir @ slash # join [slash] names" using Cons by simp
    ultimately show ?thesis by (simp only: split_on_append)
  qed simp
  have "fold (clean_step True) names acc = rev (filter (\<lambda>s. s \<noteq> []) names) @ acc" for acc
    using assms(2)
  proof (induction names arbitrary: acc)
    case (Cons n ns)
    then have "n = [] \<or> plain n" by simp
    then have "clean_step True n acc = filter (\<lambda>s. s \<noteq> []) [n] @ acc"
      by (elim disjE) (simp_all add: clean_step_def plain_def)
    then show ?case using Cons by simp
  qed simp
  then show ?thesis by (simp add: a sg norm_def abs_segs_def)
qed

lemma plain_config: "plain ''allurereport.config.json''"
  by (simp add: plain_def)

lemma inputs_within:
  assumes "is_abs dir" and "gp_batch p = [] \<or> plain (gp_batch p)"
  shows "within (abs_segs dir) (write_inputs E p dir n)"
  unfolding write_inputs_def using assms(2)
  by (auto intro!: within_intros simp: names_below [OF assms(1)] plain_config)

text \<open>The program, as it is documented: it writes below the directory it is started in.\<close>

definition allure_local :: "gen_env \<Rightarrow> string \<Rightarrow> bool" where
  "allure_local E dir \<longleftrightarrow> (\<forall>input. within (abs_segs dir) (ge_allure E dir input))"

lemma secure_cases: "secure_base_name n = [] \<or> plain (secure_base_name n)"
  using secure_base_name_plain by blast

lemma within_read_part [within_intros]: "within h (with_path c k ss (\<lambda>p. read_file (f p)))" "within h (with_path c k ss (\<lambda>p. read_dir (f p)))"
  by (auto simp: with_path_def intro: within_intros split: option.split)

lemma download_within:
  assumes "is_abs dir" and "abs_segs dir \<noteq> []"
  shows "within (abs_segs dir) (download_history E k dir)"
proof -
  have "prefix (abs_segs dir) (at dir [''results'', ''history'', secure_base_name n])" for n
    using secure_cases [of n] by (auto simp: names_below [OF assms(1)])
  then have "within (abs_segs dir) (download_file E k dir e)" for e
    unfolding download_file_def read_project_file_def by (auto intro!: within_intros split: sum.split)
  then show ?thesis
    unfolding download_history_def read_project_dir_def
    by (auto intro!: within_intros simp: names_below [OF assms(1)])
qed

lemma extract_within:
  assumes "is_abs dst" and "prefix h (abs_segs dst)"
  shows "within h (\<lambda>fs. (Inr (), snd (extract_to_dir dst opts a fs)))"
proof -
  have "prefix (abs_segs dst) (at dst [secure_base_name n])" for n
    using secure_cases [of n] by (auto simp: names_below [OF assms(1)])
  then have "prefix h (at dst [secure_base_name n])" for n using assms(2) prefix_order.trans by blast
  then have w: "within h (bind_io (mkdir_all (abs_segs dst)) (\<lambda>_. for_each (\<lambda>(n, b). write_file (at dst [secure_base_name n]) b) es))" for es
    using assms(2) by (auto intro!: within_intros split: prod.split)
  show ?thesis unfolding within_def
  proof (intro allI impI)
    fix fs q assume g: "above_ok h fs" "\<not> prefix h q"
    show "node_at q (snd (Inr (), snd (extract_to_dir dst opts a fs))) = node_at q fs"
    proof (cases "read_with opts a")
      case (Inr es)
      have "snd (extract_to_dir dst opts a fs)
          = snd (bind_io (mkdir_all (abs_segs dst)) (\<lambda>_. for_each (\<lambda>(n, b). write_file (at dst [secure_base_name n]) b) es) fs)"
        by (simp add: extract_to_dir_def Inr split: prod.split sum.split)
      then show ?thesis using withinD [OF w g] by simp
    qed (simp add: extract_to_dir_def)
  qed
qed

definition calm :: "place \<Rightarrow> place \<Rightarrow> 'a io \<Rightarrow> bool" where
  "calm T h m \<longleftrightarrow> (\<forall>fs. quiet T h fs (snd (m fs)))"

lemma calm_bind:
  assumes "calm T h m" and "\<And>a. calm T h (f a)"
  shows "calm T h (bind_io m f)"
  unfolding calm_def
proof
  fix fs
  obtain r fs1 where 1: "m fs = (r, fs1)" by (cases "m fs")
  have q: "quiet T h fs fs1" using assms(1) 1 by (metis calm_def snd_conv)
  show "quiet T h fs (snd (bind_io m f fs))"
  proof (cases r)
    case (Inr a)
    have "quiet T h fs1 (snd (f a fs1))" using assms(2) by (simp add: calm_def)
    with q show ?thesis using quiet_trans [OF q] 1 Inr by (simp add: bind_io_def)
  qed (use q 1 in \<open>simp add: bind_io_def\<close>)
qed

lemma calm_attempt: "calm T h m \<Longrightarrow> calm T h (attempt_io m)"
  by (simp add: calm_def)

lemma calm_on_fs: "calm T h m \<Longrightarrow> on_fs m w = (w', r) \<Longrightarrow> quiet T h (w_fs w) (w_fs w')"
  using on_fs_case [of m w w' r] by (simp add: calm_def)

text \<open>The setting of the staged worker: batches are names, the temporary directory is not in the project, the
  program stays in the directory it is started in.\<close>

definition staged_setting :: "gen_env \<Rightarrow> gen_params \<Rightarrow> bool" where
  "staged_setting E p \<longleftrightarrow> is_abs (projects_path (ge_cfg E)) \<and> is_abs (ge_tmp E) \<and> plain (gp_batch p)
     \<and> apart (abs_segs (ge_tmp E)) (home (ge_cfg E) (gp_key p)) \<and> allure_local E (ge_tmp E)"

lemma setting_calm:
  assumes "staged_setting E p"
  shows "within (abs_segs (ge_tmp E)) m \<Longrightarrow> calm (abs_segs (ge_tmp E)) (home (ge_cfg E) (gp_key p)) m"
    and "within (home (ge_cfg E) (gp_key p) @ [x]) m \<Longrightarrow> x \<noteq> ''reports'' \<Longrightarrow> calm (abs_segs (ge_tmp E)) (home (ge_cfg E) (gp_key p)) m"
    and "abs_segs (ge_tmp E) \<noteq> []"
proof -
  have ap: "apart (abs_segs (ge_tmp E)) (home (ge_cfg E) (gp_key p))" using assms by (simp add: staged_setting_def)
  show "within (abs_segs (ge_tmp E)) m \<Longrightarrow> calm (abs_segs (ge_tmp E)) (home (ge_cfg E) (gp_key p)) m"
    by (simp add: calm_def quiet_temp [OF ap])
  show "within (home (ge_cfg E) (gp_key p) @ [x]) m \<Longrightarrow> x \<noteq> ''reports'' \<Longrightarrow> calm (abs_segs (ge_tmp E)) (home (ge_cfg E) (gp_key p)) m"
    by (simp add: calm_def quiet_home [OF ap])
  show "abs_segs (ge_tmp E) \<noteq> []" using ap by (auto simp: apart_def)
qed

lemma run_allure_calm:
  assumes "staged_setting E p"
  shows "calm (abs_segs (ge_tmp E)) (home (ge_cfg E) (gp_key p)) (run_allure_generate E (with_defaults p) (ge_tmp E))"
proof -
  have a: "is_abs (projects_path (ge_cfg E))" "is_abs (ge_tmp E)" "plain (gp_batch p)" "allure_local E (ge_tmp E)"
    using assms by (simp_all add: staged_setting_def)
  have "prefix (abs_segs (ge_tmp E)) (at (ge_tmp E) [''reports'', ''latest''])" using a(2) by (simp add: at_below)
  from within_remove_all [OF this setting_calm(3) [OF assms]]
  have r: "calm (abs_segs (ge_tmp E)) (home (ge_cfg E) (gp_key p)) (remove_all (at (ge_tmp E) [''reports'', ''latest'']))"
    by (rule setting_calm(1) [OF assms])
  have k: "calm (abs_segs (ge_tmp E)) (home (ge_cfg E) (gp_key p)) (keep_history (ge_cfg E) (gp_key p) (gp_batch p))"
    using setting_calm(2) [OF assms keep_history_results] a(1,3) by simp
  show ?thesis
    unfolding run_allure_generate_def defaults_project
    by (intro calm_bind calm_attempt k r setting_calm(1) [OF assms]) (use a(4) in \<open>simp add: allure_local_def\<close>)
qed

lemma resolve_branch_fs: "resolve_branch E p w = (w', br) \<Longrightarrow> w_fs w' = w_fs w"
  using resolve_branch_rows by blast

lemma record_steps_fs [simp]:
  "w_fs (record_branch E p br n w) = w_fs w" "w_fs (record_stats E p n w) = w_fs w" "w_fs (record_ci E p n w) = w_fs w"
  "w_fs (record_environment E p dir n w) = w_fs w" "w_fs (set_latest_build E p br n w) = w_fs w"
  by (simp_all add: record_branch_def record_stats_def record_ci_def record_environment_def set_latest_build_def
      split: option.split sum.split)

lemma playwright_quiet:
  assumes "staged_setting E p"
  shows "quiet (abs_segs (ge_tmp E)) (home (ge_cfg E) (gp_key p)) (w_fs w) (w_fs (copy_playwright_report E (with_defaults p) n w))"
proof -
  have a: "is_abs (projects_path (ge_cfg E))" using assms by (simp add: staged_setting_def)
  obtain w1 r where 1: "on_fs (copy_playwright_latest (ge_cfg E) (gp_key p) n) w = (w1, r)"
    by (cases "on_fs (copy_playwright_latest (ge_cfg E) (gp_key p) n) w")
  have q1: "quiet (abs_segs (ge_tmp E)) (home (ge_cfg E) (gp_key p)) (w_fs w) (w_fs w1)"
    by (rule calm_on_fs [OF setting_calm(2) [OF assms copy_playwright_part [OF a]] 1]) simp
  have "calm (abs_segs (ge_tmp E)) (home (ge_cfg E) (gp_key p)) (clean_playwright_latest (ge_cfg E) (gp_key p))"
    by (rule setting_calm(2) [OF assms clean_playwright_part [OF a]]) simp
  then have "quiet (abs_segs (ge_tmp E)) (home (ge_cfg E) (gp_key p)) (w_fs w1)
      (snd (clean_playwright_latest (ge_cfg E) (gp_key p) (w_fs w1)))" by (simp add: calm_def)
  then show ?thesis using q1 quiet_trans [OF q1]
    by (cases r; cases "fst (playwright_report_exists (ge_cfg E) (gp_key p) n (w_fs w1))")
       (auto simp: copy_playwright_report_def 1 split: bool.split)
qed

lemma persist_quiet:
  assumes "staged_setting E p" and "persist_build E (with_defaults p) br (ge_tmp E) n w = (w', r)"
  shows "quiet (abs_segs (ge_tmp E)) (home (ge_cfg E) (gp_key p)) (w_fs w) (w_fs w')"
proof -
  obtain w1 r1 where 1: "on_fs (publish_report n (ge_tmp E)) w = (w1, r1)" by (cases "on_fs (publish_report n (ge_tmp E)) w")
  have "within (abs_segs (ge_tmp E)) (publish_report n (ge_tmp E))"
    using assms(1) by (intro publish_within) (simp_all add: staged_setting_def)
  from calm_on_fs [OF setting_calm(1) [OF assms(1) this] 1]
  have q1: "quiet (abs_segs (ge_tmp E)) (home (ge_cfg E) (gp_key p)) (w_fs w) (w_fs w1)" .
  have "w_fs w' = w_fs w \<or> w' = w1 \<or> w' = record_published E (with_defaults p) br (ge_tmp E) n w1"
    using assms(2) by (auto simp: persist_build_def store_and_prune_build_def record_build_def 1 split: if_splits sum.splits)
  moreover have "quiet (abs_segs (ge_tmp E)) (home (ge_cfg E) (gp_key p)) (w_fs w1)
      (w_fs (record_published E (with_defaults p) br (ge_tmp E) n w1))"
    using playwright_quiet [OF assms(1), of "record_environment E (with_defaults p) (ge_tmp E) n (record_ci E (with_defaults p) n
      (record_stats E (with_defaults p) n (record_branch E (with_defaults p) br n w1)))" n]
    by (simp add: record_published_def)
  ultimately show ?thesis using q1 quiet_trans [OF q1] by (auto simp only: quiet_refl)
qed

lemma prune_dirs_world_quiet:
  assumes "staged_setting E p" and "prune_dirs (ge_retention E) (gp_key p) ns w = (w', r)"
  shows "quiet (abs_segs (ge_tmp E)) (home (ge_cfg E) (gp_key p)) (w_fs w) (w_fs w')"
  using assms prune_dirs_quiet [of "ge_cfg E" "abs_segs (ge_tmp E)" "gp_key p" "w_fs w" ns]
  by (auto simp: prune_dirs_def staged_setting_def split: prod.splits)

lemma retention_quiet:
  assumes "staged_setting E p"
  shows "quiet (abs_segs (ge_tmp E)) (home (ge_cfg E) (gp_key p)) (w_fs w)
    (w_fs (fst (keep_latest_history (ge_retention E) fails pid (gp_key p) br now w)))"
proof (cases "rc_keep (ge_retention E) \<and> \<not> fails ''PruneBuildsBranch''")
  case False
  then show ?thesis by (simp add: keep_latest_history_def)
next
  case True
  let ?c = "ge_retention E" and ?q = "\<lambda>u v. quiet (abs_segs (ge_tmp E)) (home (ge_cfg E) (gp_key p)) (w_fs u) (w_fs v)"
  obtain w1 ns where 1: "on_builds (prune_builds_branch pid (rc_latest ?c) br) w = (w1, ns)"
    by (cases "on_builds (prune_builds_branch pid (rc_latest ?c) br) w")
  obtain w2 r2 where 2: "prune_dirs ?c (gp_key p) ns w1 = (w2, r2)" by (cases "prune_dirs ?c (gp_key p) ns w1")
  obtain w3 aged where 3: "on_builds (prune_builds_by_age pid (age_cutoff ?c now)) w2 = (w3, aged)"
    by (cases "on_builds (prune_builds_by_age pid (age_cutoff ?c now)) w2")
  obtain w4 r4 where 4: "prune_dirs ?c (gp_key p) aged w3 = (w4, r4)" by (cases "prune_dirs ?c (gp_key p) aged w3")
  obtain w5 stale where 5: "prune_stale fails pid (age_cutoff ?c now) w4 = (w5, stale)"
    by (cases "prune_stale fails pid (age_cutoff ?c now) w4")
  obtain w6 r6 where 6: "prune_dirs ?c (gp_key p) stale w5 = (w6, r6)" by (cases "prune_dirs ?c (gp_key p) stale w5")
  have f: "w_fs w1 = w_fs w" "w_fs w3 = w_fs w2" using on_builds_case [OF 1] on_builds_case [OF 3] by simp_all
  have f5: "w_fs w5 = w_fs w4"
    using 5 on_builds_case [of "prune_stale_branches fails pid (age_cutoff ?c now)" w4 w5 stale]
    by (auto simp: prune_stale_def split: if_splits)
  have q: "?q w w2" "?q w2 w4" "?q w4 w6"
    using prune_dirs_world_quiet [OF assms 2] prune_dirs_world_quiet [OF assms 4] prune_dirs_world_quiet [OF assms 6] f f5
    by simp_all
  have "?q w w4" by (rule quiet_trans [OF q(1,2)])
  moreover have "?q w w6" by (rule quiet_trans [OF calculation q(3)])
  moreover have "fst (keep_latest_history ?c fails pid (gp_key p) br now w) \<in> {w2, w4, w5, w6}
      \<or> fst (keep_latest_history ?c fails pid (gp_key p) br now w) = w2"
    using True by (simp add: keep_latest_history_def 1 2 3 4 5 6 split: sum.split)
  ultimately show ?thesis using q(1) f5 by (auto simp only: insert_iff empty_iff)
qed

lemma staged_run_quiet:
  assumes "staged_setting E p" and "generate_from_local E (with_defaults p) (ge_tmp E) n w = (w', k, r)"
  shows "quiet (abs_segs (ge_tmp E)) (home (ge_cfg E) (gp_key p)) (w_fs w) (w_fs w')"
proof -
  let ?q = "\<lambda>u v. quiet (abs_segs (ge_tmp E)) (home (ge_cfg E) (gp_key p)) (w_fs u) (w_fs v)" and ?p = "with_defaults p"
  have a: "is_abs (projects_path (ge_cfg E))" "is_abs (ge_tmp E)" "plain (gp_batch p)"
    using assms(1) by (simp_all add: staged_setting_def)
  obtain w1 r1 where 1: "on_fs (write_inputs E ?p (ge_tmp E) n) w = (w1, r1)" by (cases "on_fs (write_inputs E ?p (ge_tmp E) n) w")
  obtain w2 r2 where 2: "on_fs (run_allure_generate E ?p (ge_tmp E)) w1 = (w2, r2)" by (cases "on_fs (run_allure_generate E ?p (ge_tmp E)) w1")
  obtain w3 br where 3: "resolve_branch E ?p w2 = (w3, br)" by (cases "resolve_branch E ?p w2")
  obtain w4 r4 where 4: "persist_build E ?p br (ge_tmp E) n w3 = (w4, r4)" by (cases "persist_build E ?p br (ge_tmp E) n w3")
  obtain w5 r5 where 5: "keep_latest_history (ge_retention E) (ge_fails E) (gp_project p) (gp_key p) br (ge_now E) w4 = (w5, r5)"
    by (cases "keep_latest_history (ge_retention E) (ge_fails E) (gp_project p) (gp_key p) br (ge_now E) w4")
  obtain w6 r6 where 6: "on_fs (clean_batch (ge_cfg E) (gp_key p) (gp_batch p)) w5 = (w6, r6)"
    by (cases "on_fs (clean_batch (ge_cfg E) (gp_key p) (gp_batch p)) w5")
  have q1: "?q w w1"
    by (rule calm_on_fs [OF setting_calm(1) [OF assms(1) inputs_within] 1]) (use a in auto)
  have q2: "?q w1 w2" by (rule calm_on_fs [OF run_allure_calm [OF assms(1)] 2])
  have q3: "?q w2 w3" using resolve_branch_fs [OF 3] by simp
  have q4: "?q w3 w4" by (rule persist_quiet [OF assms(1) 4])
  have q5: "?q w4 w5" using retention_quiet [OF assms(1), of w4 "ge_fails E" "gp_project p" br "ge_now E"] by (simp add: 5)
  have q6: "?q w5 w6" by (rule calm_on_fs [OF setting_calm(2) [OF assms(1) clean_batch_results [OF a(1,3)]] 6]) simp
  note c2 = quiet_trans [OF q1 q2] and c4 = quiet_trans [OF quiet_trans [OF quiet_trans [OF q1 q2] q3] q4]
  note c5 = quiet_trans [OF c4 q5] and c6 = quiet_trans [OF quiet_trans [OF c4 q5] q6]
  have "gp_batch p \<noteq> []" using a(3) by (auto simp: plain_def)
  then have "finish_generation E ?p br n w4 = (case r5 of Inl e \<Rightarrow> (w5, Inl (RetentionFailed e)) | Inr _ \<Rightarrow> (w6, Inr (itoa n)))"
    by (simp add: finish_generation_def 5 6 split: sum.split)
  then have "w' \<in> {w1, w2, w4, w5, w6}"
    using assms(2) by (auto simp: generate_from_local_def 1 2 3 4 split: sum.splits)
  then show ?thesis using q1 c2 c4 c5 c6 by (auto simp only: insert_iff empty_iff)
qed

lemma with_reserved_fs:
  assumes "with_reserved E pid run w = (w', r)" and "\<And>n w1 w2 k s. run n w1 = (w2, k, s) \<Longrightarrow> quiet T h (w_fs w1) (w_fs w2)"
  shows "quiet T h (w_fs w) (w_fs w')"
proof (cases "ge_fails E ''AcquireLock''")
  case False
  obtain w1 r1 where 1: "on_builds (reserve_build (ge_others E) pid (ge_now E)) w = (w1, r1)"
    by (cases "on_builds (reserve_build (ge_others E) pid (ge_now E)) w")
  have w1: "w_fs w1 = w_fs w" using on_builds_case [OF 1] by simp
  show ?thesis
  proof (cases r1)
    case (Inr n)
    obtain w2 k s where 2: "run n w1 = (w2, k, s)" by (cases "run n w1")
    have "settle_row E pid n (w2, k, s) = (w', r)" using assms(1) False by (simp add: with_reserved_def 1 Inr 2)
    then have "w_fs w' = w_fs w2" by (auto simp: settle_row_def)
    then show ?thesis using assms(2) [OF 2] w1 by simp
  qed (use assms(1) False 1 w1 in \<open>simp add: with_reserved_def\<close>)
qed (use assms(1) in \<open>simp add: with_reserved_def\<close>)

lemma local_dir_quiet:
  assumes "staged_setting E p" and "generate_local_dir E p (ge_tmp E) w = (w', r)"
  shows "quiet (abs_segs (ge_tmp E)) (home (ge_cfg E) (gp_key p)) (w_fs w) (w_fs w')"
proof (rule with_reserved_fs [OF assms(2) [unfolded generate_local_dir_def]])
  fix n w1 w2 k s
  assume "generate_staged E (with_defaults p) (ge_tmp E) n w1 = (w2, k, s)"
  then have run: "generate_from_local E (with_defaults p) (ge_tmp E) n (fst (on_fs (download_history E (gp_key p) (ge_tmp E)) w1)) = (w2, k, s)"
    by (simp add: generate_staged_def)
  have "calm (abs_segs (ge_tmp E)) (home (ge_cfg E) (gp_key p)) (download_history E (gp_key p) (ge_tmp E))"
    by (rule setting_calm(1) [OF assms(1) download_within]) (use assms(1) setting_calm(3) [OF assms(1)] in \<open>simp_all add: staged_setting_def\<close>)
  then have "quiet (abs_segs (ge_tmp E)) (home (ge_cfg E) (gp_key p)) (w_fs w1)
      (w_fs (fst (on_fs (download_history E (gp_key p) (ge_tmp E)) w1)))" by (simp add: calm_def)
  from quiet_trans [OF this staged_run_quiet [OF assms(1) run]]
  show "quiet (abs_segs (ge_tmp E)) (home (ge_cfg E) (gp_key p)) (w_fs w1) (w_fs w2)" .
qed

section \<open>A staged build without a report\<close>

lemma work_in_temp_spec:
  assumes "work_in_temp E p staging blob w = (w', Inr rid)" and "staged_setting E p" and "rc_keep (ge_retention E)"
    and "ge_others E = []" and "builds_ok (w_builds w)" and "\<not> ge_fails E ''SetLatestBranch''"
  shows "\<exists>w2. generate_local_dir E p (ge_tmp E) w2 = (fst (generate_local_dir E p (ge_tmp E) w2), Inr rid)
    \<and> w_builds w2 = w_builds w \<and> quiet (abs_segs (ge_tmp E)) (home (ge_cfg E) (gp_key p)) (w_fs w) (w_fs w2)
    \<and> w' = fst (on_fs (delete_blob (ge_cfg E) staging) (fst (generate_local_dir E p (ge_tmp E) w2)))"
proof -
  let ?T = "abs_segs (ge_tmp E)" and ?h = "home (ge_cfg E) (gp_key p)"
  let ?dst = "join_path [ge_tmp E, ''results'', gp_batch p]"
  let ?opts = "\<lparr>max_decompressed_bytes = default_max_decompressed_bytes,
            max_file_count = (if 0 < ge_max_files E then ge_max_files E else default_max_archive_file_count)\<rparr>"
  have a: "is_abs (ge_tmp E)" "plain (gp_batch p)" using assms(2) by (simp_all add: staged_setting_def)
  have dst: "abs_segs ?dst = ?T @ [''results'', gp_batch p]" "is_abs ?dst"
    using join_path_down [OF a(1), of "[''results'', gp_batch p]"] a(2) by simp_all
  obtain w1 r1 where 1: "on_fs (mkdir_all (abs_segs ?dst)) w = (w1, r1)" by (cases "on_fs (mkdir_all (abs_segs ?dst)) w")
  have ok1: "r1 = Inr ()" using assms(1) 1 by (cases r1) (auto simp: work_in_temp_def Let_def)
  obtain r2 fs where 2: "extract_to_dir ?dst ?opts (ge_archive E blob) (w_fs w1) = (r2, fs)"
    by (cases "extract_to_dir ?dst ?opts (ge_archive E blob) (w_fs w1)")
  obtain w3 r3 where 3: "generate_local_dir E p (ge_tmp E) (w1\<lparr>w_fs := fs\<rparr>) = (w3, r3)"
    by (cases "generate_local_dir E p (ge_tmp E) (w1\<lparr>w_fs := fs\<rparr>)")
  obtain ns where ok2: "r2 = Inr ns" using assms(1) 1 ok1 2 by (cases r2) (auto simp: work_in_temp_def Let_def)
  have ok3: "r3 = Inr rid" "w' = fst (on_fs (delete_blob (ge_cfg E) staging) w3)"
    using assms(1) by (auto simp: work_in_temp_def Let_def 1 ok1 2 ok2 3 split: sum.splits)
  have "within ?T (mkdir_all (abs_segs ?dst))" by (intro within_intros) (simp add: dst)
  from calm_on_fs [OF setting_calm(1) [OF assms(2) this] 1] have q1: "quiet ?T ?h (w_fs w) (w_fs w1)" .
  have "within ?T (\<lambda>fs. (Inr (), snd (extract_to_dir ?dst ?opts (ge_archive E blob) fs)))"
    by (rule extract_within [OF dst(2)]) (simp add: dst)
  from setting_calm(1) [OF assms(2) this] have "quiet ?T ?h (w_fs w1) fs"
    unfolding calm_def by (drule_tac x = "w_fs w1" in spec) (simp add: 2)
  then have "quiet ?T ?h (w_fs w) (w_fs (w1\<lparr>w_fs := fs\<rparr>))" using quiet_trans [OF q1] by simp
  moreover have "w_builds (w1\<lparr>w_fs := fs\<rparr>) = w_builds w" using on_fs_case [OF 1] by simp
  ultimately show ?thesis using 3 ok3 by (intro exI [of _ "w1\<lparr>w_fs := fs\<rparr>"]) simp
qed

lemma make_temp_within: "p \<noteq> [] \<Longrightarrow> within p (make_temp p)"
  by (auto simp: within_def make_temp_def node_at_update)

lemma removing_one: "removing (remove_one p)"
  unfolding removing_def
proof (intro allI)
  fix fs q
  have f: "snd (remove_one p fs) = fs \<or> snd (remove_one p fs) = filter (\<lambda>e. fst e \<noteq> p) fs"
    by (simp add: remove_one_def split: option.split)
  have "node_at q (filter (\<lambda>e. fst e \<noteq> p) fs) = (if q \<noteq> p then node_at q fs else None)" if "q \<noteq> []"
    using node_at_filter [OF that, of "\<lambda>r. r \<noteq> p"] by simp
  then show "node_at q (snd (remove_one p fs)) = None \<or> node_at q (snd (remove_one p fs)) = node_at q fs"
    using f by (cases "q = []"; elim disjE) simp_all
qed

lemma removing_blob: "removing (delete_blob c key)"
  unfolding delete_blob_def
proof (rule removing_bind)
  show "removing (attempt_io (remove_one (at (projects_path c) [key])))"
    using removing_one by (simp add: removing_def)
qed (auto simp: removing_def ret_def throw_def split: sum.split io_error.split)

lemma removing_gone: "removing m \<Longrightarrow> node_at q fs = None \<Longrightarrow> node_at q (snd (m fs)) = None"
  unfolding removing_def by metis

text \<open>C2: With the local store an asynchronous upload loses its report.  The job answers with the number of the
  build, the row of the build is in place and the latest of the project, and the project has no directory for the
  report: \<open>LocalStore.PublishReport\<close> ignores the storage key and publishes into the directory it is given, here the
  worker's temporary directory, which the worker removes.\<close>

theorem staged_report_lost:
  assumes "parse_staged E p staging w = (w', Inr rid)" and "staged_setting E p"
    and "grounded (abs_segs (ge_tmp E)) (home (ge_cfg E) (gp_key p)) (w_fs w)"
    and "rc_keep (ge_retention E)" and "ge_others E = []" and "builds_ok (w_builds w)" and "\<not> ge_fails E ''SetLatestBranch''"
    and "node_at (home (ge_cfg E) (gp_key p) @ [''reports'', itoa (max_number (gp_project p) (w_builds w) + 1)]) (w_fs w) = None"
  shows "rid = itoa (max_number (gp_project p) (w_builds w) + 1)
    \<and> has_newest (gp_project p) (max_number (gp_project p) (w_builds w) + 1) (latest_at (ge_now E)) (w_builds w')
    \<and> node_at (home (ge_cfg E) (gp_key p) @ [''reports'', rid]) (w_fs w') = None"
proof -
  let ?T = "abs_segs (ge_tmp E)" and ?h = "home (ge_cfg E) (gp_key p)" and ?n = "max_number (gp_project p) (w_builds w) + 1"
  have T: "?T \<noteq> []" by (rule setting_calm(3) [OF assms(2)])
  obtain w1 r1 where 1: "on_fs (open_blob (ge_cfg E) staging) w = (w1, r1)" by (cases "on_fs (open_blob (ge_cfg E) staging) w")
  obtain blob where b: "r1 = Inr blob" using assms(1) 1 by (cases r1) (auto simp: parse_staged_def)
  obtain w2 r2 where 2: "on_fs (make_temp ?T) w1 = (w2, r2)" by (cases "on_fs (make_temp ?T) w1")
  have r2: "r2 = Inr ()" using assms(1) 1 b 2 by (cases r2) (auto simp: parse_staged_def)
  obtain w3 r3 where 3: "work_in_temp E p staging blob w2 = (w3, r3)" by (cases "work_in_temp E p staging blob w2")
  have w': "r3 = Inr rid" "w' = fst (on_fs (remove_all ?T) w3)" using assms(1) by (auto simp: parse_staged_def 1 b 2 r2 3)
  have f1: "w_fs w1 = w_fs w" "w_builds w2 = w_builds w"
    using on_fs_case [OF 1] on_fs_case [OF 2] by (simp_all add: open_blob_def read_file_def split: option.splits node.splits)
  have q2: "quiet ?T ?h (w_fs w) (w_fs w2)"
    using calm_on_fs [OF setting_calm(1) [OF assms(2) make_temp_within [OF T]] 2] f1 by simp
  obtain w4 where 4: "generate_local_dir E p (ge_tmp E) w4 = (fst (generate_local_dir E p (ge_tmp E) w4), Inr rid)"
      "w_builds w4 = w_builds w2" "quiet ?T ?h (w_fs w2) (w_fs w4)"
      "w3 = fst (on_fs (delete_blob (ge_cfg E) staging) (fst (generate_local_dir E p (ge_tmp E) w4)))"
    using work_in_temp_spec [OF 3 [unfolded w'(1)] assms(2,4,5) _ assms(7)] assms(6) f1(2) by auto
  let ?w5 = "fst (generate_local_dir E p (ge_tmp E) w4)"
  have row: "rid = itoa ?n \<and> has_newest (gp_project p) ?n (latest_at (ge_now E)) (w_builds ?w5)"
    using local_dir_row [OF 4(1) assms(4,5) _ assms(7)] 4(2) f1(2) assms(6) by simp
  have q5: "quiet ?T ?h (w_fs w) (w_fs ?w5)"
    by (rule quiet_trans [OF quiet_trans [OF q2 4(3)] local_dir_quiet [OF assms(2) 4(1)]])
  then have gone: "node_at (?h @ [''reports'', itoa ?n]) (w_fs ?w5) = None"
    using assms(3,8) by (auto simp: quiet_def dest!: spec [of _ "?h @ [''reports'', itoa ?n]"])
  have "removing (delete_blob (ge_cfg E) staging)"
    by (rule removing_blob)
  from removing_gone [OF this gone] have "node_at (?h @ [''reports'', itoa ?n]) (w_fs w3) = None" using 4(4) by simp
  from removing_gone [OF removing_all [OF T] this] have "node_at (?h @ [''reports'', itoa ?n]) (w_fs w') = None" using w'(2) by simp
  then show ?thesis using row 4(4) w'(2) by simp
qed

section \<open>Witnesses\<close>

text \<open>A program that writes one file, a project \<open>k\<close> with one build, and an archive waiting in the staging area.\<close>

definition demo_allure :: "string \<Rightarrow> string \<Rightarrow> unit io" where
  "demo_allure dir input = bind_io (mkdir_all (at dir [''reports'', ''latest'', ''data'']))
     (\<lambda>_. write_file (at dir [''reports'', ''latest'', ''data'', ''f'']) ''x'')"

definition demo_gen :: gen_env where
  "demo_gen = \<lparr>ge_retention = demo_retention, ge_fails = (\<lambda>_. False), ge_others = [], ge_now = 500, ge_allure = demo_allure,
     ge_stats = \<lparr>dec_summary = (\<lambda>_. None), dec_statistic = (\<lambda>_. None), dec_times = (\<lambda>_. None)\<rparr>,
     ge_stability = (\<lambda>_. None), ge_json = (\<lambda>_. ''{}''), ge_archive = (\<lambda>_. demo_archive), ge_max_files = 0,
     ge_tmp = ''/t/s'', ge_check_every = ''NONE''\<rparr>"

definition demo_params :: gen_params where
  "demo_params = (empty_params 1 ''k'' ''k'')\<lparr>gp_batch := ''b1'', gp_store := True\<rparr>"

definition demo_site :: world where
  "demo_site = demo_world\<lparr>w_fs := [([''p''], Dir), ([''p'', ''k''], Dir), ([''p'', ''k'', ''results''], Dir),
     ([''p'', ''k'', ''results'', ''b1''], Dir), ([''p'', ''staging''], Dir), ([''p'', ''staging'', ''b1''], File ''z''), ([''t''], Dir)]\<rparr>"

lemma demo_site_builds: "builds_ok (w_builds demo_site)" "\<not> ge_fails demo_gen ''SetLatestBranch''"
  "rc_keep (ge_retention demo_gen)" "ge_others demo_gen = []" "w_builds demo_site = demo_builds"
  using demo_builds_ok by (simp_all add: demo_site_def demo_world_def demo_gen_def demo_retention_def)

lemma demo_max: "max_number 1 demo_builds + 1 = 3"
  by code_simp

theorem generated_build_recorded_witness:
  "snd (generate_report demo_gen demo_params demo_site) = Inr ''3''
   \<and> has_newest 1 3 (latest_at 500) (w_builds (fst (generate_report demo_gen demo_params demo_site)))"
proof -
  let ?r = "generate_report demo_gen demo_params demo_site"
  have s: "snd ?r = Inr ''3''" by code_simp
  then have r: "?r = (fst ?r, Inr ''3'')" by (metis prod.collapse)
  have "gp_project demo_params = 1" "ge_now demo_gen = 500" by (simp_all add: demo_params_def empty_params_def demo_gen_def)
  then show ?thesis
    using generated_build_recorded [OF r demo_site_builds(3,4,1,2)] s by (simp add: demo_site_builds(5) demo_max)
qed

definition demo_unkept :: gen_env where
  "demo_unkept = demo_gen\<lparr>ge_retention := demo_retention\<lparr>rc_keep := False\<rparr>\<rparr>"

theorem dropped_generation_leaves_rows_witness:
  "snd (generate_report demo_unkept demo_params demo_site) = Inr ''3''
   \<and> build_rows (w_builds (fst (generate_report demo_unkept demo_params demo_site))) = build_rows (w_builds demo_site)"
proof -
  let ?r = "generate_report demo_unkept demo_params demo_site"
  have s: "snd ?r = Inr ''3''" by code_simp
  then have r: "?r = (fst ?r, Inr ''3'')" by (metis prod.collapse)
  have "build_rows (w_builds (fst ?r)) = build_rows (w_builds demo_site)"
    by (rule dropped_generation_leaves_rows [OF r]) (simp_all add: row_dropped_def demo_unkept_def demo_gen_def demo_retention_def)
  with s show ?thesis ..
qed

lemma demo_gen_allure: "ge_allure demo_gen = demo_allure"
  by (simp add: demo_gen_def)

lemma demo_names:
  assumes "is_abs dir"
  shows "prefix (abs_segs dir) (at dir [''reports'', ''latest'', ''data''])"
    and "prefix (abs_segs dir) (at dir [''reports'', ''latest'', ''data'', ''f''])"
proof -
  have "plain ''f''" by (simp add: plain_def)
  then show "prefix (abs_segs dir) (at dir [''reports'', ''latest'', ''data''])"
      "prefix (abs_segs dir) (at dir [''reports'', ''latest'', ''data'', ''f''])"
    using assms by (simp_all add: at_below)
qed

lemma demo_setting: "staged_setting demo_gen demo_params"
  and demo_grounded: "grounded (abs_segs (ge_tmp demo_gen)) (home (ge_cfg demo_gen) (gp_key demo_params)) (w_fs demo_site)"
  and demo_home: "home (ge_cfg demo_gen) (gp_key demo_params) = [''p'', ''k'']"
proof -
  have t: "abs_segs (ge_tmp demo_gen) = [''t'', ''s'']" "is_abs (ge_tmp demo_gen)" "is_abs (projects_path (ge_cfg demo_gen))"
    and h: "home (ge_cfg demo_gen) (gp_key demo_params) = [''p'', ''k'']" and b: "gp_batch demo_params = ''b1''"
    by code_simp+
  have "allure_local demo_gen (ge_tmp demo_gen)"
    unfolding allure_local_def
    by (auto simp: demo_allure_def demo_names [OF t(2)] demo_gen_allure intro!: within_intros)
  then show "staged_setting demo_gen demo_params"
    using t h b by (simp add: staged_setting_def apart_def plain_def)
  show "grounded (abs_segs (ge_tmp demo_gen)) (home (ge_cfg demo_gen) (gp_key demo_params)) (w_fs demo_site)"
    by (auto simp: t h grounded_def above_ok_def strict_prefix_def prefix_Cons demo_site_def node_at_def)
  show "home (ge_cfg demo_gen) (gp_key demo_params) = [''p'', ''k'']" by (rule h)
qed

text \<open>The world once the archive is unpacked.\<close>

definition demo_unpacked :: world where
  "demo_unpacked = demo_site\<lparr>w_fs := w_fs demo_site @ [([''t'', ''s''], Dir), ([''t'', ''s'', ''results''], Dir),
     ([''t'', ''s'', ''results'', ''b1''], Dir), ([''t'', ''s'', ''results'', ''b1'', ''b.json''], File ''xy''),
     ([''t'', ''s'', ''results'', ''b1'', ''a.json''], File ''z'')]\<rparr>"

lemma demo_staged_steps:
  "on_fs (open_blob (ge_cfg demo_gen) ''staging/b1'') demo_site = (demo_site, Inr ''z'')"
  "on_fs (make_temp (abs_segs (ge_tmp demo_gen))) demo_site = (demo_site\<lparr>w_fs := take 8 (w_fs demo_unpacked)\<rparr>, Inr ())"
  "on_fs (mkdir_all (abs_segs (join_path [ge_tmp demo_gen, ''results'', ''b1'']))) (demo_site\<lparr>w_fs := take 8 (w_fs demo_unpacked)\<rparr>)
    = (demo_site\<lparr>w_fs := take 10 (w_fs demo_unpacked)\<rparr>, Inr ())"
  "extract_to_dir (join_path [ge_tmp demo_gen, ''results'', ''b1'']) \<lparr>max_decompressed_bytes = default_max_decompressed_bytes,
      max_file_count = default_max_archive_file_count\<rparr> (ge_archive demo_gen ''z'') (take 10 (w_fs demo_unpacked))
    = (Inr [''a.json'', ''b.json''], w_fs demo_unpacked)"
  by code_simp+

lemma demo_staged_rest: "snd (generate_local_dir demo_gen demo_params (ge_tmp demo_gen) demo_unpacked) = Inr ''3''"
  by code_simp

lemma demo_staged: "snd (parse_staged demo_gen demo_params ''staging/b1'' demo_site) = Inr ''3''"
proof -
  obtain w where w: "generate_local_dir demo_gen demo_params (ge_tmp demo_gen) demo_unpacked = (w, Inr ''3'')"
    using demo_staged_rest by (metis prod.collapse)
  have "demo_site\<lparr>w_fs := w_fs demo_unpacked\<rparr> = demo_unpacked" "gp_batch demo_params = ''b1''" "ge_max_files demo_gen = 0"
    by (simp_all add: demo_unpacked_def demo_params_def demo_gen_def)
  then show ?thesis by (simp add: parse_staged_def work_in_temp_def Let_def demo_staged_steps w)
qed

theorem staged_report_lost_witness:
  "snd (parse_staged demo_gen demo_params ''staging/b1'' demo_site) = Inr ''3''
   \<and> has_newest 1 3 (latest_at 500) (w_builds (fst (parse_staged demo_gen demo_params ''staging/b1'' demo_site)))
   \<and> node_at [''p'', ''k'', ''reports'', ''3''] (w_fs (fst (parse_staged demo_gen demo_params ''staging/b1'' demo_site))) = None"
proof -
  let ?r = "parse_staged demo_gen demo_params ''staging/b1'' demo_site"
  note s = demo_staged
  then have r: "?r = (fst ?r, Inr ''3'')" by (metis prod.collapse)
  have p: "gp_project demo_params = 1" "ge_now demo_gen = 500" by (simp_all add: demo_params_def empty_params_def demo_gen_def)
  have i: "itoa 3 = ''3''" by code_simp
  have "node_at [''p'', ''k'', ''reports'', ''3''] (w_fs demo_site) = None" by code_simp
  then show ?thesis
    using staged_report_lost [OF r demo_setting demo_grounded demo_site_builds(3,4,1,2)] s
    by (simp add: p demo_home demo_site_builds(5) demo_max i)
qed

end
