(* ===== verification/Projects.thy ===== *)
theory Projects
  imports ProjectAccess LocalStore
begin

text \<open>
  Projects: the statements of \<open>store/pg/project.go\<close> on the table with the indexes and the trigger of the
  migrations (0031, 0034), the handlers of \<open>handlers/project_handler.go\<close> and \<open>handlers/project_parent.go\<close>
  over the table and the local storage, and the registration step of \<open>runner/watcher.go\<close>.

  A request is one step; where the code checks in one statement and writes in another, the two steps are
  definitions of their own.
\<close>

section \<open>The table\<close>

record project = project_row +
  pj_key :: string
  pj_name :: string
  pj_type :: string
  pj_created :: time

record project_db =
  project_rows :: "project list"
  next_project_id :: int

datatype project_error = ErrProjectExists | ErrProjectNotFound | ErrProjectDb

text \<open>The trigger \<open>trg_no_nested_parent\<close>: it looks upwards only.\<close>

definition nested_parent :: "project list \<Rightarrow> int option \<Rightarrow> bool" where
  "nested_parent rows par = (case par of None \<Rightarrow> False
     | Some i \<Rightarrow> list_ex (\<lambda>r. pj_id r = i \<and> pj_parent r \<noteq> None) rows)"

text \<open>The unique indexes: a slug among the top-level projects, a slug under a parent, a storage key.\<close>

definition unique_projects :: "project list \<Rightarrow> bool" where
  "unique_projects rows \<longleftrightarrow>
     distinct (map pj_slug (filter (\<lambda>r. pj_parent r = None) rows)) \<and>
     distinct (map (\<lambda>r. (pj_parent r, pj_slug r)) (filter (\<lambda>r. pj_parent r \<noteq> None) rows)) \<and>
     distinct (map pj_key rows)"

definition parents_exist :: "project list \<Rightarrow> bool" where
  "parents_exist rows = list_all (\<lambda>r. case pj_parent r of None \<Rightarrow> True | Some i \<Rightarrow> i \<in> pj_id ` set rows) rows"

definition exec_insert_project :: "project_db \<Rightarrow> project \<Rightarrow> project_db \<times> (project_error + project)" where
  "exec_insert_project db p =
     (let p' = p\<lparr>pj_id := next_project_id db\<rparr>;
          rows = project_rows db @ [p'];
          db' = db\<lparr>next_project_id := next_project_id db + 1\<rparr>
      in if nested_parent (project_rows db) (pj_parent p) then (db', Inl ErrProjectDb)
         else if \<not> unique_projects rows then (db', Inl ErrProjectExists)
         else if \<not> parents_exist rows then (db', Inl ErrProjectDb)
         else (db'\<lparr>project_rows := rows\<rparr>, Inr p'))"

text \<open>One UPDATE of the row with an id; \<open>on_unique\<close> is the error the caller makes of a unique violation.\<close>

definition exec_update_project ::
  "project_error \<Rightarrow> project_db \<Rightarrow> int \<Rightarrow> (project \<Rightarrow> project) \<Rightarrow> project_db \<times> (project_error + unit)" where
  "exec_update_project on_unique db i f =
     (let rows = tbl_update (\<lambda>r. pj_id r = i) f (project_rows db)
      in if i \<notin> pj_id ` set (project_rows db) then (db, Inl ErrProjectNotFound)
         else if \<not> unique_projects rows then (db, Inl on_unique)
         else if \<not> parents_exist rows then (db, Inl ErrProjectDb)
         else (db\<lparr>project_rows := rows\<rparr>, Inr ()))"

section \<open>Statements\<close>

definition insert_project :: "time \<Rightarrow> string \<Rightarrow> project_db \<Rightarrow> project_db \<times> (project_error + project)" where
  "insert_project now slug db = exec_insert_project db
     \<lparr>pj_id = 0, pj_slug = slug, pj_parent = None, pj_key = slug, pj_name = slug, pj_type = ''allure'', pj_created = now\<rparr>"

text \<open>A child is inserted under a placeholder key, which a second statement replaces by its id.\<close>

definition insert_child_row :: "time \<Rightarrow> string \<Rightarrow> int \<Rightarrow> project_db \<Rightarrow> project_db \<times> (project_error + project)" where
  "insert_child_row now slug par db = exec_insert_project db
     \<lparr>pj_id = 0, pj_slug = slug, pj_parent = Some par, pj_key = ''0'', pj_name = slug, pj_type = ''allure'', pj_created = now\<rparr>"

definition set_storage_key :: "int \<Rightarrow> project_db \<Rightarrow> project_db \<times> (project_error + unit)" where
  "set_storage_key i db = (case exec_update_project ErrProjectDb db i (\<lambda>p. p\<lparr>pj_key := itoa i\<rparr>) of
     (db', Inl ErrProjectNotFound) \<Rightarrow> (db', Inr ()) | r \<Rightarrow> r)"

definition insert_project_with_parent ::
  "bool \<Rightarrow> time \<Rightarrow> string \<Rightarrow> int \<Rightarrow> project_db \<Rightarrow> project_db \<times> (project_error + project)" where
  "insert_project_with_parent lost now slug par db =
     (case insert_child_row now slug par db of
        (db1, Inl e) \<Rightarrow> (db1, Inl e)
      | (db1, Inr p) \<Rightarrow>
          if lost then (db1, Inl ErrProjectDb)
          else case set_storage_key (pj_id p) db1 of
            (db2, Inl e) \<Rightarrow> (db2, Inl e)
          | (db2, Inr _) \<Rightarrow> (db2, Inr (p\<lparr>pj_key := itoa (pj_id p)\<rparr>)))"

definition get_project :: "int \<Rightarrow> project_db \<Rightarrow> project option" where
  "get_project i db = tbl_find (\<lambda>r. pj_id r = i) (project_rows db)"

definition get_project_by_slug :: "string \<Rightarrow> project_db \<Rightarrow> project option" where
  "get_project_by_slug s db = tbl_find (\<lambda>r. pj_slug r = s \<and> pj_parent r = None) (project_rows db)"

definition list_project_rows :: "project_db \<Rightarrow> project list" where
  "list_project_rows db = sort_key pj_id (project_rows db)"

definition list_projects_page :: "bool \<Rightarrow> int \<Rightarrow> int \<Rightarrow> project_db \<Rightarrow> (project_error + (project list \<times> int))" where
  "list_projects_page only_top page per db =
     (let rows = (if only_top then filter (\<lambda>p. pj_parent p = None) (project_rows db) else project_rows db);
          off = page_offset page per
      in if off < 0 then Inl ErrProjectDb
         else Inr (take (nat per) (drop (nat off) (sort_key pj_id rows)), int (length rows)))"

definition list_children :: "int \<Rightarrow> project_db \<Rightarrow> project list" where
  "list_children i db = sort_key pj_id (filter (\<lambda>r. pj_parent r = Some i) (project_rows db))"

definition has_children :: "int \<Rightarrow> project_db \<Rightarrow> bool" where
  "has_children i db = list_ex (\<lambda>r. pj_parent r = Some i) (project_rows db)"

definition set_parent_row :: "int \<Rightarrow> int \<Rightarrow> project_db \<Rightarrow> project_db \<times> (project_error + unit)" where
  "set_parent_row i par db =
     (if i \<in> pj_id ` set (project_rows db) \<and> nested_parent (project_rows db) (Some par) then (db, Inl ErrProjectDb)
      else exec_update_project ErrProjectDb db i (\<lambda>p. p\<lparr>pj_parent := Some par\<rparr>))"

definition clear_parent_row :: "int \<Rightarrow> project_db \<Rightarrow> project_db \<times> (project_error + unit)" where
  "clear_parent_row i db = exec_update_project ErrProjectDb db i (\<lambda>p. p\<lparr>pj_parent := None\<rparr>)"

definition rename_project_row :: "int \<Rightarrow> string \<Rightarrow> project_db \<Rightarrow> project_db \<times> (project_error + unit)" where
  "rename_project_row i s db = exec_update_project ErrProjectExists db i
     (\<lambda>p. p\<lparr>pj_slug := s, pj_name := s, pj_key := (if pj_parent p = None then s else pj_key p)\<rparr>)"

definition set_report_type :: "int \<Rightarrow> string \<Rightarrow> project_db \<Rightarrow> project_db" where
  "set_report_type i t db = db\<lparr>project_rows := tbl_update (\<lambda>r. pj_id r = i) (\<lambda>p. p\<lparr>pj_type := t\<rparr>) (project_rows db)\<rparr>"

text \<open>\<open>ON DELETE CASCADE\<close> on \<open>parent_id\<close>: the rows whose parent goes, and theirs in turn.\<close>

function cascade_ids :: "project list \<Rightarrow> int list \<Rightarrow> int list" where
  "cascade_ids rows dead =
     (let more = filter (\<lambda>r. pj_id r \<notin> set dead \<and> (\<exists>i \<in> set dead. pj_parent r = Some i)) rows
      in if more = [] then dead else cascade_ids rows (dead @ map pj_id more))"
  by pat_completeness auto
termination
proof (relation "measure (\<lambda>(rows, dead). length (filter (\<lambda>r. pj_id r \<notin> set dead) rows))")
  fix rows dead and more :: "project list"
  assume more: "more = filter (\<lambda>r. pj_id r \<notin> set dead \<and> (\<exists>i \<in> set dead. pj_parent r = Some i)) rows" and ne: "more \<noteq> []"
  let ?live = "filter (\<lambda>r. pj_id r \<notin> set dead) rows"
  obtain r where r: "r \<in> set more" using ne by (cases more) auto
  have "filter (\<lambda>r. pj_id r \<notin> set (dead @ map pj_id more)) rows = filter (\<lambda>r. pj_id r \<notin> pj_id ` set more) ?live"
    by (auto intro: filter_cong)
  also have "length \<dots> < length ?live" using r more by (intro length_filter_less [where x = r]) auto
  finally show "((rows, dead @ map pj_id more), rows, dead)
      \<in> measure (\<lambda>(rows, dead). length (filter (\<lambda>r. pj_id r \<notin> set dead) rows))" by simp
qed simp

declare cascade_ids.simps [simp del]

definition drop_project :: "int \<Rightarrow> project_db \<Rightarrow> project_db \<times> (project_error + unit)" where
  "drop_project i db =
     (if i \<notin> pj_id ` set (project_rows db) then (db, Inl ErrProjectNotFound)
      else let dead = cascade_ids (project_rows db) [i]
           in (db\<lparr>project_rows := filter (\<lambda>r. pj_id r \<notin> set dead) (project_rows db)\<rparr>, Inr ()))"

definition insert_or_ignore :: "time \<Rightarrow> string \<Rightarrow> project_db \<Rightarrow> project_db \<times> (project_error + unit)" where
  "insert_or_ignore now slug db =
     (if slug \<in> pj_slug ` set (project_rows db) then (db, Inr ())
      else case insert_project now slug db of (db', Inl _) \<Rightarrow> (db', Inl ErrProjectDb) | (db', Inr _) \<Rightarrow> (db', Inr ()))"

section \<open>Requests\<close>

text \<open>The table and the file system; the body of a reply.\<close>

record project_srv =
  ps_db :: project_db
  ps_fs :: fs

record project_entry =
  en_id :: int
  en_slug :: string
  en_key :: string
  en_name :: string
  en_type :: string
  en_created :: "time option"
  en_parent :: "int option"
  en_children :: "int list"

datatype project_body =
    PEntry project_entry
  | PPage "project_entry list" page_meta
  | PIndex "project_entry list"
  | PChildren "project list"
  | PParent int "int option"
  | PDeleted int
  | PRenamed int string string

definition validate_project_id :: "string \<Rightarrow> string option" where
  "validate_project_id s =
     (if s = [] then Some ''project_id is required''
      else if 100 < length s then Some ''project_id must not exceed 100 characters''
      else if list_all is_digit s then Some ''project_id must contain at least one letter''
      else if bad_slug s then Some ''project_id contains invalid characters''
      else if s \<in> set reserved_project_names \<or> s = ''staging'' then Some (reserved_text s)
      else None)"

definition entry_of :: "int list \<Rightarrow> project \<Rightarrow> project_entry" where
  "entry_of kids p = \<lparr>en_id = pj_id p, en_slug = pj_slug p, en_key = pj_key p,
     en_name = (if pj_name p = [] then pj_slug p else pj_name p), en_type = pj_type p,
     en_created = Some (pj_created p), en_parent = pj_parent p, en_children = kids\<rparr>"

definition children_of :: "project list \<Rightarrow> int \<Rightarrow> int list" where
  "children_of ps i = map pj_id (filter (\<lambda>p. pj_parent p = Some i) ps)"

definition entries_of :: "project list \<Rightarrow> project_entry list" where
  "entries_of ps = map (\<lambda>p. entry_of (children_of ps (pj_id p)) p) ps"

definition get_projects :: "ctx \<Rightarrow> (string \<Rightarrow> string) \<Rightarrow> project_db \<Rightarrow> project_body http_reply" where
  "get_projects q query db =
     (let pg = parse_pagination query;
          page = (\<lambda>ps n. ok 200 ''Projects successfully obtained''
            (PPage (entries_of ps) (new_pagination_meta (pg_page pg) (pg_per_page pg) n)))
      in if query ''parent_id'' \<noteq> []
         then case parse_int (query ''parent_id'') of
             None \<Rightarrow> err 400 ''parent_id must be a numeric ID''
           | Some i \<Rightarrow> if c_fails q ''projects.ListChildren'' then err 500 ''error listing children''
               else page (list_children i db) (int (length (list_children i db)))
         else if c_fails q ''projects.ListProjectsPaginated'' then err 500 ''error listing projects''
         else case list_projects_page (query ''top_level'' = ''true'') (pg_page pg) (pg_per_page pg) db of
             Inl _ \<Rightarrow> err 500 ''error listing projects''
           | Inr (ps, n) \<Rightarrow> page ps n)"

definition get_project_index :: "ctx \<Rightarrow> project_db \<Rightarrow> project_body http_reply" where
  "get_project_index q db =
     (if c_fails q ''projects.ListProjects'' then err 500 ''error listing projects''
      else ok 200 ''Project index successfully obtained'' (PIndex (entries_of (list_project_rows db))))"

text \<open>\<open>Allure.CreateProject\<close> of \<open>runner/allure.go\<close>.\<close>

abbreviation dir_exists :: io_error where
  "dir_exists \<equiv> Failed ''project already exists''"

definition alloc_storage :: "local_cfg \<Rightarrow> string \<Rightarrow> unit io" where
  "alloc_storage c key = bind_io (project_exists c key) (\<lambda>ex.
     if ex then throw dir_exists else create_project c key)"

text \<open>The insert of a creation: \<open>None\<close> is a project at the top.\<close>

definition register_project :: "ctx \<Rightarrow> string \<Rightarrow> int option \<Rightarrow> project_db \<Rightarrow> project_db \<times> (project_error + project)" where
  "register_project q slug par db =
     (if c_fails q ''projects.CreateProject'' then (db, Inl ErrProjectDb)
      else case par of
        None \<Rightarrow> insert_project (c_now q) slug db
      | Some i \<Rightarrow> insert_project_with_parent (c_fails q ''projects.SetStorageKey'') (c_now q) slug i db)"

definition create_project_request ::
  "ctx \<Rightarrow> local_cfg \<Rightarrow> (string \<times> int option) option \<Rightarrow> project_srv \<Rightarrow> project_srv \<times> project_body http_reply" where
  "create_project_request q c req s =
     (case req of
        None \<Rightarrow> (s, err 400 ''Invalid JSON payload'')
      | Some (name, par) \<Rightarrow>
        (let slug = trim_space name
         in case validate_project_id slug of
              Some e \<Rightarrow> (s, err 400 e)
            | None \<Rightarrow>
              (case register_project q slug par (ps_db s) of
                 (db, Inl ErrProjectExists) \<Rightarrow> (s\<lparr>ps_db := db\<rparr>, err 409 (''project already exists: '' @ slug))
               | (db, Inl _) \<Rightarrow> (s\<lparr>ps_db := db\<rparr>, err 500 ''error creating project'')
               | (db, Inr p) \<Rightarrow>
                 (case alloc_storage c (pj_key p) (ps_fs s) of
                    (r, fs) \<Rightarrow>
                      (s\<lparr>ps_db := db, ps_fs := fs\<rparr>,
                       if r = Inr () \<or> r = Inl dir_exists
                       then ok 201 ''Project successfully created''
                         (PEntry \<lparr>en_id = pj_id p, en_slug = slug, en_key = pj_key p, en_name = slug, en_type = [],
                            en_created = None, en_parent = par, en_children = []\<rparr>)
                       else err 500 ''error creating project'')))))"

definition get_project_request :: "ctx \<Rightarrow> string \<Rightarrow> project_db \<Rightarrow> project_body http_reply" where
  "get_project_request q v db =
     (case resolve_project_int_id q (Some (project_rows db)) v of
        Inl (c, m) \<Rightarrow> err c m
      | Inr i \<Rightarrow>
          if c_fails q ''projects.GetProject'' then err 500 ''error fetching project''
          else case get_project i db of
            None \<Rightarrow> err 404 ''project not found''
          | Some p \<Rightarrow> ok 200 ''Project successfully obtained''
              (PEntry (entry_of (if c_fails q ''projects.ListChildren'' then [] else map pj_id (list_children i db)) p)))"

definition delete_project_request ::
  "ctx \<Rightarrow> local_cfg \<Rightarrow> string \<Rightarrow> project_srv \<Rightarrow> project_srv \<times> project_body http_reply" where
  "delete_project_request q c v s =
     (case resolve_project_int_id q (Some (project_rows (ps_db s))) v of
        Inl (code, m) \<Rightarrow> (s, err code m)
      | Inr i \<Rightarrow>
          if c_fails q ''projects.GetProject'' then (s, err 500 ''error fetching project'')
          else case get_project i (ps_db s) of
            None \<Rightarrow> (s, err 404 (''project_id '' @ itoa i @ '' not found''))
          | Some p \<Rightarrow>
            (let row = (if c_fails q ''projects.DeleteProject'' then (ps_db s, Inl ErrProjectDb) else drop_project i (ps_db s));
                 done = ok 200 ''Project successfully deleted'' (PDeleted i)
             in case delete_project c (pj_key p) (ps_fs s) of
                  (Inl e, fs) \<Rightarrow>
                    if e = Failed ''project not found''
                    then if snd row = Inr () then (s\<lparr>ps_db := fst row, ps_fs := fs\<rparr>, done)
                         else (s\<lparr>ps_fs := fs\<rparr>, err 404 (''project_id '' @ itoa i @ '' not found''))
                    else (s\<lparr>ps_fs := fs\<rparr>, err 500 ''error deleting project'')
                | (Inr _, fs) \<Rightarrow> (s\<lparr>ps_db := fst row, ps_fs := fs\<rparr>, done)))"

definition rename_reply :: "project_error \<Rightarrow> string \<Rightarrow> project_body http_reply" where
  "rename_reply e new = (if e = ErrProjectExists then err 409 (''project '' @ go_quote new @ '' already exists'')
     else err 500 ''failed to rename project'')"

text \<open>The storage moves before the row, and back when the row does not follow.\<close>

definition rename_top ::
  "local_cfg \<Rightarrow> project_db \<times> (project_error + unit) \<Rightarrow> project \<Rightarrow> string \<Rightarrow> project_srv \<Rightarrow> project_srv \<times> project_error option option" where
  "rename_top c row p new s =
     (case rename_project c (pj_key p) new (ps_fs s) of
        (Inl _, fs) \<Rightarrow> (s\<lparr>ps_fs := fs\<rparr>, None)
      | (Inr _, fs) \<Rightarrow>
        (case row of
           (db, Inr _) \<Rightarrow> (s\<lparr>ps_db := db, ps_fs := fs\<rparr>, Some None)
         | (db, Inl e) \<Rightarrow> (s\<lparr>ps_db := db, ps_fs := snd (rename_project c new (pj_key p) fs)\<rparr>, Some (Some e))))"

definition rename_found ::
  "ctx \<Rightarrow> local_cfg \<Rightarrow> project \<Rightarrow> string \<Rightarrow> project_srv \<Rightarrow> project_srv \<times> project_body http_reply" where
  "rename_found q c p new s =
     (let row = (if c_fails q ''projects.RenameProject'' then (ps_db s, Inl ErrProjectDb)
                 else rename_project_row (pj_id p) new (ps_db s));
          done = (\<lambda>e. case e of
              None \<Rightarrow> ok 200 ''Project renamed successfully. Note: external references to the old project slug must be updated manually.''
                (PRenamed (pj_id p) (pj_slug p) new)
            | Some e \<Rightarrow> rename_reply e new)
      in if new = pj_slug p then (s, err 400 ''new_id must differ from current project slug'')
         else if \<not> c_fails q ''projects.GetProjectBySlug'' \<and> get_project_by_slug new (ps_db s) \<noteq> None
         then (s, err 409 (''project '' @ go_quote new @ '' already exists''))
         else if pj_parent p = None
         then case rename_top c row p new s of
             (s', None) \<Rightarrow> (s', err 500 ''failed to rename project storage'')
           | (s', Some e) \<Rightarrow> (s', done e)
         else (s\<lparr>ps_db := fst row\<rparr>, done (case snd row of Inr _ \<Rightarrow> None | Inl e \<Rightarrow> Some e)))"

definition rename_project_request ::
  "ctx \<Rightarrow> local_cfg \<Rightarrow> string \<Rightarrow> string option \<Rightarrow> project_srv \<Rightarrow> project_srv \<times> project_body http_reply" where
  "rename_project_request q c v req s =
     (case resolve_project_int_id q (Some (project_rows (ps_db s))) v of
        Inl (code, m) \<Rightarrow> (s, err code m)
      | Inr i \<Rightarrow> (case req of
          None \<Rightarrow> (s, err 400 ''invalid request body'')
        | Some name \<Rightarrow>
            (case validate_project_id (trim_space name) of
               Some e \<Rightarrow> (s, err 400 e)
             | None \<Rightarrow>
                 if c_fails q ''projects.GetProject'' then (s, err 500 ''internal error'')
                 else case get_project i (ps_db s) of
                   None \<Rightarrow> (s, err 404 ''project not found'')
                 | Some p \<Rightarrow> rename_found q c p (trim_space name) s)))"

section \<open>Parents\<close>

text \<open>
  \<open>SetParent\<close> reads in two statements and writes in a third; other requests may come in between.
  \<open>set_parent_check\<close> is the request up to the write: the reply that ends it, or the write that is left.
\<close>

definition set_parent_check ::
  "ctx \<Rightarrow> string \<Rightarrow> int option \<Rightarrow> project_db \<Rightarrow> project_body http_reply + (int \<times> int)" where
  "set_parent_check q v req db =
     (case resolve_project_int_id q (Some (project_rows db)) v of
        Inl (c, m) \<Rightarrow> Inl (err c m)
      | Inr i \<Rightarrow> (case req of
          None \<Rightarrow> Inl (err 400 ''invalid JSON body'')
        | Some par \<Rightarrow>
            if par = 0 then Inl (err 400 ''parent_id is required'')
            else if i = par then Inl (err 400 ''project cannot be its own parent'')
            else if c_fails q ''projects.GetProject'' then Inl (err 500 ''failed to fetch parent project'')
            else case get_project par db of
              None \<Rightarrow> Inl (err 404 ''parent project not found'')
            | Some p \<Rightarrow>
                if pj_parent p \<noteq> None then Inl (err 400 ''parent project is already a child of another project'')
                else if c_fails q ''projects.HasChildren'' then Inl (err 500 ''failed to check project children'')
                else if has_children i db then Inl (err 409 ''project already has children and cannot become a child itself'')
                else Inr (i, par)))"

definition set_parent_write :: "ctx \<Rightarrow> int \<times> int \<Rightarrow> project_db \<Rightarrow> project_db \<times> project_body http_reply" where
  "set_parent_write q w db =
     (case w of (i, par) \<Rightarrow>
        if c_fails q ''projects.SetParent'' then (db, err 500 ''failed to set parent'')
        else case set_parent_row i par db of
          (db', Inr _) \<Rightarrow> (db', ok 200 ''Parent set successfully'' (PParent i (Some par)))
        | (db', Inl e) \<Rightarrow> (db', if e = ErrProjectNotFound then err 404 ''project not found'' else err 500 ''failed to set parent''))"

definition set_parent :: "ctx \<Rightarrow> string \<Rightarrow> int option \<Rightarrow> project_db \<Rightarrow> project_db \<times> project_body http_reply" where
  "set_parent q v req db = (case set_parent_check q v req db of Inl r \<Rightarrow> (db, r) | Inr w \<Rightarrow> set_parent_write q w db)"

definition clear_parent :: "ctx \<Rightarrow> string \<Rightarrow> project_db \<Rightarrow> project_db \<times> project_body http_reply" where
  "clear_parent q v db =
     (case resolve_project_int_id q (Some (project_rows db)) v of
        Inl (c, m) \<Rightarrow> (db, err c m)
      | Inr i \<Rightarrow>
          if c_fails q ''projects.GetProject'' then (db, err 500 ''failed to fetch project'')
          else case get_project i db of
            None \<Rightarrow> (db, err 404 ''project not found'')
          | Some p \<Rightarrow>
              if pj_parent p = None then (db, err 400 ''project does not have a parent'')
              else if c_fails q ''projects.ClearParent'' then (db, err 500 ''failed to clear parent'')
              else case clear_parent_row i db of
                (db', Inr _) \<Rightarrow> (db', ok 200 ''Parent removed successfully'' (PParent i None))
              | (db', Inl e) \<Rightarrow> (db', if e = ErrProjectNotFound then err 404 ''project not found'' else err 500 ''failed to clear parent''))"

definition list_children_request :: "ctx \<Rightarrow> string \<Rightarrow> project_db \<Rightarrow> project_body http_reply" where
  "list_children_request q v db =
     (case resolve_project_int_id q (Some (project_rows db)) v of
        Inl (c, m) \<Rightarrow> err c m
      | Inr i \<Rightarrow>
          if c_fails q ''projects.GetProject'' then err 500 ''failed to fetch project''
          else if get_project i db = None then err 404 ''project not found''
          else if c_fails q ''projects.ListChildren'' then err 500 ''failed to list children''
          else ok 200 ''Children successfully obtained'' (PChildren (list_children i db)))"

section \<open>The watcher\<close>

text \<open>\<open>checkProjects\<close>: a directory whose name is not the slug of any project is registered under it.\<close>

definition register_dir :: "time \<Rightarrow> string \<Rightarrow> project_db \<Rightarrow> project_db" where
  "register_dir now dir db =
     (if get_project_by_slug_any dir (project_rows db) = None then fst (insert_project now dir db) else db)"

definition register_dirs :: "time \<Rightarrow> local_cfg \<Rightarrow> project_srv \<Rightarrow> project_srv" where
  "register_dirs now c s =
     (case list_projects c (ps_fs s) of
        (Inl _, fs) \<Rightarrow> s\<lparr>ps_fs := fs\<rparr>
      | (Inr dirs, fs) \<Rightarrow> s\<lparr>ps_db := fold (register_dir now) dirs (ps_db s), ps_fs := fs\<rparr>)"

section \<open>Runs\<close>

datatype project_op =
    CreateReq ctx "(string \<times> int option) option"
  | DeleteReq ctx string
  | RenameReq ctx string "string option"
  | SetParentReq ctx string "int option"
  | ClearParentReq ctx string
  | WatchTick time

definition project_step :: "local_cfg \<Rightarrow> project_op \<Rightarrow> project_srv \<Rightarrow> project_srv" where
  "project_step c op s =
     (case op of
        CreateReq q req \<Rightarrow> fst (create_project_request q c req s)
      | DeleteReq q v \<Rightarrow> fst (delete_project_request q c v s)
      | RenameReq q v req \<Rightarrow> fst (rename_project_request q c v req s)
      | SetParentReq q v req \<Rightarrow> s\<lparr>ps_db := fst (set_parent q v req (ps_db s))\<rparr>
      | ClearParentReq q v \<Rightarrow> s\<lparr>ps_db := fst (clear_parent q v (ps_db s))\<rparr>
      | WatchTick now \<Rightarrow> register_dirs now c s)"

text \<open>
  The invariant of the table: the indexes, ids below the next one, and a parent of every child that is at
  the top itself, or is the child.
\<close>

definition parent_ok :: "project list \<Rightarrow> project \<Rightarrow> bool" where
  "parent_ok rows r \<longleftrightarrow> (case pj_parent r of None \<Rightarrow> True
     | Some i \<Rightarrow> i = pj_id r \<or> (\<exists>p \<in> set rows. pj_id p = i \<and> pj_parent p = None))"

definition projects_ok :: "project_db \<Rightarrow> bool" where
  "projects_ok db \<longleftrightarrow>
     distinct (map pj_id (project_rows db)) \<and> (\<forall>r \<in> set (project_rows db). pj_id r < next_project_id db) \<and>
     unique_projects (project_rows db) \<and> (\<forall>r \<in> set (project_rows db). parent_ok (project_rows db) r)"

subsection \<open>The invariant of the table\<close>

lemma tbl_updateE:
  assumes "r \<in> set (tbl_update p f t)"
  obtains r0 where "r = (if p r0 then f r0 else r0)" and "r0 \<in> set t"
  using assms unfolding set_tbl_update by (rule imageE) (rule that)

lemma unique_filter: "unique_projects rows \<Longrightarrow> unique_projects (filter P rows)"
proof -
  have "filter Q (filter P rows) = filter P (filter Q rows)" for Q by (simp add: conj_commute)
  then show "unique_projects rows \<Longrightarrow> unique_projects (filter P rows)"
    by (simp only: unique_projects_def distinct_map_filter simp_thms)
qed

lemma parent_ok_sup: "parent_ok rows r \<Longrightarrow> set rows \<subseteq> set rows' \<Longrightarrow> parent_ok rows' r"
  by (auto simp: parent_ok_def split: option.splits)

lemma exec_insert_ok:
  assumes "projects_ok db"
  shows "projects_ok (fst (exec_insert_project db p))"
proof -
  let ?p = "p\<lparr>pj_id := next_project_id db\<rparr>"
  let ?rows = "project_rows db @ [?p]"
  have new: "parent_ok ?rows ?p" if "\<not> nested_parent (project_rows db) (pj_parent p)" "parents_exist ?rows"
  proof (cases "pj_parent p")
    case (Some i)
    with that(2) have "i \<in> pj_id ` set ?rows" by (auto simp: parents_exist_def)
    moreover have "pj_parent r = None" if "r \<in> set (project_rows db)" "pj_id r = i" for r
      using \<open>\<not> nested_parent _ _\<close> Some that by (auto simp: nested_parent_def list_ex_iff)
    ultimately show ?thesis using Some by (auto simp: parent_ok_def)
  qed (simp add: parent_ok_def)
  have old: "parent_ok ?rows r" if "r \<in> set (project_rows db)" for r
    using assms that parent_ok_sup [of "project_rows db" r ?rows] by (auto simp: projects_ok_def)
  show ?thesis
    using assms new old by (auto simp: exec_insert_project_def Let_def projects_ok_def less_imp_neq)
qed

lemma exec_update_ok:
  assumes "projects_ok db" and "\<And>p. pj_id (f p) = pj_id p"
    and "\<And>r. r \<in> set (tbl_update (\<lambda>r. pj_id r = i) f (project_rows db))
      \<Longrightarrow> parent_ok (tbl_update (\<lambda>r. pj_id r = i) f (project_rows db)) r"
  shows "projects_ok (fst (exec_update_project e db i f))"
proof -
  have "map pj_id (tbl_update (\<lambda>r. pj_id r = i) f (project_rows db)) = map pj_id (project_rows db)"
    by (rule map_key_update) (rule assms(2))
  moreover have "pj_id r < next_project_id db" if "r \<in> set (tbl_update (\<lambda>r. pj_id r = i) f (project_rows db))" for r
    using that assms(1,2) by (auto simp: projects_ok_def set_tbl_update)
  ultimately show ?thesis
    using assms(1,3) by (auto simp: exec_update_project_def Let_def projects_ok_def)
qed

lemma parent_ok_update:
  assumes "parent_ok rows r" and "\<And>x. pj_id (f x) = pj_id x"
    and "\<And>x. x \<in> set rows \<Longrightarrow> pj_parent x = None \<Longrightarrow> pj_parent r = Some (pj_id x) \<Longrightarrow> P x \<Longrightarrow> pj_parent (f x) = None"
    and "P r \<Longrightarrow> pj_parent (f r) = pj_parent r \<or> pj_parent (f r) = None"
  shows "parent_ok (tbl_update P f rows) (if P r then f r else r)"
proof (cases "pj_parent (if P r then f r else r)")
  case (Some i)
  then have i: "pj_parent r = Some i" using assms(4) by (cases "P r") auto
  show ?thesis
  proof (cases "i = pj_id r")
    case True
    then show ?thesis using Some assms(2) by (simp add: parent_ok_def)
  next
    case False
    then obtain p where p: "p \<in> set rows" "pj_id p = i" "pj_parent p = None"
      using assms(1) i by (auto simp: parent_ok_def)
    let ?p = "if P p then f p else p"
    have "?p \<in> set (tbl_update P f rows)" using p(1) by (simp only: set_tbl_update) (rule imageI)
    moreover have "pj_id ?p = i" "pj_parent ?p = None" using p assms(2,3) i by simp_all
    ultimately show ?thesis unfolding parent_ok_def Some by auto
  qed
qed (simp add: parent_ok_def)

lemma exec_update_keeps_parents:
  assumes "projects_ok db" and "\<And>p. pj_id (f p) = pj_id p" and "\<And>p. pj_parent (f p) = pj_parent p \<or> pj_parent (f p) = None"
  shows "projects_ok (fst (exec_update_project e db i f))"
proof (rule exec_update_ok [OF assms(1,2)])
  fix r assume "r \<in> set (tbl_update (\<lambda>r. pj_id r = i) f (project_rows db))"
  then obtain r0 where r: "r = (if pj_id r0 = i then f r0 else r0)" "r0 \<in> set (project_rows db)" by (rule tbl_updateE)
  then have "parent_ok (project_rows db) r0" using assms(1) by (simp add: projects_ok_def)
  moreover have "pj_parent (f x) = None" if "pj_parent x = None" for x using assms(3) [of x] that by simp
  ultimately show "parent_ok (tbl_update (\<lambda>r. pj_id r = i) f (project_rows db)) r"
    unfolding r(1) using assms(2,3) by (intro parent_ok_update)
qed

lemma set_parent_row_ok:
  assumes "projects_ok db" and "\<not> has_children i db" and "i \<noteq> par"
    and "get_project par db = Some p" and "pj_parent p = None"
  shows "projects_ok (fst (set_parent_row i par db))"
proof -
  let ?f = "\<lambda>p. p\<lparr>pj_parent := Some par\<rparr>"
  let ?rows = "tbl_update (\<lambda>r. pj_id r = i) ?f (project_rows db)"
  have p: "p \<in> set (project_rows db)" "pj_id p = par"
    using tbl_find_Some [OF assms(4) [unfolded get_project_def]] by auto
  then have pin: "p \<in> set ?rows" using assms(3) by (auto simp: set_tbl_update intro: rev_image_eqI)
  have "parent_ok ?rows r" if "r \<in> set ?rows" for r
  proof -
    obtain r0 where r: "r = (if pj_id r0 = i then ?f r0 else r0)" "r0 \<in> set (project_rows db)"
      using \<open>r \<in> set ?rows\<close> by (rule tbl_updateE)
    show ?thesis
    proof (cases "pj_id r0 = i")
      case True
      then show ?thesis using r(1) pin p(2) assms(5) by (auto simp: parent_ok_def)
    next
      case False
      have "pj_parent r0 \<noteq> Some i" using assms(2) r(2) by (auto simp: has_children_def list_ex_iff)
      moreover have "parent_ok (project_rows db) r0" using assms(1) r(2) by (simp add: projects_ok_def)
      ultimately show ?thesis
        unfolding r(1) using False by (intro parent_ok_update) auto
    qed
  qed
  then have "projects_ok (fst (exec_update_project ErrProjectDb db i ?f))"
    by (intro exec_update_ok [OF assms(1)]) simp_all
  then show ?thesis using assms(1) by (simp add: set_parent_row_def)
qed

lemma cascade_keeps: "set dead \<subseteq> set (cascade_ids rows dead)"
proof (induction rows dead rule: cascade_ids.induct)
  case (1 rows dead)
  then show ?case by (subst cascade_ids.simps) (auto simp: Let_def)
qed

lemma cascade_closed:
  "r \<in> set rows \<Longrightarrow> pj_parent r = Some i \<Longrightarrow> i \<in> set (cascade_ids rows dead) \<Longrightarrow> pj_id r \<in> set (cascade_ids rows dead)"
proof (induction rows dead rule: cascade_ids.induct)
  case (1 rows dead)
  let ?more = "filter (\<lambda>r. pj_id r \<notin> set dead \<and> (\<exists>i \<in> set dead. pj_parent r = Some i)) rows"
  show ?case
  proof (cases "?more = []")
    case True
    then have "cascade_ids rows dead = dead" by (subst cascade_ids.simps) (simp add: Let_def)
    moreover have "pj_id x \<in> set dead" if "x \<in> set rows" "pj_parent x = Some i" "i \<in> set dead" for x
      using True that by (auto simp: filter_empty_conv)
    ultimately show ?thesis using 1(2-4) by simp
  next
    case False
    then have "cascade_ids rows dead = cascade_ids rows (dead @ map pj_id ?more)"
      by (subst cascade_ids.simps) (simp add: Let_def)
    then show ?thesis using 1(1) [OF refl False 1(2,3)] 1(4) by simp
  qed
qed

lemma drop_project_ok:
  assumes "projects_ok db"
  shows "projects_ok (fst (drop_project i db))"
proof -
  let ?dead = "cascade_ids (project_rows db) [i]"
  let ?rows = "filter (\<lambda>r. pj_id r \<notin> set ?dead) (project_rows db)"
  have "parent_ok ?rows r" if "r \<in> set ?rows" for r
  proof (cases "pj_parent r")
    case (Some j)
    have "j \<notin> set ?dead" using cascade_closed [OF _ Some] that by auto
    moreover have "parent_ok (project_rows db) r" using assms that by (auto simp: projects_ok_def)
    ultimately show ?thesis using Some by (auto simp: parent_ok_def)
  qed (simp add: parent_ok_def)
  then have "projects_ok (db\<lparr>project_rows := ?rows\<rparr>)"
    using assms by (auto simp: projects_ok_def unique_filter distinct_map_filter)
  then show ?thesis using assms by (simp add: drop_project_def Let_def)
qed

lemma insert_project_ok: "projects_ok db \<Longrightarrow> projects_ok (fst (insert_project now slug db))"
  unfolding insert_project_def by (rule exec_insert_ok)

lemma set_storage_key_ok: "projects_ok db \<Longrightarrow> projects_ok (fst (set_storage_key i db))"
  using exec_update_keeps_parents [of db "\<lambda>p. p\<lparr>pj_key := itoa i\<rparr>" ErrProjectDb i]
  by (auto simp: set_storage_key_def split: prod.splits sum.splits project_error.splits)

lemma insert_project_with_parent_ok:
  "projects_ok db \<Longrightarrow> projects_ok (fst (insert_project_with_parent lost now slug par db))"
  using exec_insert_ok [of db] set_storage_key_ok
  by (auto simp: insert_project_with_parent_def insert_child_row_def split: prod.splits sum.splits) (metis fst_conv)+

lemma register_project_ok: "projects_ok db \<Longrightarrow> projects_ok (fst (register_project q slug par db))"
  by (auto simp: register_project_def insert_project_ok insert_project_with_parent_ok split: option.splits)

lemma rename_project_row_ok: "projects_ok db \<Longrightarrow> projects_ok (fst (rename_project_row i s db))"
  unfolding rename_project_row_def by (rule exec_update_keeps_parents) simp_all

lemma clear_parent_row_ok: "projects_ok db \<Longrightarrow> projects_ok (fst (clear_parent_row i db))"
  unfolding clear_parent_row_def by (rule exec_update_keeps_parents) simp_all

lemma create_request_ok:
  assumes "projects_ok (ps_db s)"
  shows "projects_ok (ps_db (fst (create_project_request q c req s)))"
proof -
  have "projects_ok db" if "register_project q slug par (ps_db s) = (db, r)" for slug par db r
    using register_project_ok [OF assms, of q slug par] that by simp
  then show ?thesis
    using assms by (auto simp: create_project_request_def Let_def split: option.splits prod.splits sum.splits project_error.splits)
qed

lemma delete_request_ok:
  "projects_ok (ps_db s) \<Longrightarrow> projects_ok (ps_db (fst (delete_project_request q c v s)))"
  by (auto simp: delete_project_request_def Let_def drop_project_ok split: option.splits prod.splits sum.splits)

lemma rename_top_db: "ps_db (fst (rename_top c row p new s)) \<in> {ps_db s, fst row}"
  by (auto simp: rename_top_def split: prod.splits sum.splits)

lemma rename_found_ok:
  assumes "projects_ok (ps_db s)"
  shows "projects_ok (ps_db (fst (rename_found q c p new s)))"
proof -
  let ?row = "if c_fails q ''projects.RenameProject'' then (ps_db s, Inl ErrProjectDb)
     else rename_project_row (pj_id p) new (ps_db s)"
  have row: "projects_ok (fst ?row)" using assms by (simp add: rename_project_row_ok)
  have top: "projects_ok (ps_db (fst (rename_top c ?row p new s)))"
    using rename_top_db [of c ?row p new s] row assms by (metis empty_iff insert_iff)
  show ?thesis unfolding rename_found_def Let_def
    by (simp add: assms row) (use top in \<open>auto split: prod.splits option.splits\<close>)
qed

lemma rename_request_ok:
  "projects_ok (ps_db s) \<Longrightarrow> projects_ok (ps_db (fst (rename_project_request q c v req s)))"
  by (auto simp: rename_project_request_def rename_found_ok split: option.splits prod.splits sum.splits)

lemma set_parent_check_Inr:
  assumes "set_parent_check q v req db = Inr (i, par)"
  obtains p where "get_project par db = Some p" and "pj_parent p = None" and "i \<noteq> par" and "\<not> has_children i db"
    and "resolve_project_int_id q (Some (project_rows db)) v = Inr i"
  using assms by (auto simp: set_parent_check_def split: sum.splits option.splits if_splits)

lemma set_parent_write_db: "fst (set_parent_write q (i, par) db)
    = (if c_fails q ''projects.SetParent'' then db else fst (set_parent_row i par db))"
  by (auto simp: set_parent_write_def split: prod.splits sum.splits)

lemma set_parent_ok:
  assumes "projects_ok db"
  shows "projects_ok (fst (set_parent q v req db))"
proof (cases "set_parent_check q v req db")
  case (Inr w)
  obtain i par where w: "w = (i, par)" by (cases w)
  from Inr obtain p where "get_project par db = Some p" "pj_parent p = None" "i \<noteq> par" "\<not> has_children i db"
    unfolding w by (rule set_parent_check_Inr)
  then have "projects_ok (fst (set_parent_row i par db))" by (intro set_parent_row_ok [OF assms])
  then show ?thesis using assms by (simp add: set_parent_def Inr w set_parent_write_db)
qed (simp add: set_parent_def assms)

lemma clear_parent_ok: "projects_ok db \<Longrightarrow> projects_ok (fst (clear_parent q v db))"
  using clear_parent_row_ok [of db]
  by (auto simp: clear_parent_def split: option.splits prod.splits sum.splits) (metis fst_conv)+

lemma register_dirs_ok: "projects_ok (ps_db s) \<Longrightarrow> projects_ok (ps_db (register_dirs now c s))"
proof -
  have "projects_ok db \<Longrightarrow> projects_ok (fold (register_dir now) dirs db)" for dirs db
    by (induction dirs arbitrary: db) (auto simp: register_dir_def insert_project_ok)
  then show "projects_ok (ps_db s) \<Longrightarrow> projects_ok (ps_db (register_dirs now c s))"
    by (auto simp: register_dirs_def split: prod.splits sum.splits)
qed

interpretation project_hierarchy: invariant_machine "project_step c" "\<lambda>s. projects_ok (ps_db s)" for c
  by unfold_locales (auto simp: project_step_def create_request_ok delete_request_ok rename_request_ok set_parent_ok
    clear_parent_ok register_dirs_ok split: project_op.splits)

text \<open>C30: After any run of requests and watcher ticks, each served alone, ids, top-level slugs, slugs under one
  parent and storage keys identify projects, and the parent of a project is an existing top-level project, or
  the project itself.\<close>

theorem projects_stay_flat:
  assumes "projects_ok (ps_db s)"
  shows "projects_ok (ps_db (fold (project_step c) ops s))"
  by (rule project_hierarchy.run_inv) (rule assms)

section \<open>Storage of different projects\<close>

lemma projects_distinct_keys:
  assumes "projects_ok db" and "p \<in> set (project_rows db)" and "r \<in> set (project_rows db)" and "pj_key p = pj_key r"
  shows "p = r"
  using assms inj_on_eq_iff [of pj_key "set (project_rows db)" p r]
  by (auto simp: projects_ok_def unique_projects_def distinct_map)

lemma projects_distinct_ids:
  assumes "projects_ok db" and "p \<in> set (project_rows db)" and "r \<in> set (project_rows db)" and "pj_id p = pj_id r"
  shows "p = r"
  using assms inj_on_eq_iff [of pj_id "set (project_rows db)" p r] by (auto simp: projects_ok_def distinct_map)

lemma other_home: "k \<noteq> k' \<Longrightarrow> \<not> prefix (home c k) (home c k' @ ss)"
  by (auto simp: home_def)

text \<open>C29: No storage operation on one project touches a file of another: after any run of requests and watcher
  ticks two projects have different storage keys, and whatever operation the server performs under the key of
  the one, a renaming to any name included, leaves every place of the other, whose directory exists, as it was,
  whatever names and sub-paths it is given.  Only for the batch of \<open>keep_history\<close>, which the store does not
  check, is it assumed that it does not lead there; a batch as the server makes them, empty or a directory name,
  never does.\<close>

theorem project_files_private:
  assumes "projects_ok (ps_db s)" and "is_abs (projects_path c)"
    and "\<forall>q. prefix q (abs_segs (projects_path c)) \<longrightarrow> node_at q fs = Some Dir"
    and "p \<in> set (project_rows (ps_db (fold (project_step c) ops s)))"
    and "r \<in> set (project_rows (ps_db (fold (project_step c) ops s)))"
    and "p \<noteq> r" and "node_at (home c (pj_key r)) fs \<noteq> None"
    and "\<forall>batch. op = KeepHistory batch \<longrightarrow> batch = [] \<or> plain batch
      \<or> \<not> reaches c (pj_key p) (KeepHistory batch) (home c (pj_key r) @ ss)"
  shows "node_at (home c (pj_key r) @ ss) (snd (run_op c (pj_key p) op fs)) = node_at (home c (pj_key r) @ ss) fs"
proof -
  have "projects_ok (ps_db (fold (project_step c) ops s))" by (rule project_hierarchy.run_inv) (rule assms(1))
  then have "pj_key p \<noteq> pj_key r" using projects_distinct_keys assms(4-6) by blast
  then have other: "\<not> prefix (home c (pj_key p)) (home c (pj_key r) @ ss)" by (rule other_home)
  show ?thesis
  proof (cases "op = RenameProject (pj_key r)")
    case True
    then show ?thesis using rename_project_existing [OF assms(2,7)] by (simp add: run_op_def)
  next
    case False
    have "\<not> reaches c (pj_key p) op (home c (pj_key r) @ ss)"
    proof (cases op)
      case (RenameProject new)
      then have "\<not> prefix (home c new) (home c (pj_key r) @ ss)" using False by (intro other_home) simp
      then show ?thesis using other RenameProject by (simp add: reaches_def)
    next
      case (KeepHistory batch)
      then show ?thesis using assms(8) reaches_plain_batch [OF assms(2), of batch] other by blast
    qed (use other in \<open>simp_all add: reaches_def\<close>)
    then show ?thesis by (rule run_op_unreached [OF assms(2,3)])
  qed
qed

section \<open>Requests that overlap\<close>

lemma exec_update_get:
  assumes "exec_update_project e db i f = (db', Inr u)" and "\<And>p. pj_id (f p) = pj_id p"
  shows "get_project j db' = map_option (\<lambda>r. if pj_id r = i then f r else r) (get_project j db)"
    and "get_project i db \<noteq> None"
proof -
  have db': "project_rows db' = tbl_update (\<lambda>r. pj_id r = i) f (project_rows db)" "i \<in> pj_id ` set (project_rows db)"
    using assms(1) by (auto simp: exec_update_project_def Let_def split: if_splits)
  show "get_project j db' = map_option (\<lambda>r. if pj_id r = i then f r else r) (get_project j db)"
    unfolding get_project_def db'(1) by (rule tbl_find_update_any) (rule assms(2))
  show "get_project i db \<noteq> None" using db'(2) by (auto simp: get_project_def tbl_find_None)
qed

lemma get_project_id: "get_project i db = Some p \<Longrightarrow> pj_id p = i \<and> p \<in> set (project_rows db)"
  unfolding get_project_def by (drule tbl_find_Some) simp

lemma set_parent_write_200:
  assumes "status (snd (set_parent_write q (i, par) db)) = 200"
  shows "get_project j (fst (set_parent_write q (i, par) db))
      = map_option (\<lambda>r. if pj_id r = i then r\<lparr>pj_parent := Some par\<rparr> else r) (get_project j db)"
    and "get_project i db \<noteq> None"
proof -
  obtain db' u where w: "set_parent_row i par db = (db', Inr u)" "fst (set_parent_write q (i, par) db) = db'"
    using assms by (auto simp: set_parent_write_def split: if_splits prod.splits sum.splits)
  then have e: "exec_update_project ErrProjectDb db i (\<lambda>p. p\<lparr>pj_parent := Some par\<rparr>) = (db', Inr u)"
    by (auto simp: set_parent_row_def split: if_splits)
  show "get_project j (fst (set_parent_write q (i, par) db))
      = map_option (\<lambda>r. if pj_id r = i then r\<lparr>pj_parent := Some par\<rparr> else r) (get_project j db)"
    unfolding w(2) by (rule exec_update_get(1) [OF e]) simp
  show "get_project i db \<noteq> None" by (rule exec_update_get(2) [OF e]) simp
qed

text \<open>C26: Two requests that overlap nest projects.  When the one that makes \<open>y\<close> a child of \<open>x\<close> and the one that
  makes \<open>x\<close> a child of \<open>p\<close> both pass their checks before either writes, both writes succeed, and \<open>y\<close> is the
  child of a child, which neither the handler nor the trigger allows.\<close>

theorem nested_by_race:
  assumes "set_parent_check qa va ra db = Inr (y, x)" and "set_parent_check qb vb rb db = Inr (x, p)"
    and "status (snd (set_parent_write qa (y, x) db)) = 200"
    and "status (snd (set_parent_write qb (x, p) (fst (set_parent_write qa (y, x) db)))) = 200"
  shows "let db' = fst (set_parent_write qb (x, p) (fst (set_parent_write qa (y, x) db)))
    in map_option pj_parent (get_project y db') = Some (Some x) \<and> map_option pj_parent (get_project x db') = Some (Some p)
       \<and> \<not> projects_ok db'"
proof -
  let ?db1 = "fst (set_parent_write qa (y, x) db)"
  let ?db2 = "fst (set_parent_write qb (x, p) ?db1)"
  obtain px where yx: "y \<noteq> x" "get_project x db = Some px" by (rule set_parent_check_Inr [OF assms(1)])
  note one = set_parent_write_200 [OF assms(3)] and two = set_parent_write_200(1) [OF assms(4)]
  obtain py where py: "get_project y db = Some py" using one(2) by blast
  have ids: "pj_id px = x" "pj_id py = y" using get_project_id yx(2) py by blast+
  have Y: "get_project y ?db2 = Some (py\<lparr>pj_parent := Some x\<rparr>)" using two one(1) py ids yx(1) by simp
  have X: "get_project x ?db2 = Some (px\<lparr>pj_parent := Some p\<rparr>)" using two one(1) yx ids by simp
  have "\<not> projects_ok ?db2"
  proof
    assume ok: "projects_ok ?db2"
    then have "parent_ok (project_rows ?db2) (py\<lparr>pj_parent := Some x\<rparr>)"
      using get_project_id [OF Y] by (auto simp: projects_ok_def)
    then obtain r where r: "r \<in> set (project_rows ?db2)" "pj_id r = x" "pj_parent r = None"
      using ids yx(1) by (auto simp: parent_ok_def)
    moreover have "px\<lparr>pj_parent := Some p\<rparr> \<in> set (project_rows ?db2)" using get_project_id [OF X] by simp
    ultimately have "r = px\<lparr>pj_parent := Some p\<rparr>"
      using projects_distinct_ids [OF ok] ids(1) by simp
    then show False using r(3) by simp
  qed
  with X Y show ?thesis by (simp add: Let_def)
qed

section \<open>Creation\<close>

lemma exec_insert_Inr:
  assumes "exec_insert_project db p = (db', Inr p')"
  shows "p' = p\<lparr>pj_id := next_project_id db\<rparr>" and "project_rows db' = project_rows db @ [p']"
    and "unique_projects (project_rows db')" and "next_project_id db' = next_project_id db + 1"
  using assms by (auto simp: exec_insert_project_def Let_def split: if_splits)

lemma get_project_appended:
  assumes "projects_ok db" and "project_rows db' = project_rows db @ [p]" and "pj_id p = next_project_id db"
  shows "get_project (next_project_id db) db' = Some p"
  using assms by (auto simp: get_project_def tbl_simps tbl_find_None projects_ok_def split: option.splits
      dest!: tbl_find_Some)

text \<open>The request that creates a child makes a project its own parent when the parent it names is the id the
  new row will get, which callers can predict: the trigger finds no such row yet, the foreign key finds the
  new one, and the handler checks neither.  No slug and no key stands in the way.  The project is then neither
  at the top nor under another.\<close>

theorem project_own_parent:
  assumes "projects_ok db" and "validate_project_id (trim_space name) = None"
    and "\<not> c_fails q ''projects.CreateProject''" and "\<not> c_fails q ''projects.SetStorageKey''"
    and "\<forall>r \<in> set (project_rows db). pj_key r \<noteq> ''0'' \<and> pj_key r \<noteq> itoa (next_project_id db)"
    and "project_exists c (itoa (next_project_id db)) fs = (Inr False, fs)"
    and "create_project c (itoa (next_project_id db)) fs = (Inr (), fs')"
  shows "let i = next_project_id db; (s, r) = create_project_request q c (Some (name, Some i)) \<lparr>ps_db = db, ps_fs = fs\<rparr>
    in status r = 201 \<and> map_option pj_parent (get_project i (ps_db s)) = Some (Some i)
       \<and> \<not> (\<exists>p \<in> set (project_rows (ps_db s)). pj_id p = i \<and> pj_parent p = None)"
proof -
  let ?i = "next_project_id db" and ?slug = "trim_space name"
  let ?row = "\<lparr>pj_id = ?i, pj_slug = ?slug, pj_parent = Some ?i, pj_key = ''0'', pj_name = ?slug, pj_type = ''allure'', pj_created = c_now q\<rparr>"
  let ?new = "?row\<lparr>pj_key := itoa ?i\<rparr>"
  let ?rows = "project_rows db @ [?row]"
  have below: "pj_id r < ?i" if "r \<in> set (project_rows db)" for r using assms(1) that by (simp add: projects_ok_def)
  have no_child: "pj_parent r \<noteq> Some ?i" if "r \<in> set (project_rows db)" for r
  proof
    assume "pj_parent r = Some ?i"
    moreover have "parent_ok (project_rows db) r" using assms(1) that by (simp add: projects_ok_def)
    ultimately show False using below that by (force simp: parent_ok_def)
  qed
  have u: "unique_projects (project_rows db)" and pe: "parents_exist (project_rows db)"
    using assms(1) by (force simp: projects_ok_def parents_exist_def parent_ok_def list_all_iff split: option.splits)+
  have uniq: "unique_projects (project_rows db @ [r])" if "r \<in> {?row, ?new}" for r
    using u assms(5) no_child that by (auto simp: unique_projects_def)
  have "parents_exist (project_rows db @ [r])" if "r \<in> {?row, ?new}" for r
    using pe that by (auto simp: parents_exist_def list_all_iff split: option.splits)
  note exist = this
  have "\<not> nested_parent (project_rows db) (Some ?i)" by (fastforce simp: nested_parent_def list_ex_iff dest: below)
  then have ins: "insert_child_row (c_now q) ?slug ?i db = (\<lparr>project_rows = ?rows, next_project_id = ?i + 1\<rparr>, Inr ?row)"
    using uniq exist by (simp add: insert_child_row_def exec_insert_project_def Let_def)
  have "tbl_update (\<lambda>r. pj_id r = ?i) (\<lambda>p. p\<lparr>pj_key := itoa ?i\<rparr>) (project_rows db) = project_rows db"
    using below by (intro tbl_update_id) force
  then have upd: "tbl_update (\<lambda>r. pj_id r = ?i) (\<lambda>p. p\<lparr>pj_key := itoa ?i\<rparr>) ?rows = project_rows db @ [?new]"
    by (simp add: tbl_update_def)
  have key: "set_storage_key ?i \<lparr>project_rows = ?rows, next_project_id = ?i + 1\<rparr>
      = (\<lparr>project_rows = project_rows db @ [?new], next_project_id = ?i + 1\<rparr>, Inr ())"
    using uniq exist by (simp add: set_storage_key_def exec_update_project_def Let_def upd)
  have reg: "register_project q ?slug (Some ?i) db = (\<lparr>project_rows = project_rows db @ [?new], next_project_id = ?i + 1\<rparr>, Inr ?new)"
    using assms(3,4) by (simp add: register_project_def insert_project_with_parent_def ins key)
  have "get_project ?i \<lparr>project_rows = project_rows db @ [?new], next_project_id = ?i + 1\<rparr> = Some ?new"
    by (rule get_project_appended [OF assms(1)]) simp_all
  moreover have "alloc_storage c (itoa ?i) fs = (Inr (), fs')" using assms(6,7) by (simp add: alloc_storage_def bind_io_def)
  moreover have "\<not> (\<exists>p \<in> set (project_rows db @ [?new]). pj_id p = ?i \<and> pj_parent p = None)"
    by (fastforce dest: below)
  ultimately show ?thesis
    using assms(2) by (simp add: create_project_request_def Let_def reg)
qed

text \<open>While the key of a new child is still the placeholder, between the two statements of its creation or
  for good when the second is lost, no other child can be created: every such request is answered 409 with
  the text that a project of that name exists, whether or not one does.\<close>

theorem placeholder_blocks_children:
  assumes "insert_child_row now a par db = (db', Inr p)"
    and "validate_project_id (trim_space name) = None" and "\<not> c_fails q ''projects.CreateProject''"
    and "\<not> nested_parent (project_rows db') (Some par2)"
  shows "snd (create_project_request q c (Some (name, Some par2)) \<lparr>ps_db = db', ps_fs = fs\<rparr>)
    = err 409 (''project already exists: '' @ trim_space name)"
proof -
  have "project_rows db' = project_rows db @ [p]" "pj_key p = ''0''"
    using exec_insert_Inr [OF assms(1) [unfolded insert_child_row_def]] by simp_all
  then have "\<not> unique_projects (project_rows db' @ [r])" if "pj_key r = ''0''" for r
    using that by (auto simp: unique_projects_def)
  then have "snd (insert_child_row (c_now q) (trim_space name) par2 db') = Inl ErrProjectExists"
    using assms(4) by (simp add: insert_child_row_def exec_insert_project_def Let_def)
  then show ?thesis using assms(2,3)
    by (cases "insert_child_row (c_now q) (trim_space name) par2 db'")
      (simp add: create_project_request_def register_project_def insert_project_with_parent_def)
qed

text \<open>A 201 comes from an insert, and its key is what the directory is made under.\<close>

lemma create_request_201:
  assumes "create_project_request q c req s = (s', r)" and "status r = 201"
  obtains name par db' p where "req = Some (name, par)" and "validate_project_id (trim_space name) = None"
    and "register_project q (trim_space name) par (ps_db s) = (db', Inr p)" and "ps_db s' = db'"
    and "body r = Some (PEntry \<lparr>en_id = pj_id p, en_slug = trim_space name, en_key = pj_key p,
          en_name = trim_space name, en_type = [], en_created = None, en_parent = par, en_children = []\<rparr>)"
  using assms
  by (auto simp: create_project_request_def Let_def split: option.splits prod.splits sum.splits project_error.splits if_splits)

lemma get_by_slug_any_top:
  assumes "unique_projects rows" and "p \<in> set rows" and "pj_parent p = None" and "pj_slug p = t"
  shows "get_project_by_slug_any t rows = Some p"
proof -
  let ?ps = "sort_key pj_id (filter (\<lambda>p. pj_slug p = t) rows)"
  let ?tops = "filter (\<lambda>p. pj_parent p = None) ?ps"
  have m: "x \<in> set ?tops \<longleftrightarrow> x \<in> set rows \<and> pj_slug x = t \<and> pj_parent x = None" for x by auto
  have "x = p" if "x \<in> set ?tops" for x
    using assms m that inj_on_eq_iff [of pj_slug "{r \<in> set rows. pj_parent r = None}" x p]
    by (auto simp: unique_projects_def distinct_map)
  moreover have "p \<in> set ?tops" using assms(2-4) m by blast
  then obtain y ys where "?tops = y # ys" by (metis neq_Nil_conv empty_iff list.set(1))
  ultimately have "?tops @ filter (\<lambda>p. pj_parent p \<noteq> None) ?ps = p # ys @ filter (\<lambda>p. pj_parent p \<noteq> None) ?ps"
    by (metis append_Cons list.set_intros(1))
  then show ?thesis by (simp only: get_project_by_slug_any_def Let_def list.case)
qed

text \<open>C37: A project created at the top is stored with its name as slug and key, and a later path with its name
  means it, unless the name reads as a number: \<open>+7\<close> passes the validation, and its path means project 7.\<close>

theorem created_project_resolves:
  assumes "create_project_request q c (Some (name, None)) s = (s', r)" and "status r = 201" and "projects_ok (ps_db s)"
    and "\<not> c_fails q' ''projects.GetProjectBySlugAny''"
  shows "\<exists>p. get_project (pj_id p) (ps_db s') = Some p \<and> pj_slug p = trim_space name \<and> pj_key p = trim_space name
    \<and> resolve_project_int_id q' (Some (project_rows (ps_db s'))) (trim_space name)
        = guard_project (c_claims q') (case parse_int (trim_space name) of None \<Rightarrow> pj_id p | Some n \<Rightarrow> n)"
proof -
  obtain db' p where v: "validate_project_id (trim_space name) = None"
    and reg: "register_project q (trim_space name) None (ps_db s) = (db', Inr p)" and s': "ps_db s' = db'"
    by (rule create_request_201 [OF assms(1,2)]) (auto intro: that)
  have ins: "insert_project (c_now q) (trim_space name) (ps_db s) = (db', Inr p)"
    using reg by (auto simp: register_project_def split: if_splits)
  note i = exec_insert_Inr [OF ins [unfolded insert_project_def]]
  have p: "pj_slug p = trim_space name" "pj_key p = trim_space name" "pj_parent p = None" "pj_id p = next_project_id (ps_db s)"
    by (simp_all add: i(1))
  have got: "get_project (pj_id p) db' = Some p"
    unfolding p(4) by (rule get_project_appended [OF assms(3) i(2) p(4)])
  have "get_project_by_slug_any (trim_space name) (project_rows db') = Some p"
    by (rule get_by_slug_any_top [OF i(3) _ p(3,1)]) (simp add: i(2))
  moreover have "trim_space name \<noteq> []" "\<not> bad_slug (trim_space name)" "trim_space name \<notin> set reserved_project_names"
    using v by (auto simp: validate_project_id_def split: if_splits)
  ultimately have "resolve_project_int_id q' (Some (project_rows db')) (trim_space name)
        = guard_project (c_claims q') (case parse_int (trim_space name) of None \<Rightarrow> pj_id p | Some n \<Rightarrow> n)"
    using assms(4) by (simp add: resolve_project_int_id_def split: option.split)
  with got p(1,2) show ?thesis unfolding s' by blast
qed

lemma signed_name: "validate_project_id ''+7'' = None" "parse_int ''+7'' = Some 7"
  by code_simp+

section \<open>Deletion\<close>

lemma cascade_children: "r \<in> set rows \<Longrightarrow> pj_parent r = Some i \<Longrightarrow> pj_id r \<in> set (cascade_ids rows [i])"
  using cascade_closed [of r rows i "[i]"] cascade_keeps [of "[i]" rows] by auto

text \<open>Deleting a project deletes its children from the table and leaves their files: no request reaches the
  rows any more, and every place of a child's storage is as before, for whoever gets the key next.\<close>

theorem deleted_children_leave_files:
  assumes "delete_project_request q c v s = (s', r)" and "status r = 200" and "projects_ok (ps_db s)"
    and "resolve_project_int_id q (Some (project_rows (ps_db s))) v = Inr i"
    and "\<not> c_fails q ''projects.DeleteProject''"
    and "is_abs (projects_path c)" and "\<forall>q. prefix q (abs_segs (projects_path c)) \<longrightarrow> node_at q (ps_fs s) = Some Dir"
    and "k \<in> set (project_rows (ps_db s))" and "pj_parent k = Some i" and "pj_id k \<noteq> i"
  shows "get_project (pj_id k) (ps_db s') = None
    \<and> node_at (home c (pj_key k) @ ss) (ps_fs s') = node_at (home c (pj_key k) @ ss) (ps_fs s)"
proof -
  obtain p where p: "get_project i (ps_db s) = Some p"
    and db: "ps_db s' = fst (drop_project i (ps_db s))" and fs: "ps_fs s' = snd (delete_project c (pj_key p) (ps_fs s))"
    using assms(1,2,4,5)
    by (auto simp: delete_project_request_def Let_def split: option.splits prod.splits sum.splits if_splits)
  have "pj_id k \<in> set (cascade_ids (project_rows (ps_db s)) [i])" by (rule cascade_children [OF assms(8,9)])
  moreover have "i \<in> pj_id ` set (project_rows (ps_db s))" using get_project_id [OF p] by auto
  ultimately have gone: "get_project (pj_id k) (ps_db s') = None"
    by (auto simp: db drop_project_def Let_def get_project_def tbl_find_None)
  have "pj_key p \<noteq> pj_key k"
    using projects_distinct_keys [OF assms(3) _ assms(8), of p] get_project_id [OF p] assms(10) by auto
  then have "\<not> prefix (home c (pj_key p)) (home c (pj_key k) @ ss)" by (rule other_home)
  then have "node_at (home c (pj_key k) @ ss) (snd (run_op c (pj_key p) DeleteProject (ps_fs s)))
      = node_at (home c (pj_key k) @ ss) (ps_fs s)"
    by (intro run_op_unreached [OF assms(6,7)]) (simp add: reaches_def)
  with gone show ?thesis by (simp add: fs run_op_def)
qed

section \<open>Instances\<close>

definition demo_pq :: ctx where
  "demo_pq = \<lparr>c_request = \<lparr>rq_method = ''POST'', rq_path = [], rq_cookies = (\<lambda>_. None), rq_header = (\<lambda>_. [])\<rparr>,
     c_claims = None, c_now = 5, c_rnd = [], c_fails = (\<lambda>_. False)\<rparr>"

definition demo_pc :: local_cfg where
  "demo_pc = \<lparr>projects_path = ''/p'', keep_history_files = True\<rparr>"

definition demo_project :: "int \<Rightarrow> string \<Rightarrow> int option \<Rightarrow> project" where
  "demo_project i s par = \<lparr>pj_id = i, pj_slug = s, pj_parent = par, pj_key = s, pj_name = s, pj_type = ''allure'', pj_created = 0\<rparr>"

definition demo_projects :: project_db where
  "demo_projects = \<lparr>project_rows = [demo_project 1 ''a'' None, demo_project 2 ''b'' None, demo_project 3 ''c'' None, demo_project 4 ''d'' (Some 1)],
     next_project_id = 5\<rparr>"

definition demo_pfs :: fs where
  "demo_pfs = [([''p''], Dir), ([''p'', ''a''], Dir), ([''p'', ''d''], Dir), ([''p'', ''d'', ''f''], File ''x'')]"

lemma demo_projects_ok: "projects_ok demo_projects"
  by code_simp

lemma demo_pc_root: "is_abs (projects_path demo_pc)" "abs_segs (projects_path demo_pc) = [''p'']"
  by code_simp+

lemma demo_pfs_root: "\<forall>q. prefix q (abs_segs (projects_path demo_pc)) \<longrightarrow> node_at q demo_pfs = Some Dir"
  by (auto simp: demo_pc_root prefix_Cons demo_pfs_def node_at_def)

lemma demo_pq_simps [simp]: "c_fails demo_pq m = False" "c_claims demo_pq = None" "c_now demo_pq = 5"
  by (simp_all add: demo_pq_def)

lemma projects_stay_flat_witness:
  "projects_ok (ps_db (fold (project_step demo_pc) [CreateReq demo_pq (Some (''e'', Some 1)), SetParentReq demo_pq ''2'' (Some 1),
     DeleteReq demo_pq ''1'', WatchTick 9] \<lparr>ps_db = demo_projects, ps_fs = demo_pfs\<rparr>))"
  by (rule projects_stay_flat) (simp add: demo_projects_ok)

lemma project_files_private_witness:
  "node_at (home demo_pc ''d'' @ [''f'']) (snd (run_op demo_pc ''a'' (RenameProject ''d'') demo_pfs)) = Some (File ''x'')"
proof -
  have "node_at (home demo_pc (pj_key (demo_project 4 ''d'' (Some 1))) @ [''f''])
      (snd (run_op demo_pc (pj_key (demo_project 1 ''a'' None)) (RenameProject ''d'') demo_pfs))
    = node_at (home demo_pc (pj_key (demo_project 4 ''d'' (Some 1))) @ [''f'']) demo_pfs"
    using demo_projects_ok demo_pfs_root
    by (intro project_files_private [where s = "\<lparr>ps_db = demo_projects, ps_fs = []\<rparr>" and ops = "[]"])
      (simp_all add: demo_pc_root demo_projects_def demo_project_def home_def demo_pfs_def node_at_def)
  then show ?thesis by (simp add: demo_project_def home_def demo_pc_root demo_pfs_def node_at_def)
qed

lemma nested_by_race_witness:
  "let db' = fst (set_parent_write demo_pq (2, 3) (fst (set_parent_write demo_pq (4, 2) demo_projects)))
   in map_option pj_parent (get_project 4 db') = Some (Some 2) \<and> map_option pj_parent (get_project 2 db') = Some (Some 3)
      \<and> \<not> projects_ok db'"
proof -
  have "set_parent_check demo_pq ''4'' (Some 2) demo_projects = Inr (4, 2)"
    and "set_parent_check demo_pq ''2'' (Some 3) demo_projects = Inr (2, 3)"
    and "status (snd (set_parent_write demo_pq (4, 2) demo_projects)) = 200"
    and "status (snd (set_parent_write demo_pq (2, 3) (fst (set_parent_write demo_pq (4, 2) demo_projects)))) = 200"
    by code_simp+
  then show ?thesis by (rule nested_by_race)
qed

lemma project_own_parent_witness:
  "let (s, r) = create_project_request demo_pq demo_pc (Some (''e'', Some 5)) \<lparr>ps_db = demo_projects, ps_fs = demo_pfs\<rparr>
   in status r = 201 \<and> map_option pj_parent (get_project 5 (ps_db s)) = Some (Some 5)
      \<and> \<not> (\<exists>p \<in> set (project_rows (ps_db s)). pj_id p = 5 \<and> pj_parent p = None)"
proof -
  have next5: "next_project_id demo_projects = 5" by (simp add: demo_projects_def)
  have a: "validate_project_id (trim_space ''e'') = None"
    and b: "\<forall>r \<in> set (project_rows demo_projects). pj_key r \<noteq> ''0'' \<and> pj_key r \<noteq> itoa (next_project_id demo_projects)"
    and d: "project_exists demo_pc (itoa (next_project_id demo_projects)) demo_pfs = (Inr False, demo_pfs)"
    and e: "fst (create_project demo_pc (itoa (next_project_id demo_projects)) demo_pfs) = Inr ()"
    by code_simp+
  have f: "create_project demo_pc (itoa (next_project_id demo_projects)) demo_pfs
      = (Inr (), snd (create_project demo_pc (itoa (next_project_id demo_projects)) demo_pfs))"
    using e by (metis prod.collapse)
  show ?thesis using project_own_parent [OF demo_projects_ok a _ _ b d f, of demo_pq] by (simp add: next5)
qed

lemma placeholder_blocks_children_witness:
  "snd (create_project_request demo_pq demo_pc (Some (''y'', Some 2))
     \<lparr>ps_db = fst (insert_child_row 0 ''x'' 1 demo_projects), ps_fs = demo_pfs\<rparr>)
   = err 409 ''project already exists: y''"
proof -
  let ?new = "demo_project 5 ''x'' (Some 1)\<lparr>pj_key := ''0''\<rparr>"
  have "snd (insert_child_row 0 ''x'' 1 demo_projects) = Inr ?new" by code_simp
  then have a: "insert_child_row 0 ''x'' 1 demo_projects = (fst (insert_child_row 0 ''x'' 1 demo_projects), Inr ?new)"
    by (metis prod.collapse)
  have b: "validate_project_id (trim_space ''y'') = None" and y: "trim_space ''y'' = ''y''"
    and d: "\<not> nested_parent (project_rows (fst (insert_child_row 0 ''x'' 1 demo_projects))) (Some 2)"
    by code_simp+
  show ?thesis using placeholder_blocks_children [OF a b _ d, of demo_pq demo_pc demo_pfs] by (simp add: y)
qed

lemma created_project_resolves_witness:
  "\<exists>p. get_project (pj_id p) (ps_db (fst (create_project_request demo_pq demo_pc (Some (''+7'', None)) \<lparr>ps_db = demo_projects, ps_fs = demo_pfs\<rparr>))) = Some p
     \<and> pj_slug p = ''+7'' \<and> pj_key p = ''+7''
     \<and> resolve_project_int_id demo_pq (Some (project_rows (ps_db (fst (create_project_request demo_pq demo_pc (Some (''+7'', None))
           \<lparr>ps_db = demo_projects, ps_fs = demo_pfs\<rparr>))))) ''+7'' = Inr 7"
proof -
  let ?r = "create_project_request demo_pq demo_pc (Some (''+7'', None)) \<lparr>ps_db = demo_projects, ps_fs = demo_pfs\<rparr>"
  have st: "status (snd ?r) = 201" and t: "trim_space ''+7'' = ''+7''" by code_simp+
  have "?r = (fst ?r, snd ?r)" by simp
  from created_project_resolves [OF this st, of demo_pq] demo_projects_ok show ?thesis
    by (simp add: t signed_name(2) guard_project_def api_key_project_allowed_def)
qed

lemma deleted_children_leave_files_witness:
  "let s' = fst (delete_project_request demo_pq demo_pc ''1'' \<lparr>ps_db = demo_projects, ps_fs = demo_pfs\<rparr>)
   in get_project 4 (ps_db s') = None \<and> node_at (home demo_pc ''d'' @ [''f'']) (ps_fs s') = Some (File ''x'')"
proof -
  let ?s = "\<lparr>ps_db = demo_projects, ps_fs = demo_pfs\<rparr>"
  let ?r = "delete_project_request demo_pq demo_pc ''1'' ?s"
  let ?k = "demo_project 4 ''d'' (Some 1)"
  have st: "status (snd ?r) = 200" and v: "resolve_project_int_id demo_pq (Some (project_rows (ps_db ?s))) ''1'' = Inr 1"
    by code_simp+
  have k: "?k \<in> set (project_rows (ps_db ?s))" "pj_parent ?k = Some 1" "pj_id ?k \<noteq> 1" "pj_id ?k = 4" "pj_key ?k = ''d''"
    by (simp_all add: demo_projects_def demo_project_def)
  have r: "?r = (fst ?r, snd ?r)" by simp
  have "get_project (pj_id ?k) (ps_db (fst ?r)) = None
      \<and> node_at (home demo_pc (pj_key ?k) @ [''f'']) (ps_fs (fst ?r)) = node_at (home demo_pc (pj_key ?k) @ [''f'']) (ps_fs ?s)"
    using demo_projects_ok demo_pfs_root
    by (intro deleted_children_leave_files [OF r st _ v _ demo_pc_root(1) _ k(1-3)]) simp_all
  then show ?thesis by (simp add: Let_def k(4,5)) (simp add: home_def demo_pc_root demo_pfs_def node_at_def)
qed

text \<open>The watcher brings a deleted child back: its directory is registered as a new project at the top.\<close>

lemma deleted_child_resurfaces:
  "map (\<lambda>p. (pj_slug p, pj_parent p))
     (project_rows (ps_db (fold (project_step demo_pc) [DeleteReq demo_pq ''1'', WatchTick 9] \<lparr>ps_db = demo_projects, ps_fs = demo_pfs\<rparr>)))
   = [(''b'', None), (''c'', None), (''d'', None)]"
  by code_simp

end
