(* ===== verification/Uploads.thy ===== *)
theory Uploads
  imports Projects TarExtract
begin

text \<open>
  Result uploads, \<open>handlers/result_upload_handler.go\<close>: the project a request names or forces into being, the
  three body formats, the staging of asynchronous uploads and the job that is queued.

  A request body is what the decoders of the standard library make of it; \<open>TooLarge\<close> is a body over the
  configured size.  The texts of file-system and archive errors and the streaming base64 decoder, which
  hands on what it decoded before an error, are fields of \<open>upload_env\<close>.
\<close>

section \<open>Requests\<close>

datatype upload_body =
    TooLarge
  | JsonBody "(string \<times> string) list option option"
  | FormBody "(string \<times> string option) list option"
  | ArchiveBody archive

record upload_request =
  ur_type :: string
  ur_body :: upload_body
  ur_raw :: string

record upload_env =
  ue_b64 :: "string \<Rightarrow> string \<times> bool"
  ue_io_text :: "io_error \<Rightarrow> string"
  ue_archive_text :: "archive_error \<Rightarrow> string"
  ue_max_files :: int
  ue_terse :: bool
  ue_sched :: "pending_entry list \<Rightarrow> pending_entry list"

record upload_job =
  uj_project :: int
  uj_slug :: string
  uj_key :: string
  uj_batch :: string
  uj_staged :: "string option"
  uj_params :: "string list"

record upload_srv = project_srv +
  us_jobs :: "upload_job list"

datatype upload_reply =
    Terse
  | Uploaded string "string list" "string list"
  | Staged string
  | Cleaned

section \<open>Bodies\<close>

definition file_name_required :: string where
  "file_name_required = apostrophe @ ''file_name'' @ apostrophe @ '' attribute is required for all results''"

definition content_required :: string where
  "content_required = apostrophe @ ''content_base64'' @ apostrophe @ '' attribute is required''"

fun json_names_error :: "string list \<Rightarrow> (string \<times> string) list \<Rightarrow> string option" where
  "json_names_error seen [] = None"
| "json_names_error seen ((n, b) # rs) =
     (if n = [] then Some file_name_required
      else if n \<in> set seen then Some (''duplicated file names in '' @ apostrophe @ ''results'' @ apostrophe)
      else json_names_error (n # seen) rs)"

text \<open>\<open>WriteResultFile\<close> from a reader that may fail after some bytes: the file keeps what was read.\<close>

definition write_result_stream :: "local_cfg \<Rightarrow> string \<Rightarrow> string \<Rightarrow> string \<Rightarrow> string \<times> bool \<Rightarrow> unit io" where
  "write_result_stream c pid batch file src =
     bind_io (write_result_file c pid batch file (fst src)) (\<lambda>_. if snd src then ret () else throw (Failed ''write result file''))"

fun json_write ::
  "upload_env \<Rightarrow> local_cfg \<Rightarrow> string \<Rightarrow> string \<Rightarrow> (string \<times> string) list \<Rightarrow> string list \<Rightarrow> fs \<Rightarrow> (string + string list) \<times> fs" where
  "json_write E c key batch [] acc fs = (Inr acc, fs)"
| "json_write E c key batch ((n, b) # rs) acc fs =
     (let safe = secure_base_name n
      in if safe = [] then (Inl (''invalid file_name '' @ go_quote n @ '': '' @ file_name_required), fs)
         else if b = [] then (Inl (apostrophe @ ''content_base64'' @ apostrophe @ '' required for '' @ go_quote n @ '': '' @ content_required), fs)
         else case write_result_stream c key batch safe (ue_b64 E b) fs of
             (Inl e, fs') \<Rightarrow> (Inl (''decode base64 for '' @ go_quote n @ '': '' @ ue_io_text E e), fs')
           | (Inr _, fs') \<Rightarrow> json_write E c key batch rs (acc @ [safe]) fs')"

definition send_json ::
  "upload_env \<Rightarrow> local_cfg \<Rightarrow> string \<Rightarrow> string \<Rightarrow> (string \<times> string) list option option \<Rightarrow> fs \<Rightarrow> (string + string list) \<times> fs" where
  "send_json E c key batch decoded fs =
     (case decoded of
        None \<Rightarrow> (Inl ''invalid JSON body'', fs)
      | Some None \<Rightarrow> (Inl (apostrophe @ ''results'' @ apostrophe @ '' array is required in the body''), fs)
      | Some (Some rs) \<Rightarrow>
          if rs = [] then (Inl (apostrophe @ ''results'' @ apostrophe @ '' array is empty''), fs)
          else case json_names_error [] rs of
            Some e \<Rightarrow> (Inl e, fs)
          | None \<Rightarrow> json_write E c key batch rs [] fs)"

text \<open>A file that cannot be opened or written is reported and the others go on.\<close>

fun form_write ::
  "local_cfg \<Rightarrow> string \<Rightarrow> string \<Rightarrow> (string \<times> string option) list \<Rightarrow> string list \<times> string list \<Rightarrow> fs
   \<Rightarrow> (string list \<times> string list) \<times> fs" where
  "form_write c key batch [] acc fs = (acc, fs)"
| "form_write c key batch ((n, b) # rs) (sent, failed) fs =
     (let safe = secure_base_name n
      in if safe = [] then form_write c key batch rs (sent, failed @ [n]) fs
         else case b of
           None \<Rightarrow> form_write c key batch rs (sent, failed @ [safe]) fs
         | Some d \<Rightarrow>
           (case write_result_file c key batch safe d fs of
              (Inl _, fs') \<Rightarrow> form_write c key batch rs (sent, failed @ [safe]) fs'
            | (Inr _, fs') \<Rightarrow> form_write c key batch rs (sent @ [safe], failed) fs'))"

definition is_tar_gz_content_type :: "string \<Rightarrow> bool" where
  "is_tar_gz_content_type ct \<longleftrightarrow> ct \<in> {''application/gzip'', ''application/x-gzip'', ''application/x-tar+gzip''}"

definition extract_opts :: "upload_env \<Rightarrow> extract_options" where
  "extract_opts E = \<lparr>max_decompressed_bytes = default_max_decompressed_bytes,
     max_file_count = (if 0 < ue_max_files E then ue_max_files E else default_max_archive_file_count)\<rparr>"

definition parse_results_body ::
  "upload_env \<Rightarrow> local_cfg \<Rightarrow> string \<Rightarrow> string \<Rightarrow> upload_request \<Rightarrow> fs
   \<Rightarrow> ((nat \<times> string) + (string list \<times> string list)) \<times> fs" where
  "parse_results_body E c key batch req fs =
     (if \<not> prefix ''application/json'' (ur_type req) \<and> \<not> prefix ''multipart/form-data'' (ur_type req)
         \<and> \<not> is_tar_gz_content_type (ur_type req)
      then (Inl (400, ''Content-Type must be application/json, multipart/form-data, or application/gzip''), fs)
      else case ur_body req of
        TooLarge \<Rightarrow> (Inl (413, ''request body too large''), fs)
      | JsonBody b \<Rightarrow> (case send_json E c key batch b fs of
          (Inl m, fs') \<Rightarrow> (Inl (400, m), fs') | (Inr sent, fs') \<Rightarrow> (Inr (sent, []), fs'))
      | FormBody None \<Rightarrow> (Inl (400, ''parse multipart form''), fs)
      | FormBody (Some rs) \<Rightarrow>
          if rs = [] then (Inl (400, ''no files provided in '' @ apostrophe @ ''files[]'' @ apostrophe @ '' field''), fs)
          else (case form_write c key batch rs ([], []) fs of (r, fs') \<Rightarrow> (Inr r, fs'))
      | ArchiveBody a \<Rightarrow> (case extract_to_storage (ue_sched E) c key batch (extract_opts E) a fs of
          (Inl e, fs') \<Rightarrow> (Inl (400, ue_archive_text E e), fs') | (Inr sent, fs') \<Rightarrow> (Inr (sent, []), fs')))"

section \<open>The project of an upload\<close>

text \<open>\<open>resolveProjectID\<close>: a number is an id when there is one, and a slug otherwise.\<close>

definition resolve_upload_project :: "ctx \<Rightarrow> string \<Rightarrow> project_db \<Rightarrow> project option" where
  "resolve_upload_project q v db =
     (let by_slug = (if c_fails q ''projects.GetProjectBySlugAny'' then None else get_project_by_slug_any v (project_rows db))
      in case parse_int v of
           None \<Rightarrow> by_slug
         | Some i \<Rightarrow> (case (if c_fails q ''projects.GetProject'' then None else get_project i db) of
             Some p \<Rightarrow> Some p | None \<Rightarrow> by_slug))"

text \<open>The directory of a project that may exist already.\<close>

definition ensure_storage :: "local_cfg \<Rightarrow> string \<Rightarrow> fs \<Rightarrow> bool \<times> fs" where
  "ensure_storage c key fs = (case alloc_storage c key fs of (r, fs') \<Rightarrow> (r = Inr () \<or> r = Inl dir_exists, fs'))"

text \<open>The id of the parent a request names, created at the top when its slug is unknown.\<close>

definition force_parent :: "ctx \<Rightarrow> local_cfg \<Rightarrow> string \<Rightarrow> upload_srv \<Rightarrow> upload_srv \<times> ((nat \<times> string) + int)" where
  "force_parent q c par s =
     (case parse_int par of
        Some i \<Rightarrow> (s, Inr i)
      | None \<Rightarrow>
        (case (if c_fails q ''projects.GetProjectBySlugAny'' then None else get_project_by_slug_any par (project_rows (ps_db s))) of
           Some p \<Rightarrow> (s, Inr (pj_id p))
         | None \<Rightarrow>
           (case validate_project_id par of
              Some e \<Rightarrow> (s, Inl (400, e))
            | None \<Rightarrow>
              (case ensure_storage c par (ps_fs s) of
                 (False, fs) \<Rightarrow> (s\<lparr>ps_fs := fs\<rparr>, Inl (500, ''failed to create parent project''))
               | (True, fs) \<Rightarrow>
                 (case register_project q par None (ps_db s) of
                    (db, Inr p) \<Rightarrow> (s\<lparr>ps_fs := fs, ps_db := db\<rparr>, Inr (pj_id p))
                  | (db, Inl ErrProjectExists) \<Rightarrow>
                      (s\<lparr>ps_fs := fs, ps_db := db\<rparr>,
                       case (if c_fails q ''projects.GetProjectBySlugAny'' then None else get_project_by_slug_any par (project_rows db)) of
                         Some p \<Rightarrow> Inr (pj_id p) | None \<Rightarrow> Inl (500, ''failed to resolve parent project''))
                  | (db, Inl _) \<Rightarrow> (s\<lparr>ps_fs := fs, ps_db := db\<rparr>, Inl (500, ''failed to register parent project'')))))))"

text \<open>\<open>force_project_creation\<close>: the id and the key of the project made, or of the one found after all; a failed
  insert is only logged, and the id is then 0.\<close>

definition force_create ::
  "ctx \<Rightarrow> local_cfg \<Rightarrow> string \<Rightarrow> string \<Rightarrow> upload_srv \<Rightarrow> upload_srv \<times> ((nat \<times> string) + (int \<times> string))" where
  "force_create q c v par s =
     (if api_key_is_scoped (c_claims q) then (s, Inl (403, ''scoped api key cannot create new projects''))
      else case validate_project_id v of
        Some e \<Rightarrow> (s, Inl (400, e))
      | None \<Rightarrow>
        (case ensure_storage c v (ps_fs s) of
           (False, fs) \<Rightarrow> (s\<lparr>ps_fs := fs\<rparr>, Inl (500, ''failed to create project''))
         | (True, fs) \<Rightarrow>
           (case (if par = [] then (s\<lparr>ps_fs := fs\<rparr>, Inr None)
                  else case force_parent q c par (s\<lparr>ps_fs := fs\<rparr>) of
                    (s', Inl e) \<Rightarrow> (s', Inl e) | (s', Inr i) \<Rightarrow> (s', Inr (Some i))) of
              (s', Inl e) \<Rightarrow> (s', Inl e)
            | (s', Inr parent) \<Rightarrow>
              (case register_project q v parent (ps_db s') of
                 (db, Inr p) \<Rightarrow> (s'\<lparr>ps_db := db\<rparr>, Inr (pj_id p, pj_key p))
               | (db, Inl _) \<Rightarrow>
                   (s'\<lparr>ps_db := db\<rparr>,
                    Inr (case (if c_fails q ''projects.GetProjectBySlugAny'' then None else get_project_by_slug_any v (project_rows db)) of
                      Some p \<Rightarrow> (pj_id p, pj_key p) | None \<Rightarrow> (0, v)))))))"

section \<open>Uploading\<close>

definition generate_batch_id :: "ctx \<Rightarrow> string" where
  "generate_batch_id q = hex_encode (case rnd q 0 of Some b \<Rightarrow> b | None \<Rightarrow> replicate 16 (CHR 0x00))"

definition job_params :: "(string \<Rightarrow> string) \<Rightarrow> string list" where
  "job_params query = map query [''execution_name'', ''execution_from'', ''execution_type'', ''ci_branch'',
     ''ci_commit_sha'', ''ci_pipeline_id'', ''ci_pipeline_url'']"

definition gzip_magic :: string where
  "gzip_magic = [CHR 0x1F, CHR 0x8B]"

text \<open>\<open>sendResultsAsync\<close>: the body is staged as it is and a job is queued for it.\<close>

definition send_async ::
  "local_cfg \<Rightarrow> int \<Rightarrow> string \<Rightarrow> string \<Rightarrow> string \<Rightarrow> string list \<Rightarrow> upload_request \<Rightarrow> upload_srv
   \<Rightarrow> upload_srv \<times> upload_reply http_reply" where
  "send_async c i slug key batch params req s =
     (let staging = ''staging/'' @ batch @ ''.tar.gz''
      in if take 2 (ur_raw req) \<noteq> gzip_magic
         then (s, err 400 (if length (ur_raw req) < 2 then ''invalid gzip stream: EOF'' else ''invalid gzip stream: missing gzip magic bytes''))
         else case write_raw_blob c staging (ur_raw req) (ps_fs s) of
             (Inl _, fs) \<Rightarrow> (s\<lparr>ps_fs := fs\<rparr>, err 500 ''failed to stage upload'')
           | (Inr _, fs) \<Rightarrow>
               if ur_body req = TooLarge then (s\<lparr>ps_fs := fs\<rparr>, err 413 ''request body too large'')
               else (s\<lparr>ps_fs := fs, us_jobs := us_jobs s @ [\<lparr>uj_project = i, uj_slug = slug, uj_key = key, uj_batch = batch,
                       uj_staged = Some staging, uj_params = params\<rparr>]\<rparr>,
                     ok 202 (''Results staged for project '' @ apostrophe @ slug @ apostrophe @ '' (async)'') (Staged batch)))"

definition send_sync ::
  "upload_env \<Rightarrow> local_cfg \<Rightarrow> int \<Rightarrow> string \<Rightarrow> string \<Rightarrow> string \<Rightarrow> string list \<Rightarrow> upload_request \<Rightarrow> upload_srv
   \<Rightarrow> upload_srv \<times> upload_reply http_reply" where
  "send_sync E c i slug key batch params req s =
     (case parse_results_body E c key batch req (ps_fs s) of
        (Inl (code, m), fs) \<Rightarrow> (s\<lparr>ps_fs := fs\<rparr>, err code m)
      | (Inr (sent, failed), fs) \<Rightarrow>
          if failed \<noteq> [] then (s\<lparr>ps_fs := fs\<rparr>, err 400 ''Problems with files'')
          else (s\<lparr>ps_fs := fs, us_jobs := us_jobs s @ [\<lparr>uj_project = i, uj_slug = slug, uj_key = key, uj_batch = batch,
                  uj_staged = None, uj_params = params\<rparr>]\<rparr>,
                ok 200 (''Results successfully sent for project '' @ apostrophe @ slug @ apostrophe)
                  (if ue_terse E then Terse
                   else Uploaded batch (case fst (list_result_files c key batch fs) of Inl _ \<Rightarrow> [] | Inr ns \<Rightarrow> ns) sent)))"

definition send_results ::
  "ctx \<Rightarrow> upload_env \<Rightarrow> local_cfg \<Rightarrow> string \<Rightarrow> (string \<Rightarrow> string) \<Rightarrow> upload_request \<Rightarrow> upload_srv
   \<Rightarrow> upload_srv \<times> upload_reply http_reply" where
  "send_results q E c v query req s =
     (let batch = generate_batch_id q;
          go = (\<lambda>i slug key s'. if query ''async'' = ''true'' \<and> is_tar_gz_content_type (ur_type req)
            then send_async c i slug key batch (job_params query) req s'
            else send_sync E c i slug key batch (job_params query) req s')
      in case resolve_upload_project q v (ps_db s) of
           Some p \<Rightarrow> if \<not> api_key_project_allowed (c_claims q) (pj_id p)
             then (s, err 403 ''api key is not authorized for this project'')
             else go (pj_id p) (pj_slug p) (pj_key p) s
         | None \<Rightarrow>
             if query ''force_project_creation'' \<noteq> ''true''
             then (s, err 404 (''project '' @ apostrophe @ v @ apostrophe @ '' not found''))
             else case force_create q c v (query ''parent_id'') s of
               (s', Inl (code, m)) \<Rightarrow> (s', err code m)
             | (s', Inr (i, key)) \<Rightarrow> go i v key s')"

definition clean_results_request ::
  "ctx \<Rightarrow> local_cfg \<Rightarrow> string \<Rightarrow> upload_srv \<Rightarrow> upload_srv \<times> upload_reply http_reply" where
  "clean_results_request q c v s =
     (case resolve_upload_project q v (ps_db s) of
        None \<Rightarrow> (s, err 404 (''project '' @ apostrophe @ v @ apostrophe @ '' not found''))
      | Some p \<Rightarrow>
          if \<not> api_key_project_allowed (c_claims q) (pj_id p) then (s, err 403 ''api key is not authorized for this project'')
          else case clean_results c (pj_key p) (ps_fs s) of
            (Inl _, fs) \<Rightarrow> (s\<lparr>ps_fs := fs\<rparr>, err 500 ''error cleaning results'')
          | (Inr _, fs) \<Rightarrow> (s\<lparr>ps_fs := fs\<rparr>, ok 200 ''Results successfully cleaned'' Cleaned))"

section \<open>What an upload leaves\<close>

abbreviation batch_file :: "local_cfg \<Rightarrow> string \<Rightarrow> string \<Rightarrow> string \<Rightarrow> place" where
  "batch_file c key batch n \<equiv> home c key @ [''results'', batch, n]"

lemma put_file_keeps_file: "is_file p fs \<Longrightarrow> is_file p (snd (put_file p b fs))"
proof (cases "p = []")
  case False
  assume f: "is_file p fs"
  have "\<not> prefix p (butlast p)" using False prefix_length_le [of p "butlast p"] by (cases p rule: rev_cases) auto
  then have mk: "node_at p (snd (mkdir_all (butlast p) fs)) = node_at p fs" by (simp add: mkdir_all_node)
  then show ?thesis using f
    by (cases "mkdir_all (butlast p) fs"; cases "fst (mkdir_all (butlast p) fs)")
      (auto simp: put_file_def bind_io_def is_file_def write_file_node)
qed (simp add: is_file_def)

lemma write_result_file_keeps_file:
  assumes "is_abs (projects_path c)" and "plain batch" and "plain n" and "plain m" and "is_file (batch_file c key batch m) fs"
  shows "is_file (batch_file c key batch m) (snd (write_result_file c key batch n b fs))"
proof (cases "n = m")
  case False
  then show ?thesis using write_result_file_node [OF assms(1-4)] assms(5) by (simp add: is_file_def)
next
  case True
  show ?thesis
  proof (cases "store_path (projects_path c) key [''results'', batch, n]")
    case None
    then show ?thesis using assms(5) by (simp add: write_result_file_err throw_def)
  next
    case (Some p)
    have "abs_segs p = batch_file c key batch n"
      using store_path_plain [OF Some assms(1)] assms(2,3) by (simp add: home_def)
    then have "write_result_file c key batch n b = put_file (batch_file c key batch n) b"
      by (simp add: write_result_file_def with_path_def Some)
    then show ?thesis using assms(5) True by (simp add: put_file_keeps_file)
  qed
qed

lemma write_result_file_makes:
  assumes "is_abs (projects_path c)" and "plain batch" and "plain n" and "fst (write_result_file c key batch n b fs) = Inr ()"
  shows "node_at (batch_file c key batch n) (snd (write_result_file c key batch n b fs)) = Some (File b)"
proof -
  note put = write_result_file_plain [OF assms]
  show ?thesis unfolding put by (rule put_file_ok) (use assms(4) put in simp)
qed

lemma write_result_stream_snd: "snd (write_result_stream c key batch n src fs) = snd (write_result_file c key batch n (fst src) fs)"
  by (cases "write_result_file c key batch n (fst src) fs")
    (auto simp: write_result_stream_def bind_io_def ret_def throw_def split: sum.splits)

lemma write_result_stream_Inr:
  assumes "fst (write_result_stream c key batch n src fs) = Inr u"
  shows "fst (write_result_file c key batch n (fst src) fs) = Inr ()" and "snd src"
  using assms by (cases "write_result_file c key batch n (fst src) fs";
      auto simp: write_result_stream_def bind_io_def ret_def throw_def split: sum.splits if_splits)+

lemma json_write_files:
  assumes "json_write E c key batch rs acc fs = (Inr names, fs')" and "is_abs (projects_path c)" and "plain batch"
    and "\<forall>n \<in> set acc. plain n \<and> is_file (batch_file c key batch n) fs"
  shows "names = acc @ map (\<lambda>r. secure_base_name (fst r)) rs \<and> (\<forall>n \<in> set names. plain n \<and> is_file (batch_file c key batch n) fs')"
  using assms(1,4)
proof (induction rs arbitrary: acc fs)
  case (Cons r rs)
  obtain n b where r: "r = (n, b)" by (cases r)
  let ?s = "secure_base_name n" and ?src = "ue_b64 E b"
  let ?fs = "snd (write_result_file c key batch ?s (fst ?src) fs)"
  have ne: "?s \<noteq> []" and step: "fst (write_result_stream c key batch ?s ?src fs) = Inr ()"
    and rest: "json_write E c key batch rs (acc @ [?s]) ?fs = (Inr names, fs')"
    using Cons.prems(1) write_result_stream_snd [of c key batch ?s ?src fs]
    by (auto simp: r Let_def split: if_splits prod.splits sum.splits)
  have ps: "plain ?s" by (rule secure_base_name_plain [OF ne])
  have "is_file (batch_file c key batch ?s) ?fs"
    using write_result_file_makes [OF assms(2,3) ps write_result_stream_Inr(1) [OF step]] by (simp add: is_file_def)
  moreover have "is_file (batch_file c key batch m) ?fs" if "m \<in> set acc" for m
    using write_result_file_keeps_file [OF assms(2,3) ps] Cons.prems(2) that by simp
  ultimately show ?case using Cons.IH [OF rest] Cons.prems(2) ps by (auto simp: r)
qed simp

lemma form_write_files:
  assumes "form_write c key batch rs acc fs = ((sent, failed), fs')" and "is_abs (projects_path c)" and "plain batch"
    and "\<forall>n \<in> set (fst acc). plain n \<and> is_file (batch_file c key batch n) fs"
  shows "\<forall>n \<in> set sent. plain n \<and> is_file (batch_file c key batch n) fs'"
  using assms(1,4)
proof (induction rs arbitrary: acc fs)
  case Nil
  then show ?case by simp
next
  case (Cons r rs)
  obtain n b where r: "r = (n, b)" by (cases r)
  obtain s0 f0 where acc: "acc = (s0, f0)" by (cases acc)
  let ?s = "secure_base_name n"
  show ?case
  proof (cases "?s = [] \<or> b = None")
    case True
    then obtain f1 where "form_write c key batch rs (s0, f1) fs = ((sent, failed), fs')"
      using Cons.prems(1) by (cases "?s = []"; simp add: r acc Let_def)
    then show ?thesis by (rule Cons.IH) (use Cons.prems(2) acc in simp)
  next
    case False
    then obtain d where d: "b = Some d" and ps: "plain ?s" using secure_base_name_plain by auto
    let ?w = "write_result_file c key batch ?s d fs"
    have keep: "is_file (batch_file c key batch m) (snd ?w)" if "m \<in> set s0" for m
      using write_result_file_keeps_file [OF assms(2,3) ps] Cons.prems(2) that acc by simp
    show ?thesis
    proof (cases "fst ?w")
      case (Inl e)
      then have "form_write c key batch rs (s0, f0 @ [?s]) (snd ?w) = ((sent, failed), fs')"
        using Cons.prems(1) False by (cases ?w) (simp add: r acc d Let_def)
      then show ?thesis by (rule Cons.IH) (use Cons.prems(2) acc keep in simp)
    next
      case (Inr u)
      then have "form_write c key batch rs (s0 @ [?s], f0) (snd ?w) = ((sent, failed), fs')"
        using Cons.prems(1) False by (cases ?w) (simp add: r acc d Let_def)
      note rest = this
      have "is_file (batch_file c key batch ?s) (snd ?w)"
        using write_result_file_makes [OF assms(2,3) ps] Inr by (simp add: is_file_def)
      then show ?thesis using Cons.IH [OF rest] Cons.prems(2) acc keep ps by auto
    qed
  qed
qed

lemma extract_names_files:
  assumes "extract_to_storage sched c key batch opts a fs = (Inr names, fs')"
    and "\<forall>e \<in> set (ar_entries a). 0 \<le> te_head e" and "is_abs (projects_path c)" and "plain batch"
    and "\<And>es. mset (sched es) = mset es" and "n \<in> set names"
  shows "plain n \<and> is_file (batch_file c key batch n) fs'"
proof -
  obtain es where es: "read_with opts a = Inr es" "names = sort (map fst es)"
    using assms(1) by (auto simp: extract_to_storage_def split: sum.splits prod.splits)
  obtain b where b: "(n, b) \<in> set es" using assms(6) es(2) by auto
  have "distinct es" using read_with_ok(2) [OF es(1) assms(2)] by (simp add: distinct_map)
  then have "distinct (sched es)" "set (sched es) = set es"
    using assms(5) [of es] by (metis mset_eq_imp_distinct_iff, metis mset_eq_setD)
  from extract_to_storage_files [OF assms(1,2) es(1) assms(3,4) this b]
  have "is_file (batch_file c key batch n) fs'" by (simp add: is_file_def)
  moreover have "plain n" using read_with_ok(3) [OF es(1) assms(2)] b by auto
  ultimately show ?thesis by simp
qed

definition heads_ok :: "upload_request \<Rightarrow> bool" where
  "heads_ok req \<longleftrightarrow> (case ur_body req of ArchiveBody a \<Rightarrow> list_all (\<lambda>e. 0 \<le> te_head e) (ar_entries a) | _ \<Rightarrow> True)"

lemma parse_results_files:
  assumes "parse_results_body E c key batch req fs = (Inr (sent, failed), fs')"
    and "heads_ok req" and "is_abs (projects_path c)" and "plain batch" and "\<And>es. mset (ue_sched E es) = mset es" and "n \<in> set sent"
  shows "is_file (batch_file c key batch n) fs'"
proof (cases "ur_body req")
  case TooLarge
  then show ?thesis using assms(1) by (auto simp: parse_results_body_def split: if_splits)
next
  case (JsonBody b)
  then obtain rs where "json_write E c key batch rs [] fs = (Inr sent, fs')"
    using assms(1) by (auto simp: parse_results_body_def send_json_def split: if_splits prod.splits sum.splits option.splits)
  from json_write_files [OF this assms(3,4)] show ?thesis using assms(6) by simp
next
  case (FormBody b)
  then obtain rs where "form_write c key batch rs ([], []) fs = ((sent, failed), fs')"
    using assms(1) by (auto simp: parse_results_body_def split: if_splits prod.splits option.splits)
  from form_write_files [OF this assms(3,4)] show ?thesis using assms(6) by simp
next
  case (ArchiveBody a)
  then have "extract_to_storage (ue_sched E) c key batch (extract_opts E) a fs = (Inr sent, fs')"
    using assms(1) by (auto simp: parse_results_body_def split: if_splits prod.splits sum.splits)
  then show ?thesis using extract_names_files [OF _ _ assms(3,4,5,6)] assms(2) ArchiveBody
    by (auto simp: heads_ok_def list_all_iff)
qed

lemma hex_chars: "m < 16 \<Longrightarrow> hex_digit m \<noteq> CHR ''.'' \<and> hex_digit m \<noteq> slash"
proof -
  assume m: "m < 16"
  have "of_char (hex_digit m) = (if m < 10 then 48 + m else 87 + m)"
    using m by (simp add: hex_digit_def)
  then show ?thesis using m by (auto dest: arg_cong [where f = "of_char :: char \<Rightarrow> nat"] split: if_splits)
qed

lemma plain_hex:
  assumes "s \<noteq> []"
  shows "plain (hex_encode s)"
proof -
  have clean: "CHR ''.'' \<notin> set (hex_encode s) \<and> slash \<notin> set (hex_encode s)" for s
  proof (induction s)
    case (Cons a s)
    show ?case using Cons of_char_split [of a] hex_chars [of "of_char a div 16"] hex_chars [of "of_char a mod 16"]
      by (auto simp: hex_encode_Cons)
  qed simp
  have "hex_encode s \<noteq> []" using assms by (cases s) (simp_all add: hex_encode_Cons)
  then show ?thesis by (rule plain_chars) (use clean [of s] in simp_all)
qed

lemma plain_batch_id: "rnd q 0 \<noteq> Some [] \<Longrightarrow> plain (generate_batch_id q)"
  unfolding generate_batch_id_def by (rule plain_hex) (auto split: option.splits)

text \<open>A reply of an upload comes from one of the two ways to send.\<close>

lemma send_results_cases:
  assumes "send_results q E c v query req s = (s', r)" and "status r = 200 \<or> status r = 202"
  obtains i slug key s0 where
    "(s', r) = (if query ''async'' = ''true'' \<and> is_tar_gz_content_type (ur_type req)
       then send_async c i slug key (generate_batch_id q) (job_params query) req s0
       else send_sync E c i slug key (generate_batch_id q) (job_params query) req s0)"
    and "(\<exists>p. resolve_upload_project q v (ps_db s) = Some p \<and> api_key_project_allowed (c_claims q) (pj_id p)
            \<and> i = pj_id p \<and> slug = pj_slug p \<and> key = pj_key p \<and> s0 = s)
      \<or> (resolve_upload_project q v (ps_db s) = None \<and> force_create q c v (query ''parent_id'') s = (s0, Inr (i, key)) \<and> slug = v)"
proof (cases "resolve_upload_project q v (ps_db s)")
  case (Some p)
  then have "api_key_project_allowed (c_claims q) (pj_id p)"
    using assms by (auto simp: send_results_def Let_def split: if_splits)
  with Some show ?thesis using assms(1) by (intro that [of "pj_id p" "pj_slug p" "pj_key p" s]) (auto simp: send_results_def Let_def)
next
  case None
  obtain s0 x where f: "force_create q c v (query ''parent_id'') s = (s0, x)" by (cases "force_create q c v (query ''parent_id'') s")
  have q: "query ''force_project_creation'' = ''true''"
    using assms None by (auto simp: send_results_def Let_def split: if_splits)
  show ?thesis
  proof (cases x)
    case (Inl e)
    then have e: "(s', r) = (s0, err (fst e) (snd e))" using assms(1) None q f by (cases e) (simp add: send_results_def Let_def)
    have "fst e \<in> {400, 403, 500}"
    proof -
      have "fst d \<in> {400, 500}" if "force_parent q c par t = (t', Inl d)" for par t t' d
        using that by (auto simp: force_parent_def split: option.splits prod.splits bool.splits sum.splits project_error.splits)
      then show ?thesis using f Inl
        by (auto simp: force_create_def split: if_splits option.splits prod.splits bool.splits sum.splits) (metis fst_conv insert_iff)+
    qed
    then show ?thesis using assms(2) e by auto
  next
    case (Inr y)
    obtain i key where y: "y = (i, key)" by (cases y)
    show ?thesis using assms(1) None q f
      by (intro that [of i v key s0]) (auto simp: send_results_def Let_def Inr y)
  qed
qed

lemma parse_results_refused:
  assumes "parse_results_body E c key batch req fs = (Inl (code, m), fs')"
  shows "code = 400 \<or> code = 413"
proof (cases "ur_body req")
  case (JsonBody b)
  then show ?thesis using assms
    by (cases "send_json E c key batch b fs"; cases "fst (send_json E c key batch b fs)")
      (auto simp: parse_results_body_def split: if_splits)
next
  case (FormBody b)
  then show ?thesis using assms by (cases b) (auto simp: parse_results_body_def split: if_splits prod.splits)
next
  case (ArchiveBody a)
  then show ?thesis using assms
    by (cases "extract_to_storage (ue_sched E) c key batch (extract_opts E) a fs";
        cases "fst (extract_to_storage (ue_sched E) c key batch (extract_opts E) a fs)")
      (auto simp: parse_results_body_def split: if_splits)
qed (use assms in \<open>auto simp: parse_results_body_def split: if_splits\<close>)

lemma send_sync_effect:
  assumes "send_sync E c i slug key b ps req t = (t', r)"
  shows "ps_db t' = ps_db t"
    and "us_jobs t' = us_jobs t \<and> status r \<noteq> 200 \<and> status r \<noteq> 202
      \<or> (\<exists>j. us_jobs t' = us_jobs t @ [j] \<and> uj_project j = i \<and> uj_key j = key)"
  using assms parse_results_refused [of E c key b req "ps_fs t"]
  by (cases "parse_results_body E c key b req (ps_fs t)"; cases "fst (parse_results_body E c key b req (ps_fs t))";
      auto simp: send_sync_def split: prod.splits if_splits)+

lemma send_async_effect:
  assumes "send_async c i slug key b ps req t = (t', r)"
  shows "ps_db t' = ps_db t"
    and "us_jobs t' = us_jobs t \<and> status r \<noteq> 200 \<and> status r \<noteq> 202
      \<or> (\<exists>j. us_jobs t' = us_jobs t @ [j] \<and> uj_project j = i \<and> uj_key j = key)"
  using assms by (auto simp: send_async_def Let_def split: prod.splits sum.splits if_splits)

lemma send_sync_run:
  assumes "send_sync E c i slug key b ps req t = (t', r)"
  shows "status r \<noteq> 200 \<and> status r \<noteq> 202 \<and> us_jobs t' = us_jobs t
    \<or> status r = 200 \<and> us_jobs t' = us_jobs t @ [\<lparr>uj_project = i, uj_slug = slug, uj_key = key, uj_batch = b,
          uj_staged = None, uj_params = ps\<rparr>]
      \<and> (\<exists>sent. parse_results_body E c key b req (ps_fs t) = (Inr (sent, []), ps_fs t')
          \<and> (\<forall>batch files ns. body r = Some (Uploaded batch files ns) \<longrightarrow> batch = b \<and> ns = sent))"
proof -
  obtain x fs where p: "parse_results_body E c key b req (ps_fs t) = (x, fs)" by (cases "parse_results_body E c key b req (ps_fs t)")
  show ?thesis
  proof (cases x)
    case (Inl e)
    then show ?thesis using assms p parse_results_refused [of E c key b req "ps_fs t"] by (cases e) (auto simp: send_sync_def)
  next
    case (Inr y)
    then show ?thesis using assms p by (cases y) (auto simp: send_sync_def split: if_splits)
  qed
qed

lemma send_async_run:
  assumes "send_async c i slug key b ps req t = (t', r)"
  shows "status r \<noteq> 200 \<and> status r \<noteq> 202 \<and> us_jobs t' = us_jobs t
    \<or> status r = 202 \<and> body r = Some (Staged b) \<and> us_jobs t' = us_jobs t @ [\<lparr>uj_project = i, uj_slug = slug, uj_key = key, uj_batch = b,
          uj_staged = Some (''staging/'' @ b @ ''.tar.gz''), uj_params = ps\<rparr>]
      \<and> node_at (at (projects_path c) [''staging/'' @ b @ ''.tar.gz'']) (ps_fs t') = Some (File (ur_raw req))"
proof -
  let ?w = "write_raw_blob c (''staging/'' @ b @ ''.tar.gz'') (ur_raw req) (ps_fs t)"
  have put: "fst ?w = Inr () \<Longrightarrow> node_at (at (projects_path c) [''staging/'' @ b @ ''.tar.gz'']) (snd ?w) = Some (File (ur_raw req))"
    unfolding write_raw_blob_def by (rule put_file_ok)
  show ?thesis
  proof (cases "fst ?w")
    case (Inl e)
    then show ?thesis using assms by (cases ?w) (auto simp: send_async_def Let_def split: if_splits)
  next
    case (Inr u)
    then show ?thesis using assms put by (cases ?w) (auto simp: send_async_def Let_def split: if_splits)
  qed
qed

text \<open>Forcing a project into being queues nothing.\<close>

lemma force_parent_jobs: "force_parent q c par s = (s', x) \<Longrightarrow> us_jobs s' = us_jobs s"
  by (auto simp: force_parent_def split: option.splits prod.splits bool.splits sum.splits project_error.splits)

lemma force_create_jobs:
  assumes "force_create q c v par s = (s', x)"
  shows "us_jobs s' = us_jobs s"
  using assms force_parent_jobs [of q c par]
  by (auto simp: force_create_def split: if_splits option.splits prod.splits bool.splits sum.splits)

lemma send_results_refused:
  assumes "send_results q E c v query req s = (s', r)" and "status r \<noteq> 200" and "status r \<noteq> 202"
  shows "us_jobs s' = us_jobs s"
proof -
  have async: "us_jobs s' = us_jobs t" if "send_async c i slug key b ps req t = (s', r)" for i slug key b ps t
    using send_async_run [OF that] assms(2,3) by blast
  have sync: "us_jobs s' = us_jobs t" if "send_sync E c i slug key b ps req t = (s', r)" for i slug key b ps t
    using send_sync_run [OF that] assms(2,3) by blast
  show ?thesis
  proof (cases "resolve_upload_project q v (ps_db s)")
    case (Some p)
    then show ?thesis using assms(1) async sync by (auto simp: send_results_def Let_def split: if_splits)
  next
    case None
    obtain s0 x where f: "force_create q c v (query ''parent_id'') s = (s0, x)" by (cases "force_create q c v (query ''parent_id'') s")
    have "us_jobs s' = us_jobs s0 \<or> s' = s"
      using assms(1) None f async sync by (auto simp: send_results_def Let_def split: if_splits sum.splits)
    then show ?thesis using force_create_jobs [OF f] by auto
  qed
qed



text \<open>An upload that forces a project under a parent the table refuses is accepted all the same: the failed
  insert is only logged, and a job is queued for project 0, which does not exist, with the files under the
  name of the path.\<close>

theorem unregistered_upload_accepted:
  assumes "send_results q E c v query req s = (s', r)" and "status r = 200 \<or> status r = 202"
    and "resolve_upload_project q v (ps_db s) = None" and "\<not> c_fails q ''projects.GetProjectBySlugAny''"
    and "parse_int (query ''parent_id'') = Some i" and "nested_parent (project_rows (ps_db s)) (Some i)"
  shows "\<exists>j js. us_jobs s' = js @ [j] \<and> uj_project j = 0 \<and> uj_key j = v \<and> \<not> (\<exists>p \<in> set (project_rows (ps_db s')). pj_slug p = v)"
proof -
  obtain i0 slug key s0 where go: "(s', r) = (if query ''async'' = ''true'' \<and> is_tar_gz_content_type (ur_type req)
       then send_async c i0 slug key (generate_batch_id q) (job_params query) req s0
       else send_sync E c i0 slug key (generate_batch_id q) (job_params query) req s0)"
    and f: "force_create q c v (query ''parent_id'') s = (s0, Inr (i0, key))" "slug = v"
    using send_results_cases [OF assms(1,2)] assms(3) by (metis option.distinct(1))
  have ne: "query ''parent_id'' \<noteq> []" using assms(5) by (auto simp: parse_int_def)
  have none: "get_project_by_slug_any v (project_rows (ps_db s)) = None"
    using assms(3,4) by (auto simp: resolve_upload_project_def Let_def split: option.splits)
  have no_slug: "\<not> (\<exists>p \<in> set (project_rows (ps_db s)). pj_slug p = v)"
  proof -
    have "sort_key pj_id (filter (\<lambda>p. pj_slug p = v) (project_rows (ps_db s))) = []"
      using none by (auto simp: get_project_by_slug_any_def Let_def filter_empty_conv split: list.splits)
    then have "set (filter (\<lambda>p. pj_slug p = v) (project_rows (ps_db s))) = {}" by (metis set_sort set_empty)
    then show ?thesis by (auto simp: filter_empty_conv)
  qed
  have rows: "project_rows (fst (register_project q v (Some i) (ps_db s))) = project_rows (ps_db s)"
    and refused: "\<exists>e. snd (register_project q v (Some i) (ps_db s)) = Inl e"
    using assms(6) by (auto simp: register_project_def insert_project_with_parent_def insert_child_row_def exec_insert_project_def Let_def)
  have parent: "force_parent q c (query ''parent_id'') t = (t, Inr i)" for t using assms(5) by (simp add: force_parent_def)
  have out: "i0 = 0" "key = v" "project_rows (ps_db s0) = project_rows (ps_db s)"
    using f(1) ne rows refused none assms(4)
    by (auto simp: force_create_def parent split: if_splits option.splits prod.splits bool.splits sum.splits)
  have "send_async c 0 v v (generate_batch_id q) (job_params query) req s0 = (s', r)
      \<or> send_sync E c 0 v v (generate_batch_id q) (job_params query) req s0 = (s', r)"
    using go unfolding out(1,2) f(2) by (simp split: if_splits)
  then have "ps_db s' = ps_db s0" "\<exists>j js. us_jobs s' = js @ [j] \<and> uj_project j = 0 \<and> uj_key j = v"
    using send_sync_effect [of E c 0 v v] send_async_effect [of c 0 v v] assms(2) by metis+
  then show ?thesis using no_slug out(3) by metis
qed

text \<open>Two results of one JSON upload whose names differ only in their directories are both reported as
  processed, and the file has the content of the second: the duplicate check reads the names before their
  directories are cut off.\<close>

theorem json_names_collide:
  assumes "send_json E c key batch (Some (Some [(n, a), (m, b)])) fs = (Inr sent, fs')" and "n \<noteq> m"
    and "secure_base_name n = secure_base_name m" and "is_abs (projects_path c)" and "plain batch"
  shows "sent = [secure_base_name n, secure_base_name n]
    \<and> node_at (batch_file c key batch (secure_base_name n)) fs' = Some (File (fst (ue_b64 E b)))"
proof -
  let ?s = "secure_base_name n"
  have w: "json_write E c key batch [(n, a), (m, b)] [] fs = (Inr sent, fs')"
    using assms(1) by (auto simp: send_json_def split: option.splits)
  have ps: "plain ?s" by (rule secure_base_name_plain) (use w in \<open>auto simp: Let_def split: if_splits\<close>)
  let ?fs = "snd (write_result_file c key batch ?s (fst (ue_b64 E a)) fs)"
  have rest: "json_write E c key batch [(m, b)] [?s] ?fs = (Inr sent, fs')"
    using w write_result_stream_snd [of c key batch ?s "ue_b64 E a" fs]
    by (simp add: Let_def assms(3) del: json_write.simps(1) split: if_splits prod.splits sum.splits)
  then have st: "fst (write_result_stream c key batch ?s (ue_b64 E b) ?fs) = Inr ()"
    and fs': "fs' = snd (write_result_stream c key batch ?s (ue_b64 E b) ?fs)"
    by (auto simp: Let_def assms(3) split: if_splits prod.splits sum.splits)
  have "node_at (batch_file c key batch ?s) fs' = Some (File (fst (ue_b64 E b)))"
    unfolding fs' write_result_stream_snd
    by (rule write_result_file_makes [OF assms(4,5) ps write_result_stream_Inr(1) [OF st]])
  moreover have "sent = [?s, ?s]" using json_write_files [OF w assms(4,5)] assms(3) by simp
  ultimately show ?thesis by simp
qed

section \<open>Instances\<close>

definition demo_ue :: upload_env where
  "demo_ue = \<lparr>ue_b64 = (\<lambda>s. (s, True)), ue_io_text = (\<lambda>_. []), ue_archive_text = (\<lambda>_. []), ue_max_files = 0, ue_terse = False, ue_sched = rev\<rparr>"

definition demo_us :: upload_srv where
  "demo_us = \<lparr>ps_db = demo_projects, ps_fs = demo_pfs, us_jobs = []\<rparr>"

definition demo_upload :: upload_request where
  "demo_upload = \<lparr>ur_type = ''application/json'', ur_body = JsonBody (Some (Some [(''x/r.json'', ''1''), (''r.json'', ''2'')])), ur_raw = []\<rparr>"

definition demo_query :: "string \<Rightarrow> string" where
  "demo_query k = (if k = ''force_project_creation'' then ''true'' else if k = ''parent_id'' then ''4'' else [])"

definition demo_limited :: ctx where
  "demo_limited = demo_pq\<lparr>c_claims := Some [(''auth_type'', CStr ''api_key''), (''project_ids'', CIds [2])]\<rparr>"

lemma demo_upload_run:
  "status (snd (send_results demo_pq demo_ue demo_pc ''b'' demo_query demo_upload demo_us)) = 200"
  "body (snd (send_results demo_pq demo_ue demo_pc ''b'' demo_query demo_upload demo_us))
     = Some (Uploaded (generate_batch_id demo_pq) [''r.json''] [''r.json'', ''r.json''])"
  by code_simp+

text \<open>Archives go to the worker on request.\<close>

definition demo_staged_upload :: upload_request where
  "demo_staged_upload = \<lparr>ur_type = ''application/gzip'', ur_body = ArchiveBody \<lparr>ar_gzip = False, ar_entries = [], ar_tail = None\<rparr>,
     ur_raw = gzip_magic @ ''xyz''\<rparr>"

definition demo_async_query :: "string \<Rightarrow> string" where
  "demo_async_query k = (if k = ''async'' then ''true'' else if k = ''ci_branch'' then ''main'' else [])"

lemma demo_staged_run:
  "status (snd (send_results demo_pq demo_ue demo_pc ''b'' demo_async_query demo_staged_upload demo_us)) = 202"
  by code_simp



lemma unregistered_upload_accepted_witness:
  "\<exists>j js. us_jobs (fst (send_results demo_pq demo_ue demo_pc ''new'' demo_query demo_upload demo_us)) = js @ [j]
     \<and> uj_project j = 0 \<and> uj_key j = ''new''"
proof -
  let ?r = "send_results demo_pq demo_ue demo_pc ''new'' demo_query demo_upload demo_us"
  have r: "?r = (fst ?r, snd ?r)" by simp
  have st: "status (snd ?r) = 200 \<or> status (snd ?r) = 202" by (rule disjI1) code_simp
  have a: "resolve_upload_project demo_pq ''new'' (ps_db demo_us) = None" and b: "parse_int (demo_query ''parent_id'') = Some 4"
    and d: "nested_parent (project_rows (ps_db demo_us)) (Some 4)"
    by code_simp+
  from unregistered_upload_accepted [OF r st a _ b d] show ?thesis by (auto simp del: demo_query_def)
qed

lemma json_names_collide_witness:
  "node_at (batch_file demo_pc ''b'' ''b1'' ''r.json'')
     (snd (send_json demo_ue demo_pc ''b'' ''b1'' (Some (Some [(''x/r.json'', ''1''), (''r.json'', ''2'')])) demo_pfs)) = Some (File ''2'')"
proof -
  let ?r = "send_json demo_ue demo_pc ''b'' ''b1'' (Some (Some [(''x/r.json'', ''1''), (''r.json'', ''2'')])) demo_pfs"
  have "fst ?r = Inr [''r.json'', ''r.json'']" by code_simp
  then have r: "?r = (Inr [''r.json'', ''r.json''], snd ?r)" by (metis prod.collapse)
  have a: "secure_base_name ''x/r.json'' = secure_base_name ''r.json''" and s: "secure_base_name ''x/r.json'' = ''r.json''"
    and b: "plain ''b1''"
    by code_simp+
  from json_names_collide [OF r _ a demo_pc_root(1) b] show ?thesis by (simp add: s demo_ue_def)
qed

end
