(* ===== verification/Reports.thy ===== *)
theory Reports
  imports Generate Uploads
begin

text \<open>
  The requests that start a generation and the ones that delete reports, \<open>handlers/report_handler.go\<close>, with
  \<open>ListChildIDs\<close> of \<open>store/pg/project.go\<close>: \<open>GenerateReport\<close>, \<open>GetJobStatus\<close>, \<open>CleanHistory\<close>,
  \<open>CleanGroupHistory\<close> and \<open>DeleteReport\<close>, over the project table, the world of \<open>Generate\<close> and the jobs handed to
  the job manager.

  The environment of a generation is given per project, so that in a group the stores can fail for one project
  and work for the next.
\<close>

section \<open>State\<close>

record report_job =
  rj_id :: string
  rj_params :: gen_params

record report_srv =
  rs_db :: project_db
  rs_world :: world
  rs_jobs :: "report_job list"

datatype report_body =
    RJob string
  | RStatus report_job
  | RCleaned int
  | RDeleted string int
  | ROutput

section \<open>Finding the project\<close>

definition lookup_project_slug :: "ctx \<Rightarrow> string \<Rightarrow> project_db \<Rightarrow> (nat \<times> string) + project" where
  "lookup_project_slug q v db =
     (if v = [] then Inl (400, ''project_id is required'')
      else case parse_int v of
        Some i \<Rightarrow> (if c_fails q ''projects.GetProject'' then Inl (500, ''error fetching project'')
          else case get_project i db of None \<Rightarrow> Inl (404, ''project not found'') | Some p \<Rightarrow> Inr p)
      | None \<Rightarrow>
          if bad_slug v then Inl (400, ''project_id contains invalid characters'')
          else if v \<in> set reserved_project_names then Inl (400, reserved_text v)
          else if c_fails q ''projects.GetProjectBySlugAny'' then Inl (500, ''error fetching project'')
          else (case get_project_by_slug_any v (project_rows db) of
            None \<Rightarrow> Inl (404, ''project not found'') | Some p \<Rightarrow> Inr p))"

definition list_child_ids :: "int \<Rightarrow> project_db \<Rightarrow> string list" where
  "list_child_ids i db = sort (map pj_slug (filter (\<lambda>p. pj_parent p = Some i) (project_rows db)))"

section \<open>Generation\<close>

definition store_results :: "gen_env \<Rightarrow> string \<Rightarrow> bool" where
  "store_results E s = (if s = [] then rc_keep (ge_retention E) else s = ''1'' \<or> to_lower s = ''true'')"

definition request_params :: "gen_env \<Rightarrow> project \<Rightarrow> (string \<Rightarrow> string) \<Rightarrow> gen_params" where
  "request_params E p query = (empty_params (pj_id p) (pj_slug p) (pj_key p))
     \<lparr>gp_name := query ''execution_name'', gp_from := query ''execution_from'', gp_type := query ''execution_type'',
      gp_store := store_results E (query ''store_results''), gp_branch := query ''ci_branch'',
      gp_commit := query ''ci_commit_sha''\<rparr>"

text \<open>The job manager gives the job its id \<open>job\<close>.\<close>

definition generate_request ::
  "ctx \<Rightarrow> gen_env \<Rightarrow> string \<Rightarrow> string \<Rightarrow> (string \<Rightarrow> string) \<Rightarrow> report_srv \<Rightarrow> report_srv \<times> report_body http_reply" where
  "generate_request q E job v query s = (case lookup_project_slug q v (rs_db s) of
     Inl (c, m) \<Rightarrow> (s, err c m)
   | Inr p \<Rightarrow> (s\<lparr>rs_jobs := rs_jobs s @ [\<lparr>rj_id = job, rj_params = request_params E p query\<rparr>]\<rparr>,
       ok 202 ''Report generation queued'' (RJob job)))"

definition job_status_request :: "ctx \<Rightarrow> string \<Rightarrow> string \<Rightarrow> report_srv \<Rightarrow> report_body http_reply" where
  "job_status_request q v job s = (case lookup_project_slug q v (rs_db s) of
     Inl (c, m) \<Rightarrow> err c m
   | Inr p \<Rightarrow> (case tbl_find (\<lambda>j. rj_id j = job) (rs_jobs s) of
       None \<Rightarrow> err 404 ''job not found''
     | Some j \<Rightarrow> if gp_project (rj_params j) \<noteq> pj_id p then err 404 ''job not found''
         else ok 200 ''Job status retrieved'' (RStatus j)))"

section \<open>Deletion\<close>

definition clean_of :: "(int \<Rightarrow> gen_env) \<Rightarrow> int \<Rightarrow> string \<Rightarrow> string \<Rightarrow> world \<Rightarrow> world \<times> bool" where
  "clean_of E pid slug key w = (case clean_project_history (E pid) pid slug key w of
     (w', Inl _) \<Rightarrow> (w', False) | (w', Inr _) \<Rightarrow> (w', True))"

definition clean_history_request ::
  "ctx \<Rightarrow> (int \<Rightarrow> gen_env) \<Rightarrow> string \<Rightarrow> report_srv \<Rightarrow> report_srv \<times> report_body http_reply" where
  "clean_history_request q E v s = (case lookup_project_slug q v (rs_db s) of
     Inl (c, m) \<Rightarrow> (s, err c m)
   | Inr p \<Rightarrow> (case clean_of E (pj_id p) (pj_slug p) (pj_key p) (rs_world s) of
       (w, cl) \<Rightarrow> (s\<lparr>rs_world := w\<rparr>,
         if cl then ok 200 ''History successfully cleaned'' ROutput else err 500 ''error cleaning history'')))"

text \<open>The loop of \<open>CleanGroupHistory\<close> over the names of the children, with the number of projects cleaned.  The look-up of
  one name may fail by itself.\<close>

fun clean_children ::
  "ctx \<Rightarrow> (int \<Rightarrow> gen_env) \<Rightarrow> project_db \<Rightarrow> string list \<Rightarrow> world \<Rightarrow> world \<times> nat" where
  "clean_children q E db [] w = (w, 0)"
| "clean_children q E db (slug # slugs) w =
     (if c_fails q (''child '' @ slug) then clean_children q E db slugs w
      else case get_project_by_slug_any slug (project_rows db) of
        None \<Rightarrow> clean_children q E db slugs w
      | Some p \<Rightarrow> (case clean_of E (pj_id p) slug (pj_key p) w of
          (w1, cl) \<Rightarrow> (case clean_children q E db slugs w1 of
            (w2, n) \<Rightarrow> (w2, if cl then Suc n else n))))"

definition clean_group ::
  "ctx \<Rightarrow> (int \<Rightarrow> gen_env) \<Rightarrow> project_db \<Rightarrow> project \<Rightarrow> string list \<Rightarrow> world \<Rightarrow> world \<times> nat" where
  "clean_group q E db p slugs w = (case clean_children q E db slugs w of
     (w1, n) \<Rightarrow> (case clean_of E (pj_id p) (pj_slug p) (pj_key p) w1 of (w2, cl) \<Rightarrow> (w2, if cl then Suc n else n)))"

definition clean_group_request ::
  "ctx \<Rightarrow> (int \<Rightarrow> gen_env) \<Rightarrow> string \<Rightarrow> report_srv \<Rightarrow> report_srv \<times> report_body http_reply" where
  "clean_group_request q E v s = (case lookup_project_slug q v (rs_db s) of
     Inl (c, m) \<Rightarrow> (s, err c m)
   | Inr p \<Rightarrow>
       if c_fails q ''projects.ListChildIDs'' then (s, err 500 ''internal error'')
       else let slugs = list_child_ids (pj_id p) (rs_db s) in
         if slugs = [] then (s, err 404 ''no child projects found'')
         else case clean_group q E (rs_db s) p slugs (rs_world s) of
           (w, n) \<Rightarrow> (s\<lparr>rs_world := w\<rparr>,
             ok 200 (''history cleaned for '' @ itoa (int n) @ '' project(s)'') (RCleaned (int n))))"

definition delete_error_reply :: "io_error \<Rightarrow> report_body http_reply" where
  "delete_error_reply e =
     (if e = Failed ''report not found'' then err 404 ''report not found''
      else if e = Failed ''report ID must not be empty'' \<or> e = Failed ''invalid report ID: must be a positive integer'' then err 400 ''invalid report id''
      else err 500 ''error deleting report'')"

definition delete_report_request ::
  "ctx \<Rightarrow> (int \<Rightarrow> gen_env) \<Rightarrow> string \<Rightarrow> string \<Rightarrow> report_srv \<Rightarrow> report_srv \<times> report_body http_reply" where
  "delete_report_request q E v rid s = (case lookup_project_slug q v (rs_db s) of
     Inl (c, m) \<Rightarrow> (s, err c m)
   | Inr p \<Rightarrow> (case validate_report_id rid of
       Some m \<Rightarrow> (s, err 400 m)
     | None \<Rightarrow> (case delete_project_report (E (pj_id p)) (pj_id p) (pj_key p) rid (rs_world s) of
         (w, Inl e) \<Rightarrow> (s\<lparr>rs_world := w\<rparr>, delete_error_reply e)
       | (w, Inr _) \<Rightarrow> (s\<lparr>rs_world := (case parse_int rid of None \<Rightarrow> w
             | Some n \<Rightarrow> logged (E (pj_id p)) ''handler.DeleteBuild'' (unit_stmt (delete_build (pj_id p) n)) w)\<rparr>,
           ok 200 (''Report '' @ go_quote rid @ '' successfully deleted'') (RDeleted rid (pj_id p))))))"

section \<open>Which builds a run can change\<close>

definition ids_in :: "int \<Rightarrow> build_db \<Rightarrow> int set" where
  "ids_in pid db = b_id ` set (of_project pid (build_rows db))"

text \<open>No build comes back or changes its project; new builds get new ids.\<close>

definition grows :: "build_db \<Rightarrow> build_db \<Rightarrow> bool" where
  "grows db db' \<longleftrightarrow> next_build_id db \<le> next_build_id db' \<and> (\<forall>q. ids_in q db' \<subseteq> ids_in q db \<union> {next_build_id db..})"

definition spares :: "int \<Rightarrow> build_db \<Rightarrow> build_db \<Rightarrow> bool" where
  "spares pid db db' \<longleftrightarrow> (\<forall>q. q \<noteq> pid \<longrightarrow> ids_in q db' = ids_in q db)"

definition tame :: "int \<Rightarrow> build_db \<Rightarrow> build_db \<Rightarrow> bool" where
  "tame pid db db' \<longleftrightarrow> grows db db' \<and> spares pid db db'"

lemma grows_refl [simp]: "grows db db"
  by (auto simp: grows_def)

lemma grows_trans: "grows a b \<Longrightarrow> grows b c \<Longrightarrow> grows a c"
  unfolding grows_def by fastforce

lemma tame_refl [simp]: "tame pid db db"
  by (simp add: tame_def spares_def)

lemma tame_trans: "tame pid a b \<Longrightarrow> tame pid b c \<Longrightarrow> tame pid a c"
  using grows_trans by (auto simp: tame_def spares_def)

lemma ids_in_keys: "ids_in q db = fst ` {x \<in> set (map (\<lambda>b. (b_id b, b_project b)) (build_rows db)). snd x = q}"
  by (force simp: ids_in_def)

lemma tame_same:
  assumes "map (\<lambda>b. (b_id b, b_project b)) (build_rows db') = map (\<lambda>b. (b_id b, b_project b)) (build_rows db)"
    and "next_build_id db' = next_build_id db"
  shows "tame pid db db'"
proof -
  have "ids_in q db' = ids_in q db" for q unfolding ids_in_keys assms(1) ..
  then show ?thesis using assms(2) by (auto simp: tame_def grows_def spares_def)
qed

lemma map_update_keys: "(\<And>b. b_id (f b) = b_id b \<and> b_project (f b) = b_project b)
  \<Longrightarrow> map (\<lambda>b. (b_id b, b_project b)) (tbl_update p f rs) = map (\<lambda>b. (b_id b, b_project b)) rs"
  by (simp add: tbl_update_def)

lemma tame_rows: "(\<And>b. b_id (f b) = b_id b \<and> b_project (f b) = b_project b) \<Longrightarrow> tame pid db (db\<lparr>build_rows := tbl_update p f (build_rows db)\<rparr>)"
  by (rule tame_same) (simp_all add: map_update_keys)

lemma tame_delete: "(\<And>b. p b \<Longrightarrow> b_project b = pid) \<Longrightarrow> tame pid db (db\<lparr>build_rows := tbl_delete p (build_rows db)\<rparr>)"
  by (fastforce simp: tame_def grows_def spares_def ids_in_def tbl_simps)

lemma tame_update: "(\<And>b. b_id (f b) = b_id b \<and> b_project (f b) = b_project b) \<Longrightarrow> tame pid db (fst (update_build pid n f db))"
  by (simp add: update_build_def tame_rows)

lemma tame_delete_branches: "tame pid db (delete_branches p db)"
  by (rule tame_same) (simp_all add: delete_branches_def Let_def map_update_keys)

lemma tame_updates:
  "tame pid db (fst (update_build_stats pid n st sb db))" "tame pid db (fst (update_build_ci pid n ci db))"
  "tame pid db (fst (update_build_environment pid n env db))" "tame pid db (fst (update_build_branch_id pid n i db))"
  "tame pid db (fst (set_has_playwright pid n v db))" "tame pid db (set_latest_branch pid n br db)"
  "tame pid db (delete_build pid n db)" "tame pid db (delete_all_builds pid db)"
  by (auto simp: update_build_stats_def update_build_ci_def update_build_environment_def update_build_branch_id_def
      set_has_playwright_def delete_build_def delete_all_builds_def set_latest_branch_def set_latest_def map_update_keys
      intro!: tame_update tame_delete tame_same split: option.split)

lemma tame_branch: "tame pid db (fst (get_or_create_branch q name now db))"
  by (auto simp: get_or_create_branch_def Let_def intro!: tame_same split: sum.split)

lemma tame_prunes:
  "tame pid db (fst (prune_builds_branch pid keep br db))" "tame pid db (fst (prune_builds_by_age pid cutoff db))"
  by (auto simp: prune_builds_branch_def prune_builds_by_age_def Let_def delete_numbers_def intro!: tame_delete)

lemma tame_stale_branch: "tame pid db (fst (prune_stale_branch pid name cutoff db))"
proof -
  let ?db = "db\<lparr>build_rows := tbl_delete (\<lambda>b. on_ci_branch pid name b \<and> b_created b < cutoff \<and> \<not> default_branch pid name db) (build_rows db)\<rparr>"
  have "tame pid db ?db" by (rule tame_delete) (simp add: on_ci_branch_def)
  then show ?thesis using tame_trans [OF _ tame_delete_branches] by (simp add: prune_stale_branch_def Let_def)
qed

lemma tame_stale_names: "tame pid db (fst (prune_stale_names fails pid cutoff ns db))"
proof (induction ns arbitrary: db)
  case (Cons n ns)
  obtain db1 r1 where 1: "prune_stale_branch pid n cutoff db = (db1, r1)" by (cases "prune_stale_branch pid n cutoff db")
  obtain db2 r2 where 2: "prune_stale_names fails pid cutoff ns db1 = (db2, r2)"
    by (cases "prune_stale_names fails pid cutoff ns db1")
  have "tame pid db db1" "tame pid db1 db2" using tame_stale_branch [of pid db n cutoff] Cons.IH [of db1] 1 2 by simp_all
  then show ?case using Cons.IH [of db] tame_trans by (simp add: 1 2)
qed simp

abbreviation tame_step :: "int \<Rightarrow> world \<Rightarrow> world \<Rightarrow> bool" where
  "tame_step pid w w' \<equiv> tame pid (w_builds w) (w_builds w')"

lemma tame_logged: "(\<And>db. tame pid db (fst (f db))) \<Longrightarrow> tame_step pid w (logged E name f w)"
  by simp

lemma tame_retention: "tame_step pid w (fst (keep_latest_history c fails pid key br now w))"
proof (cases "rc_keep c \<and> \<not> fails ''PruneBuildsBranch''")
  case False
  then show ?thesis by (simp add: keep_latest_history_def)
next
  case True
  obtain w1 ns where 1: "on_builds (prune_builds_branch pid (rc_latest c) br) w = (w1, ns)"
    by (cases "on_builds (prune_builds_branch pid (rc_latest c) br) w")
  obtain w2 r2 where 2: "prune_dirs c key ns w1 = (w2, r2)" by (cases "prune_dirs c key ns w1")
  obtain w3 aged where 3: "on_builds (prune_builds_by_age pid (age_cutoff c now)) w2 = (w3, aged)"
    by (cases "on_builds (prune_builds_by_age pid (age_cutoff c now)) w2")
  obtain w4 r4 where 4: "prune_dirs c key aged w3 = (w4, r4)" by (cases "prune_dirs c key aged w3")
  obtain w5 stale where 5: "prune_stale fails pid (age_cutoff c now) w4 = (w5, stale)"
    by (cases "prune_stale fails pid (age_cutoff c now) w4")
  have dirs: "w_builds w2 = w_builds w1" "w_builds w4 = w_builds w3"
    using prune_dirs_fields(1) [of c key ns w1] prune_dirs_fields(1) [of c key aged w3] 2 4 by simp_all
  have a: "tame_step pid w w2" using tame_prunes(1) on_builds_case [OF 1] dirs(1) by simp
  have b: "tame_step pid w2 w4" using tame_prunes(2) on_builds_case [OF 3] dirs(2) by simp
  have c: "tame_step pid w4 w5"
    using 5 on_builds_case [of "prune_stale_branches fails pid (age_cutoff c now)" w4 w5 stale] tame_stale_names
    by (auto simp: prune_stale_def prune_stale_branches_def split: if_splits)
  have "tame_step pid w w4" "tame_step pid w w5" using a b c tame_trans by blast+
  then show ?thesis using a True by (simp add: keep_latest_history_def 1 2 3 4 5 split: sum.split)
qed

lemma tame_reserve: "tame_step pid w (fst (on_builds (reserve_build [] pid now) w))"
proof -
  have "reserve_build [] pid now db = (db\<lparr>next_build_id := next_build_id db + 1,
      build_rows := build_rows db @ [new_build (next_build_id db) pid (max_number pid db + 1) now]\<rparr>,
    Inr (max_number pid db + 1))" for db
    by (simp add: reserve_build_def eval_nat_numeral Let_def insert_next)
  then show ?thesis by (auto simp: tame_def grows_def spares_def ids_in_def new_build_def)
qed

lemma tame_playwright: "tame_step (gp_project p) w (copy_playwright_report E p n w)"
  using tame_updates(5) by (auto simp: copy_playwright_report_def dest!: on_fs_case split: prod.split sum.split bool.split)

lemma tame_recorded: "tame_step (gp_project p) w (record_published E p br dir n w)"
proof -
  let ?p = "gp_project p"
  have 1: "tame_step ?p w (record_branch E p br n w)" for w
    by (simp add: record_branch_def tame_updates split: option.split)
  have 2: "tame_step ?p w (record_stats E p n w)" for w
    by (simp add: record_stats_def tame_updates split: sum.split)
  have 3: "tame_step ?p w (record_ci E p n w)" for w by (simp add: record_ci_def tame_updates)
  have 4: "tame_step ?p w (record_environment E p dir n w)" for w
    by (simp add: record_environment_def tame_updates split: sum.split)
  have 5: "tame_step ?p w (set_latest_build E p br n w)" for w by (simp add: set_latest_build_def unit_stmt_def tame_updates)
  show ?thesis unfolding record_published_def using 1 2 3 4 5 tame_playwright tame_trans by meson
qed

lemma tame_persist: "persist_build E p br dir n w = (w', r) \<Longrightarrow> tame_step (gp_project p) w w'"
proof -
  assume run: "persist_build E p br dir n w = (w', r)"
  obtain w1 x where 1: "on_fs (publish_report n dir) w = (w1, x)" by (cases "on_fs (publish_report n dir) w")
  then have "w_builds w1 = w_builds w" using on_fs_case by blast
  then show ?thesis
    using run tame_recorded [of p w1 E br dir n]
    by (auto simp: persist_build_def store_and_prune_build_def record_build_def set_latest_build_def unit_stmt_def 1 tame_updates
        split: if_splits sum.splits)
qed

definition tame_run :: "int \<Rightarrow> (world \<Rightarrow> world \<times> 'r) \<Rightarrow> bool" where
  "tame_run pid run \<longleftrightarrow> (\<forall>w. tame_step pid w (fst (run w)))"

lemma tame_from_local: "tame_run (gp_project p) (generate_from_local E p dir n)"
  unfolding tame_run_def
proof
  fix w
  obtain w1 r1 where 1: "on_fs (write_inputs E p dir n) w = (w1, r1)" by (cases "on_fs (write_inputs E p dir n) w")
  obtain w2 r2 where 2: "on_fs (run_allure_generate E p dir) w1 = (w2, r2)" by (cases "on_fs (run_allure_generate E p dir) w1")
  obtain w3 br where 3: "resolve_branch E p w2 = (w3, br)" by (cases "resolve_branch E p w2")
  obtain w4 r4 where 4: "persist_build E p br dir n w3 = (w4, r4)" by (cases "persist_build E p br dir n w3")
  obtain w5 r5 where 5: "finish_generation E p br n w4 = (w5, r5)" by (cases "finish_generation E p br n w4")
  have same: "w_builds w1 = w_builds w" "w_builds w2 = w_builds w" using on_fs_case [OF 1] on_fs_case [OF 2] by simp_all
  have b: "tame_step (gp_project p) w2 w3"
    using 3 on_builds_case [of "\<lambda>db. case get_or_create_branch (gp_project p) (gp_branch p) (ge_now E) db of (db', r, _) \<Rightarrow> (db', bn_id r)" w2]
      tame_branch [of "gp_project p" "w_builds w2" "gp_project p" "gp_branch p" "ge_now E"]
    by (auto simp: resolve_branch_def split: if_splits prod.splits)
  have c: "tame_step (gp_project p) w3 w4" using tame_persist 4 by blast
  have d: "tame_step (gp_project p) w4 w5"
    using 5 tame_retention [of "gp_project p" w4 "ge_retention E" "ge_fails E" "gp_key p" br "ge_now E"]
    by (auto simp: finish_generation_def split: prod.splits sum.splits)
  have "tame_step (gp_project p) w w4" "tame_step (gp_project p) w w5" using same b c d tame_trans by metis+
  then show "tame_step (gp_project p) w (fst (generate_from_local E p dir n w))"
    using same by (auto simp: generate_from_local_def 1 2 3 4 5 split: sum.split)
qed

lemma tame_prepared: "tame_run (gp_project p) (generate_prepared E p n)"
  unfolding tame_run_def
proof
  fix w
  obtain w1 r1 where 1: "on_fs (prepare_local (ge_cfg E) (gp_key p)) w = (w1, r1)"
    by (cases "on_fs (prepare_local (ge_cfg E) (gp_key p)) w")
  have "tame_step (gp_project p) w (fst (generate_from_local E p dir n w1))" for dir
    using tame_from_local [of p E dir n] on_fs_case [OF 1] by (metis tame_run_def)
  then show "tame_step (gp_project p) w (fst (generate_prepared E p n w))"
    using on_fs_case [OF 1] by (auto simp: generate_prepared_def 1 split: sum.split prod.split) (metis fst_conv)
qed

lemma tame_settled: "tame_step pid w (fst x) \<Longrightarrow> tame_step pid w (fst (settle_row E pid n x))"
  using tame_trans [OF _ tame_updates(7)] by (auto simp: settle_row_def unit_stmt_def split: prod.split)

lemma tame_reserved:
  assumes "ge_others E = []" and "\<And>n. tame_run pid (run n)"
  shows "tame_run pid (with_reserved E pid run)"
  unfolding tame_run_def
proof
  fix w
  obtain w1 r1 where 1: "on_builds (reserve_build [] pid (ge_now E)) w = (w1, r1)"
    by (cases "on_builds (reserve_build [] pid (ge_now E)) w")
  have "tame_step pid w w1" using tame_reserve [of pid w "ge_now E"] 1 by simp
  moreover from this have "tame_step pid w (fst (run n w1))" for n using assms(2) tame_trans unfolding tame_run_def by blast
  ultimately show "tame_step pid w (fst (with_reserved E pid run w))"
    by (simp add: with_reserved_def 1 assms(1) tame_settled split: sum.split)
qed

lemma tame_generate: "ge_others E = [] \<Longrightarrow> tame_run (gp_project p) (generate_report E p)"
  using tame_reserved [of E "gp_project p" "generate_prepared E (with_defaults p)"] tame_prepared [of "with_defaults p" E]
  by (simp add: generate_report_def [abs_def])

section \<open>Cleaning\<close>

definition cleared :: "int \<Rightarrow> build_db \<Rightarrow> build_db \<Rightarrow> bool" where
  "cleared pid db db' \<longleftrightarrow> ids_in pid db' \<subseteq> {next_build_id db..}"

lemma cleared_grows: "cleared pid a b \<Longrightarrow> next_build_id a \<le> next_build_id b \<Longrightarrow> grows b c \<Longrightarrow> cleared pid a c"
  unfolding cleared_def grows_def by fastforce

text \<open>What a cleaning leaves, as a run that reports its success.\<close>

definition cleans :: "int \<Rightarrow> (world \<Rightarrow> world \<times> bool) \<Rightarrow> bool" where
  "cleans pid run \<longleftrightarrow> (\<forall>w. tame_step pid w (fst (run w)) \<and> (snd (run w) \<longrightarrow> cleared pid (w_builds w) (w_builds (fst (run w)))))"

lemma clean_of_cleans:
  assumes "ge_others (E pid) = []"
  shows "cleans pid (clean_of E pid slug key)"
  unfolding cleans_def
proof
  fix w :: world
  let ?E = "E pid" and ?db = "delete_all_builds pid (w_builds w)"
  obtain w1 r1 where 1: "on_fs (clean_history (ge_cfg ?E) key) w = (w1, r1)" by (cases "on_fs (clean_history (ge_cfg ?E) key) w")
  let ?w3 = "delete_results_by_project pid (fst (on_builds (unit_stmt (delete_all_builds pid)) w1))"
  obtain w4 r4 where 4: "on_fs (keep_history (ge_cfg ?E) key []) ?w3 = (w4, r4)" by (cases "on_fs (keep_history (ge_cfg ?E) key []) ?w3")
  obtain w5 r5 where 5: "generate_report ?E (empty_params pid slug key) w4 = (w5, r5)"
    by (cases "generate_report ?E (empty_params pid slug key) w4")
  have w1: "w_builds w1 = w_builds w" using on_fs_case [OF 1] by simp
  have w2: "w_builds (fst (on_builds (unit_stmt (delete_all_builds pid)) w1)) = ?db" using w1 by (simp add: unit_stmt_def)
  then have w3: "w_builds ?w3 = ?db" by (simp add: delete_results_by_project_def)
  then have w4: "w_builds w4 = ?db" using on_fs_case [OF 4] by simp
  have a: "tame pid (w_builds w) ?db" by (rule tame_updates)
  have c: "cleared pid (w_builds w) ?db" by (auto simp: cleared_def ids_in_def delete_all_builds_def tbl_simps)
  have g: "tame pid ?db (w_builds w5)"
    using tame_generate [OF assms, of "empty_params pid slug key"] 5 w4
    by (simp add: tame_run_def empty_params_def) (metis fst_conv)
  have "tame pid (w_builds w) (w_builds w5)" using a g tame_trans by blast
  moreover have "cleared pid (w_builds w) (w_builds w5)"
    using cleared_grows [OF c] g by (simp add: tame_def delete_all_builds_def)
  ultimately show "tame_step pid w (fst (clean_of E pid slug key w))
      \<and> (snd (clean_of E pid slug key w) \<longrightarrow> cleared pid (w_builds w) (w_builds (fst (clean_of E pid slug key w))))"
    using a c w1 w2 w3 w4
    by (simp add: clean_of_def clean_project_history_def 1 4 5 Let_def split: sum.split)
qed

text \<open>A build of a cleared project is in no project of a later state.\<close>

lemma cleared_for_good:
  assumes "builds_ok db" and "grows db a" and "cleared pid a b" and "tame pid a b" and "grows b c"
  shows "ids_in pid db \<inter> ids_of c = {}"
proof (rule equals0I)
  fix i assume "i \<in> ids_in pid db \<inter> ids_of c"
  then obtain x y where x: "x \<in> set (build_rows db)" "b_project x = pid" "b_id x = i"
    and y: "y \<in> set (build_rows c)" "b_id y = i" by (auto simp: ids_in_def ids_of_def)
  let ?q = "b_project y"
  have lt: "i < next_build_id db" using x assms(1) by (auto simp: builds_ok_def rows_ok_def)
  have next_le: "next_build_id db \<le> next_build_id a" "next_build_id a \<le> next_build_id b"
    using assms(2,4) by (simp_all add: grows_def tame_def)
  have "i \<in> ids_in ?q c" using y by (auto simp: ids_in_def)
  then have b: "i \<in> ids_in ?q b" using assms(5) lt next_le by (fastforce simp: grows_def)
  show False
  proof (cases "?q = pid")
    case True
    then show False using b assms(3) lt next_le by (fastforce simp: cleared_def)
  next
    case False
    then have "i \<in> ids_in ?q a" using b assms(4) by (simp add: tame_def spares_def)
    then have "i \<in> ids_in ?q db" using assms(2) lt by (fastforce simp: grows_def)
    then obtain z where "z \<in> set (build_rows db)" "b_project z = ?q" "b_id z = i" by (auto simp: ids_in_def)
    then have "z = x" using x assms(1) by (auto simp: builds_ok_def rows_ok_def distinct_map inj_on_def)
    then show False using x(2) False \<open>b_project z = ?q\<close> by simp
  qed
qed

text \<open>C3: The requests on reports look the project up without asking for the allow-list of an API key: for a project
  that the key may not touch, and for which every other project request answers 403, a request to clean the history
  that reports success has erased every build of the project.\<close>

theorem limited_key_erases_history:
  assumes "builds_ok (w_builds (rs_world s))" and "\<And>i. ge_others (E i) = []"
    and "lookup_project_slug q v (rs_db s) = Inr p" and "\<not> api_key_project_allowed (c_claims q) (pj_id p)"
    and "status (snd (clean_history_request q E v s)) = 200"
  shows "resolve_project_int_id q (Some (project_rows (rs_db s))) v = Inl (403, ''api key is not authorized for this project'')
    \<and> ids_in (pj_id p) (w_builds (rs_world s)) \<inter> ids_of (w_builds (rs_world (fst (clean_history_request q E v s)))) = {}"
proof
  have "pj_id p = i" if "parse_int v = Some i" for i
    using assms(3) that by (auto simp: lookup_project_slug_def get_project_def split: if_splits option.splits dest!: tbl_find_Some)
  then show "resolve_project_int_id q (Some (project_rows (rs_db s))) v = Inl (403, ''api key is not authorized for this project'')"
    using assms(3,4) by (auto simp: lookup_project_slug_def resolve_project_int_id_def guard_project_def split: if_splits option.splits)
next
  let ?run = "clean_of E (pj_id p) (pj_slug p) (pj_key p)"
  have "cleans (pj_id p) ?run" using assms(2) by (rule clean_of_cleans)
  moreover have "fst (clean_history_request q E v s) = s\<lparr>rs_world := fst (?run (rs_world s))\<rparr>"
    using assms(3) by (simp add: clean_history_request_def split: prod.split)
  moreover have "snd (?run (rs_world s))" using assms(3,5) by (simp add: clean_history_request_def split: prod.splits if_splits)
  ultimately show "ids_in (pj_id p) (w_builds (rs_world s)) \<inter> ids_of (w_builds (rs_world (fst (clean_history_request q E v s)))) = {}"
    using cleared_for_good [OF assms(1) grows_refl _ _ grows_refl] by (simp add: cleans_def)
qed

section \<open>Groups\<close>

definition found_by :: "project_db \<Rightarrow> string \<Rightarrow> project \<Rightarrow> bool" where
  "found_by db slug p \<longleftrightarrow> get_project_by_slug_any slug (project_rows db) = Some p"

definition misses :: "project_db \<Rightarrow> int \<Rightarrow> string list \<Rightarrow> bool" where
  "misses db pid slugs \<longleftrightarrow> (\<forall>slug \<in> set slugs. \<forall>p. found_by db slug p \<longrightarrow> pj_id p \<noteq> pid)"

lemma misses_Cons: "misses db pid (slug # slugs) \<longleftrightarrow> (\<forall>p. found_by db slug p \<longrightarrow> pj_id p \<noteq> pid) \<and> misses db pid slugs"
  by (simp add: misses_def)

lemma clean_children_grows:
  assumes "\<And>i. ge_others (E i) = []"
  shows "grows (w_builds w) (w_builds (fst (clean_children q E db slugs w)))
    \<and> (misses db pid slugs \<longrightarrow> ids_in pid (w_builds (fst (clean_children q E db slugs w))) = ids_in pid (w_builds w))
    \<and> snd (clean_children q E db slugs w) \<le> length slugs"
proof (induction slugs arbitrary: w)
  case (Cons slug slugs)
  show ?case
  proof (cases "c_fails q (''child '' @ slug) \<or> get_project_by_slug_any slug (project_rows db) = None")
    case True
    then have "clean_children q E db (slug # slugs) w = clean_children q E db slugs w" by (auto split: option.split)
    then show ?thesis using Cons.IH [of w] by (simp add: misses_Cons del: clean_children.simps)
  next
    case False
    then obtain p where p: "get_project_by_slug_any slug (project_rows db) = Some p" by blast
    obtain w1 cl where 1: "clean_of E (pj_id p) slug (pj_key p) w = (w1, cl)"
      by (cases "clean_of E (pj_id p) slug (pj_key p) w")
    obtain w2 n where 2: "clean_children q E db slugs w1 = (w2, n)" by (cases "clean_children q E db slugs w1")
    have run: "clean_children q E db (slug # slugs) w = (w2, if cl then Suc n else n)"
      using False by (simp add: p 1 2)
    have "tame_step (pj_id p) w w1"
      using clean_of_cleans [of E "pj_id p" slug "pj_key p"] assms 1 by (simp add: cleans_def) (metis fst_conv)
    then have w1: "grows (w_builds w) (w_builds w1)" "pj_id p \<noteq> pid \<Longrightarrow> ids_in pid (w_builds w1) = ids_in pid (w_builds w)"
      by (simp_all add: tame_def spares_def)
    have w2: "grows (w_builds w1) (w_builds w2)" "n \<le> length slugs"
      "misses db pid slugs \<Longrightarrow> ids_in pid (w_builds w2) = ids_in pid (w_builds w1)"
      using Cons.IH [of w1] by (simp_all add: 2)
    have "ids_in pid (w_builds w2) = ids_in pid (w_builds w)" if m: "misses db pid (slug # slugs)"
      using m p w1(2) w2(3) by (simp add: misses_Cons found_by_def)
    then show ?thesis using grows_trans [OF w1(1) w2(1)] w2(2) by (simp add: run del: clean_children.simps)
  qed
qed simp

text \<open>When every name counts, the builds of every project found by one are gone.\<close>

lemma clean_children_all:
  assumes "\<And>i. ge_others (E i) = []" and "builds_ok db0" and "grows db0 (w_builds w)"
    and "snd (clean_children q E db slugs w) = length slugs" and "slug \<in> set slugs" and "found_by db slug p"
    and "grows (w_builds (fst (clean_children q E db slugs w))) dbn"
  shows "ids_in (pj_id p) db0 \<inter> ids_of dbn = {}"
  using assms(3-7)
proof (induction slugs arbitrary: w)
  case (Cons s slugs)
  have "\<not> c_fails q (''child '' @ s) \<and> get_project_by_slug_any s (project_rows db) \<noteq> None"
  proof (rule ccontr)
    assume "\<not> ?thesis"
    then have "clean_children q E db (s # slugs) w = clean_children q E db slugs w" by (auto split: option.split)
    then show False using clean_children_grows [where E = E and w = w and q = q and db = db and slugs = slugs] assms(1) Cons.prems(2) by auto
  qed
  then obtain x where x: "get_project_by_slug_any s (project_rows db) = Some x" "\<not> c_fails q (''child '' @ s)" by blast
  obtain w1 cl where 1: "clean_of E (pj_id x) s (pj_key x) w = (w1, cl)" by (cases "clean_of E (pj_id x) s (pj_key x) w")
  obtain w2 n where 2: "clean_children q E db slugs w1 = (w2, n)" by (cases "clean_children q E db slugs w1")
  have run: "clean_children q E db (s # slugs) w = (w2, if cl then Suc n else n)" using x(2) by (simp add: x(1) 1 2)
  have n: "n \<le> length slugs" "grows (w_builds w1) (w_builds w2)" using clean_children_grows [where E = E and w = w1 and q = q and db = db and slugs = slugs] assms(1) 2 by simp_all
  then have all: "cl" "n = length slugs" using Cons.prems(2) run by (auto split: if_splits)
  have step: "tame_step (pj_id x) w w1" "cleared (pj_id x) (w_builds w) (w_builds w1)"
    using clean_of_cleans [of E "pj_id x" s "pj_key x"] assms(1) 1 all(1) unfolding cleans_def by (metis fst_conv snd_conv)+
  have to_end: "grows (w_builds w2) dbn" using Cons.prems(5) run by simp
  show ?case
  proof (cases "slug = s")
    case True
    then have "p = x" using Cons.prems(4) x(1) by (simp add: found_by_def)
    then show ?thesis using cleared_for_good [OF assms(2) Cons.prems(1) step(2,1)] n(2) to_end grows_trans by blast
  next
    case False
    have "grows db0 (w_builds w1)" using Cons.prems(1) step(1) grows_trans unfolding tame_def by blast
    then show ?thesis using Cons.IH [of w1] Cons.prems(3,4) False all(2) 2 to_end by simp
  qed
qed simp

text \<open>C19: \<open>CleanGroupHistory\<close> lists its children by name and looks each name up again among all projects, where a
  top-level project of that name wins.  When the group has a child \<open>c\<close> with the name of a top-level project \<open>t\<close>, a
  request that reports every project of the group as cleaned has erased the builds of \<open>t\<close> and kept all of \<open>c\<close>.\<close>

theorem group_clean_hits_namesake:
  assumes "builds_ok (w_builds (rs_world s))" and "\<And>i. ge_others (E i) = []" and "projects_ok (rs_db s)"
    and "lookup_project_slug q v (rs_db s) = Inr p"
    and "c \<in> set (project_rows (rs_db s))" and "pj_parent c = Some (pj_id p)" and "pj_id c \<noteq> pj_id p"
    and "t \<in> set (project_rows (rs_db s))" and "pj_parent t = None" and "pj_slug t = pj_slug c"
    and "body (snd (clean_group_request q E v s)) = Some (RCleaned (int (Suc (length (list_child_ids (pj_id p) (rs_db s))))))"
  shows "ids_in (pj_id t) (w_builds (rs_world s)) \<inter> ids_of (w_builds (rs_world (fst (clean_group_request q E v s)))) = {}
    \<and> ids_in (pj_id c) (w_builds (rs_world (fst (clean_group_request q E v s)))) = ids_in (pj_id c) (w_builds (rs_world s))"
proof -
  let ?db = "rs_db s" and ?slugs = "list_child_ids (pj_id p) (rs_db s)" and ?w = "rs_world s"
  let ?run = "clean_of E (pj_id p) (pj_slug p) (pj_key p)"
  have slug: "pj_slug c \<in> set ?slugs" using assms(5,6) by (auto simp: list_child_ids_def)
  have t: "found_by ?db (pj_slug c) t"
    using get_by_slug_any_top [of "project_rows ?db" t "pj_slug c"] assms(3,8-10) by (simp add: found_by_def projects_ok_def)
  obtain w1 n where 1: "clean_children q E ?db ?slugs ?w = (w1, n)" by (cases "clean_children q E ?db ?slugs ?w")
  obtain w2 cl where 2: "?run w1 = (w2, cl)" by (cases "?run w1")
  have req: "clean_group_request q E v s = (s\<lparr>rs_world := w2\<rparr>, snd (clean_group_request q E v s))"
      "(if cl then Suc n else n) = Suc (length ?slugs)"
    using assms(4,11) slug by (auto simp: clean_group_request_def clean_group_def Let_def 1 2 split: if_splits)
  note loop = clean_children_grows [where E = E and w = ?w and q = q and db = ?db and slugs = ?slugs and pid = "pj_id c", OF assms(2)]
  have n: "n = length ?slugs" using loop req(2) 1 by (auto split: if_splits)
  have step: "tame_step (pj_id p) w1 w2"
    using clean_of_cleans [of E "pj_id p" "pj_slug p" "pj_key p"] assms(2) 2 unfolding cleans_def by (metis fst_conv)
  have "misses ?db (pj_id c) ?slugs"
    unfolding misses_def found_by_def
  proof (intro ballI allI impI notI)
    fix slug x assume x: "get_project_by_slug_any slug (project_rows ?db) = Some x" and "pj_id x = pj_id c"
    then have "x = c" using slug_any_slug [OF x] assms(3,5) by (auto simp: projects_ok_def distinct_map inj_on_def)
    then have "c = t" using x slug_any_slug [OF x] t by (simp add: found_by_def)
    then show False using assms(6,9) by simp
  qed
  then have "ids_in (pj_id c) (w_builds w1) = ids_in (pj_id c) (w_builds ?w)" using loop 1 by simp
  then have "ids_in (pj_id c) (w_builds w2) = ids_in (pj_id c) (w_builds ?w)"
    using step assms(7) by (simp add: tame_def spares_def)
  moreover have "ids_in (pj_id t) (w_builds ?w) \<inter> ids_of (w_builds w2) = {}"
    using clean_children_all [where E = E and w = ?w and q = q and db = ?db and slugs = ?slugs, OF assms(2,1) grows_refl _ slug t] 1 n step
    by (simp add: tame_def)
  ultimately show ?thesis using req(1) by (metis fst_conv report_srv.select_convs(2) report_srv.surjective report_srv.update_convs(2))
qed

section \<open>Witnesses\<close>

text \<open>A group of one child, named like a project outside it; a build of each project.\<close>

definition demo_group :: project_db where
  "demo_group = \<lparr>project_rows = [demo_project 1 ''a'' None, demo_project 2 ''b'' None, (demo_project 3 ''b'' (Some 1))\<lparr>pj_key := ''3''\<rparr>],
     next_project_id = 4\<rparr>"

definition demo_rs :: report_srv where
  "demo_rs = \<lparr>rs_db = demo_group,
     rs_world = demo_world\<lparr>w_builds := \<lparr>build_rows = [new_build 1 1 1 0, new_build 2 2 1 0, new_build 3 3 1 0], next_build_id = 4,
       branch_rows = [], next_branch_id = 1\<rparr>\<rparr>, rs_jobs = []\<rparr>"

definition demo_run_env :: "int \<Rightarrow> gen_env" where
  "demo_run_env _ = demo_gen"

lemma demo_rs_facts:
  "builds_ok (w_builds (rs_world demo_rs))" "projects_ok (rs_db demo_rs)" "ge_others (demo_run_env i) = []"
  "lookup_project_slug demo_limited ''a'' (rs_db demo_rs) = Inr (demo_project 1 ''a'' None)"
  "\<not> api_key_project_allowed (c_claims demo_limited) 1"
  "demo_project 2 ''b'' None \<in> set (project_rows (rs_db demo_rs))"
  "(demo_project 3 ''b'' (Some 1))\<lparr>pj_key := ''3''\<rparr> \<in> set (project_rows (rs_db demo_rs))"
  "list_child_ids 1 (rs_db demo_rs) = [''b'']"
  "ids_in 1 (w_builds (rs_world demo_rs)) = {1}" "ids_in 2 (w_builds (rs_world demo_rs)) = {2}" "ids_in 3 (w_builds (rs_world demo_rs)) = {3}"
           apply (simp add: demo_rs_def builds_ok_def rows_ok_def branches_ok_def refs_ok_def new_build_def)
          apply code_simp
         apply (simp add: demo_run_env_def demo_gen_def)
        apply code_simp+
  done

lemma demo_rs_runs:
  "status (snd (clean_history_request demo_limited demo_run_env ''a'' demo_rs)) = 200"
  "body (snd (clean_group_request demo_limited demo_run_env ''a'' demo_rs)) = Some (RCleaned 2)"
  by code_simp+

lemma limited_key_erases_history_witness:
  "resolve_project_int_id demo_limited (Some (project_rows (rs_db demo_rs))) ''a'' = Inl (403, ''api key is not authorized for this project'')
   \<and> {1} \<inter> ids_of (w_builds (rs_world (fst (clean_history_request demo_limited demo_run_env ''a'' demo_rs)))) = {}"
proof -
  have "\<not> api_key_project_allowed (c_claims demo_limited) (pj_id (demo_project 1 ''a'' None))"
    and i: "pj_id (demo_project 1 ''a'' None) = 1"
    using demo_rs_facts(5) by (simp_all add: demo_project_def)
  from limited_key_erases_history [OF demo_rs_facts(1,3,4) this(1) demo_rs_runs(1)] show ?thesis
    by (simp only: i demo_rs_facts)
qed

lemma group_clean_hits_namesake_witness:
  "{2} \<inter> ids_of (w_builds (rs_world (fst (clean_group_request demo_limited demo_run_env ''a'' demo_rs)))) = {}
   \<and> ids_in 3 (w_builds (rs_world (fst (clean_group_request demo_limited demo_run_env ''a'' demo_rs)))) = {3}"
proof -
  let ?p = "demo_project 1 ''a'' None" and ?c = "(demo_project 3 ''b'' (Some 1))\<lparr>pj_key := ''3''\<rparr>"
  have i: "pj_id ?p = 1" "pj_id ?c = 3" "pj_id (demo_project 2 ''b'' None) = 2" "pj_parent ?c = Some 1"
      "pj_parent (demo_project 2 ''b'' None) = None" "pj_slug (demo_project 2 ''b'' None) = pj_slug ?c"
    by (simp_all add: demo_project_def)
  have "body (snd (clean_group_request demo_limited demo_run_env ''a'' demo_rs))
      = Some (RCleaned (int (Suc (length (list_child_ids (pj_id ?p) (rs_db demo_rs))))))"
    by (simp only: i demo_rs_facts demo_rs_runs) simp
  from group_clean_hits_namesake [OF demo_rs_facts(1,3,2,4,7) _ _ demo_rs_facts(6) i(5,6) this] show ?thesis
    by (simp add: i demo_rs_facts)
qed

end
