(* ===== verification/Jobs.thy ===== *)
theory Jobs
  imports Prelude
begin

text \<open>
  The in-process job manager, \<open>runner/mem_job_manager.go\<close>: a mutex, a channel of 100 jobs and a pool of worker
  goroutines.

  A step is what one goroutine does under one hold of the mutex, or one operation on the channel or on a
  context, so the places where \<open>Submit\<close>, \<open>Cancel\<close> and \<open>runJob\<close> let go of the lock are places where other
  goroutines step in.  Jobs are found by id in \<open>js_jobs\<close>; a goroutine that holds a pointer to a job still
  writes it after \<open>Delete\<close> took the job off the list, so the list is a set of ids beside the jobs.  Of a job
  the model keeps the status and the two results, of report generation its outcome.
\<close>

section \<open>State\<close>

datatype job_status = JobPending | JobRunning | JobRetrying | JobCompleted | JobFailed | JobCancelled

record job =
  jb_status :: job_status
  jb_report :: string
  jb_error :: string

text \<open>\<open>js_submitting\<close>: calls of \<open>Submit\<close> between the two halves; \<open>js_cancelling\<close>: calls of \<open>Cancel\<close> after the
  first hold of the lock, with the cancel function they found and have still to call.\<close>

record job_system =
  js_jobs :: "nat \<Rightarrow> job option"
  js_listed :: "nat list"
  js_submitting :: "nat list"
  js_queue :: "nat list"
  js_running :: "nat list"
  js_stopped :: "nat list"
  js_cancelling :: "(nat \<times> bool) list"

definition initial_jobs :: job_system where
  "initial_jobs = \<lparr>js_jobs = (\<lambda>_. None), js_listed = [], js_submitting = [], js_queue = [], js_running = [],
     js_stopped = [], js_cancelling = []\<rparr>"

definition terminal_status :: "job_status \<Rightarrow> bool" where
  "terminal_status st \<longleftrightarrow> st = JobCompleted \<or> st = JobFailed \<or> st = JobCancelled"

definition status_of :: "job_system \<Rightarrow> nat \<Rightarrow> job_status option" where
  "status_of s i = map_option jb_status (js_jobs s i)"

definition put_job :: "nat \<Rightarrow> (job \<Rightarrow> job) \<Rightarrow> job_system \<Rightarrow> job_system" where
  "put_job i f s = s\<lparr>js_jobs := (js_jobs s)(i := map_option f (js_jobs s i))\<rparr>"

section \<open>Steps\<close>

definition submit_job :: "nat \<Rightarrow> job_system \<Rightarrow> job_system" where
  "submit_job i s = s\<lparr>js_jobs := (js_jobs s)(i \<mapsto> \<lparr>jb_status = JobPending, jb_report = [], jb_error = []\<rparr>),
     js_listed := i # js_listed s, js_submitting := i # js_submitting s\<rparr>"

definition submit_done_job :: "nat \<Rightarrow> job_system \<Rightarrow> job_system" where
  "submit_done_job i s = s\<lparr>js_jobs := (js_jobs s)(i \<mapsto> \<lparr>jb_status = JobCompleted, jb_report = [], jb_error = []\<rparr>),
     js_listed := i # js_listed s\<rparr>"

definition enqueue_job :: "nat \<Rightarrow> job_system \<Rightarrow> job_system" where
  "enqueue_job i s = s\<lparr>js_submitting := remove1 i (js_submitting s), js_queue := js_queue s @ [i]\<rparr>"

definition abort_submit :: "nat \<Rightarrow> string \<Rightarrow> job_system \<Rightarrow> job_system" where
  "abort_submit i e s = put_job i (\<lambda>j. j\<lparr>jb_status := JobFailed, jb_error := e\<rparr>) (s\<lparr>js_submitting := remove1 i (js_submitting s)\<rparr>)"

definition start_job :: "nat \<Rightarrow> job_system \<Rightarrow> job_system" where
  "start_job i s = put_job i (\<lambda>j. j\<lparr>jb_status := JobRunning\<rparr>) (s\<lparr>js_queue := tl (js_queue s), js_running := i # js_running s\<rparr>)"

text \<open>The end of \<open>runJob\<close>: \<open>Inl\<close> is the error of the generator, \<open>Inr\<close> the id of the report.\<close>

definition finish_job :: "nat \<Rightarrow> string + string \<Rightarrow> job_system \<Rightarrow> job_system" where
  "finish_job i r s = put_job i (\<lambda>j. if jb_status j = JobCancelled then j
       else case r of Inl e \<Rightarrow> j\<lparr>jb_status := JobFailed, jb_error := e\<rparr>
         | Inr rep \<Rightarrow> j\<lparr>jb_status := JobCompleted, jb_report := rep\<rparr>)
     (s\<lparr>js_running := remove1 i (js_running s)\<rparr>)"

text \<open>The first half of \<open>Cancel\<close>: the reply that ends it, or the rest of the call.\<close>

datatype cancel_error = JobNotFound | AlreadyTerminal

definition cancel_check :: "nat \<Rightarrow> job_system \<Rightarrow> cancel_error + (nat \<times> bool)" where
  "cancel_check i s =
     (if i \<notin> set (js_listed s) then Inl JobNotFound
      else case status_of s i of
        None \<Rightarrow> Inl JobNotFound
      | Some st \<Rightarrow> if terminal_status st then Inl AlreadyTerminal else Inr (i, i \<in> set (js_running s)))"

definition cancel_signal :: "nat \<Rightarrow> job_system \<Rightarrow> job_system" where
  "cancel_signal i s = s\<lparr>js_stopped := i # js_stopped s,
     js_cancelling := (i, False) # remove1 (i, True) (js_cancelling s)\<rparr>"

definition cancel_write :: "nat \<Rightarrow> job_system \<Rightarrow> job_system" where
  "cancel_write i s = put_job i (\<lambda>j. j\<lparr>jb_status := JobCancelled\<rparr>) (s\<lparr>js_cancelling := remove1 (i, False) (js_cancelling s)\<rparr>)"

datatype delete_error = DeleteNotFound | NotTerminal

definition delete_job :: "nat \<Rightarrow> job_system \<Rightarrow> job_system \<times> (delete_error + unit)" where
  "delete_job i s =
     (if i \<notin> set (js_listed s) then (s, Inl DeleteNotFound)
      else if (case status_of s i of None \<Rightarrow> False | Some st \<Rightarrow> terminal_status st)
      then (s\<lparr>js_listed := removeAll i (js_listed s)\<rparr>, Inr ())
      else (s, Inl NotTerminal))"

text \<open>What the goroutines of the manager do by themselves: the second halves of calls, and the workers.\<close>

inductive job_work :: "nat \<Rightarrow> job_system \<Rightarrow> job_system \<Rightarrow> bool" for pool :: nat where
  Enqueue: "i \<in> set (js_submitting s) \<Longrightarrow> length (js_queue s) < 100 \<Longrightarrow> job_work pool s (enqueue_job i s)"
| Abort: "i \<in> set (js_submitting s) \<Longrightarrow> job_work pool s (abort_submit i e s)"
| Begin: "js_queue s = i # is \<Longrightarrow> length (js_running s) < pool \<Longrightarrow> job_work pool s (start_job i s)"
| Finish: "i \<in> set (js_running s) \<Longrightarrow> job_work pool s (finish_job i r s)"
| Signal: "(i, True) \<in> set (js_cancelling s) \<Longrightarrow> job_work pool s (cancel_signal i s)"
| Write: "(i, False) \<in> set (js_cancelling s) \<Longrightarrow> job_work pool s (cancel_write i s)"

text \<open>What callers add: ids are random and new.\<close>

inductive job_call :: "job_system \<Rightarrow> job_system \<Rightarrow> bool" where
  Submit: "js_jobs s i = None \<Longrightarrow> job_call s (submit_job i s)"
| SubmitDone: "js_jobs s i = None \<Longrightarrow> job_call s (submit_done_job i s)"
| Cancel: "cancel_check i s = Inr w \<Longrightarrow> job_call s (s\<lparr>js_cancelling := w # js_cancelling s\<rparr>)"
| Delete: "delete_job i s = (s', Inr ()) \<Longrightarrow> job_call s s'"

inductive_cases job_workE [elim]: "job_work pool s t"
inductive_cases job_callE [elim]: "job_call s t"

inductive jobs_reach :: "nat \<Rightarrow> job_system \<Rightarrow> bool" for pool :: nat where
  init: "jobs_reach pool initial_jobs"
| work: "jobs_reach pool s \<Longrightarrow> job_work pool s t \<Longrightarrow> jobs_reach pool t"
| call: "jobs_reach pool s \<Longrightarrow> job_call s t \<Longrightarrow> jobs_reach pool t"

section \<open>Invariant\<close>

definition known_ids :: "job_system \<Rightarrow> nat set" where
  "known_ids s = set (js_listed s) \<union> set (js_submitting s) \<union> set (js_queue s) \<union> set (js_running s) \<union> fst ` set (js_cancelling s)"

definition jobs_ok :: "nat \<Rightarrow> job_system \<Rightarrow> bool" where
  "jobs_ok pool s \<longleftrightarrow>
     length (js_running s) \<le> pool \<and> length (js_queue s) \<le> 100
     \<and> distinct (js_submitting s @ js_queue s @ js_running s)
     \<and> known_ids s \<subseteq> dom (js_jobs s)
     \<and> (\<forall>i j. js_jobs s i = Some j \<longrightarrow> \<not> terminal_status (jb_status j)
          \<longrightarrow> i \<in> set (js_submitting s) \<union> set (js_queue s) \<union> set (js_running s))"

lemma put_job_fields [simp]:
  "js_listed (put_job i f s) = js_listed s" "js_submitting (put_job i f s) = js_submitting s"
  "js_queue (put_job i f s) = js_queue s" "js_running (put_job i f s) = js_running s"
  "js_cancelling (put_job i f s) = js_cancelling s" "js_stopped (put_job i f s) = js_stopped s"
  "js_jobs (put_job i f s) k = (if k = i then map_option f (js_jobs s i) else js_jobs s k)"
  by (simp_all add: put_job_def)

lemmas job_steps = submit_job_def submit_done_job_def enqueue_job_def abort_submit_def start_job_def finish_job_def
  cancel_signal_def cancel_write_def

lemma terminal_simps [simp]:
  "terminal_status JobCompleted" "terminal_status JobFailed" "terminal_status JobCancelled"
  "\<not> terminal_status JobPending" "\<not> terminal_status JobRunning"
  by (simp_all add: terminal_status_def)

lemma terminal_finish: "terminal_status (jb_status (if jb_status j = JobCancelled then j
       else case r of Inl e \<Rightarrow> j\<lparr>jb_status := JobFailed, jb_error := e\<rparr>
         | Inr rep \<Rightarrow> j\<lparr>jb_status := JobCompleted, jb_report := rep\<rparr>))"
  by (simp split: sum.split)

lemma in_remove1: "distinct xs \<Longrightarrow> x \<in> set (remove1 y xs) \<longleftrightarrow> x \<in> set xs \<and> x \<noteq> y"
  by simp

lemma ok_known:
  "jobs_ok pool s \<Longrightarrow> i \<in> set (js_submitting s) \<union> set (js_queue s) \<union> set (js_running s) \<Longrightarrow> js_jobs s i \<noteq> None"
  unfolding jobs_ok_def known_ids_def by blast

text \<open>A step that ends job \<open>i\<close> may take it from a call of \<open>Submit\<close> or from a worker.\<close>

lemma ok_ended:
  assumes ok: "jobs_ok pool s" and f: "\<And>j. terminal_status (jb_status (f j))"
    and jobs: "js_jobs t = (js_jobs s)(i := map_option f (js_jobs s i))"
    and lists: "js_listed t = js_listed s" "js_queue t = js_queue s"
    and sub: "js_submitting t = js_submitting s \<or> js_submitting t = remove1 i (js_submitting s)"
    and run: "js_running t = js_running s \<or> js_running t = remove1 i (js_running s)"
    and canc: "set (js_cancelling t) \<subseteq> set (js_cancelling s)"
  shows "jobs_ok pool t"
proof -
  have subset: "set (js_submitting t) \<subseteq> set (js_submitting s)" "set (js_running t) \<subseteq> set (js_running s)"
    using sub run set_remove1_subset [of i "js_submitting s"] set_remove1_subset [of i "js_running s"] by auto
  have "dom (js_jobs t) = dom (js_jobs s)" using jobs by (auto simp: dom_def)
  moreover have "known_ids t \<subseteq> known_ids s" using subset canc unfolding known_ids_def lists by blast
  ultimately have known: "known_ids t \<subseteq> dom (js_jobs t)" using ok by (auto simp: jobs_ok_def)
  have live: "k \<in> set (js_submitting t) \<union> set (js_queue t) \<union> set (js_running t)"
    if "js_jobs t k = Some j" "\<not> terminal_status (jb_status j)" for k j
  proof -
    have "k \<noteq> i" using that f jobs by auto
    then have "k \<in> set (js_submitting s) \<union> set (js_queue s) \<union> set (js_running s)"
      using that ok jobs by (simp add: jobs_ok_def)
    then show ?thesis using \<open>k \<noteq> i\<close> sub run lists by auto
  qed
  have "length (js_running t) \<le> pool \<and> length (js_queue t) \<le> 100"
    using ok run lists by (auto simp: jobs_ok_def length_remove1)
  moreover have "distinct (js_submitting t @ js_queue t @ js_running t)"
    using ok sub run subset lists unfolding jobs_ok_def by auto
  ultimately show ?thesis unfolding jobs_ok_def using live known by blast
qed

lemma jobs_ok_work:
  assumes "jobs_ok pool s" and "job_work pool s t"
  shows "jobs_ok pool t"
  using assms(2)
proof cases
  case (Enqueue i)
  then show ?thesis using assms(1) by (auto simp: jobs_ok_def known_ids_def job_steps)
next
  case (Abort i e)
  show ?thesis
    by (rule ok_ended [OF assms(1), where i = i and f = "\<lambda>j. j\<lparr>jb_status := JobFailed, jb_error := e\<rparr>"])
       (simp_all add: Abort abort_submit_def put_job_def)
next
  case (Begin i js)
  then show ?thesis using assms(1) by (auto simp: jobs_ok_def known_ids_def start_job_def split: if_splits)
next
  case (Finish i r)
  show ?thesis
    by (rule ok_ended [OF assms(1) terminal_finish [where r = r], where i = i])
       (simp_all add: Finish finish_job_def put_job_def)
next
  case (Signal i)
  then have "fst ` set (js_cancelling t) \<subseteq> fst ` set (js_cancelling s)"
    using set_remove1_subset [of "(i, True)" "js_cancelling s"] by (force simp: cancel_signal_def)
  moreover have same: "js_listed t = js_listed s" "js_submitting t = js_submitting s" "js_queue t = js_queue s"
      "js_running t = js_running s" "js_jobs t = js_jobs s"
    using Signal(1) by (simp_all add: cancel_signal_def)
  ultimately have "known_ids t \<subseteq> known_ids s" unfolding known_ids_def same by blast
  then have "known_ids t \<subseteq> dom (js_jobs t)" using assms(1) same(5) unfolding jobs_ok_def by auto
  then show ?thesis using assms(1) unfolding jobs_ok_def same by simp
next
  case (Write i)
  show ?thesis
    by (rule ok_ended [OF assms(1), where i = i and f = "\<lambda>j. j\<lparr>jb_status := JobCancelled\<rparr>"])
       (simp_all add: Write cancel_write_def put_job_def set_remove1_subset)
qed

lemma jobs_ok_call:
  assumes "jobs_ok pool s" and "job_call s t"
  shows "jobs_ok pool t"
  using assms(2)
proof cases
  case (Submit i)
  then have "i \<notin> set (js_submitting s) \<union> set (js_queue s) \<union> set (js_running s)"
    using ok_known [OF assms(1)] by blast
  then show ?thesis using assms(1) Submit by (auto simp: jobs_ok_def known_ids_def submit_job_def)
next
  case (SubmitDone i)
  then show ?thesis using assms(1) by (auto simp: jobs_ok_def known_ids_def submit_done_job_def)
next
  case (Cancel i w)
  then show ?thesis using assms(1) by (auto simp: jobs_ok_def known_ids_def status_of_def cancel_check_def split: if_splits option.splits)
next
  case (Delete i)
  then have "t = s\<lparr>js_listed := removeAll i (js_listed s)\<rparr>" by (simp add: delete_job_def split: if_splits)
  then show ?thesis using assms(1) unfolding jobs_ok_def by (auto simp: known_ids_def)
qed

lemma reach_ok: "jobs_reach pool s \<Longrightarrow> jobs_ok pool s"
proof (induction rule: jobs_reach.induct)
  case init
  then show ?case by (simp add: jobs_ok_def known_ids_def initial_jobs_def)
qed (auto intro: jobs_ok_work jobs_ok_call)

lemma jobs_run_ok: "jobs_ok pool s \<Longrightarrow> (job_work pool ^^ n) s t \<Longrightarrow> jobs_ok pool t"
  by (induction n arbitrary: t) (auto intro: jobs_ok_work)

text \<open>C29: In every reachable state no more jobs run than there are workers, the channel holds at most 100, a job
  is at one place only, and a job that is not in a terminal state is on its way: in a call of \<open>Submit\<close>, in the
  channel or with a worker.\<close>

theorem jobs_stay_ok: "jobs_reach pool s \<Longrightarrow> jobs_ok pool s"
  by (rule reach_ok)

theorem jobs_stay_ok_witness: "jobs_ok 2 (start_job 7 (enqueue_job 7 (submit_job 7 initial_jobs)))"
proof (rule jobs_stay_ok)
  have "jobs_reach 2 (submit_job 7 initial_jobs)"
    by (rule jobs_reach.call [OF jobs_reach.init Submit]) (simp add: initial_jobs_def)
  then have "jobs_reach 2 (enqueue_job 7 (submit_job 7 initial_jobs))"
    by (rule jobs_reach.work [OF _ Enqueue]) (simp_all add: initial_jobs_def submit_job_def)
  then show "jobs_reach 2 (start_job 7 (enqueue_job 7 (submit_job 7 initial_jobs)))"
    by (rule jobs_reach.work [OF _ Begin]) (simp_all add: initial_jobs_def submit_job_def enqueue_job_def)
qed

section \<open>Every job ends\<close>

definition work_left :: "job_system \<Rightarrow> nat" where
  "work_left s = 3 * length (js_submitting s) + 2 * length (js_queue s) + length (js_running s)
     + sum_list (map (\<lambda>w. if snd w then 2 else 1) (js_cancelling s))"

lemma sum_remove1: "x \<in> set xs \<Longrightarrow> sum_list (map f xs) = f x + sum_list (map f (remove1 x xs))" for f :: "'a \<Rightarrow> nat"
  by (induction xs) auto

lemma length_remove1_Suc: "x \<in> set xs \<Longrightarrow> length xs = Suc (length (remove1 x xs))"
  by (induction xs) auto

lemma work_decreases: "job_work pool s t \<Longrightarrow> work_left t < work_left s"
proof (induction rule: job_work.induct)
  case (Enqueue i s)
  then show ?case using length_remove1_Suc [of i "js_submitting s"] by (simp add: work_left_def enqueue_job_def)
next
  case (Abort i s e)
  then show ?case using length_remove1_Suc [of i "js_submitting s"] by (simp add: work_left_def abort_submit_def)
next
  case (Begin s i js)
  then show ?case by (simp add: work_left_def start_job_def)
next
  case (Finish i s r)
  then show ?case using length_remove1_Suc [of i "js_running s"] by (simp add: work_left_def finish_job_def)
next
  case (Signal i s)
  then show ?case using sum_remove1 [of "(i, True)" "js_cancelling s" "\<lambda>w. if snd w then 2 else 1"]
    by (simp add: work_left_def cancel_signal_def)
next
  case (Write i s)
  then show ?case using sum_remove1 [of "(i, False)" "js_cancelling s" "\<lambda>w. if snd w then 2 else 1"]
    by (simp add: work_left_def cancel_write_def)
qed

lemma work_bounded: "(job_work pool ^^ n) s t \<Longrightarrow> n + work_left t \<le> work_left s"
proof (induction n arbitrary: t)
  case (Suc n)
  then obtain u where "(job_work pool ^^ n) s u" "job_work pool u t" by auto
  then show ?case using Suc.IH [of u] work_decreases [of pool u t] by simp
qed simp

lemma idle_all_ended:
  assumes "jobs_ok pool s" and "0 < pool" and "\<And>u. \<not> job_work pool s u" and "js_jobs s i = Some j"
  shows "terminal_status (jb_status j)"
proof (rule ccontr)
  assume "\<not> terminal_status (jb_status j)"
  then have "i \<in> set (js_submitting s) \<union> set (js_queue s) \<union> set (js_running s)" using assms(1,4) by (auto simp: jobs_ok_def)
  moreover have "js_running s = []" using assms(3) Finish [of _ s pool] by (metis list.set_intros(1) neq_Nil_conv)
  moreover have "js_submitting s = []" using assms(3) Abort [of _ s pool] by (metis list.set_intros(1) neq_Nil_conv)
  moreover have "js_queue s = []" using assms(2,3) Begin [of s _ _ pool] \<open>js_running s = []\<close>
    by (metis list.size(3) neq_Nil_conv)
  ultimately show False by simp
qed

definition all_ended :: "job_system \<Rightarrow> bool" where
  "all_ended s \<longleftrightarrow> (\<forall>i j. js_jobs s i = Some j \<longrightarrow> terminal_status (jb_status j))"

text \<open>C31: Once callers stop calling, the manager comes to rest: from a reachable state every run of the workers and
  of the calls under way has at most \<open>work_left\<close> steps, and where it can go no further every job ever
  submitted is completed, failed or cancelled.\<close>

theorem jobs_settle:
  assumes "jobs_reach pool s" and "0 < pool" and "(job_work pool ^^ n) s t"
  shows "n \<le> work_left s \<and> ((\<exists>u. job_work pool t u) \<or> all_ended t)"
  using idle_all_ended [OF jobs_run_ok [OF reach_ok [OF assms(1)] assms(3)] assms(2)] work_bounded [OF assms(3)]
  unfolding all_ended_def by (metis add_leD1)

lemma one_submitted: "jobs_reach pool (submit_job i initial_jobs)"
  by (rule jobs_reach.call [OF jobs_reach.init Submit]) (simp add: initial_jobs_def)

theorem jobs_settle_witness:
  "0 \<le> work_left (submit_job 7 initial_jobs) \<and> ((\<exists>u. job_work 2 (submit_job 7 initial_jobs) u) \<or> all_ended (submit_job 7 initial_jobs))"
  by (rule jobs_settle [of 2 "submit_job 7 initial_jobs" 0]) (simp_all add: one_submitted)

section \<open>Cancelling\<close>

lemma reach_submitted: "jobs_reach pool s \<Longrightarrow> js_jobs s i = None \<Longrightarrow> length (js_queue s) < 100
  \<Longrightarrow> jobs_reach pool (enqueue_job i (submit_job i s))"
  by (rule jobs_reach.work [OF jobs_reach.call [OF _ Submit] Enqueue]) (simp_all add: submit_job_def)

text \<open>C?: Cancelling a job that still waits in the channel does not stop it: once \<open>Cancel\<close> has answered with
  success and the job is cancelled, a worker that takes it makes it running again, generates the report and
  completes it.\<close>

theorem cancelled_job_runs:
  assumes "jobs_reach pool s" and "js_queue s = i # is" and "status_of s i = Some JobCancelled" and "length (js_running s) < pool"
  shows "\<exists>t. (job_work pool ^^ 2) s t \<and> status_of t i = Some JobCompleted"
proof -
  let ?t = "finish_job i (Inr rep) (start_job i s)"
  have "job_work pool s (start_job i s)" using assms(2,4) by (rule Begin)
  moreover have "job_work pool (start_job i s) ?t" by (rule Finish) (simp add: start_job_def)
  ultimately have "(job_work pool ^^ 2) s ?t" by (auto simp: numeral_2_eq_2)
  moreover have "status_of ?t i = Some JobCompleted"
    using assms(3) by (auto simp: status_of_def start_job_def finish_job_def option.map_comp comp_def)
  ultimately show ?thesis by blast
qed

abbreviation cancelled_early :: job_system where
  "cancelled_early \<equiv> cancel_write 7 ((enqueue_job 7 (submit_job 7 initial_jobs))\<lparr>js_cancelling := [(7, False)]\<rparr>)"

lemma cancelled_early_reach: "jobs_reach 1 cancelled_early"
proof -
  let ?q = "enqueue_job 7 (submit_job 7 initial_jobs)"
  have q: "jobs_reach 1 ?q" by (rule reach_submitted [OF jobs_reach.init]) (simp_all add: initial_jobs_def)
  have "cancel_check 7 ?q = Inr (7, False)"
    by (simp add: cancel_check_def status_of_def enqueue_job_def submit_job_def initial_jobs_def)
  then have "jobs_reach 1 (?q\<lparr>js_cancelling := (7, False) # js_cancelling ?q\<rparr>)"
    by (rule jobs_reach.call [OF q Cancel])
  then have "jobs_reach 1 (?q\<lparr>js_cancelling := [(7, False)]\<rparr>)" by (simp add: enqueue_job_def submit_job_def initial_jobs_def)
  then show ?thesis by (rule jobs_reach.work [OF _ Write]) simp
qed

theorem cancelled_job_runs_witness: "\<exists>t. (job_work 1 ^^ 2) cancelled_early t \<and> status_of t 7 = Some JobCompleted"
  by (rule cancelled_job_runs [OF cancelled_early_reach, of 7 "[]"])
     (simp_all add: cancel_write_def status_of_def enqueue_job_def submit_job_def initial_jobs_def)

text \<open>C40: \<open>Cancel\<close> reads the status and writes it under two holds of the lock: with a worker, a job that finishes
  between them has its report, and is then shown as cancelled all the same.\<close>

theorem completed_job_cancelled:
  assumes "0 < pool"
  shows "\<exists>s t j. jobs_reach pool s \<and> status_of s i = Some JobCompleted \<and> job_work pool s t
    \<and> js_jobs t i = Some j \<and> jb_status j = JobCancelled \<and> jb_report j = ''42''"
proof -
  let ?r = "start_job i (enqueue_job i (submit_job i initial_jobs))"
  let ?c = "?r\<lparr>js_cancelling := [(i, True)]\<rparr>"
  let ?s = "finish_job i (Inr ''42'') (cancel_signal i ?c)"
  note defs = enqueue_job_def submit_job_def initial_jobs_def start_job_def cancel_signal_def
  have "jobs_reach pool (enqueue_job i (submit_job i initial_jobs))"
    by (rule reach_submitted [OF jobs_reach.init]) (simp_all add: initial_jobs_def)
  then have r: "jobs_reach pool ?r" by (rule jobs_reach.work [OF _ Begin]) (use assms in \<open>simp_all add: defs\<close>)
  have "cancel_check i ?r = Inr (i, True)" by (simp add: cancel_check_def status_of_def defs)
  then have "jobs_reach pool (?r\<lparr>js_cancelling := (i, True) # js_cancelling ?r\<rparr>)" by (rule jobs_reach.call [OF r Cancel])
  then have "jobs_reach pool ?c" by (simp add: defs)
  then have "jobs_reach pool (cancel_signal i ?c)" by (rule jobs_reach.work [OF _ Signal]) simp
  then have s: "jobs_reach pool ?s" by (rule jobs_reach.work [OF _ Finish]) (simp add: defs)
  have "job_work pool ?s (cancel_write i ?s)" by (rule Write) (simp add: defs finish_job_def)
  with s show ?thesis
    by (intro exI [of _ ?s] exI [of _ "cancel_write i ?s"])
       (simp add: status_of_def cancel_write_def finish_job_def defs)
qed

theorem completed_job_cancelled_witness:
  "\<exists>s t j. jobs_reach 1 s \<and> status_of s 7 = Some JobCompleted \<and> job_work 1 s t
    \<and> js_jobs t 7 = Some j \<and> jb_status j = JobCancelled \<and> jb_report j = ''42''"
  by (rule completed_job_cancelled [of 1 7]) simp

end
