(* ===== verification/AuthHandler.thy ===== *)
theory AuthHandler
  imports Server
begin

text \<open>
  \<open>api/internal/handlers/auth.go\<close>: login, logout, refresh and session.  Each handler is a function from
  the request and the server's state to the new state and the reply; \<open>Login\<close> and \<open>Refresh\<close> are composed of
  the parts the source has between its early returns.  The pause \<open>Login\<close> makes on the throttle's advice
  moves the clock of what follows.
\<close>

section \<open>Replies\<close>

record auth_body =
  ab_csrf :: string
  ab_expires_in :: int
  ab_roles :: "string list"
  ab_username :: string
  ab_provider :: string

definition set_auth_cookies :: "string \<Rightarrow> string \<Rightarrow> string \<Rightarrow> (string \<times> string) list" where
  "set_auth_cookies access refresh csrf = [(''csrf_token'', csrf), (''jwt'', access), (''refresh_jwt'', refresh)]"

definition expire_auth_cookies :: "(string \<times> string) list" where
  "expire_auth_cookies = [(''csrf_token'', []), (''jwt'', []), (''refresh_jwt'', [])]"

section \<open>Login\<close>

definition login_lockout_event :: "string \<Rightarrow> throttle_result \<Rightarrow> audit_event" where
  "login_lockout_event username r =
     \<lparr>ev_action = ''auth.login.failure'', ev_outcome = ''failure'', ev_actor = None, ev_label = username,
      ev_target_type = ''user'', ev_target = [],
      ev_meta = [(''lockout'', MBool True), (''locked_until'', MTime (res_locked_until r)),
                 (''failure_count'', MInt (res_failure_count r))]\<rparr>"

text \<open>The throttle in front of the credentials: a refusal, or the pause to make.\<close>

definition login_gate :: "srv_env \<Rightarrow> ctx \<Rightarrow> string \<Rightarrow> srv \<Rightarrow> srv \<times> (auth_body http_reply + duration)" where
  "login_gate V q username s =
     (if v_has_throttle V
      then let r = check (s_throttle s) username (c_now q) in
        if \<not> allowed r
        then (audit_record V q (login_lockout_event username r) s,
              Inl \<lparr>status = 429, message = ''Too many failed attempts. Try again later.'', body = None,
                   cookies = [], retry_after = Some (max ((res_locked_until r - c_now q) div second) 1)\<rparr>)
        else (s, Inr (max (delay r) 0))
      else (s, Inr 0))"

text \<open>The three credential checks: role, token subject and row id of the first that matches.\<close>

definition credentials :: "srv_env \<Rightarrow> ctx \<Rightarrow> string \<Rightarrow> string \<Rightarrow> srv \<Rightarrow> (string \<times> string \<times> int) option" where
  "credentials V q username password s =
     (if username = v_admin V \<and> v_admin_hash V \<noteq> [] \<and> v_bcrypt V (v_admin_hash V) password
      then Some (''admin'', username, 0)
      else if v_viewer V \<noteq> [] \<and> username = v_viewer V \<and> v_viewer_hash V \<noteq> []
              \<and> v_bcrypt V (v_viewer_hash V) password
      then Some (''viewer'', username, 0)
      else if v_has_users V
      then (case read_db (c_fails q ''users.GetByEmail'') (get_user_by_email (s_users s) username) of
              Inr u \<Rightarrow> if u_provider u = ''local'' \<and> u_is_active u \<and> u_password_hash u \<noteq> []
                          \<and> v_bcrypt V (u_password_hash u) password
                       then Some (u_role u, itoa (u_id u), u_id u) else None
            | Inl _ \<Rightarrow> None)
      else None)"

definition login_failure :: "srv_env \<Rightarrow> ctx \<Rightarrow> string \<Rightarrow> srv \<Rightarrow> srv \<times> auth_body http_reply" where
  "login_failure V q username s =
     (let (s1, m) =
            (if v_has_throttle V
             then let (t, r) = record_failure (s_throttle s) username (c_now q)
                  in (s\<lparr>s_throttle := t\<rparr>,
                      (''failure_count'', MInt (res_failure_count r)) #
                      (if allowed r then []
                       else [(''lockout'', MBool True), (''locked_until'', MTime (res_locked_until r))]))
             else (s, []))
      in (audit_record V q
            \<lparr>ev_action = ''auth.login.failure'', ev_outcome = ''failure'', ev_actor = None,
             ev_label = username, ev_target_type = ''user'', ev_target = [], ev_meta = m\<rparr> s1,
          err 401 ''Invalid username/password''))"

definition touch_last_login :: "srv_env \<Rightarrow> ctx \<Rightarrow> int \<Rightarrow> srv \<Rightarrow> srv" where
  "touch_last_login V q i s =
     (if i \<noteq> 0 \<and> v_has_users V \<and> \<not> c_fails q ''users.UpdateLastLogin''
      then s\<lparr>s_users := fst (update_last_login (s_users s) i (c_now q))\<rparr> else s)"

definition login_family :: "srv_env \<Rightarrow> ctx \<Rightarrow> string \<Rightarrow> string \<Rightarrow> string \<Rightarrow> string \<Rightarrow> family" where
  "login_family V q fam sub role jti =
     \<lparr>f_id = fam, f_user = sub, f_role = role, f_provider = ''local'', f_current_jti = jti,
      f_previous_jti = None, f_grace_until = None, f_status = ''active'', f_created_at = 0, f_updated_at = 0,
      f_expires_at = c_now q + refresh_expiry (v_jwt V)\<rparr>"

text \<open>What follows valid credentials.\<close>

definition login_issue ::
    "srv_env \<Rightarrow> ctx \<Rightarrow> string \<Rightarrow> string \<Rightarrow> string \<Rightarrow> int \<Rightarrow> srv \<Rightarrow> srv \<times> auth_body http_reply" where
  "login_issue V q username role sub i s =
     (let s1 = (if v_has_throttle V then s\<lparr>s_throttle := record_success (s_throttle s) username\<rparr> else s);
          s2 = touch_last_login V q i s1
      in case new_family_id (rnd q 0) of
           None \<Rightarrow> (s2, err 500 ''Failed to generate session ID'')
         | Some fam \<Rightarrow>
           (case generate_tokens_for_family (v_lib V) (v_jwt V) (rnd q 1) (rnd q 2) (c_now q) sub role ''local'' fam of
              Inl _ \<Rightarrow> (s2, err 500 ''Failed to generate tokens'')
            | Inr tp \<Rightarrow>
              (let s3 = (if v_has_families V \<and> \<not> c_fails q ''families.Create''
                         then s2\<lparr>s_families := fst (create_family
                                (login_family V q fam sub role (tp_refresh_jti tp)) (c_now q) (s_families s2))\<rparr>
                         else s2)
               in case generate_csrf_token (rnd q 3) of
                    None \<Rightarrow> (s3, err 500 ''Failed to generate tokens'')
                  | Some csrf \<Rightarrow>
                    (audit_record V q
                       \<lparr>ev_action = ''auth.login.success'', ev_outcome = ''success'',
                        ev_actor = (if i \<noteq> 0 then Some i else None), ev_label = username,
                        ev_target_type = ''user'', ev_target = sub,
                        ev_meta = [(''family_id'', MStr fam), (''role'', MStr role)]\<rparr> s3,
                     \<lparr>status = 200, message = ''Successfully logged'',
                      body = Some \<lparr>ab_csrf = csrf, ab_expires_in = access_expiry (v_jwt V) div second,
                                   ab_roles = [role], ab_username = [], ab_provider = []\<rparr>,
                      cookies = set_auth_cookies (tp_access tp) (tp_refresh tp) csrf,
                      retry_after = None\<rparr>))))"

text \<open>The body is the decoded username and password, \<open>None\<close> when it does not decode.\<close>

definition login ::
    "srv_env \<Rightarrow> ctx \<Rightarrow> (string \<times> string) option \<Rightarrow> srv \<Rightarrow> srv \<times> auth_body http_reply" where
  "login V q req s =
     (if \<not> v_security V then (s, err 404 ''SECURITY is not enabled'')
      else case req of
        None \<Rightarrow> (s, err 400 ''Missing JSON in body request'')
      | Some (username, password) \<Rightarrow>
        (case login_gate V q username s of
           (s', Inl reply) \<Rightarrow> (s', reply)
         | (s', Inr pause) \<Rightarrow>
           (let q' = q\<lparr>c_now := c_now q + pause\<rparr> in
            case credentials V q' username password s' of
              None \<Rightarrow> login_failure V q' username s'
            | Some (role, sub, i) \<Rightarrow> login_issue V q' username role sub i s')))"

section \<open>Logout\<close>

definition revoke_presented_family :: "srv_env \<Rightarrow> ctx \<Rightarrow> string \<Rightarrow> srv \<Rightarrow> srv" where
  "revoke_presented_family V q tok s =
     (if \<not> v_has_families V then s
      else case srv_validate V q tok ''refresh'' s of
        Inl _ \<Rightarrow> s
      | Inr cl \<Rightarrow>
        (let fam = str_or_empty (claim_str ''fam'' cl) in
         if fam \<noteq> [] \<and> \<not> c_fails q ''families.Revoke''
         then s\<lparr>s_families := fst (revoke_family fam (c_now q) (s_families s))\<rparr> else s))"

definition logout :: "srv_env \<Rightarrow> ctx \<Rightarrow> srv \<Rightarrow> srv \<times> auth_body http_reply" where
  "logout V q s =
     (if \<not> v_security V then (s, err 404 ''SECURITY is not enabled'')
      else let bearer = extract_bearer_token (c_request q);
               tok = (if bearer = [] then extract_cookie_token (c_request q) ''jwt'' else bearer);
               s1 = blacklist_access_token V True q tok ''access'' (access_expiry (v_jwt V)) s;
               rtok = extract_cookie_token (c_request q) ''refresh_jwt'';
               s2 = (if rtok = [] then s1
                     else blacklist_access_token V True q rtok ''refresh'' (refresh_expiry (v_jwt V))
                            (revoke_presented_family V q rtok s1));
               sub = (case claims_subject q of Some (x, _) \<Rightarrow> x | None \<Rightarrow> []);
               ev = \<lparr>ev_action = ''auth.logout'', ev_outcome = ''success'', ev_actor = claims_user_id q,
                     ev_label = sub, ev_target_type = ''session'', ev_target = sub, ev_meta = []\<rparr>
           in (audit_record V q ev s2,
               \<lparr>status = 200, message = ''Successfully logged out'', body = None,
                cookies = expire_auth_cookies, retry_after = None\<rparr>))"

section \<open>Refresh\<close>

text \<open>The checks up to the reuse test: a refusal, or the family with the presented identifier.\<close>

definition refresh_family ::
    "srv_env \<Rightarrow> ctx \<Rightarrow> srv \<Rightarrow> auth_body http_reply + (string \<times> string \<times> family)" where
  "refresh_family V q s =
     (if \<not> v_security V then Inl (err 404 ''SECURITY is not enabled'')
      else if \<not> v_has_families V then Inl (err 401 ''Refresh not available'')
      else let tok = extract_cookie_token (c_request q) ''refresh_jwt'' in
        if tok = [] then Inl (err 401 ''Missing refresh token'')
        else case srv_validate V q tok ''refresh'' s of
          Inl _ \<Rightarrow> Inl (err 401 ''Invalid refresh token'')
        | Inr cl \<Rightarrow>
          (let fam = str_or_empty (claim_str ''fam'' cl); jti = str_or_empty (claim_str ''jti'' cl) in
           if fam = [] \<or> jti = [] then Inl (err 401 ''Malformed refresh token'')
           else if c_fails q ''families.GetByID'' then Inl (err 500 ''Failed to load session'')
           else case get_family fam (s_families s) of
             None \<Rightarrow> Inl (err 401 ''Unknown session'')
           | Some f \<Rightarrow> if f_status f \<noteq> status_active then Inl (err 401 ''Session no longer active'')
                       else Inr (fam, jti, f)))"

definition jti_accepted :: "time \<Rightarrow> string \<Rightarrow> family \<Rightarrow> bool" where
  "jti_accepted now jti f \<longleftrightarrow>
     jti = f_current_jti f \<or>
     (f_previous_jti f = Some jti \<and> (case f_grace_until f of Some g \<Rightarrow> now < g | None \<Rightarrow> False))"

definition family_event :: "string \<Rightarrow> string \<Rightarrow> string \<Rightarrow> family \<Rightarrow> (string \<times> meta) list \<Rightarrow> audit_event" where
  "family_event act outc fam f m =
     \<lparr>ev_action = act, ev_outcome = outc, ev_actor = parse_int (f_user f), ev_label = f_user f,
      ev_target_type = ''session'', ev_target = fam, ev_meta = m\<rparr>"

definition refresh_compromise ::
    "srv_env \<Rightarrow> ctx \<Rightarrow> string \<Rightarrow> string \<Rightarrow> family \<Rightarrow> srv \<Rightarrow> srv \<times> auth_body http_reply" where
  "refresh_compromise V q fam jti f s =
     (let s1 = (if c_fails q ''families.MarkCompromised'' then s
                else s\<lparr>s_families := fst (mark_compromised fam (c_now q) (s_families s))\<rparr>)
      in (audit_record V q (family_event ''auth.refresh.compromise'' ''failure'' fam f
                              [(''presented_jti'', MStr jti)]) s1,
          err 401 ''Session compromised''))"

text \<open>\<open>familyUserInactive\<close>: \<open>None\<close> is an error of the lookup.\<close>

definition family_user_inactive :: "srv_env \<Rightarrow> ctx \<Rightarrow> family \<Rightarrow> srv \<Rightarrow> bool option" where
  "family_user_inactive V q f s =
     (if \<not> v_has_users V then Some False
      else let answer = (\<lambda>res. case res of Inl ErrUserNotFound \<Rightarrow> Some True | Inl _ \<Rightarrow> None
                                | Inr u \<Rightarrow> Some (\<not> u_is_active u))
           in case parse_int (f_user f) of
                Some i \<Rightarrow> answer (read_db (c_fails q ''users.GetByID'') (get_user_by_id (s_users s) i))
              | None \<Rightarrow>
                if f_provider f = ''oidc''
                then answer (read_db (c_fails q ''users.GetByEmail'') (get_user_by_email (s_users s) (f_user f)))
                else Some False)"

definition refresh_issue ::
    "srv_env \<Rightarrow> ctx \<Rightarrow> string \<Rightarrow> family \<Rightarrow> srv \<Rightarrow> srv \<times> auth_body http_reply" where
  "refresh_issue V q fam f s =
     (case generate_tokens_for_family (v_lib V) (v_jwt V) (rnd q 0) (rnd q 1) (c_now q)
             (f_user f) (f_role f) (f_provider f) fam of
        Inl _ \<Rightarrow> (s, err 500 ''Failed to generate tokens'')
      | Inr tp \<Rightarrow>
        (if c_fails q ''families.Rotate'' then (s, err 500 ''Failed to rotate session'')
         else case rotate_family fam (tp_refresh_jti tp) 30 (c_now q) (s_families s) of
           (_, Inl _) \<Rightarrow> (s, err 500 ''Failed to rotate session'')
         | (t, Inr _) \<Rightarrow>
           (let s1 = s\<lparr>s_families := t\<rparr> in
            case generate_csrf_token (rnd q 2) of
              None \<Rightarrow> (s1, err 500 ''Failed to generate CSRF token'')
            | Some csrf \<Rightarrow>
              (audit_record V q (family_event ''auth.refresh.success'' ''success'' fam f []) s1,
               \<lparr>status = 200, message = ''Session refreshed'',
                body = Some \<lparr>ab_csrf = csrf, ab_expires_in = access_expiry (v_jwt V) div second,
                             ab_roles = [f_role f], ab_username = f_user f, ab_provider = f_provider f\<rparr>,
                cookies = set_auth_cookies (tp_access tp) (tp_refresh tp) csrf, retry_after = None\<rparr>))))"

text \<open>What follows the reuse test; the family is the row read before, the state may have moved on.\<close>

definition refresh_decide ::
    "srv_env \<Rightarrow> ctx \<Rightarrow> string \<times> string \<times> family \<Rightarrow> srv \<Rightarrow> srv \<times> auth_body http_reply" where
  "refresh_decide V q fjf s =
     (case fjf of (fam, jti, f) \<Rightarrow>
       if \<not> jti_accepted (c_now q) jti f then refresh_compromise V q fam jti f s
       else case family_user_inactive V q f s of
         None \<Rightarrow> (s, err 500 ''Failed to load session'')
       | Some True \<Rightarrow>
         ((if c_fails q ''families.Revoke'' then s
           else s\<lparr>s_families := fst (revoke_family fam (c_now q) (s_families s))\<rparr>),
          err 401 ''Session no longer active'')
       | Some False \<Rightarrow> refresh_issue V q fam f s)"

definition refresh :: "srv_env \<Rightarrow> ctx \<Rightarrow> srv \<Rightarrow> srv \<times> auth_body http_reply" where
  "refresh V q s =
     (case refresh_family V q s of Inl reply \<Rightarrow> (s, reply) | Inr fjf \<Rightarrow> refresh_decide V q fjf s)"

section \<open>Session\<close>

definition session :: "srv_env \<Rightarrow> ctx \<Rightarrow> srv \<Rightarrow> auth_body http_reply" where
  "session V q s =
     (case c_claims q of
        None \<Rightarrow> err 401 ''No active session''
      | Some cl \<Rightarrow>
        (let sub = str_or_empty (claim_str ''sub'' cl);
             role = str_or_empty (claim_str ''role'' cl);
             provider = str_or_empty (claim_str ''provider'' cl);
             username = (case parse_int sub of
                 Some i \<Rightarrow> if v_has_users V then
                     (case read_db (c_fails q ''users.GetByID'') (get_user_by_id (s_users s) i) of
                        Inr u \<Rightarrow> u_email u | Inl _ \<Rightarrow> sub) else sub
               | None \<Rightarrow> sub);
             remaining = (case map_of cl ''exp'' of Some (CNum n) \<Rightarrow> of_unix n - c_now q | _ \<Rightarrow> 0)
         in ok 200 ''Session successfully obtained''
              \<lparr>ab_csrf = [], ab_expires_in = (if remaining > 0 then remaining div second else 0),
               ab_roles = (if role = [] then [] else [role]), ab_username = username,
               ab_provider = (if provider = [] then ''local'' else provider)\<rparr>))"

section \<open>What a refresh grants\<close>

lemma refresh_family_Inr:
  assumes "refresh_family V q s = Inr (k, j, f)"
  obtains cl where "srv_validate V q (extract_cookie_token (c_request q) ''refresh_jwt'') ''refresh'' s = Inr cl"
    and "claim_str ''fam'' cl = Some k" "claim_str ''jti'' cl = Some j" "k \<noteq> []" "j \<noteq> []"
    and "get_family k (s_families s) = Some f" "f_status f = status_active"
proof -
  have "\<exists>cl. srv_validate V q (extract_cookie_token (c_request q) ''refresh_jwt'') ''refresh'' s = Inr cl
      \<and> str_or_empty (claim_str ''fam'' cl) = k \<and> str_or_empty (claim_str ''jti'' cl) = j \<and> k \<noteq> [] \<and> j \<noteq> []
      \<and> get_family k (s_families s) = Some f \<and> f_status f = status_active"
    using assms by (auto simp: refresh_family_def Let_def split: if_splits sum.splits option.splits)
  then show ?thesis
    using that by (auto simp: str_or_empty_def split: option.splits)
qed

lemma refresh_family_on:
  "refresh_family V q s = Inr (k, j, f) \<Longrightarrow> v_security V \<and> v_has_families V \<and> k \<noteq> [] \<and> j \<noteq> []"
  by (auto simp: refresh_family_def Let_def split: if_splits sum.splits option.splits)

lemma refresh_family_Inl: "refresh_family V q s = Inl r \<Longrightarrow> status r \<noteq> 200 \<and> cookies r = []"
  by (auto simp: refresh_family_def Let_def split: if_splits sum.splits option.splits)

lemma refresh_family_value:
  assumes "srv_validate V q (extract_cookie_token (c_request q) ''refresh_jwt'') ''refresh'' s = Inr cl"
    and "claim_str ''fam'' cl = Some k" "claim_str ''jti'' cl = Some j"
    and "refresh_family V q s = Inr (k', j', f)"
  shows "k' = k" and "j' = j"
  using refresh_family_Inr [OF assms(4)] assms(1-3) by (metis Inr_inject option.inject)+

lemma refresh_issue_200:
  assumes "refresh_issue V q k f s = (s', r)" and "status r = 200"
  obtains b t where "rnd q 1 = Some b"
    and "rotate_family k (hex_encode b) 30 (c_now q) (s_families s) = (t, Inr ())"
    and "s_families s' = t" and "s_users s' = s_users s"
    and "map_option ab_roles (body r) = Some [f_role f]"
    and "map_option ab_username (body r) = Some (f_user f)"
proof -
  obtain tp where g: "generate_tokens_for_family (v_lib V) (v_jwt V) (rnd q 0) (rnd q 1) (c_now q)
      (f_user f) (f_role f) (f_provider f) k = Inr tp"
    using assms by (auto simp: refresh_issue_def split: sum.splits)
  obtain b where b: "rnd q 1 = Some b" "tp_refresh_jti tp = hex_encode b"
    using generate_Inr [OF g] by metis
  show ?thesis
    using assms g b that [OF b(1)]
    by (auto simp: refresh_issue_def Let_def split: if_splits sum.splits option.splits prod.splits)
qed

lemma refresh_compromise_status [simp]:
  "status (snd (refresh_compromise V q k j f s)) = 401" "cookies (snd (refresh_compromise V q k j f s)) = []"
  by (simp_all add: refresh_compromise_def Let_def)

lemma refresh_200:
  assumes "refresh V q s = (s', r)" and "status r = 200"
  obtains k j f where "refresh_family V q s = Inr (k, j, f)" and "jti_accepted (c_now q) j f"
    and "family_user_inactive V q f s = Some False" and "refresh_issue V q k f s = (s', r)"
proof -
  obtain k j f where fam: "refresh_family V q s = Inr (k, j, f)"
    using assms refresh_family_Inl by (auto simp: refresh_def split: sum.splits prod.splits)
  then have dec: "refresh_decide V q (k, j, f) s = (s', r)" using assms(1) by (simp add: refresh_def)
  have acc: "jti_accepted (c_now q) j f"
  proof (rule ccontr)
    assume "\<not> jti_accepted (c_now q) j f"
    with dec have "refresh_compromise V q k j f s = (s', r)" by (simp add: refresh_decide_def)
    with refresh_compromise_status(1) [of V q k j f s] assms(2) show False by simp
  qed
  then show ?thesis
    using dec assms(2) by (intro that [OF fam acc])
      (auto simp: refresh_decide_def split: option.splits bool.splits)
qed

text \<open>Whether the account behind a family is a live one, in a state of the users table.\<close>

definition family_account_active :: "srv_env \<Rightarrow> family \<Rightarrow> user_db \<Rightarrow> bool" where
  "family_account_active V f db =
     (\<not> v_has_users V \<or>
      (case parse_int (f_user f) of
         Some i \<Rightarrow> (case get_user_by_id db i of Inr u \<Rightarrow> u_is_active u | Inl _ \<Rightarrow> False)
       | None \<Rightarrow> f_provider f = ''oidc'' \<longrightarrow>
           (case get_user_by_email db (f_user f) of Inr u \<Rightarrow> u_is_active u | Inl _ \<Rightarrow> False)))"

lemma family_user_inactive_False:
  "family_user_inactive V q f s = Some False \<Longrightarrow> family_account_active V f (s_users s)"
  by (auto simp: family_user_inactive_def family_account_active_def read_db_def Let_def
      split: if_splits option.splits sum.splits user_error.splits)


section \<open>Reuse of a refresh token\<close>

text \<open>Identifier \<open>j\<close> of family \<open>k\<close> cannot be used from \<open>T\<close> on.\<close>

definition spent :: "string \<Rightarrow> string \<Rightarrow> time \<Rightarrow> family list \<Rightarrow> bool" where
  "spent k j T t \<longleftrightarrow> families_ok t \<and> (\<forall>r. get_family k t = Some r \<longrightarrow>
     f_current_jti r \<noteq> j \<and> (f_previous_jti r = Some j \<longrightarrow> (\<forall>g. f_grace_until r = Some g \<longrightarrow> g \<le> T)))"

definition fresh_rotation :: "string \<Rightarrow> string \<Rightarrow> family_op \<Rightarrow> bool" where
  "fresh_rotation k j a = (case a of FRotate k' j' g now \<Rightarrow> k' = k \<longrightarrow> j' \<noteq> j
                           | FCreate fam now \<Rightarrow> f_id fam \<noteq> k | _ \<Rightarrow> True)"

lemma family_step_spent: "fresh_rotation k j a \<Longrightarrow> spent k j T t \<Longrightarrow> spent k j T (family_step a t)"
  by (cases a)
    (auto simp: spent_def fresh_rotation_def mark_compromised_def revoke_family_def get_family_ops
      split: option.splits if_splits dest: family_step_ok [of t a])

interpretation spent: guarded_machine family_step "spent k j T" "fresh_rotation k j" for k j T
  by unfold_locales (rule family_step_spent)

lemma spent_not_accepted:
  "spent k j T t \<Longrightarrow> get_family k t = Some f \<Longrightarrow> T \<le> now \<Longrightarrow> \<not> jti_accepted now j f"
  by (force simp: spent_def jti_accepted_def split: option.splits)

text \<open>C6: a used refresh token is dead after its grace.  Once a token has been exchanged, no request that
  presents its identifier thirty seconds later or more is granted anything, whatever rotations (to fresh
  identifiers), revocations and prunings happen to the table in between; if the session is still active
  then, the reply is "Session compromised" and the family is marked so.\<close>

theorem used_refresh_token_dead:
  assumes "families_ok (s_families s)" and "refresh V q s = (s1, r1)" and "status r1 = 200"
    and "srv_validate V q (extract_cookie_token (c_request q) ''refresh_jwt'') ''refresh'' s = Inr cl"
    and "claim_str ''fam'' cl = Some k" "claim_str ''jti'' cl = Some j" and "rnd q 1 \<noteq> None"
    and "\<forall>b. rnd q 1 = Some b \<longrightarrow> hex_encode b \<noteq> j"
    and "list_all (fresh_rotation k j) as" and "s_families s2 = fold family_step as (s_families s1)"
    and "srv_validate V q2 (extract_cookie_token (c_request q2) ''refresh_jwt'') ''refresh'' s2 = Inr cl2"
    and "claim_str ''fam'' cl2 = Some k" "claim_str ''jti'' cl2 = Some j"
    and "c_now q + 30 * second \<le> c_now q2"
    and "refresh V q2 s2 = (s3, r2)"
  shows "status r2 \<noteq> 200 \<and> cookies r2 = [] \<and>
     (\<forall>f. get_family k (s_families s2) = Some f \<and> f_status f = ''active'' \<and> (\<forall>x. \<not> c_fails q2 x)
          \<and> extract_cookie_token (c_request q2) ''refresh_jwt'' \<noteq> [] \<longrightarrow>
        message r2 = ''Session compromised''
        \<and> map_option f_status (get_family k (s_families s3)) = Some ''compromised'')"
proof -
  obtain k' j' f where fam: "refresh_family V q s = Inr (k', j', f)"
    and iss: "refresh_issue V q k' f s = (s1, r1)" using refresh_200 [OF assms(2,3)] by metis
  have kj: "k' = k" "j' = j" using refresh_family_value [OF assms(4-6) fam] by auto
  have f: "get_family k (s_families s) = Some f" using refresh_family_Inr [OF fam] kj by metis
  obtain b t where b: "rnd q 1 = Some b" "rotate_family k (hex_encode b) 30 (c_now q) (s_families s) = (t, Inr ())"
      "s_families s1 = t" using refresh_issue_200 [OF iss assms(3)] kj by metis
  have "families_ok t"
    using family_step_ok [OF assms(1), of "FRotate k (hex_encode b) 30 (c_now q)"] b(2) by simp
  then have "spent k j (c_now q2) (s_families s1)"
    using get_rotate [of k k "hex_encode b" 30 "c_now q" "s_families s"] f assms(8,14) b by (simp add: spent_def)
  then have sp: "spent k j (c_now q2) (s_families s2)"
    using spent.guarded_run [OF assms(9)] assms(10) by simp
  have notacc: "\<not> jti_accepted (c_now q2) j g" if "get_family k (s_families s2) = Some g" for g
    using spent_not_accepted [OF sp that] by simp
  show ?thesis
  proof (cases "refresh_family V q2 s2")
    case (Inl r)
    have "r2 = r" using Inl assms(15) by (simp add: refresh_def)
    moreover have False if "get_family k (s_families s2) = Some f" "f_status f = ''active''"
        "\<forall>x. \<not> c_fails q2 x" "extract_cookie_token (c_request q2) ''refresh_jwt'' \<noteq> []" for f
      using Inl that assms(11-13) refresh_family_on [OF fam] kj
      by (auto simp: refresh_family_def Let_def str_or_empty_def split: if_splits)
    ultimately show ?thesis using refresh_family_Inl [OF Inl] by blast
  next
    case (Inr x)
    obtain k2 j2 g where x: "x = (k2, j2, g)" by (cases x)
    with Inr have fam2: "refresh_family V q2 s2 = Inr (k2, j2, g)" by simp
    have kj2: "k2 = k" "j2 = j" using refresh_family_value [OF assms(11-13) fam2] by auto
    have g: "get_family k (s_families s2) = Some g" using refresh_family_Inr [OF fam2] kj2 by metis
    have c: "(s3, r2) = refresh_compromise V q2 k j g s2"
      using assms(15) fam2 kj2 notacc [OF g] by (simp add: refresh_def refresh_decide_def)
    have "status r2 = 401 \<and> cookies r2 = []"
      using refresh_compromise_status [of V q2 k j g s2] c by (metis snd_conv)
    moreover have "message r2 = ''Session compromised'' \<and>
        map_option f_status (get_family k (s_families s3)) = Some ''compromised''" if "\<forall>x. \<not> c_fails q2 x"
      using c that g
      by (simp add: refresh_compromise_def Let_def mark_compromised_def get_set_status)
    ultimately show ?thesis by simp
  qed
qed

section \<open>Login\<close>

text \<open>The request's moment of truth: the clock after the pause the throttle asks for.\<close>

definition after_pause :: "srv_env \<Rightarrow> ctx \<Rightarrow> string \<Rightarrow> srv \<Rightarrow> ctx" where
  "after_pause V q u s =
     q\<lparr>c_now := c_now q + (if v_has_throttle V then max (delay (check (s_throttle s) u (c_now q))) 0 else 0)\<rparr>"

definition throttle_allows :: "srv_env \<Rightarrow> ctx \<Rightarrow> string \<Rightarrow> srv \<Rightarrow> bool" where
  "throttle_allows V q u s \<longleftrightarrow> (v_has_throttle V \<longrightarrow> allowed (check (s_throttle s) u (c_now q)))"

lemma login_eq:
  assumes "v_security V"
  shows "login V q (Some (u, p)) s =
    (if \<not> throttle_allows V q u s
     then (audit_record V q (login_lockout_event u (check (s_throttle s) u (c_now q))) s,
           \<lparr>status = 429, message = ''Too many failed attempts. Try again later.'', body = None, cookies = [],
            retry_after = Some (max ((res_locked_until (check (s_throttle s) u (c_now q)) - c_now q) div second) 1)\<rparr>)
     else case credentials V q u p s of
       None \<Rightarrow> login_failure V (after_pause V q u s) u s
     | Some (role, sub, i) \<Rightarrow> login_issue V (after_pause V q u s) u role sub i s)"
proof -
  have "c_fails (q\<lparr>c_now := t\<rparr>) = c_fails q" for t by simp
  then have "credentials V (q\<lparr>c_now := t\<rparr>) u p s = credentials V q u p s" for t
    unfolding credentials_def by (simp only:)
  then show ?thesis
    using assms
    by (cases "v_has_throttle V"; cases "credentials V q u p s")
      (auto simp: login_def login_gate_def throttle_allows_def after_pause_def Let_def)
qed

lemma login_failure_effect:
  "status (snd (login_failure V q u s)) = 401 \<and> cookies (snd (login_failure V q u s)) = []
   \<and> message (snd (login_failure V q u s)) = ''Invalid username/password''
   \<and> retry_after (snd (login_failure V q u s)) = None
   \<and> s_throttle (fst (login_failure V q u s))
       = (if v_has_throttle V then fst (record_failure (s_throttle s) u (c_now q)) else s_throttle s)
   \<and> s_families (fst (login_failure V q u s)) = s_families s \<and> s_users (fst (login_failure V q u s)) = s_users s"
  by (simp add: login_failure_def split: prod.splits)

lemma touch_last_login_fields [simp]:
  "s_families (touch_last_login V q i s) = s_families s" "s_throttle (touch_last_login V q i s) = s_throttle s"
  "s_blacklist (touch_last_login V q i s) = s_blacklist s" "s_keys (touch_last_login V q i s) = s_keys s"
  by (simp_all add: touch_last_login_def)

lemma login_issue_effect:
  assumes "login_issue V q u role sub i s = (s', r)"
  shows "status r = 200 \<or> status r = 500 \<and> cookies r = []"
    and "s_throttle s' = (if v_has_throttle V then record_success (s_throttle s) u else s_throttle s)"
  using assms by (auto simp: login_issue_def Let_def split: option.splits sum.splits)

lemma login_issue_200:
  assumes "login_issue V q u role sub i s = (s', r)" and "status r = 200"
  obtains b0 b3 tp where "rnd q 0 = Some b0"
    and "generate_tokens_for_family (v_lib V) (v_jwt V) (rnd q 1) (rnd q 2) (c_now q) sub role ''local''
           (hex_encode b0) = Inr tp"
    and "cookies r = set_auth_cookies (tp_access tp) (tp_refresh tp) (hex_encode b3)"
    and "map_option ab_roles (body r) = Some [role]"
    and "s_families s' = (if v_has_families V \<and> \<not> c_fails q ''families.Create''
           then fst (create_family (login_family V q (hex_encode b0) sub role (tp_refresh_jti tp)) (c_now q) (s_families s))
           else s_families s)"
  using assms
  by (auto simp: login_issue_def Let_def new_family_id_def random_hex_def generate_csrf_token_def
      split: option.splits sum.splits)

text \<open>Who may sign in, over the rows of the table: the configured administrator, the configured viewer, or an active
  local account with that email, in any case, and that password.\<close>

definition signs_in :: "srv_env \<Rightarrow> srv \<Rightarrow> string \<Rightarrow> string \<Rightarrow> string \<Rightarrow> string \<Rightarrow> bool" where
  "signs_in V s u p role sub \<longleftrightarrow>
     (if u = v_admin V \<and> v_admin_hash V \<noteq> [] \<and> v_bcrypt V (v_admin_hash V) p then role = ''admin'' \<and> sub = u
      else if v_viewer V \<noteq> [] \<and> u = v_viewer V \<and> v_viewer_hash V \<noteq> [] \<and> v_bcrypt V (v_viewer_hash V) p
      then role = ''viewer'' \<and> sub = u
      else v_has_users V \<and> (\<exists>a \<in> set (users (s_users s)). to_lower (u_email a) = to_lower u \<and> u_provider a = ''local''
        \<and> u_is_active a \<and> u_password_hash a \<noteq> [] \<and> v_bcrypt V (u_password_hash a) p \<and> role = u_role a \<and> sub = itoa (u_id a)))"

abbreviation emails_unique :: "user_db \<Rightarrow> bool" where
  "emails_unique db \<equiv> inj_on (\<lambda>a. to_lower (u_email a)) (set (users db))"

lemma set_email_matches: "set (email_matches db u) = {a \<in> set (users db). to_lower (u_email a) = to_lower u}"
  by (auto simp: email_matches_def Let_def)

lemma get_user_by_email_row: "get_user_by_email db u = Inr a \<Longrightarrow> a \<in> set (users db) \<and> to_lower (u_email a) = to_lower u"
proof -
  assume "get_user_by_email db u = Inr a"
  then have "a \<in> set (email_matches db u)" by (cases "email_matches db u") (simp_all add: get_user_by_email_def)
  then show ?thesis unfolding set_email_matches by simp
qed

lemma get_user_by_email_unique:
  assumes "emails_unique db" and "a \<in> set (users db)" and "to_lower (u_email a) = to_lower u"
  shows "get_user_by_email db u = Inr a"
proof -
  have "a \<in> set (email_matches db u)" using assms(2,3) by (simp add: set_email_matches)
  then obtain b bs where b: "email_matches db u = b # bs" by (cases "email_matches db u") simp_all
  then have "b \<in> set (email_matches db u)" by simp
  then have "b \<in> set (users db)" "to_lower (u_email b) = to_lower u" by (simp_all add: set_email_matches)
  then have "b = a" using inj_onD [OF assms(1), of b a] assms(2,3) by simp
  then show ?thesis using b by (simp add: get_user_by_email_def)
qed

lemma credentials_sound: "credentials V q u p s = Some (role, sub, i) \<Longrightarrow> signs_in V s u p role sub"
  using get_user_by_email_row [of "s_users s" u]
  by (fastforce simp: credentials_def signs_in_def read_db_def split: if_splits sum.splits)

lemma credentials_complete:
  assumes "signs_in V s u p role sub" and "emails_unique (s_users s)" and "\<not> c_fails q ''users.GetByEmail''"
  shows "credentials V q u p s \<noteq> None"
  using assms get_user_by_email_unique [OF assms(2)]
  by (auto simp: credentials_def signs_in_def read_db_def split: if_splits)

text \<open>C37: the outcome of a login.  A locked account is answered 429 without looking at the password and
  with nothing changed but the audit log.  A name and a password that sign nobody in (an unknown name, a wrong
  password, a deactivated or a foreign account, an account without a password) are answered by one and the same 401 and
  counted against the name; when emails identify accounts and the database answers, the others never are.  Every other
  answer clears the count.  Cookies are handed out only with a 200, and then they are a token pair for the subject and the
  role of the configured user or the active local account that the name and the password are of.\<close>

theorem login_outcome:
  assumes "v_security V" and "login V q (Some (u, p)) s = (s', r)"
  shows "(\<not> throttle_allows V q u s \<longrightarrow> status r = 429 \<and> cookies r = [] \<and> s' = s\<lparr>s_audit := s_audit s'\<rparr>)
    \<and> (throttle_allows V q u s \<and> (\<forall>role sub. \<not> signs_in V s u p role sub) \<longrightarrow>
        r = err 401 ''Invalid username/password'')
    \<and> (throttle_allows V q u s \<and> status r = 401 \<longrightarrow>
        r = err 401 ''Invalid username/password'' \<and> s_families s' = s_families s \<and>
        s_throttle s' = (if v_has_throttle V
          then fst (record_failure (s_throttle s) u (c_now (after_pause V q u s))) else s_throttle s))
    \<and> (throttle_allows V q u s \<and> emails_unique (s_users s) \<and> \<not> c_fails q ''users.GetByEmail''
        \<and> (\<exists>role sub. signs_in V s u p role sub) \<longrightarrow> status r \<noteq> 401)
    \<and> (throttle_allows V q u s \<and> status r \<noteq> 401 \<longrightarrow>
        s_throttle s' = (if v_has_throttle V then record_success (s_throttle s) u else s_throttle s) \<and>
        (status r = 200 \<or> status r = 500))
    \<and> (status r = 200 \<or> cookies r \<noteq> [] \<longrightarrow> status r = 200 \<and> throttle_allows V q u s \<and>
        (\<exists>role sub fam tp csrf. signs_in V s u p role sub \<and> map_option ab_roles (body r) = Some [role]
             \<and> generate_tokens_for_family (v_lib V) (v_jwt V) (rnd q 1) (rnd q 2)
               (c_now (after_pause V q u s)) sub role ''local'' fam = Inr tp
             \<and> cookies r = set_auth_cookies (tp_access tp) (tp_refresh tp) csrf))"
proof -
  let ?q = "after_pause V q u s"
  have rnd: "rnd ?q n = rnd q n" for n by (simp add: rnd_def after_pause_def)
  consider (locked) "\<not> throttle_allows V q u s"
    | (wrong) "throttle_allows V q u s" "credentials V q u p s = None"
    | (valid) role sub i where "throttle_allows V q u s" "credentials V q u p s = Some (role, sub, i)"
    by (cases "credentials V q u p s") auto
  then show ?thesis
  proof cases
    case locked
    with assms show ?thesis by (auto simp: login_eq audit_record_def)
  next
    case wrong
    with assms have f: "login_failure V ?q u s = (s', r)" by (simp add: login_eq)
    then have "r = err 401 ''Invalid username/password''" by (auto simp: login_failure_def split: prod.splits)
    moreover have "s_families s' = s_families s" "s_throttle s' = (if v_has_throttle V
          then fst (record_failure (s_throttle s) u (c_now ?q)) else s_throttle s)"
      using f login_failure_effect [of V ?q u s] by simp_all
    moreover have "\<not> (emails_unique (s_users s) \<and> \<not> c_fails q ''users.GetByEmail'' \<and> (\<exists>role sub. signs_in V s u p role sub))"
      using wrong(2) credentials_complete by blast
    ultimately show ?thesis using wrong(1) by simp
  next
    case valid
    with assms have iss: "login_issue V ?q u role sub i s = (s', r)" by (simp add: login_eq)
    note e = login_issue_effect [OF iss]
    have "\<exists>fam tp csrf. map_option ab_roles (body r) = Some [role]
         \<and> generate_tokens_for_family (v_lib V) (v_jwt V) (rnd q 1) (rnd q 2) (c_now ?q) sub role ''local'' fam = Inr tp
         \<and> cookies r = set_auth_cookies (tp_access tp) (tp_refresh tp) csrf" if "status r = 200"
      using login_issue_200 [OF iss that] unfolding rnd by metis
    then have "status r = 200 \<or> cookies r \<noteq> [] \<longrightarrow> (\<exists>role sub fam tp csrf. signs_in V s u p role sub
         \<and> map_option ab_roles (body r) = Some [role]
         \<and> generate_tokens_for_family (v_lib V) (v_jwt V) (rnd q 1) (rnd q 2) (c_now ?q) sub role ''local'' fam = Inr tp
         \<and> cookies r = set_auth_cookies (tp_access tp) (tp_refresh tp) csrf)"
      using e(1) credentials_sound [OF valid(2)] by blast
    moreover have "status r \<noteq> 401" using e(1) by auto
    moreover have "\<exists>role sub. signs_in V s u p role sub" using credentials_sound [OF valid(2)] by blast
    ultimately show ?thesis using valid(1) e by blast
  qed
qed

section \<open>Logout\<close>

lemma blacklist_access_token_value:
  assumes "srv_validate V q tok ty s = Inr cl" and "claim_str ''jti'' cl = Some j" "j \<noteq> []" "tok \<noteq> []"
    and "map_of cl ''exp'' = Some (CNum e)" and "\<not> c_fails q ''blacklist.Add''"
  shows "s_blacklist (blacklist_access_token V True q tok ty d s) = bl_add j (of_unix e) (s_blacklist s)"
  using assms by (simp add: blacklist_access_token_def add_to_blacklist_def)

text \<open>Another identifier's entry does not change what a token validates to.\<close>

lemma srv_validate_bl_add:
  assumes "srv_validate V q tok ty s = Inr cl" and "claim_str ''jti'' cl = Some j" and "j \<noteq> j'"
    and "s_blacklist s' = bl_add j' e (s_blacklist s)"
  shows "srv_validate V q tok ty s' = Inr cl"
  using assms
  by (auto simp: srv_validate_def validate_token_def is_blacklisted_def bl_lookup_add split: option.splits if_splits)

text \<open>logout ends the session.  When nothing fails, a logout that carries the access and the refresh
  token of a session revokes both identifiers until they expire by themselves and ends the family, so that
  no later refresh in it succeeds, whatever happens to the table short of creating the family anew.\<close>

theorem logout_ends_session:
  assumes "v_security V" and "v_has_families V" and "\<forall>x. \<not> c_fails q x" and "families_ok (s_families s)"
    and "extract_bearer_token (c_request q) = []"
    and "extract_cookie_token (c_request q) ''jwt'' = tok" "tok \<noteq> []"
    and "srv_validate V q tok ''access'' s = Inr cl" and "claim_str ''jti'' cl = Some j" "j \<noteq> []"
    and "map_of cl ''exp'' = Some (CNum e)"
    and "extract_cookie_token (c_request q) ''refresh_jwt'' = rtok" "rtok \<noteq> []"
    and "srv_validate V q rtok ''refresh'' s = Inr rcl" and "claim_str ''jti'' rcl = Some rj" "rj \<noteq> []"
    and "map_of rcl ''exp'' = Some (CNum re)" and "claim_str ''fam'' rcl = Some k" "k \<noteq> []"
    and "rj \<noteq> j" and "logout V q s = (s', r)"
  shows "status r = 200
     \<and> (\<forall>t < of_unix e. is_blacklisted False j t (s_blacklist s'))
     \<and> (\<forall>t < of_unix re. is_blacklisted False rj t (s_blacklist s'))
     \<and> (\<forall>as f. list_all (not_created k) as \<and> get_family k (fold family_step as (s_families s')) = Some f
          \<longrightarrow> f_status f \<noteq> ''active'')"
proof -
  let ?s1 = "blacklist_access_token V True q tok ''access'' (access_expiry (v_jwt V)) s"
  let ?s2 = "revoke_presented_family V q rtok ?s1"
  let ?s3 = "blacklist_access_token V True q rtok ''refresh'' (refresh_expiry (v_jwt V)) ?s2"
  have b1: "s_blacklist ?s1 = bl_add j (of_unix e) (s_blacklist s)"
    using blacklist_access_token_value assms(3,7-11) by blast
  have v1: "srv_validate V q rtok ''refresh'' ?s1 = Inr rcl"
    by (rule srv_validate_bl_add [OF assms(14,15,20) b1])
  have s2: "?s2 = ?s1\<lparr>s_families := fst (revoke_family k (c_now q) (s_families s))\<rparr>"
    using v1 assms(2,3,18,19) by (simp add: revoke_presented_family_def str_or_empty_def)
  then have v2: "srv_validate V q rtok ''refresh'' ?s2 = Inr rcl"
    using v1 by (simp add: srv_validate_def)
  have b3: "s_blacklist ?s3 = bl_add rj (of_unix re) (s_blacklist ?s2)"
    using blacklist_access_token_value [OF v2 assms(15,16,13,17)] assms(3) by blast
  have s': "s_blacklist s' = s_blacklist ?s3" "s_families s' = s_families ?s3" "status r = 200"
    using assms(1,5-7,12,13,21) by (auto simp: logout_def Let_def)
  have end1: "ended k (s_families s')"
    using assms(4) family_step_ok [OF assms(4), of "FRevoke k (c_now q)"] s'(2) s2
    by (auto simp: ended_def revoke_family_def get_set_status)
  have "f_status f \<noteq> ''active''" if "list_all (not_created k) as"
    "get_family k (fold family_step as (s_families s')) = Some f" for as f
    using ended.guarded_run [OF that(1) end1] that(2) by (simp add: ended_def)
  then show ?thesis
    using s' b3 s2 b1 assms(20) by (auto simp: is_blacklisted_def bl_lookup_add)
qed

section \<open>Witnesses\<close>

abbreviation demo_rclaims :: claims where
  "demo_rclaims \<equiv> refresh_claims demo_cfg ''1'' ''f1'' ''61'' (of_unix 1000)"

definition demo_rtok :: string where
  "demo_rtok = put_str (jwt_secret demo_cfg) @ put_claims demo_rclaims"

abbreviation demo_aclaims :: claims where
  "demo_aclaims \<equiv> access_claims demo_cfg ''1'' ''viewer'' ''local'' ''62'' (of_unix 1000)"

definition demo_atok :: string where
  "demo_atok = put_str (jwt_secret demo_cfg) @ put_claims demo_aclaims"

definition demo_q :: "time \<Rightarrow> ctx" where
  "demo_q t = \<lparr>c_request = \<lparr>rq_method = ''POST'', rq_path = ''/auth/refresh'',
       rq_cookies = [''refresh_jwt'' \<mapsto> demo_rtok, ''jwt'' \<mapsto> demo_atok], rq_header = (\<lambda>_. [])\<rparr>,
     c_claims = None, c_now = t, c_rnd = [Some ''b'', Some ''c'', Some ''d'', Some ''e''], c_fails = (\<lambda>_. False)\<rparr>"

lemma demo_claims [simp]:
  "nums_ok (refresh_claims demo_cfg u f j (of_unix n)) = (in_int64 (n + 86400) \<and> in_int64 n)"
  "nums_ok (access_claims demo_cfg u ro p j (of_unix n)) = (in_int64 (n + 900) \<and> in_int64 n)"
  "to_unix (of_unix n + refresh_expiry demo_cfg) = n + 86400"
  "to_unix (of_unix n + access_expiry demo_cfg) = n + 900"
proof -
  have e: "(n + 62135596800) * 1000000000 + d * 1000000000 = (n + d + 62135596800) * 1000000000" for d :: int
    by (simp add: algebra_simps)
  show a: "to_unix (of_unix n + refresh_expiry demo_cfg) = n + 86400"
    and b: "to_unix (of_unix n + access_expiry demo_cfg) = n + 900"
    using e [of 86400] e [of 900] by (simp_all add: demo_cfg_def to_unix_def of_unix_def)
  show "nums_ok (refresh_claims demo_cfg u f j (of_unix n)) = (in_int64 (n + 86400) \<and> in_int64 n)"
    "nums_ok (access_claims demo_cfg u ro p j (of_unix n)) = (in_int64 (n + 900) \<and> in_int64 n)"
    by (simp_all add: nums_ok_def access_claims_def refresh_claims_def a b)
qed

lemma demo_tokens:
  assumes "s_blacklist s = []"
  shows "n < 87400 \<Longrightarrow> srv_validate demo_V (demo_q (of_unix n)) demo_rtok ''refresh'' s = Inr demo_rclaims"
    and "n < 1900 \<Longrightarrow> srv_validate demo_V (demo_q (of_unix n)) demo_atok ''access'' s = Inr demo_aclaims"
proof -
  have nb: "\<not> is_blacklisted False j t []" for j t
    by (simp add: is_blacklisted_def bl_lookup_def tbl_find_Nil)
  show "n < 87400 \<Longrightarrow> srv_validate demo_V (demo_q (of_unix n)) demo_rtok ''refresh'' s = Inr demo_rclaims"
    using assms nb
    by (simp add: srv_validate_def demo_V_def demo_q_def demo_rtok_def demo_validate [where j = "''61''"] in_int64_def)
  show "n < 1900 \<Longrightarrow> srv_validate demo_V (demo_q (of_unix n)) demo_atok ''access'' s = Inr demo_aclaims"
    using assms nb
    by (simp add: srv_validate_def demo_V_def demo_q_def demo_atok_def demo_validate [where j = "''62''"] in_int64_def)
qed

lemma demo_q_simps [simp]:
  "extract_cookie_token (c_request (demo_q t)) ''refresh_jwt'' = demo_rtok"
  "extract_cookie_token (c_request (demo_q t)) ''jwt'' = demo_atok"
  "extract_bearer_token (c_request (demo_q t)) = []"
  "c_now (demo_q t) = t" "c_fails (demo_q t) = (\<lambda>_. False)" "demo_rtok \<noteq> []" "demo_atok \<noteq> []"
  "rnd (demo_q t) 0 = Some ''b''" "rnd (demo_q t) (Suc 0) = Some ''c''" "rnd (demo_q t) 2 = Some ''d''"
  by (simp_all add: demo_q_def extract_cookie_token_def extract_bearer_token_def cut_prefix_def demo_rtok_def
      demo_atok_def rnd_def)

abbreviation demo_family :: family where
  "demo_family \<equiv> sample_family\<lparr>f_user := ''1'', f_current_jti := ''61''\<rparr>"

lemma demo_refresh_family:
  "n < 87400 \<Longrightarrow> refresh_family demo_V (demo_q (of_unix n)) demo_s = Inr (''f1'', ''61'', demo_family)"
  using demo_tokens(1) [of demo_s n]
  by (simp add: refresh_family_def demo_s_def str_or_empty_def get_family_def tbl_simps Let_def)

lemma demo_refresh:
  obtains s1 r1 where "refresh demo_V (demo_q (of_unix 1001)) demo_s = (s1, r1)" and "status r1 = 200"
    and "s_families s1 = [demo_family\<lparr>f_previous_jti := Some ''61'', f_current_jti := ''63'',
           f_grace_until := Some (of_unix 1001 + 30 * second), f_updated_at := of_unix 1001\<rparr>]"
    and "s_blacklist s1 = []"
proof -
  have e: "parse_int ''1'' = Some 1" "hex_encode ''b'' = ''62''" "hex_encode ''c'' = ''63''" by code_simp+
  have acc: "jti_accepted (of_unix 1001) ''61'' demo_family" by (simp add: jti_accepted_def)
  have act: "family_user_inactive demo_V (demo_q (of_unix 1001)) demo_family demo_s = Some False"
    by (simp add: family_user_inactive_def e demo_s_def read_db_def get_user_by_id_def create_local_def
        exec_insert_user_def Let_def users_violation_def tbl_simps)
  have gen: "\<exists>tp. generate_tokens_for_family demo_lib demo_cfg (Some ''b'') (Some ''c'') (of_unix 1001)
      ''1'' ''viewer'' ''local'' ''f1'' = Inr tp \<and> tp_refresh_jti tp = ''63''"
    by (simp add: generate_tokens_for_family_def random_hex_def e demo_lib_signs in_int64_def)
  have rot: "rotate_family ''f1'' ''63'' 30 (of_unix 1001) (s_families demo_s) =
      ([demo_family\<lparr>f_previous_jti := Some ''61'', f_current_jti := ''63'',
           f_grace_until := Some (of_unix 1001 + 30 * second), f_updated_at := of_unix 1001\<rparr>], Inr ())"
    by (simp add: rotate_family_def demo_s_def tbl_simps tbl_count_def)
  from gen obtain tp where tp: "generate_tokens_for_family demo_lib demo_cfg (Some ''b'') (Some ''c'') (of_unix 1001)
      ''1'' ''viewer'' ''local'' ''f1'' = Inr tp" "tp_refresh_jti tp = ''63''" by blast
  have "refresh demo_V (demo_q (of_unix 1001)) demo_s = refresh_issue demo_V (demo_q (of_unix 1001)) ''f1'' demo_family demo_s"
    using demo_refresh_family [of 1001] acc act by (simp add: refresh_def refresh_decide_def)
  then show ?thesis
    using tp rot by (intro that)
      (auto simp: refresh_issue_def Let_def generate_csrf_token_def random_hex_def audit_record_def demo_s_def)
qed


theorem used_refresh_token_dead_witness:
  "\<exists>s1 r1. refresh demo_V (demo_q (of_unix 1001)) demo_s = (s1, r1) \<and> status r1 = 200
     \<and> message (snd (refresh demo_V (demo_q (of_unix 1031)) s1)) = ''Session compromised''"
proof -
  obtain s1 r1 where r: "refresh demo_V (demo_q (of_unix 1001)) demo_s = (s1, r1)" "status r1 = 200"
    and s1: "s_families s1 = [demo_family\<lparr>f_previous_jti := Some ''61'', f_current_jti := ''63'',
           f_grace_until := Some (of_unix 1001 + 30 * second), f_updated_at := of_unix 1001\<rparr>]" "s_blacklist s1 = []"
    by (rule demo_refresh)
  have h: "hex_encode ''c'' = ''63''" by code_simp
  have "families_ok (s_families demo_s)" by (simp add: families_ok_def demo_s_def)
  then have "message (snd (refresh demo_V (demo_q (of_unix 1031)) s1)) = ''Session compromised''"
    using used_refresh_token_dead [of demo_s demo_V "demo_q (of_unix 1001)" s1 r1 demo_rclaims "''f1''" "''61''" "[]"
        s1 "demo_q (of_unix 1031)" demo_rclaims "fst (refresh demo_V (demo_q (of_unix 1031)) s1)"
        "snd (refresh demo_V (demo_q (of_unix 1031)) s1)"] r s1 h
      demo_tokens(1) [of demo_s 1001] demo_tokens(1) [of s1 1031]
    by (simp add: demo_s_def get_family_def tbl_simps of_unix_def)
  with r show ?thesis by blast
qed

definition demo_gone :: srv where
  "demo_gone = demo_s\<lparr>s_users := fst (deactivate_user alice_db 1 6)\<rparr>"

text \<open>With the right password: a session while the account is active, the 401 once it is deactivated.\<close>

theorem login_outcome_witness:
  "snd (login demo_V (demo_q 5) (Some (''al@x.io'', ''h'')) demo_gone) = err 401 ''Invalid username/password''
   \<and> status (snd (login demo_V (demo_q 5) (Some (''al@x.io'', ''h'')) demo_s)) \<noteq> 401"
proof -
  have e: "normalise_username ''al@x.io'' = ''al@x.io''" "to_lower ''al@x.io'' = ''al@x.io''"
    "to_lower ''Al@x.io'' = ''al@x.io''" by code_simp+
  note u = create_local_def exec_insert_user_def Let_def users_violation_def e
  have no: "\<not> signs_in demo_V demo_gone ''al@x.io'' ''h'' role sub" for role sub
    by (simp add: signs_in_def demo_gone_def demo_s_def deactivate_user_def exec_update_user_def tbl_count_def tbl_update_def u)
  have yes: "signs_in demo_V demo_s ''al@x.io'' ''h'' ''viewer'' (itoa 1)" "emails_unique (s_users demo_s)"
    by (simp_all add: signs_in_def demo_s_def u)
  have t: "throttle_allows demo_V (demo_q 5) ''al@x.io'' s" if "s_throttle s = s_throttle demo_s" for s
    using that by (simp add: throttle_allows_def demo_s_def check_def e new_account_throttler_def clean_result_def)
  have g: "s_throttle demo_gone = s_throttle demo_s" by (simp add: demo_gone_def)
  note L = login_outcome [OF demo_V_simps(1) prod.collapse [symmetric]]
  have f: "\<not> c_fails (demo_q 5) ''users.GetByEmail''" by simp
  have "snd (login demo_V (demo_q 5) (Some (''al@x.io'', ''h'')) demo_gone) = err 401 ''Invalid username/password''"
    using t [OF g] no by (intro L [THEN conjunct2, THEN conjunct1, THEN mp] conjI allI)
  moreover have "status (snd (login demo_V (demo_q 5) (Some (''al@x.io'', ''h'')) demo_s)) \<noteq> 401"
    using t [OF refl] yes f by (intro L [THEN conjunct2, THEN conjunct2, THEN conjunct2, THEN conjunct1, THEN mp] conjI exI)
  ultimately show ?thesis ..
qed

theorem logout_ends_session_witness:
  "is_blacklisted False ''61'' (of_unix 2000) (s_blacklist (fst (logout demo_V (demo_q (of_unix 1001)) demo_s)))"
proof -
  have e: "map_of demo_aclaims ''exp'' = Some (CNum 1900)" "map_of demo_rclaims ''exp'' = Some (CNum 87400)"
    by (simp_all add: access_claims_def refresh_claims_def)
  have "families_ok (s_families demo_s)" by (simp add: families_ok_def demo_s_def)
  with logout_ends_session [of demo_V "demo_q (of_unix 1001)" demo_s demo_atok demo_aclaims "''62''" 1900
      demo_rtok demo_rclaims "''61''" 87400 "''f1''" "fst (logout demo_V (demo_q (of_unix 1001)) demo_s)"
      "snd (logout demo_V (demo_q (of_unix 1001)) demo_s)"] e
    demo_tokens(1) [of demo_s 1001] demo_tokens(2) [of demo_s 1001]
  show ?thesis by (simp add: demo_s_def)
qed

end
