(* ===== verification/UserHandler.thy ===== *)
theory UserHandler
  imports AuthHandler
begin

text \<open>
  \<open>api/internal/handlers/users.go\<close>: the account endpoints.  The request bodies are decoded records, an
  undecodable one is \<open>None\<close>.  Time stamps in replies stay times (the source formats them), and bcrypt is
  the pair \<open>v_hash\<close>, \<open>v_bcrypt\<close> of the environment.
\<close>

section \<open>Validation and replies\<close>

definition valid_roles :: "string set" where
  "valid_roles = {''admin'', ''editor'', ''viewer''}"

abbreviation at_sign :: char where
  "at_sign \<equiv> CHR 0x40"

definition is_valid_email :: "string \<Rightarrow> bool" where
  "is_valid_email e \<longleftrightarrow>
     (if e = [] \<or> length e > 254 then False
      else if \<exists>c \<in> set e. c \<in> {CHR 0x20, CHR 0x09, CHR 0x0A, CHR 0x0D} then False
      else case cut at_sign e of
        None \<Rightarrow> False
      | Some (local, domain) \<Rightarrow>
          if local = [] \<or> domain = [] then False
          else if at_sign \<in> set domain then False
          else if CHR ''.'' \<notin> set domain then False
          else if hd domain = CHR ''.'' \<or> last domain = CHR ''.'' then False
          else length (takeWhile (\<lambda>c. c \<noteq> CHR ''.'') (rev domain)) \<ge> 2)"

definition generate_temp_password :: "string option \<Rightarrow> string option" where
  "generate_temp_password b = map_option b64_encode b"

record user_response =
  ur_id :: int
  ur_email :: string
  ur_name :: string
  ur_provider :: string
  ur_role :: string
  ur_is_active :: bool
  ur_last_login :: "time option"
  ur_created_at :: time
  ur_updated_at :: time

definition user_to_response :: "user \<Rightarrow> user_response" where
  "user_to_response u =
     \<lparr>ur_id = u_id u, ur_email = u_email u, ur_name = u_name u, ur_provider = u_provider u, ur_role = u_role u,
      ur_is_active = u_is_active u, ur_last_login = u_last_login u, ur_created_at = u_created_at u,
      ur_updated_at = u_updated_at u\<rparr>"

definition env_user_profile :: "string \<Rightarrow> string \<Rightarrow> user" where
  "env_user_profile sub role =
     \<lparr>u_id = 0, u_email = [], u_name = sub, u_provider = ''env'', u_provider_sub = [], u_password_hash = [],
      u_role = role, u_is_active = True, u_last_login = None, u_created_at = 0, u_updated_at = 0\<rparr>"

record user_page =
  up_users :: "user_response list"
  up_total :: nat
  up_limit :: int
  up_offset :: int

datatype user_body = UOne user_response | UPage user_page | UCreated user_response string | UTemp string

type_synonym user_reply = "user_body http_reply"

abbreviation no_content :: user_reply where
  "no_content \<equiv> \<lparr>status = 204, message = [], body = None, cookies = [], retry_after = None\<rparr>"

abbreviation bad_claims :: user_reply where
  "bad_claims \<equiv> err 401 ''missing or invalid claims''"

abbreviation user_not_found :: user_reply where
  "user_not_found \<equiv> err 404 ''user not found''"

text \<open>A lookup by id as every handler makes it: the row, or the reply.\<close>

definition load_user_row :: "ctx \<Rightarrow> int \<Rightarrow> srv \<Rightarrow> user_reply + user" where
  "load_user_row q i s =
     (case read_db (c_fails q ''users.GetByID'') (get_user_by_id (s_users s) i) of
        Inl ErrUserNotFound \<Rightarrow> Inl user_not_found
      | Inl _ \<Rightarrow> Inl (err 500 ''error loading user'')
      | Inr u \<Rightarrow> Inr u)"

text \<open>A writing statement: the new table, or the reply.\<close>

definition write_user_row ::
    "bool \<Rightarrow> string \<Rightarrow> user_db \<times> (user_error + unit) \<Rightarrow> srv \<Rightarrow> srv \<times> user_reply option" where
  "write_user_row fault msg res s =
     (if fault then (s, Some (err 500 msg))
      else case res of
        (db, Inl ErrUserNotFound) \<Rightarrow> (s\<lparr>s_users := db\<rparr>, Some user_not_found)
      | (db, Inl _) \<Rightarrow> (s\<lparr>s_users := db\<rparr>, Some (err 500 msg))
      | (db, Inr _) \<Rightarrow> (s\<lparr>s_users := db\<rparr>, None))"

section \<open>Reading\<close>

definition me :: "ctx \<Rightarrow> srv \<Rightarrow> user_reply" where
  "me q s =
     (case claims_subject q of
        None \<Rightarrow> bad_claims
      | Some (sub, role) \<Rightarrow>
        (case parse_int sub of
           None \<Rightarrow> ok 200 ''profile retrieved'' (UOne (user_to_response (env_user_profile sub role)))
         | Some i \<Rightarrow>
           (case load_user_row q i s of
              Inl r \<Rightarrow> r
            | Inr u \<Rightarrow> ok 200 ''profile retrieved'' (UOne (user_to_response u)))))"

record list_query =
  lq_limit :: int
  lq_offset :: int
  lq_search :: string
  lq_role :: string
  lq_active :: "(string + bool) option"

definition list_users_handler ::
    "(string \<Rightarrow> 'k :: linorder) \<Rightarrow> ctx \<Rightarrow> list_query \<Rightarrow> srv \<Rightarrow> user_reply" where
  "list_users_handler collate q lq s =
     (let limit = (if lq_limit lq < 1 then 20 else if lq_limit lq > 100 then 100 else lq_limit lq);
          offset = max (lq_offset lq) 0; role = trim_space (lq_role lq) in
      if role \<noteq> [] \<and> role \<notin> valid_roles then err 400 ''role must be one of admin, editor, viewer''
      else case lq_active lq of
        Some (Inl _) \<Rightarrow> err 400 ''active must be a boolean''
      | a \<Rightarrow>
        (if c_fails q ''users.ListPaginated'' then err 500 ''error listing users''
         else let (us, total) = list_users_paginated collate (s_users s)
                    \<lparr>p_limit = limit, p_offset = offset, p_search = lq_search lq, p_role = lq_role lq,
                     p_active = (case a of Some (Inr b) \<Rightarrow> Some b | _ \<Rightarrow> None)\<rparr>
              in ok 200 ''users retrieved''
                   (UPage \<lparr>up_users = map user_to_response us, up_total = total, up_limit = limit,
                           up_offset = offset\<rparr>)))"

definition get_user :: "ctx \<Rightarrow> string \<Rightarrow> srv \<Rightarrow> user_reply" where
  "get_user q idstr s =
     (case parse_int idstr of
        None \<Rightarrow> err 400 ''invalid id''
      | Some i \<Rightarrow> (case load_user_row q i s of Inl r \<Rightarrow> r | Inr u \<Rightarrow> ok 200 ''user retrieved'' (UOne (user_to_response u))))"

section \<open>Profile and creation\<close>

text \<open>The decoded body is the optional name.\<close>

definition update_me :: "ctx \<Rightarrow> string option option \<Rightarrow> srv \<Rightarrow> srv \<times> user_reply" where
  "update_me q req s =
     (case claims_subject q of
        None \<Rightarrow> (s, bad_claims)
      | Some (sub, _) \<Rightarrow>
        (case parse_int sub of
           None \<Rightarrow> (s, err 403 ''Environment-configured accounts cannot update profile'')
         | Some i \<Rightarrow>
           (case req of
              None \<Rightarrow> (s, err 400 ''invalid request body'')
            | Some None \<Rightarrow> (s, err 400 ''name is required'')
            | Some (Some raw) \<Rightarrow>
              (let name = trim_space raw in
               if name = [] then (s, err 400 ''name must not be empty'')
               else if length name > 120 then (s, err 400 ''name must not exceed 120 characters'')
               else case write_user_row (c_fails q ''users.UpdateProfile'') ''error updating profile''
                           (update_profile (s_users s) i name (c_now q)) s of
                 (s1, Some r) \<Rightarrow> (s1, r)
               | (s1, None) \<Rightarrow>
                 (case load_user_row q i s1 of
                    Inl r \<Rightarrow> (s1, r)
                  | Inr u \<Rightarrow> (s1, ok 200 ''profile updated'' (UOne (user_to_response u))))))))"

text \<open>The temporary password and its hash, or the reply.\<close>

definition new_temp_password :: "srv_env \<Rightarrow> ctx \<Rightarrow> user_reply + (string \<times> string)" where
  "new_temp_password V q =
     (case generate_temp_password (rnd q 0) of
        None \<Rightarrow> Inl (err 500 ''error generating password'')
      | Some p \<Rightarrow>
          if length p < 12 then Inl (err 500 ''error generating password'')
          else case v_hash V p of
            None \<Rightarrow> Inl (err 500 ''error hashing password'')
          | Some h \<Rightarrow> Inr (p, h))"

definition shown_once :: "string \<Rightarrow> string" where
  "shown_once m = m @ '' Copy the temporary password '' @ em_dash @ '' it won'' @ apostrophe @ ''t be shown again.''"

definition create_user ::
    "srv_env \<Rightarrow> ctx \<Rightarrow> (string \<times> string \<times> string) option \<Rightarrow> srv \<Rightarrow> srv \<times> user_reply" where
  "create_user V q req s =
     (case req of
        None \<Rightarrow> (s, err 400 ''invalid request body'')
      | Some (raw_email, raw_name, raw_role) \<Rightarrow>
        (let email = trim_space (to_lower raw_email); name = trim_space raw_name; role = trim_space raw_role in
         if \<not> is_valid_email email then (s, err 400 ''email must be a valid RFC 5322 address'')
         else if name = [] then (s, err 400 ''name is required'')
         else if length name > 120 then (s, err 400 ''name must not exceed 120 characters'')
         else if role \<notin> valid_roles then (s, err 400 ''role must be one of admin, editor, viewer'')
         else case new_temp_password V q of
           Inl r \<Rightarrow> (s, r)
         | Inr (p, h) \<Rightarrow>
           (if c_fails q ''users.CreateLocal'' then (s, err 500 ''error creating user'')
            else case create_local (s_users s) email name h role (c_now q) of
              (db, Inl ErrDuplicateEntry) \<Rightarrow> (s\<lparr>s_users := db\<rparr>, err 409 ''user with this email already exists'')
            | (db, Inl _) \<Rightarrow> (s\<lparr>s_users := db\<rparr>, err 500 ''error creating user'')
            | (db, Inr u) \<Rightarrow>
              (audit_record V q
                 (actor_event q \<lparr>ev_action = ''users.create'', ev_outcome = ''success'', ev_actor = None,
                    ev_label = [], ev_target_type = ''user'', ev_target = itoa (u_id u),
                    ev_meta = [(''new_user_email'', MStr email), (''role'', MStr role)]\<rparr>) (s\<lparr>s_users := db\<rparr>),
               ok 201 (shown_once ''user created.'') (UCreated (user_to_response u) p)))))"

section \<open>Revocation helpers\<close>

text \<open>\<open>revokeAllFamilies\<close>: best effort; the audit event only when the statement ran.\<close>

definition revoke_all_families :: "srv_env \<Rightarrow> ctx \<Rightarrow> string \<Rightarrow> string \<Rightarrow> int \<Rightarrow> srv \<Rightarrow> srv" where
  "revoke_all_families V q sub trigger target s =
     (if \<not> v_has_families V \<or> c_fails q ''families.RevokeAllForUser'' then s
      else let (t, n) = revoke_all_for_user sub (c_now q) (s_families s) in
        audit_record V q
          (actor_event q \<lparr>ev_action = ''auth.session.revoke_all'', ev_outcome = ''success'', ev_actor = None,
             ev_label = [], ev_target_type = ''session'', ev_target = sub,
             ev_meta = [(''trigger'', MStr trigger), (''revoked'', MInt (int n))]
               @ (if target \<noteq> 0 then [(''target_id'', MInt target)] else [])\<rparr>)
          (s\<lparr>s_families := t\<rparr>))"

definition revoke_user_families :: "srv_env \<Rightarrow> ctx \<Rightarrow> user \<Rightarrow> string \<Rightarrow> srv \<Rightarrow> srv" where
  "revoke_user_families V q u trigger s =
     (let s1 = revoke_all_families V q (itoa (u_id u)) trigger (u_id u) s in
      if u_provider u = ''oidc'' then revoke_all_families V q (u_email u) trigger (u_id u) s1 else s1)"

definition cascade_delete_api_keys :: "srv_env \<Rightarrow> ctx \<Rightarrow> string \<Rightarrow> string \<Rightarrow> int \<Rightarrow> srv \<Rightarrow> srv" where
  "cascade_delete_api_keys V q name trigger target s =
     (if \<not> v_has_keys V \<or> name = [] \<or> c_fails q ''keys.DeleteAllForUser'' then s
      else case delete_all_keys_for_user (s_keys s) name of
        (_, Inl _) \<Rightarrow> s
      | (db, Inr n) \<Rightarrow>
        audit_record V q
          (actor_event q \<lparr>ev_action = ''api_keys.cascade_delete'', ev_outcome = ''success'', ev_actor = None,
             ev_label = [], ev_target_type = ''api_key'', ev_target = itoa target,
             ev_meta = [(''trigger'', MStr trigger), (''username'', MStr name), (''deleted'', MInt (int n))]\<rparr>)
          (s\<lparr>s_keys := db\<rparr>))"

definition invalidate_active_cache :: "srv_env \<Rightarrow> user \<Rightarrow> srv \<Rightarrow> srv" where
  "invalidate_active_cache V u s =
     (if \<not> v_has_cache V then s
      else s\<lparr>s_cache := invalidate_env_user (u_email u) (invalidate_oidc (u_email u)
               (invalidate (itoa (u_id u)) (s_cache s)))\<rparr>)"

definition blacklist_current_access_token :: "srv_env \<Rightarrow> ctx \<Rightarrow> srv \<Rightarrow> srv" where
  "blacklist_current_access_token V q s =
     (if \<not> v_has_jwt V then s
      else let b = extract_bearer_token (c_request q);
               tok = (if b = [] then extract_cookie_token (c_request q) ''jwt'' else b)
           in blacklist_access_token V True q tok ''access'' 0 s)"

section \<open>Role and activity\<close>

record patch_user =
  pu_role :: "string option"
  pu_active :: "bool option"

definition user_event :: "ctx \<Rightarrow> string \<Rightarrow> int \<Rightarrow> (string \<times> meta) list \<Rightarrow> audit_event" where
  "user_event q act i m =
     actor_event q \<lparr>ev_action = act, ev_outcome = ''success'', ev_actor = None, ev_label = [],
       ev_target_type = ''user'', ev_target = itoa i, ev_meta = m\<rparr>"

text \<open>The two halves of \<open>Update\<close>: each changes the state and may end the request with a reply.\<close>

definition update_role_part :: "srv_env \<Rightarrow> ctx \<Rightarrow> int \<Rightarrow> string option \<Rightarrow> srv \<Rightarrow> srv \<times> user_reply option" where
  "update_role_part V q i role s =
     (case role of
        None \<Rightarrow> (s, None)
      | Some ro \<Rightarrow>
        (if ro \<notin> valid_roles then (s, Some (err 400 ''role must be one of admin, editor, viewer''))
         else case write_user_row (c_fails q ''users.UpdateRole'') ''error updating role''
                     (Users.update_role (s_users s) i ro (c_now q)) s of
           (s1, Some r) \<Rightarrow> (s1, Some r)
         | (s1, None) \<Rightarrow>
             (audit_record V q (user_event q ''users.update.role'' i [(''new_role'', MStr ro)]) s1, None)))"

definition update_active_part :: "srv_env \<Rightarrow> ctx \<Rightarrow> int \<Rightarrow> bool option \<Rightarrow> srv \<Rightarrow> srv \<times> user_reply option" where
  "update_active_part V q i active s =
     (case active of
        None \<Rightarrow> (s, None)
      | Some a \<Rightarrow>
        (if \<not> a \<and> claims_user_id q = Some i
         then (s, Some (err 422 ''cannot deactivate your own account''))
         else case load_user_row q i s of
           Inl r \<Rightarrow> (s, Some r)
         | Inr target \<Rightarrow>
           (case write_user_row (c_fails q ''users.UpdateActive'') ''error updating active''
                   (Users.update_active (s_users s) i a (c_now q)) s of
              (s1, Some r) \<Rightarrow> (s1, Some r)
            | (s1, None) \<Rightarrow>
              (let s2 = audit_record V q (user_event q ''users.update.active'' i [(''active'', MBool a)])
                          (invalidate_active_cache V target s1)
               in ((if a then s2 else revoke_user_families V q target ''user_deactivate'' s2), None)))))"

definition update_user :: "srv_env \<Rightarrow> ctx \<Rightarrow> string \<Rightarrow> patch_user option \<Rightarrow> srv \<Rightarrow> srv \<times> user_reply" where
  "update_user V q idstr req s =
     (case parse_int idstr of
        None \<Rightarrow> (s, err 400 ''invalid id'')
      | Some i \<Rightarrow>
        (case req of
           None \<Rightarrow> (s, err 400 ''invalid request body'')
         | Some p \<Rightarrow>
           (if pu_role p = None \<and> pu_active p = None
            then (s, err 400 ''at least one of role or active is required'')
            else case update_role_part V q i (pu_role p) s of
              (s1, Some r) \<Rightarrow> (s1, r)
            | (s1, None) \<Rightarrow>
              (case update_active_part V q i (pu_active p) s1 of
                 (s2, Some r) \<Rightarrow> (s2, r)
               | (s2, None) \<Rightarrow>
                 (case load_user_row q i s2 of
                    Inl r \<Rightarrow> (s2, r)
                  | Inr u \<Rightarrow> (s2, ok 200 ''user updated'' (UOne (user_to_response u))))))))"

definition delete_user :: "srv_env \<Rightarrow> ctx \<Rightarrow> string \<Rightarrow> srv \<Rightarrow> srv \<times> user_reply" where
  "delete_user V q idstr s =
     (case parse_int idstr of
        None \<Rightarrow> (s, err 400 ''invalid id'')
      | Some i \<Rightarrow>
        (if claims_user_id q = Some i then (s, err 422 ''cannot deactivate your own account'')
         else case load_user_row q i s of
           Inl r \<Rightarrow> (s, r)
         | Inr target \<Rightarrow>
           (case write_user_row (c_fails q ''users.Deactivate'') ''error deactivating user''
                   (deactivate_user (s_users s) i (c_now q)) s of
              (s1, Some r) \<Rightarrow> (s1, r)
            | (s1, None) \<Rightarrow>
              (let s2 = audit_record V q (user_event q ''users.delete'' i []) (invalidate_active_cache V target s1);
                   s3 = revoke_user_families V q target ''user_deactivate'' s2
               in (cascade_delete_api_keys V q (u_email target) ''user_deactivate'' i s3, no_content)))))"

section \<open>Passwords\<close>

text \<open>The decoded body is the current and the new password.\<close>

definition change_my_password ::
    "srv_env \<Rightarrow> ctx \<Rightarrow> (string \<times> string) option \<Rightarrow> srv \<Rightarrow> srv \<times> user_reply" where
  "change_my_password V q req s =
     (case claims_subject q of
        None \<Rightarrow> (s, bad_claims)
      | Some (sub, _) \<Rightarrow>
        (case parse_int sub of
           None \<Rightarrow> (s, err 403 ''Environment-configured accounts cannot change password'')
         | Some i \<Rightarrow>
           (case req of
              None \<Rightarrow> (s, err 400 ''invalid request body'')
            | Some (current, new) \<Rightarrow>
              (case load_user_row q i s of
                 Inl r \<Rightarrow> (s, r)
               | Inr u \<Rightarrow>
                 (if u_provider u \<noteq> ''local''
                  then (s, err 422 ''Password change is only available for local accounts'')
                  else if \<not> u_is_active u then (s, err 403 ''account is inactive'')
                  else if \<not> v_bcrypt V (u_password_hash u) current then (s, err 400 ''Invalid current password'')
                  else if length new < 12 then (s, err 400 ''password must be at least 12 characters'')
                  else if new = current then (s, err 400 ''new password must differ from current'')
                  else case v_hash V new of
                    None \<Rightarrow> (s, err 500 ''error hashing password'')
                  | Some h \<Rightarrow>
                    (case write_user_row (c_fails q ''users.UpdatePasswordHash'') ''error updating password''
                            (Users.update_password_hash (s_users s) i h (c_now q)) s of
                       (s1, Some r) \<Rightarrow> (s1, r)
                     | (s1, None) \<Rightarrow>
                       (let s2 = audit_record V q
                                   \<lparr>ev_action = ''users.password_change'', ev_outcome = ''success'',
                                    ev_actor = Some i, ev_label = u_email u, ev_target_type = ''user'',
                                    ev_target = itoa i, ev_meta = []\<rparr> s1;
                            s3 = revoke_all_families V q (itoa i) ''password_change'' 0 s2
                        in (blacklist_current_access_token V q s3, no_content))))))))"

text \<open>The actor of a reset is left out when its id is the marker 0.\<close>

definition reset_event :: "ctx \<Rightarrow> int \<Rightarrow> user \<Rightarrow> audit_event" where
  "reset_event q i u =
     (let ev = user_event q ''users.password_reset'' i [(''target_active'', MBool (u_is_active u))]
      in ev\<lparr>ev_actor := (if ev_actor ev = Some 0 then None else ev_actor ev)\<rparr>)"

definition reset_user_password :: "srv_env \<Rightarrow> ctx \<Rightarrow> string \<Rightarrow> srv \<Rightarrow> srv \<times> user_reply" where
  "reset_user_password V q idstr s =
     (case parse_int idstr of
        None \<Rightarrow> (s, err 400 ''invalid id'')
      | Some i \<Rightarrow>
        (case load_user_row q i s of
           Inl r \<Rightarrow> (s, r)
         | Inr u \<Rightarrow>
           (if u_provider u \<noteq> ''local'' then (s, err 422 ''cannot reset password for non-local accounts'')
            else case new_temp_password V q of
              Inl r \<Rightarrow> (s, r)
            | Inr (p, h) \<Rightarrow>
              (case write_user_row (c_fails q ''users.UpdatePasswordHash'') ''error updating password''
                      (Users.update_password_hash (s_users s) i h (c_now q)) s of
                 (s1, Some r) \<Rightarrow> (s1, r)
               | (s1, None) \<Rightarrow>
                 (let s2 = audit_record V q (reset_event q i u) s1;
                      s3 = revoke_all_families V q (itoa i) ''password_reset'' i s2
                  in (cascade_delete_api_keys V q (u_email u) ''password_reset'' i s3,
                      ok 200 (shown_once ''password reset.'') (UTemp p)))))))"

section \<open>What the statements leave behind\<close>

lemma exec_update_user_Inr:
  assumes "exec_update_user db i f = (db', Inr ())" and "\<And>u. u_id (f u) = u_id u"
  shows "get_user_by_id db' j = (if j = i then map_sum id f (get_user_by_id db j) else get_user_by_id db j)"
    and "next_user_id db' = next_user_id db"
proof -
  have db': "db' = db\<lparr>users := tbl_update (\<lambda>u. u_id u = i) f (users db)\<rparr>"
    using assms(1) by (auto simp: exec_update_user_def Let_def split: option.splits if_splits)
  show "next_user_id db' = next_user_id db" by (simp add: db')
  show "get_user_by_id db' j = (if j = i then map_sum id f (get_user_by_id db j) else get_user_by_id db j)"
    using user_table.get_upd_same [of f i "users db"] user_table.get_upd_other [of f i j "users db"] assms(2)
    by (auto simp: db' get_user_by_id_def split: option.splits)
qed

lemma write_user_row_None:
  assumes "write_user_row fault m res s = (s1, None)"
  shows "s1 = s\<lparr>s_users := fst res\<rparr>" and "snd res = Inr ()" and "\<not> fault"
  using assms by (auto simp: write_user_row_def split: if_splits prod.splits sum.splits user_error.splits)

lemma write_user_row_Some: "write_user_row fault m res s = (s1, Some r) \<Longrightarrow> status r \<in> {404, 500}"
  by (auto simp: write_user_row_def split: if_splits prod.splits sum.splits user_error.splits)

lemma load_user_row_Inl: "load_user_row q i s = Inl r \<Longrightarrow> status r \<in> {404, 500}"
  by (auto simp: load_user_row_def split: sum.splits user_error.splits)

lemma new_temp_password_Inl: "new_temp_password V q = Inl r \<Longrightarrow> status r = 500"
  by (auto simp: new_temp_password_def split: option.splits if_splits)

lemma update_role_part_Some: "update_role_part V q i ro s = (s1, Some r) \<Longrightarrow> status r \<in> {400, 404, 500}"
  by (auto simp: update_role_part_def split: option.splits if_splits prod.splits dest: write_user_row_Some)

lemma update_active_part_Some: "update_active_part V q i a s = (s1, Some r) \<Longrightarrow> status r \<in> {404, 422, 500}"
  by (auto simp: update_active_part_def Let_def split: option.splits if_splits prod.splits sum.splits
      dest!: write_user_row_Some load_user_row_Inl)

lemmas user_replies = write_user_row_Some load_user_row_Inl new_temp_password_Inl update_role_part_Some
  update_active_part_Some

lemma load_user_row_Inr: "load_user_row q i s = Inr u \<Longrightarrow> get_user_by_id (s_users s) i = Inr u"
  by (cases "c_fails q ''users.GetByID''"; cases "get_user_by_id (s_users s) i")
    (auto simp: load_user_row_def read_db_def split: user_error.splits)

text \<open>The families after a bulk revocation, and the components it leaves alone.\<close>

definition no_active_family :: "string \<Rightarrow> family list \<Rightarrow> bool" where
  "no_active_family sub t \<longleftrightarrow> (\<forall>f \<in> set t. f_user f = sub \<longrightarrow> f_status f \<noteq> status_active)"

lemma revoke_all_for_user_row:
  assumes "f \<in> set (fst (revoke_all_for_user u now t))"
  obtains r where "r \<in> set t" and "f_user f = f_user r"
    and "f_status f = (if f_user r = u \<and> f_status r = status_active then status_revoked else f_status r)"
proof -
  from assms obtain r where r: "r \<in> set t"
      "f = (if f_user r = u \<and> f_status r = status_active
            then r\<lparr>f_status := status_revoked, f_updated_at := now\<rparr> else r)"
    unfolding revoke_all_for_user_def Let_def fst_conv set_tbl_update by blast
  show ?thesis by (rule that [OF r(1)]) (simp_all add: r(2))
qed

lemma revoke_all_for_user_none: "no_active_family sub (fst (revoke_all_for_user sub now t))"
  unfolding no_active_family_def
proof (intro ballI impI)
  fix f assume "f \<in> set (fst (revoke_all_for_user sub now t))" and "f_user f = sub"
  then show "f_status f \<noteq> status_active" by (auto elim!: revoke_all_for_user_row split: if_splits)
qed

lemma revoke_all_for_user_keeps: "no_active_family sub t \<Longrightarrow> no_active_family sub (fst (revoke_all_for_user u now t))"
  unfolding no_active_family_def
proof (intro ballI impI)
  fix f assume t: "\<forall>f \<in> set t. f_user f = sub \<longrightarrow> f_status f \<noteq> status_active"
    and "f \<in> set (fst (revoke_all_for_user u now t))" and f: "f_user f = sub"
  from this(2) obtain r where "r \<in> set t" "f_user f = f_user r"
    "f_status f = (if f_user r = u \<and> f_status r = status_active then status_revoked else f_status r)"
    by (rule revoke_all_for_user_row)
  with t f show "f_status f \<noteq> status_active" by simp
qed

lemma revoke_all_families_fields [simp]:
  "s_users (revoke_all_families V q sub tr i s) = s_users s" "s_keys (revoke_all_families V q sub tr i s) = s_keys s"
  "s_blacklist (revoke_all_families V q sub tr i s) = s_blacklist s"
  "s_cache (revoke_all_families V q sub tr i s) = s_cache s"
  "s_throttle (revoke_all_families V q sub tr i s) = s_throttle s"
  by (simp_all add: revoke_all_families_def split: prod.splits)

lemma revoke_all_families_families:
  "v_has_families V \<Longrightarrow> \<not> c_fails q ''families.RevokeAllForUser'' \<Longrightarrow>
   s_families (revoke_all_families V q sub tr i s) = fst (revoke_all_for_user sub (c_now q) (s_families s))"
  by (simp add: revoke_all_families_def split: prod.splits)

lemma revoke_user_families_fields [simp]:
  "s_users (revoke_user_families V q u tr s) = s_users s" "s_keys (revoke_user_families V q u tr s) = s_keys s"
  "s_blacklist (revoke_user_families V q u tr s) = s_blacklist s"
  "s_cache (revoke_user_families V q u tr s) = s_cache s"
  by (simp_all add: revoke_user_families_def Let_def)

lemma revoke_user_families_none:
  assumes "v_has_families V" and "\<not> c_fails q ''families.RevokeAllForUser''"
  shows "no_active_family (itoa (u_id u)) (s_families (revoke_user_families V q u tr s))"
    and "u_provider u = ''oidc'' \<Longrightarrow> no_active_family (u_email u) (s_families (revoke_user_families V q u tr s))"
  using assms
  by (simp_all add: revoke_user_families_def Let_def revoke_all_families_families revoke_all_for_user_none
      revoke_all_for_user_keeps)

lemma cascade_delete_fields [simp]:
  "s_users (cascade_delete_api_keys V q n tr i s) = s_users s"
  "s_families (cascade_delete_api_keys V q n tr i s) = s_families s"
  "s_blacklist (cascade_delete_api_keys V q n tr i s) = s_blacklist s"
  "s_cache (cascade_delete_api_keys V q n tr i s) = s_cache s"
  by (auto simp: cascade_delete_api_keys_def split: prod.splits sum.splits)

lemma invalidate_active_cache_fields [simp]:
  "s_users (invalidate_active_cache V u s) = s_users s" "s_families (invalidate_active_cache V u s) = s_families s"
  "s_keys (invalidate_active_cache V u s) = s_keys s" "s_blacklist (invalidate_active_cache V u s) = s_blacklist s"
  by (simp_all add: invalidate_active_cache_def)

lemma cached_invalidate: "cached k t (invalidate k' c) = (if k = k' then None else cached k t c)"
  by (simp add: cached_def invalidate_def)

lemma invalidate_active_cache_cached:
  assumes "v_has_cache V"
  shows "cached (itoa (u_id u)) t (s_cache (invalidate_active_cache V u s)) = None"
    and "cached (oidc_key (u_email u)) t (s_cache (invalidate_active_cache V u s)) = None"
    and "cached (env_user_key (u_email u)) t (s_cache (invalidate_active_cache V u s)) = None"
  using assms
  by (simp_all add: invalidate_active_cache_def invalidate_env_user_def invalidate_oidc_def cached_invalidate)

lemma blacklist_current_fields [simp]:
  "s_users (blacklist_current_access_token V q s) = s_users s"
  "s_families (blacklist_current_access_token V q s) = s_families s"
  "s_keys (blacklist_current_access_token V q s) = s_keys s"
  by (simp_all add: blacklist_current_access_token_def Let_def)

section \<open>Deactivation\<close>

text \<open>What has to hold of a server on which account \<open>u\<close> has just been deactivated.\<close>

definition access_cut :: "user \<Rightarrow> srv \<Rightarrow> bool" where
  "access_cut u s \<longleftrightarrow>
     (\<exists>u'. get_user_by_id (s_users s) (u_id u) = Inr u' \<and> \<not> u_is_active u')
     \<and> no_active_family (itoa (u_id u)) (s_families s)
     \<and> (u_provider u = ''oidc'' \<longrightarrow> no_active_family (u_email u) (s_families s))
     \<and> (\<forall>t. cached (itoa (u_id u)) t (s_cache s) = None \<and> cached (oidc_key (u_email u)) t (s_cache s) = None)"

lemma get_user_by_id_key: "get_user_by_id db i = Inr u \<Longrightarrow> u_id u = i"
  by (auto simp: get_user_by_id_def dest: tbl_find_Some split: option.splits)

lemma update_active_part_cut:
  assumes "update_active_part V q i (Some False) s = (s', None)"
    and "v_has_families V" "v_has_cache V" "\<not> c_fails q ''families.RevokeAllForUser''"
    and "get_user_by_id (s_users s) i = Inr u"
  shows "access_cut u s'"
proof -
  obtain s1 where w: "write_user_row (c_fails q ''users.UpdateActive'') ''error updating active''
        (update_active (s_users s) i False (c_now q)) s = (s1, None)"
    and s': "s' = revoke_user_families V q u ''user_deactivate''
        (audit_record V q (user_event q ''users.update.active'' i [(''active'', MBool False)])
          (invalidate_active_cache V u s1))"
    using assms(1,5)
    by (auto simp: update_active_part_def Let_def
        split: if_splits prod.splits option.splits sum.splits dest!: load_user_row_Inr)
  have r: "update_active (s_users s) i False (c_now q) = (s_users s1, Inr ())"
    using write_user_row_None(1,2) [OF w] by (cases "update_active (s_users s) i False (c_now q)") simp
  have "get_user_by_id (s_users s1) (u_id u) = Inr (u\<lparr>u_is_active := False, u_updated_at := c_now q\<rparr>)"
    using exec_update_user_Inr(1) [OF r [unfolded update_active_def], of i] assms(5) get_user_by_id_key [OF assms(5)]
    by simp
  then show ?thesis
    using revoke_user_families_none [OF assms(2,4)] invalidate_active_cache_cached [OF assms(3)]
    by (simp add: access_cut_def s')
qed

lemma delete_user_cut:
  assumes "delete_user V q idstr s = (s', r)" and "status r = 204" and "parse_int idstr = Some i"
    and "v_has_families V" "v_has_cache V" "\<not> c_fails q ''families.RevokeAllForUser''"
    and "get_user_by_id (s_users s) i = Inr u"
  shows "access_cut u s'"
proof -
  obtain s1 where w: "write_user_row (c_fails q ''users.Deactivate'') ''error deactivating user''
        (deactivate_user (s_users s) i (c_now q)) s = (s1, None)"
    and s': "s' = cascade_delete_api_keys V q (u_email u) ''user_deactivate'' i (revoke_user_families V q u ''user_deactivate''
        (audit_record V q (user_event q ''users.delete'' i []) (invalidate_active_cache V u s1)))"
    using assms(1-3,7)
    by (auto simp: delete_user_def Let_def
        split: if_splits prod.splits option.splits sum.splits dest!: user_replies load_user_row_Inr)
  have r: "deactivate_user (s_users s) i (c_now q) = (s_users s1, Inr ())"
    using write_user_row_None(1,2) [OF w] by (cases "deactivate_user (s_users s) i (c_now q)") simp
  have "get_user_by_id (s_users s1) (u_id u) = Inr (u\<lparr>u_is_active := False, u_updated_at := c_now q\<rparr>)"
    using exec_update_user_Inr(1) [OF r [unfolded deactivate_user_def], of i] assms(7) get_user_by_id_key [OF assms(7)]
    by simp
  then show ?thesis
    using revoke_user_families_none [OF assms(4,6)] invalidate_active_cache_cached [OF assms(5)]
    by (simp add: access_cut_def s')
qed

text \<open>C36: deactivation cuts access.  When an untroubled server answers 204 to the deletion of an account,
  or 200 to a patch that deactivates it, the account is inactive, none of its sessions (local ones under
  its id and, for an account linked to an identity provider, those under its email) is active, and nothing
  cached says otherwise: the recheck of the very next token for it is refused.\<close>

theorem deactivation_cuts_access:
  assumes "v_has_families V" "v_has_cache V" and "\<forall>x. \<not> c_fails q x"
    and "parse_int idstr = Some i" and "get_user_by_id (s_users s) i = Inr u" and "in_int64 i"
    and "delete_user V q idstr s = (s', r) \<and> status r = 204 \<or>
         update_user V q idstr (Some \<lparr>pu_role = ro, pu_active = Some False\<rparr>) s = (s', r) \<and> status r = 200"
  shows "(\<forall>f \<in> set (s_families s'). f_user f = itoa i \<or> u_provider u = ''oidc'' \<and> f_user f = u_email u
            \<longrightarrow> f_status f \<noteq> ''active'')
     \<and> (\<forall>it v prov. prov \<noteq> ''oidc'' \<longrightarrow>
          snd (is_active_for_token it False (s_users s') (itoa i) prov v (s_cache s')) = Some False)
     \<and> (\<forall>it v. (\<forall>w \<in> set (users (s_users s')). to_lower (u_email w) = to_lower (u_email u) \<longrightarrow> \<not> u_is_active w) \<longrightarrow>
          snd (is_active_for_token it False (s_users s') (u_email u) ''oidc'' v (s_cache s')) = Some False)"
proof -
  have cut: "\<exists>w. u_id w = i \<and> u_email w = u_email u \<and> u_provider w = u_provider u \<and> access_cut w s'"
    using assms(7)
  proof
    assume "delete_user V q idstr s = (s', r) \<and> status r = 204"
    then show ?thesis
      using delete_user_cut assms(1-5) get_user_by_id_key [OF assms(5)] by blast
  next
    assume up: "update_user V q idstr (Some \<lparr>pu_role = ro, pu_active = Some False\<rparr>) s = (s', r) \<and> status r = 200"
    then obtain s1 where p1: "update_role_part V q i ro s = (s1, None)"
      and p2: "update_active_part V q i (Some False) s1 = (s', None)"
      using assms(4)
      by (auto simp: update_user_def split: option.splits prod.splits sum.splits dest!: user_replies)
    have "\<exists>w. get_user_by_id (s_users s1) i = Inr w \<and> u_email w = u_email u \<and> u_provider w = u_provider u"
    proof (cases ro)
      case None
      with p1 assms(5) show ?thesis by (simp add: update_role_part_def)
    next
      case (Some x)
      obtain s0 where w: "write_user_row (c_fails q ''users.UpdateRole'') ''error updating role''
            (Users.update_role (s_users s) i x (c_now q)) s = (s0, None)"
        and s1: "s_users s1 = s_users s0"
        using p1 Some by (auto simp: update_role_part_def split: if_splits prod.splits option.splits)
      have e: "Users.update_role (s_users s) i x (c_now q) = (s_users s0, Inr ())"
        using write_user_row_None(1,2) [OF w] by (cases "Users.update_role (s_users s) i x (c_now q)") simp
      show ?thesis
        using exec_update_user_Inr(1) [OF e [unfolded update_role_def], of i] assms(5) s1 by simp
    qed
    then obtain w where "get_user_by_id (s_users s1) i = Inr w" "u_email w = u_email u" "u_provider w = u_provider u"
      by blast
    moreover from this have "access_cut w s'"
      using update_active_part_cut [OF p2 assms(1,2)] assms(3) by blast
    ultimately show ?thesis using get_user_by_id_key by blast
  qed
  then obtain w where w: "u_id w = i" "u_email w = u_email u" "u_provider w = u_provider u" "access_cut w s'" by blast
  have p: "parse_int (itoa i) = Some i" using assms(6) by (rule parse_int_itoa)
  have email: "get_user_by_email (s_users s') (u_email u) = Inr x \<Longrightarrow> \<not> u_is_active x"
    if "\<forall>w \<in> set (users (s_users s')). to_lower (u_email w) = to_lower (u_email u) \<longrightarrow> \<not> u_is_active w" for x
    using that by (auto simp: get_user_by_email_def email_matches_def Let_def split: list.splits
        dest!: arg_cong [where f = set])
  show ?thesis
  proof (intro conjI allI impI ballI)
    fix f assume "f \<in> set (s_families s')" "f_user f = itoa i \<or> u_provider u = ''oidc'' \<and> f_user f = u_email u"
    with w show "f_status f \<noteq> ''active''" by (auto simp: access_cut_def no_active_family_def)
  next
    fix it v and prov :: string assume "prov \<noteq> ''oidc''"
    with w p show "snd (is_active_for_token it False (s_users s') (itoa i) prov v (s_cache s')) = Some False"
      by (auto simp: access_cut_def is_active_for_token_def is_active_def is_active_by_id_def lookup_def
          load_user_def read_db_def)
  next
    fix it v assume all: "\<forall>w \<in> set (users (s_users s')). to_lower (u_email w) = to_lower (u_email u) \<longrightarrow> \<not> u_is_active w"
    show "snd (is_active_for_token it False (s_users s') (u_email u) ''oidc'' v (s_cache s')) = Some False"
      using w email [OF all]
      by (cases "get_user_by_email (s_users s') (u_email u)")
        (auto simp: access_cut_def is_active_for_token_def lookup_def load_user_def read_db_def
          split: user_error.splits dest: get_user_by_email_error)
  qed
qed

text \<open>a refused patch may have been applied in part.  An administrator who asks, in one request, to change
  the role of their own account and to deactivate it is refused with 422, and the role is changed.\<close>

theorem refused_patch_changes_role:
  assumes "claims_user_id q = Some i" and "parse_int idstr = Some i" and "ro \<in> valid_roles"
    and "\<not> c_fails q ''users.UpdateRole''"
    and "Users.update_role (s_users s) i ro (c_now q) = (db, Inr ())"
    and "update_user V q idstr (Some \<lparr>pu_role = Some ro, pu_active = Some False\<rparr>) s = (s', r)"
  shows "status r = 422 \<and> message r = ''cannot deactivate your own account''
     \<and> map_sum id u_role (get_user_by_id (s_users s') i) = map_sum id (\<lambda>_. ro) (get_user_by_id (s_users s) i)
     \<and> s_users s' = db"
proof -
  have "s_users s' = db \<and> status r = 422 \<and> message r = ''cannot deactivate your own account''"
    using assms by (auto simp: update_user_def update_role_part_def write_user_row_def update_active_part_def)
  moreover have "map_sum id u_role (get_user_by_id db i) = map_sum id (\<lambda>_. ro) (get_user_by_id (s_users s) i)"
    using exec_update_user_Inr(1) [OF assms(5) [unfolded update_role_def], of i]
    by (cases "get_user_by_id (s_users s) i") simp_all
  ultimately show ?thesis by simp
qed

text \<open>a password reset leaves the sessions' access tokens alone.  After a 200 no family of the account is
  active and its keys may be gone, but every token validates exactly as before and the account is as active
  as before, so an access token that was stolen stays good until it expires.\<close>

theorem reset_leaves_access_tokens:
  assumes "reset_user_password V q idstr s = (s', r)" and "status r = 200" and "parse_int idstr = Some i"
    and "v_has_families V" and "\<not> c_fails q ''families.RevokeAllForUser''"
  shows "no_active_family (itoa i) (s_families s')
     \<and> srv_validate V q' tok ty s' = srv_validate V q' tok ty s
     \<and> map_sum id u_is_active (get_user_by_id (s_users s') j) = map_sum id u_is_active (get_user_by_id (s_users s) j)"
proof -
  obtain u p h s1 where w: "write_user_row (c_fails q ''users.UpdatePasswordHash'') ''error updating password''
        (Users.update_password_hash (s_users s) i h (c_now q)) s = (s1, None)"
    and s': "s' = cascade_delete_api_keys V q (u_email u) ''password_reset'' i
        (revoke_all_families V q (itoa i) ''password_reset'' i (audit_record V q (reset_event q i u) s1))"
    using assms(1-3)
    by (auto simp: reset_user_password_def Let_def
        split: if_splits prod.splits option.splits sum.splits dest!: user_replies)
  have e: "Users.update_password_hash (s_users s) i h (c_now q) = (s_users s1, Inr ())"
    and s1: "s1 = s\<lparr>s_users := s_users s1\<rparr>"
    using write_user_row_None(1,2) [OF w] by (cases "Users.update_password_hash (s_users s) i h (c_now q)", simp)+
  have "map_sum id u_is_active (get_user_by_id (s_users s1) j) = map_sum id u_is_active (get_user_by_id (s_users s) j)"
    using exec_update_user_Inr(1) [OF e [unfolded update_password_hash_def], of j]
    by (cases "get_user_by_id (s_users s) j"; cases "j = i") auto
  moreover have "s_blacklist s1 = s_blacklist s" by (subst s1) simp
  ultimately show ?thesis
    using s' assms(4,5)
    by (auto simp: srv_validate_def revoke_all_families_families revoke_all_for_user_none)
qed

section \<open>Witnesses\<close>

text \<open>A request of an account, or of the environment's administrator.\<close>

definition demo_uq :: "string \<Rightarrow> ctx" where
  "demo_uq sub = \<lparr>c_request = \<lparr>rq_method = ''PATCH'', rq_path = ''/users/1'', rq_cookies = (\<lambda>_. None), rq_header = (\<lambda>_. [])\<rparr>,
     c_claims = Some [(''sub'', CStr sub), (''role'', CStr ''admin'')], c_now = 50, c_rnd = [Some ''eighteen random bs''],
     c_fails = (\<lambda>_. False)\<rparr>"

lemma demo_uq_simps [simp]:
  "c_fails (demo_uq sub) = (\<lambda>_. False)" "c_now (demo_uq sub) = 50"
  "claims_user_id (demo_uq sub) = (if sub = [] then None else parse_int sub)"
  by (simp_all add: demo_uq_def claims_user_id_def claim_str_def str_or_empty_def)

abbreviation alice :: user where
  "alice \<equiv> \<lparr>u_id = 1, u_email = ''Al@x.io'', u_name = ''Al'', u_provider = ''local'', u_provider_sub = [],
     u_password_hash = ''h'', u_role = ''viewer'', u_is_active = True, u_last_login = None, u_created_at = 5,
     u_updated_at = 5\<rparr>"

lemma alice_row: "get_user_by_id alice_db 1 = Inr alice" "users alice_db = [alice]"
  by (simp_all add: get_user_by_id_def create_local_def exec_insert_user_def Let_def users_violation_def tbl_simps)

lemma alice_update:
  assumes "u_provider_sub (f alice) = []" "u_id (f alice) = 1"
  shows "exec_update_user alice_db 1 f = (alice_db\<lparr>users := [f alice]\<rparr>, Inr ())"
  using assms by (simp add: exec_update_user_def alice_row users_violation_def Let_def tbl_simps tbl_count_def
      del: fold.simps)

lemma demo_load_row: "load_user_row (demo_uq sub) 1 demo_s = Inr alice"
  using alice_row by (simp add: load_user_row_def read_db_def demo_s_def del: fold.simps)

lemma demo_s_users: "s_users demo_s = alice_db" "s_blacklist demo_s = []"
  by (simp_all add: demo_s_def)

lemma demo_parse: "parse_int ''1'' = Some 1" "parse_int ''admin'' = None" "itoa 1 = ''1''"
  by code_simp+

theorem deactivation_cuts_access_witness:
  "snd (is_active_for_token id False (s_users (fst (delete_user demo_V (demo_uq ''admin'') ''1'' demo_s))) ''1'' ''local''
      \<lparr>v_start = 51, v_store = 52\<rparr> (s_cache (fst (delete_user demo_V (demo_uq ''admin'') ''1'' demo_s)))) = Some False"
proof -
  have "status (snd (delete_user demo_V (demo_uq ''admin'') ''1'' demo_s)) = 204"
    using alice_update [of "\<lambda>u. u\<lparr>u_is_active := False, u_updated_at := 50\<rparr>"]
    by (simp add: delete_user_def demo_parse demo_load_row write_user_row_def deactivate_user_def demo_s_users Let_def
        del: fold.simps)
  then show ?thesis
    using deactivation_cuts_access [of demo_V "demo_uq ''admin''" "''1''" 1 demo_s alice
        "fst (delete_user demo_V (demo_uq ''admin'') ''1'' demo_s)" "snd (delete_user demo_V (demo_uq ''admin'') ''1'' demo_s)"]
      alice_row demo_parse
    by (simp add: demo_V_def demo_s_users in_int64_def del: fold.simps)
qed

theorem refused_patch_changes_role_witness:
  "status (snd (update_user demo_V (demo_uq ''1'') ''1''
      (Some \<lparr>pu_role = Some ''editor'', pu_active = Some False\<rparr>) demo_s)) = 422"
  using refused_patch_changes_role [of "demo_uq ''1''" 1 "''1''" "''editor''" demo_s _ demo_V, OF _ _ _ _ _ surjective_pairing]
    alice_update [of "\<lambda>u. u\<lparr>u_role := ''editor'', u_updated_at := 50\<rparr>"] demo_parse
  by (simp add: valid_roles_def update_role_def demo_s_users del: fold.simps)

theorem reset_leaves_access_tokens_witness:
  "srv_validate demo_V (demo_q (of_unix 1001)) demo_atok ''access''
     (fst (reset_user_password demo_V (demo_uq ''admin'') ''1'' demo_s)) = Inr demo_aclaims"
proof -
  have b: "12 \<le> length (b64_encode ''eighteen random bs'')" by code_simp
  have r: "rnd (demo_uq ''admin'') 0 = Some ''eighteen random bs''" by (simp add: rnd_def demo_uq_def)
  have "status (snd (reset_user_password demo_V (demo_uq ''admin'') ''1'' demo_s)) = 200"
    using alice_update [of "\<lambda>u. u\<lparr>u_password_hash := b64_encode ''eighteen random bs'', u_updated_at := 50\<rparr>"] b
    by (simp add: reset_user_password_def demo_parse demo_load_row new_temp_password_def generate_temp_password_def r
        write_user_row_def update_password_hash_def demo_V_def demo_s_users Let_def del: fold.simps)
  from reset_leaves_access_tokens [OF surjective_pairing this, of 1] demo_parse
    demo_tokens(2) [of demo_s 1001]
  show ?thesis by (simp add: demo_s_users)
qed

end
