(* ===== verification/KeyHandler.thy ===== *)
theory KeyHandler
  imports ProjectAccess
begin

text \<open>
  \<open>api/internal/handlers/api_keys.go\<close>: listing, creating and deleting the caller's API keys.
\<close>

section \<open>Handlers\<close>

record key_response =
  kr_id :: int
  kr_name :: string
  kr_prefix :: string
  kr_username :: string
  kr_role :: string
  kr_expires_at :: "time option"
  kr_last_used :: "time option"
  kr_created_at :: time
  kr_mcp_writes :: bool
  kr_projects :: "int list"

definition key_to_response :: "api_key \<Rightarrow> key_response" where
  "key_to_response k =
     \<lparr>kr_id = k_id k, kr_name = k_name k, kr_prefix = k_prefix k, kr_username = k_username k, kr_role = k_role k,
      kr_expires_at = k_expires_at k, kr_last_used = k_last_used k, kr_created_at = k_created_at k,
      kr_mcp_writes = k_mcp_writes k, kr_projects = k_projects k\<rparr>"

text \<open>The replies: a list of keys, a created key with its plaintext, or the id of a deleted one.\<close>

datatype key_body = KList "key_response list" | KCreated key_response string | KDeleted int

definition resolve_key_username :: "ctx \<Rightarrow> string \<Rightarrow> srv \<Rightarrow> string option" where
  "resolve_key_username q sub s =
     (case parse_int sub of
        None \<Rightarrow> Some sub
      | Some i \<Rightarrow> (case read_db (c_fails q ''users.GetByID'') (get_user_by_id (s_users s) i) of
                     Inl _ \<Rightarrow> None | Inr u \<Rightarrow> Some (u_email u)))"

abbreviation resolve_error :: "key_body http_reply" where
  "resolve_error \<equiv> err 500 ''error resolving user''"

definition list_api_keys :: "ctx \<Rightarrow> srv \<Rightarrow> key_body http_reply" where
  "list_api_keys q s =
     (case c_claims q of
        None \<Rightarrow> err 401 ''missing claims''
      | Some cl \<Rightarrow>
        (case resolve_key_username q (str_or_empty (claim_str ''sub'' cl)) s of
           None \<Rightarrow> resolve_error
         | Some name \<Rightarrow>
             if c_fails q ''keys.ListByUsername'' then err 500 ''error listing API keys''
             else ok 200 ''API keys retrieved'' (KList (map key_to_response (list_keys (s_keys s) name)))))"

text \<open>The decoded body; \<open>expires_at\<close> is \<open>Inl\<close> a text that does not parse as a time.\<close>

record key_request =
  kq_name :: string
  kq_expires_at :: "(string + time) option"
  kq_mcp_writes :: bool
  kq_projects :: "int list"

definition key_request_error :: "time \<Rightarrow> key_request \<Rightarrow> string option" where
  "key_request_error now r =
     (if kq_name r = [] then Some ''name is required''
      else if length (kq_name r) > 64 then Some ''name must not exceed 64 characters''
      else if length (kq_projects r) > 100 then Some ''project_ids must not exceed 100 entries''
      else if \<exists>p \<in> set (kq_projects r). p \<le> 0 then Some ''each project_id must be a positive integer''
      else case kq_expires_at r of
        None \<Rightarrow> None
      | Some (Inl _) \<Rightarrow> Some ''expires_at must be a valid RFC3339 timestamp''
      | Some (Inr t) \<Rightarrow> if now < t then None else Some ''expires_at must be in the future'')"

definition create_api_key ::
    "srv_env \<Rightarrow> ctx \<Rightarrow> key_request option \<Rightarrow> srv \<Rightarrow> srv \<times> key_body http_reply" where
  "create_api_key V q req s =
     (case c_claims q of
        None \<Rightarrow> (s, err 401 ''missing claims'')
      | Some cl \<Rightarrow>
        (let sub = str_or_empty (claim_str ''sub'' cl); role = str_or_empty (claim_str ''role'' cl) in
         case resolve_key_username q sub s of
           None \<Rightarrow> (s, resolve_error)
         | Some name \<Rightarrow>
           (if c_fails q ''keys.CountByUsername'' then (s, err 500 ''error checking API key count'')
            else if count_keys (s_keys s) name \<ge> 5 then (s, err 409 ''maximum of 5 API keys per user reached'')
            else case req of
              None \<Rightarrow> (s, err 400 ''invalid request body'')
            | Some r \<Rightarrow>
              (case key_request_error (c_now q) r of
                 Some e \<Rightarrow> (s, err 400 e)
               | None \<Rightarrow>
                 (case generate_api_key (rnd q 0) of
                    None \<Rightarrow> (s, err 500 ''error generating API key'')
                  | Some full \<Rightarrow>
                    (let k = \<lparr>k_id = 0, k_name = kq_name r, k_prefix = display_prefix full,
                              k_hash = hash_api_key (v_sha256 V) full, k_username = name, k_role = role,
                              k_expires_at = (case kq_expires_at r of Some (Inr t) \<Rightarrow> Some t | _ \<Rightarrow> None),
                              k_last_used = None, k_created_at = 0, k_mcp_writes = kq_mcp_writes r,
                              k_projects = kq_projects r\<rparr>
                     in if c_fails q ''keys.Create'' then (s, err 500 ''error creating API key'')
                        else case create_key (s_keys s) k (c_now q) of
                          (db, Inl _) \<Rightarrow> (s\<lparr>s_keys := db\<rparr>, err 500 ''error creating API key'')
                        | (db, Inr c) \<Rightarrow>
                          (audit_record V q
                             \<lparr>ev_action = ''api_keys.create'', ev_outcome = ''success'', ev_actor = parse_int sub,
                              ev_label = sub, ev_target_type = ''api_key'', ev_target = itoa (k_id c),
                              ev_meta = [(''name'', MStr (k_name c)), (''prefix'', MStr (k_prefix c)),
                                         (''allow_mcp_writes'', MBool (k_mcp_writes c))]\<rparr>
                             (s\<lparr>s_keys := db\<rparr>),
                           ok 201 (''API key created. Copy it now '' @ em_dash @ '' it won'' @ apostrophe @ ''t be shown again.'')
                             (KCreated (key_to_response c) full))))))))"

definition delete_api_key :: "srv_env \<Rightarrow> ctx \<Rightarrow> string \<Rightarrow> srv \<Rightarrow> srv \<times> key_body http_reply" where
  "delete_api_key V q idstr s =
     (case c_claims q of
        None \<Rightarrow> (s, err 401 ''missing claims'')
      | Some cl \<Rightarrow>
        (let sub = str_or_empty (claim_str ''sub'' cl) in
         case resolve_key_username q sub s of
           None \<Rightarrow> (s, resolve_error)
         | Some name \<Rightarrow>
           (case parse_int idstr of
              None \<Rightarrow> (s, err 400 ''invalid id'')
            | Some i \<Rightarrow>
              (if c_fails q ''keys.Delete'' then (s, err 500 ''error deleting API key'')
               else case delete_key (s_keys s) i name of
                 (db, Inl ErrAPIKeyNotFound) \<Rightarrow> (s, err 404 ''API key not found'')
               | (db, Inl _) \<Rightarrow> (s, err 500 ''error deleting API key'')
               | (db, Inr _) \<Rightarrow>
                 (audit_record V q
                    \<lparr>ev_action = ''api_keys.delete'', ev_outcome = ''success'', ev_actor = parse_int sub,
                     ev_label = sub, ev_target_type = ''api_key'', ev_target = itoa i, ev_meta = []\<rparr>
                    (s\<lparr>s_keys := db\<rparr>),
                  ok 200 ''API key deleted'' (KDeleted i))))))"

section \<open>What a created key is\<close>

lemma create_api_key_201:
  assumes "create_api_key V q req s = (s', r)" and "status r = 201"
  obtains cl name kr full c where "c_claims q = Some cl"
    and "resolve_key_username q (str_or_empty (claim_str ''sub'' cl)) s = Some name"
    and "count_keys (s_keys s) name < 5" and "req = Some kr" and "key_request_error (c_now q) kr = None"
    and "generate_api_key (rnd q 0) = Some full"
    and "body r = Some (KCreated (key_to_response c) full)"
    and "create_key (s_keys s) \<lparr>k_id = 0, k_name = kq_name kr, k_prefix = display_prefix full,
           k_hash = hash_api_key (v_sha256 V) full, k_username = name,
           k_role = str_or_empty (claim_str ''role'' cl),
           k_expires_at = (case kq_expires_at kr of Some (Inr t) \<Rightarrow> Some t | _ \<Rightarrow> None),
           k_last_used = None, k_created_at = 0, k_mcp_writes = kq_mcp_writes kr, k_projects = kq_projects kr\<rparr>
           (c_now q) = (s_keys s', Inr c)"
  using assms
  by (auto simp: create_api_key_def Let_def split: option.splits if_splits prod.splits sum.splits)

lemma create_key_Inr:
  assumes "create_key db k now = (db', Inr c)"
  shows "keys_of db' = keys_of db @ [k\<lparr>k_id := next_key_id db, k_created_at := now, k_last_used := None\<rparr>]"
    and "\<forall>r \<in> set (keys_of db). k_hash r \<noteq> k_hash k"
    and "c = k\<lparr>k_id := next_key_id db, k_created_at := now\<rparr>"
  using assms by (auto simp: create_key_def Let_def tbl_count_0 split: if_splits)

lemma create_key_lookup:
  assumes "create_key db k now = (db', Inr c)"
  shows "get_key_by_hash db' (k_hash k)
    = Inr (k\<lparr>k_id := next_key_id db, k_created_at := now, k_last_used := None\<rparr>)"
  using create_key_Inr [OF assms]
  by (auto simp: get_key_by_hash_def tbl_find_append tbl_find_Cons split: option.splits dest: tbl_find_Some)

text \<open>a created key is what the caller may have.  After a 201 the plaintext in the reply authenticates:
  its hash finds a row that belongs to the caller's resolved name, carries the caller's role and the
  requested scope and has not expired; the caller had fewer than five keys before and has one more now,
  and no other key changed.\<close>

theorem created_key_authenticates:
  assumes "create_api_key V q req s = (s', r)" and "status r = 201"
  shows "\<exists>cl name kr full k. c_claims q = Some cl
     \<and> resolve_key_username q (str_or_empty (claim_str ''sub'' cl)) s = Some name \<and> req = Some kr
     \<and> map_option (\<lambda>b. case b of KCreated _ t \<Rightarrow> t | _ \<Rightarrow> []) (body r) = Some full
     \<and> prefix ''ald_'' full
     \<and> get_key_by_hash (s_keys s') (hash_api_key (v_sha256 V) full) = Inr k
     \<and> k_username k = name \<and> k_role k = str_or_empty (claim_str ''role'' cl)
     \<and> k_projects k = kq_projects kr \<and> (\<forall>e. k_expires_at k = Some e \<longrightarrow> c_now q < e)
     \<and> keys_of (s_keys s') = keys_of (s_keys s) @ [k]
     \<and> count_keys (s_keys s') name = Suc (count_keys (s_keys s) name) \<and> count_keys (s_keys s') name \<le> 5"
proof -
  obtain cl name kr full c where cl: "c_claims q = Some cl"
    and nm: "resolve_key_username q (str_or_empty (claim_str ''sub'' cl)) s = Some name"
    and cnt: "count_keys (s_keys s) name < 5" and req: "req = Some kr"
    and val: "key_request_error (c_now q) kr = None"
    and gen: "generate_api_key (rnd q 0) = Some full"
    and bd: "body r = Some (KCreated (key_to_response c) full)"
    and ck: "create_key (s_keys s) \<lparr>k_id = 0, k_name = kq_name kr, k_prefix = display_prefix full,
           k_hash = hash_api_key (v_sha256 V) full, k_username = name,
           k_role = str_or_empty (claim_str ''role'' cl),
           k_expires_at = (case kq_expires_at kr of Some (Inr t) \<Rightarrow> Some t | _ \<Rightarrow> None),
           k_last_used = None, k_created_at = 0, k_mcp_writes = kq_mcp_writes kr, k_projects = kq_projects kr\<rparr>
           (c_now q) = (s_keys s', Inr c)"
    using create_api_key_201 [OF assms] by metis
  have exp: "c_now q < e" if "(case kq_expires_at kr of Some (Inr t) \<Rightarrow> Some t | _ \<Rightarrow> None) = Some e" for e
    using val that by (auto simp: key_request_error_def split: if_splits option.splits sum.splits)
  have pre: "prefix ''ald_'' full"
    using gen by (auto simp: generate_api_key_def)
  from create_key_lookup [OF ck] create_key_Inr(1) [OF ck] cnt show ?thesis
    using cl nm req bd pre exp by (intro exI conjI) (auto simp: count_keys_def tbl_count_def)
qed

text \<open>a project-scoped key can leave its scope.  A caller who authenticates with an API key that is
  restricted to some projects may create, with it, a key with no restriction and no expiry: the claims of
  the new key are allowed on every project.\<close>

theorem scoped_key_mints_unscoped:
  assumes "c_claims q = Some (api_key_claims k)" and "k_projects k = [p]"
    and "resolve_key_username q (k_username k) s = Some name" and "count_keys (s_keys s) name < 5"
    and "rnd q 0 = Some b" and "\<forall>x. \<not> c_fails q x"
    and "\<forall>r \<in> set (keys_of (s_keys s)). k_hash r \<noteq> hash_api_key (v_sha256 V) (''ald_'' @ hex_encode b)"
    and "create_api_key V q (Some \<lparr>kq_name = ''n'', kq_expires_at = None, kq_mcp_writes = True,
           kq_projects = []\<rparr>) s = (s', r)"
  shows "api_key_is_scoped (c_claims q) \<and> status r = 201 \<and>
     (\<exists>k'. get_key_by_hash (s_keys s') (hash_api_key (v_sha256 V) (''ald_'' @ hex_encode b)) = Inr k'
        \<and> k_role k' = k_role k \<and> k_expires_at k' = None
        \<and> (\<forall>i. api_key_project_allowed (Some (api_key_claims k')) i))"
proof -
  have c: "str_or_empty (claim_str ''sub'' (api_key_claims k)) = k_username k"
    "str_or_empty (claim_str ''role'' (api_key_claims k)) = k_role k"
    "str_or_empty (claim_str ''auth_type'' (api_key_claims k)) = ''api_key''"
    "claim_ids ''project_ids'' (api_key_claims k) = k_projects k" for k
    by (simp_all add: claim_str_def claim_ids_def api_key_claims_def str_or_empty_def)
  let ?k = "\<lparr>k_id = 0, k_name = ''n'', k_prefix = display_prefix (''ald_'' @ hex_encode b),
           k_hash = hash_api_key (v_sha256 V) (''ald_'' @ hex_encode b), k_username = name,
           k_role = k_role k, k_expires_at = None, k_last_used = None, k_created_at = 0, k_mcp_writes = True,
           k_projects = []\<rparr>"
  have n0: "tbl_count (\<lambda>r. k_hash r = hash_api_key (v_sha256 V) (''ald_'' @ hex_encode b)) (keys_of (s_keys s)) = 0"
    using assms(7) by (simp add: tbl_count_0)
  obtain db d where ck: "create_key (s_keys s) ?k (c_now q) = (db, Inr d)"
    using n0 by (simp add: create_key_def Let_def)
  have r: "status r = 201 \<and> s_keys s' = db"
    using assms(1,3-6,8) ck c
    by (auto simp: create_api_key_def Let_def key_request_error_def generate_api_key_def)
  from create_key_lookup [OF ck] r assms(1,2) show ?thesis
    by (simp add: api_key_is_scoped_def api_key_project_allowed_def c)
qed

text \<open>a user deletes only their own keys.  Whatever id a caller names, the deletion removes no key
  that belongs to another name than the caller's, and a 200 means that the named key is gone.\<close>

theorem delete_own_keys_only:
  assumes "delete_api_key V q idstr s = (s', r)"
  shows "\<exists>p. keys_of (s_keys s') = filter (\<lambda>k. \<not> p k) (keys_of (s_keys s)) \<and>
     (\<forall>k. p k \<longrightarrow> (\<exists>cl. c_claims q = Some cl \<and> parse_int idstr = Some (k_id k) \<and>
        resolve_key_username q (str_or_empty (claim_str ''sub'' cl)) s = Some (k_username k)))
     \<and> (status r = 200 \<longrightarrow> (\<exists>k \<in> set (keys_of (s_keys s)). p k))"
proof (cases "s_keys s' = s_keys s \<and> status r \<noteq> 200")
  case True
  then show ?thesis by (intro exI [of _ "\<lambda>_. False"]) simp
next
  case False
  then obtain cl name i where cl: "c_claims q = Some cl" "parse_int idstr = Some i"
      "resolve_key_username q (str_or_empty (claim_str ''sub'' cl)) s = Some name"
    and dk: "delete_key (s_keys s) i name = (s_keys s', Inr ())"
    using assms
    by (auto simp: delete_api_key_def Let_def split: option.splits if_splits prod.splits sum.splits key_error.splits)
  let ?p = "\<lambda>k. k_id k = i \<and> k_username k = name"
  have "exec_delete_keys ?p (s_keys s) = (s_keys s', Inr (tbl_count ?p (keys_of (s_keys s)))) \<and>
      tbl_count ?p (keys_of (s_keys s)) \<noteq> 0"
    using dk by (auto simp: delete_key_def exec_delete_keys_def split: prod.splits sum.splits if_splits)
  then have "s_keys s' = (s_keys s)\<lparr>keys_of := tbl_delete ?p (keys_of (s_keys s))\<rparr>"
    and ex: "\<exists>k \<in> set (keys_of (s_keys s)). ?p k"
    by (auto simp: exec_delete_keys_def tbl_count_0 split: if_splits)
  then have "keys_of (s_keys s') = filter (\<lambda>k. \<not> ?p k) (keys_of (s_keys s))"
    by (simp add: tbl_delete_def)
  with cl ex show ?thesis by (intro exI [of _ ?p]) auto
qed

section \<open>Witnesses\<close>

abbreviation scoped_key :: api_key where
  "scoped_key \<equiv> sample_key\<lparr>k_projects := [1]\<rparr>"

definition demo_kq :: ctx where
  "demo_kq = \<lparr>c_request = \<lparr>rq_method = ''POST'', rq_path = ''/api-keys'', rq_cookies = (\<lambda>_. None), rq_header = (\<lambda>_. [])\<rparr>,
     c_claims = Some (api_key_claims scoped_key), c_now = 50, c_rnd = [Some ''b''], c_fails = (\<lambda>_. False)\<rparr>"

abbreviation demo_ks :: srv where
  "demo_ks \<equiv> demo_s\<lparr>s_keys := \<lparr>keys_of = [scoped_key], next_key_id = 2, kd_refs = []\<rparr>\<rparr>"

abbreviation demo_kr :: key_request where
  "demo_kr \<equiv> \<lparr>kq_name = ''n'', kq_expires_at = None, kq_mcp_writes = True, kq_projects = []\<rparr>"

lemma demo_kq_simps [simp]:
  "c_claims demo_kq = Some (api_key_claims scoped_key)" "rnd demo_kq 0 = Some ''b''"
  "c_fails demo_kq = (\<lambda>_. False)" "c_now demo_kq = 50"
  by (simp_all add: demo_kq_def rnd_def)

lemma demo_resolve:
  "resolve_key_username demo_kq ''al@x.io'' s = Some ''al@x.io''"
  "str_or_empty (claim_str ''sub'' (api_key_claims scoped_key)) = ''al@x.io''"
  "str_or_empty (claim_str ''role'' (api_key_claims scoped_key)) = ''admin''"
proof -
  have "parse_int ''al@x.io'' = None" by code_simp
  then show "resolve_key_username demo_kq ''al@x.io'' s = Some ''al@x.io''"
    by (simp add: resolve_key_username_def)
qed (simp_all add: claim_str_def api_key_claims_def str_or_empty_def)

lemmas demo_resolves = demo_resolve demo_resolve [simplified]

lemma demo_create_status: "status (snd (create_api_key demo_V demo_kq (Some demo_kr) demo_ks)) = 201"
proof -
  have h: "hex_encode ''b'' = ''62''" by code_simp
  have hash: "hash_api_key (v_sha256 demo_V) ''ald_62'' \<noteq> ''h1''"
    by (simp add: hash_api_key_def demo_V_def hex_encode_Cons)
  show ?thesis
    using hash
    by (simp add: create_api_key_def Let_def demo_resolves key_request_error_def generate_api_key_def h count_keys_def
        tbl_count_def create_key_def)
qed

theorem created_key_authenticates_witness:
  "\<exists>k full. get_key_by_hash (s_keys (fst (create_api_key demo_V demo_kq (Some demo_kr) demo_ks)))
       (hash_api_key (v_sha256 demo_V) full) = Inr k \<and> k_username k = ''al@x.io''"
  using created_key_authenticates [of demo_V demo_kq "Some demo_kr" demo_ks
      "fst (create_api_key demo_V demo_kq (Some demo_kr) demo_ks)"
      "snd (create_api_key demo_V demo_kq (Some demo_kr) demo_ks)"] demo_create_status
  by (auto simp: demo_resolves)

theorem scoped_key_mints_unscoped_witness:
  "status (snd (create_api_key demo_V demo_kq (Some demo_kr) demo_ks)) = 201"
proof -
  have hash: "hash_api_key (v_sha256 demo_V) (''ald_'' @ hex_encode ''b'') \<noteq> ''h1''"
    by (simp add: hash_api_key_def demo_V_def hex_encode_Cons)
  then show ?thesis
    using scoped_key_mints_unscoped [of demo_kq scoped_key 1 demo_ks "''al@x.io''" "''b''" demo_V
        "fst (create_api_key demo_V demo_kq (Some demo_kr) demo_ks)"
        "snd (create_api_key demo_V demo_kq (Some demo_kr) demo_ks)"]
    by (simp add: demo_resolves count_keys_def tbl_count_def)
qed

theorem delete_own_keys_only_witness:
  "keys_of (s_keys (fst (delete_api_key demo_V demo_kq ''2''
      (demo_ks\<lparr>s_keys := \<lparr>keys_of = [scoped_key\<lparr>k_id := 2, k_username := ''bo''\<rparr>], next_key_id = 3, kd_refs = []\<rparr>\<rparr>))))
   = [scoped_key\<lparr>k_id := 2, k_username := ''bo''\<rparr>]"
  using delete_own_keys_only [OF surjective_pairing [of "delete_api_key demo_V demo_kq ''2''
      (demo_ks\<lparr>s_keys := \<lparr>keys_of = [scoped_key\<lparr>k_id := 2, k_username := ''bo''\<rparr>], next_key_id = 3, kd_refs = []\<rparr>\<rparr>)"]]
  by (auto simp: demo_resolves split: if_splits)

end
