(* ===== verification/Signed.thy ===== *)
theory Signed
  imports Codec
begin

text \<open>
  \<open>api/internal/mcp/signed/signed.go\<close> (values that leave the MCP server and come back),
  \<open>mcp/tools/confirm.go\<close> (the confirmation in front of every mutating tool) and \<open>mcp/pagination.go\<close>.

  HMAC-SHA256 is a parameter \<open>hmac key message\<close>; nothing is assumed of it, so the theorems say which
  message a client would have to forge.  JSON encoding and decoding are parameters too: \<open>marshal\<close> may
  fail, and a decoder fails on what is not an encoding.  The constant-time comparison is equality.
\<close>

section \<open>Signatures\<close>

type_synonym mac = "string \<Rightarrow> string \<Rightarrow> string"

definition mac_input :: "string \<Rightarrow> int \<Rightarrow> string" where
  "mac_input payload e = payload @ '':exp:'' @ itoa e"

definition sign :: "mac \<Rightarrow> string \<Rightarrow> string \<Rightarrow> int \<Rightarrow> string" where
  "sign hmac key payload e = hex_encode (hmac key (mac_input payload e))"

definition verify :: "mac \<Rightarrow> string \<Rightarrow> string \<Rightarrow> int \<Rightarrow> string \<Rightarrow> time \<Rightarrow> unit result" where
  "verify hmac key payload e sig now =
     (if e \<le> 0 then Inl ''missing or invalid exp''
      else if to_unix now > e then Inl ''expired''
      else if sign hmac key payload e \<noteq> sig then Inl ''signature mismatch''
      else Inr ())"

definition seal ::
    "mac \<Rightarrow> ('a \<Rightarrow> string option) \<Rightarrow> string \<Rightarrow> 'a \<Rightarrow> duration \<Rightarrow> time \<Rightarrow> string result" where
  "seal hmac marshal key v ttl now =
     (case marshal v of
        None \<Rightarrow> Inl ''sealing value''
      | Some b \<Rightarrow> let encoded = b64_encode b; e = to_unix (now + ttl)
                  in Inr (encoded @ ''.'' @ itoa e @ ''.'' @ sign hmac key encoded e))"

definition open_token ::
    "mac \<Rightarrow> (string \<Rightarrow> 'a option) \<Rightarrow> string \<Rightarrow> string \<Rightarrow> time \<Rightarrow> 'a result" where
  "open_token hmac unmarshal key token now =
     (case cut CHR ''.'' token of
        None \<Rightarrow> Inl ''malformed token''
      | Some (encoded, rest) \<Rightarrow>
        (case cut CHR ''.'' rest of
           None \<Rightarrow> Inl ''malformed token''
         | Some (raw_exp, sig) \<Rightarrow>
           (case parse_int raw_exp of
              None \<Rightarrow> Inl ''malformed expiry''
            | Some e \<Rightarrow>
              (case verify hmac key encoded e sig now of
                 Inl m \<Rightarrow> Inl m
               | Inr _ \<Rightarrow>
                 (case b64_decode encoded of
                    None \<Rightarrow> Inl ''malformed body''
                  | Some b \<Rightarrow> (case unmarshal b of None \<Rightarrow> Inl ''undecodable body'' | Some v \<Rightarrow> Inr v))))))"

section \<open>The confirmation of a write\<close>

record confirm_state =
  cs_kind :: string
  cs_user :: string
  cs_args :: string

datatype input_response = Elicited string | OtherResponse

text \<open>
  What the gate reads of a tool call: the request state and the responses of its parameters, absent on a
  call without parameters, and whether the client can be asked.
\<close>

record call_request =
  cr_params :: "(string \<times> (string \<rightharpoonup> input_response)) option"
  cr_elicitation :: bool

datatype write_gate = GateWrite | GateAsk string string | GateDeclined

definition confirm_ttl :: duration where
  "confirm_ttl = 10 * minute"

definition client_can_confirm :: "call_request option \<Rightarrow> bool" where
  "client_can_confirm req = (case req of None \<Rightarrow> False | Some r \<Rightarrow> cr_elicitation r)"

definition hash_args :: "(string \<Rightarrow> string) \<Rightarrow> ('a \<Rightarrow> string option) \<Rightarrow> 'a \<Rightarrow> string result" where
  "hash_args sha256 marshal args =
     (case marshal args of None \<Rightarrow> Inl ''hashing arguments'' | Some b \<Rightarrow> Inr (hex_encode (sha256 b)))"

record 'a gate_env =
  ge_hmac :: mac
  ge_sha256 :: "string \<Rightarrow> string"
  ge_marshal :: "'a \<Rightarrow> string option"
  ge_put_state :: "confirm_state \<Rightarrow> string option"
  ge_get_state :: "string \<Rightarrow> confirm_state option"
  ge_key :: string

text \<open>The retry leg: the client returned a state.\<close>

definition answered_gate ::
    "'a gate_env \<Rightarrow> string \<Rightarrow> (string \<rightharpoonup> input_response) \<Rightarrow> string \<Rightarrow> string \<Rightarrow> string \<Rightarrow> time \<Rightarrow> write_gate result" where
  "answered_gate E token responses kind user args_hash now =
     (case open_token (ge_hmac E) (ge_get_state E) (ge_key E) token now of
        Inl _ \<Rightarrow> Inl ''confirmation state rejected''
      | Inr st \<Rightarrow>
        (if cs_kind st \<noteq> kind then Inl ''confirmation state is for a different tool''
         else if cs_user st \<noteq> user then Inl ''confirmation state belongs to a different user''
         else if cs_args st \<noteq> args_hash then Inl ''arguments changed since confirmation was requested''
         else case responses ''confirm'' of
                None \<Rightarrow> Inl ''confirmation response missing''
              | Some OtherResponse \<Rightarrow> Inl ''unexpected confirmation response type''
              | Some (Elicited action) \<Rightarrow> Inr (if action \<noteq> ''accept'' then GateDeclined else GateWrite)))"

text \<open>The first leg: ask, unless the client cannot answer or nothing can be signed.\<close>

definition first_gate ::
    "'a gate_env \<Rightarrow> call_request option \<Rightarrow> string \<Rightarrow> string \<Rightarrow> string \<Rightarrow> string \<Rightarrow> time \<Rightarrow> write_gate result" where
  "first_gate E req kind user prompt args_hash now =
     (if ge_key E = [] \<or> \<not> client_can_confirm req then Inr GateWrite
      else case seal (ge_hmac E) (ge_put_state E) (ge_key E)
                  \<lparr>cs_kind = kind, cs_user = user, cs_args = args_hash\<rparr> confirm_ttl now of
             Inl m \<Rightarrow> Inl m
           | Inr token \<Rightarrow> Inr (GateAsk token prompt))"

definition evaluate_write_gate ::
    "'a gate_env \<Rightarrow> call_request option \<Rightarrow> string \<Rightarrow> string \<Rightarrow> string \<Rightarrow> 'a \<Rightarrow> time \<Rightarrow> write_gate result" where
  "evaluate_write_gate E req kind user prompt args now =
     (case hash_args (ge_sha256 E) (ge_marshal E) args of
        Inl m \<Rightarrow> Inl m
      | Inr args_hash \<Rightarrow>
        (case Option.bind req cr_params of
           Some (token, responses) \<Rightarrow>
             if token \<noteq> [] then answered_gate E token responses kind user args_hash now
             else first_gate E req kind user prompt args_hash now
         | None \<Rightarrow> first_gate E req kind user prompt args_hash now))"

section \<open>Cursors\<close>

definition encode_cursor :: "int \<Rightarrow> string" where
  "encode_cursor off = b64_encode (itoa off)"

definition decode_cursor :: "string \<Rightarrow> int result" where
  "decode_cursor cursor =
     (if cursor = [] then Inr 0
      else case b64_decode cursor of
        None \<Rightarrow> Inl ''invalid cursor''
      | Some b \<Rightarrow> (case parse_int b of
                     None \<Rightarrow> Inl ''invalid cursor value''
                   | Some off \<Rightarrow> if off < 0 then Inl ''cursor offset must be non-negative'' else Inr off))"

section \<open>What a signature covers\<close>

lemma colon_not_in_itoa: "CHR '':'' \<notin> set (itoa n)"
proof -
  have "\<not> is_digit (CHR '':'')" by (simp add: is_digit_def)
  then show ?thesis using dec_digits_all [of "nat n"] dec_digits_all [of "nat (- n)"]
    by (auto simp: itoa_def list_all_iff)
qed

text \<open>The part after the last separator determines both halves.\<close>

lemma append_sep_inj:
  fixes c :: char
  assumes "a @ c # b = a' @ c # b'" and "c \<notin> set b" and "c \<notin> set b'"
  shows "a = a' \<and> b = b'"
proof -
  from assms(1) have "rev b @ c # rev a = rev b' @ c # rev a'"
    by (metis append.assoc append_Cons append_Nil rev.simps(2) rev_append)
  then have "cut c (rev b @ c # rev a) = cut c (rev b' @ c # rev a')" by simp
  with assms(2,3) show ?thesis by (simp add: cut_append)
qed

lemma mac_input_inj:
  assumes "mac_input p e = mac_input p' e'" and "in_int64 e" "in_int64 e'"
  shows "p = p' \<and> e = e'"
proof -
  from assms(1) have "(p @ '':exp'') @ CHR '':'' # itoa e = (p' @ '':exp'') @ CHR '':'' # itoa e'"
    by (simp add: mac_input_def)
  from append_sep_inj [OF this colon_not_in_itoa colon_not_in_itoa] show ?thesis
    using itoa_inj [OF assms(2,3)] by auto
qed

lemma hex_no_dot: "CHR ''.'' \<notin> set (hex_encode s)"
proof (induction s)
  case Nil
  then show ?case by simp
next
  case (Cons c s)
  have "hex_digit n \<noteq> CHR ''.''" if "n < 16" for n
  proof -
    from that have "(of_char (hex_digit n) :: nat) = (if n < 10 then 48 + n else 87 + n)"
      by (auto simp: hex_digit_def)
    then show ?thesis by (auto split: if_splits)
  qed
  note nd = this [THEN not_sym]
  show ?case
    using Cons nd [OF of_char_split(1)] nd [OF of_char_split(2)] by (simp add: hex_encode_Cons)
qed

lemma verify_Inr:
  "verify hmac key p e sig now = Inr () \<longleftrightarrow> 0 < e \<and> to_unix now \<le> e \<and> sig = sign hmac key p e"
  by (auto simp: verify_def not_less)

text \<open>What \<^const>\<open>open_token\<close> accepts.\<close>

lemma open_token_Inr:
  "open_token hmac um key tok now = Inr v \<longleftrightarrow>
     (\<exists>enc raw e b. tok = enc @ ''.'' @ raw @ ''.'' @ sign hmac key enc e \<and> CHR ''.'' \<notin> set enc
        \<and> CHR ''.'' \<notin> set raw \<and> parse_int raw = Some e \<and> 0 < e \<and> to_unix now \<le> e
        \<and> b64_decode enc = Some b \<and> um b = Some v)" (is "?l \<longleftrightarrow> ?r")
proof
  assume ?l
  then obtain enc rest where 1: "cut CHR ''.'' tok = Some (enc, rest)"
    by (auto simp: open_token_def split: option.splits)
  with \<open>?l\<close> obtain raw sig where 2: "cut CHR ''.'' rest = Some (raw, sig)"
    by (auto simp: open_token_def split: option.splits)
  with 1 \<open>?l\<close> obtain e where 3: "parse_int raw = Some e"
    by (auto simp: open_token_def split: option.splits)
  with 1 2 \<open>?l\<close> have 4: "verify hmac key enc e sig now = Inr ()"
    by (auto simp: open_token_def split: sum.splits)
  with 1 2 3 \<open>?l\<close> obtain b where 5: "b64_decode enc = Some b" "um b = Some v"
    by (auto simp: open_token_def split: option.splits)
  from 4 have 6: "0 < e" "to_unix now \<le> e" "sig = sign hmac key enc e" by (simp_all add: verify_Inr)
  from cut_Some [OF 1] cut_Some [OF 2] 6(3)
  have "tok = enc @ ''.'' @ raw @ ''.'' @ sign hmac key enc e" "CHR ''.'' \<notin> set enc" "CHR ''.'' \<notin> set raw"
    by simp_all
  with 3 5 6 show ?r by blast
next
  assume ?r
  then show ?l by (auto simp: open_token_def cut_append verify_Inr [THEN iffD2])
qed

lemma b64_decode_no_colon: "b64_decode enc = Some b \<Longrightarrow> CHR '':'' \<notin> set enc"
proof
  assume d: "b64_decode enc = Some b" and "CHR '':'' \<in> set enc"
  then have "CHR '':'' \<in> set (filter (\<lambda>c. of_char c \<noteq> (10::nat) \<and> of_char c \<noteq> (13::nat)) enc)" by simp
  moreover have "b64_value (CHR '':'') = None" by (simp add: b64_value_def)
  ultimately have "None \<in> set (map b64_value (filter (\<lambda>c. of_char c \<noteq> (10::nat) \<and> of_char c \<noteq> (13::nat)) enc))"
    by (auto intro!: image_eqI [of None b64_value "CHR '':''"])
  with d show False by (simp add: b64_decode_def Let_def)
qed

section \<open>Sealed values\<close>

lemma seal_Inr:
  "seal hmac m key v ttl t0 = Inr tok \<longleftrightarrow>
     (\<exists>b. m v = Some b \<and> tok = b64_encode b @ ''.'' @ itoa (to_unix (t0 + ttl)) @ ''.''
            @ sign hmac key (b64_encode b) (to_unix (t0 + ttl)))"
  by (auto simp: seal_def Let_def split: option.splits)

lemma open_sealed:
  assumes "seal hmac m key v ttl t0 = Inr tok" and "\<And>b. m v = Some b \<Longrightarrow> um b = Some v"
    and "0 < to_unix (t0 + ttl)" "in_int64 (to_unix (t0 + ttl))"
  shows "open_token hmac um key tok now
         = (if to_unix now \<le> to_unix (t0 + ttl) then Inr v else Inl ''expired'')"
proof -
  from assms(1) obtain b where b: "m v = Some b" and tok: "tok = b64_encode b @ CHR ''.'' # itoa (to_unix (t0 + ttl))
      @ CHR ''.'' # sign hmac key (b64_encode b) (to_unix (t0 + ttl))"
    by (auto simp: seal_Inr)
  from assms(2) [OF b] assms(3,4) show ?thesis
    by (simp add: open_token_def tok cut_append b64_no_dot dot_not_in_itoa parse_int_itoa verify_def
        b64_round_trip)
qed

text \<open>
  A token opens under a key only if its tag is the MAC of its own body and expiry; the message is that of
  a sealed value exactly when body and expiry are.
\<close>

lemma open_token_message:
  assumes "open_token hmac um key tok now = Inr v"
  obtains enc e b where "suffix (''.'' @ hex_encode (hmac key (mac_input enc e))) tok"
    "prefix (enc @ ''.'') tok" "0 < e" "in_int64 e" "to_unix now \<le> e" "b64_decode enc = Some b" "um b = Some v"
proof -
  from assms obtain enc raw e b where t: "tok = enc @ ''.'' @ raw @ ''.'' @ sign hmac key enc e"
      "parse_int raw = Some e" "0 < e" "to_unix now \<le> e" "b64_decode enc = Some b" "um b = Some v"
    by (auto simp: open_token_Inr)
  have "suffix (''.'' @ hex_encode (hmac key (mac_input enc e))) tok"
    by (auto simp: t(1) sign_def suffix_def intro: exI [of _ "enc @ ''.'' @ raw"])
  moreover have "prefix (enc @ ''.'') tok" by (simp add: t(1))
  ultimately show ?thesis using that t parse_int_in_int64 [OF t(2)] by blast
qed

section \<open>The life of a confirmation\<close>

text \<open>
  The states a key has sealed, with the time of each, and the other messages signed under the same key.
  A token is unforged when the message its tag authenticates has been signed.
\<close>

definition signed_messages ::
    "(confirm_state \<Rightarrow> string option) \<Rightarrow> (confirm_state \<times> time) list \<Rightarrow> (string \<times> int) list \<Rightarrow> string set" where
  "signed_messages put log others =
     {mac_input (b64_encode b) (to_unix (t + confirm_ttl)) | st t b. (st, t) \<in> set log \<and> put st = Some b}
     \<union> (\<lambda>(p, e). mac_input p e) ` set others"

definition unforged :: "mac \<Rightarrow> string \<Rightarrow> string set \<Rightarrow> string \<Rightarrow> bool" where
  "unforged hmac key msgs tok \<longleftrightarrow>
     (\<forall>msg. suffix (''.'' @ hex_encode (hmac key msg)) tok \<longrightarrow> msg \<in> msgs)"

definition codec_ok :: "('a \<Rightarrow> string option) \<Rightarrow> (string \<Rightarrow> 'a option) \<Rightarrow> bool" where
  "codec_ok put get \<longleftrightarrow> (\<forall>v b. put v = Some b \<longrightarrow> get b = Some v)"

definition log_in_range :: "(confirm_state \<times> time) list \<Rightarrow> (string \<times> int) list \<Rightarrow> bool" where
  "log_in_range log others \<longleftrightarrow>
     list_all (\<lambda>(st, t). in_int64 (to_unix (t + confirm_ttl))) log
     \<and> list_all (\<lambda>(p, e). in_int64 e \<and> CHR '':'' \<in> set p) others"

lemma b64_encode_no_colon: "CHR '':'' \<notin> set (b64_encode b)"
  using b64_decode_no_colon [OF b64_round_trip] .

lemma accepted_state_was_sealed:
  assumes "open_token hmac get key tok now = Inr st" and "unforged hmac key (signed_messages put log others) tok"
    and "codec_ok put get" and "log_in_range log others"
  obtains t where "(st, t) \<in> set log" "to_unix now \<le> to_unix (t + confirm_ttl)"
proof -
  from assms(1) obtain enc e b where m: "suffix (''.'' @ hex_encode (hmac key (mac_input enc e))) tok"
      "in_int64 e" "to_unix now \<le> e" "b64_decode enc = Some b" "get b = Some st"
    by (rule open_token_message)
  from assms(2) m(1) have "mac_input enc e \<in> signed_messages put log others" by (auto simp: unforged_def)
  moreover have "mac_input enc e \<notin> (\<lambda>(p, e). mac_input p e) ` set others"
  proof
    assume "mac_input enc e \<in> (\<lambda>(p, e). mac_input p e) ` set others"
    then obtain p e' where p: "(p, e') \<in> set others" "mac_input enc e = mac_input p e'" by auto
    with assms(4) have "in_int64 e'" "CHR '':'' \<in> set p" by (auto simp: log_in_range_def list_all_iff)
    with p(2) mac_input_inj m(2) b64_decode_no_colon [OF m(4)] show False by blast
  qed
  ultimately obtain st' t b' where l: "(st', t) \<in> set log" "put st' = Some b'"
      "mac_input enc e = mac_input (b64_encode b') (to_unix (t + confirm_ttl))"
    by (auto simp: signed_messages_def)
  with assms(4) have "in_int64 (to_unix (t + confirm_ttl))" by (auto simp: log_in_range_def list_all_iff)
  from mac_input_inj [OF l(3) m(2) this] have e: "enc = b64_encode b'" "e = to_unix (t + confirm_ttl)" by auto
  with m(4) have "b = b'" by (simp add: b64_round_trip)
  with l(2) m(5) assms(3) have "st = st'" by (auto simp: codec_ok_def)
  with l(1) m(3) e(2) that show ?thesis by blast
qed

lemma evaluate_write_gate_answered:
  assumes "Option.bind req cr_params = Some (tok, resp)" and "tok \<noteq> []"
  shows "evaluate_write_gate E req kind user prompt args now
         = (case hash_args (ge_sha256 E) (ge_marshal E) args of Inl m \<Rightarrow> Inl m
            | Inr h \<Rightarrow> answered_gate E tok resp kind user h now)"
  using assms by (simp add: evaluate_write_gate_def split: sum.split)

text \<open>C35: Once a client has answered a prompt, a write happens only for an authentic answer: the state was
  sealed less than ten minutes ago for this tool, this user and arguments with this very hash, and the answer
  is "accept".  No other value signed with the same key, such as a download link, can stand in for it.\<close>

theorem confirmed_write_is_bound:
  assumes "Option.bind req cr_params = Some (tok, resp)" and "tok \<noteq> []"
    and "codec_ok (ge_put_state E) (ge_get_state E)" and "log_in_range log others"
    and "unforged (ge_hmac E) (ge_key E) (signed_messages (ge_put_state E) log others) tok"
    and "evaluate_write_gate E req kind user prompt args now = Inr GateWrite"
  shows "resp ''confirm'' = Some (Elicited ''accept'')
         \<and> (\<exists>st t. (st, t) \<in> set log \<and> to_unix now \<le> to_unix (t + confirm_ttl)
              \<and> cs_kind st = kind \<and> cs_user st = user
              \<and> hash_args (ge_sha256 E) (ge_marshal E) args = Inr (cs_args st))"
proof -
  from assms(1,2,6) obtain h where h: "hash_args (ge_sha256 E) (ge_marshal E) args = Inr h"
      and g: "answered_gate E tok resp kind user h now = Inr GateWrite"
    by (auto simp: evaluate_write_gate_answered split: sum.splits)
  from g obtain st where st: "open_token (ge_hmac E) (ge_get_state E) (ge_key E) tok now = Inr st"
    by (auto simp: answered_gate_def split: sum.splits)
  with g have eqs: "cs_kind st = kind" "cs_user st = user" "cs_args st = h"
      and resp: "resp ''confirm'' = Some (Elicited ''accept'')"
    by (auto simp: answered_gate_def split: if_splits option.splits input_response.splits)
  from accepted_state_was_sealed [OF st assms(5,3,4)] obtain t
    where "(st, t) \<in> set log" "to_unix now \<le> to_unix (t + confirm_ttl)" .
  with eqs resp h show ?thesis by blast
qed

text \<open>The two legs of a confirmation fit together: a client that can answer is asked first and nothing is
  written; when it returns the state within ten minutes, accepting writes, anything else declines, and the
  same state is refused for other arguments, another user or another tool.\<close>

theorem confirmation_flow:
  assumes "codec_ok (ge_put_state E) (ge_get_state E)"
    and "ge_put_state E \<lparr>cs_kind = kind, cs_user = user, cs_args = h\<rparr> = Some b"
    and "ge_key E \<noteq> []" and "client_can_confirm req" and "Option.bind req cr_params = None"
    and "hash_args (ge_sha256 E) (ge_marshal E) args = Inr h"
    and "0 < to_unix (t0 + confirm_ttl)" and "in_int64 (to_unix (t0 + confirm_ttl))"
    and "Option.bind req' cr_params = Some (tok', resp)" and "resp ''confirm'' = Some (Elicited action)"
    and "hash_args (ge_sha256 E) (ge_marshal E) args' = Inr h'"
  shows "\<exists>tok. evaluate_write_gate E req kind user prompt args t0 = Inr (GateAsk tok prompt)
         \<and> (tok' = tok \<longrightarrow> evaluate_write_gate E req' kind' user' prompt' args' now
             = (if to_unix now > to_unix (t0 + confirm_ttl) then Inl ''confirmation state rejected''
                else if kind' \<noteq> kind then Inl ''confirmation state is for a different tool''
                else if user' \<noteq> user then Inl ''confirmation state belongs to a different user''
                else if h' \<noteq> h then Inl ''arguments changed since confirmation was requested''
                else Inr (if action = ''accept'' then GateWrite else GateDeclined)))"
proof -
  let ?st = "\<lparr>cs_kind = kind, cs_user = user, cs_args = h\<rparr>"
  obtain tok where tok: "seal (ge_hmac E) (ge_put_state E) (ge_key E) ?st confirm_ttl t0 = Inr tok"
    using assms(2) by (simp add: seal_def Let_def)
  then have ne: "tok \<noteq> []" by (auto simp: seal_Inr)
  have op: "open_token (ge_hmac E) (ge_get_state E) (ge_key E) tok now
            = (if to_unix now \<le> to_unix (t0 + confirm_ttl) then Inr ?st else Inl ''expired'')"
    using assms(1) by (intro open_sealed [OF tok _ assms(7,8)]) (auto simp: codec_ok_def)
  have "evaluate_write_gate E req kind user prompt args t0 = Inr (GateAsk tok prompt)"
    using assms(3-6) tok by (simp add: evaluate_write_gate_def first_gate_def)
  moreover have "evaluate_write_gate E req' kind' user' prompt' args' now
      = answered_gate E tok resp kind' user' h' now" if "tok' = tok"
    using assms(9,11) that ne by (simp add: evaluate_write_gate_answered)
  ultimately show ?thesis using assms(10) op by (auto simp: answered_gate_def not_le)
qed

text \<open>A cursor decodes to the offset it was made from, and no cursor decodes to a negative offset.\<close>

theorem cursor_round_trip:
  assumes "0 \<le> off" and "in_int64 off"
  shows "decode_cursor (encode_cursor off) = Inr off
         \<and> (case decode_cursor any of Inr n \<Rightarrow> 0 \<le> n \<and> in_int64 n | Inl _ \<Rightarrow> True)"
proof
  have "itoa off \<noteq> []" by (simp add: itoa_def)
  then show "decode_cursor (encode_cursor off) = Inr off"
    using assms b64_encode_ne by (simp add: decode_cursor_def encode_cursor_def b64_round_trip parse_int_itoa)
  show "case decode_cursor any of Inr n \<Rightarrow> 0 \<le> n \<and> in_int64 n | Inl _ \<Rightarrow> True"
    by (auto simp: decode_cursor_def in_int64_def dest: parse_int_in_int64 split: option.splits sum.splits)
qed

section \<open>Instances\<close>

text \<open>A toy MAC and toy encodings, to run the theorems on.\<close>

definition demo_mac :: mac where
  "demo_mac key msg = key @ msg"

definition put_state :: "confirm_state \<Rightarrow> string option" where
  "put_state st =
     (if CHR '';'' \<in> set (cs_kind st) \<or> CHR '';'' \<in> set (cs_user st) then None
      else Some (cs_kind st @ '';'' @ cs_user st @ '';'' @ cs_args st))"

definition get_state :: "string \<Rightarrow> confirm_state option" where
  "get_state b =
     (case cut CHR '';'' b of None \<Rightarrow> None
      | Some (k, r) \<Rightarrow> (case cut CHR '';'' r of None \<Rightarrow> None
          | Some (u, a) \<Rightarrow> Some \<lparr>cs_kind = k, cs_user = u, cs_args = a\<rparr>))"

lemma demo_codec: "codec_ok put_state get_state"
  by (auto simp: codec_ok_def put_state_def get_state_def cut_append split: if_splits)

definition demo_gate :: "string gate_env" where
  "demo_gate = \<lparr>ge_hmac = demo_mac, ge_sha256 = (\<lambda>s. s), ge_marshal = Some, ge_put_state = put_state,
     ge_get_state = get_state, ge_key = ''k''\<rparr>"

text \<open>Under the toy MAC a sealed token carries the message it was made from and no other.\<close>

lemma demo_unforged:
  assumes "seal demo_mac put_state ''k'' st confirm_ttl t = Inr tok"
  shows "unforged demo_mac ''k'' (signed_messages put_state [(st, t)] []) tok"
proof -
  from assms obtain b where b: "put_state st = Some b"
    and tok: "tok = (b64_encode b @ ''.'' @ itoa (to_unix (t + confirm_ttl))) @ CHR ''.'' #
                hex_encode (''k'' @ mac_input (b64_encode b) (to_unix (t + confirm_ttl)))"
    by (auto simp: seal_Inr sign_def demo_mac_def)
  have "msg = mac_input (b64_encode b) (to_unix (t + confirm_ttl))"
    if suf: "suffix (''.'' @ hex_encode (''k'' @ msg)) tok" for msg
  proof -
    from suf obtain p where "tok = p @ CHR ''.'' # hex_encode (''k'' @ msg)" by (auto simp: suffix_def)
    with tok have "hex_encode (''k'' @ msg)
        = hex_encode (''k'' @ mac_input (b64_encode b) (to_unix (t + confirm_ttl)))"
      using append_sep_inj hex_no_dot by metis
    then show ?thesis using hex_encode_inj by blast
  qed
  with b show ?thesis by (auto simp: unforged_def signed_messages_def demo_mac_def)
qed

definition demo_state :: confirm_state where
  "demo_state = \<lparr>cs_kind = ''propose_mark_flaky'', cs_user = ''alice'', cs_args = hex_encode ''x''\<rparr>"

definition demo_t :: time where
  "demo_t = of_unix 1000"

definition demo_confirm :: string where
  "demo_confirm = b64_encode (the (put_state demo_state)) @ ''.'' @ itoa 1600 @ ''.''
     @ sign demo_mac ''k'' (b64_encode (the (put_state demo_state))) 1600"

lemma demo_exp: "to_unix (demo_t + confirm_ttl) = 1600"
  by (simp add: demo_t_def confirm_ttl_def to_unix_def of_unix_def)

lemma demo_put: "put_state demo_state = Some (the (put_state demo_state))"
  by (simp add: put_state_def demo_state_def)

lemma demo_seal: "seal demo_mac put_state ''k'' demo_state confirm_ttl demo_t = Inr demo_confirm"
  unfolding seal_Inr demo_exp demo_confirm_def using demo_put by blast

definition demo_answer :: "string \<Rightarrow> call_request option" where
  "demo_answer a = Some \<lparr>cr_params = Some (demo_confirm, [''confirm'' \<mapsto> Elicited a]), cr_elicitation = True\<rparr>"

lemma demo_gate_simps [simp]:
  "ge_hmac demo_gate = demo_mac" "ge_key demo_gate = ''k''" "ge_put_state demo_gate = put_state"
  "ge_get_state demo_gate = get_state" "hash_args (ge_sha256 demo_gate) (ge_marshal demo_gate) a = Inr (hex_encode a)"
  by (simp_all add: demo_gate_def hash_args_def)

lemma demo_answer_bind: "Option.bind (demo_answer a) cr_params = Some (demo_confirm, [''confirm'' \<mapsto> Elicited a])"
  by (simp add: demo_answer_def)

lemma demo_confirm_ne: "demo_confirm \<noteq> []"
  by (simp add: demo_confirm_def)

lemma demo_state_fields: "demo_state = \<lparr>cs_kind = ''propose_mark_flaky'', cs_user = ''alice'', cs_args = hex_encode ''x''\<rparr>"
  by (simp add: demo_state_def)

theorem confirmation_flow_witness:
  "\<exists>tok. evaluate_write_gate demo_gate (Some \<lparr>cr_params = None, cr_elicitation = True\<rparr>)
            ''propose_mark_flaky'' ''alice'' ''Mark it?'' ''x'' demo_t = Inr (GateAsk tok ''Mark it?'')
      \<and> (demo_confirm = tok \<longrightarrow> evaluate_write_gate demo_gate (demo_answer ''accept'')
            ''propose_mark_flaky'' ''alice'' ''Mark it?'' ''x'' demo_t = Inr GateWrite)"
proof -
  have "to_unix demo_t \<le> 1600" by (simp add: demo_t_def)
  with confirmation_flow [where E = demo_gate and kind = "''propose_mark_flaky''" and user = "''alice''"
      and h = "hex_encode ''x''" and req = "Some \<lparr>cr_params = None, cr_elicitation = True\<rparr>"
      and args = "''x''" and ?t0.0 = demo_t and req' = "demo_answer ''accept''" and tok' = demo_confirm
      and resp = "[''confirm'' \<mapsto> Elicited ''accept'']" and action = "''accept''" and args' = "''x''"
      and h' = "hex_encode ''x''" and kind' = "''propose_mark_flaky''" and user' = "''alice''"
      and now = demo_t and prompt = "''Mark it?''" and prompt' = "''Mark it?''"
      and b = "the (put_state demo_state)"]
  show ?thesis
    using demo_codec demo_put demo_exp demo_answer_bind [of "''accept''"]
    by (auto simp: client_can_confirm_def demo_state_fields in_int64_def not_less)
qed

lemma demo_accepts: "evaluate_write_gate demo_gate (demo_answer ''accept'')
    ''propose_mark_flaky'' ''alice'' ''Mark it?'' ''x'' demo_t = Inr GateWrite"
proof -
  have "open_token demo_mac get_state ''k'' demo_confirm demo_t = Inr demo_state"
    using open_sealed [OF demo_seal, of get_state demo_t] demo_codec demo_exp
    by (auto simp: codec_ok_def in_int64_def demo_t_def)
  then show ?thesis
    by (simp add: evaluate_write_gate_answered [OF demo_answer_bind demo_confirm_ne] answered_gate_def
        demo_state_def)
qed

theorem confirmed_write_is_bound_witness:
  "\<exists>st t. (st, t) \<in> set [(demo_state, demo_t)] \<and> to_unix demo_t \<le> to_unix (t + confirm_ttl)
     \<and> cs_kind st = ''propose_mark_flaky'' \<and> cs_user st = ''alice''"
  using confirmed_write_is_bound [OF demo_answer_bind demo_confirm_ne, of demo_gate "[(demo_state, demo_t)]" "[]",
      OF _ _ _ demo_accepts] demo_codec demo_unforged [OF demo_seal] demo_exp
  by (simp add: log_in_range_def in_int64_def)

theorem cursor_round_trip_witness: "decode_cursor (encode_cursor 40) = Inr 40"
  using cursor_round_trip [of 40 "[]"] by (simp add: in_int64_def)

end
