(* ===== verification/Proposals.thy ===== *)
theory Proposals
  imports GoStrings AuditLog
begin

text \<open>
  The three proposal tables, \<open>api/internal/store/pg/defect_proposal.go\<close>, \<open>known_issue_proposal.go\<close> and
  \<open>flaky_proposal.go\<close>, on the schema of migration 0041.  The stores differ in their own columns only, so the
  statements are stated once, over the record of the shared columns, and named per table.

  A nullable column is an option.  The stores write the Go zero value as NULL and read NULL back as the zero
  value, so a test for the zero value is a test for \<open>None\<close>.  \<open>refs\<close> holds the rows that foreign keys may name.
\<close>

section \<open>Rows\<close>

record proposal =
  p_id :: int
  p_project :: int
  p_rationale :: "string option"
  p_proposer :: int
  p_api_key :: "int option"
  p_status :: string
  p_reviewed_by :: "int option"
  p_reviewed_at :: "time option"
  p_created_at :: time

record defect_proposal = proposal +
  dp_hash :: string
  dp_category :: string
  dp_resolution :: "string option"

record issue_proposal = proposal +
  ip_sample :: "string option"
  ip_category :: string
  ip_resolution :: "string option"
  ip_regex :: string
  ip_statuses :: "string list"
  ip_matches :: int

record flaky_proposal = proposal +
  fl_full_name :: string
  fl_history :: string

record 'p table =
  rows :: "'p list"
  next_id :: int

record refs =
  ref_projects :: "int list"
  ref_users :: "int list"
  ref_keys :: "int list"

abbreviation pending :: string where "pending \<equiv> ''pending''"
abbreviation approved :: string where "approved \<equiv> ''approved''"
abbreviation rejected :: string where "rejected \<equiv> ''rejected''"

definition null_str :: "string \<Rightarrow> string option" where
  "null_str s = (if s = [] then None else Some s)"

definition null_int :: "int \<Rightarrow> int option" where
  "null_int n = (if n = 0 then None else Some n)"

section \<open>Statements\<close>

text \<open>
  INSERT ... RETURNING id.  An identity value is drawn even when the row is refused.  The refusals are the
  foreign keys, the CHECK on the status and, for one table, a unique index.
\<close>

definition insert_proposal ::
    "('a proposal_scheme \<Rightarrow> 'a proposal_scheme \<Rightarrow> bool) \<Rightarrow> refs \<Rightarrow> time \<Rightarrow> 'a proposal_scheme
     \<Rightarrow> 'a proposal_scheme table \<Rightarrow> 'a proposal_scheme table \<times> int result" where
  "insert_proposal clash R now p t =
     (let p' = p\<lparr>p_id := next_id t, p_reviewed_by := None, p_reviewed_at := None, p_created_at := now\<rparr>;
          t' = t\<lparr>next_id := next_id t + 1\<rparr>
      in if p_project p \<notin> set (ref_projects R) \<or> p_proposer p \<notin> set (ref_users R)
            \<or> (case p_api_key p of None \<Rightarrow> False | Some k \<Rightarrow> k \<notin> set (ref_keys R))
         then (t', Inl ''foreign key'')
         else if p_status p \<notin> {pending, approved, rejected} then (t', Inl ''check'')
         else if tbl_count (clash p') (rows t) \<noteq> 0 then (t', Inl ''duplicate key'')
         else (t'\<lparr>rows := rows t @ [p']\<rparr>, Inr (next_id t)))"

definition get_proposal :: "int \<Rightarrow> 'a proposal_scheme table \<Rightarrow> 'a proposal_scheme option" where
  "get_proposal i t = tbl_find (\<lambda>p. p_id p = i) (rows t)"

definition page_size :: "int \<Rightarrow> nat" where
  "page_size limit = nat (if limit \<le> 0 then 20 else limit)"

text \<open>The rows of a query for one more than fits, cut to a page with the cursor of the next one.\<close>

definition page :: "nat \<Rightarrow> 'a proposal_scheme list \<Rightarrow> 'a proposal_scheme list \<times> string" where
  "page n items = (if n < length items then (take n items, itoa (p_id (items ! (n - 1)))) else (items, []))"

definition list_pending ::
    "int \<Rightarrow> int \<Rightarrow> string \<Rightarrow> 'a proposal_scheme table \<Rightarrow> ('a proposal_scheme list \<times> string) result" where
  "list_pending project limit cursor t =
     (let found = filter (\<lambda>p. p_project p = project \<and> p_status p = pending) (rows t)
      in case (if cursor = [] then Some found
               else map_option (\<lambda>c. filter (\<lambda>p. p_id p < c) found) (parse_int cursor)) of
           None \<Rightarrow> Inl ''invalid cursor''
         | Some sel \<Rightarrow>
           Inr (page (page_size limit) (take (page_size limit + 1) (sort_key (\<lambda>p. - p_id p) sel))))"

definition list_recent :: "int \<Rightarrow> string \<Rightarrow> int \<Rightarrow> 'a proposal_scheme table \<Rightarrow> 'a proposal_scheme list" where
  "list_recent project st limit t =
     take (page_size limit)
       (sort_key (\<lambda>p. - p_created_at p) (sort_key (\<lambda>p. - p_id p)
         (filter (\<lambda>p. p_project p = project \<and> (st = [] \<or> p_status p = st)) (rows t))))"

definition find_pending ::
    "('a proposal_scheme \<Rightarrow> bool) \<Rightarrow> int \<Rightarrow> 'a proposal_scheme table \<Rightarrow> 'a proposal_scheme option" where
  "find_pending same project t = tbl_find (\<lambda>p. p_project p = project \<and> same p \<and> p_status p = pending) (rows t)"

text \<open>UPDATE ... SET status, reviewed_by_user_id, reviewed_at: the table and the rows affected, or the
  violated foreign key.\<close>

definition review ::
    "refs \<Rightarrow> ('a proposal_scheme \<Rightarrow> bool) \<Rightarrow> string \<Rightarrow> int \<Rightarrow> time \<Rightarrow> 'a proposal_scheme table
     \<Rightarrow> ('a proposal_scheme table \<times> nat) result" where
  "review R sel st reviewer now t =
     (if tbl_count sel (rows t) \<noteq> 0 \<and> reviewer \<notin> set (ref_users R) then Inl ''foreign key''
      else Inr (t\<lparr>rows := tbl_update sel
                  (\<lambda>p. p\<lparr>p_status := st, p_reviewed_by := Some reviewer, p_reviewed_at := Some now\<rparr>) (rows t)\<rparr>,
                tbl_count sel (rows t)))"

definition mark_reviewed ::
    "refs \<Rightarrow> int \<Rightarrow> int \<Rightarrow> string \<Rightarrow> time \<Rightarrow> 'a proposal_scheme table \<Rightarrow> 'a proposal_scheme table \<times> unit result" where
  "mark_reviewed R i reviewer st now t =
     (case review R (\<lambda>p. p_id p = i) st reviewer now t of
        Inl e \<Rightarrow> (t, Inl e)
      | Inr (t', n) \<Rightarrow> if n = 0 then (t, Inl ''not found'') else (t', Inr ()))"

section \<open>The three stores\<close>

definition defect_create ::
    "refs \<Rightarrow> time \<Rightarrow> int \<Rightarrow> string \<Rightarrow> string \<Rightarrow> string \<Rightarrow> string \<Rightarrow> int \<Rightarrow> int \<Rightarrow> string
     \<Rightarrow> defect_proposal table \<Rightarrow> defect_proposal table \<times> int result" where
  "defect_create R now project hash category resolution rationale proposer key st =
     insert_proposal (\<lambda>_ _. False) R now
       \<lparr>p_id = 0, p_project = project, p_rationale = null_str rationale, p_proposer = proposer,
        p_api_key = null_int key, p_status = st, p_reviewed_by = None, p_reviewed_at = None, p_created_at = 0,
        dp_hash = hash, dp_category = category, dp_resolution = null_str resolution\<rparr>"

definition issue_create ::
    "refs \<Rightarrow> time \<Rightarrow> int \<Rightarrow> string \<Rightarrow> string \<Rightarrow> string \<Rightarrow> string \<Rightarrow> string \<Rightarrow> string list option \<Rightarrow> int \<Rightarrow> int
     \<Rightarrow> int \<Rightarrow> string \<Rightarrow> issue_proposal table \<Rightarrow> issue_proposal table \<times> int result" where
  "issue_create R now project sample category resolution rationale regex statuses matches proposer key st =
     insert_proposal (\<lambda>_ _. False) R now
       \<lparr>p_id = 0, p_project = project, p_rationale = null_str rationale, p_proposer = proposer,
        p_api_key = null_int key, p_status = st, p_reviewed_by = None, p_reviewed_at = None, p_created_at = 0,
        ip_sample = null_str sample, ip_category = category, ip_resolution = null_str resolution,
        ip_regex = regex, ip_statuses = (case statuses of None \<Rightarrow> [] | Some l \<Rightarrow> l), ip_matches = matches\<rparr>"

text \<open>\<open>idx_flaky_proposals_pending_unique\<close>.\<close>

definition flaky_clash :: "flaky_proposal \<Rightarrow> flaky_proposal \<Rightarrow> bool" where
  "flaky_clash p q \<longleftrightarrow> p_status p = pending \<and> p_status q = pending \<and> p_project p = p_project q
     \<and> fl_full_name p = fl_full_name q \<and> fl_history p = fl_history q"

definition flaky_create ::
    "refs \<Rightarrow> time \<Rightarrow> int \<Rightarrow> string \<Rightarrow> string \<Rightarrow> string \<Rightarrow> int \<Rightarrow> int \<Rightarrow> string
     \<Rightarrow> flaky_proposal table \<Rightarrow> flaky_proposal table \<times> int result" where
  "flaky_create R now project name history rationale proposer key st =
     insert_proposal flaky_clash R now
       \<lparr>p_id = 0, p_project = project, p_rationale = null_str rationale, p_proposer = proposer,
        p_api_key = null_int key, p_status = st, p_reviewed_by = None, p_reviewed_at = None, p_created_at = 0,
        fl_full_name = name, fl_history = history\<rparr>"

definition defect_duplicate :: "int \<Rightarrow> string \<Rightarrow> string \<Rightarrow> defect_proposal table \<Rightarrow> defect_proposal option" where
  "defect_duplicate project hash category = find_pending (\<lambda>p. dp_hash p = hash \<and> dp_category p = category) project"

definition issue_duplicate :: "int \<Rightarrow> string \<Rightarrow> issue_proposal table \<Rightarrow> issue_proposal option" where
  "issue_duplicate project regex = find_pending (\<lambda>p. ip_regex p = regex) project"

definition flaky_duplicate :: "int \<Rightarrow> string \<Rightarrow> flaky_proposal table \<Rightarrow> flaky_proposal option" where
  "flaky_duplicate project history = find_pending (\<lambda>p. fl_history p = history) project"

text \<open>The queries of each store are the shared ones at its row type.\<close>

definition defect_list_pending ::
    "int \<Rightarrow> int \<Rightarrow> string \<Rightarrow> defect_proposal table \<Rightarrow> (defect_proposal list \<times> string) result" where
  "defect_list_pending = list_pending"

definition issue_list_pending ::
    "int \<Rightarrow> int \<Rightarrow> string \<Rightarrow> issue_proposal table \<Rightarrow> (issue_proposal list \<times> string) result" where
  "issue_list_pending = list_pending"

definition flaky_list_pending ::
    "int \<Rightarrow> int \<Rightarrow> string \<Rightarrow> flaky_proposal table \<Rightarrow> (flaky_proposal list \<times> string) result" where
  "flaky_list_pending = list_pending"

definition defect_list :: "int \<Rightarrow> string \<Rightarrow> int \<Rightarrow> defect_proposal table \<Rightarrow> defect_proposal list" where
  "defect_list = list_recent"

definition issue_list :: "int \<Rightarrow> string \<Rightarrow> int \<Rightarrow> issue_proposal table \<Rightarrow> issue_proposal list" where
  "issue_list = list_recent"

definition flaky_list :: "int \<Rightarrow> string \<Rightarrow> int \<Rightarrow> flaky_proposal table \<Rightarrow> flaky_proposal list" where
  "flaky_list = list_recent"

lemmas store_queries [simp] = defect_list_pending_def issue_list_pending_def flaky_list_pending_def
  defect_list_def issue_list_def flaky_list_def

section \<open>The tables over time\<close>

text \<open>What a table promises: identities are distinct, 64-bit, positive and below the next one, and a row
  is reviewed exactly when it is no longer pending.\<close>

definition row_ok :: "'a proposal_scheme \<Rightarrow> bool" where
  "row_ok p \<longleftrightarrow> p_status p \<in> {pending, approved, rejected}
     \<and> (p_status p = pending \<longleftrightarrow> p_reviewed_by p = None) \<and> (p_reviewed_by p = None \<longleftrightarrow> p_reviewed_at p = None)"

definition table_ok :: "'a proposal_scheme table \<Rightarrow> bool" where
  "table_ok t \<longleftrightarrow> distinct (map p_id (rows t)) \<and> 0 < next_id t
     \<and> list_all (\<lambda>p. 0 < p_id p \<and> p_id p < next_id t \<and> row_ok p) (rows t)"

lemma insert_proposal_ok:
  assumes "table_ok t" and "p_status p = pending"
  shows "table_ok (fst (insert_proposal clash R now p t))"
  using assms
  by (auto simp: table_ok_def insert_proposal_def Let_def row_ok_def list_all_iff)

lemma insert_proposal_rows:
  "rows (fst (insert_proposal clash R now p t)) = rows t \<or>
   (\<exists>p'. rows (fst (insert_proposal clash R now p t)) = rows t @ [p'] \<and> p_id p' = next_id t \<and> p_status p' = p_status p)"
  by (auto simp: insert_proposal_def Let_def)

lemma review_ok:
  assumes "table_ok t" and "review R sel st by now t = Inr (t', n)" and "st \<in> {approved, rejected}"
  shows "table_ok t'"
proof -
  let ?f = "\<lambda>p. p\<lparr>p_status := st, p_reviewed_by := Some by, p_reviewed_at := Some now\<rparr>"
  have t': "t' = t\<lparr>rows := tbl_update sel ?f (rows t)\<rparr>"
    using assms(2) by (auto simp: review_def split: if_splits)
  have "map p_id (tbl_update sel ?f (rows t)) = map p_id (rows t)" by (rule map_key_update) simp
  with assms(1,3) show ?thesis
    by (auto simp: t' table_ok_def list_all_iff tbl_simps row_ok_def)
qed

section \<open>Pages\<close>

text \<open>A client that follows the cursors; \<open>fuel\<close> bounds the number of requests.\<close>

fun walk_pages :: "nat \<Rightarrow> int \<Rightarrow> int \<Rightarrow> string \<Rightarrow> 'a proposal_scheme table \<Rightarrow> 'a proposal_scheme list" where
  "walk_pages 0 project limit cursor t = []"
| "walk_pages (Suc k) project limit cursor t =
     (case list_pending project limit cursor t of
        Inl _ \<Rightarrow> []
      | Inr (items, next) \<Rightarrow> items @ (if next = [] then [] else walk_pages k project limit next t))"

definition newest_pending :: "int \<Rightarrow> 'a proposal_scheme table \<Rightarrow> 'a proposal_scheme list" where
  "newest_pending project t =
     sort_key (\<lambda>p. - p_id p) (filter (\<lambda>p. p_project p = project \<and> p_status p = pending) (rows t))"

lemma page_size_pos: "0 < page_size limit"
  by (simp add: page_size_def)

lemma page_take [simp]: "0 < n \<Longrightarrow> page n (take (Suc n) S) = page n S"
  by (auto simp: page_def min_def)

lemma list_pending_first: "list_pending project limit [] t = Inr (page (page_size limit) (newest_pending project t))"
  by (simp add: list_pending_def newest_pending_def page_size_pos)

lemma list_pending_from:
  assumes "in_int64 c"
  shows "list_pending project limit (itoa c) t
         = Inr (page (page_size limit) (filter (\<lambda>p. p_id p < c) (newest_pending project t)))"
proof -
  have "itoa c \<noteq> []" by (simp add: itoa_def)
  then show ?thesis
    by (simp add: list_pending_def newest_pending_def filter_sort parse_int_itoa [OF assms] page_size_pos
        del: filter_filter)
qed

lemma newest_pending_sorted:
  assumes "table_ok t"
  shows "sorted_wrt (\<lambda>p q. p_id q < p_id p) (newest_pending project t)"
proof -
  let ?S = "newest_pending project t"
  have "distinct (map p_id (rows t))" using assms by (simp add: table_ok_def)
  then have d: "distinct ?S" and i: "inj_on p_id (set ?S)"
    unfolding newest_pending_def distinct_map by (auto intro: inj_on_subset)
  have "inj_on (\<lambda>p. - p_id p) (set ?S)" using i by (simp add: inj_on_def)
  with d have "distinct (map (\<lambda>p. - p_id p) ?S)" by (simp only: distinct_map)
  moreover have "sorted (map (\<lambda>p. - p_id p) ?S)" by (simp add: newest_pending_def)
  ultimately have "sorted_wrt (<) (map (\<lambda>p. - p_id p) ?S)" by (simp add: strict_sorted_iff)
  then show ?thesis by (simp add: sorted_wrt_map)
qed

text \<open>Below the id of an element of a strictly descending list is what follows it.\<close>

lemma filter_below:
  assumes "sorted_wrt (\<lambda>p q. p_id q < p_id p) (A @ x # B)"
  shows "filter (\<lambda>p. p_id p < p_id x) (A @ x # B) = B"
proof -
  from assms have "\<forall>a \<in> set A. p_id x < p_id a" and "\<forall>b \<in> set B. p_id b < p_id x"
    by (simp_all add: sorted_wrt_append)
  then have "filter (\<lambda>p. p_id p < p_id x) A = []" and "filter (\<lambda>p. p_id p < p_id x) B = B"
    by (force simp: filter_empty_conv, simp add: filter_id_conv)
  then show ?thesis by simp
qed

lemma walk_from:
  assumes "sorted_wrt (\<lambda>p q. p_id q < p_id p) (newest_pending project t)"
    and "\<forall>p \<in> set (rows t). in_int64 (p_id p)"
    and "newest_pending project t = A @ x # B" and "length B < k"
  shows "walk_pages k project limit (itoa (p_id x)) t = B"
  using assms(3,4)
proof (induction k arbitrary: A x B)
  case 0
  then show ?case by simp
next
  case (Suc k)
  let ?n = "page_size limit"
  have x: "in_int64 (p_id x)"
  proof -
    have "x \<in> set (newest_pending project t)" using Suc.prems(1) by simp
    then show ?thesis using assms(2) by (simp add: newest_pending_def)
  qed
  have below: "filter (\<lambda>p. p_id p < p_id x) (newest_pending project t) = B"
    using filter_below assms(1) unfolding Suc.prems(1) by blast
  show ?case
  proof (cases "?n < length B")
    case False
    with x below show ?thesis by (simp add: list_pending_from page_def)
  next
    case True
    define y where "y = B ! (?n - 1)"
    have B: "B = take (?n - 1) B @ y # drop ?n B"
      using id_take_nth_drop [of "?n - 1" B] True page_size_pos [of limit] by (simp add: y_def)
    then have "newest_pending project t = (A @ x # take (?n - 1) B) @ y # drop ?n B"
      using Suc.prems(1) by simp
    moreover have "length (drop ?n B) < k" using Suc.prems(2) page_size_pos [of limit] True by simp
    ultimately have "walk_pages k project limit (itoa (p_id y)) t = drop ?n B" by (rule Suc.IH)
    moreover have "itoa (p_id y) \<noteq> []" by (simp add: itoa_def)
    ultimately show ?thesis
      using True x below by (simp add: list_pending_from page_def y_def)
  qed
qed

text \<open>Following the cursors from the first page lists every pending proposal of the project exactly
  once, newest first, whatever the page size; as many requests as there are proposals are enough.\<close>

theorem pages_complete:
  assumes "table_ok t" and "\<forall>p \<in> set (rows t). in_int64 (p_id p)"
    and "length (newest_pending project t) < k"
  shows "walk_pages k project limit [] t = newest_pending project t"
proof (cases k)
  case 0
  with assms(3) show ?thesis by simp
next
  case (Suc m)
  let ?n = "page_size limit" and ?S = "newest_pending project t"
  show ?thesis
  proof (cases "?n < length ?S")
    case False
    then show ?thesis by (simp add: Suc list_pending_first page_def)
  next
    case True
    define y where "y = ?S ! (?n - 1)"
    have "?S = take (?n - 1) ?S @ y # drop ?n ?S"
      using id_take_nth_drop [of "?n - 1" ?S] True page_size_pos [of limit] by (simp add: y_def)
    moreover have "length (drop ?n ?S) < m" using assms(3) Suc page_size_pos [of limit] True by simp
    ultimately have "walk_pages m project limit (itoa (p_id y)) t = drop ?n ?S"
      by (rule walk_from [OF newest_pending_sorted [OF assms(1)] assms(2)])
    moreover have "itoa (p_id y) \<noteq> []" by (simp add: itoa_def)
    ultimately show ?thesis using True by (simp add: Suc list_pending_first page_def y_def)
  qed
qed

definition demo_refs :: refs where
  "demo_refs = \<lparr>ref_projects = [1], ref_users = [7], ref_keys = [3]\<rparr>"

definition demo_flaky :: "flaky_proposal table" where
  "demo_flaky = fst (flaky_create demo_refs 20 1 ''t2'' ''h2'' [] 7 0 pending
     (fst (flaky_create demo_refs 10 1 ''t1'' ''h1'' ''seen'' 7 3 pending \<lparr>rows = [], next_id = 1\<rparr>)))"

lemma demo_flaky_rows: "map p_id (rows demo_flaky) = [1, 2]" "next_id demo_flaky = 3"
    "map p_status (rows demo_flaky) = [pending, pending]" "map p_project (rows demo_flaky) = [1, 1]"
  by (simp_all add: demo_flaky_def flaky_create_def insert_proposal_def demo_refs_def null_int_def null_str_def
      tbl_count_def flaky_clash_def)

lemma demo_flaky_ok: "table_ok demo_flaky"
  unfolding demo_flaky_def flaky_create_def
  by (intro insert_proposal_ok) (simp_all add: table_ok_def)

theorem pages_complete_witness: "walk_pages 3 1 1 [] demo_flaky = newest_pending 1 demo_flaky
    \<and> map p_id (newest_pending 1 demo_flaky) = [2, 1]"
proof
  obtain a b where ab: "rows demo_flaky = [a, b]" "p_id a = 1" "p_id b = 2" "p_status a = pending"
      "p_status b = pending" "p_project a = 1" "p_project b = 1"
    using demo_flaky_rows by (auto simp: map_eq_Cons_conv)
  show "map p_id (newest_pending 1 demo_flaky) = [2, 1]" by (simp add: newest_pending_def ab)
  show "walk_pages 3 1 1 [] demo_flaky = newest_pending 1 demo_flaky"
    by (rule pages_complete [OF demo_flaky_ok]) (simp_all add: newest_pending_def ab in_int64_def)
qed

end
