(* ===== verification/Review.thy ===== *)
theory Review
  imports Proposals
begin

text \<open>
  \<open>api/internal/handlers/proposals.go\<close>: listing, approving and rejecting proposals.  An approval reads the
  proposal first and runs its transaction later; the two moments are the two database arguments \<open>seen\<close> and
  \<open>db\<close>, equal when nothing commits in between.  \<open>fails\<close> names the calls that fail for a request; a
  transaction that does not commit leaves \<open>db\<close> as it is.

  \<open>known_issues\<close> has one unique index, its primary key (migrations 0002 and 0031), which decides what
  \<open>ON CONFLICT (project_id, test_name)\<close> does.
\<close>

section \<open>State\<close>

record fingerprint =
  fp_project :: int
  fp_hash :: string
  fp_category :: string
  fp_resolution :: string
  fp_updated :: time

record known_issue =
  ki_id :: int
  ki_project :: int
  ki_test_name :: string
  ki_pattern :: string
  ki_ticket :: string
  ki_description :: string
  ki_active :: bool
  ki_created :: time
  ki_updated :: time

record issue_test_row =
  tr_id :: int
  tr_project :: int
  tr_history :: string
  tr_full_name :: string
  tr_flaky :: bool

record review_db =
  rv_refs :: refs
  rv_defects :: "defect_proposal table"
  rv_issues :: "issue_proposal table"
  rv_flaky :: "flaky_proposal table"
  rv_prints :: "fingerprint list"
  rv_known :: "known_issue list"
  rv_next_known :: int
  rv_results :: "issue_test_row list"
  rv_audit :: "audit_event list"

datatype proposal_type = PDefect | PKnownIssue | PFlaky

definition parse_proposal_type :: "string \<Rightarrow> proposal_type option" where
  "parse_proposal_type t =
     (if t = ''defect'' then Some PDefect else if t = ''known_issue'' then Some PKnownIssue
      else if t = ''flaky'' then Some PFlaky else None)"

text \<open>The subject claim, \<open>None\<close> without claims.\<close>

definition actor_from_context :: "string option \<Rightarrow> int option \<times> string" where
  "actor_from_context sub = (case sub of None \<Rightarrow> (None, []) | Some s \<Rightarrow> (parse_int s, s))"

section \<open>Approving\<close>

definition review_event :: "string \<Rightarrow> int \<Rightarrow> int option \<Rightarrow> string \<Rightarrow> (string \<times> meta) list \<Rightarrow> audit_event" where
  "review_event act i actor label m =
     \<lparr>ev_action = act, ev_outcome = ''success'', ev_actor = actor, ev_label = label,
      ev_target_type = ''proposal'', ev_target = itoa i, ev_meta = m\<rparr>"

text \<open>What the three approvals share: the checks, the transaction with the change in it, the reply.  \<open>apply\<close>
  is the change and \<open>put\<close> writes the proposal table back.\<close>

definition approve_with ::
    "(string \<Rightarrow> bool) \<Rightarrow> time \<Rightarrow> int \<Rightarrow> int option \<Rightarrow> string
     \<Rightarrow> (review_db \<Rightarrow> 'a proposal_scheme table) \<Rightarrow> ('a proposal_scheme table \<Rightarrow> review_db \<Rightarrow> review_db)
     \<Rightarrow> ('a proposal_scheme \<Rightarrow> review_db \<Rightarrow> review_db result) \<Rightarrow> ('a proposal_scheme \<Rightarrow> (string \<times> meta) list)
     \<Rightarrow> review_db \<Rightarrow> review_db \<Rightarrow> review_db \<times> (int \<times> string) reply" where
  "approve_with fails now i actor label get put apply metadata seen db =
     (case (if fails ''get'' then None else get_proposal i (get seen)) of
        None \<Rightarrow> (db, write_error 404 ''proposal not found'')
      | Some p \<Rightarrow>
        (if p_status p \<noteq> pending then (db, write_error 409 ''proposal is not pending'')
         else if fails ''begin'' then (db, write_error 500 ''transaction error'')
         else case (if fails ''apply'' then Inl ''failed'' else apply p db) of
           Inl _ \<Rightarrow> (db, write_error 500 ''error applying proposal'')
         | Inr db1 \<Rightarrow>
           (case (if fails ''mark'' then Inl ''failed''
                  else review (rv_refs db1) (\<lambda>p. p_id p = i) approved (case actor of None \<Rightarrow> 0 | Some a \<Rightarrow> a)
                         now (get db1)) of
              Inl _ \<Rightarrow> (db, write_error 500 ''error marking proposal approved'')
            | Inr (t, _) \<Rightarrow>
              (if fails ''audit'' then (db, write_error 500 ''error writing audit log'')
               else if fails ''commit'' then (db, write_error 500 ''transaction commit failed'')
               else let db2 = put t db1 in
                 (db2\<lparr>rv_audit := rv_audit db2 @ [review_event ''mcp.proposal_approve'' i actor label (metadata p)]\<rparr>,
                  write_ok 200 ''Proposal approved'' (i, approved))))))"

definition apply_defect :: "time \<Rightarrow> defect_proposal \<Rightarrow> review_db \<Rightarrow> review_db result" where
  "apply_defect now p db =
     Inr (db\<lparr>rv_prints := tbl_update (\<lambda>f. fp_hash f = dp_hash p \<and> fp_project f = p_project p)
                (\<lambda>f. f\<lparr>fp_category := dp_category p,
                        fp_resolution := (case dp_resolution p of None \<Rightarrow> fp_resolution f | Some r \<Rightarrow> r),
                        fp_updated := now\<rparr>) (rv_prints db)\<rparr>)"

text \<open>
  \<open>INSERT ... ON CONFLICT (cols) DO UPDATE\<close>: PostgreSQL refuses the statement when no unique index is on
  exactly these columns.
\<close>

definition known_issue_indexes :: "string list list" where
  "known_issue_indexes = [[''id'']]"

definition apply_known_issue :: "time \<Rightarrow> issue_proposal \<Rightarrow> review_db \<Rightarrow> review_db result" where
  "apply_known_issue now p db =
     (let name = (case ip_sample p of None \<Rightarrow> ip_regex p | Some m \<Rightarrow> m);
          description = (case p_rationale p of None \<Rightarrow> [] | Some r \<Rightarrow> r);
          same = (\<lambda>k. ki_project k = p_project p \<and> ki_test_name k = name)
      in if [''project_id'', ''test_name''] \<notin> set known_issue_indexes
         then Inl ''no unique constraint matching the ON CONFLICT specification''
         else if p_project p \<notin> set (ref_projects (rv_refs db)) then Inl ''foreign key''
         else if tbl_count same (rv_known db) \<noteq> 0
         then Inr (db\<lparr>rv_known := tbl_update same
                     (\<lambda>k. k\<lparr>ki_pattern := ip_regex p, ki_description := description, ki_active := True,
                             ki_updated := now\<rparr>) (rv_known db),
                     rv_next_known := rv_next_known db + 1\<rparr>)
         else Inr (db\<lparr>rv_known := rv_known db @
                     [\<lparr>ki_id = rv_next_known db, ki_project = p_project p, ki_test_name = name,
                       ki_pattern = ip_regex p, ki_ticket = [], ki_description = description, ki_active = True,
                       ki_created = now, ki_updated = now\<rparr>],
                     rv_next_known := rv_next_known db + 1\<rparr>))"

text \<open>The newest matching result, by id.\<close>

definition newest_result :: "flaky_proposal \<Rightarrow> issue_test_row list \<Rightarrow> int option" where
  "newest_result p rs =
     (let ids = map tr_id (filter (\<lambda>r. tr_project r = p_project p \<and> tr_history r = fl_history p
                                     \<and> tr_full_name r = fl_full_name p) rs)
      in if ids = [] then None else Some (Max (set ids)))"

definition apply_flaky :: "flaky_proposal \<Rightarrow> review_db \<Rightarrow> review_db result" where
  "apply_flaky p db =
     Inr (case newest_result p (rv_results db) of
            None \<Rightarrow> db
          | Some i \<Rightarrow> db\<lparr>rv_results := tbl_update (\<lambda>r. tr_id r = i) (\<lambda>r. r\<lparr>tr_flaky := True\<rparr>) (rv_results db)\<rparr>)"

definition approve_defect ::
    "(string \<Rightarrow> bool) \<Rightarrow> time \<Rightarrow> int \<Rightarrow> int option \<Rightarrow> string \<Rightarrow> review_db \<Rightarrow> review_db \<Rightarrow> review_db \<times> (int \<times> string) reply" where
  "approve_defect fails now i actor label =
     approve_with fails now i actor label rv_defects (\<lambda>t db. db\<lparr>rv_defects := t\<rparr>) (apply_defect now)
       (\<lambda>p. [(''proposal_id'', MInt i), (''fingerprint_hash'', MStr (dp_hash p)),
             (''proposed_category'', MStr (dp_category p))])"

definition approve_known_issue ::
    "(string \<Rightarrow> bool) \<Rightarrow> time \<Rightarrow> int \<Rightarrow> int option \<Rightarrow> string \<Rightarrow> review_db \<Rightarrow> review_db \<Rightarrow> review_db \<times> (int \<times> string) reply" where
  "approve_known_issue fails now i actor label =
     approve_with fails now i actor label rv_issues (\<lambda>t db. db\<lparr>rv_issues := t\<rparr>) (apply_known_issue now)
       (\<lambda>p. [(''proposal_id'', MInt i), (''regex_pattern'', MStr (ip_regex p)), (''project_id'', MInt (p_project p))])"

definition approve_flaky ::
    "(string \<Rightarrow> bool) \<Rightarrow> time \<Rightarrow> int \<Rightarrow> int option \<Rightarrow> string \<Rightarrow> review_db \<Rightarrow> review_db \<Rightarrow> review_db \<times> (int \<times> string) reply" where
  "approve_flaky fails now i actor label =
     approve_with fails now i actor label rv_flaky (\<lambda>t db. db\<lparr>rv_flaky := t\<rparr>) apply_flaky
       (\<lambda>p. [(''proposal_id'', MInt i), (''test_full_name'', MStr (fl_full_name p)),
             (''history_id'', MStr (fl_history p))])"

text \<open>The path parameters \<open>type\<close> and \<open>id\<close>.\<close>

definition path_target :: "string \<Rightarrow> string \<Rightarrow> 'b reply + (proposal_type \<times> int)" where
  "path_target ty raw =
     (case parse_proposal_type ty of
        None \<Rightarrow> Inl (write_error 400 ''type must be one of: defect, known_issue, flaky'')
      | Some pt \<Rightarrow>
        (case parse_int raw of
           None \<Rightarrow> Inl (write_error 400 ''proposal id must be a positive integer'')
         | Some i \<Rightarrow> if i < 1 then Inl (write_error 400 ''proposal id must be a positive integer'') else Inr (pt, i)))"

definition approve_proposal ::
    "(string \<Rightarrow> bool) \<Rightarrow> time \<Rightarrow> string \<Rightarrow> string \<Rightarrow> string option \<Rightarrow> review_db \<Rightarrow> review_db
     \<Rightarrow> review_db \<times> (int \<times> string) reply" where
  "approve_proposal fails now ty raw sub seen db =
     (case path_target ty raw of
        Inl r \<Rightarrow> (db, r)
      | Inr (pt, i) \<Rightarrow>
        (case actor_from_context sub of (actor, label) \<Rightarrow>
          (case pt of
             PDefect \<Rightarrow> approve_defect fails now i actor label seen db
           | PKnownIssue \<Rightarrow> approve_known_issue fails now i actor label seen db
           | PFlaky \<Rightarrow> approve_flaky fails now i actor label seen db)))"

section \<open>Rejecting\<close>

definition reject_with ::
    "(string \<Rightarrow> bool) \<Rightarrow> time \<Rightarrow> int \<Rightarrow> int option \<Rightarrow> string \<Rightarrow> (string \<times> meta) list
     \<Rightarrow> (review_db \<Rightarrow> 'a proposal_scheme table) \<Rightarrow> ('a proposal_scheme table \<Rightarrow> review_db \<Rightarrow> review_db)
     \<Rightarrow> review_db \<Rightarrow> review_db \<times> (int \<times> string) reply" where
  "reject_with fails now i actor label metadata get put db =
     (if fails ''begin'' then (db, write_error 500 ''transaction error'')
      else case (if fails ''mark'' then Inl ''failed''
                 else review (rv_refs db) (\<lambda>p. p_id p = i \<and> p_status p = pending) rejected
                        (case actor of None \<Rightarrow> 0 | Some a \<Rightarrow> a) now (get db)) of
        Inl _ \<Rightarrow> (db, write_error 500 ''error rejecting proposal'')
      | Inr (t, n) \<Rightarrow>
        (if n = 0 then (db, write_error 409 ''proposal not found or is not pending'')
         else if fails ''audit'' then (db, write_error 500 ''error writing audit log'')
         else if fails ''commit'' then (db, write_error 500 ''transaction commit failed'')
         else let db1 = put t db in
           (db1\<lparr>rv_audit := rv_audit db1 @ [review_event ''mcp.proposal_reject'' i actor label metadata]\<rparr>,
            write_ok 200 ''Proposal rejected'' (i, rejected))))"

definition type_name :: "proposal_type \<Rightarrow> string" where
  "type_name pt = (case pt of PDefect \<Rightarrow> ''defect'' | PKnownIssue \<Rightarrow> ''known_issue'' | PFlaky \<Rightarrow> ''flaky'')"

definition reject_proposal ::
    "(string \<Rightarrow> bool) \<Rightarrow> time \<Rightarrow> string \<Rightarrow> string \<Rightarrow> string \<Rightarrow> string option \<Rightarrow> review_db \<Rightarrow> review_db \<times> (int \<times> string) reply" where
  "reject_proposal fails now ty raw reason sub db =
     (case path_target ty raw of
        Inl r \<Rightarrow> (db, r)
      | Inr (pt, i) \<Rightarrow>
        (case actor_from_context sub of (actor, label) \<Rightarrow>
          (let m = [(''proposal_id'', MInt i), (''proposal_type'', MStr (type_name pt)), (''reason'', MStr reason)]
           in case pt of
                PDefect \<Rightarrow> reject_with fails now i actor label m rv_defects (\<lambda>t db. db\<lparr>rv_defects := t\<rparr>) db
              | PKnownIssue \<Rightarrow> reject_with fails now i actor label m rv_issues (\<lambda>t db. db\<lparr>rv_issues := t\<rparr>) db
              | PFlaky \<Rightarrow> reject_with fails now i actor label m rv_flaky (\<lambda>t db. db\<lparr>rv_flaky := t\<rparr>) db)))"

section \<open>Listing\<close>

text \<open>An item: the row without its key, and the key for administrators, 0 when there is none.\<close>

definition sanitise :: "bool \<Rightarrow> 'a proposal_scheme \<Rightarrow> 'a proposal_scheme \<times> int option" where
  "sanitise admin p =
     (p\<lparr>p_api_key := None\<rparr>,
      if admin then Some (case p_api_key p of None \<Rightarrow> 0 | Some k \<Rightarrow> k) else None)"

datatype listing =
    NoItems
  | DefectItems "(defect_proposal \<times> int option) list" string
  | IssueItems "(issue_proposal \<times> int option) list" string
  | FlakyItems "(flaky_proposal \<times> int option) list" string

definition list_limit :: "string \<Rightarrow> int" where
  "list_limit raw =
     (let v = (if raw = [] then 50 else case parse_int raw of Some v \<Rightarrow> if v > 0 then v else 50 | None \<Rightarrow> 50)
      in if v > 200 then 200 else v)"

text \<open>The project of a listing: 0 when it is not named.\<close>

definition list_project :: "proposal_type \<Rightarrow> string \<Rightarrow> int result" where
  "list_project pt raw =
     (if raw = [] then (if pt = PFlaky then Inr 0 else Inl ''project_id is required for this proposal type'')
      else case parse_int raw of
             None \<Rightarrow> Inl ''project_id must be a positive integer''
           | Some v \<Rightarrow> if v < 1 then Inl ''project_id must be a positive integer'' else Inr v)"

definition listing_of ::
    "bool \<Rightarrow> bool \<Rightarrow> (('a proposal_scheme \<times> int option) list \<Rightarrow> string \<Rightarrow> listing)
     \<Rightarrow> ('a proposal_scheme list \<times> string) result \<Rightarrow> listing reply" where
  "listing_of fault admin mk r =
     (case (if fault then Inl ''failed'' else r) of
        Inl _ \<Rightarrow> write_error 500 ''error listing proposals''
      | Inr (items, next) \<Rightarrow> write_ok 200 [] (mk (map (sanitise admin) items) next))"

definition list_proposals ::
    "(string \<Rightarrow> bool) \<Rightarrow> string \<Rightarrow> (string \<Rightarrow> string) \<Rightarrow> string option \<Rightarrow> review_db \<Rightarrow> listing reply" where
  "list_proposals fails ty query role db =
     (case parse_proposal_type ty of
        None \<Rightarrow> write_error 400 ''type must be one of: defect, known_issue, flaky''
      | Some pt \<Rightarrow>
        (case list_project pt (query ''project_id'') of
           Inl m \<Rightarrow> write_error 400 m
         | Inr project \<Rightarrow>
           (let limit = list_limit (query ''limit''); cursor = query ''cursor''; admin = (role = Some ''admin'')
            in if query ''status'' \<noteq> [] \<and> query ''status'' \<noteq> pending then write_ok 200 [] NoItems
               else case pt of
                 PDefect \<Rightarrow> listing_of (fails ''list'') admin DefectItems (defect_list_pending project limit cursor (rv_defects db))
               | PKnownIssue \<Rightarrow> listing_of (fails ''list'') admin IssueItems (issue_list_pending project limit cursor (rv_issues db))
               | PFlaky \<Rightarrow> listing_of (fails ''list'') admin FlakyItems (flaky_list_pending project limit cursor (rv_flaky db)))))"

section \<open>Results of one request\<close>

lemma review_Inr:
  assumes "review R sel st by now t = Inr (t', n)"
  shows "rows t' = tbl_update sel (\<lambda>p. p\<lparr>p_status := st, p_reviewed_by := Some by, p_reviewed_at := Some now\<rparr>) (rows t)"
    and "next_id t' = next_id t" and "n = tbl_count sel (rows t)" and "n \<noteq> 0 \<Longrightarrow> by \<in> set (ref_users R)"
  using assms by (auto simp: review_def split: if_splits)

lemma get_review_other:
  assumes "review R sel st by now t = Inr (t', n)" and "get_proposal j t = Some p" and "\<not> sel p"
  shows "get_proposal j t' = Some p"
  using tbl_find_update_any [of p_id "\<lambda>p. p\<lparr>p_status := st, p_reviewed_by := Some by, p_reviewed_at := Some now\<rparr>" j sel "rows t"]
    assms review_Inr(1) [OF assms(1)] by (simp add: get_proposal_def)

lemma get_proposal_id: "get_proposal i t = Some p \<Longrightarrow> p_id p = i"
  by (auto simp: get_proposal_def dest: tbl_find_Some)

text \<open>An approval either replies 200, having read a pending proposal, applied the change, reviewed the row and
  appended one event, or leaves the database alone.\<close>

lemma approve_with_cases:
  obtains (refused) "fst (approve_with fails now i actor label get put apply metadata seen db) = db"
      "status (snd (approve_with fails now i actor label get put apply metadata seen db)) \<in> {404, 409, 500}"
  | (applied) p db1 t n where
      "get_proposal i (get seen) = Some p" "p_status p = pending" "apply p db = Inr db1"
      "review (rv_refs db1) (\<lambda>p. p_id p = i) approved (case actor of None \<Rightarrow> 0 | Some a \<Rightarrow> a) now (get db1) = Inr (t, n)"
      "approve_with fails now i actor label get put apply metadata seen db =
         ((put t db1)\<lparr>rv_audit := rv_audit (put t db1)
             @ [review_event ''mcp.proposal_approve'' i actor label (metadata p)]\<rparr>,
          write_ok 200 ''Proposal approved'' (i, approved))"
proof (cases "(if fails ''get'' then None else get_proposal i (get seen))")
  case None
  then show ?thesis by (intro refused) (simp_all add: approve_with_def)
next
  case (Some p)
  then have g: "get_proposal i (get seen) = Some p" "\<not> fails ''get''" by (auto split: if_splits)
  show ?thesis
  proof (cases "p_status p \<noteq> pending \<or> fails ''begin'' \<or> fails ''apply'' \<or> (\<exists>e. apply p db = Inl e)")
    case True
    then show ?thesis using g by (intro refused) (auto simp: approve_with_def)
  next
    case False
    then obtain db1 where a: "apply p db = Inr db1" by (metis obj_sumE)
    let ?r = "review (rv_refs db1) (\<lambda>p. p_id p = i) approved (case actor of None \<Rightarrow> 0 | Some a \<Rightarrow> a) now (get db1)"
    show ?thesis
    proof (cases "fails ''mark'' \<or> fails ''audit'' \<or> fails ''commit'' \<or> (\<exists>e. ?r = Inl e)")
      case True
      then show ?thesis using g a False
        by (intro refused) (auto simp: approve_with_def split: sum.split)
    next
      case m: False
      then obtain t n where r: "?r = Inr (t, n)" by (metis obj_sumE surj_pair)
      with m g a False show ?thesis
        by (intro applied [OF g(1) _ a r]) (simp_all add: approve_with_def Let_def)
    qed
  qed
qed

lemma reject_with_cases:
  obtains (refused) "fst (reject_with fails now i actor label m get put db) = db"
      "status (snd (reject_with fails now i actor label m get put db)) \<in> {409, 500}"
  | (applied) t n where "n \<noteq> 0"
      "review (rv_refs db) (\<lambda>p. p_id p = i \<and> p_status p = pending) rejected
         (case actor of None \<Rightarrow> 0 | Some a \<Rightarrow> a) now (get db) = Inr (t, n)"
      "reject_with fails now i actor label m get put db =
         ((put t db)\<lparr>rv_audit := rv_audit (put t db) @ [review_event ''mcp.proposal_reject'' i actor label m]\<rparr>,
          write_ok 200 ''Proposal rejected'' (i, rejected))"
proof -
  define r where "r = review (rv_refs db) (\<lambda>p. p_id p = i \<and> p_status p = pending) rejected
         (case actor of None \<Rightarrow> 0 | Some a \<Rightarrow> a) now (get db)"
  note def = reject_with_def [of fails now i actor label m get put db, folded r_def]
  show ?thesis
  proof (cases r)
    case (Inl e)
    then show ?thesis by (intro refused) (simp_all add: def)
  next
    case (Inr tn)
    then obtain t n where r: "r = Inr (t, n)" by (metis surj_pair)
    show ?thesis
    proof (cases "fails ''begin'' \<or> fails ''mark'' \<or> n = 0 \<or> fails ''audit'' \<or> fails ''commit''")
      case True
      with r show ?thesis by (intro refused) (auto simp: def)
    next
      case False
      with r show ?thesis
        by (intro applied [of n t]) (simp_all add: def r_def [symmetric] Let_def)
    qed
  qed
qed

section \<open>Reviews are final\<close>

datatype review_op =
    RApprove "string \<Rightarrow> bool" time string string "string option"
  | RReject "string \<Rightarrow> bool" time string string string "string option"

text \<open>Requests one after the other: an approval sees the database its transaction runs on.\<close>

fun review_step :: "review_op \<Rightarrow> review_db \<Rightarrow> review_db" where
  "review_step (RApprove fails now ty raw sub) db = fst (approve_proposal fails now ty raw sub db db)"
| "review_step (RReject fails now ty raw reason sub) db = fst (reject_proposal fails now ty raw reason sub db)"

text \<open>Whatever is reviewed in the first table is the same row in the second.\<close>

definition settled_in :: "'a proposal_scheme table \<Rightarrow> 'a proposal_scheme table \<Rightarrow> bool" where
  "settled_in t t' \<longleftrightarrow> (\<forall>i p. get_proposal i t = Some p \<longrightarrow> p_status p \<noteq> pending \<longrightarrow> get_proposal i t' = Some p)"

definition settled :: "review_db \<Rightarrow> review_db \<Rightarrow> bool" where
  "settled db db' \<longleftrightarrow> settled_in (rv_defects db) (rv_defects db') \<and> settled_in (rv_issues db) (rv_issues db')
     \<and> settled_in (rv_flaky db) (rv_flaky db')"

lemma settled_refl [simp]: "settled_in t t"
  by (simp add: settled_in_def)

lemma settled_trans: "settled a b \<Longrightarrow> settled b c \<Longrightarrow> settled a c"
  unfolding settled_def settled_in_def by meson

lemma settled_review:
  assumes "review R sel st by now t = Inr (t', n)" and "\<And>p. p \<in> set (rows t) \<Longrightarrow> sel p \<Longrightarrow> p_status p = pending"
  shows "settled_in t t'"
  unfolding settled_in_def
proof (intro allI impI)
  fix i p assume p: "get_proposal i t = Some p" "p_status p \<noteq> pending"
  then have "p \<in> set (rows t)" by (auto simp: get_proposal_def dest: tbl_find_Some)
  with p(2) assms(2) have "\<not> sel p" by blast
  then show "get_proposal i t' = Some p" by (rule get_review_other [OF assms(1) p(1)])
qed

text \<open>An approval selects by id; ids are distinct, so the selected row is the one it found pending.\<close>

lemma pending_by_id:
  assumes "distinct (map p_id (rows t))" and "get_proposal i t = Some p" and "p_status p = pending"
    and "q \<in> set (rows t)" and "p_id q = i"
  shows "p_status q = pending"
  using tbl_find_distinct [OF assms(1,4)] assms(2,3,5) by (simp add: get_proposal_def)

definition ids_ok :: "review_db \<Rightarrow> bool" where
  "ids_ok db \<longleftrightarrow> distinct (map p_id (rows (rv_defects db))) \<and> distinct (map p_id (rows (rv_issues db)))
     \<and> distinct (map p_id (rows (rv_flaky db)))"

lemma review_ids:
  assumes "review R sel st by now t = Inr (t', n)"
  shows "map p_id (rows t') = map p_id (rows t)"
  unfolding review_Inr(1) [OF assms] by (rule map_key_update) simp

text \<open>The change an approval makes touches no proposal table.\<close>

lemma apply_tables:
  "apply_defect now p db = Inr db1 \<Longrightarrow> rv_defects db1 = rv_defects db \<and> rv_issues db1 = rv_issues db
     \<and> rv_flaky db1 = rv_flaky db \<and> rv_refs db1 = rv_refs db"
  "apply_known_issue now q db = Inl ''no unique constraint matching the ON CONFLICT specification''"
  "apply_flaky r db = Inr db1 \<Longrightarrow> rv_defects db1 = rv_defects db \<and> rv_issues db1 = rv_issues db
     \<and> rv_flaky db1 = rv_flaky db \<and> rv_refs db1 = rv_refs db"
  by (auto simp: apply_defect_def apply_known_issue_def apply_flaky_def known_issue_indexes_def Let_def
      split: option.splits)

lemma approve_known_issue_stuck:
  "fst (approve_known_issue fails now i actor label seen db) = db"
  "status (snd (approve_known_issue fails now i actor label seen db)) \<in> {404, 409, 500}"
  unfolding approve_known_issue_def atomize_conj
  by (rule approve_with_cases [of fails now i actor label rv_issues "\<lambda>t db. db\<lparr>rv_issues := t\<rparr>" "apply_known_issue now"
        "\<lambda>p. [(''proposal_id'', MInt i), (''regex_pattern'', MStr (ip_regex p)), (''project_id'', MInt (p_project p))]"
        seen db]) (simp_all add: apply_tables(2))

lemma settled_approve:
  assumes "ids_ok db"
  shows "settled db (fst (approve_proposal fails now ty raw sub db db))"
    and "ids_ok (fst (approve_proposal fails now ty raw sub db db))"
proof -
  have d: "settled db (fst (approve_defect fails now i actor label db db))
      \<and> ids_ok (fst (approve_defect fails now i actor label db db))" for i actor label
    unfolding approve_defect_def
  proof (rule approve_with_cases [of fails now i actor label rv_defects "\<lambda>t db. db\<lparr>rv_defects := t\<rparr>"
        "apply_defect now" "\<lambda>p. [(''proposal_id'', MInt i), (''fingerprint_hash'', MStr (dp_hash p)),
             (''proposed_category'', MStr (dp_category p))]" db db], goal_cases)
    case 1
    then show ?case using assms by (simp add: settled_def)
  next
    case (2 p db1 t n)
    from apply_tables(1) [OF 2(3)] have same: "rv_defects db1 = rv_defects db" "rv_issues db1 = rv_issues db"
      "rv_flaky db1 = rv_flaky db" by simp_all
    have "p_status q = pending" if "q \<in> set (rows (rv_defects db1))" "p_id q = i" for q
      using pending_by_id [OF _ 2(1,2)] that assms by (simp add: same ids_ok_def)
    from settled_review [OF 2(4) this] review_ids [OF 2(4)] show ?case
      using assms by (simp add: 2(5) settled_def ids_ok_def same)
  qed
  have f: "settled db (fst (approve_flaky fails now i actor label db db))
      \<and> ids_ok (fst (approve_flaky fails now i actor label db db))" for i actor label
    unfolding approve_flaky_def
  proof (rule approve_with_cases [of fails now i actor label rv_flaky "\<lambda>t db. db\<lparr>rv_flaky := t\<rparr>"
        apply_flaky "\<lambda>p. [(''proposal_id'', MInt i), (''test_full_name'', MStr (fl_full_name p)),
             (''history_id'', MStr (fl_history p))]" db db], goal_cases)
    case 1
    then show ?case using assms by (simp add: settled_def)
  next
    case (2 p db1 t n)
    from apply_tables(3) [OF 2(3)] have same: "rv_defects db1 = rv_defects db" "rv_issues db1 = rv_issues db"
      "rv_flaky db1 = rv_flaky db" by simp_all
    have "p_status q = pending" if "q \<in> set (rows (rv_flaky db1))" "p_id q = i" for q
      using pending_by_id [OF _ 2(1,2)] that assms by (simp add: same ids_ok_def)
    from settled_review [OF 2(4) this] review_ids [OF 2(4)] show ?case
      using assms by (simp add: 2(5) settled_def ids_ok_def same)
  qed
  show "settled db (fst (approve_proposal fails now ty raw sub db db))"
    "ids_ok (fst (approve_proposal fails now ty raw sub db db))"
    using d f assms
    by (simp_all add: approve_proposal_def approve_known_issue_stuck settled_def
        split: sum.split prod.split proposal_type.split)
qed

lemma settled_reject:
  assumes "ids_ok db"
  shows "settled db (fst (reject_proposal fails now ty raw reason sub db))
     \<and> ids_ok (fst (reject_proposal fails now ty raw reason sub db))"
proof -
  have d: "settled db (fst (reject_with fails now i actor label m rv_defects (\<lambda>t db. db\<lparr>rv_defects := t\<rparr>) db))
      \<and> ids_ok (fst (reject_with fails now i actor label m rv_defects (\<lambda>t db. db\<lparr>rv_defects := t\<rparr>) db))"
    for i actor label m
    by (rule reject_with_cases [of fails now i actor label m rv_defects "\<lambda>t db. db\<lparr>rv_defects := t\<rparr>" db])
      (use assms in \<open>auto simp: settled_def ids_ok_def dest: settled_review review_ids\<close>)
  have k: "settled db (fst (reject_with fails now i actor label m rv_issues (\<lambda>t db. db\<lparr>rv_issues := t\<rparr>) db))
      \<and> ids_ok (fst (reject_with fails now i actor label m rv_issues (\<lambda>t db. db\<lparr>rv_issues := t\<rparr>) db))"
    for i actor label m
    by (rule reject_with_cases [of fails now i actor label m rv_issues "\<lambda>t db. db\<lparr>rv_issues := t\<rparr>" db])
      (use assms in \<open>auto simp: settled_def ids_ok_def dest: settled_review review_ids\<close>)
  have f: "settled db (fst (reject_with fails now i actor label m rv_flaky (\<lambda>t db. db\<lparr>rv_flaky := t\<rparr>) db))
      \<and> ids_ok (fst (reject_with fails now i actor label m rv_flaky (\<lambda>t db. db\<lparr>rv_flaky := t\<rparr>) db))"
    for i actor label m
    by (rule reject_with_cases [of fails now i actor label m rv_flaky "\<lambda>t db. db\<lparr>rv_flaky := t\<rparr>" db])
      (use assms in \<open>auto simp: settled_def ids_ok_def dest: settled_review review_ids\<close>)
  show ?thesis
    using d k f assms
    by (simp add: reject_proposal_def settled_def Let_def split: sum.split prod.split proposal_type.split)
qed

lemma review_step_settled: "ids_ok db \<Longrightarrow> settled db (review_step a db) \<and> ids_ok (review_step a db)"
  by (cases a) (auto simp: settled_approve settled_reject)

interpretation settled: invariant_machine review_step "\<lambda>db'. settled db db' \<and> ids_ok db'" for db
  by unfold_locales (use review_step_settled settled_trans in blast)

text \<open>C38: A review is final among requests that do not overlap: once a proposal is approved or rejected, no run of later
  review requests, each served from its read to its commit before the next starts, of any kind, by any administrator, under
  any faults, changes its row.  (An approval reads the status before its transaction; for one that overlaps a rejection see
  \<open>stale_approval_overrides_rejection\<close>.)\<close>

theorem review_is_final:
  assumes "ids_ok db"
  shows "settled db (fold review_step ops db)"
proof -
  have "settled db db \<and> ids_ok db" using assms by (simp add: settled_def)
  from settled.run_inv [OF this] show ?thesis by blast
qed

section \<open>What a review does\<close>

definition reviewer_of :: "int option \<Rightarrow> int" where
  "reviewer_of actor = (case actor of None \<Rightarrow> 0 | Some a \<Rightarrow> a)"

lemma get_reviewed:
  assumes "review R sel st by now t = Inr (t', n)" and "get_proposal i t' = Some q" and "\<And>p. p_id p = i \<Longrightarrow> sel p"
  shows "p_status q = st \<and> p_reviewed_by q = Some by \<and> by \<in> set (ref_users R)"
proof -
  let ?f = "\<lambda>p. p\<lparr>p_status := st, p_reviewed_by := Some by, p_reviewed_at := Some now\<rparr>"
  from assms(2) have "map_option (\<lambda>r. if sel r then ?f r else r) (get_proposal i t) = Some q"
    using tbl_find_update_any [of p_id ?f i sel "rows t"] review_Inr(1) [OF assms(1)] by (simp add: get_proposal_def)
  then obtain p where p: "get_proposal i t = Some p" "q = (if sel p then ?f p else p)" by auto
  then have sel: "sel p" using assms(3) get_proposal_id by blast
  from p(1) have "p \<in> set (rows t)" by (auto simp: get_proposal_def dest: tbl_find_Some)
  then have "n \<noteq> 0" using sel tbl_count_pos by (metis review_Inr(3) [OF assms(1)] less_numeral_extra(3))
  with p(2) sel review_Inr(4) [OF assms(1)] show ?thesis by simp
qed

text \<open>C39: Approving a defect proposal is all or nothing.  A reply other than 200 leaves the database as it was.
  With a reply of 200 a pending proposal had been read, exactly the fingerprint it names, in its project, has its
  category and, if it proposes one, its resolution; its row is approved by an existing account; one event is
  appended to the log and nothing else changes.\<close>

theorem defect_approval_atomic:
  assumes "approve_defect fails now i actor label seen db = (db', r)"
  shows "(status r \<noteq> 200 \<longrightarrow> db' = db)
    \<and> (status r = 200 \<longrightarrow>
        (\<exists>p. get_proposal i (rv_defects seen) = Some p \<and> p_status p = pending
         \<and> rv_prints db' = map (\<lambda>f. if fp_hash f = dp_hash p \<and> fp_project f = p_project p
              then f\<lparr>fp_category := dp_category p,
                     fp_resolution := (case dp_resolution p of None \<Rightarrow> fp_resolution f | Some x \<Rightarrow> x),
                     fp_updated := now\<rparr> else f) (rv_prints db)
         \<and> (\<forall>q. get_proposal i (rv_defects db') = Some q \<longrightarrow> p_status q = approved
              \<and> p_reviewed_by q = Some (reviewer_of actor) \<and> reviewer_of actor \<in> set (ref_users (rv_refs db)))
         \<and> (\<forall>j q. j \<noteq> i \<longrightarrow> get_proposal j (rv_defects db) = Some q \<longrightarrow> get_proposal j (rv_defects db') = Some q)
         \<and> (\<exists>m. rv_audit db' = rv_audit db @ [review_event ''mcp.proposal_approve'' i actor label m])
         \<and> rv_issues db' = rv_issues db \<and> rv_flaky db' = rv_flaky db \<and> rv_known db' = rv_known db
         \<and> rv_results db' = rv_results db))"
proof (rule approve_with_cases [of fails now i actor label rv_defects "\<lambda>t db. db\<lparr>rv_defects := t\<rparr>"
        "apply_defect now" "\<lambda>p. [(''proposal_id'', MInt i), (''fingerprint_hash'', MStr (dp_hash p)),
             (''proposed_category'', MStr (dp_category p))]" seen db, folded approve_defect_def], goal_cases)
  case 1
  then show ?case by (auto simp: assms)
next
  case (2 p db1 t n)
  from 2(3) have db1: "db1 = db\<lparr>rv_prints := tbl_update (\<lambda>f. fp_hash f = dp_hash p \<and> fp_project f = p_project p)
      (\<lambda>f. f\<lparr>fp_category := dp_category p,
             fp_resolution := (case dp_resolution p of None \<Rightarrow> fp_resolution f | Some x \<Rightarrow> x),
             fp_updated := now\<rparr>) (rv_prints db)\<rparr>" by (simp add: apply_defect_def)
  have rev: "review (rv_refs db) (\<lambda>p. p_id p = i) approved (reviewer_of actor) now (rv_defects db) = Inr (t, n)"
    using 2(4) by (simp add: db1 reviewer_of_def)
  have "get_proposal j t = Some q" if "j \<noteq> i" "get_proposal j (rv_defects db) = Some q" for j q
    using get_review_other [OF rev that(2)] that get_proposal_id by blast
  moreover have "p_status q = approved \<and> p_reviewed_by q = Some (reviewer_of actor)
      \<and> reviewer_of actor \<in> set (ref_users (rv_refs db))" if "get_proposal i t = Some q" for q
    using get_reviewed [OF rev that] by simp
  moreover have "status r = 200" and "db' = (db1\<lparr>rv_defects := t\<rparr>)\<lparr>rv_audit := rv_audit db @
      [review_event ''mcp.proposal_approve'' i actor label [(''proposal_id'', MInt i),
         (''fingerprint_hash'', MStr (dp_hash p)), (''proposed_category'', MStr (dp_category p))]]\<rparr>"
    using 2(5) assms by (auto simp: db1)
  ultimately show ?case using 2(1,2) by (auto simp: db1 tbl_update_def)
qed

text \<open>No known-issue proposal can be approved: the statement that would create the rule names a unique index
  that the schema does not have, so every such request is refused and changes nothing.\<close>

theorem known_issue_never_approved:
  "fst (approve_proposal fails now ''known_issue'' raw sub seen db) = db
   \<and> status (snd (approve_proposal fails now ''known_issue'' raw sub seen db)) \<in> {400, 404, 409, 500}"
  using approve_known_issue_stuck
  by (auto simp: approve_proposal_def path_target_def parse_proposal_type_def split: option.split prod.split)

lemma review_by_nobody:
  assumes "get_proposal i t = Some p" and "by \<notin> set (ref_users R)"
  shows "review R (\<lambda>p. p_id p = i) st by now t = Inl ''foreign key''"
proof -
  from assms(1) have "tbl_count (\<lambda>p. p_id p = i) (rows t) \<noteq> 0"
    using tbl_count_pos [of p "rows t" "\<lambda>p. p_id p = i"] by (auto simp: get_proposal_def dest: tbl_find_Some)
  with assms(2) show ?thesis by (simp add: review_def)
qed

lemma actor_unattributed: "parse_int s = None \<Longrightarrow> fst (actor_from_context (Some s)) = None"
  by (simp add: actor_from_context_def)

lemma reject_by_nobody:
  assumes "0 \<notin> set (ref_users (rv_refs db))"
  shows "fst (reject_with fails now i None label m g put db) = db"
    and "status (snd (reject_with fails now i None label m g put db)) \<noteq> 200"
  unfolding atomize_conj
  by (rule reject_with_cases [of fails now i None label m g put db]) (use assms in \<open>auto dest: review_Inr(4)\<close>)

text \<open>An administrator without an account row, such as the configured one or one that signs in through a
  provider, cannot review: its reviewer id is written as 0, which no account has, so a pending proposal is neither
  approved nor rejected and the database does not change.\<close>

theorem unattributed_reviewer_blocked:
  assumes "parse_int name = None" and "0 \<notin> set (ref_users (rv_refs db))"
  shows "fst (approve_proposal fails now ty raw (Some name) db db) = db
         \<and> status (snd (approve_proposal fails now ty raw (Some name) db db)) \<noteq> 200
         \<and> fst (reject_proposal fails now ty raw reason (Some name) db) = db
         \<and> status (snd (reject_proposal fails now ty raw reason (Some name) db)) \<noteq> 200"
proof -
  have d: "fst (approve_defect fails now i None label db db) = db
      \<and> status (snd (approve_defect fails now i None label db db)) \<noteq> 200" for i label
    unfolding approve_defect_def
    by (rule approve_with_cases [of fails now i None label rv_defects "\<lambda>t db. db\<lparr>rv_defects := t\<rparr>"
        "apply_defect now" "\<lambda>p. [(''proposal_id'', MInt i), (''fingerprint_hash'', MStr (dp_hash p)),
             (''proposed_category'', MStr (dp_category p))]" db db])
      (auto dest!: apply_tables(1) simp: review_by_nobody [OF _ assms(2)])
  have f: "fst (approve_flaky fails now i None label db db) = db
      \<and> status (snd (approve_flaky fails now i None label db db)) \<noteq> 200" for i label
    unfolding approve_flaky_def
    by (rule approve_with_cases [of fails now i None label rv_flaky "\<lambda>t db. db\<lparr>rv_flaky := t\<rparr>"
        apply_flaky "\<lambda>p. [(''proposal_id'', MInt i), (''test_full_name'', MStr (fl_full_name p)),
             (''history_id'', MStr (fl_history p))]" db db])
      (auto dest!: apply_tables(3) simp: review_by_nobody [OF _ assms(2)])
  have k: "status (snd (approve_known_issue fails now i None label db db)) \<noteq> 200" for i label
    using approve_known_issue_stuck(2) [of fails now i None label db db] by auto
  show ?thesis
    using d f k actor_unattributed [OF assms(1)]
    by (auto simp: reject_by_nobody [OF assms(2)] approve_proposal_def reject_proposal_def approve_known_issue_stuck path_target_def Let_def
        split: option.split prod.split proposal_type.split)
qed

lemma get_review_same:
  assumes "get_proposal i t = Some p" and "sel p" and "by \<in> set (ref_users R)"
  shows "\<exists>t' n. review R sel st by now t = Inr (t', n) \<and> n \<noteq> 0
    \<and> get_proposal i t' = Some (p\<lparr>p_status := st, p_reviewed_by := Some by, p_reviewed_at := Some now\<rparr>)"
proof -
  let ?f = "\<lambda>p. p\<lparr>p_status := st, p_reviewed_by := Some by, p_reviewed_at := Some now\<rparr>"
  have "p \<in> set (rows t)" using assms(1) by (auto simp: get_proposal_def dest: tbl_find_Some)
  then have "tbl_count sel (rows t) \<noteq> 0" using assms(2) tbl_count_pos by (metis less_numeral_extra(3))
  with assms show ?thesis
    using tbl_find_update_any [of p_id ?f i sel "rows t"] by (simp add: review_def get_proposal_def)
qed

text \<open>Approval checks the status before its transaction and not in it.  When a rejection commits between
  the two, the rejection is confirmed to its author and then undone: the proposal ends approved and its change is
  applied.\<close>

theorem stale_approval_overrides_rejection:
  assumes "get_proposal i (rv_defects db) = Some p" and "p_status p = pending" and "0 < i" and "in_int64 i"
    and "a \<in> set (ref_users (rv_refs db))" and "in_int64 a" and "b \<in> set (ref_users (rv_refs db))" and "in_int64 b"
    and "reject_proposal (\<lambda>_. False) t1 ''defect'' (itoa i) reason (Some (itoa b)) db = (db1, r1)"
    and "approve_proposal (\<lambda>_. False) t2 ''defect'' (itoa i) (Some (itoa a)) db db1 = (db2, r2)"
  shows "status r1 = 200 \<and> map_option p_status (get_proposal i (rv_defects db1)) = Some rejected
         \<and> status r2 = 200 \<and> map_option p_status (get_proposal i (rv_defects db2)) = Some approved
         \<and> map_option p_reviewed_by (get_proposal i (rv_defects db2)) = Some (Some a)
         \<and> (\<forall>f \<in> set (rv_prints db2). fp_hash f = dp_hash p \<and> fp_project f = p_project p
              \<longrightarrow> fp_category f = dp_category p)"
proof -
  have tgt: "path_target ''defect'' (itoa i) = Inr (PDefect, i)"
    using assms(3,4) by (simp add: path_target_def parse_proposal_type_def parse_int_itoa)
  let ?sel = "\<lambda>q. p_id q = i \<and> p_status q = pending"
  let ?p1 = "p\<lparr>p_status := rejected, p_reviewed_by := Some b, p_reviewed_at := Some t1\<rparr>"
  obtain t n where rej: "review (rv_refs db) ?sel rejected b t1 (rv_defects db) = Inr (t, n)" "n \<noteq> 0"
      "get_proposal i t = Some ?p1"
    using get_review_same [OF assms(1), of ?sel b "rv_refs db"] assms(2,7) get_proposal_id [OF assms(1)] by blast
  with assms(9) have db1: "rv_defects db1 = t" "rv_refs db1 = rv_refs db" and r1: "status r1 = 200"
    using assms(8) by (auto simp: reject_proposal_def tgt actor_from_context_def parse_int_itoa reject_with_def Let_def)
  obtain u m where app: "review (rv_refs db1) (\<lambda>q. p_id q = i) approved a t2 (rv_defects db1) = Inr (u, m)"
      "get_proposal i u = Some (?p1\<lparr>p_status := approved, p_reviewed_by := Some a, p_reviewed_at := Some t2\<rparr>)"
    using get_review_same [OF rej(3), of "\<lambda>q. p_id q = i" a "rv_refs db" approved t2] assms(5)
      get_proposal_id [OF assms(1)] by (auto simp: db1)
  with assms(10) have "rv_defects db2 = u" "status r2 = 200"
      "rv_prints db2 = tbl_update (\<lambda>f. fp_hash f = dp_hash p \<and> fp_project f = p_project p)
                (\<lambda>f. f\<lparr>fp_category := dp_category p,
                        fp_resolution := (case dp_resolution p of None \<Rightarrow> fp_resolution f | Some r \<Rightarrow> r),
                        fp_updated := t2\<rparr>) (rv_prints db1)"
    using assms(1,2,6)
    by (auto simp: approve_proposal_def tgt actor_from_context_def parse_int_itoa approve_defect_def approve_with_def
        apply_defect_def Let_def)
  with r1 db1 rej(3) app(2) show ?thesis by (auto simp: set_tbl_update)
qed

section \<open>Instances\<close>

definition demo_proposal :: defect_proposal where
  "demo_proposal = \<lparr>p_id = 1, p_project = 1, p_rationale = None, p_proposer = 7, p_api_key = None,
     p_status = pending, p_reviewed_by = None, p_reviewed_at = None, p_created_at = 5,
     dp_hash = ''ab'', dp_category = ''test_bug'', dp_resolution = None\<rparr>"

definition demo_review :: review_db where
  "demo_review = \<lparr>rv_refs = demo_refs, rv_defects = \<lparr>rows = [demo_proposal], next_id = 2\<rparr>,
     rv_issues = \<lparr>rows = [], next_id = 1\<rparr>, rv_flaky = demo_flaky,
     rv_prints = [\<lparr>fp_project = 1, fp_hash = ''ab'', fp_category = ''to_investigate'', fp_resolution = ''open'',
                   fp_updated = 0\<rparr>],
     rv_known = [], rv_next_known = 1, rv_results = [], rv_audit = []\<rparr>"

lemma demo_review_get: "get_proposal 1 (rv_defects demo_review) = Some demo_proposal"
  by (simp add: get_proposal_def demo_review_def demo_proposal_def tbl_simps)

lemma demo_review_ids: "ids_ok demo_review"
  using demo_flaky_ok by (simp add: ids_ok_def demo_review_def table_ok_def)

lemma demo_review_users [simp]: "set (ref_users (rv_refs demo_review)) = {7}"
  by (simp add: demo_review_def demo_refs_def)

lemma itoa_7: "itoa 7 = ''7''" and parse_int_admin: "parse_int ''admin'' = None"
  by code_simp+

text \<open>The proposal of \<open>demo_review\<close> after its approval.\<close>

definition demo_approved :: defect_proposal where
  "demo_approved = demo_proposal\<lparr>p_status := approved, p_reviewed_by := Some 7, p_reviewed_at := Some 8\<rparr>"

definition demo_settled :: review_db where
  "demo_settled = demo_review\<lparr>rv_defects := \<lparr>rows = [demo_approved, demo_proposal\<lparr>p_id := 2\<rparr>], next_id = 3\<rparr>\<rparr>"

theorem review_is_final_witness:
  "get_proposal 1 (rv_defects (fold review_step [RReject (\<lambda>_. False) 9 ''defect'' ''1'' [] (Some ''7''),
     RApprove (\<lambda>_. False) 10 ''defect'' ''2'' (Some ''7''), RApprove (\<lambda>_. False) 11 ''defect'' ''1'' (Some ''7'')] demo_settled))
   = Some demo_approved \<and> p_status demo_approved = approved"
proof -
  have "ids_ok demo_settled"
    using demo_flaky_ok by (simp add: ids_ok_def demo_settled_def demo_review_def demo_approved_def demo_proposal_def table_ok_def)
  note final = review_is_final [OF this, of "[RReject (\<lambda>_. False) 9 ''defect'' ''1'' [] (Some ''7''),
     RApprove (\<lambda>_. False) 10 ''defect'' ''2'' (Some ''7''), RApprove (\<lambda>_. False) 11 ''defect'' ''1'' (Some ''7'')]"]
  have "get_proposal 1 (rv_defects demo_settled) = Some demo_approved" "p_status demo_approved = approved"
    by (simp_all add: get_proposal_def demo_settled_def demo_approved_def demo_proposal_def tbl_simps)
  moreover have "approved \<noteq> pending" by simp
  ultimately show ?thesis using final unfolding settled_def settled_in_def by metis
qed

theorem defect_approval_atomic_witness:
  "\<exists>db' r. approve_defect (\<lambda>_. False) 9 1 (Some 7) ''7'' demo_review demo_review = (db', r)
     \<and> status r = 200 \<and> (\<exists>p. get_proposal 1 (rv_defects demo_review) = Some p \<and> p_status p = pending)"
proof -
  obtain db' r where dr: "approve_defect (\<lambda>_. False) 9 1 (Some 7) ''7'' demo_review demo_review = (db', r)"
    by (metis surj_pair)
  have "status (snd (approve_defect (\<lambda>_. False) 9 1 (Some 7) ''7'' demo_review demo_review)) = 200"
    by (simp add: approve_defect_def approve_with_def demo_review_get apply_defect_def review_def Let_def)
      (simp add: demo_proposal_def demo_review_def)
  then have "status r = 200" by (simp add: dr)
  then show ?thesis using defect_approval_atomic [OF dr] dr by blast
qed

theorem unattributed_reviewer_blocked_witness:
  "status (snd (approve_proposal (\<lambda>_. False) 9 ''defect'' ''1'' (Some ''admin'') demo_review demo_review)) \<noteq> 200"
  using unattributed_reviewer_blocked [OF parse_int_admin, of demo_review "\<lambda>_. False" 9 "''defect''" "''1''" "[]"] by simp

theorem stale_approval_overrides_rejection_witness:
  "\<exists>db1 r1 db2 r2. reject_proposal (\<lambda>_. False) 9 ''defect'' (itoa 1) [] (Some (itoa 7)) demo_review = (db1, r1)
     \<and> approve_proposal (\<lambda>_. False) 10 ''defect'' (itoa 1) (Some (itoa 7)) demo_review db1 = (db2, r2)
     \<and> map_option p_status (get_proposal 1 (rv_defects db2)) = Some approved"
proof -
  obtain db1 r1 where 1: "reject_proposal (\<lambda>_. False) 9 ''defect'' (itoa 1) [] (Some (itoa 7)) demo_review = (db1, r1)"
    by (metis surj_pair)
  obtain db2 r2 where 2: "approve_proposal (\<lambda>_. False) 10 ''defect'' (itoa 1) (Some (itoa 7)) demo_review db1 = (db2, r2)"
    by (metis surj_pair)
  show ?thesis
    using stale_approval_overrides_rejection [OF demo_review_get _ _ _ _ _ _ _ 1 2] 1 2
    by (simp add: in_int64_def demo_proposal_def)
qed

end
