(* ===== verification/DefectLife.thy ===== *)
theory DefectLife
  imports Defects
begin

text \<open>
  What ingestion means for one defect: the life cycle it goes through build by build, the refinement of
  that life cycle by \<open>computeDefectFingerprints\<close>, the filing of every failure under its defect, and the
  cases where the bookkeeping goes wrong.
\<close>

section \<open>The life of a defect\<close>

text \<open>
  What the resolution and the clean counter of a defect go through, build by build: a build that shows
  the defect reopens a fixed one and restarts the count; a build that does not show it counts, and the
  third in a row fixes it.  Muted and won't-fix defects are never touched.
\<close>

definition life :: "defect \<Rightarrow> string \<times> int" where
  "life d = (d_resolution d, d_clean d)"

fun life_step :: "bool \<Rightarrow> string \<times> int \<Rightarrow> string \<times> int" where
  "life_step True (res, c) = (if res = ''fixed'' then ''open'' else res, 0)"
| "life_step False (res, c) =
     (if res = ''open'' then (if 3 \<le> c + 1 then ''fixed'' else ''open'', c + 1) else (res, c))"

definition shows_defect :: "(string \<Rightarrow> string) \<Rightarrow> int \<Rightarrow> string \<Rightarrow> defect_db \<Rightarrow> int \<Rightarrow> bool" where
  "shows_defect sha pid h db bid \<longleftrightarrow> h \<in> set (map (result_hash sha) (list_failed pid bid db))"

definition ingestible :: "int \<Rightarrow> int \<Rightarrow> defect_db \<Rightarrow> bool" where
  "ingestible pid bid db \<longleftrightarrow> bid \<in> b_id ` set (builds db) \<and> pid \<in> fst ` set (projects db)
     \<and> (\<forall>r \<in> set (list_failed pid bid db). valid_text (normalize_message (effective_message r))
          \<and> valid_text (normalize_trace (status_trace r)))"

text \<open>
  The occurrences recorded for a build are only of defects its failures show.  It holds for a build not
  ingested yet, and it still holds when one is ingested again.
\<close>

definition honest :: "(string \<Rightarrow> string) \<Rightarrow> int \<Rightarrow> int \<Rightarrow> defect_db \<Rightarrow> bool" where
  "honest sha pid bid db \<longleftrightarrow> (\<forall>d \<in> set (defects db). d_project d = pid \<and> seen_in bid db (d_id d)
     \<longrightarrow> shows_defect sha pid (d_hash d) db bid)"

lemma honest_fresh: "bid \<notin> oc_build ` set (occurrences db) \<Longrightarrow> honest sha pid bid db"
  by (auto simp: honest_def seen_in_def list_ex_iff)

lemma honest_get:
  "honest sha pid bid db \<Longrightarrow> get_by_hash pid h db = Some d \<Longrightarrow> \<not> shows_defect sha pid h db bid
   \<Longrightarrow> \<not> seen_in bid db (d_id d)"
  by (auto simp: honest_def dest!: get_by_hash_key)

lemma life_counted [simp]: "life (counted now False d) = life_step False (life d)"
  by (auto simp: life_def counted_def Let_def)

lemma life_seen [simp]: "life (counted now True (seen_again now bid g d)) = life_step True (life d)"
  by (auto simp: life_def counted_def seen_again_def Let_def)

definition follows :: "(string \<Rightarrow> string) \<Rightarrow> int \<Rightarrow> int \<Rightarrow> defect_db \<Rightarrow> defect_db \<Rightarrow> bool" where
  "follows sha pid bid db db' \<longleftrightarrow>
     (\<forall>p h d. get_by_hash p h db = Some d \<longrightarrow> (\<exists>d'. get_by_hash p h db' = Some d' \<and> d_id d' = d_id d
        \<and> d_category d' = d_category d \<and> d_known_issue d' = d_known_issue d
        \<and> life d' = (if p = pid then life_step (shows_defect sha pid h db bid) (life d) else life d)))"

definition stable :: "(string \<Rightarrow> string) \<Rightarrow> int \<Rightarrow> int \<Rightarrow> defect_db \<Rightarrow> defect_db \<Rightarrow> bool" where
  "stable sha pid bid db db' \<longleftrightarrow> builds db' = builds db \<and> projects db' = projects db
     \<and> (\<forall>p b. list_failed p b db' = list_failed p b db)
     \<and> (\<forall>b k. seen_in b db' k \<longrightarrow> seen_in b db k \<or> (b = bid \<and>
          (\<exists>h d. get_by_hash pid h db' = Some d \<and> d_id d = k \<and> shows_defect sha pid h db bid)))"

lemma ingest_clean:
  assumes "list_failed pid bid db = []" and "defects_ok db" and "honest sha pid bid db"
  shows "\<exists>db'. compute_defect_fingerprints sha now pid bid db = (None, db') \<and> defects_ok db'
     \<and> follows sha pid bid db db' \<and> stable sha pid bid db db'"
proof (intro exI conjI)
  let ?db = "count_and_resolve now pid bid db"
  show "compute_defect_fingerprints sha now pid bid db = (None, ?db)"
    using assms(1) by (simp add: compute_defect_fingerprints_def)
  show "defects_ok ?db" using assms(2) by (rule count_and_resolve_ok)
  have no: "\<not> shows_defect sha pid h db bid" for h using assms(1) by (simp add: shows_defect_def)
  then show "follows sha pid bid db ?db"
    using honest_get [OF assms(3)] unfolding follows_def by (auto simp: get_count_and_resolve)
  show "stable sha pid bid db ?db"
    by (auto simp: stable_def seen_in_def intro!: list_failed_cong)
qed

text \<open>Linking the groups after the upsert keeps the tables sound and marks the build as having shown them.\<close>

lemma link_ok:
  assumes "defects_ok db"
  shows "defects_ok (fold (link_group pid bid) gs db)"
proof -
  let ?db = "fold (link_group pid bid) gs db"
  have "oc_defect r \<in> d_id ` set (defects db)" if "r \<in> set (occurrences ?db)" for r
  proof -
    have "seen_in (oc_build r) ?db (oc_defect r)" using that by (auto simp: seen_in_def list_ex_iff)
    then have "seen_in (oc_build r) db (oc_defect r)
        \<or> (\<exists>h d. get_by_hash pid h db = Some d \<and> d_id d = oc_defect r)"
      unfolding seen_in_fold_link by blast
    then show ?thesis
    proof (elim disjE exE conjE)
      assume "seen_in (oc_build r) db (oc_defect r)"
      then obtain x where "x \<in> set (occurrences db)" "oc_defect x = oc_defect r"
        by (auto simp: seen_in_def list_ex_iff)
      then show ?thesis using assms unfolding defects_ok_def by (metis fold_link_frame(1))
    next
      fix h d assume d: "get_by_hash pid h db = Some d" "d_id d = oc_defect r"
      then have "d \<in> set (defects db)" by (auto dest: get_by_hash_key)
      then show ?thesis using d(2) by force
    qed
  qed
  then show ?thesis using assms by (simp add: defects_ok_def)
qed

lemma mark_ok:
  assumes "defects_ok db"
  shows "defects_ok (mark_regressions bid ks db)"
proof -
  have "map oc_defect (tbl_update q (\<lambda>r. r\<lparr>oc_regression := True\<rparr>) (occurrences db)) = map oc_defect (occurrences db)" for q
    by (rule map_key_update) simp
  then have "oc_defect ` set (occurrences (mark_regressions bid ks db)) = oc_defect ` set (occurrences db)"
    unfolding set_map [symmetric] by (simp add: mark_regressions_def del: set_map)
  then have "oc_defect r \<in> d_id ` set (defects db)" if "r \<in> set (occurrences (mark_regressions bid ks db))" for r
    using that assms unfolding defects_ok_def by (metis (no_types, lifting) imageE imageI)
  then show ?thesis using assms by (simp add: defects_ok_def)
qed

text \<open>The stages of an ingestion of failures that can be stored.\<close>

lemma ingest_stages:
  assumes ne: "list_failed pid bid db \<noteq> []" and ing: "ingestible pid bid db"
    and gs: "gs = compute_fingerprints sha (list_failed pid bid db)"
  obtains db1 where "upsert_all now pid bid gs db = Inr db1"
    and "compute_defect_fingerprints sha now pid bid db =
      (None, let db3 = count_and_resolve now pid bid (fold (link_group pid bid) gs db1)
             in mark_regressions bid (detect_regressions pid bid db3) db3)"
proof -
  have "valid_text (fr_message g) \<and> valid_text (fr_trace g)" if "g \<in> set gs" for g
    using compute_fingerprints_ids(3) [OF that [unfolded gs]] ing by (auto simp: ingestible_def)
  then obtain db1 where up: "upsert_all now pid bid gs db = Inr db1"
    using upsert_all_succeeds [of bid db pid gs now] ing by (auto simp: ingestible_def)
  have "map fr_hash gs \<noteq> []"
    using ne unfolding gs compute_fingerprints_hashes by (metis list.map_disc_iff set_distinct_in_order set_empty)
  then have "compute_defect_fingerprints sha now pid bid db =
      (None, let db3 = count_and_resolve now pid bid (fold (link_group pid bid) gs db1)
             in mark_regressions bid (detect_regressions pid bid db3) db3)"
    using ne up by (simp add: compute_defect_fingerprints_def Let_def upsert_fingerprints_def gs [symmetric])
  with up show thesis by (rule that)
qed

lemma hashes_of_groups:
  "fr_hash ` set (compute_fingerprints sha rs) = set (map (result_hash sha) rs)"
  by (metis compute_fingerprints_hashes list.set_map set_distinct_in_order)

text \<open>One defect of the project, before and after the upsert, and whether the linked build shows it.\<close>

lemma upsert_then_linked:
  assumes up: "upsert_all now pid bid gs db = Inr db1" and dist: "distinct (map fr_hash gs)"
    and ids: "\<And>g. g \<in> set gs \<Longrightarrow> fr_ids g \<noteq> []"
    and ok: "defects_ok db" and d: "get_by_hash pid h db = Some d"
  shows "h \<in> fr_hash ` set gs \<Longrightarrow> \<exists>g. get_by_hash pid h db1 = Some (seen_again now bid g d)
      \<and> seen_in bid (fold (link_group pid bid) gs db1) (d_id d)"
    and "h \<notin> fr_hash ` set gs \<Longrightarrow> \<not> seen_in bid db (d_id d) \<Longrightarrow> get_by_hash pid h db1 = Some d
      \<and> \<not> seen_in bid (fold (link_group pid bid) gs db1) (d_id d)"
proof -
  have seen1: "seen_in bid db1 k = seen_in bid db k" for k
    using upsert_all_frame [OF up] by (simp add: seen_in_def)
  show "\<exists>g. get_by_hash pid h db1 = Some (seen_again now bid g d)
      \<and> seen_in bid (fold (link_group pid bid) gs db1) (d_id d)" if "h \<in> fr_hash ` set gs"
  proof -
    obtain g where g: "g \<in> set gs" "fr_hash g = h" using \<open>h \<in> fr_hash ` set gs\<close> by blast
    then have 1: "get_by_hash pid h db1 = Some (seen_again now bid g d)"
      using upsert_all_get [OF up dist g(1)] d by simp
    then have "seen_in bid (fold (link_group pid bid) gs db1) (d_id d)"
      unfolding seen_in_fold_link using g ids by (metis seen_again_keys(3))
    with 1 show ?thesis by blast
  qed
  show "get_by_hash pid h db1 = Some d \<and> \<not> seen_in bid (fold (link_group pid bid) gs db1) (d_id d)"
    if h: "h \<notin> fr_hash ` set gs" and unseen: "\<not> seen_in bid db (d_id d)"
  proof -
    have 1: "get_by_hash pid h db1 = Some d" using upsert_all_other [OF up, of pid h] h d by simp
    have ok1: "defects_ok db1" using upsert_all_frame [OF up] ok by simp
    have "d_id e \<noteq> d_id d" if "g \<in> set gs" "get_by_hash pid (fr_hash g) db1 = Some e" for g e
      using same_id [OF ok1, of e d] get_by_hash_key [OF that(2)] get_by_hash_key [OF 1] that(1) h by blast
    with 1 show ?thesis unfolding seen_in_fold_link using seen1 unseen by auto
  qed
qed

lemma ingest_failing:
  assumes ne: "list_failed pid bid db \<noteq> []" and ok: "defects_ok db" and hon: "honest sha pid bid db"
    and ing: "ingestible pid bid db"
  shows "\<exists>db'. compute_defect_fingerprints sha now pid bid db = (None, db') \<and> defects_ok db'
     \<and> follows sha pid bid db db' \<and> stable sha pid bid db db'"
proof -
  define gs where "gs = compute_fingerprints sha (list_failed pid bid db)"
  obtain db1 where up: "upsert_all now pid bid gs db = Inr db1"
    and run: "compute_defect_fingerprints sha now pid bid db =
      (None, let db3 = count_and_resolve now pid bid (fold (link_group pid bid) gs db1)
             in mark_regressions bid (detect_regressions pid bid db3) db3)"
    using ne ing gs_def by (rule ingest_stages)
  note fr = upsert_all_frame [OF up]
  define db2 where "db2 = fold (link_group pid bid) gs db1"
  define db3 where "db3 = count_and_resolve now pid bid db2"
  define db4 where "db4 = mark_regressions bid (detect_regressions pid bid db3) db3"
  have ok4: "defects_ok db4"
    unfolding db4_def db3_def db2_def using fr ok by (intro mark_ok count_and_resolve_ok link_ok) simp
  have get4: "get_by_hash p h db4 = map_option (\<lambda>d. if p = pid then counted now (seen_in bid db2 (d_id d)) d else d)
      (get_by_hash p h db1)" for p h
  proof -
    have "get_by_hash p h db4 = get_by_hash p h db3" by (rule get_by_hash_cong) (simp add: db4_def)
    moreover have "get_by_hash p h db2 = get_by_hash p h db1" by (rule get_by_hash_cong) (simp add: db2_def)
    ultimately show ?thesis unfolding db3_def by (simp only: get_count_and_resolve)
  qed
  have shown: "shows_defect sha pid h db bid \<longleftrightarrow> h \<in> fr_hash ` set gs" for h
    by (simp add: shows_defect_def gs_def hashes_of_groups)
  have "seen_in b db k \<or> (b = bid \<and> (\<exists>h d. get_by_hash pid h db4 = Some d \<and> d_id d = k \<and> shows_defect sha pid h db bid))"
    if "seen_in b db4 k" for b k
  proof -
    have "seen_in b db2 k" using that by (simp add: db4_def db3_def seen_in_def)
    then have "seen_in b db1 k \<or> (b = bid \<and> (\<exists>h d. get_by_hash pid h db1 = Some d \<and> d_id d = k \<and> h \<in> fr_hash ` set gs))"
      unfolding db2_def seen_in_fold_link by blast
    moreover have "seen_in b db1 k = seen_in b db k" using fr by (simp add: seen_in_def)
    moreover have "\<exists>d'. get_by_hash pid h db4 = Some d' \<and> d_id d' = d_id d" if "get_by_hash pid h db1 = Some d" for h d
      using that by (simp add: get4)
    ultimately show ?thesis using shown by metis
  qed
  moreover have "list_failed p b db4 = list_failed p b db" for p b
  proof -
    have "list_failed p b db4 = list_failed p b db2" by (rule list_failed_cong) (simp add: db4_def db3_def)
    also have "\<dots> = list_failed p b db" using fr by (simp add: db2_def list_failed_cong [of db1 db])
    finally show ?thesis .
  qed
  ultimately have stab: "stable sha pid bid db db4"
    using fr by (simp add: stable_def db4_def db3_def db2_def)
  have linked: "h \<in> fr_hash ` set gs \<Longrightarrow> \<exists>g. get_by_hash pid h db1 = Some (seen_again now bid g d) \<and> seen_in bid db2 (d_id d)"
    and unlinked: "h \<notin> fr_hash ` set gs \<Longrightarrow> get_by_hash pid h db1 = Some d \<and> \<not> seen_in bid db2 (d_id d)"
    if d: "get_by_hash pid h db = Some d" for h d
    unfolding db2_def
    using upsert_then_linked [OF up _ _ ok d] compute_fingerprints_ids(2) honest_get [OF hon d] shown
    by (metis gs_def compute_fingerprints_hashes distinct_distinct_in_order)+
  have "follows sha pid bid db db4"
    unfolding follows_def
  proof (intro allI impI)
    fix p h d assume d: "get_by_hash p h db = Some d"
    show "\<exists>d'. get_by_hash p h db4 = Some d' \<and> d_id d' = d_id d \<and> d_category d' = d_category d
        \<and> d_known_issue d' = d_known_issue d
        \<and> life d' = (if p = pid then life_step (shows_defect sha pid h db bid) (life d) else life d)"
    proof (cases "p = pid")
      case False
      then show ?thesis using upsert_all_other [OF up, of p h] d by (simp add: get4)
    next
      case True
      show ?thesis
        using shown linked [of h d] unlinked [of h d] d True by (cases "h \<in> fr_hash ` set gs") (auto simp: get4)
    qed
  qed
  with run ok4 stab show ?thesis by (simp add: Let_def db2_def db3_def db4_def)
qed

lemma ingest_step:
  assumes "defects_ok db" and "honest sha pid bid db" and "ingestible pid bid db"
  shows "\<exists>db'. compute_defect_fingerprints sha now pid bid db = (None, db') \<and> defects_ok db'
     \<and> follows sha pid bid db db' \<and> stable sha pid bid db db'"
  using ingest_clean ingest_failing assms by (cases "list_failed pid bid db = []") blast+

lemma stable_shows: "stable sha pid bid db db' \<Longrightarrow> shows_defect sha p h db' b = shows_defect sha p h db b"
  by (simp add: stable_def shows_defect_def)

lemma stable_ingestible: "stable sha pid bid db db' \<Longrightarrow> ingestible p b db' = ingestible p b db"
  by (simp add: stable_def ingestible_def)

text \<open>Ingesting one build, again or for the first time, keeps the records of every build honest.\<close>

lemma stable_honest:
  assumes st: "stable sha pid bid db db'" and fol: "follows sha pid bid db db'"
    and ok: "defects_ok db" "defects_ok db'" and hon: "honest sha pid b db"
  shows "honest sha pid b db'"
  unfolding honest_def
proof (intro ballI impI, elim conjE)
  fix d' assume d': "d' \<in> set (defects db')" "d_project d' = pid" "seen_in b db' (d_id d')"
  from st d'(3) consider "seen_in b db (d_id d')"
    | h d where "get_by_hash pid h db' = Some d" "d_id d = d_id d'" "shows_defect sha pid h db bid" "b = bid"
    unfolding stable_def by blast
  then show "shows_defect sha pid (d_hash d') db' b"
  proof cases
    case 1
    then obtain x where "x \<in> set (occurrences db)" "oc_defect x = d_id d'" by (auto simp: seen_in_def list_ex_iff)
    then have "d_id d' \<in> d_id ` set (defects db)" using ok(1) unfolding defects_ok_def by metis
    then obtain d0 where d0: "d0 \<in> set (defects db)" "d_id d0 = d_id d'" by force
    then obtain d1 where d1: "get_by_hash (d_project d0) (d_hash d0) db' = Some d1" "d_id d1 = d_id d0"
      using fol get_by_hash_member [OF ok(1) d0(1)] unfolding follows_def by blast
    then have "d1 = d'" using same_id [OF ok(2), of d1 d'] d'(1) d0(2) get_by_hash_key by metis
    then have "d_project d0 = pid" "d_hash d0 = d_hash d'" using get_by_hash_key [OF d1(1)] d'(2) by auto
    then show ?thesis using hon d0 1 by (auto simp: honest_def stable_shows [OF st])
  next
    case 2
    then have "d = d'" using same_id [OF ok(2), of d d'] d'(1) get_by_hash_key by metis
    then show ?thesis using 2 get_by_hash_key [OF 2(1)] by (simp add: stable_shows [OF st])
  qed
qed

text \<open>The builds of a project ingested one after the other; the runner logs an error and goes on.\<close>

definition ingest_builds :: "(string \<Rightarrow> string) \<Rightarrow> time \<Rightarrow> int \<Rightarrow> int list \<Rightarrow> defect_db \<Rightarrow> defect_db" where
  "ingest_builds sha now pid bids db = fold (\<lambda>b db. snd (compute_defect_fingerprints sha now pid b db)) bids db"

definition can_ingest :: "(string \<Rightarrow> string) \<Rightarrow> int \<Rightarrow> int list \<Rightarrow> defect_db \<Rightarrow> bool" where
  "can_ingest sha pid bids db \<longleftrightarrow> defects_ok db
     \<and> list_all (\<lambda>b. honest sha pid b db \<and> ingestible pid b db) bids"

lemma can_ingest_step:
  assumes "can_ingest sha pid (b # bids) db"
  obtains db1 where "compute_defect_fingerprints sha now pid b db = (None, db1)" and "can_ingest sha pid bids db1"
    and "follows sha pid b db db1" and "stable sha pid b db db1"
proof -
  obtain db1 where 1: "compute_defect_fingerprints sha now pid b db = (None, db1)" "defects_ok db1"
      "follows sha pid b db db1" "stable sha pid b db db1"
    using ingest_step [of db sha pid b now] assms by (auto simp: can_ingest_def)
  then have "can_ingest sha pid bids db1"
    using assms stable_honest [OF 1(4,3) _ 1(2)] stable_ingestible [OF 1(4)]
    by (auto simp: can_ingest_def list_all_iff)
  with 1 show thesis by (intro that)
qed

lemma ingest_builds_life:
  assumes "can_ingest sha pid bids db" and "get_by_hash p h db = Some d"
  shows "\<exists>d'. get_by_hash p h (ingest_builds sha now pid bids db) = Some d' \<and> d_id d' = d_id d
     \<and> d_category d' = d_category d \<and> d_known_issue d' = d_known_issue d
     \<and> life d' = (if p = pid then fold life_step (map (shows_defect sha pid h db) bids) (life d) else life d)"
  using assms
proof (induction bids arbitrary: db d)
  case Nil
  then show ?case by (simp add: ingest_builds_def)
next
  case (Cons b bids)
  obtain db1 where run: "compute_defect_fingerprints sha now pid b db = (None, db1)" and can: "can_ingest sha pid bids db1"
    and fol: "follows sha pid b db db1" and stab: "stable sha pid b db db1"
    using Cons.prems(1) by (rule can_ingest_step)
  obtain d1 where d1: "get_by_hash p h db1 = Some d1" "d_id d1 = d_id d" "d_category d1 = d_category d"
      "d_known_issue d1 = d_known_issue d"
      "life d1 = (if p = pid then life_step (shows_defect sha pid h db b) (life d) else life d)"
    using fol Cons.prems(2) unfolding follows_def by blast
  from Cons.IH [OF can d1(1)] d1 run show ?case
    by (auto simp: ingest_builds_def stable_shows [OF stab] cong: map_cong)
qed

lemma ingest_builds_stable:
  assumes "can_ingest sha pid bids db"
  shows "list_failed p b (ingest_builds sha now pid bids db) = list_failed p b db"
  using assms
proof (induction bids arbitrary: db)
  case Nil
  then show ?case by (simp add: ingest_builds_def)
next
  case (Cons x bids)
  obtain db1 where run: "compute_defect_fingerprints sha now pid x db = (None, db1)" and can: "can_ingest sha pid bids db1"
    and stab: "stable sha pid x db db1"
    using Cons.prems by (rule can_ingest_step)
  from Cons.IH [OF can] run stab show ?case by (simp add: ingest_builds_def stable_def)
qed

text \<open>C9: Ingestion refines the life cycle.  Over any sequence of builds, repeated ones included, the
  resolution and clean counter of every defect of the project are the abstract life cycle run over
  whether each build shows its fingerprint; its identity, category and known-issue link never change,
  and the defects of other projects are not touched.\<close>

theorem ingestion_refines_life:
  assumes "can_ingest sha pid bids db" and "get_by_hash p h db = Some d"
  shows "\<exists>d'. get_by_hash p h (ingest_builds sha now pid bids db) = Some d' \<and> d_id d' = d_id d
     \<and> d_category d' = d_category d \<and> d_known_issue d' = d_known_issue d
     \<and> life d' = (if p = pid then fold life_step (map (shows_defect sha pid h db) bids) (life d) else life d)"
  using assms by (rule ingest_builds_life)

text \<open>The life cycle never touches a decision of a person, fixes only after three clean builds in a row,
  and reopens on the first build that shows a fixed defect again.\<close>

lemma life_keeps_decisions:
  "res \<noteq> ''open'' \<Longrightarrow> res \<noteq> ''fixed'' \<Longrightarrow> fst (fold life_step shows (res, c)) = res"
proof (induction "shows" arbitrary: c)
  case (Cons s sh)
  then show ?case by (cases s) auto
qed simp

section \<open>Every failure is filed under its defect\<close>

lemma link_results:
  "results (link_test_results k bid ids db) = tbl_update (\<lambda>r. tr_id r \<in> set ids) (\<lambda>r. r\<lparr>tr_defect := Some k\<rparr>) (results db)"
  by (simp add: link_test_results_def Let_def tbl_update_def)

definition filed :: "int \<Rightarrow> int \<Rightarrow> int \<Rightarrow> nat \<Rightarrow> int \<Rightarrow> defect_db \<Rightarrow> bool" where
  "filed pid bid i k n db \<longleftrightarrow> (\<forall>r \<in> set (results db). tr_id r = i \<longrightarrow> tr_defect r = Some k)
     \<and> (\<exists>r \<in> set (occurrences db). oc_key r = (k, bid) \<and> oc_tests r = n)"

lemma link_files:
  assumes "i \<in> set ids"
  shows "filed pid bid i k (int (length ids)) (link_test_results k bid ids db)"
proof -
  have ne: "ids \<noteq> []" using assms by auto
  let ?p = "\<lambda>r. oc_key r = (k, bid)" and ?n = "int (length ids)"
  have "\<exists>r \<in> set (occurrences (link_test_results k bid ids db)). oc_key r = (k, bid) \<and> oc_tests r = ?n"
  proof (cases "tbl_count ?p (occurrences db) = 0")
    case True
    then show ?thesis using ne by (simp add: link_test_results_def Let_def)
  next
    case False
    then obtain r where r: "r \<in> set (occurrences db)" "?p r" by (auto simp: tbl_simps)
    then have "r\<lparr>oc_tests := ?n\<rparr> \<in> set (tbl_update ?p (\<lambda>r. r\<lparr>oc_tests := ?n\<rparr>) (occurrences db))"
      unfolding set_tbl_update by force
    with False ne r show ?thesis
      by (intro bexI [of _ "r\<lparr>oc_tests := ?n\<rparr>"]) (simp_all add: link_test_results_def Let_def)
  qed
  moreover have "\<forall>r \<in> set (results (link_test_results k bid ids db)). tr_id r = i \<longrightarrow> tr_defect r = Some k"
    using assms by (auto simp: link_results tbl_simps)
  ultimately show ?thesis by (simp add: filed_def)
qed

lemma link_keeps_filed:
  assumes "filed pid bid i k n db" and "i \<notin> set ids" and "j \<noteq> k"
  shows "filed pid bid i k n (link_test_results j bid ids db)"
proof -
  obtain r where r: "r \<in> set (occurrences db)" "oc_key r = (k, bid)" "oc_tests r = n"
    using assms(1) by (auto simp: filed_def)
  then have "r \<in> set (occurrences (link_test_results j bid ids db))"
    using assms(3) by (auto simp: link_test_results_def Let_def tbl_simps)
  then have "\<exists>r \<in> set (occurrences (link_test_results j bid ids db)). oc_key r = (k, bid) \<and> oc_tests r = n"
    using r by blast
  then show ?thesis using assms(1,2) by (auto simp: filed_def link_results tbl_simps)
qed

lemma fold_link_keeps_filed:
  assumes "filed pid bid i k n db" and "\<forall>g \<in> set gs. i \<notin> set (fr_ids g)"
    and "\<forall>g \<in> set gs. \<forall>d. get_by_hash pid (fr_hash g) db = Some d \<longrightarrow> d_id d \<noteq> k"
  shows "filed pid bid i k n (fold (link_group pid bid) gs db)"
  using assms
proof (induction gs arbitrary: db)
  case Nil
  then show ?case by simp
next
  case (Cons g gs)
  have get: "get_by_hash pid h (link_group pid bid g db) = get_by_hash pid h db" for h
    by (rule get_by_hash_cong) simp
  have "filed pid bid i k n (link_group pid bid g db)"
    using Cons.prems by (auto simp: link_group_def link_keeps_filed split: option.splits)
  then show ?case using Cons.IH [of "link_group pid bid g db"] Cons.prems by (simp add: get)
qed

lemma fold_link_files:
  assumes "g \<in> set gs" and "i \<in> set (fr_ids g)" and "get_by_hash pid (fr_hash g) db = Some d"
    and dist: "distinct (map fr_hash gs)"
    and only: "\<And>x. x \<in> set gs \<Longrightarrow> i \<in> set (fr_ids x) \<Longrightarrow> x = g" and ok: "defects_ok db"
  shows "filed pid bid i (d_id d) (int (length (fr_ids g))) (fold (link_group pid bid) gs db)"
proof -
  obtain A B where gs: "gs = A @ g # B" using assms(1) by (meson split_list)
  let ?a = "fold (link_group pid bid) A db"
  have get: "get_by_hash pid h (link_group pid bid g ?a) = get_by_hash pid h db"
      "get_by_hash pid h ?a = get_by_hash pid h db" for h
    by (rule get_by_hash_cong, simp)+
  have 1: "filed pid bid i (d_id d) (int (length (fr_ids g))) (link_group pid bid g ?a)"
    using assms(2,3) by (simp add: link_group_def get link_files)
  have B: "fr_hash x \<noteq> fr_hash g" if "x \<in> set B" for x
  proof -
    have "fr_hash g \<notin> fr_hash ` set B" using dist gs by simp
    with that show ?thesis by (metis imageI)
  qed
  have "filed pid bid i (d_id d) (int (length (fr_ids g))) (fold (link_group pid bid) B (link_group pid bid g ?a))"
  proof (rule fold_link_keeps_filed [OF 1])
    show "\<forall>x \<in> set B. i \<notin> set (fr_ids x)"
    proof
      fix x assume x: "x \<in> set B"
      show "i \<notin> set (fr_ids x)" using only [of x] B [OF x] x gs by auto
    qed
    show "\<forall>x \<in> set B. \<forall>e. get_by_hash pid (fr_hash x) (link_group pid bid g ?a) = Some e \<longrightarrow> d_id e \<noteq> d_id d"
    proof (intro ballI allI impI)
      fix x e assume x: "x \<in> set B" and "get_by_hash pid (fr_hash x) (link_group pid bid g ?a) = Some e"
      then have e: "get_by_hash pid (fr_hash x) db = Some e" by (simp add: get)
      show "d_id e \<noteq> d_id d"
        using same_id [OF ok, of e d] get_by_hash_key [OF e] get_by_hash_key [OF assms(3)] B [OF x] by metis
    qed
  qed
  then show ?thesis by (simp add: gs)
qed

lemma filed_mono:
  assumes "filed pid bid i k n db" and "results db' = results db" and "occurrences db' = occurrences db"
  shows "filed pid bid i k n db'"
  using assms by (simp add: filed_def)

lemma filed_mark:
  assumes "filed pid bid i k n db"
  shows "filed pid bid i k n (mark_regressions b ks db)"
proof -
  obtain r where r: "r \<in> set (occurrences db)" "oc_key r = (k, bid)" "oc_tests r = n"
    using assms by (auto simp: filed_def)
  have "\<exists>r \<in> set (occurrences (mark_regressions b ks db)). oc_key r = (k, bid) \<and> oc_tests r = n"
  proof (cases "ks = []")
    case False
    then have "(if oc_build r = b \<and> oc_defect r \<in> set ks then r\<lparr>oc_regression := True\<rparr> else r)
        \<in> set (occurrences (mark_regressions b ks db))"
      unfolding mark_regressions_def using r(1) by (simp add: tbl_update_def)
    then show ?thesis using r(2,3) by (rule_tac bexI) auto
  qed (use r in \<open>auto simp: mark_regressions_def\<close>)
  then show ?thesis using assms by (auto simp: filed_def)
qed

lemma ids_in_order: "distinct (map tr_id rs) \<Longrightarrow> distinct (map tr_id (sort_key tr_id (filter p rs)))"
  by (metis distinct_map distinct_map_filter distinct_sort set_sort)

lemma list_failed_distinct: "distinct (map tr_id (results db)) \<Longrightarrow> distinct (map ft_id (list_failed pid bid db))"
  by (simp add: list_failed_def o_def ids_in_order)

text \<open>C12: After a build's failures are ingested, every failing or broken result of the build points to the
  defect of the project with its fingerprint, and the occurrence row of that defect and build counts
  exactly the build's failures with that fingerprint.\<close>

theorem failures_filed:
  assumes "r \<in> set (list_failed pid bid db)" and "distinct (map tr_id (results db))"
    and "defects_ok db" and "ingestible pid bid db"
  shows "\<exists>d. get_by_hash pid (result_hash sha r) (snd (compute_defect_fingerprints sha now pid bid db)) = Some d
     \<and> filed pid bid (ft_id r) (d_id d)
         (int (length (filter (\<lambda>x. result_hash sha x = result_hash sha r) (list_failed pid bid db))))
         (snd (compute_defect_fingerprints sha now pid bid db))"
proof -
  let ?rs = "list_failed pid bid db"
  define gs where "gs = compute_fingerprints sha ?rs"
  have ne: "?rs \<noteq> []" using assms(1) by auto
  obtain db1 where up: "upsert_all now pid bid gs db = Inr db1"
    and run: "compute_defect_fingerprints sha now pid bid db =
      (None, let db3 = count_and_resolve now pid bid (fold (link_group pid bid) gs db1)
             in mark_regressions bid (detect_regressions pid bid db3) db3)"
    using ne assms(4) gs_def by (rule ingest_stages)
  have dist: "distinct (map fr_hash gs)" by (simp add: gs_def compute_fingerprints_hashes)
  have "result_hash sha r \<in> fr_hash ` set gs" using assms(1) by (simp add: gs_def hashes_of_groups)
  then obtain g where g: "g \<in> set gs" "fr_hash g = result_hash sha r" by force
  have ids: "fr_ids x = map ft_id (filter (\<lambda>y. result_hash sha y = fr_hash x) ?rs)" if "x \<in> set gs" for x
    using compute_fingerprints_ids(1) that unfolding gs_def by blast
  have i: "ft_id r \<in> set (fr_ids g)" using ids [OF g(1)] g(2) assms(1) by auto
  have same: "y = r" if "y \<in> set ?rs" "ft_id y = ft_id r" for y
    using list_failed_distinct [OF assms(2), of pid bid] that assms(1) by (auto simp: distinct_map inj_on_def)
  have only: "x = g" if x: "x \<in> set gs" "ft_id r \<in> set (fr_ids x)" for x
  proof -
    have "fr_hash x = result_hash sha r" using ids [OF x(1)] x(2) same by auto
    then show ?thesis using dist x(1) g by (auto simp: distinct_map inj_on_def)
  qed
  obtain d where d: "get_by_hash pid (fr_hash g) db1 = Some d" using upsert_all_get [OF up dist g(1)] by blast
  have ok1: "defects_ok db1" using upsert_all_frame [OF up] assms(3) by simp
  let ?db2 = "fold (link_group pid bid) gs db1"
  let ?db3 = "count_and_resolve now pid bid ?db2"
  have "filed pid bid (ft_id r) (d_id d) (int (length (fr_ids g))) ?db2"
    by (rule fold_link_files [OF g(1) i d dist _ ok1]) (rule only)
  then have f3: "filed pid bid (ft_id r) (d_id d) (int (length (fr_ids g))) ?db3"
    by (rule filed_mono) simp_all
  have "get_by_hash pid (result_hash sha r) ?db2 = Some d"
    using d g(2) get_by_hash_cong [of ?db2 db1] by simp
  then have "\<exists>e. get_by_hash pid (result_hash sha r) ?db3 = Some e \<and> d_id e = d_id d"
    by (simp add: get_count_and_resolve)
  moreover have "get_by_hash pid h (mark_regressions b ks db) = get_by_hash pid h db" for h b ks db
    by (rule get_by_hash_cong) simp
  ultimately show ?thesis
    using filed_mark [OF f3] g(2) ids [OF g(1)] by (auto simp: run Let_def)
qed

section \<open>What goes wrong\<close>

text \<open>C31: A failure message cut inside a character loses the whole ingestion.  \<open>NormalizeMessage\<close> cuts at 1000
  bytes; when the cut falls inside a two-byte character the upsert is refused, nothing is written for
  any failure of the build, and no clean build is counted.\<close>

theorem cut_character_aborts_ingestion:
  assumes "r \<in> set (list_failed pid bid db)" and "status_message r = m @ [CHR 0xC3, CHR 0xA9]"
    and "length m = 999" and "list_all (\<lambda>c. 58 \<le> (of_char c :: nat) \<and> (of_char c :: nat) \<le> 127) m"
    and "\<forall>x \<in> set (list_failed pid bid db). result_hash sha x = result_hash sha r \<longrightarrow> x = r"
  shows "valid_text (status_message r)
    \<and> (\<exists>e. compute_defect_fingerprints sha now pid bid db = (Some e, db))"
proof
  let ?rs = "list_failed pid bid db"
  have m: "\<not> list_ex (in_cls False dynamic_char) (status_message r)"
    using assms(4) by (auto simp: assms(2) list_ex_iff list_all_iff in_cls_def dynamic_char_def)
  have ascii: "list_all (\<lambda>c. (of_char c :: nat) \<le> 127) m" using assms(4) by (auto simp: list_all_iff)
  have "CHR 0x00 \<notin> set m" using assms(4) by (auto simp: list_all_iff)
  then show "valid_text (status_message r)"
    by (simp add: valid_text_def assms(2) valid_utf8_ascii [OF ascii] cont_byte_def)
  have "effective_message r = status_message r" by (simp add: effective_message_def assms(2))
  then have "normalize_message (effective_message r) = m @ [CHR 0xC3]"
    using normalize_static [OF m] assms(3) by (simp add: assms(2))
  then have bad: "\<not> valid_text (normalize_message (effective_message r))"
    by (simp add: valid_text_def valid_utf8_ascii [OF ascii])
  define gs where "gs = compute_fingerprints sha ?rs"
  have "result_hash sha r \<in> fr_hash ` set gs" using assms(1) by (simp add: gs_def hashes_of_groups)
  then obtain g where g: "g \<in> set gs" "fr_hash g = result_hash sha r" by force
  have "fr_message g = normalize_message (effective_message r)"
    using compute_fingerprints_ids(3) [OF g(1) [unfolded gs_def]] assms(5) g(2) by metis
  then obtain e where "upsert_all now pid bid gs db = Inl e" using upsert_all_rejects [OF g(1), of now pid bid db] bad by auto
  then show "\<exists>e. compute_defect_fingerprints sha now pid bid db = (Some e, db)"
    using g(1) assms(1) by (auto simp: compute_defect_fingerprints_def upsert_fingerprints_def gs_def [symmetric] Let_def)
qed

text \<open>The maintenance command is an ingestion of the builds with failures, newest first.\<close>

lemma backfill_fold:
  assumes "can_ingest sha pid (map b_id bs) db"
  shows "fold (\<lambda>b db. if list_failed pid (b_id b) db = [] then db
      else snd (compute_defect_fingerprints sha now pid (b_id b) db)) bs db
    = ingest_builds sha now pid (filter (\<lambda>b. list_failed pid b db \<noteq> []) (map b_id bs)) db"
  using assms
proof (induction bs arbitrary: db)
  case Nil
  then show ?case by (simp add: ingest_builds_def)
next
  case (Cons b bs)
  show ?case
  proof (cases "list_failed pid (b_id b) db = []")
    case True
    have "can_ingest sha pid (map b_id bs) db" using Cons.prems by (simp add: can_ingest_def)
    from Cons.IH [OF this] True show ?thesis by simp
  next
    case False
    obtain db1 where run: "compute_defect_fingerprints sha now pid (b_id b) db = (None, db1)"
      and can: "can_ingest sha pid (map b_id bs) db1" and stab: "stable sha pid (b_id b) db db1"
      using Cons.prems can_ingest_step [of sha pid "b_id b" "map b_id bs" db] by auto
    from Cons.IH [OF can] False run stab show ?thesis by (simp add: ingest_builds_def stable_def)
  qed
qed

lemma backfill_is_ingestion:
  assumes "can_ingest sha pid (map b_id (list_builds pid db)) db"
  shows "backfill_project sha now 0 pid db
    = ingest_builds sha now pid (filter (\<lambda>b. list_failed pid b db \<noteq> []) (map b_id (list_builds pid db))) db"
  using backfill_fold [OF assms] by (simp add: backfill_project_def)

lemma life_stays_fixed: "list_all Not xs \<Longrightarrow> fold life_step xs (''fixed'', c) = (''fixed'', c)"
  by (induction xs) auto

lemma life_three_clean:
  assumes "list_all Not xs" and "3 \<le> length xs"
  shows "fst (fold life_step xs (''open'', 0)) = ''fixed''"
proof -
  obtain x y z zs where xs: "xs = x # y # z # zs"
    using assms(2) by (metis Suc_le_length_iff numeral_3_eq_3)
  then show ?thesis using assms(1) life_stays_fixed [of zs] by simp
qed

text \<open>The maintenance command that re-derives fingerprints resolves defects that still fail.  It takes
  the builds newest first, so every older build with other failures counts as a clean build after the
  newest one: with three of them, a defect that the newest build shows ends up fixed.\<close>

theorem backfill_resolves_live_defect:
  assumes "can_ingest sha pid (map b_id (list_builds pid db)) db"
    and "filter (\<lambda>b. list_failed pid b db \<noteq> []) (map b_id (list_builds pid db)) = newest # older"
    and "3 \<le> length older" and "shows_defect sha pid h db newest"
    and "list_all (\<lambda>b. \<not> shows_defect sha pid h db b) older"
    and "get_by_hash pid h db = Some d" and "d_resolution d \<in> {''open'', ''fixed''}"
  shows "\<exists>d'. get_by_hash pid h (backfill_project sha now 0 pid db) = Some d' \<and> d_resolution d' = ''fixed''
     \<and> shows_defect sha pid h (backfill_project sha now 0 pid db) newest"
proof -
  let ?bids = "filter (\<lambda>b. list_failed pid b db \<noteq> []) (map b_id (list_builds pid db))"
  let ?after = "backfill_project sha now 0 pid db"
  have after: "?after = ingest_builds sha now pid ?bids db" by (rule backfill_is_ingestion [OF assms(1)])
  have can: "can_ingest sha pid ?bids db" using assms(1) by (auto simp: can_ingest_def list_all_iff)
  obtain d' where d': "get_by_hash pid h ?after = Some d'"
      "life d' = fold life_step (map (shows_defect sha pid h db) ?bids) (life d)"
    using ingest_builds_life [OF can assms(6), of now] after by auto
  have "life_step True (life d) = (''open'', 0)" using assms(7) by (auto simp: life_def)
  then have "life d' = fold life_step (map (shows_defect sha pid h db) older) (''open'', 0)"
    using d'(2) assms(2,4) by simp
  then have "fst (life d') = ''fixed''"
    using life_three_clean [of "map (shows_defect sha pid h db) older"] assms(3,5)
    by (simp add: list_all_iff)
  moreover have "shows_defect sha pid h ?after newest"
    using assms(4) ingest_builds_stable [OF can] by (simp add: shows_defect_def after)
  ultimately show ?thesis using d'(1) by (auto simp: life_def)
qed

lemma detect_member:
  assumes "d \<in> set (defects db)" and "d_project d = pid" and "seen_in bid db (d_id d)" and "d_first d \<noteq> bid"
    and "prev_build pid bid db = Some p" and "\<not> seen_in p db (d_id d)"
  shows "d_id d \<in> set (detect_regressions pid bid db)"
  using assms by (simp add: detect_regressions_def)

text \<open>A defect is marked as a regression without ever having been fixed: it is enough that it was known
  and that the build just before did not show it.\<close>

theorem regression_without_fix:
  assumes "r \<in> set (list_failed pid bid db)" and "defects_ok db" and "ingestible pid bid db"
    and "get_by_hash pid (result_hash sha r) db = Some d" and "d_resolution d = ''open''" and "d_first d \<noteq> bid"
    and "prev_build pid bid db = Some p" and "p \<noteq> bid" and "\<not> seen_in p db (d_id d)"
  shows "\<exists>oc \<in> set (occurrences (snd (compute_defect_fingerprints sha now pid bid db))).
    oc_key oc = (d_id d, bid) \<and> oc_regression oc"
proof -
  define gs where "gs = compute_fingerprints sha (list_failed pid bid db)"
  have ne: "list_failed pid bid db \<noteq> []" using assms(1) by auto
  obtain db1 where up: "upsert_all now pid bid gs db = Inr db1"
    and run: "compute_defect_fingerprints sha now pid bid db =
      (None, let db3 = count_and_resolve now pid bid (fold (link_group pid bid) gs db1)
             in mark_regressions bid (detect_regressions pid bid db3) db3)"
    using ne assms(3) gs_def by (rule ingest_stages)
  note fr = upsert_all_frame [OF up]
  have dist: "distinct (map fr_hash gs)" by (simp add: gs_def compute_fingerprints_hashes)
  have h: "result_hash sha r \<in> fr_hash ` set gs" using assms(1) by (simp add: gs_def hashes_of_groups)
  let ?db2 = "fold (link_group pid bid) gs db1"
  let ?db3 = "count_and_resolve now pid bid ?db2"
  obtain g where g: "get_by_hash pid (result_hash sha r) db1 = Some (seen_again now bid g d)"
    and seen: "seen_in bid ?db2 (d_id d)"
    using upsert_then_linked(1) [OF up dist _ assms(2,4) h] compute_fingerprints_ids(2) unfolding gs_def by blast
  have "get_by_hash pid (result_hash sha r) ?db2 = Some (seen_again now bid g d)"
    using g get_by_hash_cong [of ?db2 db1] by simp
  then have g3: "get_by_hash pid (result_hash sha r) ?db3 = Some (counted now (seen_in bid ?db2 (d_id d)) (seen_again now bid g d))"
    by (simp add: get_count_and_resolve)
  have prev: "prev_build pid bid ?db3 = Some p" using assms(7) fr by (simp add: prev_build_def)
  let ?d = "counted now (seen_in bid ?db2 (d_id d)) (seen_again now bid g d)"
  have "seen_in p ?db3 (d_id d) = seen_in p db (d_id d)"
  proof -
    have "seen_in p ?db3 (d_id d) = seen_in p ?db2 (d_id d)" by (simp add: seen_in_def)
    also have "\<dots> = seen_in p db1 (d_id d)" using assms(8) by (simp add: seen_in_fold_link)
    finally show ?thesis using fr by (simp add: seen_in_def)
  qed
  moreover have "seen_in bid ?db3 (d_id d)" using seen by (simp add: seen_in_def)
  moreover have "d_first ?d = d_first d" by (simp add: counted_def seen_again_def Let_def)
  ultimately have "d_id ?d \<in> set (detect_regressions pid bid ?db3)"
    using get_by_hash_key [OF g3] assms(6,9) prev by (intro detect_member) simp_all
  then have det: "d_id d \<in> set (detect_regressions pid bid ?db3)" by simp
  obtain x where x: "x \<in> set (occurrences ?db3)" "oc_key x = (d_id d, bid)"
    using seen by (auto simp: seen_in_def list_ex_iff)
  then have "x\<lparr>oc_regression := True\<rparr> \<in> set (occurrences (mark_regressions bid (detect_regressions pid bid ?db3) ?db3))"
    using det by (auto simp: mark_regressions_def tbl_simps)
  then show ?thesis using x(2) by (intro bexI [of _ "x\<lparr>oc_regression := True\<rparr>"]) (simp_all add: run Let_def)
qed

section \<open>A small instance\<close>

definition demo_sha :: "string \<Rightarrow> string" where
  "demo_sha s = s"

definition demo_failure :: "int \<Rightarrow> string \<Rightarrow> failed_test" where
  "demo_failure i m = \<lparr>ft_id = i, status_message = m, status_trace = []\<rparr>"

definition demo_hash :: "string \<Rightarrow> string" where
  "demo_hash m = result_hash demo_sha (demo_failure 0 m)"

definition demo_row :: "int \<Rightarrow> int \<Rightarrow> string \<Rightarrow> test_row" where
  "demo_row i b m = \<lparr>tr_id = i, tr_build = b, tr_project = 1, tr_status = ''failed'', tr_message = m,
     tr_trace = [], tr_defect = None\<rparr>"

definition demo_defect :: defect where
  "demo_defect = \<lparr>d_id = 0, d_project = 1, d_hash = demo_hash ''b'', d_message = ''b'', d_trace = [],
     d_category = ''to_investigate'', d_resolution = ''open'', d_known_issue = None, d_first = 1, d_last = 4,
     d_count = 2, d_clean = 0, d_created = 1, d_updated = 4\<rparr>"

text \<open>Four builds; the failures of the first three differ from that of the fourth, a known defect.\<close>

definition demo_db :: "test_row list \<Rightarrow> occurrence list \<Rightarrow> defect_db" where
  "demo_db rs occs = \<lparr>defects = [demo_defect], occurrences = occs, results = rs,
     builds = map (\<lambda>n. \<lparr>b_id = n, b_project = 1, b_order = n, b_created = n\<rparr>) [1, 2, 3, 4],
     projects = [(1, ''p'')], next_defect = 1\<rparr>"

definition demo_known :: defect_db where
  "demo_known = demo_db [demo_row 10 1 ''a'', demo_row 11 2 ''a'', demo_row 12 3 ''a'', demo_row 13 4 ''b'']
     [\<lparr>oc_defect = 0, oc_build = 4, oc_tests = 1, oc_regression = False\<rparr>]"

lemma demo_can: "can_ingest demo_sha 1 [4, 3, 2, 1] demo_known"
  by code_simp

lemma demo_shows: "map (shows_defect demo_sha 1 (demo_hash ''b'') demo_known) [4, 3, 2, 1] = [True, False, False, False]"
  by code_simp

lemma demo_get: "get_by_hash 1 (demo_hash ''b'') demo_known = Some demo_defect"
  by (simp add: get_by_hash_def demo_known_def demo_db_def demo_defect_def tbl_simps)

lemma demo_builds: "map b_id (list_builds 1 demo_known) = [4, 3, 2, 1]"
  by code_simp

lemma demo_failing: "filter (\<lambda>b. list_failed 1 b demo_known \<noteq> []) [4, 3, 2, 1] = [4, 3, 2, 1]"
  by code_simp

lemma demo_failed: "list_failed 1 1 demo_known = [demo_failure 10 ''a'']"
  by code_simp

theorem ingestion_refines_life_witness:
  "\<exists>d'. get_by_hash 1 (demo_hash ''b'') (ingest_builds demo_sha 9 1 [4, 3, 2, 1] demo_known) = Some d'
     \<and> d_category d' = ''to_investigate'' \<and> life d' = (''fixed'', 3)"
proof -
  have "life demo_defect = (''open'', 0)" by (simp add: life_def demo_defect_def)
  then show ?thesis
    using ingestion_refines_life [OF demo_can demo_get, of 9] unfolding demo_shows
    by (auto simp: demo_defect_def)
qed

theorem failures_filed_witness:
  "\<exists>d. get_by_hash 1 (result_hash demo_sha (demo_failure 10 ''a'')) (snd (compute_defect_fingerprints demo_sha 9 1 1 demo_known)) = Some d
     \<and> filed 1 1 10 (d_id d) 1 (snd (compute_defect_fingerprints demo_sha 9 1 1 demo_known))"
proof -
  have "distinct (map tr_id (results demo_known))" by code_simp
  moreover have "defects_ok demo_known" "ingestible 1 1 demo_known" using demo_can by (simp_all add: can_ingest_def)
  ultimately show ?thesis
    using failures_filed [of "demo_failure 10 ''a''" 1 1 demo_known demo_sha 9]
    by (simp add: demo_failed) (simp add: demo_failure_def)
qed

definition cut_text :: string where
  "cut_text = replicate 999 (CHR ''a'')"

definition demo_cut :: defect_db where
  "demo_cut = demo_db [demo_row 10 1 (cut_text @ [CHR 0xC3, CHR 0xA9])] []"

theorem cut_character_aborts_ingestion_witness:
  "valid_text (cut_text @ [CHR 0xC3, CHR 0xA9])
   \<and> (\<exists>e. compute_defect_fingerprints demo_sha 9 1 1 demo_cut = (Some e, demo_cut))"
proof -
  let ?r = "demo_failure 10 (cut_text @ [CHR 0xC3, CHR 0xA9])"
  have "list_failed 1 1 demo_cut = [?r]"
    by (simp add: list_failed_def demo_cut_def demo_db_def demo_row_def demo_failure_def)
  moreover have "length cut_text = 999" "list_all (\<lambda>c. 58 \<le> (of_char c :: nat) \<and> (of_char c :: nat) \<le> 127) cut_text"
    by (simp_all add: cut_text_def list_all_iff)
  moreover have "status_message ?r = cut_text @ [CHR 0xC3, CHR 0xA9]" by (simp add: demo_failure_def)
  ultimately show ?thesis
    using cut_character_aborts_ingestion [of ?r 1 1 demo_cut cut_text demo_sha 9] by simp
qed

theorem backfill_resolves_live_defect_witness:
  "\<exists>d'. get_by_hash 1 (demo_hash ''b'') (backfill_project demo_sha 9 0 1 demo_known) = Some d' \<and> d_resolution d' = ''fixed''
     \<and> shows_defect demo_sha 1 (demo_hash ''b'') (backfill_project demo_sha 9 0 1 demo_known) 4"
proof (rule backfill_resolves_live_defect)
  show "can_ingest demo_sha 1 (map b_id (list_builds 1 demo_known)) demo_known"
    unfolding demo_builds by (rule demo_can)
  show "filter (\<lambda>b. list_failed 1 b demo_known \<noteq> []) (map b_id (list_builds 1 demo_known)) = 4 # [3, 2, 1]"
    unfolding demo_builds by (rule demo_failing)
  show "shows_defect demo_sha 1 (demo_hash ''b'') demo_known 4"
    "list_all (\<lambda>b. \<not> shows_defect demo_sha 1 (demo_hash ''b'') demo_known b) [3, 2, 1]"
    using demo_shows by simp_all
  show "get_by_hash 1 (demo_hash ''b'') demo_known = Some demo_defect" by (rule demo_get)
qed (simp_all add: demo_defect_def)

text \<open>The defect of build 1 is absent from build 2 and back in build 3.\<close>

definition demo_flap :: defect_db where
  "demo_flap = demo_db [demo_row 10 1 ''b'', demo_row 11 2 ''a'', demo_row 12 3 ''b'']
     [\<lparr>oc_defect = 0, oc_build = 1, oc_tests = 1, oc_regression = False\<rparr>]"

lemma demo_flap_can: "can_ingest demo_sha 1 [3] demo_flap"
  by code_simp

theorem regression_without_fix_witness:
  "\<exists>oc \<in> set (occurrences (snd (compute_defect_fingerprints demo_sha 9 1 3 demo_flap))). oc_key oc = (0, 3) \<and> oc_regression oc"
proof -
  have "list_failed 1 3 demo_flap = [demo_failure 12 ''b'']" by code_simp
  moreover have "result_hash demo_sha (demo_failure 12 ''b'') = demo_hash ''b''"
    by (simp add: demo_hash_def result_hash_def effective_message_def demo_failure_def)
  moreover have "get_by_hash 1 (demo_hash ''b'') demo_flap = Some demo_defect"
    by (simp add: get_by_hash_def demo_flap_def demo_db_def demo_defect_def tbl_simps)
  moreover have "prev_build 1 3 demo_flap = Some 2" "\<not> seen_in 2 demo_flap (d_id demo_defect)" by code_simp+
  moreover have "d_id demo_defect = 0" "d_resolution demo_defect = ''open''" "d_first demo_defect = 1"
    by (simp_all add: demo_defect_def)
  ultimately show ?thesis
    using regression_without_fix [of "demo_failure 12 ''b''" 1 3 demo_flap demo_sha demo_defect 2 9] demo_flap_can
    by (simp add: can_ingest_def)
qed

end
