(* ===== verification/DefectHandler.thy ===== *)
theory DefectHandler
  imports ProjectAccess Defects
begin

text \<open>
  Reading and classifying defects over HTTP: \<open>handlers/defect_handler.go\<close>, with the queries of
  \<open>store/pg/defect.go\<close> it calls (\<open>listDefects\<close>, \<open>GetTestResults\<close>, the two summaries and the lists of
  regressions).

  \<open>uid\<close> is the database's reading of a UUID: \<open>None\<close> for a text that is none, else the row id.  \<open>found\<close> is
  the order in which the database finds rows before it sorts them, which SQL leaves open.  Of a known issue
  the model has id and test name; texts are read as ASCII by ILIKE.
\<close>

section \<open>Queries\<close>

record defect_filter =
  df_resolution :: string
  df_category :: string
  df_search :: string
  df_sort :: string
  df_order :: string
  df_page :: int
  df_per_page :: int

record defect_row =
  dl_defect :: defect
  dl_tests :: "int option"
  dl_first_number :: int
  dl_last_number :: int
  dl_regression :: bool
  dl_new :: bool
  dl_issue :: "(int \<times> string) option"

definition defect_matches :: "int \<Rightarrow> int option \<Rightarrow> defect_filter \<Rightarrow> defect_db \<Rightarrow> defect \<Rightarrow> bool" where
  "defect_matches pid b f db d \<longleftrightarrow> d_project d = pid
     \<and> (case b of None \<Rightarrow> True | Some bid \<Rightarrow> seen_in bid db (d_id d))
     \<and> (df_resolution f = [] \<or> d_resolution d = df_resolution f)
     \<and> (df_category f = [] \<or> d_category d = df_category f)
     \<and> (df_search f = [] \<or> ilike_contains (d_message d) (df_search f))"

definition sort_column :: "string \<Rightarrow> defect \<Rightarrow> int" where
  "sort_column s d = (if s = ''first_seen'' then d_first d else if s = ''last_seen'' then d_last d else d_count d)"

definition build_number :: "int \<Rightarrow> defect_db \<Rightarrow> int option" where
  "build_number bid db = map_option b_order (tbl_find (\<lambda>b. b_id b = bid) (builds db))"

definition list_row :: "int option \<Rightarrow> (int \<times> string) list \<Rightarrow> defect_db \<Rightarrow> defect \<Rightarrow> defect_row option" where
  "list_row b issues db d =
     (case (build_number (d_first d) db, build_number (d_last d) db) of
        (Some x, Some y) \<Rightarrow>
          (let oc = (case b of None \<Rightarrow> None | Some bid \<Rightarrow> tbl_find (\<lambda>r. oc_key r = (d_id d, bid)) (occurrences db))
           in Some \<lparr>dl_defect = d, dl_tests = map_option oc_tests oc, dl_first_number = x, dl_last_number = y,
                dl_regression = (case oc of None \<Rightarrow> False | Some r \<Rightarrow> oc_regression r),
                dl_new = (b = Some (d_first d)),
                dl_issue = (case d_known_issue d of None \<Rightarrow> None
                  | Some k \<Rightarrow> tbl_find (\<lambda>i. fst i = k) issues)\<rparr>)
      | _ \<Rightarrow> None)"

definition list_defects ::
  "(defect list \<Rightarrow> defect list) \<Rightarrow> int \<Rightarrow> int option \<Rightarrow> defect_filter \<Rightarrow> (int \<times> string) list \<Rightarrow> defect_db
   \<Rightarrow> string + defect_row list \<times> int" where
  "list_defects found pid b f issues db =
     (let ds = filter (defect_matches pid b f db) (defects db);
          asc = (to_lower (df_order f) = ''asc'');
          page = max (df_page f) 1; per = (if df_per_page f < 1 then 20 else df_per_page f);
          offset = page_offset page per;
          sorted_ds = sort_key (\<lambda>d. if asc then sort_column (df_sort f) d else - sort_column (df_sort f) d) (found ds)
      in if offset < 0 then Inl ''OFFSET must not be negative''
         else Inr (take (nat per) (drop (nat offset) (List.map_filter (list_row b issues db) sorted_ds)),
                   int (length ds)))"

definition get_test_results ::
  "nat \<Rightarrow> int option \<Rightarrow> int \<Rightarrow> int \<Rightarrow> defect_db \<Rightarrow> string + test_row list \<times> int" where
  "get_test_results k b page per db =
     (let page = (if page < 1 then 1 else page); per = (if per < 1 then 20 else per);
          rows = filter (\<lambda>r. tr_defect r = Some k \<and> (case b of None \<Rightarrow> True | Some bid \<Rightarrow> tr_build r = bid)) (results db);
          offset = page_offset page per
      in if offset < 0 then Inl ''OFFSET must not be negative''
         else Inr (take (nat per) (drop (nat offset) (sort_key (\<lambda>r. - tr_id r) rows)), int (length rows)))"

text \<open>\<open>GROUP BY key\<close> with the size of each group.\<close>

definition group_count :: "('r \<Rightarrow> string) \<Rightarrow> 'r list \<Rightarrow> (string \<times> nat) list" where
  "group_count key rows = map (\<lambda>k. (k, tbl_count (\<lambda>r. key r = k) rows)) (remdups (map key rows))"

definition count_for :: "(string \<times> nat) list \<Rightarrow> string \<Rightarrow> nat" where
  "count_for cs k = (case map_of cs k of None \<Rightarrow> 0 | Some n \<Rightarrow> n)"

record project_summary =
  sm_open :: nat
  sm_fixed :: nat
  sm_muted :: nat
  sm_wont_fix :: nat
  sm_regressions :: nat
  sm_categories :: "(string \<times> nat) list"

definition latest_build :: "int \<Rightarrow> defect_db \<Rightarrow> build_row option" where
  "latest_build pid db = (case sort_key b_order (filter (\<lambda>b. b_project b = pid) (builds db)) of
     [] \<Rightarrow> None | bs \<Rightarrow> Some (last bs))"

definition build_before :: "int \<Rightarrow> build_row \<Rightarrow> defect_db \<Rightarrow> build_row option" where
  "build_before pid l db =
     (case sort_key b_order (filter (\<lambda>b. b_project b = pid \<and> b_order b < b_order l) (builds db)) of
        [] \<Rightarrow> None | bs \<Rightarrow> Some (last bs))"

definition regressions_last_build :: "int \<Rightarrow> defect_db \<Rightarrow> nat" where
  "regressions_last_build pid db =
     (case latest_build pid db of None \<Rightarrow> 0
      | Some l \<Rightarrow> tbl_count (\<lambda>d. d_project d = pid \<and> seen_in (b_id l) db (d_id d) \<and> d_first d \<noteq> b_id l
          \<and> \<not> (case build_before pid l db of None \<Rightarrow> False | Some p \<Rightarrow> seen_in (b_id p) db (d_id d))) (defects db))"

definition get_project_summary :: "int \<Rightarrow> defect_db \<Rightarrow> project_summary" where
  "get_project_summary pid db =
     (let ds = filter (\<lambda>d. d_project d = pid) (defects db); by_res = group_count d_resolution ds
      in \<lparr>sm_open = count_for by_res ''open'', sm_fixed = count_for by_res ''fixed'', sm_muted = count_for by_res ''muted'',
          sm_wont_fix = count_for by_res ''wont_fix'', sm_regressions = regressions_last_build pid db,
          sm_categories = group_count d_category (filter (\<lambda>d. d_resolution d = ''open'') ds)\<rparr>)"

record build_summary =
  bs_groups :: nat
  bs_affected :: int
  bs_new :: nat
  bs_regressions :: nat
  bs_categories :: "(string \<times> nat) list"
  bs_resolutions :: "(string \<times> nat) list"

definition get_build_summary :: "int \<Rightarrow> int \<Rightarrow> defect_db \<Rightarrow> build_summary" where
  "get_build_summary pid bid db =
     (let ds = filter (\<lambda>d. d_project d = pid \<and> seen_in bid db (d_id d)) (defects db)
      in \<lparr>bs_groups = length ds,
          bs_affected = sum_list (map oc_tests (filter (\<lambda>r. oc_build r = bid \<and> oc_defect r \<in> d_id ` set ds) (occurrences db))),
          bs_new = tbl_count (\<lambda>d. d_first d = bid) ds,
          bs_regressions = length (detect_regressions pid bid db),
          bs_categories = group_count d_category ds, bs_resolutions = group_count d_resolution ds\<rparr>)"

section \<open>Handlers\<close>

record defect_test =
  dt_build :: int
  dt_status :: string
  dt_message :: string

datatype defect_body =
    DPage "defect_row list" page_meta
  | DTests "defect_test list" page_meta
  | DOne defect
  | DProject project_summary
  | DBuild build_summary
  | DUpdated string
  | DBulk nat

definition parse_defect_filter :: "(string \<Rightarrow> string) \<Rightarrow> defect_filter" where
  "parse_defect_filter query = (let pg = parse_pagination query
     in \<lparr>df_resolution = query ''resolution'', df_category = query ''category'', df_search = query ''search'',
         df_sort = query ''sort_by'', df_order = query ''order'', df_page = pg_page pg, df_per_page = pg_per_page pg\<rparr>)"

definition valid_category :: "string \<Rightarrow> bool" where
  "valid_category s \<longleftrightarrow> s \<in> {''product_bug'', ''test_bug'', ''infrastructure'', ''to_investigate''}"

definition valid_resolution :: "string \<Rightarrow> bool" where
  "valid_resolution s \<longleftrightarrow> s \<in> {''open'', ''fixed'', ''muted'', ''wont_fix''}"

definition list_page ::
  "ctx \<Rightarrow> string \<Rightarrow> (defect list \<Rightarrow> defect list) \<Rightarrow> int \<Rightarrow> int option \<Rightarrow> (string \<Rightarrow> string) \<Rightarrow> (int \<times> string) list
   \<Rightarrow> defect_db \<Rightarrow> defect_body http_reply" where
  "list_page q call found pid b query issues db =
     (let f = parse_defect_filter query
      in if c_fails q call then err 500 ''error listing defects''
         else case list_defects found pid b f issues db of
           Inl _ \<Rightarrow> err 500 ''error listing defects''
         | Inr (rows, n) \<Rightarrow> ok 200 ''Defects successfully obtained''
             (DPage rows (new_pagination_meta (df_page f) (df_per_page f) n)))"

definition list_project_defects ::
  "ctx \<Rightarrow> (defect list \<Rightarrow> defect list) \<Rightarrow> project_row list option \<Rightarrow> string \<Rightarrow> (string \<Rightarrow> string) \<Rightarrow> (int \<times> string) list
   \<Rightarrow> defect_db \<Rightarrow> defect_body http_reply" where
  "list_project_defects q found ps v query issues db =
     (case resolve_project_int_id q ps v of
        Inl (c, m) \<Rightarrow> err c m
      | Inr pid \<Rightarrow> list_page q ''defects.ListByProject'' found pid None query issues db)"

definition parse_build_id :: "string \<Rightarrow> int option" where
  "parse_build_id s = (case parse_int s of None \<Rightarrow> None | Some b \<Rightarrow> if b < 1 then None else Some b)"

definition list_build_defects ::
  "ctx \<Rightarrow> (defect list \<Rightarrow> defect list) \<Rightarrow> project_row list option \<Rightarrow> string \<Rightarrow> string \<Rightarrow> (string \<Rightarrow> string)
   \<Rightarrow> (int \<times> string) list \<Rightarrow> defect_db \<Rightarrow> defect_body http_reply" where
  "list_build_defects q found ps v build query issues db =
     (case resolve_project_int_id q ps v of
        Inl (c, m) \<Rightarrow> err c m
      | Inr pid \<Rightarrow> (case parse_build_id build of
          None \<Rightarrow> err 400 ''invalid build_id''
        | Some bid \<Rightarrow> list_page q ''defects.ListByBuild'' found pid (Some bid) query issues db))"

definition get_defect :: "ctx \<Rightarrow> (string \<Rightarrow> nat option) \<Rightarrow> string \<Rightarrow> defect_db \<Rightarrow> defect_body http_reply" where
  "get_defect q uid did db =
     (if did = [] then err 400 ''defect_id is required''
      else if c_fails q ''defects.GetByID'' then err 500 ''error fetching defect''
      else case uid did of
        None \<Rightarrow> err 500 ''error fetching defect''
      | Some k \<Rightarrow> (case get_by_id k db of None \<Rightarrow> err 404 ''defect not found''
          | Some d \<Rightarrow> ok 200 ''Defect successfully obtained'' (DOne d)))"

text \<open>The query of \<open>GetTestResults\<close> does not select the message, so every test is answered without one.\<close>

definition to_defect_test :: "test_row \<Rightarrow> defect_test" where
  "to_defect_test r = \<lparr>dt_build = tr_build r, dt_status = tr_status r, dt_message = []\<rparr>"

definition get_defect_tests ::
  "ctx \<Rightarrow> (string \<Rightarrow> nat option) \<Rightarrow> string \<Rightarrow> (string \<Rightarrow> string) \<Rightarrow> defect_db \<Rightarrow> defect_body http_reply" where
  "get_defect_tests q uid did query db =
     (if did = [] then err 400 ''defect_id is required''
      else if query ''build_id'' \<noteq> [] \<and> parse_build_id (query ''build_id'') = None then err 400 ''invalid build_id''
      else let b = (if query ''build_id'' = [] then None else parse_build_id (query ''build_id''));
               pg = parse_pagination query
        in if c_fails q ''defects.GetTestResults'' then err 500 ''error fetching defect tests''
           else case uid did of
             None \<Rightarrow> err 500 ''error fetching defect tests''
           | Some k \<Rightarrow> (case get_test_results k b (pg_page pg) (pg_per_page pg) db of
               Inl _ \<Rightarrow> err 500 ''error fetching defect tests''
             | Inr (rows, n) \<Rightarrow> ok 200 ''Defect tests successfully obtained''
                 (DTests (map to_defect_test rows) (new_pagination_meta (pg_page pg) (pg_per_page pg) n))))"

text \<open>The decoded bodies; \<open>None\<close> is a body that does not decode.\<close>

record defect_patch =
  dp_category :: "string option"
  dp_resolution :: "string option"
  dp_issue :: "int option"

definition patch_error :: "string option \<Rightarrow> string option \<Rightarrow> string option" where
  "patch_error cat res =
     (if (case cat of None \<Rightarrow> False | Some c \<Rightarrow> \<not> valid_category c) then Some ''invalid category value''
      else if (case res of None \<Rightarrow> False | Some r \<Rightarrow> \<not> valid_resolution r) then Some ''invalid resolution value''
      else None)"

definition patch_defect ::
  "ctx \<Rightarrow> (string \<Rightarrow> nat option) \<Rightarrow> int set \<Rightarrow> string \<Rightarrow> defect_patch option \<Rightarrow> defect_db
   \<Rightarrow> defect_db \<times> defect_body http_reply" where
  "patch_defect q uid issues did req db =
     (if did = [] then (db, err 400 ''defect_id is required'')
      else case req of
        None \<Rightarrow> (db, err 400 ''invalid request body'')
      | Some p \<Rightarrow> (case patch_error (dp_category p) (dp_resolution p) of
          Some e \<Rightarrow> (db, err 400 e)
        | None \<Rightarrow>
            if c_fails q ''defects.UpdateDefect'' then (db, err 500 ''error updating defect'')
            else case uid did of
              None \<Rightarrow> (db, err 500 ''error updating defect'')
            | Some k \<Rightarrow> (case update_defect issues (c_now q) k (dp_category p) (dp_resolution p) (dp_issue p) db of
                (None, db') \<Rightarrow> (db', ok 200 ''Defect updated'' (DUpdated did))
              | (Some e, db') \<Rightarrow> (db', if e = ''defect not found'' then err 404 e else err 500 ''error updating defect''))))"

record bulk_patch =
  bp_ids :: "string list"
  bp_category :: "string option"
  bp_resolution :: "string option"

definition bulk_update_defects ::
  "ctx \<Rightarrow> (string \<Rightarrow> nat option) \<Rightarrow> bulk_patch option \<Rightarrow> defect_db \<Rightarrow> defect_db \<times> defect_body http_reply" where
  "bulk_update_defects q uid req db =
     (case req of
        None \<Rightarrow> (db, err 400 ''invalid request body'')
      | Some p \<Rightarrow>
          if bp_ids p = [] then (db, err 400 ''defect_ids must not be empty'')
          else case patch_error (bp_category p) (bp_resolution p) of
            Some e \<Rightarrow> (db, err 400 e)
          | None \<Rightarrow>
              if c_fails q ''defects.BulkUpdate'' \<or> \<not> list_all (\<lambda>i. uid i \<noteq> None) (bp_ids p)
              then (db, err 500 ''error bulk updating defects'')
              else (bulk_update (c_now q) (List.map_filter uid (bp_ids p)) (bp_category p) (bp_resolution p) db,
                    ok 200 ''Defects updated'' (DBulk (length (bp_ids p)))))"

definition project_defect_summary ::
  "ctx \<Rightarrow> project_row list option \<Rightarrow> string \<Rightarrow> defect_db \<Rightarrow> defect_body http_reply" where
  "project_defect_summary q ps v db =
     (case resolve_project_int_id q ps v of
        Inl (c, m) \<Rightarrow> err c m
      | Inr pid \<Rightarrow> if c_fails q ''defects.GetProjectSummary'' then err 500 ''error fetching defect summary''
          else ok 200 ''Defect summary successfully obtained'' (DProject (get_project_summary pid db)))"

definition build_defect_summary ::
  "ctx \<Rightarrow> project_row list option \<Rightarrow> string \<Rightarrow> string \<Rightarrow> defect_db \<Rightarrow> defect_body http_reply" where
  "build_defect_summary q ps v build db =
     (case resolve_project_int_id q ps v of
        Inl (c, m) \<Rightarrow> err c m
      | Inr pid \<Rightarrow> (case parse_build_id build of
          None \<Rightarrow> err 400 ''invalid build_id''
        | Some bid \<Rightarrow> if c_fails q ''defects.GetBuildSummary'' then err 500 ''error fetching build defect summary''
            else ok 200 ''Build defect summary successfully obtained'' (DBuild (get_build_summary pid bid db))))"

section \<open>Listing stays in the project\<close>

lemma list_row_defect: "list_row b issues db d = Some r \<Longrightarrow> dl_defect r = d"
  by (auto simp: list_row_def Let_def split: option.splits prod.splits)

lemma set_map_filter: "x \<in> set (List.map_filter f xs) \<longleftrightarrow> (\<exists>a \<in> set xs. f a = Some x)"
  by (induction xs) (auto simp: List.map_filter_simps split: option.splits)

lemma list_defects_project:
  assumes "list_defects found pid b f issues db = Inr (rows, n)" and "r \<in> set rows" and "\<And>ds. set (found ds) = set ds"
  shows "d_project (dl_defect r) = pid" and "dl_defect r \<in> set (defects db)"
proof -
  let ?ds = "filter (defect_matches pid b f db) (defects db)"
  obtain d where "d \<in> set (found ?ds)" "list_row b issues db d = Some r"
    using assms(1,2) by (auto simp: list_defects_def Let_def set_map_filter dest!: in_set_takeD in_set_dropD split: if_splits)
  then show "d_project (dl_defect r) = pid" "dl_defect r \<in> set (defects db)"
    using assms(3) by (auto simp: list_row_defect defect_matches_def)
qed

lemma listing_within_scope:
  assumes "body (list_project_defects q found ps v query issues db) = Some (DPage rows m)"
    and "r \<in> set rows" and "\<And>ds. set (found ds) = set ds"
  shows "api_key_project_allowed (c_claims q) (d_project (dl_defect r))"
proof -
  obtain pid where "resolve_project_int_id q ps v = Inr pid"
    "body (list_page q ''defects.ListByProject'' found pid None query issues db) = Some (DPage rows m)"
    using assms(1) by (auto simp: list_project_defects_def split: sum.splits prod.splits)
  moreover from this(2) obtain n where
    "list_defects found pid None (parse_defect_filter query) issues db = Inr (rows, n)"
    by (auto simp: list_page_def Let_def split: if_splits sum.splits prod.splits)
  ultimately show ?thesis
    using list_defects_project(1) [of found pid None "parse_defect_filter query" issues db rows n r] assms(2,3)
    by (metis resolved_allowed)
qed

section \<open>Summaries\<close>

lemma count_for_group: "count_for (group_count key rows) k = tbl_count (\<lambda>r. key r = k) rows"
proof (cases "k \<in> key ` set rows")
  case True
  have "map_of (map (\<lambda>k. (k, g k)) ks) k = (if k \<in> set ks then Some (g k) else None)" for g :: "string \<Rightarrow> nat" and ks
    by (induction ks) auto
  with True show ?thesis by (simp add: count_for_def group_count_def)
next
  case False
  then have "tbl_count (\<lambda>r. key r = k) rows = 0" by (auto simp: tbl_count_0)
  moreover have "map_of (group_count key rows) k = None" using False by (auto simp: group_count_def map_of_eq_None_iff)
  ultimately show ?thesis by (simp add: count_for_def)
qed

lemma group_count_keys: "fst ` set (group_count key rows) = key ` set rows"
  by (auto simp: group_count_def image_image)

lemma sum_group_count: "sum_list (map snd (group_count key rows)) = length rows"
proof (induction rows)
  case Nil
  then show ?case by (simp add: group_count_def)
next
  case (Cons r rows)
  have s: "sum_list (map snd (group_count key xs)) = (\<Sum>k \<in> key ` set xs. tbl_count (\<lambda>r. key r = k) xs)" for xs
    by (simp add: group_count_def o_def sum_list_distinct_conv_sum_set)
  have "(\<Sum>k \<in> insert (key r) (key ` set rows). tbl_count (\<lambda>x. key x = k) (r # rows))
      = Suc (\<Sum>k \<in> insert (key r) (key ` set rows). tbl_count (\<lambda>x. key x = k) rows)"
  proof -
    have "(\<Sum>k \<in> insert (key r) (key ` set rows). tbl_count (\<lambda>x. key x = k) (r # rows))
        = (\<Sum>k \<in> insert (key r) (key ` set rows). (if k = key r then 1 else 0) + tbl_count (\<lambda>x. key x = k) rows)"
      by (intro sum.cong) (auto simp: tbl_count_def)
    also have "\<dots> = Suc (\<Sum>k \<in> insert (key r) (key ` set rows). tbl_count (\<lambda>x. key x = k) rows)"
      by (simp add: sum.distrib)
    finally show ?thesis .
  qed
  also have "(\<Sum>k \<in> insert (key r) (key ` set rows). tbl_count (\<lambda>x. key x = k) rows)
      = (\<Sum>k \<in> key ` set rows. tbl_count (\<lambda>x. key x = k) rows)"
    by (intro sum.mono_neutral_right) (auto simp: tbl_count_0)
  finally show ?case using Cons.IH s [of "r # rows"] s [of rows] by simp
qed

definition resolutions_ok :: "defect_db \<Rightarrow> bool" where
  "resolutions_ok db \<longleftrightarrow> (\<forall>d \<in> set (defects db). valid_resolution (d_resolution d) \<and> valid_category (d_category d))"

lemma resolution_partition:
  assumes "\<forall>d \<in> set ds. valid_resolution (d_resolution d)"
  shows "tbl_count (\<lambda>d. d_resolution d = ''open'') ds + tbl_count (\<lambda>d. d_resolution d = ''fixed'') ds
    + tbl_count (\<lambda>d. d_resolution d = ''muted'') ds + tbl_count (\<lambda>d. d_resolution d = ''wont_fix'') ds = length ds"
  using assms by (induction ds) (auto simp: tbl_count_def valid_resolution_def)

text \<open>Everything that changes defects: ingestion of a build, and the two requests.\<close>

datatype defect_op =
    Ingest time int int
  | Patch ctx "int set" string "defect_patch option"
  | BulkPatch ctx "bulk_patch option"

definition defect_step ::
  "(string \<Rightarrow> string) \<Rightarrow> (string \<Rightarrow> nat option) \<Rightarrow> defect_op \<Rightarrow> defect_db \<Rightarrow> defect_db" where
  "defect_step sha uid op db =
     (case op of
        Ingest now pid bid \<Rightarrow> snd (compute_defect_fingerprints sha now pid bid db)
      | Patch q issues did req \<Rightarrow> fst (patch_defect q uid issues did req db)
      | BulkPatch q req \<Rightarrow> fst (bulk_update_defects q uid req db))"

lemma resolutions_update:
  assumes "resolutions_ok db"
    and "\<And>d. valid_resolution (d_resolution d) \<Longrightarrow> valid_resolution (d_resolution (f d))"
    and "\<And>d. valid_category (d_category d) \<Longrightarrow> valid_category (d_category (f d))"
  shows "resolutions_ok (db\<lparr>defects := tbl_update p f (defects db)\<rparr>)"
  using assms by (auto simp: resolutions_ok_def set_tbl_update)

lemma categorize_valid: "valid_category (categorize_error m t)"
  by (auto simp: categorize_error_def valid_category_def Let_def)

lemma fingerprint_categories: "g \<in> set (compute_fingerprints sha rs) \<Longrightarrow> valid_category (fr_category g)"
  by (auto simp: compute_fingerprints_groups group_of_def new_fingerprint_def Let_def categorize_valid)

lemma upsert_one_resolutions:
  assumes "upsert_one now pid bid g db = Inr db'" and "valid_category (fr_category g)" and "resolutions_ok db"
  shows "resolutions_ok db'"
  using assms(1)
proof (cases rule: upsert_one_cases)
  case (1 d)
  show ?thesis unfolding 1(2)
    by (rule resolutions_update [OF assms(3)]) (auto simp: seen_again_def valid_resolution_def)
next
  case 2
  then show ?thesis using assms(2,3) by (auto simp: resolutions_ok_def new_defect_def valid_resolution_def)
qed

lemma upsert_all_resolutions:
  "upsert_all now pid bid gs db = Inr db' \<Longrightarrow> \<forall>g \<in> set gs. valid_category (fr_category g)
   \<Longrightarrow> resolutions_ok db \<Longrightarrow> resolutions_ok db'"
  by (induction gs arbitrary: db) (auto split: sum.splits intro: upsert_one_resolutions)

lemma count_and_resolve_resolutions:
  assumes "resolutions_ok db" shows "resolutions_ok (count_and_resolve now pid bid db)"
proof -
  have "resolutions_ok (update_clean_build_counts now pid bid db)"
    unfolding update_clean_build_counts_def by (rule resolutions_update [OF assms]) auto
  then show ?thesis unfolding count_and_resolve_def auto_resolve_fixed_def Let_def snd_conv
    by (rule resolutions_update) (auto simp: valid_resolution_def)
qed

lemma defects_fold_link: "defects (fold (link_group pid bid) gs db) = defects db"
  by (induction gs arbitrary: db)
    (simp_all add: link_group_def link_test_results_def Let_def split: option.splits)

lemma ingest_resolutions:
  assumes "resolutions_ok db"
  shows "resolutions_ok (snd (compute_defect_fingerprints sha now pid bid db))"
proof -
  let ?gs = "compute_fingerprints sha (list_failed pid bid db)"
  have ups: "resolutions_ok (snd (upsert_fingerprints now pid bid ?gs db))"
    using assms upsert_all_resolutions [of now pid bid ?gs db] fingerprint_categories
    by (auto simp: upsert_fingerprints_def split: sum.splits)
  have mark: "resolutions_ok (mark_regressions b ks x) = resolutions_ok x" for b ks x
    by (simp add: mark_regressions_def resolutions_ok_def)
  have link: "resolutions_ok (fold (link_group pid bid) gs x) = resolutions_ok x" for gs x
    by (simp add: resolutions_ok_def defects_fold_link)
  show ?thesis
    using ups assms
    by (auto simp: compute_defect_fingerprints_def Let_def mark link count_and_resolve_resolutions
        split: prod.splits option.splits)
qed

lemma set_fields_valid:
  assumes "patch_error cat res = None"
  shows "valid_resolution (d_resolution d) \<Longrightarrow> valid_resolution (d_resolution (set_fields now cat res d))"
    and "valid_category (d_category d) \<Longrightarrow> valid_category (d_category (set_fields now cat res d))"
  using assms by (auto simp: patch_error_def set_fields_def split: if_splits option.splits)

lemma update_defect_resolutions:
  assumes "resolutions_ok db" and "patch_error cat res = None"
  shows "resolutions_ok (snd (update_defect issues now k cat res ki db))"
proof -
  have "resolutions_ok (db\<lparr>defects := tbl_update p (\<lambda>d. set_issue ki (set_fields now cat res d)) (defects db)\<rparr>)" for p
    by (rule resolutions_update [OF assms(1)])
      (use set_fields_valid [OF assms(2)] in \<open>auto simp: set_issue_def split: option.splits\<close>)
  with assms(1) show ?thesis by (simp add: update_defect_def)
qed

lemma patch_resolutions:
  assumes "resolutions_ok db" shows "resolutions_ok (fst (patch_defect q uid issues did req db))"
  using assms update_defect_resolutions [OF assms]
  by (auto simp: patch_defect_def split: option.splits prod.splits) (metis snd_conv)+

lemma bulk_resolutions:
  assumes "resolutions_ok db" shows "resolutions_ok (fst (bulk_update_defects q uid req db))"
  using assms set_fields_valid
  by (auto simp: bulk_update_defects_def bulk_update_def split: option.splits intro!: resolutions_update)

interpretation classified: invariant_machine "defect_step sha uid" resolutions_ok for sha uid
  by unfold_locales
    (auto simp: defect_step_def ingest_resolutions patch_resolutions bulk_resolutions split: defect_op.splits)

text \<open>After any history of ingestions and edits, the summary of a project adds up: each of its defects is
  counted under exactly one resolution, and each open one under exactly one category.\<close>

theorem summary_adds_up:
  assumes "resolutions_ok db0" and "db = fold (defect_step sha uid) ops db0"
  shows "(let s = get_project_summary pid db in
      sm_open s + sm_fixed s + sm_muted s + sm_wont_fix s = tbl_count (\<lambda>d. d_project d = pid) (defects db)
      \<and> sum_list (map snd (sm_categories s)) = sm_open s
      \<and> fst ` set (sm_categories s) \<subseteq> {''product_bug'', ''test_bug'', ''infrastructure'', ''to_investigate''})"
proof -
  let ?ds = "filter (\<lambda>d. d_project d = pid) (defects db)"
  have ok: "resolutions_ok db" unfolding assms(2) by (rule classified.run_inv [OF assms(1)])
  then have "\<forall>d \<in> set ?ds. valid_resolution (d_resolution d)" by (simp add: resolutions_ok_def)
  note resolution_partition [OF this]
  moreover have "length (filter (\<lambda>d. d_resolution d = ''open'') ?ds) = tbl_count (\<lambda>d. d_resolution d = ''open'') ?ds"
    by (simp add: tbl_count_def)
  moreover have "d_category ` set (filter (\<lambda>d. d_resolution d = ''open'') ?ds) \<subseteq> {c. valid_category c}"
    using ok by (auto simp: resolutions_ok_def)
  ultimately show ?thesis
    by (simp add: get_project_summary_def Let_def count_for_group sum_group_count group_count_keys tbl_count_def [of "\<lambda>d. d_project d = pid"]
        valid_category_def subset_iff)
qed

section \<open>Whose defects a request may touch\<close>

lemma update_defect_Some:
  assumes "get_by_id k db = Some d" and "ki = None"
  shows "fst (update_defect issues now k cat res ki db) = None"
    and "get_by_id k (snd (update_defect issues now k cat res ki db)) = Some (set_fields now cat res d)"
proof -
  have mem: "d \<in> set (defects db)" "d_id d = k"
    using assms(1) tbl_find_Some [of "\<lambda>d. d_id d = k" "defects db" d] by (auto simp: get_by_id_def)
  then have n: "tbl_count (\<lambda>d. d_id d = k) (defects db) \<noteq> 0"
    using tbl_count_pos [of d "defects db" "\<lambda>d. d_id d = k"] by simp
  then show "fst (update_defect issues now k cat res ki db) = None" by (simp add: update_defect_def assms(2))
  have "tbl_find (\<lambda>d. d_id d = k) (tbl_update (\<lambda>d. d_id d = k) (set_fields now cat res) (defects db))
      = map_option (set_fields now cat res) (tbl_find (\<lambda>d. d_id d = k) (defects db))"
    by (rule tbl_find_update_same) (simp add: set_fields_def)
  with n assms show "get_by_id k (snd (update_defect issues now k cat res ki db)) = Some (set_fields now cat res d)"
    by (simp add: update_defect_def get_by_id_def set_issue_def)
qed

lemma patch_defect_found:
  assumes "uid did = Some k" and "get_by_id k db = Some d" and "did \<noteq> []" and "patch_error cat res = None"
    and "\<not> c_fails q ''defects.UpdateDefect''"
  shows "status (snd (patch_defect q uid issues did (Some \<lparr>dp_category = cat, dp_resolution = res, dp_issue = None\<rparr>) db)) = 200"
    and "get_by_id k (fst (patch_defect q uid issues did (Some \<lparr>dp_category = cat, dp_resolution = res, dp_issue = None\<rparr>) db))
         = Some (set_fields (c_now q) cat res d)"
  using update_defect_Some [OF assms(2) refl, of issues "c_now q" cat res] assms
  by (cases "update_defect issues (c_now q) k cat res None db"; simp add: patch_defect_def)+

text \<open>C15: The allow-list of an API key is not looked at when a defect is read or edited by its id.  A key that
  may not touch the project of a defect is refused its list of defects, yet the same key reads the defect
  and sets its category and resolution, with 200.\<close>

theorem foreign_defect_edited:
  assumes "\<not> api_key_project_allowed (c_claims q) (d_project d)"
    and "uid did = Some k" and "get_by_id k db = Some d" and "did \<noteq> []"
    and "valid_category cat" and "valid_resolution res" and "\<forall>call. \<not> c_fails q call"
    and "in_int64 (d_project d)"
  shows "list_project_defects q found ps (itoa (d_project d)) query issues db
      = err 403 ''api key is not authorized for this project''
    \<and> body (get_defect q uid did db) = Some (DOne d)
    \<and> (case patch_defect q uid ids did (Some \<lparr>dp_category = Some cat, dp_resolution = Some res, dp_issue = None\<rparr>) db of
        (db', reply) \<Rightarrow> status reply = 200
          \<and> get_by_id k db' = Some (d\<lparr>d_category := cat, d_resolution := res, d_updated := c_now q\<rparr>))"
proof (intro conjI)
  have p: "parse_int (itoa (d_project d)) = Some (d_project d)" by (rule parse_int_itoa [OF assms(8)])
  have ne: "itoa (d_project d) \<noteq> []" using p by (auto simp: parse_int_def)
  show "list_project_defects q found ps (itoa (d_project d)) query issues db
      = err 403 ''api key is not authorized for this project''"
    using assms(1) p ne
    by (simp add: list_project_defects_def resolve_project_int_id_def extract_project_int_id_def guard_project_def
        split: option.splits)
  show "body (get_defect q uid did db) = Some (DOne d)"
    using assms by (simp add: get_defect_def)
  have "patch_error (Some cat) (Some res) = None" using assms(5,6) by (simp add: patch_error_def)
  moreover have "\<not> c_fails q ''defects.UpdateDefect''" using assms(7) by blast
  ultimately show "case patch_defect q uid ids did (Some \<lparr>dp_category = Some cat, dp_resolution = Some res, dp_issue = None\<rparr>) db of
      (db', reply) \<Rightarrow> status reply = 200
        \<and> get_by_id k db' = Some (d\<lparr>d_category := cat, d_resolution := res, d_updated := c_now q\<rparr>)"
    using patch_defect_found(1) [where uid = uid, OF assms(2,3,4), of "Some cat" "Some res" q ids]
      patch_defect_found(2) [where uid = uid, OF assms(2,3,4), of "Some cat" "Some res" q ids]
    by (auto simp: set_fields_def split: prod.splits)
qed

text \<open>A key limited to project 1, and a defect of project 2.\<close>

definition demo_scoped :: ctx where
  "demo_scoped = \<lparr>c_request = \<lparr>rq_method = ''PATCH'', rq_path = [], rq_cookies = (\<lambda>_. None), rq_header = (\<lambda>_. [])\<rparr>,
     c_claims = Some [(''sub'', CStr ''7''), (''role'', CStr ''editor''), (''auth_type'', CStr ''api_key''), (''project_ids'', CIds [1])],
     c_now = 5, c_rnd = [], c_fails = (\<lambda>_. False)\<rparr>"

definition demo_foreign :: defect where
  "demo_foreign = \<lparr>d_id = 3, d_project = 2, d_hash = ''h'', d_message = ''boom'', d_trace = [], d_category = ''product_bug'',
     d_resolution = ''open'', d_known_issue = None, d_first = 1, d_last = 1, d_count = 1, d_clean = 0, d_created = 0, d_updated = 0\<rparr>"

definition demo_defects :: defect_db where
  "demo_defects = \<lparr>defects = [demo_foreign], occurrences = [], results = [], builds = [], projects = [(2, ''b'')], next_defect = 4\<rparr>"

lemma demo_scoped_facts:
  "\<not> api_key_project_allowed (c_claims demo_scoped) (d_project demo_foreign)"
  "get_by_id 3 demo_defects = Some demo_foreign" "in_int64 (d_project demo_foreign)"
  "resolutions_ok demo_defects"
  by (simp_all add: demo_scoped_def demo_foreign_def demo_defects_def api_key_project_allowed_def str_or_empty_def
      claim_str_def claim_ids_def get_by_id_def tbl_find_def in_int64_def resolutions_ok_def valid_resolution_def
      valid_category_def)

theorem foreign_defect_edited_witness:
  "list_project_defects demo_scoped id None (itoa 2) (\<lambda>_. []) [] demo_defects
      = err 403 ''api key is not authorized for this project''
    \<and> body (get_defect demo_scoped (\<lambda>_. Some 3) ''u'' demo_defects) = Some (DOne demo_foreign)
    \<and> (case patch_defect demo_scoped (\<lambda>_. Some 3) {} ''u''
           (Some \<lparr>dp_category = Some ''test_bug'', dp_resolution = Some ''muted'', dp_issue = None\<rparr>) demo_defects of
        (db', reply) \<Rightarrow> status reply = 200
          \<and> get_by_id 3 db' = Some (demo_foreign\<lparr>d_category := ''test_bug'', d_resolution := ''muted'', d_updated := 5\<rparr>))"
proof -
  have "d_project demo_foreign = 2" "c_now demo_scoped = 5" "\<forall>call. \<not> c_fails demo_scoped call"
    by (simp_all add: demo_foreign_def demo_scoped_def)
  with foreign_defect_edited [where q = demo_scoped and d = demo_foreign and uid = "\<lambda>_. Some 3" and did = "''u''" and k = 3
      and db = demo_defects and cat = "''test_bug''" and res = "''muted''" and found = id and ps = None
      and query = "\<lambda>_. []" and issues = "[]" and ids = "{}"] demo_scoped_facts
  show ?thesis by (simp add: valid_category_def valid_resolution_def)
qed

theorem summary_adds_up_witness:
  "(let db = fold (defect_step id (\<lambda>_. Some 3)) [Patch demo_scoped {} ''u''
        (Some \<lparr>dp_category = None, dp_resolution = Some ''muted'', dp_issue = None\<rparr>)] demo_defects;
      s = get_project_summary 2 db in
      sm_open s + sm_fixed s + sm_muted s + sm_wont_fix s = tbl_count (\<lambda>d. d_project d = 2) (defects db)
      \<and> sum_list (map snd (sm_categories s)) = sm_open s
      \<and> fst ` set (sm_categories s) \<subseteq> {''product_bug'', ''test_bug'', ''infrastructure'', ''to_investigate''})"
  unfolding Let_def
  using summary_adds_up [OF demo_scoped_facts(4) refl, where sha = id and uid = "\<lambda>_. Some 3" and ops = "[Patch demo_scoped {} ''u''
        (Some \<lparr>dp_category = None, dp_resolution = Some ''muted'', dp_issue = None\<rparr>)]" and pid = 2]
  by (simp only: Let_def)

end
