(* ===== verification/Triage.thy ===== *)
theory Triage
  imports Fingerprint
begin

text \<open>
  Triage signals of one failed test: \<open>triage/triage.go\<close>.  A duration ratio is the pair of the two
  durations (its value is their quotient); the comparison with 0.2 is made exactly, which is what the
  floating-point one computes for durations below \<open>2^50\<close> milliseconds.
\<close>

section \<open>Inputs and signals\<close>

record retry_attempt =
  error_key :: string
  error_message :: string

record history_entry =
  he_status :: string
  he_duration :: int

record triage_input =
  in_duration :: int
  in_error :: string
  in_steps :: "string list"
  in_retries :: "retry_attempt list"
  in_history :: "history_entry list"
  in_previous :: string
  in_category :: string

record fast_fail_signal =
  fast_fail :: bool
  ff_duration :: int
  ff_passing :: "int option"
  ff_ratio :: "(int \<times> int) option"

record status_pattern =
  status_code :: int
  endpoint :: string
  same_across_retries :: bool

record category_hint =
  hint_value :: string
  hint_confidence :: string
  hint_source :: string

record signals =
  sg_fast_fail :: fast_fail_signal
  sg_phase :: string
  sg_retries :: string
  sg_status :: "status_pattern option"
  sg_last_status :: string
  sg_since_pass :: nat

record triage_result = signals + sg_category :: category_hint

section \<open>Patterns\<close>

definition statusRe :: rx where
  "statusRe = cats [Boundary,
     alts [lit_ci ''status'', lit_ci ''http'', lit_ci ''response'', lit_ci ''responded'', lit_ci ''returned''],
     Rep 0 (Some 40) (Cls True [(48, 57), (10, 10)]),
     Cls True [(48, 57), (65, 90), (97, 122), (10, 10)],
     Grp 1 (times 3 digit), Boundary,
     duration_suffix lit_ci 2]"

text \<open>Space, double quote, apostrophe, back quote, and the two parentheses.\<close>

definition endpointRe :: rx where
  "endpointRe = Or
     (cats [lit ''http'', opt (chr CHR ''s''), lit ''://'',
        plus (Cls True [(9, 10), (12, 13), (32, 32), (34, 34), (39, 39), (96, 96), (41, 41)])])
     (cats [Or Start (Cls False [(9, 10), (12, 13), (32, 32), (34, 34), (39, 39), (96, 96), (40, 40)]),
        Grp 1 (Cat (chr CHR ''/'')
          (plus (Cls False [(65, 90), (97, 122), (48, 57), (46, 46), (95, 95), (126, 126), (37, 37), (47, 47), (45, 45)])))])"

section \<open>Signals\<close>

fun last_passing_duration :: "history_entry list \<Rightarrow> int option" where
  "last_passing_duration [] = None"
| "last_passing_duration (e # h) =
     (if he_status e = ''passed'' then Some (he_duration e) else last_passing_duration h)"

definition compute_fast_fail :: "triage_input \<Rightarrow> fast_fail_signal" where
  "compute_fast_fail i =
     (let sig = \<lparr>fast_fail = False, ff_duration = in_duration i, ff_passing = None, ff_ratio = None\<rparr>
      in case last_passing_duration (in_history i) of
        None \<Rightarrow> sig
      | Some passing \<Rightarrow>
          let sig = sig\<lparr>ff_passing := Some passing\<rparr>
          in if passing \<le> 0 then sig
             else sig\<lparr>ff_ratio := Some (in_duration i, passing),
                      fast_fail := 5 * in_duration i < passing \<and> in_duration i \<le> 5000\<rparr>)"

definition step_phase :: "string \<Rightarrow> string option" where
  "step_phase step =
     (let lower = to_lower (trim_space step)
      in if contains lower ''after hooks'' then Some ''after_hooks''
         else if contains lower ''before hooks'' then Some ''before_hooks''
         else if contains lower ''fixture:'' \<or> contains lower ''setup'' then Some ''setup_fixture''
         else None)"

fun failure_phase :: "string list \<Rightarrow> string" where
  "failure_phase [] = ''test_body''"
| "failure_phase (s # ss) = (case step_phase s of Some p \<Rightarrow> p | None \<Rightarrow> failure_phase ss)"

definition retry_consistency :: "retry_attempt list \<Rightarrow> string" where
  "retry_consistency as =
     (case as of
        a # b # rest \<Rightarrow> if list_all (\<lambda>x. error_key x = error_key a) (b # rest) then ''consistent'' else ''varying''
      | _ \<Rightarrow> ''single'')"

text \<open>
  \<open>extractStatusCode\<close>: a server error wins at once, then the first client error, then the first code
  in range; codes out of range and timings are skipped.  \<open>scan_codes\<close> is the loop, with its two
  variables (0 when not set).
\<close>

fun scan_codes :: "int \<Rightarrow> int \<Rightarrow> (string \<times> caps) list \<Rightarrow> int option" where
  "scan_codes first client [] =
     (if client \<noteq> 0 then Some client else if first \<noteq> 0 then Some first else None)"
| "scan_codes first client ((m, cs) # ms) =
     (if group 2 cs \<noteq> [] then scan_codes first client ms
      else case parse_int (group 1 cs) of
        None \<Rightarrow> scan_codes first client ms
      | Some code \<Rightarrow>
          if code < 100 \<or> 599 < code then scan_codes first client ms
          else if 500 \<le> code then Some code
          else scan_codes (if first = 0 then code else first)
                 (if client = 0 \<and> 400 \<le> code then code else client) ms)"

definition extract_status_code :: "string \<Rightarrow> int option" where
  "extract_status_code msg = scan_codes 0 0 (find_all statusRe msg)"

definition extract_endpoint :: "string \<Rightarrow> string" where
  "extract_endpoint msg = (case find_first endpointRe msg of
     None \<Rightarrow> []
   | Some (m, cs) \<Rightarrow> if group 1 cs \<noteq> [] then group 1 cs else trim_space m)"

definition compute_status_pattern :: "string \<Rightarrow> retry_attempt list \<Rightarrow> status_pattern option" where
  "compute_status_pattern msg as = (case extract_status_code msg of
     None \<Rightarrow> None
   | Some code \<Rightarrow> Some \<lparr>status_code = code, endpoint = extract_endpoint msg,
       same_across_retries = (2 \<le> length as \<and>
         list_all (\<lambda>a. extract_status_code (error_message a) = Some code) as)\<rparr>)"

fun builds_since_pass :: "history_entry list \<Rightarrow> nat" where
  "builds_since_pass [] = 0"
| "builds_since_pass (e # h) = (if he_status e = ''passed'' then 0 else Suc (builds_since_pass h))"

definition signals_say_infrastructure :: "signals \<Rightarrow> bool" where
  "signals_say_infrastructure s \<longleftrightarrow> sg_phase s = ''before_hooks'' \<and> fast_fail (sg_fast_fail s)
     \<and> (case sg_status s of None \<Rightarrow> False | Some p \<Rightarrow> 500 \<le> status_code p)"

definition compute_category_hint :: "string \<Rightarrow> signals \<Rightarrow> category_hint" where
  "compute_category_hint category s =
     (let v = trim_space category;
          v = (if v = [] then ''to_investigate'' else v)
      in if v = ''to_investigate'' \<and> signals_say_infrastructure s
         then \<lparr>hint_value = ''infrastructure'', hint_confidence = ''medium'', hint_source = ''signals''\<rparr>
         else \<lparr>hint_value = v, hint_confidence = ''low'', hint_source = ''heuristic''\<rparr>)"

definition analyze :: "triage_input \<Rightarrow> triage_result" where
  "analyze i =
     (let s = \<lparr>sg_fast_fail = compute_fast_fail i, sg_phase = failure_phase (in_steps i),
               sg_retries = retry_consistency (in_retries i),
               sg_status = compute_status_pattern (in_error i) (in_retries i),
               sg_last_status = in_previous i, sg_since_pass = builds_since_pass (in_history i)\<rparr>
      in signals.extend s \<lparr>sg_category = compute_category_hint (in_category i) s\<rparr>)"

section \<open>What the signals mean\<close>

text \<open>A mention of a status in a message: its code when it is one and not a timing.\<close>

definition mentioned_code :: "string \<times> caps \<Rightarrow> int option" where
  "mentioned_code m = (if group 2 (snd m) \<noteq> [] then None
     else case parse_int (group 1 (snd m)) of
       Some c \<Rightarrow> if 100 \<le> c \<and> c \<le> 599 then Some c else None | None \<Rightarrow> None)"

definition mentions :: "string \<Rightarrow> int list" where
  "mentions msg = List.map_filter mentioned_code (find_all statusRe msg)"

text \<open>What a person would pick: the first server error, else the first client error, else the first code.\<close>

definition most_telling :: "int list \<Rightarrow> int option" where
  "most_telling cs = (case filter (\<lambda>c. 500 \<le> c) cs of c # _ \<Rightarrow> Some c
     | [] \<Rightarrow> (case filter (\<lambda>c. 400 \<le> c) cs of c # _ \<Rightarrow> Some c
       | [] \<Rightarrow> (case cs of c # _ \<Rightarrow> Some c | [] \<Rightarrow> None)))"

lemma scan_codes_telling:
  assumes "first = 0 \<longleftrightarrow> seen = []" and "seen \<noteq> [] \<Longrightarrow> first = hd seen"
    and "client = 0 \<longleftrightarrow> filter (\<lambda>c. 400 \<le> c) seen = []"
    and "filter (\<lambda>c. 400 \<le> c) seen \<noteq> [] \<Longrightarrow> client = hd (filter (\<lambda>c. 400 \<le> c) seen)"
    and "list_all (\<lambda>c. 100 \<le> c \<and> c < 500) seen"
  shows "scan_codes first client ms = most_telling (seen @ List.map_filter mentioned_code ms)"
  using assms
proof (induction ms arbitrary: first client seen)
  case Nil
  have "filter (\<lambda>c. 500 \<le> c) seen = []" using Nil.prems(5) by (auto simp: filter_empty_conv list_all_iff)
  with Nil.prems show ?case
    by (auto simp: most_telling_def List.map_filter_def split: list.splits)
next
  case (Cons m ms)
  obtain t cs where m: "m = (t, cs)" by (cases m)
  show ?case
  proof (cases "mentioned_code m")
    case None
    then have "scan_codes first client (m # ms) = scan_codes first client ms"
      by (auto simp: m mentioned_code_def split: if_splits option.splits)
    with Cons.IH [OF Cons.prems] None show ?thesis by (simp add: List.map_filter_simps)
  next
    case (Some code)
    then have c: "group 2 cs = []" "parse_int (group 1 cs) = Some code" "100 \<le> code" "code \<le> 599"
      by (auto simp: m mentioned_code_def split: if_splits option.splits)
    show ?thesis
    proof (cases "500 \<le> code")
      case True
      have "filter (\<lambda>c. 500 \<le> c) seen = []" using Cons.prems(5) by (auto simp: filter_empty_conv list_all_iff)
      with True c Some show ?thesis by (simp add: m most_telling_def List.map_filter_simps)
    next
      case False
      let ?f = "if first = 0 then code else first" and ?c = "if client = 0 \<and> 400 \<le> code then code else client"
      have "scan_codes first client (m # ms) = scan_codes ?f ?c ms" using c False by (simp add: m)
      also have "\<dots> = most_telling ((seen @ [code]) @ List.map_filter mentioned_code ms)"
        using Cons.prems c(3) False by (intro Cons.IH) (auto simp: hd_append)
      finally show ?thesis using Some by (simp add: List.map_filter_simps)
    qed
  qed
qed

lemma extract_status_code_telling: "extract_status_code msg = most_telling (mentions msg)"
  unfolding extract_status_code_def mentions_def
  using scan_codes_telling [of 0 "[]" 0 "find_all statusRe msg"] by simp

lemma most_telling_server: "(\<exists>c. most_telling cs = Some c \<and> 500 \<le> c) \<longleftrightarrow> (\<exists>c \<in> set cs. 500 \<le> c)"
proof (cases "filter (\<lambda>c. 500 \<le> c) cs")
  case (Cons a as)
  then have "a \<in> set (filter (\<lambda>c. 500 \<le> c) cs)" by simp
  then have "a \<in> set cs \<and> 500 \<le> a" by simp
  with Cons show ?thesis by (auto simp: most_telling_def)
next
  case Nil
  then have none: "\<forall>c \<in> set cs. c < 500" by (auto simp: filter_empty_conv)
  have "c \<in> set cs" if "most_telling cs = Some c" for c
  proof (cases "filter (\<lambda>c. 400 \<le> c) cs")
    case (Cons b bs)
    then have "b \<in> set (filter (\<lambda>c. 400 \<le> c) cs)" by simp
    then have "b \<in> set cs" by simp
    with that \<open>filter (\<lambda>c. 500 \<le> c) cs = []\<close> Cons show ?thesis by (simp add: most_telling_def)
  next
    case 2: Nil
    with that \<open>filter (\<lambda>c. 500 \<le> c) cs = []\<close> show ?thesis by (simp add: most_telling_def split: list.splits)
  qed
  with none show ?thesis by force
qed

text \<open>The status reported for a failure is the most telling one its message mentions: the first server
  error wherever it stands, else the first client error, else the first code; timings and numbers
  outside 100--599 never count.\<close>

theorem reported_status:
  "map_option status_code (compute_status_pattern msg as) = most_telling (mentions msg)"
  by (simp add: compute_status_pattern_def extract_status_code_telling split: option.splits)

lemma fast_fail_iff:
  "fast_fail (compute_fast_fail i) \<longleftrightarrow>
     (\<exists>p. last_passing_duration (in_history i) = Some p \<and> 0 < p \<and> 5 * in_duration i < p \<and> in_duration i \<le> 5000)"
  by (auto simp: compute_fast_fail_def Let_def split: option.splits)

text \<open>C12: The category hint.  A stored category other than \<open>to_investigate\<close> always passes through with low
  confidence.  Otherwise the hint says infrastructure, with medium confidence, exactly when the failure
  was in the before hooks, took at most five seconds and less than a fifth of the last passing run, and
  its message mentions a server error.\<close>

theorem category_hint_spec:
  "sg_category (analyze i) =
     (let v = trim_space (in_category i)
      in if v \<notin> {[], ''to_investigate''}
         then \<lparr>hint_value = v, hint_confidence = ''low'', hint_source = ''heuristic''\<rparr>
         else if failure_phase (in_steps i) = ''before_hooks''
           \<and> (\<exists>p. last_passing_duration (in_history i) = Some p \<and> 0 < p \<and> 5 * in_duration i < p \<and> in_duration i \<le> 5000)
           \<and> (\<exists>c \<in> set (mentions (in_error i)). 500 \<le> c)
         then \<lparr>hint_value = ''infrastructure'', hint_confidence = ''medium'', hint_source = ''signals''\<rparr>
         else \<lparr>hint_value = ''to_investigate'', hint_confidence = ''low'', hint_source = ''heuristic''\<rparr>)"
proof -
  let ?s = "\<lparr>sg_fast_fail = compute_fast_fail i, sg_phase = failure_phase (in_steps i),
    sg_retries = retry_consistency (in_retries i), sg_status = compute_status_pattern (in_error i) (in_retries i),
    sg_last_status = in_previous i, sg_since_pass = builds_since_pass (in_history i)\<rparr>"
  have "(case compute_status_pattern (in_error i) (in_retries i) of None \<Rightarrow> False | Some p \<Rightarrow> 500 \<le> status_code p)
      \<longleftrightarrow> (\<exists>c. most_telling (mentions (in_error i)) = Some c \<and> 500 \<le> c)"
    by (auto simp: compute_status_pattern_def extract_status_code_telling split: option.splits)
  then have "signals_say_infrastructure ?s \<longleftrightarrow> failure_phase (in_steps i) = ''before_hooks''
      \<and> (\<exists>p. last_passing_duration (in_history i) = Some p \<and> 0 < p \<and> 5 * in_duration i < p \<and> in_duration i \<le> 5000)
      \<and> (\<exists>c \<in> set (mentions (in_error i)). 500 \<le> c)"
    by (simp add: signals_say_infrastructure_def fast_fail_iff most_telling_server)
  then show ?thesis
    by (simp add: analyze_def Let_def signals.defs compute_category_hint_def)
qed

text \<open>The stored category and the live hint can disagree about one error: a code reached through a slash
  is a server error for triage and no status for the fingerprint's category.\<close>

theorem slash_status_disagrees:
  "map_option status_code (compute_status_pattern ''http /500'' []) = Some 500
   \<and> categorize_error ''http /500'' [] = ''to_investigate''"
  by code_simp

end
