(* ===== verification/Verdict.thy ===== *)
theory Verdict
  imports Triage
begin

text \<open>
  Clusters of failing tests and the verdict on a build: \<open>mcp/tools/diagnose_cluster.go\<close> and
  \<open>mcp/tools/diagnose_verdict.go\<close>.

  Of a diagnosed test the model has the fields these files read or write.  SHA-256 is the parameter
  \<open>sha\<close>; compiling a known-issue pattern is the parameter \<open>compile\<close>, which gives for a valid pattern
  the function from a text to the substring of its leftmost match.
\<close>

section \<open>State\<close>

record diagnosed_test =
  dt_full_name :: string
  dt_error :: string
  dt_steps :: "string list"
  dt_signals :: triage_result
  dt_known_issue :: "(int \<times> string) option"
  dt_last_good :: "string option"
  dt_flaky :: bool
  dt_cluster :: string

record regex_match =
  rm_issue :: int
  rm_name :: string
  rm_text :: string

record cluster =
  cl_id :: string
  cl_count :: nat
  cl_members :: "string list"
  cl_representative :: string
  cl_error :: string
  cl_phase :: string
  cl_status :: "(int \<times> string) option"
  cl_matches :: "regex_match list"

section \<open>Clustering\<close>

definition test_key :: "(string \<Rightarrow> string) \<Rightarrow> diagnosed_test \<Rightarrow> string" where
  "test_key sha d = cluster_key sha (dt_error d) (sg_phase (dt_signals d))
     (if dt_steps d = [] then [] else last (dt_steps d))"

text \<open>The groups in first-seen order, each with its key; the map \<open>slotOf\<close> is the search for the key.\<close>

fun add_slot :: "'k \<Rightarrow> nat \<Rightarrow> ('k \<times> nat list) list \<Rightarrow> ('k \<times> nat list) list" where
  "add_slot k i [] = [(k, [i])]"
| "add_slot k i ((k', g) # gs) = (if k' = k then (k', g @ [i]) # gs else (k', g) # add_slot k i gs)"

fun slots :: "nat \<Rightarrow> 'k list \<Rightarrow> ('k \<times> nat list) list \<Rightarrow> ('k \<times> nat list) list" where
  "slots i [] gs = gs"
| "slots i (k # ks) gs = slots (Suc i) ks (add_slot k i gs)"

definition group_indices :: "'k list \<Rightarrow> nat list list" where
  "group_indices ks = sort_key (\<lambda>g. - int (length g)) (map snd (slots 0 ks []))"

definition shared_status :: "diagnosed_test list \<Rightarrow> nat list \<Rightarrow> (int \<times> string) option" where
  "shared_status ts g = (case sg_status (dt_signals (ts ! hd g)) of
     None \<Rightarrow> None
   | Some first \<Rightarrow>
       if list_all (\<lambda>i. case sg_status (dt_signals (ts ! i)) of None \<Rightarrow> False
            | Some p \<Rightarrow> status_code p = status_code first \<and> endpoint p = endpoint first) (tl g)
       then Some (status_code first, endpoint first) else None)"

definition tag_member :: "string \<Rightarrow> nat \<Rightarrow> diagnosed_test list \<Rightarrow> diagnosed_test list" where
  "tag_member cid i ts = ts[i := (ts ! i)\<lparr>dt_cluster := cid, dt_error := [], dt_steps := []\<rparr>]"

definition tag_group :: "string \<Rightarrow> nat list \<Rightarrow> diagnosed_test list \<Rightarrow> diagnosed_test list" where
  "tag_group cid g ts = fold (tag_member cid) (tl g) (ts[hd g := (ts ! hd g)\<lparr>dt_cluster := cid\<rparr>])"

fun build_clusters :: "nat \<Rightarrow> nat list list \<Rightarrow> diagnosed_test list \<Rightarrow> cluster list \<times> diagnosed_test list" where
  "build_clusters gi [] ts = ([], ts)"
| "build_clusters gi (g # gs) ts =
     (let cid = CHR ''c'' # itoa (int gi + 1);
          rep = ts ! hd g;
          c = \<lparr>cl_id = cid, cl_count = length g, cl_members = map (\<lambda>i. dt_full_name (ts ! i)) g,
               cl_representative = dt_full_name rep, cl_error = dt_error rep,
               cl_phase = sg_phase (dt_signals rep), cl_status = shared_status ts g, cl_matches = []\<rparr>;
          r = build_clusters (Suc gi) gs (tag_group cid g ts)
      in (c # fst r, snd r))"

definition cluster_failing_tests ::
  "(string \<Rightarrow> string) \<Rightarrow> diagnosed_test list \<Rightarrow> cluster list \<times> nat list list \<times> diagnosed_test list" where
  "cluster_failing_tests sha ts =
     (if ts = [] then ([], [], [])
      else let gs = group_indices (map (test_key sha) ts); r = build_clusters 0 gs ts
           in (fst r, gs, snd r))"

section \<open>Known-issue rules\<close>

type_synonym matcher = "(int \<times> string \<times> (string \<Rightarrow> string option)) list"

text \<open>The active rules of the project, as (id, test name, pattern); an invalid pattern is skipped.\<close>

definition new_matcher ::
  "(string \<Rightarrow> (string \<Rightarrow> string option) option) \<Rightarrow> (int \<times> string \<times> string) list \<Rightarrow> matcher" where
  "new_matcher compile issues = List.map_filter (\<lambda>(k, n, p). case compile p of None \<Rightarrow> None | Some f \<Rightarrow> Some (k, n, f)) issues"

definition match_issues :: "matcher \<Rightarrow> string \<Rightarrow> regex_match list" where
  "match_issues m msg = (if m = [] \<or> msg = [] then []
     else take 5 (List.map_filter (\<lambda>(k, n, f). case f msg of None \<Rightarrow> None
       | Some t \<Rightarrow> Some \<lparr>rm_issue = k, rm_name = n, rm_text = t\<rparr>) m))"

section \<open>Verdicts of clusters\<close>

datatype verdict = ProductRegression | TestBug | InfraEnv | KnownIssue | Flaky | InsufficientEvidence
datatype confidence = High | Medium | Low
datatype action = FileBug | FixTest | Rerun | LinkKnownIssue | HumanNeeded
datatype relation = CommitUnknown | CommitSame | CommitDifferent

fun verdict_name :: "verdict \<Rightarrow> string" where
  "verdict_name ProductRegression = ''product_regression''"
| "verdict_name TestBug = ''test_bug''"
| "verdict_name InfraEnv = ''infra_env''"
| "verdict_name KnownIssue = ''known_issue''"
| "verdict_name Flaky = ''flaky''"
| "verdict_name InsufficientEvidence = ''insufficient_evidence''"

type_synonym evidence = "string \<times> string"

record cluster_verdict =
  cv_verdict :: verdict
  cv_confidence :: confidence
  cv_evidence :: "evidence list"
  cv_gaps :: "string list"

fun commit_relation :: "string \<Rightarrow> diagnosed_test list \<Rightarrow> relation \<times> string" where
  "commit_relation sha [] = (CommitUnknown, [])"
| "commit_relation sha (m # ms) =
     (if sha = [] then (CommitUnknown, [])
      else case dt_last_good m of
        None \<Rightarrow> commit_relation sha ms
      | Some lg \<Rightarrow> if lg = [] then commit_relation sha ms
          else if lg = sha then (CommitSame, lg) else (CommitDifferent, lg))"

definition unchanged :: "string \<Rightarrow> evidence" where
  "unchanged sha = (''last_good_commit'', ''unchanged since the last pass ('' @ sha @ '')'')"

definition status_value :: "int \<times> string \<Rightarrow> string" where
  "status_value p = (if snd p = [] then itoa (fst p) else itoa (fst p) @ '' at '' @ snd p)"

definition eval_infra_env :: "cluster \<Rightarrow> diagnosed_test list \<Rightarrow> relation \<times> string \<Rightarrow> cluster_verdict option" where
  "eval_infra_env c ms rel = (case cl_status c of
     None \<Rightarrow> None
   | Some p \<Rightarrow>
       let hooks = length (filter (\<lambda>m. sg_phase (dt_signals m) = ''before_hooks'') ms);
           ev = [(''failure_phase'', ''before_hooks x'' @ itoa (int hooks)), (''shared_status_pattern'', status_value p)]
       in if fst p < 500 \<or> hooks < 2 \<or> fst rel = CommitDifferent then None
          else if fst rel = CommitSame
          then Some \<lparr>cv_verdict = InfraEnv, cv_confidence = High, cv_evidence = ev @ [unchanged (snd rel)], cv_gaps = []\<rparr>
          else Some \<lparr>cv_verdict = InfraEnv, cv_confidence = Medium, cv_evidence = ev,
                cv_gaps = [''no last_good commit_sha to confirm the code is unchanged'']\<rparr>)"

fun known_issue_link :: "diagnosed_test list \<Rightarrow> evidence list" where
  "known_issue_link [] = []"
| "known_issue_link (m # ms) = (case dt_known_issue m of
     None \<Rightarrow> known_issue_link ms
   | Some ki \<Rightarrow> [(''known_issue_link'', CHR ''#'' # itoa (fst ki) @ '' '' @ snd ki @ '' confirmed on '' @ dt_full_name m)])"

definition eval_known_issue :: "cluster \<Rightarrow> diagnosed_test list \<Rightarrow> cluster_verdict option" where
  "eval_known_issue c ms =
     (let ev = known_issue_link ms @ map (\<lambda>m. (''known_issue_regex'',
            CHR ''#'' # itoa (rm_issue m) @ '' '' @ rm_name m @ '' matched '' @ go_quote (rm_text m))) (take 3 (cl_matches c))
      in if ev = [] then None
         else Some \<lparr>cv_verdict = KnownIssue, cv_confidence = High, cv_evidence = ev, cv_gaps = []\<rparr>)"

definition assertion_markers :: "string list" where
  "assertion_markers = [''expect('', ''expected'', ''assert'', ''tobe'', ''tocontain'', ''toequal'', ''tohave'', ''tomatch'']"

definition locator_markers :: "string list" where
  "locator_markers = [''locator'', ''selector'', ''getby'', ''queryselector'', ''element not found'',
     ''element is not visible'', ''element not interactable'', ''no element'', ''stale element'',
     ''nosuchelement'', ''waiting for element'', ''wait_for_selector'']"

definition matches_any :: "string \<Rightarrow> string list \<Rightarrow> bool" where
  "matches_any msg markers = (trim_space msg \<noteq> [] \<and>
     list_ex (contains (to_lower (normalize_message msg))) markers)"

definition is_assertion :: "string \<Rightarrow> bool" where
  "is_assertion msg = matches_any msg assertion_markers"

definition is_locator :: "string \<Rightarrow> bool" where
  "is_locator msg = matches_any msg locator_markers"

definition worst_since_pass :: "diagnosed_test list \<Rightarrow> nat" where
  "worst_since_pass ms = fold (\<lambda>m w. max w (sg_since_pass (dt_signals m))) ms 0"

definition eval_product_regression :: "cluster \<Rightarrow> diagnosed_test list \<Rightarrow> relation \<times> string \<Rightarrow> cluster_verdict option" where
  "eval_product_regression c ms rel =
     (let worst = worst_since_pass ms;
          ev = [(''failure_phase'', ''test_body''), (''error_class'', ''assertion''), (''builds_since_pass'', itoa (int worst))]
      in if cl_phase c \<noteq> ''test_body'' \<or> \<not> is_assertion (cl_error c) \<or> 1 < worst \<or> fst rel = CommitSame then None
         else if fst rel = CommitDifferent
         then Some \<lparr>cv_verdict = ProductRegression, cv_confidence = High,
             cv_evidence = ev @ [(''last_good_commit'', ''changed since the last pass ('' @ snd rel @ '')'')], cv_gaps = []\<rparr>
         else Some \<lparr>cv_verdict = ProductRegression, cv_confidence = Medium, cv_evidence = ev,
             cv_gaps = [''no last_good commit_sha to confirm the code changed since the last pass'']\<rparr>)"

definition eval_test_bug :: "cluster \<Rightarrow> relation \<times> string \<Rightarrow> cluster_verdict option" where
  "eval_test_bug c rel =
     (let ev = [(''failure_phase'', ''test_body''), (''error_class'', ''locator'')]
      in if cl_phase c \<noteq> ''test_body'' \<or> \<not> is_locator (cl_error c) \<or> fst rel = CommitDifferent then None
         else if fst rel = CommitSame
         then Some \<lparr>cv_verdict = TestBug, cv_confidence = Medium, cv_evidence = ev @ [unchanged (snd rel)], cv_gaps = []\<rparr>
         else Some \<lparr>cv_verdict = TestBug, cv_confidence = Medium, cv_evidence = ev,
             cv_gaps = [''no last_good commit_sha to confirm the code is unchanged'']\<rparr>)"

definition eval_flaky :: "diagnosed_test list \<Rightarrow> cluster_verdict option" where
  "eval_flaky ms = (case List.find dt_flaky ms of
     Some m \<Rightarrow> Some \<lparr>cv_verdict = Flaky, cv_confidence = Medium,
       cv_evidence = [(''flaky_flag'', ''set on '' @ dt_full_name m)], cv_gaps = []\<rparr>
   | None \<Rightarrow>
       if ms = [] \<or> \<not> list_all (\<lambda>m. sg_last_status (dt_signals m) = ''passed'' \<and> sg_since_pass (dt_signals m) = 0) ms
       then None
       else Some \<lparr>cv_verdict = Flaky, cv_confidence = Medium, cv_evidence = [(''history_alternation'',
          ''all '' @ itoa (int (length ms)) @ '' member(s) passed in the immediately preceding build'')], cv_gaps = []\<rparr>)"

definition eval_insufficient :: "cluster \<Rightarrow> relation \<Rightarrow> cluster_verdict" where
  "eval_insufficient c rel =
     (let gaps = (if trim_space (cl_error c) = [] then [''no error message recorded for this cluster'']
              else if \<not> is_assertion (cl_error c) \<and> \<not> is_locator (cl_error c)
              then [''the shared error matches no assertion or locator class''] else [])
            @ (if cl_status c = None then [''no HTTP status pattern in the shared error''] else [])
            @ (if rel = CommitUnknown then [''no last_good commit_sha to compare against the build commit''] else [])
      in \<lparr>cv_verdict = InsufficientEvidence, cv_confidence = Low,
          cv_evidence = [(''failure_phase'', cl_phase c), (''member_count'', itoa (int (cl_count c)))],
          cv_gaps = (if gaps = [] then [''no rule matched this cluster'' @ apostrophe @ ''s signal combination''] else gaps)\<rparr>)"

definition evaluate_cluster :: "cluster \<Rightarrow> diagnosed_test list \<Rightarrow> string \<Rightarrow> cluster_verdict" where
  "evaluate_cluster c ms commit =
     (let rel = commit_relation commit ms
      in case eval_infra_env c ms rel of Some v \<Rightarrow> v | None \<Rightarrow>
         case eval_known_issue c ms of Some v \<Rightarrow> v | None \<Rightarrow>
         case eval_product_regression c ms rel of Some v \<Rightarrow> v | None \<Rightarrow>
         case eval_test_bug c rel of Some v \<Rightarrow> v | None \<Rightarrow>
         case eval_flaky ms of Some v \<Rightarrow> v | None \<Rightarrow> eval_insufficient c (fst rel))"

section \<open>The verdict of the build\<close>

record build_verdict =
  bv_verdict :: verdict
  bv_confidence :: confidence
  bv_evidence :: "evidence list"
  bv_gaps :: "string list"
  bv_action :: action
  bv_affected :: nat

fun cap_confidence :: "confidence \<Rightarrow> confidence" where
  "cap_confidence High = Medium"
| "cap_confidence Medium = Medium"
| "cap_confidence Low = Low"

fun recommended_action :: "verdict \<Rightarrow> action" where
  "recommended_action InfraEnv = Rerun"
| "recommended_action KnownIssue = LinkKnownIssue"
| "recommended_action ProductRegression = FileBug"
| "recommended_action TestBug = FixTest"
| "recommended_action Flaky = HumanNeeded"
| "recommended_action InsufficientEvidence = HumanNeeded"

text \<open>The split text is empty exactly when the clusters agree, or when there is only one.\<close>

definition verdict_split :: "verdict list \<Rightarrow> string" where
  "verdict_split vs =
     (let order = distinct_in_order vs
      in if length vs < 2 \<or> length order < 2 then []
         else join '', '' (map (\<lambda>v. verdict_name v @ '' x'' @ itoa (int (count_list vs v))) order))"

definition evaluate_build_verdict ::
  "diagnosed_test list \<Rightarrow> cluster list \<Rightarrow> nat list list \<Rightarrow> string \<Rightarrow> bool \<Rightarrow> build_verdict" where
  "evaluate_build_verdict ts cs ms commit truncated =
     (if cs = [] then \<lparr>bv_verdict = InsufficientEvidence, bv_confidence = Low, bv_evidence = [],
        bv_gaps = [''no failing tests were examined''], bv_action = HumanNeeded, bv_affected = 0\<rparr>
      else
        let vs = map (\<lambda>(c, g). evaluate_cluster c (map ((!) ts) g) commit) (zip cs ms);
            v = hd vs;
            split = verdict_split (map cv_verdict vs);
            ev = (if split \<noteq> [] then cv_evidence v @ [(''cluster_verdict_split'', split)] else cv_evidence v);
            conf = (if split \<noteq> [] then cap_confidence (cv_confidence v) else cv_confidence v);
            conf = (if truncated then cap_confidence conf else conf);
            gaps = (if truncated then cv_gaps v @ [''diagnosis truncated: some failing tests were not examined''] else cv_gaps v)
        in \<lparr>bv_verdict = cv_verdict v, bv_confidence = conf, bv_evidence = ev, bv_gaps = gaps,
            bv_action = recommended_action (cv_verdict v), bv_affected = cl_count (hd cs)\<rparr>)"


section \<open>Clusters are the classes of the failure shape\<close>

definition class_of :: "'k list \<Rightarrow> 'k \<Rightarrow> nat list" where
  "class_of ks k = filter (\<lambda>i. ks ! i = k) [0..<length ks]"

lemma class_of_snoc:
  "class_of (ks @ [k]) k' = (if k' = k then class_of ks k' @ [length ks] else class_of ks k')"
  by (auto simp: class_of_def nth_append intro!: filter_cong)

lemma class_of_new: "k \<notin> set ks \<Longrightarrow> class_of ks k = []"
  by (auto simp: class_of_def filter_empty_conv)

lemma slots_append: "slots i (ks @ ls) gs = slots (i + length ks) ls (slots i ks gs)"
  by (induction ks arbitrary: i gs) simp_all

lemma add_slot_map:
  assumes "distinct ks"
  shows "add_slot k i (map (\<lambda>k. (k, f k)) ks) =
    (if k \<in> set ks then map (\<lambda>k'. (k', if k' = k then f k' @ [i] else f k')) ks
     else map (\<lambda>k. (k, f k)) ks @ [(k, [i])])"
  using assms by (induction ks) auto

lemma slots_classes: "slots 0 ks [] = map (\<lambda>k. (k, class_of ks k)) (distinct_in_order ks)"
proof (induction ks rule: rev_induct)
  case Nil
  then show ?case by (simp add: distinct_in_order_def)
next
  case (snoc k ks)
  have "slots 0 (ks @ [k]) [] = add_slot k (length ks) (map (\<lambda>k. (k, class_of ks k)) (distinct_in_order ks))"
    using snoc.IH by (simp add: slots_append)
  also have "\<dots> = map (\<lambda>k'. (k', class_of (ks @ [k]) k')) (distinct_in_order (ks @ [k]))"
    unfolding add_slot_map [OF distinct_distinct_in_order]
    by (auto simp: class_of_snoc distinct_in_order_snoc class_of_new)
  finally show ?case .
qed

lemma class_of_inj:
  assumes "k \<in> set ks" and "class_of ks k = class_of ks k'"
  shows "k = k'"
proof -
  obtain i where "i < length ks" "ks ! i = k" using assms(1) by (auto simp: in_set_conv_nth)
  then have "i \<in> set (class_of ks k)" by (simp add: class_of_def)
  then have "i \<in> set (class_of ks k')" using assms(2) by simp
  then show ?thesis using \<open>ks ! i = k\<close> by (simp add: class_of_def)
qed

lemma group_indices_classes:
  "distinct (group_indices ks)" "set (group_indices ks) = class_of ks ` set ks"
  "sorted (map (\<lambda>g. - int (length g)) (group_indices ks))"
proof -
  have m: "map snd (slots 0 ks []) = map (class_of ks) (distinct_in_order ks)"
    by (simp add: slots_classes o_def)
  have "inj_on (class_of ks) (set (distinct_in_order ks))"
    by (auto simp: inj_on_def intro: class_of_inj)
  then have "distinct (map (class_of ks) (distinct_in_order ks))" by (simp add: distinct_map)
  then show "distinct (group_indices ks)" by (simp add: group_indices_def m)
  show "set (group_indices ks) = class_of ks ` set ks" by (simp add: group_indices_def m)
  show "sorted (map (\<lambda>g. - int (length g)) (group_indices ks))" by (simp add: group_indices_def)
qed

text \<open>Tagging the members of a group changes no name, phase or status.\<close>

lemma nth_tag_member:
  "length (tag_member cid i ts) = length ts" "dt_full_name (tag_member cid i ts ! j) = dt_full_name (ts ! j)"
proof -
  show "length (tag_member cid i ts) = length ts" by (simp add: tag_member_def)
  show "dt_full_name (tag_member cid i ts ! j) = dt_full_name (ts ! j)"
  proof (cases "j = i \<and> i < length ts")
    case True
    then show ?thesis by (simp add: tag_member_def)
  next
    case False
    then have "tag_member cid i ts ! j = ts ! j"
      by (cases "i < length ts") (simp_all add: tag_member_def list_update_beyond)
    then show ?thesis by simp
  qed
qed

lemma fold_tag_length: "length (fold (tag_member cid) g ts) = length ts"
  by (induction g arbitrary: ts) (simp_all add: nth_tag_member)

lemma fold_tag_names: "dt_full_name (fold (tag_member cid) g ts ! j) = dt_full_name (ts ! j)"
  by (induction g arbitrary: ts) (simp_all add: nth_tag_member)

lemma tag_group_names: "length (tag_group cid g ts) = length ts" "dt_full_name (tag_group cid g ts ! j) = dt_full_name (ts ! j)"
proof -
  have "dt_full_name ((ts[i := (ts ! i)\<lparr>dt_cluster := cid\<rparr>]) ! j) = dt_full_name (ts ! j)" for i
    by (cases "j = i"; cases "i < length ts"; simp add: nth_list_update list_update_beyond)
  then show "length (tag_group cid g ts) = length ts" "dt_full_name (tag_group cid g ts ! j) = dt_full_name (ts ! j)"
    by (simp_all add: tag_group_def fold_tag_length fold_tag_names)
qed

lemma build_clusters_names:
  "map cl_members (fst (build_clusters gi gs ts)) = map (map (\<lambda>i. dt_full_name (ts ! i))) gs"
  "map cl_count (fst (build_clusters gi gs ts)) = map length gs"
  by (induction gs arbitrary: gi ts) (simp_all add: Let_def tag_group_names)

text \<open>C13: Clusters are exactly the classes of failing tests with one failure shape (normalised message,
  phase, deepest failed step), each listing its members in the order they were diagnosed, and the
  clusters come largest first.\<close>

theorem clusters_are_classes:
  "let keys = map (test_key sha) ts; r = cluster_failing_tests sha ts; cs = fst r; ms = fst (snd r)
   in distinct ms \<and> set ms = class_of keys ` set keys \<and> sorted (map (\<lambda>g. - int (length g)) ms)
    \<and> map cl_members cs = map (map (\<lambda>i. dt_full_name (ts ! i))) ms \<and> map cl_count cs = map length ms"
proof (cases "ts = []")
  case True
  then show ?thesis by (simp add: cluster_failing_tests_def)
next
  case False
  then have "fst (snd (cluster_failing_tests sha ts)) = group_indices (map (test_key sha) ts)"
    "fst (cluster_failing_tests sha ts) = fst (build_clusters 0 (group_indices (map (test_key sha) ts)) ts)"
    by (simp_all add: cluster_failing_tests_def Let_def)
  then show ?thesis by (simp add: Let_def group_indices_classes build_clusters_names)
qed

section \<open>High confidence\<close>

lemma commit_relation_same:
  "commit_relation sha ms = (CommitSame, lg) \<Longrightarrow> sha \<noteq> [] \<and> lg = sha \<and> (\<exists>m \<in> set ms. dt_last_good m = Some sha)"
  by (induction ms) (auto split: if_splits option.splits)

lemma commit_relation_different:
  "commit_relation sha ms = (CommitDifferent, lg)
   \<Longrightarrow> sha \<noteq> [] \<and> lg \<noteq> sha \<and> lg \<noteq> [] \<and> (\<exists>m \<in> set ms. dt_last_good m = Some lg)"
  by (induction ms) (auto split: if_splits option.splits)

lemma known_issue_link_some: "known_issue_link ms \<noteq> [] \<Longrightarrow> \<exists>m \<in> set ms. dt_known_issue m \<noteq> None"
  by (induction ms) (auto split: option.splits)

lemma fold_max_bound: "fold (\<lambda>m w. max w (f m)) ms (w::nat) \<le> b \<longleftrightarrow> w \<le> b \<and> (\<forall>m \<in> set ms. f m \<le> b)"
  by (induction ms arbitrary: w) auto

lemma known_issue_link_entry:
  "e \<in> set (known_issue_link ms) \<Longrightarrow> \<exists>m \<in> set ms. \<exists>ki. dt_known_issue m = Some ki
     \<and> e = (''known_issue_link'', CHR ''#'' # itoa (fst ki) @ '' '' @ snd ki @ '' confirmed on '' @ dt_full_name m)"
  by (induction ms) (auto split: option.splits)

text \<open>What a cluster must show, and what the evidence must say, for each verdict that can be given with high
  confidence.\<close>

definition backed :: "string \<Rightarrow> cluster \<Rightarrow> diagnosed_test list \<Rightarrow> verdict \<Rightarrow> evidence list \<Rightarrow> bool" where
  "backed commit c ms v ev \<longleftrightarrow>
     (v = InfraEnv \<and> (\<exists>p hooks. cl_status c = Some p \<and> 500 \<le> fst p
        \<and> hooks = length (filter (\<lambda>m. sg_phase (dt_signals m) = ''before_hooks'') ms) \<and> 2 \<le> hooks
        \<and> commit \<noteq> [] \<and> (\<exists>m \<in> set ms. dt_last_good m = Some commit)
        \<and> ev = [(''failure_phase'', ''before_hooks x'' @ itoa (int hooks)), (''shared_status_pattern'', status_value p),
             (''last_good_commit'', ''unchanged since the last pass ('' @ commit @ '')'')]))
   \<or> (v = KnownIssue \<and> ev \<noteq> [] \<and> (\<forall>e \<in> set ev.
        (\<exists>m \<in> set ms. \<exists>ki. dt_known_issue m = Some ki
           \<and> e = (''known_issue_link'', CHR ''#'' # itoa (fst ki) @ '' '' @ snd ki @ '' confirmed on '' @ dt_full_name m))
      \<or> (\<exists>r \<in> set (cl_matches c).
           e = (''known_issue_regex'', CHR ''#'' # itoa (rm_issue r) @ '' '' @ rm_name r @ '' matched '' @ go_quote (rm_text r)))))
   \<or> (v = ProductRegression \<and> cl_phase c = ''test_body'' \<and> is_assertion (cl_error c)
        \<and> (\<forall>m \<in> set ms. sg_since_pass (dt_signals m) \<le> 1) \<and> commit \<noteq> []
        \<and> (\<exists>m \<in> set ms. \<exists>lg. dt_last_good m = Some lg \<and> lg \<noteq> commit \<and> lg \<noteq> []
             \<and> ev = [(''failure_phase'', ''test_body''), (''error_class'', ''assertion''),
                  (''builds_since_pass'', itoa (int (worst_since_pass ms))),
                  (''last_good_commit'', ''changed since the last pass ('' @ lg @ '')'')]))"

lemma infra_backed:
  assumes "eval_infra_env c ms (commit_relation commit ms) = Some v" and "cv_confidence v = High"
  shows "backed commit c ms (cv_verdict v) (cv_evidence v) \<and> cv_gaps v = []"
proof -
  obtain r lg where rel: "commit_relation commit ms = (r, lg)" by (cases "commit_relation commit ms")
  then have "r = CommitSame" using assms
    by (auto simp: eval_infra_env_def Let_def split: option.splits if_splits)
  then have "commit \<noteq> [] \<and> lg = commit \<and> (\<exists>m \<in> set ms. dt_last_good m = Some commit)"
    using commit_relation_same rel by blast
  then show ?thesis using assms rel
    by (auto simp: eval_infra_env_def backed_def unchanged_def Let_def split: option.splits if_splits)
qed

lemma known_issue_backed:
  assumes "eval_known_issue c ms = Some v"
  shows "backed commit c ms (cv_verdict v) (cv_evidence v) \<and> cv_gaps v = []"
proof -
  let ?ev = "known_issue_link ms @ map (\<lambda>m. (''known_issue_regex'',
      CHR ''#'' # itoa (rm_issue m) @ '' '' @ rm_name m @ '' matched '' @ go_quote (rm_text m))) (take 3 (cl_matches c))"
  have v: "v = \<lparr>cv_verdict = KnownIssue, cv_confidence = High, cv_evidence = ?ev, cv_gaps = []\<rparr>" "?ev \<noteq> []"
    using assms by (auto simp: eval_known_issue_def Let_def split: if_splits)
  have "(\<exists>m \<in> set ms. \<exists>ki. dt_known_issue m = Some ki
        \<and> e = (''known_issue_link'', CHR ''#'' # itoa (fst ki) @ '' '' @ snd ki @ '' confirmed on '' @ dt_full_name m))
      \<or> (\<exists>r \<in> set (cl_matches c).
        e = (''known_issue_regex'', CHR ''#'' # itoa (rm_issue r) @ '' '' @ rm_name r @ '' matched '' @ go_quote (rm_text r)))"
    if "e \<in> set ?ev" for e
  proof (cases "e \<in> set (known_issue_link ms)")
    case True
    then show ?thesis by (intro disjI1 known_issue_link_entry)
  next
    case False
    then show ?thesis using that by (auto dest: in_set_takeD)
  qed
  then show ?thesis using v by (simp add: backed_def)
qed

lemma regression_backed:
  assumes "eval_product_regression c ms (commit_relation commit ms) = Some v" and "cv_confidence v = High"
  shows "backed commit c ms (cv_verdict v) (cv_evidence v) \<and> cv_gaps v = []"
proof -
  obtain r lg where rel: "commit_relation commit ms = (r, lg)" by (cases "commit_relation commit ms")
  then have "r = CommitDifferent" using assms
    by (auto simp: eval_product_regression_def Let_def split: if_splits)
  then have "commit \<noteq> [] \<and> (\<exists>m \<in> set ms. dt_last_good m = Some lg \<and> lg \<noteq> commit \<and> lg \<noteq> [])"
    using commit_relation_different rel by blast
  moreover have "worst_since_pass ms \<le> 1 \<longleftrightarrow> (\<forall>m \<in> set ms. sg_since_pass (dt_signals m) \<le> 1)"
    by (simp add: worst_since_pass_def fold_max_bound)
  ultimately show ?thesis using assms rel
    by (auto simp: eval_product_regression_def backed_def Let_def split: if_splits)
qed

lemma test_bug_medium: "eval_test_bug c rel = Some v \<Longrightarrow> cv_confidence v = Medium"
  by (auto simp: eval_test_bug_def Let_def split: if_splits)

lemma flaky_medium: "eval_flaky ms = Some v \<Longrightarrow> cv_confidence v = Medium"
  by (auto simp: eval_flaky_def split: option.splits if_splits)

lemma cluster_backed:
  assumes "cv_confidence (evaluate_cluster c ms commit) = High"
  shows "backed commit c ms (cv_verdict (evaluate_cluster c ms commit)) (cv_evidence (evaluate_cluster c ms commit))
    \<and> cv_gaps (evaluate_cluster c ms commit) = []"
proof -
  let ?rel = "commit_relation commit ms"
  consider v where "eval_infra_env c ms ?rel = Some v"
    | v where "eval_infra_env c ms ?rel = None" "eval_known_issue c ms = Some v"
    | v where "eval_infra_env c ms ?rel = None" "eval_known_issue c ms = None" "eval_product_regression c ms ?rel = Some v"
    | v where "eval_infra_env c ms ?rel = None" "eval_known_issue c ms = None" "eval_product_regression c ms ?rel = None"
        "eval_test_bug c ?rel = Some v"
    | v where "eval_infra_env c ms ?rel = None" "eval_known_issue c ms = None" "eval_product_regression c ms ?rel = None"
        "eval_test_bug c ?rel = None" "eval_flaky ms = Some v"
    | "eval_infra_env c ms ?rel = None" "eval_known_issue c ms = None" "eval_product_regression c ms ?rel = None"
        "eval_test_bug c ?rel = None" "eval_flaky ms = None"
    by (metis not_Some_eq)
  then show ?thesis
  proof cases
    case 1
    then have "evaluate_cluster c ms commit = v" by (simp add: evaluate_cluster_def)
    with 1 assms show ?thesis using infra_backed by simp
  next
    case 2
    then have "evaluate_cluster c ms commit = v" by (simp add: evaluate_cluster_def)
    with 2 assms show ?thesis using known_issue_backed by simp
  next
    case 3
    then have "evaluate_cluster c ms commit = v" by (simp add: evaluate_cluster_def)
    with 3 assms show ?thesis using regression_backed by simp
  next
    case 4
    then have "evaluate_cluster c ms commit = v" by (simp add: evaluate_cluster_def)
    with 4 assms show ?thesis using test_bug_medium by fastforce
  next
    case 5
    then have "evaluate_cluster c ms commit = v" by (simp add: evaluate_cluster_def)
    with 5 assms show ?thesis using flaky_medium by fastforce
  next
    case 6
    then have "evaluate_cluster c ms commit = eval_insufficient c (fst ?rel)" by (simp add: evaluate_cluster_def)
    with assms show ?thesis by (simp add: eval_insufficient_def Let_def)
  qed
qed

lemma cap_not_high [simp]: "cap_confidence c \<noteq> High"
  by (cases c) auto

lemma distinct_in_order_single:
  assumes "length (distinct_in_order vs) < 2" and "v \<in> set vs" and "w \<in> set vs"
  shows "v = w"
proof -
  have "card (set vs) < 2" using assms(1) by (metis distinct_card distinct_distinct_in_order set_distinct_in_order)
  then have "card (set vs) \<le> 1" by simp
  then show ?thesis using assms(2,3) by (simp add: card_le_Suc0_iff_eq)
qed

lemma join_nonempty: "x \<noteq> [] \<Longrightarrow> join sep (x # xs) \<noteq> []"
  by (cases xs) auto

lemma verdict_split_agree:
  assumes "verdict_split vs = []" and "v \<in> set vs" and "w \<in> set vs"
  shows "v = w"
proof (cases "length (distinct_in_order vs) < 2")
  case True
  then show ?thesis using assms(2,3) by (rule distinct_in_order_single)
next
  case False
  have "distinct_in_order vs \<noteq> []"
  proof
    assume "distinct_in_order vs = []"
    then have "length (distinct_in_order vs) = 0" by (rule arg_cong [where f = length, THEN trans]) (rule list.size(3))
    with False show False by linarith
  qed
  then obtain a as where o: "distinct_in_order vs = a # as" by (meson neq_Nil_conv)
  have "length vs < 2"
  proof (rule ccontr)
    assume "\<not> length vs < 2"
    then have "verdict_split vs = join '', '' (map (\<lambda>v. verdict_name v @ '' x'' @ itoa (int (count_list vs v))) (a # as))"
      using False by (simp add: verdict_split_def o)
    also have "\<dots> \<noteq> []" unfolding list.map(2) by (rule join_nonempty) simp
    finally show False using assms(1) by simp
  qed
  moreover have "length (distinct_in_order vs) \<le> length vs"
    by (simp add: distinct_in_order_def) (metis length_remdups_leq length_rev)
  ultimately show ?thesis using False by simp
qed

text \<open>C10: High confidence is earned.  The verdict on a build has high confidence only when the diagnosis was not marked
  truncated, every cluster has that verdict, the dominant cluster backs it, and the evidence of the answer, with no gap,
  names what backs it: for an environment failure the shared server error, the number of the tests (two at least) that died in
  the before hooks and the unchanged commit; for a known issue only links of its tests and matches of active rules, one at
  least; for a regression the failed assertion in the test body, a pass at most one build back and the other commit of that
  pass.\<close>

theorem high_confidence_is_backed:
  assumes "bv_confidence (evaluate_build_verdict ts (c # cs) (g # ms) commit truncated) = High"
  shows "\<not> truncated
    \<and> (\<forall>(c', g') \<in> set (zip (c # cs) (g # ms)). cv_verdict (evaluate_cluster c' (map ((!) ts) g') commit)
          = bv_verdict (evaluate_build_verdict ts (c # cs) (g # ms) commit truncated))
    \<and> backed commit c (map ((!) ts) g) (bv_verdict (evaluate_build_verdict ts (c # cs) (g # ms) commit truncated))
        (bv_evidence (evaluate_build_verdict ts (c # cs) (g # ms) commit truncated))
    \<and> bv_gaps (evaluate_build_verdict ts (c # cs) (g # ms) commit truncated) = []"
proof -
  let ?vs = "map (\<lambda>(c, g). evaluate_cluster c (map ((!) ts) g) commit) (zip (c # cs) (g # ms))"
  let ?v = "evaluate_cluster c (map ((!) ts) g) commit"
  let ?conf = "if verdict_split (map cv_verdict ?vs) \<noteq> [] then cap_confidence (cv_confidence ?v) else cv_confidence ?v"
  have "bv_confidence (evaluate_build_verdict ts (c # cs) (g # ms) commit truncated)
      = (if truncated then cap_confidence ?conf else ?conf)"
    unfolding evaluate_build_verdict_def Let_def by simp
  with assms have t: "\<not> truncated" and c: "?conf = High"
    by (metis cap_not_high)+
  from c have split: "verdict_split (map cv_verdict ?vs) = []" and hi: "cv_confidence ?v = High"
    by (metis cap_not_high)+
  have bv: "bv_verdict (evaluate_build_verdict ts (c # cs) (g # ms) commit truncated) = cv_verdict ?v"
    unfolding evaluate_build_verdict_def Let_def by simp
  have ev: "bv_evidence (evaluate_build_verdict ts (c # cs) (g # ms) commit truncated) = cv_evidence ?v"
    "bv_gaps (evaluate_build_verdict ts (c # cs) (g # ms) commit truncated) = cv_gaps ?v"
    using split t unfolding evaluate_build_verdict_def Let_def by simp_all
  have same: "cv_verdict (evaluate_cluster c' (map ((!) ts) g') commit) = cv_verdict ?v"
    if "(c', g') \<in> set (zip (c # cs) (g # ms))" for c' g'
  proof (rule verdict_split_agree [OF split])
    show "cv_verdict (evaluate_cluster c' (map ((!) ts) g') commit) \<in> set (map cv_verdict ?vs)"
      using that by force
    show "cv_verdict ?v \<in> set (map cv_verdict ?vs)" by simp
  qed
  have all: "\<forall>(c', g') \<in> set (zip (c # cs) (g # ms)). cv_verdict (evaluate_cluster c' (map ((!) ts) g') commit) = cv_verdict ?v"
    using same by blast
  show ?thesis unfolding bv ev by (rule conjI [OF t conjI [OF all cluster_backed [OF hi]]])
qed

end
