(* ===== verification/Diagnose.thy ===== *)
theory Diagnose
  imports Verdict "HOL-Library.AList"
begin

text \<open>
  The \<open>diagnose_failure\<close> tool: \<open>mcp/tools/diagnose.go\<close>, with the two queries of
  \<open>store/pg/test_result.go\<close> it starts from.

  What the stores hold about one failing test is the argument \<open>detail\<close>: the answers of
  \<open>GetFailedStepPath\<close>, of the defect and known-issue lookups, of \<open>GetTestHistory\<close>,
  \<open>GetLastPassingBuild\<close> and \<open>GetAttempts\<close>.  Resolving the build and the fields that are only copied to
  the answer (report links, attachments, whole-build differences) are left out.
\<close>

section \<open>Failing rows of a build\<close>

record result_row =
  rr_id :: int
  rr_build :: int
  rr_project :: int
  rr_full_name :: string
  rr_status :: string
  rr_history :: string
  rr_message :: string
  rr_duration :: int
  rr_retries :: int
  rr_flaky :: bool

definition is_failed :: "int \<Rightarrow> int \<Rightarrow> result_row \<Rightarrow> bool" where
  "is_failed pid bid r \<longleftrightarrow> rr_build r = bid \<and> rr_project r = pid \<and> rr_status r \<in> {''failed'', ''broken''}"

text \<open>\<open>ListFailedByBuild\<close>: longest first, ties by id, messages cut at 500 characters.\<close>

definition list_failed_by_build :: "int \<Rightarrow> int \<Rightarrow> nat \<Rightarrow> result_row list \<Rightarrow> result_row list" where
  "list_failed_by_build pid bid limit rows =
     map (\<lambda>r. r\<lparr>rr_message := take 500 (rr_message r)\<rparr>)
       (take limit (sort_key (\<lambda>r. - rr_duration r) (sort_key rr_id (filter (is_failed pid bid) rows))))"

definition count_failed_by_build :: "int \<Rightarrow> int \<Rightarrow> result_row list \<Rightarrow> nat" where
  "count_failed_by_build pid bid rows = length (remdups (map rr_full_name (filter (is_failed pid bid) rows)))"

section \<open>Collapsing duplicate rows\<close>

definition prefer_result :: "result_row \<Rightarrow> result_row \<Rightarrow> bool" where
  "prefer_result cand inc =
     (if (rr_message cand \<noteq> []) \<noteq> (rr_message inc \<noteq> []) then rr_message cand \<noteq> []
      else let cc = CHR '':'' \<in> set (rr_history cand); ic = CHR '':'' \<in> set (rr_history inc)
        in if cc \<noteq> ic then cc else False)"

text \<open>The groups in first-seen order; a row without a name is a group of its own.\<close>

definition row_groups :: "result_row list \<Rightarrow> nat list list" where
  "row_groups rows = map snd (slots 0 (map (\<lambda>i. if rr_full_name (rows ! i) = [] then Inl i
     else Inr (rr_full_name (rows ! i))) [0..<length rows]) [])"

definition survivor :: "result_row list \<Rightarrow> nat list \<Rightarrow> nat" where
  "survivor rows g = fold (\<lambda>i s. if prefer_result (rows ! i) (rows ! s) then i else s) (tl g) (hd g)"

record dedup =
  dd_kept :: "result_row list"
  dd_merged :: "(string \<times> string list) list"
  dd_warnings :: "string list"

definition dedupe_group :: "result_row list \<Rightarrow> nat list \<Rightarrow> dedup \<Rightarrow> dedup" where
  "dedupe_group rows g d =
     (if length g = 1 then d\<lparr>dd_kept := dd_kept d @ [rows ! hd g]\<rparr>
      else let enriched = length (filter (\<lambda>i. rr_message (rows ! i) \<noteq> []) g)
        in if 1 < enriched
           then d\<lparr>dd_kept := dd_kept d @ map ((!) rows) g,
                  dd_warnings := dd_warnings d @ [itoa (int enriched) @ '' tests share full_name ''
                    @ go_quote (rr_full_name (rows ! hd g)) @ '' with distinct results (parameterized?) '' @ em_dash @ '' not merged'']\<rparr>
           else let s = survivor rows g;
                    dropped = map (\<lambda>i. rr_history (rows ! i)) (filter (\<lambda>i. i \<noteq> s) g)
             in d\<lparr>dd_kept := dd_kept d @ [rows ! s],
                  dd_merged := AList.update (rr_history (rows ! s)) dropped (dd_merged d)\<rparr>)"

definition dedupe_by_full_name :: "result_row list \<Rightarrow> dedup" where
  "dedupe_by_full_name rows =
     fold (dedupe_group rows) (row_groups rows) \<lparr>dd_kept = [], dd_merged = [], dd_warnings = []\<rparr>"

section \<open>One failing test\<close>

record attempt =
  at_status :: string
  at_message :: string

record history_row =
  hr_build :: int
  hr_order :: int
  hr_status :: string
  hr_duration :: int

record detail =
  de_steps :: "string list"
  de_message :: string
  de_category :: string
  de_known_issue :: "(int \<times> string) option"
  de_history :: "history_row list"
  de_last_good :: "(int \<times> string) option"
  de_attempts :: "attempt list"

definition test_history :: "int \<Rightarrow> history_row list \<Rightarrow> history_row list" where
  "test_history bid rows = filter (\<lambda>r. hr_build r \<noteq> bid) rows"

definition previous_status :: "history_row list \<Rightarrow> string" where
  "previous_status h = (case h of [] \<Rightarrow> [] | r # _ \<Rightarrow> hr_status r)"

definition builds_since_last_good :: "int list \<Rightarrow> int \<Rightarrow> int \<Rightarrow> nat" where
  "builds_since_last_good orders last_good current =
     length (filter (\<lambda>o1. last_good < o1 \<and> o1 < current) orders)"

definition truncate_text :: "string \<Rightarrow> nat \<Rightarrow> string" where
  "truncate_text s n = (if length s \<le> n then s else take n s)"

definition triage_retries :: "nat \<Rightarrow> attempt list \<Rightarrow> retry_attempt list" where
  "triage_retries cap as = map (\<lambda>a. let m = truncate_text (at_message a) cap
     in \<lparr>error_key = at_status a @ ''|'' @ m, error_message = m\<rparr>) as"

definition diagnose_test :: "int \<Rightarrow> bool \<Rightarrow> result_row \<Rightarrow> detail \<Rightarrow> diagnosed_test" where
  "diagnose_test bid summary_only r de =
     (let history = test_history bid (de_history de);
          retries = (if rr_retries r \<le> 0 then [] else triage_retries 500 (de_attempts de))
      in \<lparr>dt_full_name = rr_full_name r, dt_error = de_message de,
          dt_steps = (if summary_only then [] else de_steps de),
          dt_signals = analyze \<lparr>in_duration = rr_duration r, in_error = de_message de, in_steps = de_steps de,
             in_retries = retries,
             in_history = map (\<lambda>h. \<lparr>he_status = hr_status h, he_duration = hr_duration h\<rparr>) history,
             in_previous = previous_status history, in_category = de_category de\<rparr>,
          dt_known_issue = de_known_issue de, dt_last_good = map_option snd (de_last_good de),
          dt_flaky = rr_flaky r, dt_cluster = []\<rparr>)"

section \<open>The diagnosis of a build\<close>

definition clamp_max_tests :: "int \<Rightarrow> int" where
  "clamp_max_tests n = (let n = (if n \<le> 0 then 20 else n) in if 100 < n then 100 else n)"

definition select_failing :: "int \<Rightarrow> int \<Rightarrow> int \<Rightarrow> result_row list \<Rightarrow> result_row list \<times> string list" where
  "select_failing pid bid n rows =
     (let d = dedupe_by_full_name (list_failed_by_build pid bid (nat (2 * n + 2)) rows);
          failing = take (nat n) (dd_kept d);
          merged = sum_list (map (\<lambda>r. case map_of (dd_merged d) (rr_history r) of None \<Rightarrow> 0 | Some hs \<Rightarrow> length hs) failing)
      in (failing, (if 0 < merged then [itoa (int merged) @ '' duplicate history_id rows merged by full_name''] else [])
            @ dd_warnings d))"

text \<open>\<open>Truncated\<close> and \<open>TruncatedCount\<close>.\<close>

definition truncated_count :: "int \<Rightarrow> int \<Rightarrow> result_row list \<Rightarrow> result_row list \<Rightarrow> nat" where
  "truncated_count pid bid rows failing = count_failed_by_build pid bid rows - length failing"

record diagnosis =
  dg_verdict :: build_verdict
  dg_clusters :: "cluster list"
  dg_tests :: "diagnosed_test list"
  dg_examined :: nat
  dg_truncated :: bool
  dg_truncated_count :: nat
  dg_warnings :: "string list"

definition with_matches :: "matcher \<Rightarrow> cluster list \<Rightarrow> cluster list" where
  "with_matches m cs = map (\<lambda>c. c\<lparr>cl_matches := match_issues m (cl_error c)\<rparr>) cs"

definition judge ::
  "(string \<Rightarrow> string) \<Rightarrow> matcher \<Rightarrow> string \<Rightarrow> bool \<Rightarrow> diagnosed_test list
   \<Rightarrow> build_verdict \<times> cluster list \<times> diagnosed_test list" where
  "judge sha m commit truncated ts =
     (let r = cluster_failing_tests sha ts; cs = with_matches m (fst r)
      in (evaluate_build_verdict (snd (snd r)) cs (fst (snd r)) commit truncated, cs, snd (snd r)))"

definition diagnose_failure ::
  "(string \<Rightarrow> string) \<Rightarrow> matcher \<Rightarrow> (result_row \<Rightarrow> detail) \<Rightarrow> string \<Rightarrow> int \<Rightarrow> bool \<Rightarrow> int \<Rightarrow> int
   \<Rightarrow> result_row list \<Rightarrow> diagnosis" where
  "diagnose_failure sha m detail commit max_tests summary_only pid bid rows =
     (let sel = select_failing pid bid (clamp_max_tests max_tests) rows;
          ts = map (\<lambda>r. diagnose_test bid summary_only r (detail r)) (fst sel);
          missing = truncated_count pid bid rows (fst sel);
          j = judge sha m commit (0 < missing) ts
      in \<lparr>dg_verdict = fst j, dg_clusters = fst (snd j), dg_tests = snd (snd j), dg_examined = length ts,
          dg_truncated = (0 < missing), dg_truncated_count = missing, dg_warnings = snd sel\<rparr>)"


section \<open>Collapsing loses no error\<close>

lemma dedupe_group_keeps: "r \<in> set (dd_kept d) \<Longrightarrow> r \<in> set (dd_kept (dedupe_group rows g d))"
  by (simp add: dedupe_group_def Let_def)

lemma fold_dedupe_keeps: "r \<in> set (dd_kept d) \<Longrightarrow> r \<in> set (dd_kept (fold (dedupe_group rows) gs d))"
  by (induction gs arbitrary: d) (simp_all add: dedupe_group_keeps)

text \<open>The one row of a group that has a message survives the others.\<close>

lemma survivor_fold:
  assumes "rr_message (rows ! i) \<noteq> []" and "\<forall>j \<in> set xs. j \<noteq> i \<longrightarrow> rr_message (rows ! j) = []"
    and "s = i \<or> (i \<in> set xs \<and> rr_message (rows ! s) = [])"
  shows "fold (\<lambda>j s. if prefer_result (rows ! j) (rows ! s) then j else s) xs s = i"
  using assms(2,3)
proof (induction xs arbitrary: s)
  case Nil
  then show ?case by simp
next
  case (Cons x xs)
  let ?s = "if prefer_result (rows ! x) (rows ! s) then x else s"
  have "?s = i \<or> (i \<in> set xs \<and> rr_message (rows ! ?s) = [])"
  proof (cases "s = i")
    case True
    have "x = i \<or> \<not> prefer_result (rows ! x) (rows ! i)"
      using Cons.prems(1) assms(1) by (auto simp: prefer_result_def)
    with True show ?thesis by auto
  next
    case False
    then have s: "i \<in> set (x # xs)" "rr_message (rows ! s) = []" using Cons.prems(2) by auto
    show ?thesis
    proof (cases "x = i")
      case True
      then have "prefer_result (rows ! x) (rows ! s)" using assms(1) s(2) by (simp add: prefer_result_def)
      with True show ?thesis by simp
    next
      case False
      then have "rr_message (rows ! x) = []" "i \<in> set xs" using Cons.prems(1) s(1) by auto
      with s(2) show ?thesis by simp
    qed
  qed
  then show ?case using Cons.IH [of ?s] Cons.prems(1) by simp
qed

lemma filter_one:
  assumes "distinct g" and "length (filter P g) \<le> 1" and "i \<in> set g" and "P i" and "j \<in> set g" and "j \<noteq> i"
  shows "\<not> P j"
proof
  assume "P j"
  then have "{i, j} \<subseteq> set (filter P g)" using assms by auto
  then have "card {i, j} \<le> card (set (filter P g))" by (rule card_mono [OF finite_set])
  also have "\<dots> = length (filter P g)" by (rule distinct_card) (simp add: assms(1))
  finally show False using assms(2,6) by simp
qed

lemma dedupe_group_error:
  assumes "distinct g" and "i \<in> set g" and "rr_message (rows ! i) \<noteq> []"
  shows "rows ! i \<in> set (dd_kept (dedupe_group rows g d))"
proof (cases "length g = 1")
  case True
  then have "hd g = i" using assms(2) by (cases g) auto
  with True show ?thesis by (simp add: dedupe_group_def)
next
  case False
  let ?P = "\<lambda>i. rr_message (rows ! i) \<noteq> []"
  show ?thesis
  proof (cases "1 < length (filter ?P g)")
    case True
    with \<open>length g \<noteq> 1\<close> assms(2) show ?thesis by (simp add: dedupe_group_def Let_def)
  next
    case few: False
    have others: "\<forall>j \<in> set g. j \<noteq> i \<longrightarrow> rr_message (rows ! j) = []"
    proof (intro ballI impI)
      fix j assume "j \<in> set g" "j \<noteq> i"
      with few have "\<not> ?P j" by (intro filter_one [of g ?P i j]) (use assms in simp_all)
      then show "rr_message (rows ! j) = []" by simp
    qed
    obtain x xs where g: "g = x # xs" using assms(2) by (cases g) auto
    have "x = i \<or> (i \<in> set xs \<and> rr_message (rows ! x) = [])" using others assms(2) g by auto
    then have "survivor rows g = i"
      using survivor_fold [OF assms(3), of xs x] others by (simp add: survivor_def g)
    with few \<open>length g \<noteq> 1\<close> show ?thesis by (simp add: dedupe_group_def Let_def)
  qed
qed

lemma class_in_slots: "i < length ks \<Longrightarrow> class_of ks (ks ! i) \<in> set (map snd (slots 0 ks []))"
  by (simp add: slots_classes o_def)

lemma row_groups_cover:
  assumes "i < length rows"
  shows "\<exists>g \<in> set (row_groups rows). distinct g \<and> i \<in> set g"
proof -
  let ?ks = "map (\<lambda>i. if rr_full_name (rows ! i) = [] then Inl i else Inr (rr_full_name (rows ! i))) [0..<length rows]"
  have "class_of ?ks (?ks ! i) \<in> set (row_groups rows)"
    unfolding row_groups_def using assms by (intro class_in_slots) simp
  moreover have "distinct (class_of ?ks (?ks ! i))" by (simp add: class_of_def)
  moreover have "i \<in> set (class_of ?ks (?ks ! i))" using assms by (simp add: class_of_def)
  ultimately show ?thesis by blast
qed

text \<open>C14: Collapsing duplicate rows hides no failure: every row that carries an error message of its own is kept.\<close>

theorem dedupe_keeps_errors:
  assumes "r \<in> set rows" and "rr_message r \<noteq> []"
  shows "r \<in> set (dd_kept (dedupe_by_full_name rows))"
proof -
  obtain i where i: "i < length rows" "rows ! i = r" using assms(1) by (auto simp: in_set_conv_nth)
  then obtain g where g: "g \<in> set (row_groups rows)" "distinct g" "i \<in> set g" using row_groups_cover by blast
  then obtain A B where gs: "row_groups rows = A @ g # B" by (meson split_list)
  have "r \<in> set (dd_kept (dedupe_group rows g d))" for d
    using dedupe_group_error [OF g(2,3), of rows d] assms(2) i(2) by simp
  then show ?thesis by (simp add: dedupe_by_full_name_def gs fold_dedupe_keeps)
qed

section \<open>What the diagnosis does not see\<close>

lemma map_names_nth:
  "length ts' = length ts \<Longrightarrow> (\<And>j. dt_full_name (ts' ! j) = dt_full_name (ts ! j)) \<Longrightarrow> map dt_full_name ts' = map dt_full_name ts"
  by (simp add: list_eq_iff_nth_eq)

lemma build_clusters_tests: "map dt_full_name (snd (build_clusters gi gs ts)) = map dt_full_name ts"
proof (induction gs arbitrary: gi ts)
  case Nil
  then show ?case by simp
next
  case (Cons g gs)
  have "map dt_full_name (tag_group cid g ts) = map dt_full_name ts" for cid
    by (rule map_names_nth) (simp_all add: tag_group_names)
  with Cons show ?case by (simp add: Let_def)
qed

lemma diagnosed_names:
  "map dt_full_name (dg_tests (diagnose_failure sha m detail commit n summary_only pid bid rows))
   = map rr_full_name (fst (select_failing pid bid (clamp_max_tests n) rows))"
  by (auto simp: diagnose_failure_def judge_def cluster_failing_tests_def Let_def build_clusters_tests diagnose_test_def)

definition demo_result :: "int \<Rightarrow> string \<Rightarrow> string \<Rightarrow> result_row" where
  "demo_result i name msg = \<lparr>rr_id = i, rr_build = 1, rr_project = 1, rr_full_name = name, rr_status = ''failed'',
     rr_history = [], rr_message = msg, rr_duration = 100 - i, rr_retries = 0, rr_flaky = False\<rparr>"

text \<open>Two results of one parameterised test and one of another.\<close>

definition demo_results :: "result_row list" where
  "demo_results = [demo_result 1 ''a'' ''x'', demo_result 2 ''a'' ''y'', demo_result 3 ''b'' ''z'']"

lemma demo_selected:
  "map rr_full_name (fst (select_failing 1 1 (clamp_max_tests 2) demo_results)) = [''a'', ''a'']"
  "truncated_count 1 1 demo_results (fst (select_failing 1 1 (clamp_max_tests 2) demo_results)) = 0"
  by code_simp+

text \<open>A diagnosis can call itself complete and miss a failing test.  Examined rows are compared with the
  number of distinct names, so the rows of a parameterised test, which are kept apart, make up for a
  test that was never looked at.\<close>

theorem truncation_misses_a_test:
  "let d = diagnose_failure sha m detail commit 2 summary_only 1 1 demo_results
   in \<not> dg_truncated d \<and> dg_truncated_count d = 0 \<and> ''b'' \<in> set (map rr_full_name (filter (is_failed 1 1) demo_results))
      \<and> ''b'' \<notin> set (map dt_full_name (dg_tests d))"
proof -
  have "''b'' \<in> set (map rr_full_name (filter (is_failed 1 1) demo_results))" by code_simp
  moreover have "dg_truncated_count (diagnose_failure sha m detail commit 2 summary_only 1 1 demo_results) = 0"
    "\<not> dg_truncated (diagnose_failure sha m detail commit 2 summary_only 1 1 demo_results)"
    using demo_selected(2) by (simp_all add: diagnose_failure_def Let_def)
  ultimately show ?thesis by (simp add: Let_def diagnosed_names demo_selected(1) del: set_map)
qed

text \<open>Two tests that died in the before hooks, at different steps, with the same server error.\<close>

definition demo_detail :: "string \<Rightarrow> detail" where
  "demo_detail step = \<lparr>de_steps = [''before hooks'', step], de_message = ''http 500'', de_category = [],
     de_known_issue = None, de_history = [], de_last_good = Some (1, ''c''), de_attempts = []\<rparr>"

definition demo_signals :: triage_result where
  "demo_signals = \<lparr>sg_fast_fail = \<lparr>fast_fail = False, ff_duration = 7, ff_passing = None, ff_ratio = None\<rparr>,
     sg_phase = ''before_hooks'', sg_retries = ''single'',
     sg_status = Some \<lparr>status_code = 500, endpoint = [], same_across_retries = False\<rparr>,
     sg_last_status = [], sg_since_pass = 0,
     sg_category = \<lparr>hint_value = ''to_investigate'', hint_confidence = ''low'', hint_source = ''heuristic''\<rparr>\<rparr>"

definition demo_diagnosed :: "string \<Rightarrow> string list \<Rightarrow> diagnosed_test" where
  "demo_diagnosed name steps = \<lparr>dt_full_name = name, dt_error = ''http 500'', dt_steps = steps,
     dt_signals = demo_signals, dt_known_issue = None, dt_last_good = Some ''c'', dt_flaky = False, dt_cluster = []\<rparr>"

definition demo_failing :: "string \<Rightarrow> result_row" where
  "demo_failing name = \<lparr>rr_id = 1, rr_build = 1, rr_project = 1, rr_full_name = name, rr_status = ''failed'',
     rr_history = [], rr_message = ''x'', rr_duration = 7, rr_retries = 0, rr_flaky = False\<rparr>"

definition demo_tests :: "bool \<Rightarrow> diagnosed_test list" where
  "demo_tests summary_only = [diagnose_test 1 summary_only (demo_failing ''a'') (demo_detail ''p''),
      diagnose_test 1 summary_only (demo_failing ''b'') (demo_detail ''q'')]"

lemma demo_status: "compute_status_pattern ''http 500'' [] = Some \<lparr>status_code = 500, endpoint = [], same_across_retries = False\<rparr>"
  by code_simp

lemma demo_step: "step_phase ''before hooks'' = Some ''before_hooks''"
  by code_simp

lemma demo_trim: "trim_space [] = []"
  by code_simp

lemma demo_analyzed:
  "diagnose_test 1 b (demo_failing name) (demo_detail s)
   = demo_diagnosed name (if b then [] else [''before hooks'', s])"
  by (simp add: diagnose_test_def demo_failing_def demo_detail_def demo_diagnosed_def demo_signals_def analyze_def
      Let_def test_history_def previous_status_def compute_fast_fail_def demo_status demo_step retry_consistency_def
      compute_category_hint_def signals_say_infrastructure_def demo_trim signals.defs)

lemma demo_summary_keys: "map (test_key rev) [demo_diagnosed ''a'' [], demo_diagnosed ''b'' []] =
    [test_key rev (demo_diagnosed ''a'' []), test_key rev (demo_diagnosed ''a'' [])]"
  by (simp add: test_key_def demo_diagnosed_def)

lemma demo_full_keys: "map (test_key rev) [demo_diagnosed ''a'' [''before hooks'', ''p''], demo_diagnosed ''b'' [''before hooks'', ''q'']] =
    [''7000736b6f6f685f'', ''7100736b6f6f685f'']"
  by code_simp

lemma demo_groups: "group_indices [''7000736b6f6f685f'', ''7100736b6f6f685f''] = [[0], [1]]"
  "group_indices [k, k] = [[0, 1]]"
proof -
  show "group_indices [''7000736b6f6f685f'', ''7100736b6f6f685f''] = [[0], [1]]" by code_simp
  show "group_indices [k, k] = [[0, 1]]" by (simp add: group_indices_def)
qed

lemma demo_numbers: "itoa 1 = ''1''" "itoa 2 = ''2''"
  by code_simp+

lemma demo_full_clusters:
  "cluster_failing_tests rev [demo_diagnosed ''a'' [''before hooks'', ''p''], demo_diagnosed ''b'' [''before hooks'', ''q'']]
   = (map (\<lambda>(k, n). \<lparr>cl_id = k, cl_count = 1, cl_members = [n], cl_representative = n, cl_error = ''http 500'',
        cl_phase = ''before_hooks'', cl_status = Some (500, []), cl_matches = []\<rparr>) [(''c1'', ''a''), (''c2'', ''b'')],
      [[0], [1]], [(demo_diagnosed ''a'' [''before hooks'', ''p''])\<lparr>dt_cluster := ''c1''\<rparr>,
        (demo_diagnosed ''b'' [''before hooks'', ''q''])\<lparr>dt_cluster := ''c2''\<rparr>])"
  unfolding cluster_failing_tests_def Let_def demo_full_keys demo_groups
  by (simp add: Let_def demo_numbers shared_status_def tag_group_def tag_member_def demo_diagnosed_def demo_signals_def)

lemmas demo_rules = with_matches_def match_issues_def evaluate_build_verdict_def evaluate_cluster_def
  demo_diagnosed_def demo_signals_def eval_infra_env_def eval_known_issue_def eval_product_regression_def
  eval_test_bug_def eval_flaky_def eval_insufficient_def verdict_split_def distinct_in_order_def Let_def

lemma demo_full_verdict:
  "(\<lambda>v. (bv_verdict v, bv_confidence v)) (fst (judge rev [] ''c'' False
     [demo_diagnosed ''a'' [''before hooks'', ''p''], demo_diagnosed ''b'' [''before hooks'', ''q'']]))
   = (InsufficientEvidence, Low)"
  unfolding judge_def Let_def demo_full_clusters by (simp add: demo_rules)

lemma demo_summary_verdict:
  "(\<lambda>v. (bv_verdict v, bv_confidence v)) (fst (judge rev [] ''c'' False [demo_diagnosed ''a'' [], demo_diagnosed ''b'' []]))
   = (InfraEnv, High)"
  unfolding judge_def Let_def cluster_failing_tests_def demo_summary_keys demo_groups
  by (simp add: demo_rules demo_numbers shared_status_def tag_group_def tag_member_def)

text \<open>C36: Asking for a summary changes the verdict.  \<open>summary_only\<close> drops the failed-step path before the
  failures are clustered on its last step, so failures at different steps merge: two tests on which the
  full diagnosis finds insufficient evidence are an environment failure, with high confidence, in the
  summary.\<close>

theorem summary_changes_verdict:
  "let verdict = (\<lambda>summary_only. fst (judge rev [] ''c'' False (demo_tests summary_only)))
   in bv_verdict (verdict False) = InsufficientEvidence \<and> bv_confidence (verdict False) = Low
      \<and> bv_verdict (verdict True) = InfraEnv \<and> bv_confidence (verdict True) = High"
  using demo_full_verdict demo_summary_verdict by (simp add: Let_def demo_tests_def demo_analyzed)

section \<open>Concrete runs\<close>

theorem dedupe_keeps_errors_witness:
  "demo_result 2 ''a'' ''y'' \<in> set (dd_kept (dedupe_by_full_name demo_results))"
  by (rule dedupe_keeps_errors) (simp_all add: demo_results_def demo_result_def)

definition demo_linked :: diagnosed_test where
  "demo_linked = (demo_diagnosed ''a'' [])\<lparr>dt_known_issue := Some (3, ''k''), dt_signals := demo_signals\<lparr>sg_status := None\<rparr>\<rparr>"

definition demo_cluster :: cluster where
  "demo_cluster = \<lparr>cl_id = ''c1'', cl_count = 1, cl_members = [''a''], cl_representative = ''a'', cl_error = ''http 500'',
     cl_phase = ''before_hooks'', cl_status = None, cl_matches = []\<rparr>"

theorem high_confidence_is_backed_witness:
  "bv_verdict (evaluate_build_verdict [demo_linked] [demo_cluster] [[0]] ''c'' False) = KnownIssue
   \<and> backed ''c'' demo_cluster (map ((!) [demo_linked]) [0])
       (bv_verdict (evaluate_build_verdict [demo_linked] [demo_cluster] [[0]] ''c'' False))
       (bv_evidence (evaluate_build_verdict [demo_linked] [demo_cluster] [[0]] ''c'' False))"
proof -
  have e: "bv_confidence (evaluate_build_verdict [demo_linked] [demo_cluster] [[0]] ''c'' False) = High"
    "bv_verdict (evaluate_build_verdict [demo_linked] [demo_cluster] [[0]] ''c'' False) = KnownIssue"
    by (simp_all add: demo_rules demo_linked_def demo_cluster_def)
  show ?thesis using high_confidence_is_backed [OF e(1)] e(2) by simp
qed

end
