(* ===== verification/RateLimit.thy ===== *)
theory RateLimit
  imports GoStrings "HOL-Library.AList"
begin

text \<open>
  The rate limiters: the per-IP token bucket of \<open>middleware/ratelimit.go\<close> and the per-identity one of
  \<open>mcp/ratelimit.go\<close>.

  The source keeps tokens as floating-point numbers; here they are exact.  With a rate of \<open>num/den\<close>
  tokens per second, tokens are counted in units of \<open>1/(den * 10^9)\<close>, so that a nanosecond refills
  \<open>num\<close> of them.  The MCP limiter delegates its buckets to \<open>golang.org/x/time/rate\<close>, which is the
  parameter \<open>allow_n\<close>; the model has what the source adds: the bounded table and the costs.
\<close>

section \<open>The per-IP limiter\<close>

record limits =
  rate_num :: int
  rate_den :: int
  burst :: int
  ttl :: duration

record bucket =
  tokens :: int
  last_seen :: time

type_synonym clients = "string \<Rightarrow> bucket option"

definition token :: "limits \<Rightarrow> int" where
  "token l = rate_den l * 1000000000"

definition allow :: "limits \<Rightarrow> time \<Rightarrow> string \<Rightarrow> clients \<Rightarrow> bool \<times> clients" where
  "allow l now ip m =
     (case m ip of
        None \<Rightarrow> (True, m(ip \<mapsto> \<lparr>tokens = (burst l - 1) * token l, last_seen = now\<rparr>))
      | Some b \<Rightarrow>
          let n = tokens b + (now - last_seen b) * rate_num l;
              n = (if burst l * token l < n then burst l * token l else n)
          in if n < token l then (False, m(ip \<mapsto> \<lparr>tokens = n, last_seen = now\<rparr>))
             else (True, m(ip \<mapsto> \<lparr>tokens = n - token l, last_seen = now\<rparr>)))"

definition ip_cleanup :: "limits \<Rightarrow> time \<Rightarrow> clients \<Rightarrow> clients" where
  "ip_cleanup l now m = (\<lambda>ip. case m ip of None \<Rightarrow> None
     | Some b \<Rightarrow> if last_seen b < now - ttl l then None else Some b)"

text \<open>\<open>clientIP\<close>; \<open>split_host\<close> is \<open>net.SplitHostPort\<close>, without the port.\<close>

definition client_ip :: "(string \<Rightarrow> string option) \<Rightarrow> bool \<Rightarrow> string \<Rightarrow> string \<Rightarrow> string" where
  "client_ip split_host trust xff remote =
     (let ip = trim_space (hd (split_on CHR '','' xff))
      in if trust \<and> xff \<noteq> [] \<and> ip \<noteq> [] then ip
         else case split_host remote of None \<Rightarrow> remote | Some host \<Rightarrow> host)"

datatype rl_op = Request time string | Sweep time

primrec rl_time :: "rl_op \<Rightarrow> time" where
  "rl_time (Request t ip) = t"
| "rl_time (Sweep t) = t"

definition rl_step :: "limits \<Rightarrow> rl_op \<Rightarrow> clients \<Rightarrow> clients" where
  "rl_step l op m = (case op of Request t ip \<Rightarrow> snd (allow l t ip m) | Sweep t \<Rightarrow> ip_cleanup l t m)"

definition rl_run :: "limits \<Rightarrow> rl_op list \<Rightarrow> clients \<Rightarrow> clients" where
  "rl_run l ops m = fold (rl_step l) ops m"

text \<open>How many requests of an address a run lets through.\<close>

fun passed :: "limits \<Rightarrow> string \<Rightarrow> rl_op list \<Rightarrow> clients \<Rightarrow> int" where
  "passed l ip [] m = 0"
| "passed l ip (op # ops) m =
     (case op of Request t ip' \<Rightarrow> (if ip' = ip \<and> fst (allow l t ip' m) then 1 else 0) | Sweep t \<Rightarrow> 0)
     + passed l ip ops (rl_step l op m)"

section \<open>The bound\<close>

definition limits_ok :: "limits \<Rightarrow> bool" where
  "limits_ok l \<longleftrightarrow> 0 \<le> rate_num l \<and> 0 < rate_den l \<and> 1 \<le> burst l \<and> burst l * token l \<le> ttl l * rate_num l"

definition buckets_ok :: "time \<Rightarrow> clients \<Rightarrow> bool" where
  "buckets_ok now m \<longleftrightarrow> (\<forall>ip b. m ip = Some b \<longrightarrow> 0 \<le> tokens b \<and> last_seen b \<le> now)"

text \<open>What an address could spend at a time: a full bucket when it is unknown.\<close>

definition credit :: "limits \<Rightarrow> time \<Rightarrow> string \<Rightarrow> clients \<Rightarrow> int" where
  "credit l now ip m = (case m ip of None \<Rightarrow> burst l * token l
     | Some b \<Rightarrow> min (burst l * token l) (tokens b + (now - last_seen b) * rate_num l))"

lemma token_pos: "limits_ok l \<Longrightarrow> 0 < token l"
  by (simp add: limits_ok_def token_def)

lemma credit_le: "credit l now ip m \<le> burst l * token l"
  by (simp add: credit_def split: option.splits)

lemma credit_grows:
  assumes "limits_ok l" and "now \<le> t"
  shows "credit l t ip m \<le> credit l now ip m + (t - now) * rate_num l"
proof -
  have "0 \<le> (t - now) * rate_num l" using assms by (simp add: limits_ok_def)
  then show ?thesis by (simp add: credit_def algebra_simps min_def split: option.splits)
qed

lemma allow_credit:
  assumes "limits_ok l"
  shows "credit l now ip (snd (allow l now ip m)) + (if fst (allow l now ip m) then token l else 0) \<le> credit l now ip m"
proof (cases "m ip")
  case None
  have "(burst l - 1) * token l \<le> burst l * token l" using token_pos [OF assms] by (simp add: algebra_simps)
  with None show ?thesis by (simp add: allow_def credit_def algebra_simps min_def)
next
  case (Some b)
  then show ?thesis using token_pos [OF assms]
    by (simp add: allow_def credit_def Let_def min_def)
qed

lemma allow_other: "ip' \<noteq> ip \<Longrightarrow> snd (allow l now ip' m) ip = m ip"
  by (simp add: allow_def Let_def split: option.splits)

lemma allow_ok:
  assumes "limits_ok l" and "buckets_ok t m" and "t \<le> now"
  shows "buckets_ok now (snd (allow l now ip m))"
proof -
  have B: "token l \<le> burst l * token l" "0 < token l" "0 \<le> (burst l - 1) * token l"
    using assms(1) token_pos [OF assms(1)] by (simp_all add: limits_ok_def)
  have "0 \<le> tokens b + (now - last_seen b) * rate_num l" if "m ip = Some b" for b
    using that assms by (fastforce simp: buckets_ok_def limits_ok_def intro!: add_nonneg_nonneg mult_nonneg_nonneg)
  with assms(2,3) B show ?thesis
    by (fastforce simp: buckets_ok_def allow_def Let_def split: option.splits if_splits)
qed

lemma ip_cleanup_ok: "buckets_ok t m \<Longrightarrow> t \<le> now \<Longrightarrow> buckets_ok now (ip_cleanup l now m)"
  by (fastforce simp: buckets_ok_def ip_cleanup_def split: option.splits if_splits)

text \<open>An entry old enough to be removed had a full bucket, so removing it gives nothing away.\<close>

lemma ip_cleanup_credit:
  assumes "limits_ok l" and "buckets_ok t m"
  shows "credit l now ip (ip_cleanup l now m) = credit l now ip m"
proof (cases "m ip")
  case None
  then show ?thesis by (simp add: credit_def ip_cleanup_def)
next
  case (Some b)
  show ?thesis
  proof (cases "last_seen b < now - ttl l")
    case True
    then have "ttl l * rate_num l \<le> (now - last_seen b) * rate_num l"
      using assms(1) by (intro mult_right_mono) (simp_all add: limits_ok_def)
    moreover have "0 \<le> tokens b" using assms(2) Some by (simp add: buckets_ok_def)
    ultimately have "burst l * token l \<le> tokens b + (now - last_seen b) * rate_num l"
      using assms(1) by (simp add: limits_ok_def)
    with True Some show ?thesis by (simp add: credit_def ip_cleanup_def)
  next
    case False
    with Some show ?thesis by (simp add: credit_def ip_cleanup_def)
  qed
qed

lemma step_ok:
  assumes "limits_ok l" and "buckets_ok t m" and "t \<le> rl_time op"
  shows "buckets_ok (rl_time op) (rl_step l op m)"
  using assms allow_ok ip_cleanup_ok by (cases op) (auto simp: rl_step_def)

lemma passed_credit:
  assumes "limits_ok l" and "buckets_ok t m" and "sorted (t # map rl_time ops)" and "\<forall>op \<in> set ops. rl_time op \<le> t1" and "t \<le> t1"
  shows "passed l ip ops m * token l \<le> credit l t ip m + (t1 - t) * rate_num l"
  using assms(2-)
proof (induction ops arbitrary: t m)
  case Nil
  have "0 \<le> tokens b + (t - last_seen b) * rate_num l" if "m ip = Some b" for b
    using that Nil(1) assms(1) by (fastforce simp: buckets_ok_def limits_ok_def intro!: add_nonneg_nonneg mult_nonneg_nonneg)
  then have "0 \<le> credit l t ip m"
    using assms(1) token_pos [OF assms(1)] by (auto simp: credit_def limits_ok_def split: option.splits)
  moreover have "0 \<le> (t1 - t) * rate_num l" using Nil(4) assms(1) by (simp add: limits_ok_def)
  ultimately show ?case by simp
next
  case (Cons op ops)
  let ?t = "rl_time op" and ?m = "rl_step l op m"
  have t: "t \<le> ?t" "?t \<le> t1" using Cons.prems by auto
  have ok: "buckets_ok ?t ?m" using step_ok [OF assms(1) Cons.prems(1) t(1)] .
  have IH: "passed l ip ops ?m * token l \<le> credit l ?t ip ?m + (t1 - ?t) * rate_num l"
    using Cons.prems t by (intro Cons.IH [OF ok]) auto
  let ?p = "case op of Request t ip' \<Rightarrow> (if ip' = ip \<and> fst (allow l t ip' m) then 1 else 0) | Sweep t \<Rightarrow> 0"
  have "credit l ?t ip ?m + ?p * token l \<le> credit l ?t ip m"
  proof (cases op)
    case (Request u ip')
    show ?thesis
    proof (cases "ip' = ip")
      case True
      then show ?thesis using allow_credit [OF assms(1), of u ip m] Request by (auto simp: rl_step_def)
    next
      case False
      then have "credit l u ip (snd (allow l u ip' m)) = credit l u ip m"
        unfolding credit_def by (simp only: allow_other [OF False])
      then show ?thesis using Request False by (simp add: rl_step_def)
    qed
  next
    case (Sweep u)
    then show ?thesis using ip_cleanup_credit [OF assms(1) Cons.prems(1), of u ip] by (simp add: rl_step_def)
  qed
  moreover have "credit l ?t ip m \<le> credit l t ip m + (?t - t) * rate_num l"
    using credit_grows [OF assms(1) t(1)] .
  ultimately have "(?p + passed l ip ops ?m) * token l \<le> credit l t ip m + (?t - t) * rate_num l + (t1 - ?t) * rate_num l"
    using IH by (simp add: distrib_right)
  then show ?case by (simp add: algebra_simps)
qed

lemma run_ok:
  "limits_ok l \<Longrightarrow> buckets_ok t m \<Longrightarrow> sorted (t # map rl_time ops) \<Longrightarrow>
   buckets_ok (last (t # map rl_time ops)) (rl_run l ops m)"
proof (induction ops arbitrary: t m)
  case Nil
  then show ?case by (simp add: rl_run_def)
next
  case (Cons op ops)
  have "buckets_ok (rl_time op) (rl_step l op m)" using step_ok Cons.prems by simp
  then have "buckets_ok (last (rl_time op # map rl_time ops)) (rl_run l ops (rl_step l op m))"
    using Cons.prems by (intro Cons.IH) auto
  then show ?case by (simp add: rl_run_def)
qed

lemma buckets_ok_mono: "buckets_ok t m \<Longrightarrow> t \<le> u \<Longrightarrow> buckets_ok u m"
  by (fastforce simp: buckets_ok_def)

text \<open>C11: In any window of time an address gets at most the burst plus what the rate refills: whatever requests
  and sweeps came before and in between, the requests let through in \<open>[t0, t1]\<close> number at most
  \<open>burst + rate * (t1 - t0)\<close>, provided entries live long enough for their bucket to refill.\<close>

theorem window_bound:
  assumes "limits_ok l" and "sorted (map rl_time (before @ window))"
    and "\<forall>op \<in> set before. rl_time op \<le> t0" and "\<forall>op \<in> set window. t0 \<le> rl_time op \<and> rl_time op \<le> t1" and "t0 \<le> t1"
  shows "passed l ip window (rl_run l before Map.empty) * token l \<le> burst l * token l + (t1 - t0) * rate_num l"
proof -
  have "buckets_ok t0 (rl_run l before Map.empty)"
  proof (cases before)
    case Nil
    then show ?thesis by (simp add: rl_run_def buckets_ok_def)
  next
    case (Cons op ops)
    let ?t = "rl_time op"
    have "buckets_ok (last (?t # map rl_time before)) (rl_run l before Map.empty)"
      using assms(1,2) Cons by (intro run_ok) (auto simp: buckets_ok_def sorted_append)
    moreover have "last (?t # map rl_time before) \<le> t0"
      using assms(3) Cons last_in_set [of "?t # map rl_time before"] by auto
    ultimately show ?thesis by (rule buckets_ok_mono)
  qed
  moreover have "sorted (t0 # map rl_time window)" using assms(2,4) by (auto simp: sorted_append)
  ultimately have "passed l ip window (rl_run l before Map.empty) * token l
      \<le> credit l t0 ip (rl_run l before Map.empty) + (t1 - t0) * rate_num l"
    using assms by (intro passed_credit) auto
  then show ?thesis using credit_le [of l t0 ip "rl_run l before Map.empty"] by linarith
qed

text \<open>C23: A patient client is always served: whatever the limiter has seen before, a request is let through when
  the address waited for one token since the limiter last saw it.\<close>

theorem patient_client_served:
  assumes "limits_ok l" and "buckets_ok t m" and "t \<le> now"
    and "\<forall>b. m ip = Some b \<longrightarrow> token l \<le> (now - last_seen b) * rate_num l"
  shows "fst (allow l now ip m)"
proof (cases "m ip")
  case None
  then show ?thesis by (simp add: allow_def)
next
  case (Some b)
  have "0 \<le> tokens b" using assms(2) Some by (simp add: buckets_ok_def)
  moreover have "token l \<le> (now - last_seen b) * rate_num l" using assms(4) Some by blast
  moreover have "1 * token l \<le> burst l * token l"
    using assms(1) token_pos [OF assms(1)] by (intro mult_right_mono) (simp_all add: limits_ok_def)
  ultimately show ?thesis using Some by (simp add: allow_def Let_def)
qed

section \<open>The MCP limiter\<close>

definition max_entries :: nat where
  "max_entries = 10000"

text \<open>The table, most recently used first, of the limiters of the identities.\<close>

definition get_limiter :: "'l \<Rightarrow> string \<Rightarrow> (string \<times> 'l) list \<Rightarrow> 'l \<times> (string \<times> 'l) list" where
  "get_limiter fresh k es =
     (case map_of es k of
        Some lim \<Rightarrow> (lim, (k, lim) # filter (\<lambda>e. fst e \<noteq> k) es)
      | None \<Rightarrow> (fresh, (k, fresh) # (if max_entries \<le> length es then butlast es else es)))"

definition default_tool_costs :: "(string \<times> int) list" where
  "default_tool_costs = [(''diagnose_pipeline'', 8), (''diagnose_failure'', 5), (''get_test_history'', 3),
     (''compare_builds'', 3), (''get_attachment'', 3), (''find_test_by_name'', 2), (''list_proposals'', 2)]"

definition cost_of :: "(string \<times> int) list \<Rightarrow> int \<Rightarrow> string \<Rightarrow> int" where
  "cost_of costs cap name =
     (if name = [] then 1
      else case map_of costs name of
        None \<Rightarrow> 1
      | Some c \<Rightarrow> if c < 1 then 1 else if 0 < cap \<and> cap < c then cap else c)"

definition parse_cost :: "string \<Rightarrow> (string \<times> int) list \<Rightarrow> (string \<times> int) list" where
  "parse_cost pair costs =
     (let pair = trim_space pair
      in if pair = [] then costs
         else case cut CHR ''='' pair of
           None \<Rightarrow> costs
         | Some (name, raw) \<Rightarrow> (case parse_int (trim_space raw) of
             None \<Rightarrow> costs
           | Some c \<Rightarrow> if c < 1 then costs else AList.update (trim_space name) c costs))"

definition parse_tool_costs :: "string \<Rightarrow> (string \<times> int) list" where
  "parse_tool_costs raw = fold parse_cost (split_on CHR '','' raw) default_tool_costs"

text \<open>\<open>identityKey\<close>: the numeric key id when there is one, else the user, else a shared bucket.\<close>

definition identity_key :: "(int option \<times> string) option \<Rightarrow> string" where
  "identity_key info = (case info of None \<Rightarrow> ''unknown''
     | Some (key_id, user) \<Rightarrow>
         (case key_id of Some k \<Rightarrow> if k \<noteq> 0 then ''apikey:'' @ itoa k
              else if user \<noteq> [] then ''user:'' @ user else ''unknown''
            | None \<Rightarrow> if user \<noteq> [] then ''user:'' @ user else ''unknown''))"

definition mcp_request ::
  "(int \<Rightarrow> 'l \<Rightarrow> bool \<times> 'l) \<Rightarrow> 'l \<Rightarrow> (string \<times> int) list \<Rightarrow> int \<Rightarrow> (int option \<times> string) option \<Rightarrow> string
   \<Rightarrow> (string \<times> 'l) list \<Rightarrow> bool \<times> (string \<times> 'l) list" where
  "mcp_request allow_n fresh costs cap info name es =
     (let k = identity_key info; r = get_limiter fresh k es; a = allow_n (cost_of costs cap name) (fst r)
      in (fst a, AList.update k (snd a) (snd r)))"

lemma get_limiter_bounded:
  assumes "length es \<le> max_entries" and "distinct (map fst es)"
  shows "length (snd (get_limiter fresh k es)) \<le> max_entries" and "distinct (map fst (snd (get_limiter fresh k es)))"
proof -
  have "length (filter (\<lambda>e. fst e \<noteq> k) es) < length es" if "map_of es k = Some lim" for lim
    using that by (intro length_filter_less [of "(k, lim)"]) (auto dest: map_of_SomeD)
  then show "length (snd (get_limiter fresh k es)) \<le> max_entries"
    using assms(1) by (fastforce simp: get_limiter_def max_entries_def split: option.splits)
  have b: "distinct (map fst (butlast es))" using assms(2) by (simp add: map_butlast distinct_butlast)
  have "k \<notin> fst ` set (butlast es)" if "map_of es k = None"
    using that by (auto simp: map_of_eq_None_iff dest: in_set_butlastD)
  then show "distinct (map fst (snd (get_limiter fresh k es)))"
    using assms(2) b
    by (auto simp: get_limiter_def distinct_map_filter map_of_eq_None_iff split: option.splits)
qed

text \<open>Every tool stays reachable: a cost is at least one and, with a positive burst, at most the burst.\<close>

lemma cost_range: "1 \<le> cost_of costs cap name" "cap \<le> 0 \<or> cost_of costs cap name \<le> cap"
  by (auto simp: cost_of_def split: option.splits)

section \<open>Concrete runs\<close>

text \<open>The login limiter of \<open>cmd/api/main.go\<close>: five requests per second, bursts of ten, entries kept 15 minutes.\<close>

definition login_limits :: limits where
  "login_limits = \<lparr>rate_num = 5, rate_den = 1, burst = 10, ttl = 900000000000\<rparr>"

lemma login_limits_ok: "limits_ok login_limits"
  by (simp add: limits_ok_def login_limits_def token_def)

definition flood :: "rl_op list" where
  "flood = replicate 12 (Request 1 ''10.0.0.1'')"

theorem window_bound_witness:
  "passed login_limits ''10.0.0.1'' flood (rl_run login_limits [Sweep 0] Map.empty) * token login_limits
     \<le> burst login_limits * token login_limits + (1000000001 - 1) * rate_num login_limits
   \<and> passed login_limits ''10.0.0.1'' flood (rl_run login_limits [Sweep 0] Map.empty) = 10"
proof
  show "passed login_limits ''10.0.0.1'' flood (rl_run login_limits [Sweep 0] Map.empty) * token login_limits
     \<le> burst login_limits * token login_limits + (1000000001 - 1) * rate_num login_limits"
    by (rule window_bound [OF login_limits_ok]) (auto simp: flood_def)
  show "passed login_limits ''10.0.0.1'' flood (rl_run login_limits [Sweep 0] Map.empty) = 10"
    by code_simp
qed

theorem patient_client_served_witness:
  "fst (allow login_limits 300000000 ''a'' [''a'' \<mapsto> \<lparr>tokens = 0, last_seen = 100000000\<rparr>])"
  by (rule patient_client_served [OF login_limits_ok, of 100000000])
    (auto simp: buckets_ok_def login_limits_def token_def split: if_splits)

end
