(* ===== verification/Spec2Isabelle.thy ===== *)
theory Spec2Isabelle
  imports Notify Reports Jobs UserHandler KeyHandler AuthHandler Signed Review DefectLife DefectHandler Diagnose RateLimit LocalStore
begin

text \<open>
  A verification library for AllureDeck's Go server, \<open>src/api\<close>.

  AllureDeck collects Allure test results: CI jobs upload archives, the server runs the \<open>allure\<close> program on
  them, keeps numbered reports and a database of builds, tests and defects, and lets people and language-model
  agents (over MCP) triage the failures.  The library models the server's own logic in Go; each definition is
  translated from the lines that the manifest gives for it, under the source's names in lower case.

  \<^bold>\<open>How the parts interact.\<close>  A request passes the gates (\<open>AuthMw\<close>, \<open>RateLimit\<close>), reaches a handler, and the
  handler runs statements on tables and calls the storage.  An upload (\<open>Uploads\<close>) names or creates a project
  (\<open>Projects\<close>), unpacks its archive (\<open>TarExtract\<close>) into the project's directory (\<open>LocalStore\<close>) and queues a job
  (\<open>Jobs\<close>); the job generates the report (\<open>Generate\<close>), records the build (\<open>Builds\<close>), files its failures under
  defects (\<open>Fingerprint\<close>, \<open>Defects\<close>) and prunes old builds (\<open>Retention\<close>).  \<open>Diagnose\<close> reads the failures
  of a build back, with \<open>Triage\<close> and \<open>Verdict\<close>; \<open>Notify\<close> tells the webhooks (\<open>Webhooks\<close>) of a build over guarded
  requests (\<open>SafeHttp\<close>); \<open>Proposals\<close> and \<open>Review\<close> let an administrator accept what an agent
  proposes.

  \<^bold>\<open>Conventions.\<close>  A Go struct is a \<open>record\<close>, an enumeration a \<open>datatype\<close>, an int with reachable overflow is wrapped by
  \<open>wrap64\<close>, bytes and strings are HOL strings, times are integers counted in nanoseconds.  A table is the list
  of its rows; a statement is a function from table to table, with the constraints of the migrations as guards
  and its error as the left side of a sum.  A handler is one function from the server's state and the
  request to the new state and the reply.  What may fail without a trace in the code (a database call, the
  clock, random bytes) is read from the request: \<open>c_fails\<close> (or \<open>ge_fails\<close>) names the calls that fail.  Code
  outside \<open>src/\<close> is an argument: SHA-256, HMAC, bcrypt, the JWT library, \<open>encoding/json\<close> documents, \<open>compress/gzip\<close>
  and \<open>archive/tar\<close>, the \<open>allure\<close> program, OpenID providers.

  \<^bold>\<open>The theories.\<close>
  \<^item> \<open>Prelude\<close>: times, replies, tables as lists and their lemmas, 64-bit integers, and the locales the rest
    instantiates: \<open>guarded_machine\<close>, \<open>invariant_machine\<close> and \<open>bounded_machine\<close> (an invariant of a step function
    holds after every run) and \<open>keyed_table\<close> (lookup after update).
  \<^item> \<open>GoStrings\<close>, \<open>Codec\<close>, \<open>Regex\<close>, \<open>Paths\<close>: the parts of \<open>strings\<close>, \<open>strconv\<close>, \<open>encoding/hex\<close>, \<open>encoding/base64\<close>, \<open>regexp\<close>
    and \<open>path/filepath\<close> the source uses, with round trips.
  \<^item> Accounts and sessions: \<open>Users\<close> (\<open>store/pg/user.go\<close>), \<open>ApiKeys\<close> (\<open>store/pg/api_key.go\<close>), \<open>Families\<close>
    (\<open>store/pg/refresh_token_families.go\<close>), \<open>Jwt\<close> (\<open>security/jwt.go\<close>, \<open>store/pg/blacklist.go\<close>), \<open>Throttle\<close>
    (\<open>middleware/account_throttle.go\<close>; the locale \<open>account_gate\<close> states what a login relies on), \<open>ActiveCache\<close>
    (\<open>middleware/user_active_cache.go\<close>, its concurrent steps interleaved), \<open>AuthMw\<close> (\<open>middleware/auth.go\<close>,
    \<open>csrf.go\<close>), \<open>Server\<close> (the state the handlers share), \<open>AuthHandler\<close>, \<open>UserHandler\<close>, \<open>KeyHandler\<close>, \<open>AuditLog\<close>.
    Of the JWT library the hypotheses are that what it signs parses back until it expires (\<open>jwt_lib_ok\<close>) and that
    what parses verifies under the key and the method it was parsed with (\<open>jwt_lib_verified\<close>).
    The lemmas show the constraints of the tables as invariants, that spent, revoked and expired
    credentials stay useless, and the outcome of every branch of a login, a refresh and a logout.
  \<^item> Projects and files: \<open>ProjectAccess\<close> (\<open>handlers/project_id.go\<close>, \<open>pagination.go\<close>), \<open>Projects\<close>
    (\<open>store/pg/project.go\<close>, \<open>handlers/project_handler.go\<close>, \<open>project_parent.go\<close>), \<open>Files\<close> (a file system as the list of
    its entries, one function for each call of package \<open>os\<close>), \<open>LocalStore\<close> (\<open>storage/local.go\<close>).  The
    computations that stay below a directory form the collection \<open>within_intros\<close>; from them follows that a
    run of storage operations changes only what its operations reach (\<open>reaches\<close>): their projects, and, for the one
    path the store does not check, wherever the batch of \<open>keep_history\<close> leads.
  \<^item> Ingestion: \<open>TarExtract\<close> (\<open>runner/tar_extract.go\<close>), \<open>Uploads\<close> (\<open>handlers/result_upload_handler.go\<close>), \<open>Jobs\<close>
    (\<open>runner/mem_job_manager.go\<close>, a step relation at the grain of its lock), \<open>Builds\<close> (\<open>store/pg/build.go\<close>,
    \<open>branch.go\<close>, \<open>sync.go\<close>), \<open>Retention\<close> (the step after an ingestion and the daily sweep of \<open>cmd/api/main.go\<close>),
    \<open>Generate\<close> (\<open>runner/allure.go\<close>, \<open>runner/staged_tar_gz_worker.go\<close>), \<open>Reports\<close> (\<open>handlers/report_handler.go\<close>).  The
    state of the last three is \<open>world\<close>: the build tables, the defect tables the foreign keys reach, and the
    file system.
  \<^item> Notifications: \<open>SafeHttp\<close> (\<open>runner/safe_http.go\<close>: the addresses the server does not talk to, the dialer, the redirects;
    its network answers every look-up anew), \<open>Vault\<close> (\<open>security/encrypt.go\<close>), \<open>Webhooks\<close> (\<open>store/pg/webhook.go\<close>,
    \<open>handlers/webhook_handler.go\<close>), \<open>Notify\<close> (\<open>runner/river_jobmanager.go\<close>, \<open>webhook_worker.go\<close>): which webhooks a build,
    a failed job and the daily digest notify, and how a notification is delivered and recorded.
  \<^item> Defects: \<open>Fingerprint\<close> (\<open>runner/fingerprint.go\<close>, \<open>cluster.go\<close>), \<open>Defects\<close> (\<open>store/pg/defect.go\<close> and
    \<open>computeDefectFingerprints\<close>), \<open>DefectLife\<close> (the abstract life cycle of one defect and the refinement of it by
    ingestion), \<open>DefectHandler\<close> (\<open>handlers/defect_handler.go\<close>).
  \<^item> Diagnosis: \<open>Triage\<close> (\<open>triage/triage.go\<close>), \<open>Verdict\<close> (\<open>mcp/tools/diagnose_cluster.go\<close>, \<open>diagnose_verdict.go\<close>),
    \<open>Diagnose\<close> (\<open>mcp/tools/diagnose.go\<close>).
  \<^item> Proposals: \<open>Signed\<close> (\<open>mcp/signed/signed.go\<close>, \<open>mcp/tools/confirm.go\<close>), \<open>Proposals\<close> (the three tables), \<open>Review\<close>
    (\<open>handlers/proposals.go\<close>).
  \<^item> \<open>RateLimit\<close> (\<open>middleware/ratelimit.go\<close>, \<open>mcp/ratelimit.go\<close>).

  \<^bold>\<open>Bounds and fuel.\<close>  The bounded iterations of the model are those of the code: \<open>reserve_attempts\<close> gives up after
  the 50 attempts of \<open>ReserveBuild\<close>, and \<open>reserve_attempts_succeeds\<close> shows that fewer interleaved commits than
  attempts cannot defeat it; \<open>client_do\<close> follows redirects until \<open>safe_check_redirect\<close> refuses the fifth.  Three functions
  recurse by a measure (\<open>client_do\<close>, the cascade on projects, the search of regular expressions in the rest of the text); every
  other loop is structural recursion or a fold over a finite list, so every definition is total.  Termination of the job
  manager, which is a relation, is shown by a measure on its states (\<open>jobs_settle\<close>).

  \<^bold>\<open>Findings.\<close>  Where the code does not do what it or its documentation says, the property states what it does
  on every input of the situation: for instance \<open>staged_report_lost\<close>, \<open>foreign_defect_edited\<close>,
  \<open>retention_forgets_triage\<close>, \<open>sweep_ignores_branches\<close>, \<open>nested_by_race\<close>.

  \<^bold>\<open>Not modelled.\<close>  The S3 backend and the job tables of the River queue, which are calls of third-party clients; the user
  interface; generated documentation; logging, tracing and metrics; configuration parsing and wiring;
  the handlers, stores and MCP tools that only read (analytics, search, timelines, comparison, pipelines, dashboards);
  the endpoints of known issues, preferences and Playwright uploads, single sign-on and the MCP tools that file proposals,
  whose effects go through the modelled tables and storage; the parsers of
  result documents, which are field-by-field readings of JSON; HTTP itself: a request is given as decoded.
  Concurrency is modelled where the code's claims depend on it (the job manager, the activity cache,
  reservations, approvals, parents of projects); elsewhere a request is one step.
\<close>

end
